(* ===== verification/Prelude.thy ===== *)
theory Prelude
  imports Main "HOL-Library.Word"
begin

text \<open>
  Shared vocabulary of the development: the result of a Rust function (\<open>outcome\<close>), the
  arithmetic of \<open>usize\<close> as the release build has it, the checked access of a vector, and
  the lemma collections the component theories draw on.

  The kernel is built with \<open>cargo build --release\<close> (src/Makefile) and
  system/Cargo.toml does not turn \<open>overflow-checks\<close> on, so the arithmetic operators wrap
  and the shift operators mask their right operand.  The targets are 64-bit, so
  \<open>usize\<close> has 64 bits; it is modelled by \<^typ>\<open>nat\<close> with the wrap-around written out
  where the source can reach it.
\<close>

unbundle bit_operations_syntax

named_theorems outcome_iff \<open>inversion of results built by the outcome combinators\<close>
named_theorems stream_adv \<open>how far the stream readers advance\<close>

type_synonym u8 = "8 word"
type_synonym u16 = "16 word"
type_synonym u32 = "32 word"
type_synonym u64 = "64 word"


section \<open>Results of Rust functions\<close>

text \<open>
  The ways a run of an \<open>unsafe\<close> block can leave the language: an unchecked index past the
  end of its slice, a slice whose buffer has been reallocated, a read of bytes that were never
  written, a non-overlapping copy whose ranges overlap, a misaligned access, and a value that its
  type does not have.
\<close>

datatype ub = OutOfRange | DanglingRef | UninitRead | Overlap | Misaligned | InvalidValue

text \<open>
  A result is the value of an \<open>Ok\<close>, the error of an \<open>Err\<close>, a panic (\<open>unwrap\<close> of
  an \<open>Err\<close>, a slice index out of range, \<open>unreachable!\<close>, \<open>todo!\<close>), or undefined
  behaviour.
\<close>

datatype ('e, 'a) outcome = Ok 'a | Err 'e | Panic | UB ub

fun and_then :: "('e, 'a) outcome \<Rightarrow> ('a \<Rightarrow> ('e, 'b) outcome) \<Rightarrow> ('e, 'b) outcome" where
  "and_then (Ok x) f = f x"
| "and_then (Err e) f = Err e"
| "and_then Panic f = Panic"
| "and_then (UB u) f = UB u"

fun map_err :: "('e \<Rightarrow> 'f) \<Rightarrow> ('e, 'a) outcome \<Rightarrow> ('f, 'a) outcome" where
  "map_err g (Ok x) = Ok x"
| "map_err g (Err e) = Err (g e)"
| "map_err g Panic = Panic"
| "map_err g (UB u) = UB u"

definition ok_or :: "'e \<Rightarrow> 'a option \<Rightarrow> ('e, 'a) outcome" where
  "ok_or e m = (case m of None \<Rightarrow> Err e | Some x \<Rightarrow> Ok x)"

definition guard :: "bool \<Rightarrow> 'e \<Rightarrow> ('e, unit) outcome" where
  "guard b e = (if b then Ok () else Err e)"

lemma and_then_Ok_iff [outcome_iff]:
  "and_then m f = Ok y \<longleftrightarrow> (\<exists>x. m = Ok x \<and> f x = Ok y)"
  by (cases m) auto

lemma and_then_Err_iff [outcome_iff]:
  "and_then m f = Err e \<longleftrightarrow> m = Err e \<or> (\<exists>x. m = Ok x \<and> f x = Err e)"
  by (cases m) auto

lemma and_then_Panic_iff [outcome_iff]:
  "and_then m f = Panic \<longleftrightarrow> m = Panic \<or> (\<exists>x. m = Ok x \<and> f x = Panic)"
  by (cases m) auto

lemma and_then_UB_iff [outcome_iff]:
  "and_then m f = UB u \<longleftrightarrow> m = UB u \<or> (\<exists>x. m = Ok x \<and> f x = UB u)"
  by (cases m) auto

lemma and_then_assoc: "and_then (and_then m f) g = and_then m (\<lambda>x. and_then (f x) g)"
  by (cases m) auto

lemma and_then_Ok_right [simp]: "and_then m Ok = m"
  by (cases m) auto

lemma and_then_cong [fundef_cong]:
  "m = m' \<Longrightarrow> (\<And>x. m' = Ok x \<Longrightarrow> f x = g x) \<Longrightarrow> and_then m f = and_then m' g"
  by (cases m') auto

text \<open>For evaluation: the continuation stays untouched until its argument is a value.\<close>

lemma and_then_weak_cong: "m = m' \<Longrightarrow> and_then m f = and_then m' f"
  by simp

lemma map_err_Ok_iff [outcome_iff]: "map_err g m = Ok x \<longleftrightarrow> m = Ok x"
  by (cases m) auto

lemma map_err_UB_iff [outcome_iff]: "map_err g m = UB u \<longleftrightarrow> m = UB u"
  by (cases m) auto

lemma map_err_Panic_iff [outcome_iff]: "map_err g m = Panic \<longleftrightarrow> m = Panic"
  by (cases m) auto

lemma map_err_Err_iff [outcome_iff]: "map_err g m = Err e \<longleftrightarrow> (\<exists>d. m = Err d \<and> e = g d)"
  by (cases m) auto

lemma ok_or_simps [simp]: "ok_or e None = Err e" "ok_or e (Some x) = Ok x"
  by (simp_all add: ok_or_def)

lemma ok_or_iff [outcome_iff]:
  "ok_or e m = Ok x \<longleftrightarrow> m = Some x" "ok_or e m = Err d \<longleftrightarrow> m = None \<and> d = e"
  "ok_or e m \<noteq> Panic" "ok_or e m \<noteq> UB u"
  by (auto simp: ok_or_def split: option.splits)

lemma guard_iff [outcome_iff]:
  "guard b e = Ok x \<longleftrightarrow> b" "guard b e = Err d \<longleftrightarrow> \<not> b \<and> d = e"
  "guard b e \<noteq> Panic" "guard b e \<noteq> UB u"
  by (auto simp: guard_def)

lemma guard_simps [simp]: "guard True e = Ok ()" "guard False e = Err e"
  by (simp_all add: guard_def)


text \<open>A result that is \<open>Ok\<close> or \<open>Err\<close>: neither a panic nor undefined behaviour.\<close>

fun returns :: "('e, 'a) outcome \<Rightarrow> bool" where
  "returns (Ok x) = True"
| "returns (Err e) = True"
| "returns Panic = False"
| "returns (UB u) = False"

lemma returns_iff: "returns m \<longleftrightarrow> (\<exists>x. m = Ok x) \<or> (\<exists>e. m = Err e)"
  by (cases m) auto

lemma returnsD: "returns m \<Longrightarrow> m \<noteq> Panic \<and> m \<noteq> UB u"
  by auto

lemma returns_and_then [simp]:
  "returns (and_then m f) \<longleftrightarrow> returns m \<and> (\<forall>x. m = Ok x \<longrightarrow> returns (f x))"
  by (cases m) auto

lemma returns_basic [simp]:
  "returns (ok_or e m)" "returns (guard b e)" "returns (map_err g r) \<longleftrightarrow> returns r"
  by (auto simp: returns_iff outcome_iff split: option.splits simp: ok_or_def guard_def)


text \<open>A result without undefined behaviour; it may still be a panic.\<close>

fun no_ub :: "('e, 'a) outcome \<Rightarrow> bool" where
  "no_ub (UB u) = False"
| "no_ub m = True"

lemma no_ub_iff: "no_ub m \<longleftrightarrow> (\<forall>u. m \<noteq> UB u)"
  by (cases m) auto

lemma returns_no_ub: "returns m \<Longrightarrow> no_ub m"
  by (cases m) auto

lemma no_ub_and_then [simp]:
  "no_ub (and_then m f) \<longleftrightarrow> no_ub m \<and> (\<forall>x. m = Ok x \<longrightarrow> no_ub (f x))"
  by (cases m) auto

lemma no_ub_basic [simp]:
  "no_ub (ok_or e m)" "no_ub (guard b e)" "no_ub (map_err g r) \<longleftrightarrow> no_ub r"
  by (auto simp: no_ub_iff outcome_iff)


section \<open>\<open>usize\<close> arithmetic of the release build\<close>

definition usize_add :: "nat \<Rightarrow> nat \<Rightarrow> nat" where
  "usize_add a b = (a + b) mod 2 ^ 64"

definition usize_sub :: "nat \<Rightarrow> nat \<Rightarrow> nat" where
  "usize_sub a b = (if b \<le> a then a - b else 2 ^ 64 + a - b)"

lemma usize_add_exact: "a + b < 2 ^ 64 \<Longrightarrow> usize_add a b = a + b"
  by (simp add: usize_add_def)

lemma usize_sub_exact: "b \<le> a \<Longrightarrow> usize_sub a b = a - b"
  by (simp add: usize_sub_def)

lemma usize_sub_add_exact: "b \<le> a \<Longrightarrow> a - b + c < 2 ^ 64 \<Longrightarrow> usize_add (usize_sub a b) c = a - b + c"
  by (simp add: usize_sub_def usize_add_def)


section \<open>Vectors and slices\<close>

definition get_at :: "'a list \<Rightarrow> nat \<Rightarrow> 'a option" where
  "get_at xs i = (if i < length xs then Some (xs ! i) else None)"

lemma get_at_simps [simp]:
  "get_at [] i = None" "get_at (x # xs) 0 = Some x" "get_at (x # xs) (Suc i) = get_at xs i"
  by (simp_all add: get_at_def)

lemma get_at_Some_iff: "get_at xs i = Some x \<longleftrightarrow> i < length xs \<and> xs ! i = x"
  by (simp add: get_at_def)

lemma get_at_None_iff: "get_at xs i = None \<longleftrightarrow> length xs \<le> i"
  by (simp add: get_at_def not_less)

lemma get_at_in_set: "get_at xs i = Some x \<Longrightarrow> x \<in> set xs"
  by (auto simp: get_at_def split: if_splits)

lemma get_at_append_right: "get_at (xs @ ys) (length xs + i) = get_at ys i"
  by (simp add: get_at_def nth_append)

lemma get_at_mid [simp]: "get_at (xs @ y # ys) (length xs) = Some y"
  by (simp add: get_at_def)

text \<open>\<open>Vec::with_capacity(n)\<close> panics when the buffer would exceed \<open>isize::MAX\<close> bytes.\<close>

definition with_capacity :: "nat \<Rightarrow> nat \<Rightarrow> ('e, unit) outcome" where
  "with_capacity elem_size n = (if elem_size * n < 2 ^ 63 then Ok () else Panic)"

lemma with_capacity_no_ub [simp]: "no_ub (with_capacity k n)"
  by (simp add: with_capacity_def)

lemma with_capacity_iff [outcome_iff]:
  "with_capacity k n = Ok x \<longleftrightarrow> k * n < 2 ^ 63" "with_capacity k n \<noteq> Err e"
  "with_capacity k n = Panic \<longleftrightarrow> \<not> k * n < 2 ^ 63" "with_capacity k n \<noteq> UB u"
  by (auto simp: with_capacity_def)

end
