(* ===== verification/Opcode.thy ===== *)
theory Opcode
  imports Prelude
begin

text \<open>
  WebAssembly opcodes (src/lib/wasm/src/opcode.rs and opcode/): the one-byte opcodes, the
  \<open>FC\<close> prefix group, and \<open>WasmOpcode::decode\<close>.

  The regular families of \<open>WasmSingleOpcode\<close> (comparisons, integer arithmetic, loads,
  stores, conversions) are grouped by an operator enumeration, which the intermediate code of
  IntCode shares: \<open>I32LtS\<close> of the source is \<open>Op_I32Rel R_LtS\<close> here.  The opcodes that
  no arm of \<open>WasmCodeBlock::generate\<close> handles in the build without the \<open>float\<close>
  feature (tail calls and floating point) are carried by their discriminant, in
  \<open>Op_Unhandled\<close>.
\<close>

section \<open>Operator enumerations\<close>

datatype relop =
    R_Eq | R_Ne | R_LtS | R_LtU | R_GtS | R_GtU | R_LeS | R_LeU | R_GeS | R_GeU

datatype unop =
    U_Clz | U_Ctz | U_Popcnt

datatype binop =
    B_Add | B_Sub | B_Mul | B_DivS | B_DivU | B_RemS | B_RemU | B_And | B_Or | B_Xor |
  B_Shl | B_ShrS | B_ShrU | B_Rotl | B_Rotr

datatype loadop =
    L_I32Load | L_I32Load8S | L_I32Load8U | L_I32Load16S | L_I32Load16U | L_I64Load |
  L_I64Load8S | L_I64Load8U | L_I64Load16S | L_I64Load16U | L_I64Load32S | L_I64Load32U

datatype storeop =
    S_I32Store | S_I32Store8 | S_I32Store16 | S_I64Store | S_I64Store8 | S_I64Store16 |
  S_I64Store32

datatype convop =
    C_I32WrapI64 | C_I64ExtendI32S | C_I64ExtendI32U | C_I32Extend8S | C_I32Extend16S |
  C_I64Extend8S | C_I64Extend16S | C_I64Extend32S

datatype reinterpretop =
    P_I32ReinterpretF32 | P_I64ReinterpretF64 | P_F32ReinterpretI32 | P_F64ReinterpretI64

section \<open>One-byte opcodes\<close>

datatype single_opcode =
    Op_Unreachable | Op_Nop | Op_Block | Op_Loop | Op_If | Op_Else | Op_End | Op_Br |
  Op_BrIf | Op_BrTable | Op_Return | Op_Call | Op_CallIndirect | Op_Drop | Op_Select |
  Op_LocalGet | Op_LocalSet | Op_LocalTee | Op_GlobalGet | Op_GlobalSet | Op_MemorySize |
  Op_MemoryGrow | Op_I32Const | Op_I64Const | Op_I32Eqz | Op_I64Eqz | Op_PrefixFC |
  Op_PrefixFD
  | Op_Load loadop | Op_Store storeop
  | Op_I32Rel relop | Op_I64Rel relop | Op_I32Un unop | Op_I64Un unop
  | Op_I32Bin binop | Op_I64Bin binop | Op_Conv convop | Op_Reinterpret reinterpretop
  | Op_Unhandled u8

text \<open>The two halves of the match in \<open>WasmSingleOpcode::new\<close>.\<close>

definition single_table_lo :: "(u8 \<times> single_opcode) list" where
  "single_table_lo = [(0x00, Op_Unreachable), (0x01, Op_Nop), (0x02, Op_Block), (0x03, Op_Loop), (0x04, Op_If),
     (0x05, Op_Else), (0x0B, Op_End), (0x0C, Op_Br), (0x0D, Op_BrIf), (0x0E, Op_BrTable),
     (0x0F, Op_Return), (0x10, Op_Call), (0x11, Op_CallIndirect), (0x12, Op_Unhandled 0x12),
     (0x13, Op_Unhandled 0x13), (0x1A, Op_Drop), (0x1B, Op_Select), (0x20, Op_LocalGet),
     (0x21, Op_LocalSet), (0x22, Op_LocalTee), (0x23, Op_GlobalGet), (0x24, Op_GlobalSet),
     (0x28, Op_Load L_I32Load), (0x29, Op_Load L_I64Load), (0x2A, Op_Unhandled 0x2A),
     (0x2B, Op_Unhandled 0x2B), (0x2C, Op_Load L_I32Load8S), (0x2D, Op_Load L_I32Load8U),
     (0x2E, Op_Load L_I32Load16S), (0x2F, Op_Load L_I32Load16U),
     (0x30, Op_Load L_I64Load8S), (0x31, Op_Load L_I64Load8U), (0x32, Op_Load L_I64Load16S),
     (0x33, Op_Load L_I64Load16U), (0x34, Op_Load L_I64Load32S),
     (0x35, Op_Load L_I64Load32U), (0x36, Op_Store S_I32Store), (0x37, Op_Store S_I64Store),
     (0x38, Op_Unhandled 0x38), (0x39, Op_Unhandled 0x39), (0x3A, Op_Store S_I32Store8),
     (0x3B, Op_Store S_I32Store16), (0x3C, Op_Store S_I64Store8),
     (0x3D, Op_Store S_I64Store16), (0x3E, Op_Store S_I64Store32), (0x3F, Op_MemorySize),
     (0x40, Op_MemoryGrow), (0x41, Op_I32Const), (0x42, Op_I64Const),
     (0x43, Op_Unhandled 0x43), (0x44, Op_Unhandled 0x44), (0x45, Op_I32Eqz),
     (0x46, Op_I32Rel R_Eq), (0x47, Op_I32Rel R_Ne), (0x48, Op_I32Rel R_LtS),
     (0x49, Op_I32Rel R_LtU), (0x4A, Op_I32Rel R_GtS), (0x4B, Op_I32Rel R_GtU),
     (0x4C, Op_I32Rel R_LeS), (0x4D, Op_I32Rel R_LeU), (0x4E, Op_I32Rel R_GeS),
     (0x4F, Op_I32Rel R_GeU), (0x50, Op_I64Eqz), (0x51, Op_I64Rel R_Eq),
     (0x52, Op_I64Rel R_Ne), (0x53, Op_I64Rel R_LtS), (0x54, Op_I64Rel R_LtU),
     (0x55, Op_I64Rel R_GtS), (0x56, Op_I64Rel R_GtU), (0x57, Op_I64Rel R_LeS),
     (0x58, Op_I64Rel R_LeU), (0x59, Op_I64Rel R_GeS), (0x5A, Op_I64Rel R_GeU),
     (0x5B, Op_Unhandled 0x5B), (0x5C, Op_Unhandled 0x5C), (0x5D, Op_Unhandled 0x5D),
     (0x5E, Op_Unhandled 0x5E), (0x5F, Op_Unhandled 0x5F), (0x60, Op_Unhandled 0x60),
     (0x61, Op_Unhandled 0x61), (0x62, Op_Unhandled 0x62), (0x63, Op_Unhandled 0x63),
     (0x64, Op_Unhandled 0x64), (0x65, Op_Unhandled 0x65), (0x66, Op_Unhandled 0x66)]"

definition single_table_hi :: "(u8 \<times> single_opcode) list" where
  "single_table_hi = [(0x67, Op_I32Un U_Clz), (0x68, Op_I32Un U_Ctz), (0x69, Op_I32Un U_Popcnt),
     (0x6A, Op_I32Bin B_Add), (0x6B, Op_I32Bin B_Sub), (0x6C, Op_I32Bin B_Mul),
     (0x6D, Op_I32Bin B_DivS), (0x6E, Op_I32Bin B_DivU), (0x6F, Op_I32Bin B_RemS),
     (0x70, Op_I32Bin B_RemU), (0x71, Op_I32Bin B_And), (0x72, Op_I32Bin B_Or),
     (0x73, Op_I32Bin B_Xor), (0x74, Op_I32Bin B_Shl), (0x75, Op_I32Bin B_ShrS),
     (0x76, Op_I32Bin B_ShrU), (0x77, Op_I32Bin B_Rotl), (0x78, Op_I32Bin B_Rotr),
     (0x79, Op_I64Un U_Clz), (0x7A, Op_I64Un U_Ctz), (0x7B, Op_I64Un U_Popcnt),
     (0x7C, Op_I64Bin B_Add), (0x7D, Op_I64Bin B_Sub), (0x7E, Op_I64Bin B_Mul),
     (0x7F, Op_I64Bin B_DivS), (0x80, Op_I64Bin B_DivU), (0x81, Op_I64Bin B_RemS),
     (0x82, Op_I64Bin B_RemU), (0x83, Op_I64Bin B_And), (0x84, Op_I64Bin B_Or),
     (0x85, Op_I64Bin B_Xor), (0x86, Op_I64Bin B_Shl), (0x87, Op_I64Bin B_ShrS),
     (0x88, Op_I64Bin B_ShrU), (0x89, Op_I64Bin B_Rotl), (0x8A, Op_I64Bin B_Rotr),
     (0x8B, Op_Unhandled 0x8B), (0x8C, Op_Unhandled 0x8C), (0x8D, Op_Unhandled 0x8D),
     (0x8E, Op_Unhandled 0x8E), (0x8F, Op_Unhandled 0x8F), (0x90, Op_Unhandled 0x90),
     (0x91, Op_Unhandled 0x91), (0x92, Op_Unhandled 0x92), (0x93, Op_Unhandled 0x93),
     (0x94, Op_Unhandled 0x94), (0x95, Op_Unhandled 0x95), (0x96, Op_Unhandled 0x96),
     (0x97, Op_Unhandled 0x97), (0x98, Op_Unhandled 0x98), (0x99, Op_Unhandled 0x99),
     (0x9A, Op_Unhandled 0x9A), (0x9B, Op_Unhandled 0x9B), (0x9C, Op_Unhandled 0x9C),
     (0x9D, Op_Unhandled 0x9D), (0x9E, Op_Unhandled 0x9E), (0x9F, Op_Unhandled 0x9F),
     (0xA0, Op_Unhandled 0xA0), (0xA1, Op_Unhandled 0xA1), (0xA2, Op_Unhandled 0xA2),
     (0xA3, Op_Unhandled 0xA3), (0xA4, Op_Unhandled 0xA4), (0xA5, Op_Unhandled 0xA5),
     (0xA6, Op_Unhandled 0xA6), (0xA7, Op_Conv C_I32WrapI64), (0xA8, Op_Unhandled 0xA8),
     (0xA9, Op_Unhandled 0xA9), (0xAA, Op_Unhandled 0xAA), (0xAB, Op_Unhandled 0xAB),
     (0xAC, Op_Conv C_I64ExtendI32S), (0xAD, Op_Conv C_I64ExtendI32U),
     (0xAE, Op_Unhandled 0xAE), (0xAF, Op_Unhandled 0xAF), (0xB0, Op_Unhandled 0xB0),
     (0xB1, Op_Unhandled 0xB1), (0xB2, Op_Unhandled 0xB2), (0xB3, Op_Unhandled 0xB3),
     (0xB4, Op_Unhandled 0xB4), (0xB5, Op_Unhandled 0xB5), (0xB6, Op_Unhandled 0xB6),
     (0xB7, Op_Unhandled 0xB7), (0xB8, Op_Unhandled 0xB8), (0xB9, Op_Unhandled 0xB9),
     (0xBA, Op_Unhandled 0xBA), (0xBB, Op_Unhandled 0xBB),
     (0xBC, Op_Reinterpret P_I32ReinterpretF32), (0xBD, Op_Reinterpret P_I64ReinterpretF64),
     (0xBE, Op_Reinterpret P_F32ReinterpretI32), (0xBF, Op_Reinterpret P_F64ReinterpretI64),
     (0xC0, Op_Conv C_I32Extend8S), (0xC1, Op_Conv C_I32Extend16S),
     (0xC2, Op_Conv C_I64Extend8S), (0xC3, Op_Conv C_I64Extend16S),
     (0xC4, Op_Conv C_I64Extend32S), (0xFC, Op_PrefixFC), (0xFD, Op_PrefixFD)]"

definition single_new :: "u8 \<Rightarrow> single_opcode option" where
  "single_new value = map_of (single_table_lo @ single_table_hi) value"

text \<open>The discriminant of an opcode, \<open>opcode as u8\<close>.\<close>

primrec relop_index :: "relop \<Rightarrow> u8" where
  "relop_index R_Eq = 0"
| "relop_index R_Ne = 1"
| "relop_index R_LtS = 2"
| "relop_index R_LtU = 3"
| "relop_index R_GtS = 4"
| "relop_index R_GtU = 5"
| "relop_index R_LeS = 6"
| "relop_index R_LeU = 7"
| "relop_index R_GeS = 8"
| "relop_index R_GeU = 9"

primrec unop_index :: "unop \<Rightarrow> u8" where
  "unop_index U_Clz = 0"
| "unop_index U_Ctz = 1"
| "unop_index U_Popcnt = 2"

primrec binop_index :: "binop \<Rightarrow> u8" where
  "binop_index B_Add = 0"
| "binop_index B_Sub = 1"
| "binop_index B_Mul = 2"
| "binop_index B_DivS = 3"
| "binop_index B_DivU = 4"
| "binop_index B_RemS = 5"
| "binop_index B_RemU = 6"
| "binop_index B_And = 7"
| "binop_index B_Or = 8"
| "binop_index B_Xor = 9"
| "binop_index B_Shl = 10"
| "binop_index B_ShrS = 11"
| "binop_index B_ShrU = 12"
| "binop_index B_Rotl = 13"
| "binop_index B_Rotr = 14"

primrec loadop_byte :: "loadop \<Rightarrow> u8" where
  "loadop_byte L_I32Load = 0x28"
| "loadop_byte L_I32Load8S = 0x2C"
| "loadop_byte L_I32Load8U = 0x2D"
| "loadop_byte L_I32Load16S = 0x2E"
| "loadop_byte L_I32Load16U = 0x2F"
| "loadop_byte L_I64Load = 0x29"
| "loadop_byte L_I64Load8S = 0x30"
| "loadop_byte L_I64Load8U = 0x31"
| "loadop_byte L_I64Load16S = 0x32"
| "loadop_byte L_I64Load16U = 0x33"
| "loadop_byte L_I64Load32S = 0x34"
| "loadop_byte L_I64Load32U = 0x35"

primrec storeop_byte :: "storeop \<Rightarrow> u8" where
  "storeop_byte S_I32Store = 0x36"
| "storeop_byte S_I32Store8 = 0x3A"
| "storeop_byte S_I32Store16 = 0x3B"
| "storeop_byte S_I64Store = 0x37"
| "storeop_byte S_I64Store8 = 0x3C"
| "storeop_byte S_I64Store16 = 0x3D"
| "storeop_byte S_I64Store32 = 0x3E"

primrec convop_byte :: "convop \<Rightarrow> u8" where
  "convop_byte C_I32WrapI64 = 0xA7"
| "convop_byte C_I64ExtendI32S = 0xAC"
| "convop_byte C_I64ExtendI32U = 0xAD"
| "convop_byte C_I32Extend8S = 0xC0"
| "convop_byte C_I32Extend16S = 0xC1"
| "convop_byte C_I64Extend8S = 0xC2"
| "convop_byte C_I64Extend16S = 0xC3"
| "convop_byte C_I64Extend32S = 0xC4"

primrec reinterpretop_byte :: "reinterpretop \<Rightarrow> u8" where
  "reinterpretop_byte P_I32ReinterpretF32 = 0xBC"
| "reinterpretop_byte P_I64ReinterpretF64 = 0xBD"
| "reinterpretop_byte P_F32ReinterpretI32 = 0xBE"
| "reinterpretop_byte P_F64ReinterpretI64 = 0xBF"

primrec single_byte :: "single_opcode \<Rightarrow> u8" where
  "single_byte Op_Unreachable = 0x00"
| "single_byte Op_Nop = 0x01"
| "single_byte Op_Block = 0x02"
| "single_byte Op_Loop = 0x03"
| "single_byte Op_If = 0x04"
| "single_byte Op_Else = 0x05"
| "single_byte Op_End = 0x0B"
| "single_byte Op_Br = 0x0C"
| "single_byte Op_BrIf = 0x0D"
| "single_byte Op_BrTable = 0x0E"
| "single_byte Op_Return = 0x0F"
| "single_byte Op_Call = 0x10"
| "single_byte Op_CallIndirect = 0x11"
| "single_byte Op_Drop = 0x1A"
| "single_byte Op_Select = 0x1B"
| "single_byte Op_LocalGet = 0x20"
| "single_byte Op_LocalSet = 0x21"
| "single_byte Op_LocalTee = 0x22"
| "single_byte Op_GlobalGet = 0x23"
| "single_byte Op_GlobalSet = 0x24"
| "single_byte Op_MemorySize = 0x3F"
| "single_byte Op_MemoryGrow = 0x40"
| "single_byte Op_I32Const = 0x41"
| "single_byte Op_I64Const = 0x42"
| "single_byte Op_I32Eqz = 0x45"
| "single_byte Op_I64Eqz = 0x50"
| "single_byte Op_PrefixFC = 0xFC"
| "single_byte Op_PrefixFD = 0xFD"
| "single_byte (Op_Load k) = loadop_byte k"
| "single_byte (Op_Store k) = storeop_byte k"
| "single_byte (Op_I32Rel r) = 0x46 + relop_index r"
| "single_byte (Op_I64Rel r) = 0x51 + relop_index r"
| "single_byte (Op_I32Un u) = 0x67 + unop_index u"
| "single_byte (Op_I64Un u) = 0x79 + unop_index u"
| "single_byte (Op_I32Bin b) = 0x6A + binop_index b"
| "single_byte (Op_I64Bin b) = 0x7C + binop_index b"
| "single_byte (Op_Conv c) = convop_byte c"
| "single_byte (Op_Reinterpret p) = reinterpretop_byte p"
| "single_byte (Op_Unhandled b) = b"


section \<open>Prefixed opcodes and decoding\<close>

datatype opcode_fc =
    MemoryInit | DataDrop | MemoryCopy_FC | MemoryFill_FC | TableInit | ElemDrop | TableCopy

definition fc_new :: "u32 \<Rightarrow> opcode_fc option" where
  "fc_new value =
     (if value = 0x08 then Some MemoryInit
      else if value = 0x09 then Some DataDrop
      else if value = 0x0A then Some MemoryCopy_FC
      else if value = 0x0B then Some MemoryFill_FC
      else if value = 0x0C then Some TableInit
      else if value = 0x0D then Some ElemDrop
      else if value = 0x0E then Some TableCopy
      else None)"

text \<open>\<open>WasmOpcodeFD\<close> is an empty struct whose \<open>new\<close> always returns \<open>None\<close>.\<close>

datatype opcode_fd = FD

definition fd_new :: "u32 \<Rightarrow> opcode_fd option" where
  "fd_new value = None"

datatype opcode = Single single_opcode | PrefixFC opcode_fc | PrefixFD opcode_fd

text \<open>
  \<open>WasmOpcode::decode\<close>: \<open>trail\<close> reads the code after a prefix byte and returns it with
  the stream it leaves; a plain opcode leaves the stream \<open>s\<close> alone.
\<close>

definition decode :: "u8 \<Rightarrow> 'e \<Rightarrow> ('s \<Rightarrow> ('e, u32 \<times> 's) outcome) \<Rightarrow> 's \<Rightarrow> ('e, opcode \<times> 's) outcome" where
  "decode lead failure trail s =
     (case single_new lead of
        Some Op_PrefixFC \<Rightarrow>
          and_then (trail s) (\<lambda>(v, s'). and_then (ok_or failure (fc_new v)) (\<lambda>c. Ok (PrefixFC c, s')))
      | Some Op_PrefixFD \<Rightarrow>
          and_then (trail s) (\<lambda>(v, s'). and_then (ok_or failure (fd_new v)) (\<lambda>c. Ok (PrefixFD c, s')))
      | Some c \<Rightarrow> Ok (Single c, s)
      | None \<Rightarrow> Err failure)"

primrec fc_code :: "opcode_fc \<Rightarrow> u32" where
  "fc_code MemoryInit = 0x08"
| "fc_code DataDrop = 0x09"
| "fc_code MemoryCopy_FC = 0x0A"
| "fc_code MemoryFill_FC = 0x0B"
| "fc_code TableInit = 0x0C"
| "fc_code ElemDrop = 0x0D"
| "fc_code TableCopy = 0x0E"

primrec leading_byte :: "opcode \<Rightarrow> u8" where
  "leading_byte (Single v) = single_byte v"
| "leading_byte (PrefixFC v) = 0xFC"
| "leading_byte (PrefixFD v) = 0xFD"

primrec trail_code :: "opcode \<Rightarrow> u32 option" where
  "trail_code (Single v) = None"
| "trail_code (PrefixFC v) = Some (fc_code v)"
| "trail_code (PrefixFD v) = None"


section \<open>Decoding and discriminants agree\<close>

text \<open>Every byte that decodes, decodes to an opcode with that discriminant.\<close>

lemma single_table_byte:
  "(b, c) \<in> set (single_table_lo @ single_table_hi) \<Longrightarrow> single_byte c = b"
proof -
  have "\<forall>(b, c) \<in> set (single_table_lo @ single_table_hi). single_byte c = b"
    by (simp add: single_table_lo_def single_table_hi_def)
  then show "(b, c) \<in> set (single_table_lo @ single_table_hi) \<Longrightarrow> single_byte c = b"
    by blast
qed

lemma single_byte_new: "single_new b = Some c \<Longrightarrow> single_byte c = b"
  unfolding single_new_def by (rule single_table_byte) (rule map_of_SomeD)

lemma single_new_inj: "single_new a = Some c \<Longrightarrow> single_new b = Some c \<Longrightarrow> a = b"
  using single_byte_new by blast

lemma fc_new_code: "fc_new (fc_code c) = Some c"
  by (cases c) (simp_all add: fc_new_def)

lemma fc_code_new: "fc_new v = Some c \<Longrightarrow> fc_code c = v"
  by (auto simp: fc_new_def split: if_splits)

lemma decode_no_failure_state:
  "decode lead failure trail s = Ok (c, s') \<Longrightarrow>
     s' = s \<or> (\<exists>v. trail s = Ok (v, s'))"
  by (auto simp: decode_def outcome_iff split: option.splits single_opcode.splits)

end
