(* ===== verification/WasmTypes.thy ===== *)
theory WasmTypes
  imports Opcode
begin

text \<open>
  The value-level vocabulary of the runtime (src/lib/wasm/src/wasm.rs): value and block types,
  the two error enumerations, tagged values (\<open>WasmValue\<close>), the untagged union of the value
  stack (\<open>WasmUnsafeValue\<close>) and global variables.

  Integers keep their width.  \<open>i32\<close> and \<open>u32\<close> share the type \<^typ>\<open>u32\<close>, read with
  \<open>sint\<close> or \<open>uint\<close>; floating-point values are carried by their bit pattern.
\<close>

section \<open>Types and errors\<close>

datatype val_type = I32 | I64 | F32 | F64

datatype decode_error =
    BadExecutable | UnexpectedEof | UnexpectedToken | InvalidBytecode u8
  | UnsupportedOpCode opcode | UnsupportedGlobalType | InvalidParameter | InvalidStackLevel
  | InvalidType | InvalidGlobal | InvalidLocal | OutOfStack | OutOfBranch | OutOfMemory
  | TypeMismatch | BlockMismatch | ElseWithoutIf | NoMethod "u8 list" | NoModule "u8 list"

datatype runtime_error =
    RtExit | RtInvalidParameter | RtNotSupprted | RtUnreachable | RtOutOfBounds
  | RtOutOfMemory | RtNoMethod | RtDivideByZero | RtTypeMismatch

definition val_type_from_u64 :: "u64 \<Rightarrow> (decode_error, val_type) outcome" where
  "val_type_from_u64 v =
     (if v = 0x7F then Ok I32
      else if v = 0x7E then Ok I64
      else if v = 0x7D then Ok F32
      else if v = 0x7C then Ok F64
      else Err UnexpectedToken)"

primrec val_type_mnemonic :: "val_type \<Rightarrow> char" where
  "val_type_mnemonic I32 = CHR ''i''"
| "val_type_mnemonic I64 = CHR ''l''"
| "val_type_mnemonic F32 = CHR ''f''"
| "val_type_mnemonic F64 = CHR ''d''"

datatype block_type = BT_Empty | BT_I32 | BT_I64 | BT_F32 | BT_F64

text \<open>The argument is the \<open>i64\<close> that \<open>read_signed\<close> returns, as its 64 bits.\<close>

definition block_type_from_i64 :: "u64 \<Rightarrow> (decode_error, block_type) outcome" where
  "block_type_from_i64 v =
     (let i = sint v in
      if i = -64 then Ok BT_Empty
      else if i = -1 then Ok BT_I32
      else if i = -2 then Ok BT_I64
      else if i = -3 then Ok BT_F32
      else if i = -4 then Ok BT_F64
      else Err InvalidParameter)"

primrec block_into_type :: "block_type \<Rightarrow> val_type option" where
  "block_into_type BT_Empty = None"
| "block_into_type BT_I32 = Some I32"
| "block_into_type BT_I64 = Some I64"
| "block_into_type BT_F32 = Some F32"
| "block_into_type BT_F64 = Some F64"

record wasm_limit =
  limit_min :: u32
  limit_max :: u32

record wasm_type =
  param_types :: "val_type list"
  result_types :: "val_type list"

definition signature :: "wasm_type \<Rightarrow> string" where
  "signature t =
     (let res = (if result_types t = [] then ''v'' else map val_type_mnemonic (result_types t));
          par = (if param_types t = [] then ''v'' else map val_type_mnemonic (param_types t))
      in res @ par)"


section \<open>Tagged values\<close>

datatype wasm_value = V_I32 u32 | V_I64 u64 | V_F32 u32 | V_F64 u64

primrec default_for :: "val_type \<Rightarrow> wasm_value" where
  "default_for I32 = V_I32 0"
| "default_for I64 = V_I64 0"
| "default_for F32 = V_F32 0"
| "default_for F64 = V_F64 0"

primrec value_type :: "wasm_value \<Rightarrow> val_type" where
  "value_type (V_I32 _) = I32"
| "value_type (V_I64 _) = I64"
| "value_type (V_F32 _) = F32"
| "value_type (V_F64 _) = F64"

fun is_valid_type :: "wasm_value \<Rightarrow> val_type \<Rightarrow> bool" where
  "is_valid_type (V_I32 _) I32 = True"
| "is_valid_type (V_I64 _) I64 = True"
| "is_valid_type (V_F32 _) F32 = True"
| "is_valid_type (V_F64 _) F64 = True"
| "is_valid_type _ _ = False"

fun value_get_u32 :: "wasm_value \<Rightarrow> (runtime_error, u32) outcome" where
  "value_get_u32 (V_I32 a) = Ok a"
| "value_get_u32 _ = Err RtTypeMismatch"

fun value_get_u64 :: "wasm_value \<Rightarrow> (runtime_error, u64) outcome" where
  "value_get_u64 (V_I64 a) = Ok a"
| "value_get_u64 _ = Err RtTypeMismatch"

lemma is_valid_type_iff: "is_valid_type v t \<longleftrightarrow> value_type v = t"
  by (cases v; cases t) simp_all

lemma default_for_type [simp]: "value_type (default_for t) = t"
  by (cases t) simp_all

lemma signature_nonempty: "2 \<le> length (signature t)"
  by (cases "param_types t"; cases "result_types t") (auto simp: signature_def)


section \<open>The union of the value stack\<close>

text \<open>
  \<open>WasmUnsafeValue\<close> is a union of eight bytes.  \<open>W64 w\<close> is a slot all of whose bytes
  are written; \<open>W32 w\<close> is one whose 32-bit field was written last, so that the upper four
  bytes are not initialised.  Reading 32 bits of a \<open>W64\<close> gives its low half (the targets are
  little-endian); reading 64 bits of a \<open>W32\<close> reads uninitialised bytes.
\<close>

datatype unsafe_value = W32 u32 | W64 u64

definition uv_zero :: unsafe_value where
  "uv_zero = W64 0"

definition uv_from_bool :: "bool \<Rightarrow> unsafe_value" where
  "uv_from_bool v = (if v then W64 1 else W64 0)"

primrec uv_get_u32 :: "unsafe_value \<Rightarrow> u32" where
  "uv_get_u32 (W32 w) = w"
| "uv_get_u32 (W64 w) = ucast w"

primrec uv_get_u64 :: "unsafe_value \<Rightarrow> ('e, u64) outcome" where
  "uv_get_u64 (W32 w) = UB UninitRead"
| "uv_get_u64 (W64 w) = Ok w"

definition uv_get_bool :: "unsafe_value \<Rightarrow> bool" where
  "uv_get_bool v = (uv_get_u32 v \<noteq> 0)"

definition uv_get_u8 :: "unsafe_value \<Rightarrow> u8" where
  "uv_get_u8 v = ucast (uv_get_u32 v)"

definition uv_get_u16 :: "unsafe_value \<Rightarrow> u16" where
  "uv_get_u16 v = ucast (uv_get_u32 v)"

text \<open>\<open>map_i32\<close> and \<open>map_u32\<close>: on a 64-bit target \<open>copy_from_i32\<close> copies the whole union.\<close>

definition uv_map_u32 :: "(u32 \<Rightarrow> u32) \<Rightarrow> unsafe_value \<Rightarrow> unsafe_value" where
  "uv_map_u32 f v = W32 (f (uv_get_u32 v))"

definition uv_map_u64 :: "(u64 \<Rightarrow> u64) \<Rightarrow> unsafe_value \<Rightarrow> ('e, unsafe_value) outcome" where
  "uv_map_u64 f v = and_then (uv_get_u64 v) (\<lambda>w. Ok (W64 (f w)))"

primrec uv_from_value :: "wasm_value \<Rightarrow> unsafe_value" where
  "uv_from_value (V_I32 v) = W32 v"
| "uv_from_value (V_I64 v) = W64 v"
| "uv_from_value (V_F32 v) = W32 v"
| "uv_from_value (V_F64 v) = W64 v"

primrec uv_get_by_type :: "val_type \<Rightarrow> unsafe_value \<Rightarrow> ('e, wasm_value) outcome" where
  "uv_get_by_type I32 v = Ok (V_I32 (uv_get_u32 v))"
| "uv_get_by_type I64 v = and_then (uv_get_u64 v) (\<lambda>w. Ok (V_I64 w))"
| "uv_get_by_type F32 v = Ok (V_F32 (uv_get_u32 v))"
| "uv_get_by_type F64 v = and_then (uv_get_u64 v) (\<lambda>w. Ok (V_F64 w))"

lemma uv_get_by_type_type: "uv_get_by_type t v = Ok x \<Longrightarrow> value_type x = t"
  by (cases t) (auto simp: outcome_iff)

lemma uv_get_by_type_from_value: "uv_get_by_type (value_type v) (uv_from_value v) = Ok v"
  by (cases v) simp_all

lemma uv_get_bool_from_bool [simp]: "uv_get_bool (uv_from_bool b) = b"
  by (simp add: uv_get_bool_def uv_from_bool_def)

lemma uv_get_u64_iff [outcome_iff]:
  "uv_get_u64 v = Ok w \<longleftrightarrow> v = W64 w" "uv_get_u64 v \<noteq> Err e" "uv_get_u64 v \<noteq> Panic"
  "uv_get_u64 v \<noteq> UB OutOfRange" "uv_get_u64 v \<noteq> UB DanglingRef"
  by (cases v; simp)+

lemma uv_get_by_type_iff [outcome_iff]:
  "uv_get_by_type t v \<noteq> Err e" "uv_get_by_type t v \<noteq> Panic"
  "uv_get_by_type t v \<noteq> UB OutOfRange" "uv_get_by_type t v \<noteq> UB DanglingRef"
  by (cases t; simp add: outcome_iff)+


section \<open>Global variables\<close>

record wasm_global =
  g_data :: u32
  g_type :: val_type
  g_mutable :: bool

definition global_new :: "wasm_value \<Rightarrow> bool \<Rightarrow> (decode_error, wasm_global) outcome" where
  "global_new val mut =
     and_then (map_err (\<lambda>_. UnsupportedGlobalType) (value_get_u32 val))
       (\<lambda>v. Ok \<lparr>g_data = v, g_type = value_type val, g_mutable = mut\<rparr>)"

definition global_value :: "wasm_global \<Rightarrow> wasm_value" where
  "global_value g = V_I32 (g_data g)"

definition global_set_value :: "wasm_global \<Rightarrow> unsafe_value \<Rightarrow> wasm_global" where
  "global_set_value g v = g\<lparr>g_data := uv_get_u32 v\<rparr>"

text \<open>A global that can be created is an \<open>i32\<close>, and reading it gives the value it was made of.\<close>

lemma global_new_i32:
  "global_new val mut = Ok g \<Longrightarrow> g_type g = I32 \<and> g_mutable g = mut \<and> global_value g = val"
  by (cases val) (auto simp: global_new_def global_value_def outcome_iff)

lemma global_set_get: "global_value (global_set_value g (W32 w)) = V_I32 w"
  by (simp add: global_value_def global_set_value_def)

end
