(* ===== verification/Leb128.thy ===== *)
theory Leb128
  imports WasmTypes
begin

text \<open>
  \<open>Leb128Stream\<close> and \<open>WasmSection\<close> of src/lib/wasm/src/wasm.rs: a cursor over a byte
  slice that reads bytes, LEB128 integers, strings, opcodes and section headers.

  A reader takes the stream and returns the value with the stream it leaves.  No reader moves
  the cursor when it fails, and every caller drops the stream on an error, so an error carries
  no stream.  The cursor is a \<open>usize\<close>; the only sums on it that could wrap,
  \<open>position + size\<close> in \<open>get_bytes\<close> and \<open>position + length\<close> in
  \<open>next_section\<close>, are ends of a slice: wrapped, they lie before the start of the slice, and
  unwrapped beyond the end of the blob, and both are rejected alike.

  The locale \<open>reader\<close> states what the callers rely on (a successful read moves the cursor
  forward inside an unchanged blob) and proves the counted loops over readers once.
\<close>

section \<open>The stream\<close>

record leb128_stream =
  blob :: "u8 list"
  position :: nat

definition from_slice :: "u8 list \<Rightarrow> leb128_stream" where
  "from_slice bs = \<lparr>blob = bs, position = 0\<rparr>"

definition stream_reset :: "leb128_stream \<Rightarrow> leb128_stream" where
  "stream_reset s = s\<lparr>position := 0\<rparr>"

definition set_position :: "nat \<Rightarrow> leb128_stream \<Rightarrow> leb128_stream" where
  "set_position val s = s\<lparr>position := val\<rparr>"

definition is_eof :: "leb128_stream \<Rightarrow> bool" where
  "is_eof s \<longleftrightarrow> length (blob s) \<le> position s"

definition read_byte :: "leb128_stream \<Rightarrow> (decode_error, u8 \<times> leb128_stream) outcome" where
  "read_byte s =
     and_then (ok_or UnexpectedEof (get_at (blob s) (position s)))
       (\<lambda>v. Ok (v, s\<lparr>position := position s + 1\<rparr>))"

definition get_bytes :: "nat \<Rightarrow> leb128_stream \<Rightarrow> (decode_error, u8 list \<times> leb128_stream) outcome" where
  "get_bytes count s =
     (if position s + count \<le> length (blob s)
      then Ok (take count (drop (position s) (blob s)), s\<lparr>position := position s + count\<rparr>)
      else Err UnexpectedEof)"


section \<open>LEB128 integers\<close>

text \<open>
  The loop of \<open>read_unsigned\<close>.  \<open>scale\<close> is an \<open>i32\<close>, and the shift masks it to six
  bits, so it only matters modulo 64.
\<close>

function read_unsigned_loop :: "u8 list \<Rightarrow> nat \<Rightarrow> nat \<Rightarrow> u64 \<Rightarrow> (decode_error, u64 \<times> nat) outcome" where
  "read_unsigned_loop bs cursor scale value =
     (if cursor < length bs then
        let d = bs ! cursor;
            value' = value OR push_bit (scale mod 64) (ucast d AND 0x7F)
        in if d AND 0x80 = 0 then Ok (value', cursor + 1)
           else read_unsigned_loop bs (cursor + 1) (scale + 7) value'
      else Err UnexpectedEof)"
  by pat_completeness auto
termination
  by (relation "measure (\<lambda>(bs, cursor, scale, value). length bs - cursor)") auto

declare read_unsigned_loop.simps [simp del]

definition read_unsigned :: "leb128_stream \<Rightarrow> (decode_error, u64 \<times> leb128_stream) outcome" where
  "read_unsigned s =
     and_then (read_unsigned_loop (blob s) (position s) 0 0)
       (\<lambda>(value, cursor). Ok (value, s\<lparr>position := cursor\<rparr>))"

text \<open>
  The loop of \<open>read_signed\<close> leaves \<open>scale\<close> at the shift of the last byte and returns the
  sign bit of that byte.
\<close>

function read_signed_loop ::
    "u8 list \<Rightarrow> nat \<Rightarrow> nat \<Rightarrow> u64 \<Rightarrow> (decode_error, u64 \<times> nat \<times> nat \<times> bool) outcome" where
  "read_signed_loop bs cursor scale value =
     (if cursor < length bs then
        let d = bs ! cursor;
            value' = value OR push_bit (scale mod 64) (ucast d AND 0x7F);
            signed = (d AND 0x40 \<noteq> 0)
        in if d AND 0x80 = 0 then Ok (value', scale, cursor + 1, signed)
           else read_signed_loop bs (cursor + 1) (scale + 7) value'
      else Err UnexpectedEof)"
  by pat_completeness auto
termination
  by (relation "measure (\<lambda>(bs, cursor, scale, value). length bs - cursor)") auto

declare read_signed_loop.simps [simp del]

definition read_signed :: "leb128_stream \<Rightarrow> (decode_error, u64 \<times> leb128_stream) outcome" where
  "read_signed s =
     and_then (read_signed_loop (blob s) (position s) 0 0)
       (\<lambda>(value, scale, cursor, signed).
          Ok (if signed then value OR push_bit (scale mod 64) 0xFFFFFFFFFFFFFFC0 else value,
              s\<lparr>position := cursor\<rparr>))"

definition read_bytes :: "leb128_stream \<Rightarrow> (decode_error, u8 list \<times> leb128_stream) outcome" where
  "read_bytes s = and_then (read_unsigned s) (\<lambda>(count, s'). get_bytes (unat count) s')"

lemma unat_drop_7: "unat (drop_bit 7 (v :: u64)) = unat v div 128"
  by (simp add: drop_bit_eq_div unat_div)

lemma unat_drop_7_less: "drop_bit 7 v \<noteq> 0 \<Longrightarrow> unat (drop_bit 7 (v :: u64)) < unat v"
  by (cases "v = 0") (simp_all add: unat_drop_7 unat_gt_0 div_less_dividend)

function write_unsigned :: "u64 \<Rightarrow> u8 list" where
  "write_unsigned value =
     (let byte = value AND 0x7F; value' = drop_bit 7 value in
      if value' = 0 then [ucast byte] else (0x80 OR ucast byte) # write_unsigned value')"
  by pat_completeness auto
termination
  by (relation "measure unat") (simp_all only: wf_measure in_measure, rule unat_drop_7_less)

declare write_unsigned.simps [simp del]


section \<open>Strings, opcodes, memory arguments\<close>

definition utf8_cont :: "u8 \<Rightarrow> bool" where
  "utf8_cont b \<longleftrightarrow> 0x80 \<le> b \<and> b \<le> 0xBF"

text \<open>The validity check of \<open>core::str::from_utf8\<close>.\<close>

fun valid_utf8 :: "u8 list \<Rightarrow> bool" where
  "valid_utf8 [] = True"
| "valid_utf8 (a # r) =
     (if a < 0x80 then valid_utf8 r
      else if 0xC2 \<le> a \<and> a \<le> 0xDF then
        (case r of b # r' \<Rightarrow> utf8_cont b \<and> valid_utf8 r' | _ \<Rightarrow> False)
      else if 0xE0 \<le> a \<and> a \<le> 0xEF then
        (case r of b # c # r' \<Rightarrow>
           (if a = 0xE0 then 0xA0 \<le> b \<and> b \<le> 0xBF
            else if a = 0xED then 0x80 \<le> b \<and> b \<le> 0x9F
            else utf8_cont b) \<and> utf8_cont c \<and> valid_utf8 r' | _ \<Rightarrow> False)
      else if 0xF0 \<le> a \<and> a \<le> 0xF4 then
        (case r of b # c # d # r' \<Rightarrow>
           (if a = 0xF0 then 0x90 \<le> b \<and> b \<le> 0xBF
            else if a = 0xF4 then 0x80 \<le> b \<and> b \<le> 0x8F
            else utf8_cont b) \<and> utf8_cont c \<and> utf8_cont d \<and> valid_utf8 r' | _ \<Rightarrow> False)
      else False)"

definition get_string :: "leb128_stream \<Rightarrow> (decode_error, u8 list \<times> leb128_stream) outcome" where
  "get_string s =
     and_then (read_bytes s)
       (\<lambda>(v, s'). if valid_utf8 v then Ok (v, s') else Err UnexpectedToken)"

definition read_opcode :: "leb128_stream \<Rightarrow> (decode_error, opcode \<times> leb128_stream) outcome" where
  "read_opcode s =
     and_then (read_byte s)
       (\<lambda>(lead, s'). decode lead (InvalidBytecode lead)
          (\<lambda>t. and_then (read_unsigned t) (\<lambda>(v, t'). Ok (ucast v, t'))) s')"

record mem_arg =
  arg_align :: u32
  arg_offset :: u32

definition offset_by :: "mem_arg \<Rightarrow> u32 \<Rightarrow> nat" where
  "offset_by a base = unat (ucast (arg_offset a) + ucast base :: u64)"

definition read_memarg :: "leb128_stream \<Rightarrow> (decode_error, mem_arg \<times> leb128_stream) outcome" where
  "read_memarg s =
     and_then (read_unsigned s) (\<lambda>(a, s1).
     and_then (read_unsigned s1) (\<lambda>(o', s2).
     Ok (\<lparr>arg_align = ucast a, arg_offset = ucast o'\<rparr>, s2)))"


section \<open>Sections\<close>

datatype section_type =
    Sec_Custom | Sec_Type | Sec_Import | Sec_Function | Sec_Table | Sec_Memory | Sec_Global
  | Sec_Export | Sec_Start | Sec_Element | Sec_Code | Sec_Data | Sec_DataCount

definition section_types :: "section_type list" where
  "section_types =
     [Sec_Custom, Sec_Type, Sec_Import, Sec_Function, Sec_Table, Sec_Memory, Sec_Global,
      Sec_Export, Sec_Start, Sec_Element, Sec_Code, Sec_Data, Sec_DataCount]"

text \<open>\<open>FromPrimitive::from_u8\<close> and \<open>section_type as u8\<close>: the position in the enumeration.\<close>

definition section_type_from_u8 :: "u8 \<Rightarrow> section_type option" where
  "section_type_from_u8 b = get_at section_types (unat b)"

primrec section_type_byte :: "section_type \<Rightarrow> u8" where
  "section_type_byte Sec_Custom = 0"
| "section_type_byte Sec_Type = 1"
| "section_type_byte Sec_Import = 2"
| "section_type_byte Sec_Function = 3"
| "section_type_byte Sec_Table = 4"
| "section_type_byte Sec_Memory = 5"
| "section_type_byte Sec_Global = 6"
| "section_type_byte Sec_Export = 7"
| "section_type_byte Sec_Start = 8"
| "section_type_byte Sec_Element = 9"
| "section_type_byte Sec_Code = 10"
| "section_type_byte Sec_Data = 11"
| "section_type_byte Sec_DataCount = 12"

record wasm_section =
  sec_type :: section_type
  sec_file_position :: nat
  sec_stream :: leb128_stream

definition next_section_triple ::
    "leb128_stream \<Rightarrow> (decode_error, (section_type \<times> nat \<times> nat) option \<times> leb128_stream) outcome" where
  "next_section_triple s =
     (if is_eof s then Ok (None, s)
      else and_then (read_byte s) (\<lambda>(b, s1).
           and_then (ok_or UnexpectedToken (section_type_from_u8 b)) (\<lambda>ty.
           and_then (read_unsigned s1) (\<lambda>(len, s2).
             let length' = unat len; file_position = position s2 + 8
             in Ok (Some (ty, file_position, length'), s2\<lparr>position := position s2 + length'\<rparr>)))))"

text \<open>The slice \<open>self.blob[a..b]\<close> panics when it does not lie inside the blob.\<close>

definition next_section :: "leb128_stream \<Rightarrow> (decode_error, wasm_section option \<times> leb128_stream) outcome" where
  "next_section s =
     and_then (next_section_triple s) (\<lambda>(r, s').
       case r of None \<Rightarrow> Ok (None, s')
       | Some (ty, file_position, len) \<Rightarrow>
           (let start = file_position - 8 in
            if start + len \<le> length (blob s')
            then Ok (Some \<lparr>sec_type = ty, sec_file_position = file_position,
                           sec_stream = from_slice (take len (drop start (blob s')))\<rparr>, s')
            else Panic))"

definition custom_section_name :: "wasm_section \<Rightarrow> u8 list option" where
  "custom_section_name sec =
     (if sec_type sec \<noteq> Sec_Custom then None
      else case get_string (stream_reset (sec_stream sec)) of Ok (v, _) \<Rightarrow> Some v | _ \<Rightarrow> None)"

definition write_to_vec :: "wasm_section \<Rightarrow> u8 list" where
  "write_to_vec sec =
     section_type_byte (sec_type sec)
       # write_unsigned (of_nat (length (blob (sec_stream sec)))) @ blob (sec_stream sec)"


section \<open>Readers move forward\<close>

locale reader =
  fixes rd :: "leb128_stream \<Rightarrow> (decode_error, 'a \<times> leb128_stream) outcome"
  assumes rd_blob: "rd s = Ok (v, s') \<Longrightarrow> blob s' = blob s"
    and rd_progress: "rd s = Ok (v, s') \<Longrightarrow> position s < position s'"
    and rd_bounded: "rd s = Ok (v, s') \<Longrightarrow> position s' \<le> length (blob s)"

text \<open>\<open>for _ in 0..n { items.push(rd(stream)?) }\<close>\<close>

primrec read_many ::
    "(leb128_stream \<Rightarrow> (decode_error, 'a \<times> leb128_stream) outcome) \<Rightarrow> nat \<Rightarrow> leb128_stream
       \<Rightarrow> (decode_error, 'a list \<times> leb128_stream) outcome" where
  "read_many rd 0 s = Ok ([], s)"
| "read_many rd (Suc n) s =
     and_then (rd s) (\<lambda>(x, s1). and_then (read_many rd n s1) (\<lambda>(xs, s2). Ok (x # xs, s2)))"

context reader
begin

lemma rd_advance:
  "rd s = Ok (v, s') \<Longrightarrow> blob s' = blob s \<and> position s < position s' \<and> position s' \<le> length (blob s)"
  using rd_blob rd_progress rd_bounded by blast

lemma many_blob: "read_many rd n s = Ok (xs, s') \<Longrightarrow> blob s' = blob s"
  by (induction n arbitrary: s xs) (auto simp: outcome_iff dest: rd_blob)

lemma many_length: "read_many rd n s = Ok (xs, s') \<Longrightarrow> length xs = n"
  by (induction n arbitrary: s xs) (auto simp: outcome_iff)

lemma many_advance: "read_many rd n s = Ok (xs, s') \<Longrightarrow> position s + n \<le> position s'"
proof (induction n arbitrary: s xs)
  case 0
  then show ?case by simp
next
  case (Suc n)
  then obtain x s1 ys where "rd s = Ok (x, s1)" "read_many rd n s1 = Ok (ys, s')"
    by (auto simp: outcome_iff)
  with Suc.IH [of s1 ys] rd_progress [of s x s1] show ?case by simp
qed

lemma many_bounded:
  "read_many rd n s = Ok (xs, s') \<Longrightarrow> 0 < n \<Longrightarrow> position s' \<le> length (blob s)"
proof (induction n arbitrary: s xs)
  case 0
  then show ?case by simp
next
  case (Suc n)
  then obtain x s1 ys where 1: "rd s = Ok (x, s1)" "read_many rd n s1 = Ok (ys, s')"
    by (auto simp: outcome_iff)
  then show ?case
    using Suc.IH [of s1 ys] rd_blob [OF 1(1)] rd_bounded [OF 1(1)] by (cases n) auto
qed

text \<open>A counted loop that succeeds has no more rounds than the blob has bytes left.\<close>

lemma many_count_bound:
  "read_many rd n s = Ok (xs, s') \<Longrightarrow> position s \<le> length (blob s) \<Longrightarrow>
     n \<le> length (blob s) - position s"
  using many_advance [of n s xs s'] many_bounded [of n s xs s'] by (cases n) auto

text \<open>Pairing a reader with any further reader of the rest keeps the contract.\<close>

lemma seq_reader:
  assumes "\<And>v s s'. k v s = Ok s' \<Longrightarrow>
      blob (snd s') = blob s \<and> position s \<le> position (snd s') \<and>
      (position s \<le> length (blob s) \<longrightarrow> position (snd s') \<le> length (blob s))"
  shows "reader (\<lambda>s. and_then (rd s) (\<lambda>(v, s1). k v s1))"
proof (unfold_locales, goal_cases)
  case (1 s w s')
  then show ?case by (auto simp: outcome_iff dest: rd_blob dest!: assms)
next
  case (2 s w s')
  then show ?case by (auto simp: outcome_iff dest!: assms dest: rd_progress)
next
  case (3 s w s')
  then obtain v s1 where "rd s = Ok (v, s1)" "k v s1 = Ok (w, s')"
    by (auto simp: outcome_iff)
  with rd_bounded rd_blob assms show ?case by fastforce
qed

end

text \<open>A reader that also never panics and never leaves the language.\<close>

locale safe_reader = reader +
  assumes rd_returns [simp]: "returns (rd s)"

context safe_reader
begin

lemma many_returns [simp]: "returns (read_many rd n s)"
  by (induction n arbitrary: s) auto

end

lemma read_unsigned_loop_bounds:
  "read_unsigned_loop bs c k v = Ok (w, c') \<Longrightarrow> c < c' \<and> c' \<le> length bs"
proof (induction bs c k v rule: read_unsigned_loop.induct)
  case (1 bs c k v)
  show ?case
    using "1.prems" "1.IH" [OF _ refl refl]
    by (fastforce simp: read_unsigned_loop.simps [of bs c k v] Let_def split: if_splits)
qed

lemma read_signed_loop_bounds:
  "read_signed_loop bs c k v = Ok (w, k', c', sg) \<Longrightarrow> c < c' \<and> c' \<le> length bs"
proof (induction bs c k v rule: read_signed_loop.induct)
  case (1 bs c k v)
  show ?case
    using "1.prems" "1.IH" [OF _ refl refl refl]
    by (fastforce simp: read_signed_loop.simps [of bs c k v] Let_def split: if_splits)
qed

lemma read_unsigned_loop_returns [simp]: "returns (read_unsigned_loop bs c k v)"
proof (induction bs c k v rule: read_unsigned_loop.induct)
  case (1 bs c k v)
  show ?case
    using "1.IH" [OF _ refl refl] by (simp add: read_unsigned_loop.simps [of bs c k v] Let_def)
qed

lemma read_signed_loop_returns [simp]: "returns (read_signed_loop bs c k v)"
proof (induction bs c k v rule: read_signed_loop.induct)
  case (1 bs c k v)
  show ?case
    using "1.IH" [OF _ refl refl refl] by (simp add: read_signed_loop.simps [of bs c k v] Let_def)
qed

interpretation byte: safe_reader read_byte
  by unfold_locales (auto simp: read_byte_def outcome_iff get_at_def split: if_splits)

interpretation uleb: safe_reader read_unsigned
  by unfold_locales (auto simp: read_unsigned_def outcome_iff dest!: read_unsigned_loop_bounds)

interpretation sleb: safe_reader read_signed
  by unfold_locales (auto simp: read_signed_def outcome_iff dest!: read_signed_loop_bounds)

lemma get_bytes_iff [outcome_iff]:
  "get_bytes n s = Ok (v, s') \<longleftrightarrow>
     position s + n \<le> length (blob s) \<and> v = take n (drop (position s) (blob s)) \<and>
     s' = s\<lparr>position := position s + n\<rparr>"
  "get_bytes n s \<noteq> Panic" "get_bytes n s \<noteq> UB u"
  by (auto simp: get_bytes_def)

lemma get_bytes_returns [simp]: "returns (get_bytes n s)"
  by (simp add: get_bytes_def)


section \<open>Writing and reading back\<close>

lemma and_7F: "v AND 0x7F = take_bit 7 (v :: u64)"
  by (simp add: take_bit_eq_mask mask_eq_exp_minus_1)

lemma drop_7_eq_0: "drop_bit 7 (v :: u64) = 0 \<longleftrightarrow> v < 128"
proof -
  have "drop_bit 7 v = 0 \<longleftrightarrow> unat v div 128 = 0"
    by (metis unat_drop_7 unat_eq_zero)
  also have "\<dots> \<longleftrightarrow> v < 128"
    by (simp add: word_less_nat_alt div_eq_0_iff)
  finally show ?thesis .
qed

lemma uleb_digit_more: "take_bit 7 (ucast (0x80 OR ucast (take_bit 7 v) :: u8)) = take_bit 7 (v :: u64)"
  by (rule bit_word_eqI) (auto simp: bit_simps bit_numeral_rec less_Suc_eq numeral_eq_Suc)

lemma uleb_digit_last: "take_bit 7 (ucast (ucast (take_bit 7 v) :: u8)) = take_bit 7 (v :: u64)"
  by (rule bit_word_eqI) (auto simp: bit_simps)

lemma uleb_flag_more: "(0x80 OR ucast (take_bit 7 (v :: u64)) :: u8) AND 0x80 \<noteq> 0"
proof
  assume "(0x80 OR ucast (take_bit 7 v) :: u8) AND 0x80 = 0"
  then have "bit ((0x80 OR ucast (take_bit 7 v) :: u8) AND 0x80) 7 = bit (0 :: u8) 7" by simp
  then show False by (simp add: bit_simps bit_numeral_rec)
qed

lemma uleb_flag_last: "(ucast (take_bit 7 (v :: u64)) :: u8) AND 0x80 = 0"
  by (rule bit_word_eqI) (auto simp: bit_simps bit_numeral_rec less_Suc_eq numeral_eq_Suc)

lemma push_split_7:
  "push_bit k (take_bit 7 v) OR push_bit (k + 7) (drop_bit 7 v) = push_bit k (v :: u64)"
proof (rule bit_word_eqI)
  fix n assume "n < LENGTH(64)"
  moreover have "7 + (n - (k + 7)) = n - k" if "\<not> n - k < 7" using that by simp
  ultimately show "bit (push_bit k (take_bit 7 v) OR push_bit (k + 7) (drop_bit 7 v)) n = bit (push_bit k v) n"
    by (cases "n - k < 7") (auto simp: bit_simps)
qed

lemma read_write_unsigned_loop:
  "k < 64 \<Longrightarrow> unat v < 2 ^ (64 - k) \<Longrightarrow>
     read_unsigned_loop (pre @ write_unsigned v @ post) (length pre) k acc
       = Ok (acc OR push_bit k v, length pre + length (write_unsigned v))"
proof (induction v arbitrary: pre k acc rule: write_unsigned.induct)
  case (1 v)
  show ?case
  proof (cases "drop_bit 7 v = 0")
    case True
    then have w: "write_unsigned v = [ucast (take_bit 7 v)]"
      by (simp add: write_unsigned.simps [of v] and_7F)
    have "push_bit k (take_bit 7 v) = push_bit k v"
      using push_split_7 [of k v] True by simp
    then show ?thesis
      using "1.prems"(1)
      by (simp add: w read_unsigned_loop.simps [of _ "length pre"] nth_append and_7F uleb_digit_last
          uleb_flag_last)
  next
    case False
    let ?d = "0x80 OR ucast (take_bit 7 v) :: u8"
    from False have w: "write_unsigned v = ?d # write_unsigned (drop_bit 7 v)"
      by (simp add: write_unsigned.simps [of v] and_7F)
    from False have "128 \<le> unat v"
      by (simp add: drop_7_eq_0 word_less_nat_alt)
    with "1.prems"(2) have "(2::nat) ^ 7 < 2 ^ (64 - k)" by simp
    then have "7 < 64 - k" by (rule power_less_imp_less_exp [rotated]) simp
    then have k: "k + 7 < 64" by simp
    obtain j where j: "64 - k = j + 7" "64 - (k + 7) = j"
      using k by (intro that [of "57 - k"]) auto
    have b: "unat (drop_bit 7 v) < 2 ^ (64 - (k + 7))"
      using "1.prems"(2) unfolding j unat_drop_7 by (intro less_mult_imp_div_less) (simp add: power_add)
    have IH: "read_unsigned_loop ((pre @ [?d]) @ write_unsigned (drop_bit 7 v) @ post) (length (pre @ [?d]))
        (k + 7) (acc OR push_bit k (take_bit 7 v)) =
        Ok ((acc OR push_bit k (take_bit 7 v)) OR push_bit (k + 7) (drop_bit 7 v),
            length (pre @ [?d]) + length (write_unsigned (drop_bit 7 v)))"
      using False k b by (intro "1.IH") simp_all
    have "read_unsigned_loop (pre @ write_unsigned v @ post) (length pre) k acc =
        read_unsigned_loop ((pre @ [?d]) @ write_unsigned (drop_bit 7 v) @ post) (length (pre @ [?d]))
        (k + 7) (acc OR push_bit k (take_bit 7 v))"
      using "1.prems"(1) by (simp add: w read_unsigned_loop.simps [of _ "length pre"] nth_append and_7F
         uleb_digit_more uleb_flag_more Let_def)
    also note IH
    finally show ?thesis
      by (simp add: w or.assoc push_split_7)
  qed
qed

lemma read_write_unsigned_at:
  "read_unsigned \<lparr>blob = pre @ write_unsigned v @ post, position = length pre\<rparr>
     = Ok (v, \<lparr>blob = pre @ write_unsigned v @ post, position = length pre + length (write_unsigned v)\<rparr>)"
proof -
  have "unat v < 2 ^ LENGTH(64)" by (rule unsigned_less)
  then show ?thesis
    using read_write_unsigned_loop [of 0 v pre post 0] by (simp add: read_unsigned_def)
qed

text \<open>
  \<open>write_unsigned\<close> and \<open>read_unsigned\<close> are inverse on every 64-bit value: reading at
  the place where a value was written returns the value and leaves the cursor just behind it.
\<close>

theorem read_write_unsigned:
  "read_unsigned \<lparr>blob = pre @ write_unsigned v @ post, position = length pre\<rparr>
     = Ok (v, \<lparr>blob = pre @ write_unsigned v @ post, position = length pre + length (write_unsigned v)\<rparr>)"
  by (rule read_write_unsigned_at)

lemma write_unsigned_nonempty: "write_unsigned v \<noteq> []"
  by (simp add: write_unsigned.simps [of v] Let_def)

lemma write_unsigned_length: "unat v < 2 ^ (7 * n) \<Longrightarrow> 0 < n \<Longrightarrow> length (write_unsigned v) \<le> n"
proof (induction v arbitrary: n rule: write_unsigned.induct)
  case (1 v)
  show ?case
  proof (cases "drop_bit 7 v = 0")
    case True
    then show ?thesis using "1.prems" by (simp add: write_unsigned.simps [of v])
  next
    case False
    then have v: "128 \<le> unat v" by (simp add: drop_7_eq_0 word_less_nat_alt)
    with "1.prems" obtain m where n: "n = Suc m" "0 < m"
      by (cases n; cases "n - 1") auto
    have "unat (drop_bit 7 v) < 2 ^ (7 * m)"
      using "1.prems"(1) unfolding unat_drop_7 n
      by (intro less_mult_imp_div_less) (simp add: power_add)
    then have "length (write_unsigned (drop_bit 7 v)) \<le> m"
      using False n by (intro "1.IH") simp_all
    then show ?thesis using False n by (simp add: write_unsigned.simps [of v])
  qed
qed

section \<open>The composite readers\<close>

lemma uleb_then_reader:
  assumes "\<And>v s r. k v s = Ok r \<Longrightarrow>
      blob (snd r) = blob s \<and> position s \<le> position (snd r) \<and>
      (position s \<le> length (blob s) \<longrightarrow> position (snd r) \<le> length (blob s))"
    and "\<And>v s. returns (k v s)"
  shows "safe_reader (\<lambda>s. and_then (read_unsigned s) (\<lambda>(v, s1). k v s1))"
proof (intro safe_reader.intro safe_reader_axioms.intro)
  show "reader (\<lambda>s. and_then (read_unsigned s) (\<lambda>(v, s1). k v s1))"
    by (rule uleb.seq_reader) (use assms(1) in auto)
  show "returns (and_then (read_unsigned s) (\<lambda>(v, s1). k v s1))" for s
    by (auto simp: assms(2))
qed

interpretation vec: safe_reader read_bytes
  unfolding read_bytes_def [abs_def]
  by (rule uleb_then_reader) (auto simp: get_bytes_def split: if_splits)

interpretation str: safe_reader get_string
  by unfold_locales (auto simp: get_string_def outcome_iff split: if_splits dest!: vec.rd_advance)

interpretation memarg: safe_reader read_memarg
  unfolding read_memarg_def [abs_def]
  by (rule uleb_then_reader) (auto simp: outcome_iff dest!: uleb.rd_advance)

lemma decode_cases:
  assumes "decode lead e trail s = Ok (c, s')"
  obtains "s' = s" "\<exists>o'. c = Single o' \<and> single_new lead = Some o'"
    | v where "trail s = Ok (v, s')" "leading_byte c = lead"
  using assms that
  by (auto simp: decode_def outcome_iff split: option.splits single_opcode.splits dest: single_byte_new)

interpretation opc: safe_reader read_opcode
proof (unfold_locales, goal_cases)
  case (1 s v s')
  then show ?case
    by (auto simp: read_opcode_def outcome_iff elim!: decode_cases dest!: byte.rd_advance uleb.rd_advance)
next
  case (2 s v s')
  then show ?case
    by (auto simp: read_opcode_def outcome_iff elim!: decode_cases dest!: byte.rd_advance uleb.rd_advance)
next
  case (3 s v s')
  then show ?case
    by (auto simp: read_opcode_def outcome_iff elim!: decode_cases dest!: byte.rd_advance uleb.rd_advance)
next
  case (4 s)
  show ?case
    by (auto simp: read_opcode_def decode_def split: option.splits single_opcode.splits)
qed

section \<open>Sections written and read back\<close>

lemma section_type_roundtrip: "section_type_from_u8 (section_type_byte t) = Some t"
  by (cases t) (simp_all add: section_type_from_u8_def section_types_def get_at_def)

lemma next_section_write_at:
  assumes "length body < 2 ^ 64"
  shows "next_section \<lparr>blob = pre @ write_to_vec \<lparr>sec_type = ty, sec_file_position = fp, sec_stream = \<lparr>blob = body, position = p\<rparr>\<rparr> @ post,
            position = length pre\<rparr>
     = Ok (Some \<lparr>sec_type = ty,
                 sec_file_position = length pre + 1 + length (write_unsigned (of_nat (length body))) + 8,
                 sec_stream = from_slice body\<rparr>,
           \<lparr>blob = pre @ write_to_vec \<lparr>sec_type = ty, sec_file_position = fp, sec_stream = \<lparr>blob = body, position = p\<rparr>\<rparr> @ post,
            position = length pre + length (write_to_vec \<lparr>sec_type = ty, sec_file_position = fp, sec_stream = \<lparr>blob = body, position = p\<rparr>\<rparr>)\<rparr>)"
proof -
  let ?n = "of_nat (length body) :: u64" and ?b = "section_type_byte ty"
  let ?blob = "pre @ (?b # write_unsigned ?n @ body) @ post"
  have r: "read_unsigned \<lparr>blob = (pre @ [?b]) @ write_unsigned ?n @ (body @ post), position = length (pre @ [?b])\<rparr>
     = Ok (?n, \<lparr>blob = (pre @ [?b]) @ write_unsigned ?n @ (body @ post),
               position = length (pre @ [?b]) + length (write_unsigned ?n)\<rparr>)"
    by (rule read_write_unsigned_at)
  have n: "unat ?n = length body" using assms by (simp add: unat_of_nat)
  show ?thesis
    using r n by (simp add: next_section_def next_section_triple_def is_eof_def read_byte_def
        write_to_vec_def section_type_roundtrip from_slice_def Let_def)
qed

text \<open>
  \<open>WasmSection::write_to_vec\<close> and \<open>next_section\<close> are inverse: the section
  written at the cursor is read back with its type, its contents in a fresh stream and its file
  position (the eight bytes of the module header included), and the cursor ends up behind it.
\<close>

theorem next_section_write:
  assumes "length body < 2 ^ 64"
  shows "next_section \<lparr>blob = pre @ write_to_vec \<lparr>sec_type = ty, sec_file_position = fp, sec_stream = \<lparr>blob = body, position = p\<rparr>\<rparr> @ post,
            position = length pre\<rparr>
     = Ok (Some \<lparr>sec_type = ty,
                 sec_file_position = length pre + 1 + length (write_unsigned (of_nat (length body))) + 8,
                 sec_stream = from_slice body\<rparr>,
           \<lparr>blob = pre @ write_to_vec \<lparr>sec_type = ty, sec_file_position = fp, sec_stream = \<lparr>blob = body, position = p\<rparr>\<rparr> @ post,
            position = length pre + length (write_to_vec \<lparr>sec_type = ty, sec_file_position = fp, sec_stream = \<lparr>blob = body, position = p\<rparr>\<rparr>)\<rparr>)"
  by (rule next_section_write_at [OF assms])

theorem next_section_write_witness:
  "length [0x01, 0x60 :: u8] < 2 ^ 64 \<and>
   next_section \<lparr>blob = write_to_vec \<lparr>sec_type = Sec_Type, sec_file_position = 0,
                   sec_stream = \<lparr>blob = [0x01, 0x60], position = 0\<rparr>\<rparr>, position = 0\<rparr>
     = Ok (Some \<lparr>sec_type = Sec_Type, sec_file_position = 10, sec_stream = from_slice [0x01, 0x60]\<rparr>,
           \<lparr>blob = [0x01, 0x02, 0x01, 0x60], position = 4\<rparr>)"
proof -
  have h: "length [0x01, 0x60 :: u8] < 2 ^ 64" by simp
  have w: "write_unsigned 2 = [2]" by (simp add: write_unsigned.simps [of 2])
  show ?thesis
    using h next_section_write [OF h, of "[]" Sec_Type 0 0 "[]"] by (simp add: w write_to_vec_def)
qed

end
