(* ===== verification/WasmMemory.thy ===== *)
theory WasmMemory
  imports Leb128
begin

text \<open>
  \<open>WasmLimit\<close>, \<open>WasmEndian\<close> and \<open>WasmMemory\<close> of src/lib/wasm/src/wasm.rs: the linear
  memory of an instance, its growth, the bulk operations and the typed loads and stores.

  The accessors compute an effective address, compare it with a limit and then go through a raw
  pointer.  The raw accesses \<open>ptr_read\<close>, \<open>ptr_write\<close>, \<open>ptr_slice\<close> and
  \<open>ptr_copy\<close> are undefined outside the buffer, so whether the check is enough is a theorem.  The locale \<open>linear_access\<close> is the
  contract of one access width; the four widths interpret it.
\<close>

definition limit_from_stream :: "leb128_stream \<Rightarrow> (decode_error, wasm_limit \<times> leb128_stream) outcome" where
  "limit_from_stream s =
     and_then (read_unsigned s) (\<lambda>(k, s1).
       if k = 0 then
         and_then (read_unsigned s1)
           (\<lambda>(mn, s2). Ok (\<lparr>limit_min = ucast mn, limit_max = ucast mn\<rparr>, s2))
       else if k = 1 then
         and_then (read_unsigned s1) (\<lambda>(mn, s2).
         and_then (read_unsigned s2) (\<lambda>(mx, s3).
         Ok (\<lparr>limit_min = ucast mn, limit_max = ucast mx\<rparr>, s3)))
       else Err UnexpectedToken)"


section \<open>Little-endian accesses through raw pointers\<close>

primrec le_join :: "u8 list \<Rightarrow> 'a::len word" where
  "le_join [] = 0"
| "le_join (b # bs) = ucast b OR push_bit 8 (le_join bs)"

primrec le_split :: "nat \<Rightarrow> 'a::len word \<Rightarrow> u8 list" where
  "le_split 0 w = []"
| "le_split (Suc n) w = ucast w # le_split n (drop_bit 8 w)"

definition ptr_read :: "nat \<Rightarrow> u8 list \<Rightarrow> nat \<Rightarrow> ('e, 'a::len word) outcome" where
  "ptr_read n bs ea =
     (if ea + n \<le> length bs then Ok (le_join (take n (drop ea bs))) else UB OutOfRange)"

definition ptr_write :: "nat \<Rightarrow> u8 list \<Rightarrow> nat \<Rightarrow> 'a::len word \<Rightarrow> ('e, u8 list) outcome" where
  "ptr_write n bs ea w =
     (if ea + n \<le> length bs then Ok (take ea bs @ le_split n w @ drop (ea + n) bs)
      else UB OutOfRange)"

text \<open>
  \<open>slice::from_raw_parts\<close> at a pointer into the buffer, and \<open>copy_from\<close> (the source is read
  before the destination is written), \<open>copy_from_nonoverlapping\<close> and \<open>write_bytes\<close> to such a pointer.
\<close>

definition ptr_slice :: "u8 list \<Rightarrow> nat \<Rightarrow> nat \<Rightarrow> ('e, u8 list) outcome" where
  "ptr_slice bs off n = (if off + n \<le> length bs then Ok (take n (drop off bs)) else UB OutOfRange)"

definition ptr_copy :: "u8 list \<Rightarrow> nat \<Rightarrow> u8 list \<Rightarrow> ('e, u8 list) outcome" where
  "ptr_copy bs off src =
     (if off + length src \<le> length bs then Ok (take off bs @ src @ drop (off + length src) bs)
      else UB OutOfRange)"


section \<open>The memory object\<close>

record wasm_memory =
  mem_limit :: wasm_limit
  mem_data :: "u8 list"

definition page_size :: nat where
  "page_size = 65536"

definition memory_new :: "wasm_limit \<Rightarrow> wasm_memory" where
  "memory_new limit = \<lparr>mem_limit = limit, mem_data = replicate (unat (limit_min limit) * page_size) 0\<rparr>"

definition memory_size :: "wasm_memory \<Rightarrow> u32" where
  "memory_size m = of_nat (length (mem_data m) div page_size)"

text \<open>
  \<open>memory.grow\<close>; whether the allocator can extend the vector by so many bytes
  (\<open>Vec::try_reserve\<close>) is the argument \<open>try_reserve\<close>.
\<close>

definition memory_grow :: "(nat \<Rightarrow> bool) \<Rightarrow> u32 \<Rightarrow> wasm_memory \<Rightarrow> u32 \<times> wasm_memory" where
  "memory_grow try_reserve delta m =
     (let old_size = length (mem_data m) in
      if 0 < sint delta then
        let additional = nat (sint delta) * page_size in
        if \<not> try_reserve additional then (-1, m)
        else (of_nat (old_size div page_size),
              m\<lparr>mem_data := mem_data m @ replicate additional 0\<rparr>)
      else if sint delta = 0 then (of_nat (old_size div page_size), m)
      else (-1, m))"

definition memory_slice :: "nat \<Rightarrow> nat \<Rightarrow> wasm_memory \<Rightarrow> (runtime_error, u8 list) outcome" where
  "memory_slice offset count m =
     (let limit = length (mem_data m) in
      if offset < limit \<and> count < limit \<and> offset + count < limit
      then ptr_slice (mem_data m) offset count
      else Err RtOutOfBounds)"

definition memory_write_slice :: "nat \<Rightarrow> u8 list \<Rightarrow> wasm_memory \<Rightarrow> (runtime_error, wasm_memory) outcome" where
  "memory_write_slice offset src m =
     (let count = length src; limit = length (mem_data m) in
      if offset < limit \<and> count < limit \<and> offset + count < limit
      then and_then (ptr_copy (mem_data m) offset src) (\<lambda>d. Ok (m\<lparr>mem_data := d\<rparr>))
      else Err RtOutOfBounds)"

definition memory_write_bytes :: "nat \<Rightarrow> u8 \<Rightarrow> nat \<Rightarrow> wasm_memory \<Rightarrow> (runtime_error, wasm_memory) outcome" where
  "memory_write_bytes offset val count m =
     (let limit = length (mem_data m) in
      if offset < limit \<and> count < limit \<and> offset + count < limit
      then and_then (ptr_copy (mem_data m) offset (replicate count val)) (\<lambda>d. Ok (m\<lparr>mem_data := d\<rparr>))
      else Err RtOutOfBounds)"

definition memory_copy :: "nat \<Rightarrow> nat \<Rightarrow> nat \<Rightarrow> wasm_memory \<Rightarrow> (runtime_error, wasm_memory) outcome" where
  "memory_copy dest src count m =
     (let limit = length (mem_data m) in
      if dest < limit \<and> src < limit \<and> count < limit \<and> dest + count < limit \<and> src + count < limit
      then and_then (ptr_slice (mem_data m) src count) (\<lambda>bs.
           and_then (ptr_copy (mem_data m) dest bs) (\<lambda>d. Ok (m\<lparr>mem_data := d\<rparr>)))
      else Err RtOutOfBounds)"

text \<open>The sum of two 32-bit values does not wrap in 64 bits.\<close>

definition effective_address :: "u32 \<Rightarrow> u32 \<Rightarrow> nat \<Rightarrow> (runtime_error, nat) outcome" where
  "effective_address offset index limit =
     (let ea = unat (ucast offset + ucast index :: u64) in
      if ea < limit then Ok ea else Err RtOutOfBounds)"

definition mem_read_u8 :: "u32 \<Rightarrow> u32 \<Rightarrow> wasm_memory \<Rightarrow> (runtime_error, u8) outcome" where
  "mem_read_u8 offset index m =
     and_then (effective_address offset index (length (mem_data m))) (\<lambda>ea. ptr_read 1 (mem_data m) ea)"

definition mem_write_u8 :: "u32 \<Rightarrow> u32 \<Rightarrow> u8 \<Rightarrow> wasm_memory \<Rightarrow> (runtime_error, wasm_memory) outcome" where
  "mem_write_u8 offset index val m =
     and_then (effective_address offset index (length (mem_data m))) (\<lambda>ea.
     and_then (ptr_write 1 (mem_data m) ea val) (\<lambda>d. Ok (m\<lparr>mem_data := d\<rparr>)))"

definition mem_read_u16 :: "u32 \<Rightarrow> u32 \<Rightarrow> wasm_memory \<Rightarrow> (runtime_error, u16) outcome" where
  "mem_read_u16 offset index m =
     and_then (effective_address offset index (usize_sub (length (mem_data m)) 1))
       (\<lambda>ea. ptr_read 2 (mem_data m) ea)"

definition mem_write_u16 :: "u32 \<Rightarrow> u32 \<Rightarrow> u16 \<Rightarrow> wasm_memory \<Rightarrow> (runtime_error, wasm_memory) outcome" where
  "mem_write_u16 offset index val m =
     and_then (effective_address offset index (usize_sub (length (mem_data m)) 1)) (\<lambda>ea.
     and_then (ptr_write 2 (mem_data m) ea val) (\<lambda>d. Ok (m\<lparr>mem_data := d\<rparr>)))"

definition mem_read_u32 :: "u32 \<Rightarrow> u32 \<Rightarrow> wasm_memory \<Rightarrow> (runtime_error, u32) outcome" where
  "mem_read_u32 offset index m =
     and_then (effective_address offset index (usize_sub (length (mem_data m)) 3))
       (\<lambda>ea. ptr_read 4 (mem_data m) ea)"

definition mem_write_u32 :: "u32 \<Rightarrow> u32 \<Rightarrow> u32 \<Rightarrow> wasm_memory \<Rightarrow> (runtime_error, wasm_memory) outcome" where
  "mem_write_u32 offset index val m =
     and_then (effective_address offset index (usize_sub (length (mem_data m)) 3)) (\<lambda>ea.
     and_then (ptr_write 4 (mem_data m) ea val) (\<lambda>d. Ok (m\<lparr>mem_data := d\<rparr>)))"

definition mem_read_u64 :: "u32 \<Rightarrow> u32 \<Rightarrow> wasm_memory \<Rightarrow> (runtime_error, u64) outcome" where
  "mem_read_u64 offset index m =
     and_then (effective_address offset index (usize_sub (length (mem_data m)) 7))
       (\<lambda>ea. ptr_read 8 (mem_data m) ea)"

definition mem_write_u64 :: "u32 \<Rightarrow> u32 \<Rightarrow> u64 \<Rightarrow> wasm_memory \<Rightarrow> (runtime_error, wasm_memory) outcome" where
  "mem_write_u64 offset index val m =
     and_then (effective_address offset index (usize_sub (length (mem_data m)) 7)) (\<lambda>ea.
     and_then (ptr_write 8 (mem_data m) ea val) (\<lambda>d. Ok (m\<lparr>mem_data := d\<rparr>)))"


section \<open>Splitting and joining words\<close>

lemma length_le_split [simp]: "length (le_split n w) = n"
  by (induction n arbitrary: w) auto

lemma le_join_split: "le_join (le_split n w) = take_bit (8 * n) (w :: 'a::len word)"
proof (induction n arbitrary: w)
  case 0
  then show ?case by simp
next
  case (Suc n)
  have "ucast (ucast w :: u8) OR push_bit 8 (take_bit (8 * n) (drop_bit 8 w)) = take_bit (8 * Suc n) w"
  proof (rule bit_word_eqI)
    fix k assume "k < LENGTH('a)"
    moreover have "8 + (k - 8) = k" if "\<not> k < 8" using that by simp
    ultimately show "bit (ucast (ucast w :: u8) OR push_bit 8 (take_bit (8 * n) (drop_bit 8 w))) k =
          bit (take_bit (8 * Suc n) w) k"
      by (cases "k < 8") (auto simp: bit_simps)
  qed
  with Suc.IH [of "drop_bit 8 w"] show ?case by simp
qed

lemma le_join_split_full: "8 * n = LENGTH('a) \<Longrightarrow> le_join (le_split n w) = (w :: 'a::len word)"
  by (simp add: le_join_split take_bit_word_eq_self)

text \<open>The address an access reaches, without wrap-around.\<close>

definition address :: "u32 \<Rightarrow> u32 \<Rightarrow> nat" where
  "address offset index = unat offset + unat index"

lemma address_lt: "address offset index < 2 ^ 33"
  using unsigned_less [of offset, where ?'a = nat] unsigned_less [of index, where ?'a = nat]
  by (simp add: address_def)

lemma unat_ucast_u32_u64: "unat (ucast (x :: u32) :: u64) = unat x"
  by (simp add: unsigned_ucast_eq take_bit_nat_eq_self order.strict_trans [OF unsigned_less])

lemma unat_address: "unat (ucast offset + ucast index :: u64) = address offset index"
  using address_lt [of offset index]
  by (simp add: unat_word_ariths unat_ucast_u32_u64 address_def)

lemma effective_address_iff [outcome_iff]:
  "effective_address offset index limit = Ok ea \<longleftrightarrow> ea = address offset index \<and> ea < limit"
  "effective_address offset index limit = Err e \<longleftrightarrow> \<not> address offset index < limit \<and> e = RtOutOfBounds"
  "effective_address offset index limit \<noteq> Panic"
  "effective_address offset index limit \<noteq> UB u"
  by (auto simp: effective_address_def unat_address Let_def)

lemma effective_address_if:
  "effective_address offset index limit =
     (if address offset index < limit then Ok (address offset index) else Err RtOutOfBounds)"
  by (simp add: effective_address_def unat_address Let_def)



section \<open>The contract of a typed access\<close>

text \<open>
  For a buffer of at least \<open>n\<close> bytes, an access of width \<open>n\<close> succeeds exactly when all
  its bytes lie inside the buffer, and it then reads or replaces those bytes.
\<close>

locale linear_access =
  fixes rd :: "u32 \<Rightarrow> u32 \<Rightarrow> wasm_memory \<Rightarrow> (runtime_error, 'w::len word) outcome"
    and wr :: "u32 \<Rightarrow> u32 \<Rightarrow> 'w word \<Rightarrow> wasm_memory \<Rightarrow> (runtime_error, wasm_memory) outcome"
    and n :: nat
  assumes width: "8 * n = LENGTH('w)"
    and rd_eq: "n \<le> length (mem_data m) \<Longrightarrow> rd off i m =
          (if address off i + n \<le> length (mem_data m)
           then Ok (le_join (take n (drop (address off i) (mem_data m)))) else Err RtOutOfBounds)"
    and wr_eq: "n \<le> length (mem_data m) \<Longrightarrow> wr off i w m =
          (if address off i + n \<le> length (mem_data m)
           then Ok (m\<lparr>mem_data := take (address off i) (mem_data m) @ le_split n w
                                    @ drop (address off i + n) (mem_data m)\<rparr>)
           else Err RtOutOfBounds)"
begin

lemma rd_no_ub: "n \<le> length (mem_data m) \<Longrightarrow> rd off i m \<noteq> UB u"
  by (simp add: rd_eq)

lemma wr_no_ub: "n \<le> length (mem_data m) \<Longrightarrow> wr off i w m \<noteq> UB u"
  by (simp add: wr_eq)

lemma wr_length:
  "n \<le> length (mem_data m) \<Longrightarrow> wr off i w m = Ok m' \<Longrightarrow>
     length (mem_data m') = length (mem_data m) \<and> mem_limit m' = mem_limit m"
  by (auto simp: wr_eq split: if_splits)

lemma rd_wr_same:
  assumes "n \<le> length (mem_data m)" "wr off i w m = Ok m'" "address off' i' = address off i"
  shows "rd off' i' m' = Ok w"
proof -
  from assms have b: "address off i + n \<le> length (mem_data m)"
    and m': "m' = m\<lparr>mem_data := take (address off i) (mem_data m) @ le_split n w
                                    @ drop (address off i + n) (mem_data m)\<rparr>"
    by (auto simp: wr_eq split: if_splits)
  have "n \<le> length (mem_data m')" using wr_length assms by simp
  then show ?thesis
    using b assms(3) by (simp add: rd_eq m' le_join_split_full [OF width])
qed

lemma byte_wr_other:
  assumes "n \<le> length (mem_data m)" "wr off i w m = Ok m'"
    and "k < address off i \<or> address off i + n \<le> k" "k < length (mem_data m)"
  shows "mem_data m' ! k = mem_data m ! k"
  using assms by (auto simp: wr_eq nth_append min_def split: if_splits)

lemma take_drop_wr_other:
  assumes "n \<le> length (mem_data m)" "wr off i w m = Ok m'"
    and "a + c \<le> address off i \<or> address off i + n \<le> a" "a + c \<le> length (mem_data m)"
  shows "take c (drop a (mem_data m')) = take c (drop a (mem_data m))"
  using byte_wr_other [OF assms(1,2)] wr_length [OF assms(1,2)] assms(3,4)
  by (intro nth_equalityI) auto

lemma rd_wr_disjoint:
  assumes "n \<le> length (mem_data m)" "wr off i w m = Ok m'"
    and "address off' i' + n \<le> address off i \<or> address off i + n \<le> address off' i'"
  shows "rd off' i' m' = rd off' i' m"
  using assms wr_length [OF assms(1,2)]
  by (simp add: rd_eq take_drop_wr_other [OF assms(1,2)])

end

lemma le_split_1: "le_split 1 (w :: u8) = [w]"
  by simp

interpretation acc8: linear_access mem_read_u8 mem_write_u8 1
  by unfold_locales
    (auto simp: mem_read_u8_def mem_write_u8_def effective_address_if ptr_read_def ptr_write_def)

interpretation acc16: linear_access mem_read_u16 mem_write_u16 2
  by unfold_locales
    (auto simp: mem_read_u16_def mem_write_u16_def effective_address_if ptr_read_def ptr_write_def usize_sub_def)

interpretation acc32: linear_access mem_read_u32 mem_write_u32 4
  by unfold_locales
    (auto simp: mem_read_u32_def mem_write_u32_def effective_address_if ptr_read_def ptr_write_def usize_sub_def)

interpretation acc64: linear_access mem_read_u64 mem_write_u64 8
  by unfold_locales
    (auto simp: mem_read_u64_def mem_write_u64_def effective_address_if ptr_read_def ptr_write_def usize_sub_def)



section \<open>What the memory object guarantees\<close>

definition memory_inv :: "wasm_memory \<Rightarrow> bool" where
  "memory_inv m \<longleftrightarrow> page_size dvd length (mem_data m)"

lemma memory_inv_new: "memory_inv (memory_new limit)"
  by (simp add: memory_inv_def memory_new_def)

lemma memory_inv_nonempty: "memory_inv m \<Longrightarrow> mem_data m \<noteq> [] \<Longrightarrow> 65536 \<le> length (mem_data m)"
  by (auto simp: memory_inv_def page_size_def dest!: dvd_imp_le)

text \<open>
  A store is visible to exactly the loads that overlap it.  After a successful
  \<open>write_u32\<close> a load of the same address returns the value, a byte load returns its low
  byte (little-endian), loads of other places return what they returned before, and the size and
  the limits of the memory are unchanged.
\<close>

theorem mem_write_read_u32:
  assumes "4 \<le> length (mem_data m)" and "mem_write_u32 off i w m = Ok m'"
  shows "mem_read_u32 off i m' = Ok w \<and> mem_read_u8 off i m' = Ok (ucast w) \<and>
    (address off' i' + 4 \<le> address off i \<or> address off i + 4 \<le> address off' i' \<longrightarrow>
       mem_read_u32 off' i' m' = mem_read_u32 off' i' m) \<and>
    (address off' i' < address off i \<or> address off i + 4 \<le> address off' i' \<longrightarrow>
       mem_read_u8 off' i' m' = mem_read_u8 off' i' m) \<and>
    length (mem_data m') = length (mem_data m) \<and> mem_limit m' = mem_limit m"
proof (intro conjI impI)
  note len = acc32.wr_length [OF assms]
  have w: "address off i + 4 \<le> length (mem_data m)"
    "mem_data m' = take (address off i) (mem_data m) @ le_split 4 w @ drop (address off i + 4) (mem_data m)"
    using assms by (auto simp: acc32.wr_eq split: if_splits)
  show "mem_read_u32 off i m' = Ok w"
    by (rule acc32.rd_wr_same [OF assms refl])
  show "mem_read_u8 off i m' = Ok (ucast w)"
    using w len assms(1) by (simp add: acc8.rd_eq numeral_eq_Suc)
  show "mem_read_u32 off' i' m' = mem_read_u32 off' i' m"
    if "address off' i' + 4 \<le> address off i \<or> address off i + 4 \<le> address off' i'"
    using that by (rule acc32.rd_wr_disjoint [OF assms])
  show "mem_read_u8 off' i' m' = mem_read_u8 off' i' m"
    if "address off' i' < address off i \<or> address off i + 4 \<le> address off' i'"
    using that len assms(1) acc32.take_drop_wr_other [OF assms, of "address off' i'" 1]
    by (auto simp: acc8.rd_eq)
  show "length (mem_data m') = length (mem_data m)" "mem_limit m' = mem_limit m" using len by simp_all
qed

theorem mem_write_read_u32_witness:
  "\<exists>m'. 4 \<le> length (mem_data \<lparr>mem_limit = \<lparr>limit_min = 0, limit_max = 0\<rparr>, mem_data = [1, 2, 3, 4, 5, 6]\<rparr>)
     \<and> mem_write_u32 1 1 0x0D0C0B0A \<lparr>mem_limit = \<lparr>limit_min = 0, limit_max = 0\<rparr>, mem_data = [1, 2, 3, 4, 5, 6]\<rparr> = Ok m'
     \<and> mem_read_u32 1 1 m' = Ok 0x0D0C0B0A \<and> mem_read_u8 0 1 m' = Ok 2"
proof -
  let ?m = "\<lparr>mem_limit = \<lparr>limit_min = 0, limit_max = 0\<rparr>, mem_data = [1, 2, 3, 4, 5, 6]\<rparr>"
  have h: "4 \<le> length (mem_data ?m)" by simp
  have "address 1 1 + 4 \<le> length (mem_data ?m)" by (simp add: address_def)
  then obtain m' where m': "mem_write_u32 1 1 0x0D0C0B0A ?m = Ok m'"
    using acc32.wr_eq [OF h] by auto
  have "mem_read_u8 0 1 ?m = Ok 2"
    by (simp add: acc8.rd_eq address_def numeral_eq_Suc)
  then have "mem_read_u32 1 1 m' = Ok 0x0D0C0B0A" "mem_read_u8 0 1 m' = Ok 2"
    using mem_write_read_u32 [OF h m', of 0 1]
    by (simp_all add: address_def)
  with h m' show ?thesis by blast
qed

text \<open>
  On a memory that has at least one page, every typed load and store either succeeds or
  reports \<open>OutOfBounds\<close>: the bounds check keeps the raw accesses inside the buffer.
\<close>

theorem mem_access_checked:
  assumes "memory_inv m" and "mem_data m \<noteq> []"
  shows "mem_read_u8 off i m \<noteq> UB u \<and> mem_read_u16 off i m \<noteq> UB u \<and>
         mem_read_u32 off i m \<noteq> UB u \<and> mem_read_u64 off i m \<noteq> UB u \<and>
         mem_write_u8 off i b m \<noteq> UB u \<and> mem_write_u16 off i h m \<noteq> UB u \<and>
         mem_write_u32 off i w m \<noteq> UB u \<and> mem_write_u64 off i d m \<noteq> UB u"
  using memory_inv_nonempty [OF assms]
  by (simp add: acc8.rd_no_ub acc16.rd_no_ub acc32.rd_no_ub acc64.rd_no_ub
      acc8.wr_no_ub acc16.wr_no_ub acc32.wr_no_ub acc64.wr_no_ub)

theorem mem_access_checked_witness:
  "memory_inv (memory_new \<lparr>limit_min = 1, limit_max = 1\<rparr>) \<and>
   mem_data (memory_new \<lparr>limit_min = 1, limit_max = 1\<rparr>) \<noteq> [] \<and>
   mem_write_u64 0xFFFFFFFF 0xFFFFFFFF 0 (memory_new \<lparr>limit_min = 1, limit_max = 1\<rparr>) \<noteq> UB OutOfRange"
proof -
  have h: "memory_inv (memory_new \<lparr>limit_min = 1, limit_max = 1\<rparr>)" by (rule memory_inv_new)
  have n: "mem_data (memory_new \<lparr>limit_min = 1, limit_max = 1\<rparr>) \<noteq> []"
    by (simp add: memory_new_def page_size_def)
  show ?thesis using h n mem_access_checked [OF h n] by blast
qed

text \<open>
  On a memory of zero pages the check is void.  \<open>slice.len() - 3\<close> wraps to almost
  \<open>2 ^ 64\<close>, every effective address passes, and each access of two or more bytes goes through
  the raw pointer outside the (empty) buffer.
\<close>

theorem mem_empty_unchecked:
  assumes "mem_data m = []"
  shows "mem_read_u16 off i m = UB OutOfRange \<and> mem_read_u32 off i m = UB OutOfRange \<and>
    mem_read_u64 off i m = UB OutOfRange \<and> mem_write_u16 off i h m = UB OutOfRange \<and>
    mem_write_u32 off i w m = UB OutOfRange \<and> mem_write_u64 off i d m = UB OutOfRange"
  using assms address_lt [of off i]
  by (simp add: mem_read_u16_def mem_read_u32_def mem_read_u64_def mem_write_u16_def
      mem_write_u32_def mem_write_u64_def effective_address_if usize_sub_def ptr_read_def ptr_write_def)

theorem mem_empty_unchecked_witness:
  "mem_data (memory_new \<lparr>limit_min = 0, limit_max = 0\<rparr>) = [] \<and>
   mem_write_u32 0x1000 0x2000 0xDEADBEEF (memory_new \<lparr>limit_min = 0, limit_max = 0\<rparr>) = UB OutOfRange"
proof -
  have h: "mem_data (memory_new \<lparr>limit_min = 0, limit_max = 0\<rparr>) = []"
    by (simp add: memory_new_def)
  show ?thesis using h mem_empty_unchecked [OF h] by simp
qed

text \<open>
  \<open>memory.grow\<close> returns the old size in pages and appends zeroed pages when the
  allocator grants them, and returns -1 and leaves the memory alone otherwise; the old contents
  and the page granularity are kept either way.
\<close>

theorem memory_grow_spec:
  assumes "memory_inv m" and "memory_grow try_reserve delta m = (r, m')"
  shows "memory_inv m' \<and> take (length (mem_data m)) (mem_data m') = mem_data m \<and>
    (r \<noteq> -1 \<longrightarrow> r = memory_size m \<and>
       length (mem_data m') = length (mem_data m) + nat (sint delta) * page_size \<and>
       set (drop (length (mem_data m)) (mem_data m')) \<subseteq> {0}) \<and>
    (r = -1 \<longrightarrow> of_nat (length (mem_data m) div page_size) \<noteq> (-1 :: u32) \<longrightarrow>
       m' = m \<and> (sint delta < 0 \<or> \<not> try_reserve (nat (sint delta) * page_size)))"
  using assms
  by (auto simp: memory_grow_def memory_inv_def memory_size_def Let_def split: if_splits)

theorem memory_grow_spec_witness:
  "memory_inv (memory_new \<lparr>limit_min = 1, limit_max = 1\<rparr>) \<and>
   fst (memory_grow (\<lambda>_. True) 2 (memory_new \<lparr>limit_min = 1, limit_max = 1\<rparr>)) = 1 \<and>
   length (mem_data (snd (memory_grow (\<lambda>_. True) 2 (memory_new \<lparr>limit_min = 1, limit_max = 1\<rparr>)))) = 3 * page_size"
proof -
  let ?m = "memory_new \<lparr>limit_min = 1, limit_max = 1\<rparr>"
  have h: "memory_inv ?m" by (rule memory_inv_new)
  have g: "memory_grow (\<lambda>_. True) 2 ?m =
     (fst (memory_grow (\<lambda>_. True) 2 ?m), snd (memory_grow (\<lambda>_. True) 2 ?m))" by simp
  have one: "fst (memory_grow (\<lambda>_. True) 2 ?m) = 1"
    by (simp add: memory_grow_def memory_new_def page_size_def)
  then have "fst (memory_grow (\<lambda>_. True) 2 ?m) \<noteq> -1" by simp
  with memory_grow_spec [OF h g] one h show ?thesis
    by (simp add: memory_new_def page_size_def)
qed

text \<open>
  \<open>memory.copy\<close> moves its source as it was before the copy, overlapping or not: byte
  \<open>k\<close> of the result is the old byte at the corresponding place of the source inside the
  destination, and the old byte \<open>k\<close> elsewhere.
\<close>

theorem memory_copy_moves:
  assumes "memory_copy dest src count m = Ok m'" and "k < length (mem_data m)"
  shows "length (mem_data m') = length (mem_data m) \<and> mem_data m' ! k =
      (if dest \<le> k \<and> k < dest + count then mem_data m ! (src + (k - dest)) else mem_data m ! k)"
  using assms
  by (auto simp: memory_copy_def ptr_slice_def ptr_copy_def outcome_iff Let_def nth_append min_def split: if_splits)

theorem memory_copy_moves_witness:
  "\<exists>m'. memory_copy 1 0 3 \<lparr>mem_limit = \<lparr>limit_min = 0, limit_max = 0\<rparr>, mem_data = [1, 2, 3, 4, 5, 6]\<rparr> = Ok m'
     \<and> mem_data m' ! 3 = 3"
proof -
  let ?m = "\<lparr>mem_limit = \<lparr>limit_min = 0, limit_max = 0\<rparr>, mem_data = [1, 2, 3, 4, 5, 6]\<rparr>"
  obtain m' where m': "memory_copy 1 0 3 ?m = Ok m'" by (simp add: memory_copy_def ptr_slice_def ptr_copy_def)
  have "3 < length (mem_data ?m)" by simp
  from memory_copy_moves [OF m' this] m' show ?thesis by (simp add: numeral_eq_Suc)
qed

text \<open>
  The bulk operations reject a range that ends exactly at the end of the memory, although
  every byte of it is inside: the comparison is \<open>offset + count < limit\<close>.
\<close>

theorem memory_last_byte_rejected:
  assumes "offset + length src = length (mem_data m)"
  shows "memory_write_slice offset src m = Err RtOutOfBounds \<and>
    memory_slice offset (length src) m = Err RtOutOfBounds \<and>
    memory_write_bytes offset v (length src) m = Err RtOutOfBounds"
  using assms by (simp add: memory_write_slice_def memory_slice_def memory_write_bytes_def)

theorem memory_last_byte_rejected_witness:
  "2 + length [9 :: u8] = length (mem_data \<lparr>mem_limit = \<lparr>limit_min = 0, limit_max = 0\<rparr>, mem_data = [1, 2, 3]\<rparr>) \<and>
   memory_write_slice 2 [9] \<lparr>mem_limit = \<lparr>limit_min = 0, limit_max = 0\<rparr>, mem_data = [1, 2, 3]\<rparr> = Err RtOutOfBounds"
proof -
  have h: "2 + length [9 :: u8] = length (mem_data \<lparr>mem_limit = \<lparr>limit_min = 0, limit_max = 0\<rparr>, mem_data = [1, 2, 3]\<rparr>)"
    by simp
  show ?thesis using h memory_last_byte_rejected [OF h] by blast
qed

interpretation limit: safe_reader limit_from_stream
  unfolding limit_from_stream_def [abs_def]
  by (rule uleb_then_reader) (auto simp: outcome_iff split: if_splits dest!: uleb.rd_advance)

end
