(* ===== verification/IntCode.thy ===== *)
theory IntCode
  imports WasmMemory
begin

text \<open>
  The intermediate code (src/lib/wasm/src/intcode.rs) and the module data it refers to
  (\<open>WasmTable\<close>, \<open>WasmFunction\<close>, \<open>WasmImport\<close>, \<open>WasmExport\<close>,
  \<open>WasmModule\<close>, \<open>WasmCodeBlock\<close>, \<open>WasmBlockContext\<close> of wasm.rs).

  Regular families of \<open>WasmIntMnemonic\<close> are grouped by the operator enumerations of Opcode:
  \<open>I32LtS\<close> of the source is \<open>I32Rel R_LtS\<close>, \<open>FusedI32BrLtS\<close> is
  \<open>FusedI32Br R_LtS\<close>.  The mnemonics of the \<open>float\<close> features are not built into the
  kernel and are left out.
\<close>

section \<open>Mnemonics\<close>

datatype (plugins only: code size) mnemonic =
    Undefined | Unreachable | Nop | Block nat | End nat
  | Br nat | BrIf nat | BrTable "nat list"
  | Return | Call nat | CallIndirect nat | Select
  | LocalGet nat | LocalSet nat | LocalTee nat
  | LocalGet32 nat | LocalSet32 nat | LocalTee32 nat
  | GlobalGet nat | GlobalSet nat
  | Load loadop u32 | Store storeop u32
  | MemorySize | MemoryGrow | MemoryCopy | MemoryFill
  | I32Const u32 | I64Const u64
  | I32Eqz | I32Rel relop | I32Un unop | I32Bin binop
  | I64Eqz | I64Rel relop | I64Un unop | I64Bin binop
  | Conv convop | Reinterpret reinterpretop
  | FusedI32SetConst nat u32
  | FusedI32AddI u32 | FusedI32SubI u32 | FusedI32AndI u32 | FusedI32OrI u32 | FusedI32XorI u32
  | FusedI32ShlI u32 | FusedI32ShrSI u32 | FusedI32ShrUI u32
  | FusedI64SetConst nat u64 | FusedI64AddI u64 | FusedI64SubI u64
  | FusedI32BrZ nat | FusedI32Br relop nat
  | FusedI64BrZ nat | FusedI64BrEq nat | FusedI64BrNe nat

record imc =
  imc_position :: nat
  imc_opcode :: opcode
  imc_mnemonic :: mnemonic
  imc_level :: nat

text \<open>\<open>WasmImc::new\<close>: the source position is cut to 32 bits.\<close>

definition imc_new :: "nat \<Rightarrow> opcode \<Rightarrow> mnemonic \<Rightarrow> nat \<Rightarrow> imc" where
  "imc_new pos opc m level =
     \<lparr>imc_position = pos mod 2 ^ 32, imc_opcode = opc, imc_mnemonic = m, imc_level = level\<rparr>"

lemma imc_new_simps [simp]:
  "imc_mnemonic (imc_new p c m l) = m" "imc_level (imc_new p c m l) = l"
  "imc_opcode (imc_new p c m l) = c"
  by (simp_all add: imc_new_def)

primrec map_outcome :: "('a \<Rightarrow> ('e, 'b) outcome) \<Rightarrow> 'a list \<Rightarrow> ('e, 'b list) outcome" where
  "map_outcome f [] = Ok []"
| "map_outcome f (x # xs) = and_then (f x) (\<lambda>y. and_then (map_outcome f xs) (\<lambda>ys. Ok (y # ys)))"

lemma map_outcome_Ok:
  "map_outcome f xs = Ok ys \<Longrightarrow> length ys = length xs \<and> (\<forall>i < length xs. f (xs ! i) = Ok (ys ! i))"
  by (induction xs arbitrary: ys) (auto simp: outcome_iff nth_Cons split: nat.splits)

lemma map_outcome_total: "(\<And>x. x \<in> set xs \<Longrightarrow> \<exists>y. f x = Ok y) \<Longrightarrow> \<exists>ys. map_outcome f xs = Ok ys"
proof (induction xs)
  case Nil
  then show ?case by simp
next
  case (Cons x xs)
  then obtain y ys where "f x = Ok y" "map_outcome f xs = Ok ys" by fastforce
  then show ?case by simp
qed

text \<open>\<open>adjust_branch_target\<close> rewrites the targets of the branching mnemonics by \<open>f\<close>.\<close>

definition adjust_mnemonic :: "(opcode \<Rightarrow> nat \<Rightarrow> ('e, nat) outcome) \<Rightarrow> mnemonic \<Rightarrow> ('e, mnemonic) outcome" where
  "adjust_mnemonic f m =
     (case m of
        Br t \<Rightarrow> and_then (f (Single Op_Br) t) (\<lambda>t'. Ok (Br t'))
      | BrIf t \<Rightarrow> and_then (f (Single Op_BrIf) t) (\<lambda>t'. Ok (BrIf t'))
      | FusedI32BrZ t \<Rightarrow> and_then (f (Single Op_BrIf) t) (\<lambda>t'. Ok (FusedI32BrZ t'))
      | FusedI32Br r t \<Rightarrow> and_then (f (Single Op_BrIf) t) (\<lambda>t'. Ok (FusedI32Br r t'))
      | FusedI64BrZ t \<Rightarrow> and_then (f (Single Op_BrIf) t) (\<lambda>t'. Ok (FusedI64BrZ t'))
      | FusedI64BrEq t \<Rightarrow> and_then (f (Single Op_BrIf) t) (\<lambda>t'. Ok (FusedI64BrEq t'))
      | FusedI64BrNe t \<Rightarrow> and_then (f (Single Op_BrIf) t) (\<lambda>t'. Ok (FusedI64BrNe t'))
      | BrTable ts \<Rightarrow> and_then (map_outcome (f (Single Op_BrTable)) ts) (\<lambda>ts'. Ok (BrTable ts'))
      | _ \<Rightarrow> Ok m)"

definition adjust_branch_target :: "(opcode \<Rightarrow> nat \<Rightarrow> ('e, nat) outcome) \<Rightarrow> imc \<Rightarrow> ('e, imc) outcome" where
  "adjust_branch_target f c =
     and_then (adjust_mnemonic f (imc_mnemonic c)) (\<lambda>m. Ok (c\<lparr>imc_mnemonic := m\<rparr>))"

text \<open>The targets of a mnemonic, in the order \<open>adjust_branch_target\<close> visits them.\<close>

definition targets :: "mnemonic \<Rightarrow> nat list" where
  "targets m =
     (case m of
        Br t \<Rightarrow> [t] | BrIf t \<Rightarrow> [t] | BrTable ts \<Rightarrow> ts
      | FusedI32BrZ t \<Rightarrow> [t] | FusedI32Br r t \<Rightarrow> [t]
      | FusedI64BrZ t \<Rightarrow> [t] | FusedI64BrEq t \<Rightarrow> [t] | FusedI64BrNe t \<Rightarrow> [t]
      | _ \<Rightarrow> [])"

lemma adjust_mnemonic_targets:
  assumes "adjust_mnemonic f m = Ok m'" "\<And>o' t t'. f o' t = Ok t' \<Longrightarrow> P t'"
  shows "\<forall>t \<in> set (targets m'). P t"
proof (cases m)
  case (BrTable ts)
  with assms(1) obtain ts' where ts': "map_outcome (f (Single Op_BrTable)) ts = Ok ts'" "m' = BrTable ts'"
    by (auto simp: adjust_mnemonic_def outcome_iff)
  have "P t" if "t \<in> set ts'" for t
  proof -
    from that obtain i where "i < length ts'" "ts' ! i = t" by (auto simp: in_set_conv_nth)
    with map_outcome_Ok [OF ts'(1)] assms(2) show ?thesis by metis
  qed
  with ts' show ?thesis by (simp add: targets_def)
qed (use assms in \<open>auto simp: adjust_mnemonic_def targets_def outcome_iff\<close>)

lemma adjust_mnemonic_total:
  assumes "\<And>o' t. t \<in> set (targets m) \<Longrightarrow> \<exists>t'. f o' t = Ok t'"
  shows "\<exists>m'. adjust_mnemonic f m = Ok m'"
proof (cases m)
  case (BrTable ts)
  with assms map_outcome_total [of ts "f (Single Op_BrTable)"] show ?thesis
    by (auto simp: adjust_mnemonic_def targets_def)
next
  case (Br t)
  with assms [of t "Single Op_Br"] show ?thesis by (auto simp: adjust_mnemonic_def targets_def)
qed (use assms [of _ "Single Op_BrIf"] in \<open>fastforce simp: adjust_mnemonic_def targets_def\<close>)+


section \<open>Code blocks, functions and modules\<close>

record code_block =
  cb_func_index :: nat
  cb_file_position :: nat
  cb_local_types :: "val_type list"
  cb_max_stack :: nat
  cb_leaf :: bool
  cb_int_codes :: "imc list"

datatype block_inst_type = Inst_Block | Inst_Loop | Inst_If

record block_context =
  inst_type :: block_inst_type
  block_type :: block_type
  stack_level :: nat
  start_position :: nat
  end_position :: nat
  else_position :: nat

definition preferred_target :: "block_context \<Rightarrow> nat" where
  "preferred_target b = (if inst_type b = Inst_Loop then start_position b else end_position b)"

record wasm_table =
  tbl_limit :: wasm_limit
  tbl_table :: "nat list"

datatype function_origin = Origin_Internal | Origin_Export nat | Origin_Import nat

text \<open>
  An imported function is a Rust function pointer \<open>WasmDynFunc\<close>; the record keeps a handle
  of it, which the interpreter resolves by its argument \<open>host\<close>.
\<close>

record wasm_function =
  f_index :: nat
  f_type_index :: nat
  f_type :: wasm_type
  f_origin :: function_origin
  f_code_block :: "code_block option"
  f_dlink :: "nat option"

definition function_from_import :: "nat \<Rightarrow> nat \<Rightarrow> wasm_type \<Rightarrow> nat \<Rightarrow> wasm_function" where
  "function_from_import index type_index func_type dlink =
     \<lparr>f_index = index, f_type_index = type_index, f_type = func_type,
      f_origin = Origin_Import index, f_code_block = None, f_dlink = Some dlink\<rparr>"

definition function_internal :: "nat \<Rightarrow> nat \<Rightarrow> wasm_type \<Rightarrow> wasm_function" where
  "function_internal index type_index func_type =
     \<lparr>f_index = index, f_type_index = type_index, f_type = func_type,
      f_origin = Origin_Internal, f_code_block = None, f_dlink = None\<rparr>"

datatype import_index = Import_Type nat | Import_Memory wasm_limit

record wasm_import =
  imp_mod_name :: "u8 list"
  imp_name :: "u8 list"
  imp_index :: import_index
  imp_func_ref :: nat

datatype export_index = Export_Function nat | Export_Table nat | Export_Memory nat | Export_Global nat

record wasm_export =
  exp_name :: "u8 list"
  exp_index :: export_index

record wasm_name =
  nm_module :: "u8 list option"
  nm_functions :: "(nat \<times> u8 list) list"
  nm_globals :: "(nat \<times> u8 list) list"

record wasm_module =
  m_types :: "wasm_type list"
  m_imports :: "wasm_import list"
  m_exports :: "wasm_export list"
  m_memories :: "wasm_memory list"
  m_tables :: "wasm_table list"
  m_functions :: "wasm_function list"
  m_start :: "nat option"
  m_globals :: "wasm_global list"
  m_data_count :: "nat option"
  m_names :: "wasm_name option"
  m_n_ext_func :: nat

definition module_new :: wasm_module where
  "module_new = \<lparr>m_types = [], m_imports = [], m_exports = [], m_memories = [], m_tables = [],
     m_functions = [], m_start = None, m_globals = [], m_data_count = None, m_names = None,
     m_n_ext_func = 0\<rparr>"

definition has_memory :: "wasm_module \<Rightarrow> bool" where
  "has_memory md \<longleftrightarrow> 0 < length (m_memories md)"

definition elem_get :: "wasm_module \<Rightarrow> nat \<Rightarrow> wasm_function option" where
  "elem_get md index =
     (case get_at (m_tables md) 0 of None \<Rightarrow> None
      | Some t \<Rightarrow> (case get_at (tbl_table t) index of None \<Rightarrow> None
                   | Some f \<Rightarrow> get_at (m_functions md) f))"

definition func_by_index :: "wasm_module \<Rightarrow> nat \<Rightarrow> (runtime_error, wasm_function) outcome" where
  "func_by_index md index = ok_or RtNoMethod (get_at (m_functions md) index)"

definition entry_point :: "wasm_module \<Rightarrow> (runtime_error, wasm_function) outcome" where
  "entry_point md = and_then (ok_or RtNoMethod (m_start md)) (func_by_index md)"

fun find_export :: "wasm_export list \<Rightarrow> u8 list \<Rightarrow> nat option" where
  "find_export [] name = None"
| "find_export (e # es) name =
     (case exp_index e of
        Export_Function v \<Rightarrow> (if exp_name e = name then Some v else find_export es name)
      | _ \<Rightarrow> find_export es name)"

definition module_func :: "wasm_module \<Rightarrow> u8 list \<Rightarrow> (runtime_error, wasm_function) outcome" where
  "module_func md name =
     (case find_export (m_exports md) name of
        Some v \<Rightarrow> func_by_index md v
      | None \<Rightarrow> Err RtNoMethod)"

end
