(* ===== verification/CodeGen.thy ===== *)
theory CodeGen
  imports IntCode
begin

text \<open>
  The first phase of \<open>WasmCodeBlock::generate\<close> (src/lib/wasm/src/wasm.rs): the loop that
  reads the byte code of a function, tracks the types on the value stack and the open blocks, and
  emits intermediate code.

  \<open>gen_state\<close> holds the local variables of the loop.  The two vectors used as stacks
  (\<open>value_stack\<close>, \<open>block_stack\<close>) are lists with the top first; \<open>blocks\<close> and
  \<open>int_codes\<close> are in index order.  The arms of the match that differ only in the opcode,
  the mnemonic and the value types share one handler.
\<close>

record gen_state =
  gs_stream :: leb128_stream
  gs_blocks :: "block_context list"
  gs_block_stack :: "nat list"
  gs_value_stack :: "val_type list"
  gs_max_stack :: nat
  gs_max_block :: nat
  gs_leaf :: bool
  gs_codes :: "imc list"

type_synonym gen_result = "(decode_error, gen_state) outcome"


section \<open>Steps the arms are made of\<close>

definition gen_read ::
    "(leb128_stream \<Rightarrow> (decode_error, 'a \<times> leb128_stream) outcome) \<Rightarrow> gen_state
       \<Rightarrow> (decode_error, 'a \<times> gen_state) outcome" where
  "gen_read rd st = and_then (rd (gs_stream st)) (\<lambda>(v, s). Ok (v, st\<lparr>gs_stream := s\<rparr>))"

definition gen_level :: "gen_state \<Rightarrow> nat" where
  "gen_level st = length (gs_value_stack st)"

text \<open>\<open>StackLevel(value_stack.len() - 1)\<close>\<close>

definition gen_top_level :: "gen_state \<Rightarrow> nat" where
  "gen_top_level st = usize_sub (length (gs_value_stack st)) 1"

definition gen_pop :: "gen_state \<Rightarrow> (decode_error, val_type \<times> gen_state) outcome" where
  "gen_pop st =
     (case gs_value_stack st of [] \<Rightarrow> Err OutOfStack
      | v # vs \<Rightarrow> Ok (v, st\<lparr>gs_value_stack := vs\<rparr>))"

definition gen_last :: "gen_state \<Rightarrow> (decode_error, val_type) outcome" where
  "gen_last st = (case gs_value_stack st of [] \<Rightarrow> Err OutOfStack | v # vs \<Rightarrow> Ok v)"

definition gen_push :: "val_type \<Rightarrow> gen_state \<Rightarrow> gen_state" where
  "gen_push v st = st\<lparr>gs_value_stack := v # gs_value_stack st\<rparr>"

definition gen_emit :: "nat \<Rightarrow> opcode \<Rightarrow> mnemonic \<Rightarrow> nat \<Rightarrow> gen_state \<Rightarrow> gen_state" where
  "gen_emit pos opc m level st = st\<lparr>gs_codes := gs_codes st @ [imc_new pos opc m level]\<rparr>"

text \<open>\<open>for _ in 0..n_drops { value_stack.pop().ok_or(OutOfStack)?; }\<close>\<close>

definition gen_drops :: "nat \<Rightarrow> gen_state \<Rightarrow> gen_result" where
  "gen_drops n st =
     (if n \<le> length (gs_value_stack st) then Ok (st\<lparr>gs_value_stack := drop n (gs_value_stack st)\<rparr>)
      else Err OutOfStack)"

text \<open>\<open>block_stack.get(block_stack.len() - br - 1)\<close>\<close>

definition block_get :: "nat list \<Rightarrow> nat \<Rightarrow> nat option" where
  "block_get bs br = get_at (rev bs) (usize_sub (usize_sub (length bs) br) 1)"


section \<open>Control\<close>

definition gen_unreachable :: "nat \<Rightarrow> opcode \<Rightarrow> gen_state \<Rightarrow> gen_result" where
  "gen_unreachable pos opc st = Ok (gen_emit pos opc Unreachable (gen_level st) st)"

definition read_block_type :: "leb128_stream \<Rightarrow> (decode_error, block_type \<times> leb128_stream) outcome" where
  "read_block_type s =
     and_then (read_signed s) (\<lambda>(v, s'). and_then (block_type_from_i64 v) (\<lambda>t. Ok (t, s')))"

definition gen_open :: "block_inst_type \<Rightarrow> block_type \<Rightarrow> gen_state \<Rightarrow> gen_state" where
  "gen_open it bt st =
     st\<lparr>gs_block_stack := length (gs_blocks st) # gs_block_stack st,
        gs_blocks := gs_blocks st @
          [\<lparr>inst_type = it, block_type = bt, stack_level = length (gs_value_stack st),
            start_position = 0, end_position = 0, else_position = 0\<rparr>]\<rparr>"

text \<open>The arms of \<open>block\<close> and \<open>loop\<close> differ in the instruction type.\<close>

definition gen_block :: "block_inst_type \<Rightarrow> nat \<Rightarrow> opcode \<Rightarrow> gen_state \<Rightarrow> gen_result" where
  "gen_block it pos opc st =
     (let target = length (gs_blocks st) in
      and_then (gen_read read_block_type st) (\<lambda>(bt, st1).
        Ok (gen_emit pos opc (if bt = BT_Empty then Block target else Undefined) (gen_level st1)
              (gen_open it bt st1))))"

definition gen_if :: "nat \<Rightarrow> opcode \<Rightarrow> gen_state \<Rightarrow> gen_result" where
  "gen_if pos opc st =
     and_then (gen_pop st) (\<lambda>(cc, st1).
     and_then (guard (cc = I32) TypeMismatch) (\<lambda>_.
     and_then (gen_read read_block_type st1) (\<lambda>(bt, st2).
       Ok (gen_emit pos opc Undefined (gen_level st2) (gen_open Inst_If bt st2)))))"

definition gen_else :: "nat \<Rightarrow> opcode \<Rightarrow> gen_state \<Rightarrow> gen_result" where
  "gen_else pos opc st =
     (case gs_block_stack st of
        [] \<Rightarrow> Err ElseWithoutIf
      | r # _ \<Rightarrow>
         (case get_at (gs_blocks st) r of
            None \<Rightarrow> Panic
          | Some b \<Rightarrow>
             and_then (guard (inst_type b = Inst_If) ElseWithoutIf) (\<lambda>_.
             and_then (gen_drops (usize_sub (length (gs_value_stack st)) (stack_level b)) st) (\<lambda>st1.
               Ok (gen_emit pos opc Undefined (gen_level st1) st1)))))"

text \<open>\<open>end\<close> of a block; the \<open>end\<close> of the function is in \<open>gen_step\<close>.\<close>

definition gen_end :: "nat \<Rightarrow> opcode \<Rightarrow> gen_state \<Rightarrow> gen_result" where
  "gen_end pos opc st =
     (case gs_block_stack st of
        [] \<Rightarrow> Err BlockMismatch
      | r # rs \<Rightarrow>
         (case get_at (gs_blocks st) r of
            None \<Rightarrow> Panic
          | Some b \<Rightarrow>
             and_then (gen_drops (usize_sub (length (gs_value_stack st)) (stack_level b))
                         (st\<lparr>gs_block_stack := rs\<rparr>)) (\<lambda>st1.
               let st2 = (case block_into_type (block_type b) of None \<Rightarrow> st1 | Some v \<Rightarrow> gen_push v st1)
               in Ok (gen_emit pos opc (End r) (gen_level st2) st2))))"

definition gen_br :: "nat \<Rightarrow> opcode \<Rightarrow> gen_state \<Rightarrow> gen_result" where
  "gen_br pos opc st =
     and_then (gen_read read_unsigned st) (\<lambda>(br, st1).
     and_then (ok_or OutOfBranch (block_get (gs_block_stack st1) (unat br))) (\<lambda>target.
       Ok (gen_emit pos opc (Br target) (gen_level st1) st1)))"

definition gen_br_if :: "nat \<Rightarrow> opcode \<Rightarrow> gen_state \<Rightarrow> gen_result" where
  "gen_br_if pos opc st =
     and_then (gen_read read_unsigned st) (\<lambda>(br, st1).
     and_then (ok_or OutOfBranch (block_get (gs_block_stack st1) (unat br))) (\<lambda>target.
     and_then (gen_pop st1) (\<lambda>(cc, st2).
     and_then (guard (cc = I32) TypeMismatch) (\<lambda>_.
       Ok (gen_emit pos opc (BrIf target) (gen_level st2) st2)))))"

text \<open>
  \<open>br_table\<close>: \<open>1 + stream.read_unsigned()? as usize\<close> wraps to 0 for the length
  \<open>2 ^ 64 - 1\<close>.
\<close>

definition read_target :: "nat list \<Rightarrow> leb128_stream \<Rightarrow> (decode_error, nat \<times> leb128_stream) outcome" where
  "read_target bs s =
     and_then (read_unsigned s) (\<lambda>(br, s').
     and_then (ok_or OutOfBranch (block_get bs (unat br))) (\<lambda>t. Ok (t, s')))"

definition gen_br_table :: "nat \<Rightarrow> opcode \<Rightarrow> gen_state \<Rightarrow> gen_result" where
  "gen_br_table pos opc st =
     and_then (gen_read read_unsigned st) (\<lambda>(n, st1).
     let table_len = usize_add 1 (unat n) in
     and_then (with_capacity 8 table_len) (\<lambda>_.
     and_then (gen_read (read_many (read_target (gs_block_stack st1)) table_len) st1) (\<lambda>(table, st2).
     and_then (gen_pop st2) (\<lambda>(cc, st3).
     and_then (guard (cc = I32) TypeMismatch) (\<lambda>_.
       Ok (gen_emit pos opc (BrTable table) (gen_level st3) st3))))))"

definition gen_return :: "nat \<Rightarrow> opcode \<Rightarrow> gen_state \<Rightarrow> gen_result" where
  "gen_return pos opc st = Ok (gen_emit pos opc Return (gen_top_level st) st)"

text \<open>
  The arguments of a call are popped without a check (\<open>value_stack.pop();\<close>), and the results
  are pushed in order.
\<close>

definition gen_signature :: "wasm_type \<Rightarrow> gen_state \<Rightarrow> gen_state" where
  "gen_signature t st =
     st\<lparr>gs_value_stack := rev (result_types t) @ drop (length (param_types t)) (gs_value_stack st)\<rparr>"

definition gen_call :: "wasm_module \<Rightarrow> nat \<Rightarrow> opcode \<Rightarrow> gen_state \<Rightarrow> gen_result" where
  "gen_call md pos opc st =
     and_then (gen_read read_unsigned (st\<lparr>gs_leaf := False\<rparr>)) (\<lambda>(i, st1).
     let func_index = unat i in
     and_then (ok_or InvalidParameter (get_at (m_functions md) func_index)) (\<lambda>f.
       Ok (gen_signature (f_type f) (gen_emit pos opc (Call func_index) (gen_level st1) st1))))"

definition gen_call_indirect :: "wasm_module \<Rightarrow> nat \<Rightarrow> opcode \<Rightarrow> gen_state \<Rightarrow> gen_result" where
  "gen_call_indirect md pos opc st =
     and_then (gen_read read_unsigned (st\<lparr>gs_leaf := False\<rparr>)) (\<lambda>(i, st1).
     let type_index = unat i in
     and_then (gen_read read_unsigned st1) (\<lambda>(_, st2).
     and_then (ok_or InvalidParameter (get_at (m_types md) type_index)) (\<lambda>t.
     and_then (gen_pop st2) (\<lambda>(index, st3).
     and_then (guard (index = I32) TypeMismatch) (\<lambda>_.
       Ok (gen_signature t (gen_emit pos opc (CallIndirect type_index) (gen_level st3) st3)))))))"

definition gen_drop :: "gen_state \<Rightarrow> gen_result" where
  "gen_drop st = and_then (gen_pop st) (\<lambda>(_, st1). Ok st1)"

definition gen_select :: "nat \<Rightarrow> opcode \<Rightarrow> gen_state \<Rightarrow> gen_result" where
  "gen_select pos opc st =
     and_then (gen_pop st) (\<lambda>(cc, st1).
     and_then (gen_pop st1) (\<lambda>(b, st2).
     and_then (gen_pop st2) (\<lambda>(a, st3).
     and_then (guard (a = b \<and> cc = I32) TypeMismatch) (\<lambda>_.
       Ok (gen_push a (gen_emit pos opc Select (gen_level st3) st3))))))"


section \<open>Variables\<close>

definition is_32bit :: "val_type \<Rightarrow> bool" where
  "is_32bit t \<longleftrightarrow> t = I32 \<or> t = F32"

definition gen_local_get :: "val_type list \<Rightarrow> nat \<Rightarrow> opcode \<Rightarrow> gen_state \<Rightarrow> gen_result" where
  "gen_local_get lts pos opc st =
     and_then (gen_read read_unsigned st) (\<lambda>(i, st1).
     let local_ref = unat i in
     and_then (ok_or InvalidLocal (get_at lts local_ref)) (\<lambda>val.
       Ok (gen_push val (gen_emit pos opc (if is_32bit val then LocalGet32 local_ref else LocalGet local_ref)
             (gen_level st1) st1))))"

definition gen_local_set :: "val_type list \<Rightarrow> nat \<Rightarrow> opcode \<Rightarrow> gen_state \<Rightarrow> gen_result" where
  "gen_local_set lts pos opc st =
     and_then (gen_read read_unsigned st) (\<lambda>(i, st1).
     let local_ref = unat i in
     and_then (ok_or InvalidLocal (get_at lts local_ref)) (\<lambda>val.
     and_then (gen_pop st1) (\<lambda>(stack, st2).
     and_then (guard (stack = val) TypeMismatch) (\<lambda>_.
       Ok (gen_emit pos opc (if is_32bit val then LocalSet32 local_ref else LocalSet local_ref)
             (gen_level st2) st2)))))"

definition gen_local_tee :: "val_type list \<Rightarrow> nat \<Rightarrow> opcode \<Rightarrow> gen_state \<Rightarrow> gen_result" where
  "gen_local_tee lts pos opc st =
     and_then (gen_read read_unsigned st) (\<lambda>(i, st1).
     let local_ref = unat i in
     and_then (ok_or InvalidLocal (get_at lts local_ref)) (\<lambda>val.
     and_then (gen_last st1) (\<lambda>stack.
     and_then (guard (stack = val) TypeMismatch) (\<lambda>_.
       Ok (gen_emit pos opc (if is_32bit val then LocalTee32 local_ref else LocalTee local_ref)
             (gen_top_level st1) st1)))))"

definition gen_global_get :: "wasm_module \<Rightarrow> nat \<Rightarrow> opcode \<Rightarrow> gen_state \<Rightarrow> gen_result" where
  "gen_global_get md pos opc st =
     and_then (gen_read read_unsigned st) (\<lambda>(i, st1).
     let global_ref = unat i in
     and_then (ok_or InvalidGlobal (get_at (m_globals md) global_ref)) (\<lambda>g.
       Ok (gen_push (g_type g) (gen_emit pos opc (GlobalGet global_ref) (gen_level st1) st1))))"

definition gen_global_set :: "wasm_module \<Rightarrow> nat \<Rightarrow> opcode \<Rightarrow> gen_state \<Rightarrow> gen_result" where
  "gen_global_set md pos opc st =
     and_then (gen_read read_unsigned st) (\<lambda>(i, st1).
     let global_ref = unat i in
     and_then (ok_or InvalidGlobal (get_at (m_globals md) global_ref)) (\<lambda>g.
     and_then (guard (g_mutable g) InvalidGlobal) (\<lambda>_.
     and_then (gen_pop st1) (\<lambda>(stack, st2).
     and_then (guard (stack = g_type g) TypeMismatch) (\<lambda>_.
       Ok (gen_emit pos opc (GlobalSet global_ref) (gen_level st2) st2))))))"


section \<open>Memory\<close>

primrec loadop_type :: "loadop \<Rightarrow> val_type" where
  "loadop_type L_I32Load = I32"
| "loadop_type L_I32Load8S = I32"
| "loadop_type L_I32Load8U = I32"
| "loadop_type L_I32Load16S = I32"
| "loadop_type L_I32Load16U = I32"
| "loadop_type L_I64Load = I64"
| "loadop_type L_I64Load8S = I64"
| "loadop_type L_I64Load8U = I64"
| "loadop_type L_I64Load16S = I64"
| "loadop_type L_I64Load16U = I64"
| "loadop_type L_I64Load32S = I64"
| "loadop_type L_I64Load32U = I64"

definition gen_load :: "wasm_module \<Rightarrow> nat \<Rightarrow> opcode \<Rightarrow> loadop \<Rightarrow> gen_state \<Rightarrow> gen_result" where
  "gen_load md pos opc k st =
     and_then (guard (has_memory md) OutOfMemory) (\<lambda>_.
     and_then (gen_read read_memarg st) (\<lambda>(arg, st1).
     and_then (gen_pop st1) (\<lambda>(a, st2).
     and_then (guard (a = I32) TypeMismatch) (\<lambda>_.
       Ok (gen_push (loadop_type k) (gen_emit pos opc (Load k (arg_offset arg)) (gen_level st2) st2))))))"

text \<open>
  The type checks of the stores, as they are written: an \<open>i32\<close> store is rejected when the
  index differs from the datum \<^emph>\<open>and\<close> is not an \<open>i32\<close>, an \<open>i64\<close> store when the index
  is not an \<open>i32\<close> \<^emph>\<open>and\<close> the datum is not an \<open>i64\<close>.
\<close>

primrec store_rejects :: "storeop \<Rightarrow> val_type \<Rightarrow> val_type \<Rightarrow> bool" where
  "store_rejects S_I32Store i d = (i \<noteq> d \<and> i \<noteq> I32)"
| "store_rejects S_I32Store8 i d = (i \<noteq> d \<and> i \<noteq> I32)"
| "store_rejects S_I32Store16 i d = (i \<noteq> d \<and> i \<noteq> I32)"
| "store_rejects S_I64Store i d = (i \<noteq> I32 \<and> d \<noteq> I64)"
| "store_rejects S_I64Store8 i d = (i \<noteq> I32 \<and> d \<noteq> I64)"
| "store_rejects S_I64Store16 i d = (i \<noteq> I32 \<and> d \<noteq> I64)"
| "store_rejects S_I64Store32 i d = (i \<noteq> I32 \<and> d \<noteq> I64)"

definition gen_store :: "wasm_module \<Rightarrow> nat \<Rightarrow> opcode \<Rightarrow> storeop \<Rightarrow> gen_state \<Rightarrow> gen_result" where
  "gen_store md pos opc k st =
     and_then (guard (has_memory md) OutOfMemory) (\<lambda>_.
     and_then (gen_read read_memarg st) (\<lambda>(arg, st1).
     and_then (gen_pop st1) (\<lambda>(d, st2).
     and_then (gen_pop st2) (\<lambda>(i, st3).
     and_then (guard (\<not> store_rejects k i d) TypeMismatch) (\<lambda>_.
       Ok (gen_emit pos opc (Store k (arg_offset arg)) (gen_level st3) st3))))))"

definition gen_memory_size :: "wasm_module \<Rightarrow> nat \<Rightarrow> opcode \<Rightarrow> gen_state \<Rightarrow> gen_result" where
  "gen_memory_size md pos opc st =
     and_then (gen_read read_unsigned st) (\<lambda>(index, st1).
     and_then (guard (unat index < length (m_memories md)) OutOfMemory) (\<lambda>_.
       Ok (gen_push I32 (gen_emit pos opc MemorySize (gen_level st1) st1))))"

definition gen_memory_grow :: "wasm_module \<Rightarrow> nat \<Rightarrow> opcode \<Rightarrow> gen_state \<Rightarrow> gen_result" where
  "gen_memory_grow md pos opc st =
     and_then (gen_read read_unsigned st) (\<lambda>(index, st1).
     and_then (guard (unat index < length (m_memories md)) OutOfMemory) (\<lambda>_.
     let st2 = gen_emit pos opc MemoryGrow (gen_top_level st1) st1 in
     and_then (gen_last st2) (\<lambda>a.
     and_then (guard (a = I32) TypeMismatch) (\<lambda>_. Ok st2))))"

definition gen_memory_copy :: "wasm_module \<Rightarrow> nat \<Rightarrow> opcode \<Rightarrow> gen_state \<Rightarrow> gen_result" where
  "gen_memory_copy md pos opc st =
     and_then (guard (has_memory md) OutOfMemory) (\<lambda>_.
     and_then (gen_read read_unsigned st) (\<lambda>(dst, st1).
     and_then (guard (unat dst < length (m_memories md)) OutOfMemory) (\<lambda>_.
     and_then (gen_read read_unsigned st1) (\<lambda>(src, st2).
     and_then (guard (unat src < length (m_memories md)) OutOfMemory) (\<lambda>_.
     and_then (gen_pop st2) (\<lambda>(a, st3).
     and_then (gen_pop st3) (\<lambda>(b, st4).
     and_then (gen_pop st4) (\<lambda>(c, st5).
     and_then (guard (a = I32 \<and> b = I32 \<and> c = I32) TypeMismatch) (\<lambda>_.
       Ok (gen_emit pos opc MemoryCopy (gen_level st5) st5))))))))))"

definition gen_memory_fill :: "wasm_module \<Rightarrow> nat \<Rightarrow> opcode \<Rightarrow> gen_state \<Rightarrow> gen_result" where
  "gen_memory_fill md pos opc st =
     and_then (guard (has_memory md) OutOfMemory) (\<lambda>_.
     and_then (gen_read read_unsigned st) (\<lambda>(index, st1).
     and_then (guard (unat index < length (m_memories md)) OutOfMemory) (\<lambda>_.
     and_then (gen_pop st1) (\<lambda>(a, st3).
     and_then (gen_pop st3) (\<lambda>(b, st4).
     and_then (gen_pop st4) (\<lambda>(c, st5).
     and_then (guard (a = I32 \<and> b = I32 \<and> c = I32) TypeMismatch) (\<lambda>_.
       Ok (gen_emit pos opc MemoryFill (gen_level st5) st5))))))))"


section \<open>Numeric instructions\<close>

text \<open>\<open>let val: i32 = val.try_into()\<close> succeeds on the range of \<open>i32\<close>.\<close>

definition gen_i32_const :: "nat \<Rightarrow> opcode \<Rightarrow> gen_state \<Rightarrow> gen_result" where
  "gen_i32_const pos opc st =
     and_then (gen_read read_signed st) (\<lambda>(val, st1).
     and_then (guard (- (2 ^ 31) \<le> sint val \<and> sint val < 2 ^ 31) InvalidParameter) (\<lambda>_.
       Ok (gen_push I32 (gen_emit pos opc (I32Const (ucast val)) (gen_level st1) st1))))"

definition gen_i64_const :: "nat \<Rightarrow> opcode \<Rightarrow> gen_state \<Rightarrow> gen_result" where
  "gen_i64_const pos opc st =
     and_then (gen_read read_signed st) (\<lambda>(val, st1).
       Ok (gen_push I64 (gen_emit pos opc (I64Const val) (gen_level st1) st1)))"

text \<open>Operators \<open>[t] -> [t]\<close>: the code is emitted before the operand is checked.\<close>

definition gen_unary :: "val_type \<Rightarrow> nat \<Rightarrow> opcode \<Rightarrow> mnemonic \<Rightarrow> gen_state \<Rightarrow> gen_result" where
  "gen_unary t pos opc m st =
     (let st1 = gen_emit pos opc m (gen_top_level st) st in
      and_then (gen_last st1) (\<lambda>a.
      and_then (guard (a = t) TypeMismatch) (\<lambda>_. Ok st1)))"

text \<open>Comparisons \<open>[t, t] -> [i32]\<close>.\<close>

definition gen_compare :: "val_type \<Rightarrow> nat \<Rightarrow> opcode \<Rightarrow> mnemonic \<Rightarrow> gen_state \<Rightarrow> gen_result" where
  "gen_compare t pos opc m st =
     and_then (gen_pop st) (\<lambda>(a, st1).
     and_then (gen_pop st1) (\<lambda>(b, st2).
     and_then (guard (a = b \<and> a = t) TypeMismatch) (\<lambda>_.
       Ok (gen_push I32 (gen_emit pos opc m (gen_level st2) st2)))))"

text \<open>Operators \<open>[t, t] -> [t]\<close>.\<close>

definition gen_binary :: "val_type \<Rightarrow> nat \<Rightarrow> opcode \<Rightarrow> mnemonic \<Rightarrow> gen_state \<Rightarrow> gen_result" where
  "gen_binary t pos opc m st =
     and_then (gen_pop st) (\<lambda>(a, st1).
     and_then (gen_last st1) (\<lambda>b.
     and_then (guard (a = b \<and> a = t) TypeMismatch) (\<lambda>_.
       Ok (gen_emit pos opc m (gen_top_level st1) st1))))"

text \<open>Conversions \<open>[t] -> [t']\<close>.\<close>

definition gen_convert :: "val_type \<Rightarrow> val_type \<Rightarrow> nat \<Rightarrow> opcode \<Rightarrow> mnemonic \<Rightarrow> gen_state \<Rightarrow> gen_result" where
  "gen_convert t t' pos opc m st =
     and_then (gen_pop st) (\<lambda>(a, st1).
     and_then (guard (a = t) TypeMismatch) (\<lambda>_.
       Ok (gen_push t' (gen_emit pos opc m (gen_level st1) st1))))"

primrec gen_conv :: "convop \<Rightarrow> nat \<Rightarrow> opcode \<Rightarrow> gen_state \<Rightarrow> gen_result" where
  "gen_conv C_I32Extend8S pos opc = gen_unary I32 pos opc (Conv C_I32Extend8S)"
| "gen_conv C_I32Extend16S pos opc = gen_unary I32 pos opc (Conv C_I32Extend16S)"
| "gen_conv C_I64Extend8S pos opc = gen_unary I64 pos opc (Conv C_I64Extend8S)"
| "gen_conv C_I64Extend16S pos opc = gen_unary I64 pos opc (Conv C_I64Extend16S)"
| "gen_conv C_I64Extend32S pos opc = gen_unary I64 pos opc (Conv C_I64Extend32S)"
| "gen_conv C_I32WrapI64 pos opc = gen_convert I64 I32 pos opc (Conv C_I32WrapI64)"
| "gen_conv C_I64ExtendI32S pos opc = gen_convert I32 I64 pos opc (Conv C_I64ExtendI32S)"
| "gen_conv C_I64ExtendI32U pos opc = gen_convert I32 I64 pos opc (Conv C_I64ExtendI32U)"

primrec gen_reinterpret :: "reinterpretop \<Rightarrow> nat \<Rightarrow> opcode \<Rightarrow> gen_state \<Rightarrow> gen_result" where
  "gen_reinterpret P_I32ReinterpretF32 pos opc = gen_convert F32 I32 pos opc (Reinterpret P_I32ReinterpretF32)"
| "gen_reinterpret P_I64ReinterpretF64 pos opc = gen_convert F64 I64 pos opc (Reinterpret P_I64ReinterpretF64)"
| "gen_reinterpret P_F32ReinterpretI32 pos opc = gen_convert I32 F32 pos opc (Reinterpret P_F32ReinterpretI32)"
| "gen_reinterpret P_F64ReinterpretI64 pos opc = gen_convert I64 F64 pos opc (Reinterpret P_F64ReinterpretI64)"


text \<open>The arms of each family, by operator.\<close>

definition gen_i32_unary :: "nat \<Rightarrow> opcode \<Rightarrow> unop \<Rightarrow> gen_state \<Rightarrow> gen_result" where
  "gen_i32_unary pos opc u = gen_unary I32 pos opc (I32Un u)"

definition gen_i64_unary :: "nat \<Rightarrow> opcode \<Rightarrow> unop \<Rightarrow> gen_state \<Rightarrow> gen_result" where
  "gen_i64_unary pos opc u = gen_unary I64 pos opc (I64Un u)"

definition gen_i32_compare :: "nat \<Rightarrow> opcode \<Rightarrow> relop \<Rightarrow> gen_state \<Rightarrow> gen_result" where
  "gen_i32_compare pos opc r = gen_compare I32 pos opc (I32Rel r)"

definition gen_i64_compare :: "nat \<Rightarrow> opcode \<Rightarrow> relop \<Rightarrow> gen_state \<Rightarrow> gen_result" where
  "gen_i64_compare pos opc r = gen_compare I64 pos opc (I64Rel r)"

definition gen_i32_binary :: "nat \<Rightarrow> opcode \<Rightarrow> binop \<Rightarrow> gen_state \<Rightarrow> gen_result" where
  "gen_i32_binary pos opc b = gen_binary I32 pos opc (I32Bin b)"

definition gen_i64_binary :: "nat \<Rightarrow> opcode \<Rightarrow> binop \<Rightarrow> gen_state \<Rightarrow> gen_result" where
  "gen_i64_binary pos opc b = gen_binary I64 pos opc (I64Bin b)"


section \<open>The loop\<close>

definition gen_single :: "wasm_module \<Rightarrow> val_type list \<Rightarrow> nat \<Rightarrow> single_opcode \<Rightarrow> gen_state \<Rightarrow> gen_result" where
  "gen_single md lts pos op st =
     (let opc = Single op in
      case op of
        Op_Unreachable \<Rightarrow> gen_unreachable pos opc st
      | Op_Nop \<Rightarrow> Ok st
      | Op_Block \<Rightarrow> gen_block Inst_Block pos opc st
      | Op_Loop \<Rightarrow> gen_block Inst_Loop pos opc st
      | Op_If \<Rightarrow> gen_if pos opc st
      | Op_Else \<Rightarrow> gen_else pos opc st
      | Op_End \<Rightarrow> gen_end pos opc st
      | Op_Br \<Rightarrow> gen_br pos opc st
      | Op_BrIf \<Rightarrow> gen_br_if pos opc st
      | Op_BrTable \<Rightarrow> gen_br_table pos opc st
      | Op_Return \<Rightarrow> gen_return pos opc st
      | Op_Call \<Rightarrow> gen_call md pos opc st
      | Op_CallIndirect \<Rightarrow> gen_call_indirect md pos opc st
      | Op_Drop \<Rightarrow> gen_drop st
      | Op_Select \<Rightarrow> gen_select pos opc st
      | Op_LocalGet \<Rightarrow> gen_local_get lts pos opc st
      | Op_LocalSet \<Rightarrow> gen_local_set lts pos opc st
      | Op_LocalTee \<Rightarrow> gen_local_tee lts pos opc st
      | Op_GlobalGet \<Rightarrow> gen_global_get md pos opc st
      | Op_GlobalSet \<Rightarrow> gen_global_set md pos opc st
      | Op_Load k \<Rightarrow> gen_load md pos opc k st
      | Op_Store k \<Rightarrow> gen_store md pos opc k st
      | Op_MemorySize \<Rightarrow> gen_memory_size md pos opc st
      | Op_MemoryGrow \<Rightarrow> gen_memory_grow md pos opc st
      | Op_I32Const \<Rightarrow> gen_i32_const pos opc st
      | Op_I64Const \<Rightarrow> gen_i64_const pos opc st
      | Op_I32Eqz \<Rightarrow> gen_unary I32 pos opc I32Eqz st
      | Op_I32Un u \<Rightarrow> gen_i32_unary pos opc u st
      | Op_I32Rel r \<Rightarrow> gen_i32_compare pos opc r st
      | Op_I32Bin b \<Rightarrow> gen_i32_binary pos opc b st
      | Op_I64Rel r \<Rightarrow> gen_i64_compare pos opc r st
      | Op_I64Un u \<Rightarrow> gen_i64_unary pos opc u st
      | Op_I64Bin b \<Rightarrow> gen_i64_binary pos opc b st
      | Op_I64Eqz \<Rightarrow> gen_convert I64 I32 pos opc I64Eqz st
      | Op_Conv c \<Rightarrow> gen_conv c pos opc st
      | Op_Reinterpret p \<Rightarrow> gen_reinterpret p pos opc st
      | Op_PrefixFC \<Rightarrow> Panic
      | Op_PrefixFD \<Rightarrow> Panic
      | Op_Unhandled _ \<Rightarrow> Err (UnsupportedOpCode opc))"

definition gen_fc :: "wasm_module \<Rightarrow> nat \<Rightarrow> opcode_fc \<Rightarrow> gen_state \<Rightarrow> gen_result" where
  "gen_fc md pos c st =
     (case c of
        MemoryCopy_FC \<Rightarrow> gen_memory_copy md pos (PrefixFC c) st
      | MemoryFill_FC \<Rightarrow> gen_memory_fill md pos (PrefixFC c) st
      | _ \<Rightarrow> Err (UnsupportedOpCode (PrefixFC c)))"

text \<open>The head of the loop body: the high-water marks.\<close>

definition gen_marks :: "gen_state \<Rightarrow> gen_state" where
  "gen_marks st =
     st\<lparr>gs_max_stack := max (gs_max_stack st) (length (gs_value_stack st)),
        gs_max_block := max (gs_max_block st) (length (gs_block_stack st))\<rparr>"

text \<open>One round of the loop; the Boolean says whether the loop is left (\<open>break\<close>).\<close>

definition gen_step :: "wasm_module \<Rightarrow> val_type list \<Rightarrow> gen_state \<Rightarrow> (decode_error, bool \<times> gen_state) outcome" where
  "gen_step md lts st =
     (let st0 = gen_marks st; pos = position (gs_stream st0) in
      and_then (gen_read read_opcode st0) (\<lambda>(opc, st1).
        case opc of
          Single op \<Rightarrow>
            (if op = Op_End \<and> gs_block_stack st1 = []
             then Ok (True, gen_emit pos opc Return (gen_top_level st1) st1)
             else and_then (gen_single md lts pos op st1) (\<lambda>st2. Ok (False, st2)))
        | PrefixFC c \<Rightarrow> and_then (gen_fc md pos c st1) (\<lambda>st2. Ok (False, st2))
        | PrefixFD _ \<Rightarrow> Err (UnsupportedOpCode opc)))"

end
