(* ===== verification/Verifier.thy ===== *)
theory Verifier
  imports CodeGen
begin

text \<open>
  What the first phase of \<open>WasmCodeBlock::generate\<close> checks: the contract every arm of its
  loop keeps, the invariant of the loop, its termination, and the verifier's promise for the
  emitted codes.
\<close>

section \<open>What the verifier promises about a code\<close>

text \<open>
  The comments on the unchecked accessors of intr.rs say that the stack levels and the ranges are
  \<open>guaranteed by the code verifier\<close>.  \<open>stack_need\<close> is the number of slots, counted from
  the stack level of a code, that the interpreter touches for its mnemonic; \<open>operand_ok\<close>
  says that the indices inside the mnemonic are in range.
\<close>

definition stack_need :: "mnemonic \<Rightarrow> nat" where
  "stack_need m =
     (case m of
        BrIf _ \<Rightarrow> 1 | BrTable _ \<Rightarrow> 1 | CallIndirect _ \<Rightarrow> 1 | Select \<Rightarrow> 3
      | LocalGet _ \<Rightarrow> 1 | LocalSet _ \<Rightarrow> 1 | LocalTee _ \<Rightarrow> 1
      | LocalGet32 _ \<Rightarrow> 1 | LocalSet32 _ \<Rightarrow> 1 | LocalTee32 _ \<Rightarrow> 1
      | GlobalGet _ \<Rightarrow> 1 | GlobalSet _ \<Rightarrow> 1 | Load _ _ \<Rightarrow> 1 | Store _ _ \<Rightarrow> 2
      | MemorySize \<Rightarrow> 1 | MemoryGrow \<Rightarrow> 1 | MemoryCopy \<Rightarrow> 3 | MemoryFill \<Rightarrow> 3
      | I32Const _ \<Rightarrow> 1 | I64Const _ \<Rightarrow> 1
      | I32Eqz \<Rightarrow> 1 | I32Rel _ \<Rightarrow> 2 | I32Un _ \<Rightarrow> 1 | I32Bin _ \<Rightarrow> 2
      | I64Eqz \<Rightarrow> 1 | I64Rel _ \<Rightarrow> 2 | I64Un _ \<Rightarrow> 1 | I64Bin _ \<Rightarrow> 2
      | Conv _ \<Rightarrow> 1
      | FusedI32AddI _ \<Rightarrow> 1 | FusedI32SubI _ \<Rightarrow> 1 | FusedI32AndI _ \<Rightarrow> 1 | FusedI32OrI _ \<Rightarrow> 1
      | FusedI32XorI _ \<Rightarrow> 1 | FusedI32ShlI _ \<Rightarrow> 1 | FusedI32ShrSI _ \<Rightarrow> 1 | FusedI32ShrUI _ \<Rightarrow> 1
      | FusedI64AddI _ \<Rightarrow> 1 | FusedI64SubI _ \<Rightarrow> 1
      | FusedI32BrZ _ \<Rightarrow> 1 | FusedI32Br _ _ \<Rightarrow> 2
      | FusedI64BrZ _ \<Rightarrow> 1 | FusedI64BrEq _ \<Rightarrow> 2 | FusedI64BrNe _ \<Rightarrow> 2
      | _ \<Rightarrow> 0)"

definition operand_ok :: "wasm_module \<Rightarrow> val_type list \<Rightarrow> mnemonic \<Rightarrow> bool" where
  "operand_ok md lts m =
     (case m of
        LocalGet i \<Rightarrow> i < length lts | LocalSet i \<Rightarrow> i < length lts | LocalTee i \<Rightarrow> i < length lts
      | LocalGet32 i \<Rightarrow> i < length lts | LocalSet32 i \<Rightarrow> i < length lts | LocalTee32 i \<Rightarrow> i < length lts
      | FusedI32SetConst i _ \<Rightarrow> i < length lts | FusedI64SetConst i _ \<Rightarrow> i < length lts
      | GlobalGet i \<Rightarrow> i < length (m_globals md) | GlobalSet i \<Rightarrow> i < length (m_globals md)
      | Call i \<Rightarrow> i < length (m_functions md) | CallIndirect i \<Rightarrow> i < length (m_types md)
      | Load _ _ \<Rightarrow> has_memory md | Store _ _ \<Rightarrow> has_memory md
      | MemorySize \<Rightarrow> has_memory md | MemoryGrow \<Rightarrow> has_memory md
      | MemoryCopy \<Rightarrow> has_memory md | MemoryFill \<Rightarrow> has_memory md
      | _ \<Rightarrow> True)"

text \<open>
  A \<open>return\<close> is emitted at the level of the topmost value, \<open>value_stack.len() - 1\<close>, which
  wraps around when the stack is empty.  A call's level is the height of the stack; that its
  arguments, the slots just below the level, are there is not checked (\<open>TODO: type check\<close>).
\<close>

definition level_ok :: "nat \<Rightarrow> imc \<Rightarrow> bool" where
  "level_ok bound c \<longleftrightarrow>
     (if imc_mnemonic c = Return then imc_level c < bound \<or> imc_level c = 2 ^ 64 - 1
      else imc_level c + stack_need (imc_mnemonic c) \<le> bound)"

text \<open>The block numbers of a code before the branch targets are fixed.\<close>

definition block_refs :: "mnemonic \<Rightarrow> nat list" where
  "block_refs m = (case m of Block b \<Rightarrow> [b] | End b \<Rightarrow> [b] | _ \<Rightarrow> targets m)"

definition code_ok :: "wasm_module \<Rightarrow> val_type list \<Rightarrow> nat \<Rightarrow> nat \<Rightarrow> imc \<Rightarrow> bool" where
  "code_ok md lts nblocks bound c \<longleftrightarrow>
     level_ok bound c \<and> operand_ok md lts (imc_mnemonic c) \<and>
     (\<forall>b \<in> set (block_refs (imc_mnemonic c)). b < nblocks)"

lemma level_ok_new:
  "level_ok bound (imc_new pos opc m l) \<longleftrightarrow>
     (if m = Return then l < bound \<or> l = 2 ^ 64 - 1 else l + stack_need m \<le> bound)"
  by (simp add: level_ok_def imc_new_def)

lemmas code_ok_defs = code_ok_def level_ok_new operand_ok_def stack_need_def block_refs_def targets_def

text \<open>The comparisons that a following conditional branch is fused with.\<close>

definition is_compare :: "mnemonic \<Rightarrow> bool" where
  "is_compare m = (case m of I32Eqz \<Rightarrow> True | I32Rel _ \<Rightarrow> True | I64Eqz \<Rightarrow> True | I64Rel _ \<Rightarrow> True | _ \<Rightarrow> False)"

definition is_brif :: "mnemonic \<Rightarrow> bool" where
  "is_brif m = (case m of BrIf _ \<Rightarrow> True | _ \<Rightarrow> False)"


section \<open>The contract of an arm\<close>

definition keeps_stream :: "leb128_stream \<Rightarrow> leb128_stream \<Rightarrow> bool" where
  "keeps_stream s s' \<longleftrightarrow>
     blob s' = blob s \<and> position s \<le> position s' \<and>
     (position s \<le> length (blob s) \<longrightarrow> position s' \<le> length (blob s))"

text \<open>
  An arm moves the stream forward, leaves the high-water mark and the existing blocks and codes
  alone, and emits at most one code.  That code keeps the verifier's promise for the stack heights
  around it; a comparison leaves its result on top, a conditional branch pops its condition, and
  an arm without code does not raise the stack.
\<close>

definition block_stack_ok :: "gen_state \<Rightarrow> bool" where
  "block_stack_ok st \<longleftrightarrow> (\<forall>b \<in> set (gs_block_stack st). b < length (gs_blocks st))"

text \<open>The positions of a block are set after the loop.\<close>

definition fresh_block :: "block_context \<Rightarrow> bool" where
  "fresh_block b \<longleftrightarrow> start_position b = 0 \<and> end_position b = 0"

definition is_call :: "mnemonic \<Rightarrow> bool" where
  "is_call m = (case m of Call _ \<Rightarrow> True | CallIndirect _ \<Rightarrow> True | _ \<Rightarrow> False)"

definition arm_ok :: "wasm_module \<Rightarrow> val_type list \<Rightarrow> gen_state \<Rightarrow> gen_state \<Rightarrow> bool" where
  "arm_ok md lts st st' \<longleftrightarrow>
     keeps_stream (gs_stream st) (gs_stream st') \<and>
     gs_max_stack st' = gs_max_stack st \<and>
     (\<exists>bs. gs_blocks st' = gs_blocks st @ bs \<and> (\<forall>b \<in> set bs. fresh_block b)) \<and>
     (gs_leaf st' \<longrightarrow> gs_leaf st) \<and>
     (block_stack_ok st \<longrightarrow> block_stack_ok st' \<and>
      (gs_codes st' = gs_codes st \<and> length (gs_value_stack st') \<le> length (gs_value_stack st) \<or>
       (\<exists>c. gs_codes st' = gs_codes st @ [c] \<and>
         code_ok md lts (length (gs_blocks st'))
           (max (length (gs_value_stack st)) (length (gs_value_stack st'))) c \<and>
         (is_compare (imc_mnemonic c) \<longrightarrow> length (gs_value_stack st') \<le> imc_level c + 1) \<and>
         (is_brif (imc_mnemonic c) \<longrightarrow> imc_level c + 1 \<le> length (gs_value_stack st)) \<and>
         (gs_leaf st' \<longrightarrow> \<not> is_call (imc_mnemonic c)))))"

context reader
begin

lemma gen_read_E:
  assumes "gen_read rd st = Ok (v, st')"
  obtains s where "st' = st\<lparr>gs_stream := s\<rparr>" "keeps_stream (gs_stream st) s"
    "rd (gs_stream st) = Ok (v, s)" "position (gs_stream st) < position s"
  using assms
  by (auto simp: gen_read_def outcome_iff keeps_stream_def dest: rd_advance)

end

lemma keeps_stream_refl [simp]: "keeps_stream s s"
  by (simp add: keeps_stream_def)

lemma keeps_stream_trans: "keeps_stream a b \<Longrightarrow> keeps_stream b c \<Longrightarrow> keeps_stream a c"
  by (auto simp: keeps_stream_def)

interpretation blockty: safe_reader read_block_type
  by unfold_locales
    (auto simp: read_block_type_def block_type_from_i64_def Let_def outcome_iff split: if_splits
      dest!: sleb.rd_advance)

interpretation target: safe_reader "read_target bs" for bs
  by unfold_locales (auto simp: read_target_def outcome_iff dest!: uleb.rd_advance)

lemma many_keeps:
  assumes "read_many (read_target bs) n s = Ok (ts, s')"
  shows "keeps_stream s s'"
  using target.many_blob [OF assms] target.many_advance [OF assms]
    target.many_bounded [OF assms] assms
  by (cases n) (auto simp: keeps_stream_def)

lemma read_many_keeps:
  assumes "gen_read (read_many (read_target bs) n) st = Ok (ts, st')"
  obtains s where "st' = st\<lparr>gs_stream := s\<rparr>" "keeps_stream (gs_stream st) s"
    "read_many (read_target bs) n (gs_stream st) = Ok (ts, s)"
  using assms many_keeps by (auto simp: gen_read_def outcome_iff)

lemma block_get_in_set: "block_get bs br = Some t \<Longrightarrow> t \<in> set bs"
  unfolding block_get_def by (drule get_at_in_set) simp

lemma read_target_in_set: "read_target bs s = Ok (t, s') \<Longrightarrow> t \<in> set bs"
  by (auto simp: read_target_def outcome_iff intro: block_get_in_set)

lemma read_targets_in_set:
  "read_many (read_target bs) n s = Ok (ts, s') \<Longrightarrow> set ts \<subseteq> set bs"
proof (induction n arbitrary: s ts)
  case (Suc n)
  then obtain t s1 ts1 where "read_target bs s = Ok (t, s1)"
    "read_many (read_target bs) n s1 = Ok (ts1, s')" "ts = t # ts1"
    by (auto simp: outcome_iff)
  then show ?case using Suc.IH read_target_in_set by simp
qed simp

lemma read_targets_all:
  "read_many (read_target bs) n s = Ok (ts, s') \<Longrightarrow> \<forall>b \<in> set bs. b < k \<Longrightarrow> b \<in> set ts \<Longrightarrow> b < k"
  using read_targets_in_set by blast

lemma gen_pop_E:
  assumes "gen_pop st = Ok (v, st')"
  obtains vs where "gs_value_stack st = v # vs" "st' = st\<lparr>gs_value_stack := vs\<rparr>"
  using assms by (auto simp: gen_pop_def split: list.splits)

lemma gen_last_E:
  assumes "gen_last st = Ok v"
  obtains vs where "gs_value_stack st = v # vs"
  using assms by (auto simp: gen_last_def split: list.splits)

lemmas gen_elims = gen_pop_E gen_last_E uleb.gen_read_E sleb.gen_read_E memarg.gen_read_E
  blockty.gen_read_E read_many_keeps

lemmas gen_simps = gen_emit_def gen_push_def gen_level_def gen_top_level_def usize_sub_def
  outcome_iff Let_def arm_ok_def block_stack_ok_def code_ok_defs is_compare_def is_brif_def
  is_call_def fresh_block_def


section \<open>Every arm keeps the contract\<close>

lemma gen_unreachable_ok: "gen_unreachable pos opc st = Ok st' \<Longrightarrow> arm_ok md lts st st'"
  by (auto simp: gen_unreachable_def gen_simps)

lemma gen_block_ok:
  assumes "gen_block it pos opc st = Ok st'"
  shows "arm_ok md lts st st'"
proof -
  from assms obtain bt s where s: "keeps_stream (gs_stream st) s" and
    st': "st' = gen_emit pos opc (if bt = BT_Empty then Block (length (gs_blocks st)) else Undefined)
            (length (gs_value_stack st)) (gen_open it bt (st\<lparr>gs_stream := s\<rparr>))"
    by (auto simp: gen_block_def Let_def outcome_iff gen_level_def elim!: gen_elims)
  then show ?thesis
    by (cases "bt = BT_Empty") (auto simp: gen_open_def gen_simps less_SucI)
qed

lemma gen_if_ok: "gen_if pos opc st = Ok st' \<Longrightarrow> arm_ok md lts st st'"
  by (auto simp: gen_if_def gen_open_def gen_simps less_SucI elim!: gen_elims)

lemma gen_else_ok: "gen_else pos opc st = Ok st' \<Longrightarrow> arm_ok md lts st st'"
  by (auto simp: gen_else_def gen_drops_def gen_simps split: list.splits option.splits if_splits)

lemma gen_end_ok: "gen_end pos opc st = Ok st' \<Longrightarrow> arm_ok md lts st st'"
  by (auto simp: gen_end_def gen_drops_def gen_simps get_at_Some_iff
      split: list.splits option.splits if_splits)

lemma gen_br_ok: "gen_br pos opc st = Ok st' \<Longrightarrow> arm_ok md lts st st'"
  by (auto simp: gen_br_def gen_simps elim!: gen_elims dest!: block_get_in_set)

lemma gen_br_if_ok: "gen_br_if pos opc st = Ok st' \<Longrightarrow> arm_ok md lts st st'"
  by (auto simp: gen_br_if_def gen_simps elim!: gen_elims dest!: block_get_in_set)

lemma gen_br_table_ok: "gen_br_table pos opc st = Ok st' \<Longrightarrow> arm_ok md lts st st'"
  by (auto simp: gen_br_table_def gen_simps elim!: gen_elims intro: keeps_stream_trans read_targets_all)

lemma gen_return_ok: "gen_return pos opc st = Ok st' \<Longrightarrow> arm_ok md lts st st'"
  by (cases "gs_value_stack st") (auto simp: gen_return_def gen_simps)

lemma gen_call_ok: "gen_call md pos opc st = Ok st' \<Longrightarrow> arm_ok md lts st st'"
  by (auto simp: gen_call_def gen_signature_def gen_simps get_at_Some_iff elim!: gen_elims)

lemma gen_call_indirect_ok:
  "gen_call_indirect md pos opc st = Ok st' \<Longrightarrow> arm_ok md lts st st'"
  by (auto simp: gen_call_indirect_def gen_signature_def gen_simps get_at_Some_iff elim!: gen_elims
      intro: keeps_stream_trans)

lemma gen_drop_ok: "gen_drop st = Ok st' \<Longrightarrow> arm_ok md lts st st'"
  by (auto simp: gen_drop_def gen_simps elim!: gen_elims)

lemma gen_select_ok: "gen_select pos opc st = Ok st' \<Longrightarrow> arm_ok md lts st st'"
  by (auto simp: gen_select_def gen_simps elim!: gen_elims)

lemma gen_local_get_ok:
  assumes "gen_local_get lts pos opc st = Ok st'"
  shows "arm_ok md lts st st'"
proof -
  from assms obtain i s where "i < length lts" "keeps_stream (gs_stream st) s" and
    st': "st' = gen_push (lts ! i) (gen_emit pos opc
            (if is_32bit (lts ! i) then LocalGet32 i else LocalGet i) (gen_level (st\<lparr>gs_stream := s\<rparr>)) (st\<lparr>gs_stream := s\<rparr>))"
    by (auto simp: gen_local_get_def Let_def outcome_iff get_at_Some_iff elim!: uleb.gen_read_E)
  then show ?thesis
    by (cases "is_32bit (lts ! i)") (auto simp: gen_simps)
qed

lemma gen_local_set_ok:
  assumes "gen_local_set lts pos opc st = Ok st'"
  shows "arm_ok md lts st st'"
proof -
  from assms obtain i s where "i < length lts" "keeps_stream (gs_stream st) s" and
    st': "\<exists>st2. gen_pop (st\<lparr>gs_stream := s\<rparr>) = Ok (lts ! i, st2) \<and> st' = gen_emit pos opc
            (if is_32bit (lts ! i) then LocalSet32 i else LocalSet i) (gen_level st2) st2"
    by (auto simp: gen_local_set_def Let_def outcome_iff get_at_Some_iff elim!: uleb.gen_read_E)
  then show ?thesis
    by (cases "is_32bit (lts ! i)") (auto simp: gen_simps elim!: gen_elims)
qed

lemma gen_local_tee_ok:
  assumes "gen_local_tee lts pos opc st = Ok st'"
  shows "arm_ok md lts st st'"
proof -
  from assms obtain i s where "i < length lts" "keeps_stream (gs_stream st) s" and
    st': "gen_last (st\<lparr>gs_stream := s\<rparr>) = Ok (lts ! i) \<and> st' = gen_emit pos opc
            (if is_32bit (lts ! i) then LocalTee32 i else LocalTee i)
            (gen_top_level (st\<lparr>gs_stream := s\<rparr>)) (st\<lparr>gs_stream := s\<rparr>)"
    by (auto simp: gen_local_tee_def Let_def outcome_iff get_at_Some_iff elim!: uleb.gen_read_E)
  then show ?thesis
    by (cases "is_32bit (lts ! i)") (auto simp: gen_simps elim!: gen_elims)
qed

lemma gen_global_get_ok: "gen_global_get md pos opc st = Ok st' \<Longrightarrow> arm_ok md lts st st'"
  by (auto simp: gen_global_get_def gen_simps get_at_Some_iff elim!: gen_elims)

lemma gen_global_set_ok: "gen_global_set md pos opc st = Ok st' \<Longrightarrow> arm_ok md lts st st'"
  by (auto simp: gen_global_set_def gen_simps get_at_Some_iff elim!: gen_elims)

lemma gen_load_ok: "gen_load md pos opc k st = Ok st' \<Longrightarrow> arm_ok md lts st st'"
  by (auto simp: gen_load_def gen_simps elim!: gen_elims)

lemma gen_store_ok: "gen_store md pos opc k st = Ok st' \<Longrightarrow> arm_ok md lts st st'"
  by (auto simp: gen_store_def gen_simps elim!: gen_elims)

lemma gen_memory_size_ok: "gen_memory_size md pos opc st = Ok st' \<Longrightarrow> arm_ok md lts st st'"
  by (auto simp: gen_memory_size_def gen_simps has_memory_def elim!: gen_elims)

lemma gen_memory_grow_ok: "gen_memory_grow md pos opc st = Ok st' \<Longrightarrow> arm_ok md lts st st'"
  by (auto simp: gen_memory_grow_def gen_simps has_memory_def elim!: gen_elims)

lemma gen_memory_copy_ok: "gen_memory_copy md pos opc st = Ok st' \<Longrightarrow> arm_ok md lts st st'"
  by (auto simp: gen_memory_copy_def gen_simps elim!: gen_elims intro: keeps_stream_trans)

lemma gen_memory_fill_ok: "gen_memory_fill md pos opc st = Ok st' \<Longrightarrow> arm_ok md lts st st'"
  by (auto simp: gen_memory_fill_def gen_simps elim!: gen_elims)

lemma gen_i32_const_ok: "gen_i32_const pos opc st = Ok st' \<Longrightarrow> arm_ok md lts st st'"
  by (auto simp: gen_i32_const_def gen_simps elim!: gen_elims)

lemma gen_i64_const_ok: "gen_i64_const pos opc st = Ok st' \<Longrightarrow> arm_ok md lts st st'"
  by (auto simp: gen_i64_const_def gen_simps elim!: gen_elims)

lemma gen_unary_ok:
  assumes "gen_unary t pos opc m st = Ok st'" "m \<in> {I32Eqz} \<union> range I32Un \<union> range I64Un \<union> range Conv"
  shows "arm_ok md lts st st'"
  using assms by (auto simp: gen_unary_def gen_simps elim!: gen_elims)

lemma gen_compare_ok:
  assumes "gen_compare t pos opc m st = Ok st'" "m \<in> range I32Rel \<union> range I64Rel"
  shows "arm_ok md lts st st'"
  using assms by (auto simp: gen_compare_def gen_simps elim!: gen_elims)

lemma gen_binary_ok:
  assumes "gen_binary t pos opc m st = Ok st'" "m \<in> range I32Bin \<union> range I64Bin"
  shows "arm_ok md lts st st'"
  using assms by (auto simp: gen_binary_def gen_simps elim!: gen_elims)

lemma gen_convert_ok:
  assumes "gen_convert t t' pos opc m st = Ok st'" "m \<in> {I64Eqz} \<union> range Conv \<union> range Reinterpret"
  shows "arm_ok md lts st st'"
  using assms by (auto simp: gen_convert_def gen_simps elim!: gen_elims)

lemma gen_conv_ok: "gen_conv c pos opc st = Ok st' \<Longrightarrow> arm_ok md lts st st'"
  by (cases c) (auto intro: gen_unary_ok gen_convert_ok)

lemma gen_reinterpret_ok: "gen_reinterpret p pos opc st = Ok st' \<Longrightarrow> arm_ok md lts st st'"
  by (cases p) (auto intro: gen_convert_ok)

lemmas gen_arms_ok = gen_unreachable_ok gen_block_ok gen_if_ok gen_else_ok gen_end_ok gen_br_ok
  gen_br_if_ok gen_br_table_ok gen_return_ok gen_call_ok gen_call_indirect_ok gen_drop_ok
  gen_select_ok gen_local_get_ok gen_local_set_ok gen_local_tee_ok gen_global_get_ok
  gen_global_set_ok gen_load_ok gen_store_ok gen_memory_size_ok gen_memory_grow_ok
  gen_i32_const_ok gen_i64_const_ok gen_conv_ok gen_reinterpret_ok

lemma arm_ok_refl: "arm_ok md lts st st"
  by (simp add: arm_ok_def block_stack_ok_def)

lemma gen_single_ok:
  assumes "gen_single md lts pos op st = Ok st'"
  shows "arm_ok md lts st st'"
  using assms
  apply (cases op; simp add: gen_single_def Let_def gen_i32_unary_def gen_i64_unary_def
      gen_i32_compare_def gen_i64_compare_def gen_i32_binary_def gen_i64_binary_def arm_ok_refl)
  apply (erule gen_arms_ok | (erule gen_unary_ok, simp) | (erule gen_compare_ok, simp)
       | (erule gen_binary_ok, simp) | (erule gen_convert_ok, simp))+
  done

lemma gen_fc_ok:
  assumes "gen_fc md pos c st = Ok st'"
  shows "arm_ok md lts st st'"
  using assms
  by (cases c) (auto simp: gen_fc_def intro: gen_memory_copy_ok gen_memory_fill_ok)


section \<open>The loop\<close>

text \<open>
  One round of the loop reads an opcode and runs its arm.  The last round emits the \<open>Return\<close>
  of the final \<open>end\<close> at the level of the top of the stack.
\<close>

lemma gen_marks_simps [simp]:
  "gs_stream (gen_marks st) = gs_stream st" "gs_blocks (gen_marks st) = gs_blocks st"
  "gs_block_stack (gen_marks st) = gs_block_stack st" "gs_codes (gen_marks st) = gs_codes st"
  "gs_value_stack (gen_marks st) = gs_value_stack st"
  "gs_leaf (gen_marks st) = gs_leaf st"
  "gs_max_stack (gen_marks st) = max (gs_max_stack st) (length (gs_value_stack st))"
  by (simp_all add: gen_marks_def)

lemma gen_step_E:
  assumes "gen_step md lts st = Ok (fin, st')"
  obtains s opc where "read_opcode (gs_stream st) = Ok (opc, s)"
    and "fin \<Longrightarrow> opc = Single Op_End \<and> gs_block_stack st = [] \<and>
       st' = gen_emit (position (gs_stream st)) opc Return (gen_top_level st)
               ((gen_marks st)\<lparr>gs_stream := s\<rparr>)"
    and "\<not> fin \<Longrightarrow> arm_ok md lts ((gen_marks st)\<lparr>gs_stream := s\<rparr>) st'"
proof -
  from assms obtain opc s where rd: "read_opcode (gs_stream st) = Ok (opc, s)" and
    k: "(case opc of
           Single op \<Rightarrow>
             (if op = Op_End \<and> gs_block_stack st = []
              then Ok (True, gen_emit (position (gs_stream st)) opc Return (gen_top_level st)
                               ((gen_marks st)\<lparr>gs_stream := s\<rparr>))
              else and_then (gen_single md lts (position (gs_stream st)) op ((gen_marks st)\<lparr>gs_stream := s\<rparr>))
                     (\<lambda>st2. Ok (False, st2)))
         | PrefixFC c \<Rightarrow> and_then (gen_fc md (position (gs_stream st)) c ((gen_marks st)\<lparr>gs_stream := s\<rparr>))
                            (\<lambda>st2. Ok (False, st2))
         | PrefixFD _ \<Rightarrow> Err (UnsupportedOpCode opc)) = Ok (fin, st')"
    by (auto simp: gen_step_def Let_def gen_read_def gen_top_level_def outcome_iff
        cong: opcode.case_cong if_cong)
  show thesis
    by (rule that [OF rd], insert k)
      (auto simp: outcome_iff split: opcode.splits if_splits intro: gen_single_ok gen_fc_ok)
qed

lemma gen_step_stream:
  assumes "gen_step md lts st = Ok (fin, st')"
  shows "blob (gs_stream st') = blob (gs_stream st) \<and>
    position (gs_stream st) < position (gs_stream st') \<and>
    position (gs_stream st') \<le> length (blob (gs_stream st))"
  using assms
proof (rule gen_step_E)
  fix s opc
  assume 1: "read_opcode (gs_stream st) = Ok (opc, s)"
    and 2: "fin \<Longrightarrow> opc = Single Op_End \<and> gs_block_stack st = [] \<and>
       st' = gen_emit (position (gs_stream st)) opc Return (gen_top_level st)
               ((gen_marks st)\<lparr>gs_stream := s\<rparr>)"
    and 3: "\<not> fin \<Longrightarrow> arm_ok md lts ((gen_marks st)\<lparr>gs_stream := s\<rparr>) st'"
  from 2 3 have "keeps_stream s (gs_stream st')"
    by (cases fin) (auto simp: arm_ok_def gen_emit_def)
  with opc.rd_advance [OF 1] show ?thesis by (auto simp: keeps_stream_def)
qed

function gen_loop :: "wasm_module \<Rightarrow> val_type list \<Rightarrow> gen_state \<Rightarrow> gen_result" where
  "gen_loop md lts st =
     and_then (gen_step md lts st) (\<lambda>(fin, st'). if fin then Ok st' else gen_loop md lts st')"
  by pat_completeness auto
termination
  by (relation "measure (\<lambda>(md, lts, st). length (blob (gs_stream st)) - position (gs_stream st))")
    (auto dest: gen_step_stream)

declare gen_loop.simps [simp del]

text \<open>The invariant of the loop.\<close>

definition gen_bound :: "gen_state \<Rightarrow> nat" where
  "gen_bound st = max (gs_max_stack st) (length (gs_value_stack st))"

text \<open>A conditional branch directly after a comparison works at most at its level.\<close>

fun pairs_ok :: "imc list \<Rightarrow> bool" where
  "pairs_ok (a # b # cs) \<longleftrightarrow>
     (is_compare (imc_mnemonic a) \<and> is_brif (imc_mnemonic b) \<longrightarrow> imc_level b \<le> imc_level a) \<and>
     pairs_ok (b # cs)"
| "pairs_ok _ \<longleftrightarrow> True"

definition gen_inv :: "wasm_module \<Rightarrow> val_type list \<Rightarrow> gen_state \<Rightarrow> bool" where
  "gen_inv md lts st \<longleftrightarrow>
     block_stack_ok st \<and>
     (\<forall>c \<in> set (gs_codes st). code_ok md lts (length (gs_blocks st)) (gen_bound st) c) \<and>
     pairs_ok (gs_codes st) \<and>
     (\<forall>b \<in> set (gs_blocks st). fresh_block b) \<and>
     (gs_leaf st \<longrightarrow> (\<forall>c \<in> set (gs_codes st). \<not> is_call (imc_mnemonic c))) \<and>
     (gs_codes st \<noteq> [] \<longrightarrow> is_compare (imc_mnemonic (last (gs_codes st))) \<longrightarrow>
        length (gs_value_stack st) \<le> imc_level (last (gs_codes st)) + 1)"

lemma pairs_ok_snoc:
  "pairs_ok (cs @ [c]) \<longleftrightarrow> pairs_ok cs \<and>
     (cs \<noteq> [] \<longrightarrow> is_compare (imc_mnemonic (last cs)) \<and> is_brif (imc_mnemonic c) \<longrightarrow>
        imc_level c \<le> imc_level (last cs))"
  by (induction cs rule: pairs_ok.induct) auto

lemma code_ok_mono:
  "code_ok md lts n bound c \<Longrightarrow> n \<le> n' \<Longrightarrow> bound \<le> bound' \<Longrightarrow> code_ok md lts n' bound' c"
  by (fastforce simp: code_ok_def level_ok_def split: if_splits)

lemma gen_inv_arm:
  assumes inv: "gen_inv md lts st" and arm: "arm_ok md lts st st'"
    and marked: "length (gs_value_stack st) \<le> gs_max_stack st"
  shows "gen_inv md lts st'"
proof -
  from inv arm have bs: "block_stack_ok st'" by (simp add: gen_inv_def arm_ok_def)
  from arm have len: "length (gs_blocks st) \<le> length (gs_blocks st')" by (auto simp: arm_ok_def)
  from arm marked have "gen_bound st \<le> gen_bound st'" by (simp add: arm_ok_def gen_bound_def)
  with inv len have old: "\<forall>c \<in> set (gs_codes st). code_ok md lts (length (gs_blocks st')) (gen_bound st') c"
    by (auto simp: gen_inv_def intro: code_ok_mono)
  from inv arm consider
      "gs_codes st' = gs_codes st" "length (gs_value_stack st') \<le> length (gs_value_stack st)"
    | c where "gs_codes st' = gs_codes st @ [c]"
        "code_ok md lts (length (gs_blocks st'))
           (max (length (gs_value_stack st)) (length (gs_value_stack st'))) c"
        "is_compare (imc_mnemonic c) \<longrightarrow> length (gs_value_stack st') \<le> imc_level c + 1"
        "is_brif (imc_mnemonic c) \<longrightarrow> imc_level c + 1 \<le> length (gs_value_stack st)"
        "gs_leaf st' \<longrightarrow> \<not> is_call (imc_mnemonic c)"
    by (auto simp: arm_ok_def gen_inv_def)
  moreover have fresh: "\<forall>b \<in> set (gs_blocks st'). fresh_block b"
    using inv arm by (auto simp: gen_inv_def arm_ok_def)
  moreover have leaf: "gs_leaf st' \<longrightarrow> (\<forall>c \<in> set (gs_codes st). \<not> is_call (imc_mnemonic c))"
    using inv arm by (auto simp: gen_inv_def arm_ok_def)
  ultimately show ?thesis
  proof cases
    case 1
    with inv bs old fresh leaf show ?thesis by (simp add: gen_inv_def) linarith
  next
    case 2
    from arm marked have "max (length (gs_value_stack st)) (length (gs_value_stack st')) \<le> gen_bound st'"
      by (simp add: arm_ok_def gen_bound_def)
    with 2(2) have "code_ok md lts (length (gs_blocks st')) (gen_bound st') c"
      by (blast intro: code_ok_mono)
    moreover have "pairs_ok (gs_codes st')"
      using inv 2(1,4) by (auto simp: gen_inv_def pairs_ok_snoc)
    ultimately show ?thesis using bs old fresh leaf 2(1,3,5) by (simp add: gen_inv_def)
  qed
qed

lemma gen_inv_marks: "gen_inv md lts st \<Longrightarrow> gen_inv md lts ((gen_marks st)\<lparr>gs_stream := s\<rparr>)"
  by (simp add: gen_inv_def gen_bound_def block_stack_ok_def)

lemma return_code_ok:
  "length (gs_value_stack st) \<le> bound \<Longrightarrow> code_ok md lts n bound (imc_new pos opc Return (gen_top_level st))"
  by (cases "gs_value_stack st") (auto simp: code_ok_defs gen_top_level_def usize_sub_def)

lemma gen_step_inv:
  assumes "gen_step md lts st = Ok (fin, st')" "gen_inv md lts st"
  shows "gen_inv md lts st'"
  using assms(1)
proof (rule gen_step_E)
  fix s opc
  let ?m = "(gen_marks st)\<lparr>gs_stream := s\<rparr>"
  assume 2: "fin \<Longrightarrow> opc = Single Op_End \<and> gs_block_stack st = [] \<and>
       st' = gen_emit (position (gs_stream st)) opc Return (gen_top_level st) ?m"
    and 3: "\<not> fin \<Longrightarrow> arm_ok md lts ?m st'"
  have m: "gen_inv md lts ?m" using assms(2) by (rule gen_inv_marks)
  show ?thesis
  proof (cases fin)
    case True
    with 2 m show ?thesis
      by (simp add: gen_inv_def gen_emit_def gen_bound_def block_stack_ok_def return_code_ok
          pairs_ok_snoc is_brif_def is_compare_def is_call_def)
  next
    case False
    show ?thesis by (rule gen_inv_arm [OF m 3 [OF False]]) simp
  qed
qed

text \<open>What the loop leaves behind.\<close>

definition gen_done :: "wasm_module \<Rightarrow> val_type list \<Rightarrow> gen_state \<Rightarrow> bool" where
  "gen_done md lts st \<longleftrightarrow>
     gen_inv md lts st \<and> gen_bound st = gs_max_stack st \<and>
     (\<exists>cs c. gs_codes st = cs @ [c] \<and> imc_mnemonic c = Return \<and>
        imc_level c = usize_sub (length (gs_value_stack st)) 1)"

lemma gen_step_done:
  assumes "gen_step md lts st = Ok (True, st')" "gen_inv md lts st"
  shows "gen_done md lts st'"
  using assms(1)
proof (rule gen_step_E)
  fix s opc
  assume "True \<Longrightarrow> opc = Single Op_End \<and> gs_block_stack st = [] \<and>
       st' = gen_emit (position (gs_stream st)) opc Return (gen_top_level st)
               ((gen_marks st)\<lparr>gs_stream := s\<rparr>)"
  with gen_step_inv [OF assms] show ?thesis
    by (auto simp: gen_done_def gen_emit_def gen_bound_def gen_top_level_def)
qed

lemma gen_loop_done:
  "gen_loop md lts st = Ok st' \<Longrightarrow> gen_inv md lts st \<Longrightarrow> gen_done md lts st'"
proof (induction md lts st rule: gen_loop.induct)
  case (1 md lts st)
  then obtain fin st1 where 2: "gen_step md lts st = Ok (fin, st1)"
    "(if fin then Ok st1 else gen_loop md lts st1) = Ok st'"
    by (auto simp: gen_loop.simps [of md lts st] outcome_iff)
  show ?case
  proof (cases fin)
    case True
    with 2 gen_step_done "1.prems" show ?thesis by auto
  next
    case False
    with 2 "1.IH" [OF 2(1) refl] gen_step_inv [OF 2(1)] "1.prems" show ?thesis by simp
  qed
qed

end
