(* ===== verification/Generate.thy ===== *)
theory Generate
  imports Verifier
begin

text \<open>
  \<open>WasmCodeBlock::generate\<close> as a whole (src/lib/wasm/src/wasm.rs): the declarations of the
  local variables, the loop of CodeGen, the check of the result types, the fusing of adjacent
  instructions, the compaction that drops \<open>Nop\<close>, \<open>Block\<close> and \<open>End\<close> while it
  records the positions of the blocks, and the fixing of the branch targets.
\<close>

section \<open>Local variables\<close>

text \<open>
  The vector of locals grows one element at a time; a vector of one-byte elements panics when its
  size would exceed \<open>isize::MAX\<close>.
\<close>

primrec read_locals ::
    "nat \<Rightarrow> val_type list \<Rightarrow> leb128_stream \<Rightarrow> (decode_error, val_type list \<times> leb128_stream) outcome" where
  "read_locals 0 local_types s = Ok (local_types, s)"
| "read_locals (Suc n) local_types s =
     and_then (read_unsigned s) (\<lambda>(repeat, s1).
     and_then (read_unsigned s1) (\<lambda>(t, s2).
     and_then (val_type_from_u64 t) (\<lambda>val.
     and_then (with_capacity 1 (length local_types + unat repeat)) (\<lambda>_.
       read_locals n (local_types @ replicate (unat repeat) val) s2))))"

definition local_var_types ::
    "val_type list \<Rightarrow> leb128_stream \<Rightarrow> (decode_error, val_type list \<times> leb128_stream) outcome" where
  "local_var_types params s =
     and_then (read_unsigned s) (\<lambda>(n, s1).
     and_then (with_capacity 1 (unat n)) (\<lambda>_.
     and_then (read_locals (unat n) [] s1) (\<lambda>(lts, s2).
     and_then (with_capacity 1 (length params + length lts)) (\<lambda>_.
       Ok (params @ lts, s2)))))"


section \<open>The result types\<close>

fun pop_results :: "val_type list \<Rightarrow> val_type list \<Rightarrow> (decode_error, unit) outcome" where
  "pop_results [] vs = Ok ()"
| "pop_results (r # rs) [] = Err OutOfStack"
| "pop_results (r # rs) (v # vs) = (if r \<noteq> v then Err TypeMismatch else pop_results rs vs)"

definition check_results :: "val_type list \<Rightarrow> val_type list \<Rightarrow> (decode_error, unit) outcome" where
  "check_results results vs =
     (if 0 < length results
      then (if length results \<noteq> length vs then Err TypeMismatch else pop_results results vs)
      else if 0 < length vs then Err InvalidStackLevel else Ok ())"


section \<open>Fused instructions\<close>

text \<open>The match of the pass: the mnemonic that replaces the second code of a pair.\<close>

definition fuse_i32_const :: "u32 \<Rightarrow> mnemonic \<Rightarrow> mnemonic option" where
  "fuse_i32_const val next_op =
     (case next_op of
        LocalSet local_index \<Rightarrow> Some (FusedI32SetConst local_index val)
      | I32Bin b \<Rightarrow>
         (case b of
            B_Add \<Rightarrow> Some (FusedI32AddI val) | B_Sub \<Rightarrow> Some (FusedI32SubI val)
          | B_And \<Rightarrow> Some (FusedI32AndI val) | B_Or \<Rightarrow> Some (FusedI32OrI val)
          | B_Xor \<Rightarrow> Some (FusedI32XorI val) | B_Shl \<Rightarrow> Some (FusedI32ShlI val)
          | B_ShrS \<Rightarrow> Some (FusedI32ShrSI val) | B_ShrU \<Rightarrow> Some (FusedI32ShrUI val)
          | _ \<Rightarrow> None)
      | _ \<Rightarrow> None)"

definition fuse_i64_const :: "u64 \<Rightarrow> mnemonic \<Rightarrow> mnemonic option" where
  "fuse_i64_const val next_op =
     (case next_op of
        LocalSet local_index \<Rightarrow> Some (FusedI64SetConst local_index val)
      | I64Bin b \<Rightarrow>
         (case b of B_Add \<Rightarrow> Some (FusedI64AddI val) | B_Sub \<Rightarrow> Some (FusedI64SubI val) | _ \<Rightarrow> None)
      | _ \<Rightarrow> None)"

definition fuse_pair :: "mnemonic \<Rightarrow> mnemonic \<Rightarrow> mnemonic option" where
  "fuse_pair this_op next_op =
     (case this_op of
        I32Const val \<Rightarrow> fuse_i32_const val next_op
      | I64Const val \<Rightarrow> fuse_i64_const val next_op
      | I32Eqz \<Rightarrow> (case next_op of BrIf t \<Rightarrow> Some (FusedI32BrZ t) | _ \<Rightarrow> None)
      | I32Rel r \<Rightarrow> (case next_op of BrIf t \<Rightarrow> Some (FusedI32Br r t) | _ \<Rightarrow> None)
      | I64Eqz \<Rightarrow> (case next_op of BrIf t \<Rightarrow> Some (FusedI64BrZ t) | _ \<Rightarrow> None)
      | I64Rel r \<Rightarrow>
         (case next_op of
            BrIf t \<Rightarrow> (case r of R_Eq \<Rightarrow> Some (FusedI64BrEq t) | R_Ne \<Rightarrow> Some (FusedI64BrNe t) | _ \<Rightarrow> None)
          | _ \<Rightarrow> None)
      | _ \<Rightarrow> None)"

text \<open>
  \<open>for i in 0..limit\<close>: the code at \<open>i + 1\<close> that a fusion has written is the first of
  the next pair.
\<close>

fun fuse_codes :: "imc list \<Rightarrow> imc list" where
  "fuse_codes (a # b # cs) =
     (case fuse_pair (imc_mnemonic a) (imc_mnemonic b) of
        Some m \<Rightarrow> a\<lparr>imc_mnemonic := Nop\<rparr> # fuse_codes (b\<lparr>imc_mnemonic := m\<rparr> # cs)
      | None \<Rightarrow> a # fuse_codes (b # cs))"
| "fuse_codes cs = cs"

definition fuse_pass :: "imc list \<Rightarrow> imc list" where
  "fuse_pass codes = (if 2 < length codes then fuse_codes codes else codes)"


section \<open>Compaction\<close>

text \<open>
  The loop moves the codes down inside their vector: \<open>actual_len\<close> codes are in place, and
  the moves and \<open>set_len\<close> go through raw pointers, undefined outside the vector.
  \<open>int_codes[index]\<close> and \<open>blocks[target]\<close> panic out of range.
\<close>

definition raw_move :: "imc list \<Rightarrow> nat \<Rightarrow> nat \<Rightarrow> ('e, imc list) outcome" where
  "raw_move codes dest src =
     (if src < length codes \<and> dest < length codes then Ok (codes[dest := codes ! src]) else UB OutOfRange)"

definition set_len :: "imc list \<Rightarrow> nat \<Rightarrow> ('e, imc list) outcome" where
  "set_len codes n = (if n \<le> length codes then Ok (take n codes) else UB OutOfRange)"

definition compact_step :: "nat \<Rightarrow> imc list \<times> nat \<times> block_context list
    \<Rightarrow> (decode_error, imc list \<times> nat \<times> block_context list) outcome" where
  "compact_step index = (\<lambda>(int_codes, actual_len, blocks).
     if length int_codes \<le> index then Panic
     else case imc_mnemonic (int_codes ! index) of
        Nop \<Rightarrow> Ok (int_codes, actual_len, blocks)
      | Block target \<Rightarrow>
         (if target < length blocks
          then Ok (int_codes, actual_len, blocks[target := (blocks ! target)\<lparr>start_position := actual_len\<rparr>])
          else Panic)
      | End target \<Rightarrow>
         (if target < length blocks
          then Ok (int_codes, actual_len, blocks[target := (blocks ! target)\<lparr>end_position := actual_len\<rparr>])
          else Panic)
      | _ \<Rightarrow> and_then (raw_move int_codes actual_len index) (\<lambda>int_codes'.
           Ok (int_codes', actual_len + 1, blocks)))"

primrec compact_loop :: "nat list \<Rightarrow> imc list \<times> nat \<times> block_context list
    \<Rightarrow> (decode_error, imc list \<times> nat \<times> block_context list) outcome" where
  "compact_loop [] st = Ok st"
| "compact_loop (index # is) st = and_then (compact_step index st) (compact_loop is)"

definition compact_codes :: "imc list \<Rightarrow> block_context list
    \<Rightarrow> (decode_error, imc list \<times> block_context list) outcome" where
  "compact_codes int_codes blocks =
     and_then (compact_loop [0..<length int_codes] (int_codes, 0, blocks)) (\<lambda>(codes, actual_len, blocks').
     and_then (set_len codes actual_len) (\<lambda>codes'. Ok (codes', blocks')))"

definition branch_position :: "block_context list \<Rightarrow> opcode \<Rightarrow> nat \<Rightarrow> (decode_error, nat) outcome" where
  "branch_position blocks opc target =
     and_then (ok_or OutOfBranch (get_at blocks target)) (\<lambda>b. Ok (preferred_target b))"

definition fix_branches :: "block_context list \<Rightarrow> imc list \<Rightarrow> (decode_error, imc list) outcome" where
  "fix_branches blocks codes = map_outcome (adjust_branch_target (branch_position blocks)) codes"

definition backend :: "gen_state \<Rightarrow> (decode_error, imc list) outcome" where
  "backend st =
     and_then (compact_codes (fuse_pass (gs_codes st)) (gs_blocks st)) (\<lambda>(codes, blocks).
       fix_branches blocks codes)"


section \<open>The generator\<close>

definition gen_start :: "leb128_stream \<Rightarrow> gen_state" where
  "gen_start s =
     \<lparr>gs_stream = s, gs_blocks = [], gs_block_stack = [], gs_value_stack = [],
      gs_max_stack = 0, gs_max_block = 0, gs_leaf = True, gs_codes = []\<rparr>"

definition generate ::
    "nat \<Rightarrow> nat \<Rightarrow> leb128_stream \<Rightarrow> val_type list \<Rightarrow> val_type list \<Rightarrow> wasm_module
       \<Rightarrow> (decode_error, code_block \<times> leb128_stream) outcome" where
  "generate func_index file_position s params results md =
     and_then (local_var_types params s) (\<lambda>(lts, s1).
     and_then (gen_loop md lts (gen_start s1)) (\<lambda>st.
     and_then (check_results results (gs_value_stack st)) (\<lambda>_.
     and_then (backend st) (\<lambda>codes.
       Ok (\<lparr>cb_func_index = func_index, cb_file_position = file_position, cb_local_types = lts,
            cb_max_stack = gs_max_stack st, cb_leaf = gs_leaf st, cb_int_codes = codes\<rparr>,
           gs_stream st)))))"


section \<open>Fusing keeps the verifier's promise\<close>

lemma fuse_i32_const_E:
  assumes "fuse_i32_const v n = Some m"
  obtains i where "n = LocalSet i" "m = FusedI32SetConst i v"
  | b where "n = I32Bin b" "m \<in> {FusedI32AddI v, FusedI32SubI v, FusedI32AndI v, FusedI32OrI v,
      FusedI32XorI v, FusedI32ShlI v, FusedI32ShrSI v, FusedI32ShrUI v}"
  using assms by (cases n) (auto simp: fuse_i32_const_def split: binop.splits)

lemma fuse_i64_const_E:
  assumes "fuse_i64_const v n = Some m"
  obtains i where "n = LocalSet i" "m = FusedI64SetConst i v"
  | b where "n = I64Bin b" "m \<in> {FusedI64AddI v, FusedI64SubI v}"
  using assms by (cases n) (auto simp: fuse_i64_const_def split: binop.splits)

lemma case_BrIf_Some:
  "(case b of BrIf t \<Rightarrow> f t | _ \<Rightarrow> None) = Some m \<longleftrightarrow> (\<exists>t. b = BrIf t \<and> f t = Some m)"
  by (cases b) auto

lemma case_EqNe_Some:
  "(case r of R_Eq \<Rightarrow> Some x | R_Ne \<Rightarrow> Some y | _ \<Rightarrow> None) = Some m \<Longrightarrow> m = x \<or> m = y"
  by (cases r) auto

text \<open>The shapes of a fused pair.\<close>

lemma fuse_pair_E:
  assumes "fuse_pair a b = Some m"
  obtains v where "a = I32Const v" "fuse_i32_const v b = Some m"
  | v where "a = I64Const v" "fuse_i64_const v b = Some m"
  | t where "b = BrIf t" "a \<in> {I32Eqz, I64Eqz}" "m \<in> {FusedI32BrZ t, FusedI64BrZ t}"
  | t r where "b = BrIf t" "a \<in> {I32Rel r, I64Rel r}" "m \<in> {FusedI32Br r t, FusedI64BrEq t, FusedI64BrNe t}"
  using assms
  by (cases a) (auto simp: fuse_pair_def case_BrIf_Some dest!: case_EqNe_Some)

lemma fuse_pair_code_ok:
  assumes "fuse_pair (imc_mnemonic a) (imc_mnemonic b) = Some m"
    and "code_ok md lts n bound a" "code_ok md lts n bound b" "pairs_ok [a, b]"
  shows "code_ok md lts n bound (b\<lparr>imc_mnemonic := m\<rparr>)"
  using assms(1)
proof (cases rule: fuse_pair_E)
  case (1 v)
  from 1(2) assms(3) show ?thesis by (elim fuse_i32_const_E) (auto simp: code_ok_defs level_ok_def)
next
  case (2 v)
  from 2(2) assms(3) show ?thesis by (elim fuse_i64_const_E) (auto simp: code_ok_defs level_ok_def)
next
  case (3 t)
  with assms(2-) show ?thesis by (auto simp: code_ok_defs level_ok_def)
next
  case (4 t r)
  with assms(2-) show ?thesis by (auto simp: code_ok_defs level_ok_def is_compare_def is_brif_def)
qed

lemma fuse_pair_plain:
  assumes "fuse_pair a b = Some m"
  shows "\<not> is_compare m" "\<not> is_call m"
  using assms
  by (elim fuse_pair_E fuse_i32_const_E fuse_i64_const_E; auto simp: is_compare_def is_call_def)+

lemma fuse_pair_first:
  assumes "fuse_pair (imc_mnemonic a) (imc_mnemonic b) = Some m" "code_ok md lts n bound a"
  shows "code_ok md lts n bound (a\<lparr>imc_mnemonic := Nop\<rparr>)"
  using assms by (elim fuse_pair_E) (auto simp: code_ok_defs level_ok_def)

lemma fuse_codes_ok:
  assumes "\<forall>c \<in> set cs. code_ok md lts n bound c" "pairs_ok cs"
  shows "\<forall>c \<in> set (fuse_codes cs). code_ok md lts n bound c"
  using assms
proof (induction cs rule: fuse_codes.induct)
  case (1 a b cs)
  show ?case
  proof (cases "fuse_pair (imc_mnemonic a) (imc_mnemonic b)")
    case None
    with 1 show ?thesis by simp
  next
    case (Some m)
    have "pairs_ok (b\<lparr>imc_mnemonic := m\<rparr> # cs)"
      using "1.prems"(2) fuse_pair_plain [OF Some] by (cases cs) auto
    moreover have "pairs_ok [a, b]" using "1.prems"(2) by simp
    ultimately show ?thesis
      using "1.IH"(2) [OF Some] "1.prems" fuse_pair_code_ok [OF Some] fuse_pair_first [OF Some] Some
      by simp
  qed
qed simp_all

lemma no_call_nop: "\<not> is_call Nop"
  by (simp add: is_call_def)

lemma fuse_codes_no_call:
  assumes "\<forall>c \<in> set cs. \<not> is_call (imc_mnemonic c)"
  shows "\<forall>c \<in> set (fuse_codes cs). \<not> is_call (imc_mnemonic c)"
  using assms
proof (induction cs rule: fuse_codes.induct)
  case (1 a b cs)
  show ?case
  proof (cases "fuse_pair (imc_mnemonic a) (imc_mnemonic b)")
    case None
    with 1 show ?thesis by simp
  next
    case (Some m)
    with "1.IH"(2) [OF Some] "1.prems" fuse_pair_plain(2) [OF Some] no_call_nop show ?thesis by simp
  qed
qed simp_all

lemma fuse_pair_return: "fuse_pair m Return = None"
  by (rule ccontr) (auto elim!: fuse_pair_E fuse_i32_const_E fuse_i64_const_E)

lemma snoc_of_Cons:
  "\<exists>ys. xs = ys @ [c] \<and> length ys = n \<Longrightarrow> \<exists>ys. a # xs = ys @ [c] \<and> length ys = Suc n"
  by (metis append_Cons length_Cons)

lemma fuse_codes_return:
  assumes "imc_mnemonic c = Return"
  shows "\<exists>cs'. fuse_codes (cs @ [c]) = cs' @ [c] \<and> length cs' = length cs"
proof (induction cs rule: fuse_codes.induct)
  case (1 a b cs)
  then show ?case
    by (cases "fuse_pair (imc_mnemonic a) (imc_mnemonic b)") (auto intro!: snoc_of_Cons)
qed (simp_all add: assms fuse_pair_return)

lemma fuse_pass_cases: "fuse_pass cs = fuse_codes cs \<or> fuse_pass cs = cs"
  by (simp add: fuse_pass_def)

lemma fuse_pass_ok:
  assumes "\<forall>c \<in> set cs. code_ok md lts n bound c" "pairs_ok cs"
  shows "\<forall>c \<in> set (fuse_pass cs). code_ok md lts n bound c"
  using fuse_codes_ok [OF assms] assms(1) by (simp add: fuse_pass_def)

lemma fuse_pass_no_call:
  assumes "\<forall>c \<in> set cs. \<not> is_call (imc_mnemonic c)"
  shows "\<forall>c \<in> set (fuse_pass cs). \<not> is_call (imc_mnemonic c)"
  using fuse_codes_no_call [OF assms] assms by (simp add: fuse_pass_def)

lemma fuse_pass_return:
  assumes "imc_mnemonic c = Return"
  obtains cs' where "fuse_pass (cs @ [c]) = cs' @ [c]"
  using fuse_codes_return [OF assms, of cs] fuse_pass_cases [of "cs @ [c]"] by auto


section \<open>Compaction is a filter\<close>

text \<open>
  The reference for the compaction in place: the codes kept so far are a list \<open>out\<close> of their
  own, and the codes still to come are never overwritten.
\<close>

primrec compact :: "imc list \<Rightarrow> imc list \<Rightarrow> block_context list
    \<Rightarrow> (decode_error, imc list \<times> block_context list) outcome" where
  "compact [] out blocks = Ok (out, blocks)"
| "compact (c # cs) out blocks =
     (case imc_mnemonic c of
        Nop \<Rightarrow> compact cs out blocks
      | Block target \<Rightarrow>
         (if target < length blocks
          then compact cs out (blocks[target := (blocks ! target)\<lparr>start_position := length out\<rparr>])
          else Panic)
      | End target \<Rightarrow>
         (if target < length blocks
          then compact cs out (blocks[target := (blocks ! target)\<lparr>end_position := length out\<rparr>])
          else Panic)
      | _ \<Rightarrow> compact cs (out @ [c]) blocks)"

text \<open>The codes that compaction keeps.\<close>

definition kept :: "imc \<Rightarrow> bool" where
  "kept c = (case imc_mnemonic c of Nop \<Rightarrow> False | Block _ \<Rightarrow> False | End _ \<Rightarrow> False | _ \<Rightarrow> True)"

lemma compact_kept: "kept c \<Longrightarrow> compact (c # cs) out blocks = compact cs (out @ [c]) blocks"
  by (cases "imc_mnemonic c") (simp_all add: kept_def)

lemma compact_marker:
  "imc_mnemonic c = Nop \<Longrightarrow> compact (c # cs) out blocks = compact cs out blocks"
  "imc_mnemonic c = Block t \<Longrightarrow> compact (c # cs) out blocks =
     (if t < length blocks
      then compact cs out (blocks[t := (blocks ! t)\<lparr>start_position := length out\<rparr>]) else Panic)"
  "imc_mnemonic c = End t \<Longrightarrow> compact (c # cs) out blocks =
     (if t < length blocks
      then compact cs out (blocks[t := (blocks ! t)\<lparr>end_position := length out\<rparr>]) else Panic)"
  by simp_all

lemma not_kept:
  "imc_mnemonic c = Nop \<Longrightarrow> \<not> kept c" "imc_mnemonic c = Block t \<Longrightarrow> \<not> kept c"
  "imc_mnemonic c = End t \<Longrightarrow> \<not> kept c"
  by (simp_all add: kept_def)

declare compact.simps(2) [simp del]
declare compact_kept [simp] compact_marker [simp] not_kept [simp]

lemma compact_cases:
  obtains "kept c" | "imc_mnemonic c = Nop" | t where "imc_mnemonic c = Block t"
  | t where "imc_mnemonic c = End t"
  by (cases "imc_mnemonic c") (simp_all add: kept_def)

lemma compact_step_kept:
  "i < length codes \<Longrightarrow> kept (codes ! i) \<Longrightarrow> compact_step i (codes, n, blocks) =
     and_then (raw_move codes n i) (\<lambda>codes'. Ok (codes', n + 1, blocks))"
  by (cases "imc_mnemonic (codes ! i)") (simp_all add: compact_step_def kept_def)

lemma compact_loop_compact:
  assumes "n \<le> i" "i \<le> length codes"
  shows "and_then (compact_loop [i..<length codes] (codes, n, blocks)) (\<lambda>(codes', n', blocks').
      and_then (set_len codes' n') (\<lambda>out. Ok (out, blocks'))) =
    compact (drop i codes) (take n codes) blocks"
  using assms
proof (induction "length codes - i" arbitrary: codes n i blocks)
  case 0
  then show ?case by (simp add: set_len_def)
next
  case (Suc k)
  then have i: "i < length codes" "length codes - Suc i = k" by simp_all
  then have d: "[i..<length codes] = i # [Suc i..<length codes]" "drop i codes = codes ! i # drop (Suc i) codes"
    by (simp_all add: upt_conv_Cons Cons_nth_drop_Suc)
  note IH = Suc.hyps(1) [of _ "Suc i"]
  show ?case
  proof (cases "codes ! i" rule: compact_cases)
    case 1
    let ?codes = "codes[n := codes ! i]"
    have "take (Suc n) ?codes = take n codes @ [codes ! i]" "drop (Suc i) ?codes = drop (Suc i) codes"
      using Suc.prems i by (simp_all add: take_Suc_conv_app_nth)
    with IH [of ?codes "Suc n"] Suc.prems i 1 show ?thesis
      by (simp add: d compact_step_kept raw_move_def)
  qed (use IH [of codes n] Suc.prems i in \<open>simp_all add: d compact_step_def\<close>)
qed

text \<open>No move leaves the vector, and a code is read before its place is overwritten.\<close>

lemma compact_in_place: "compact_codes codes blocks = compact codes [] blocks"
  using compact_loop_compact [of 0 0 codes blocks] by (simp add: compact_codes_def)

lemma backend_eq:
  "backend st = and_then (compact (fuse_pass (gs_codes st)) [] (gs_blocks st))
     (\<lambda>(codes, blocks). fix_branches blocks codes)"
  by (simp add: backend_def compact_in_place)

lemma compact_append:
  "compact (xs @ ys) out blocks = and_then (compact xs out blocks) (\<lambda>(o', b'). compact ys o' b')"
proof (induction xs arbitrary: out blocks)
  case (Cons c xs)
  show ?case by (cases c rule: compact_cases) (simp_all add: Cons.IH)
qed simp

lemma compact_out:
  assumes "compact cs out blocks = Ok (out', blocks')"
  shows "out' = out @ filter kept cs \<and> length blocks' = length blocks"
  using assms
proof (induction cs arbitrary: out blocks)
  case (Cons c cs)
  show ?case
    using Cons.prems by (cases c rule: compact_cases) (auto split: if_splits dest!: Cons.IH)
qed simp

text \<open>Every recorded position lies in the codes copied so far.\<close>

definition positions_le :: "nat \<Rightarrow> block_context list \<Rightarrow> bool" where
  "positions_le n blocks \<longleftrightarrow> (\<forall>b \<in> set blocks. start_position b \<le> n \<and> end_position b \<le> n)"

lemma positions_le_mono: "positions_le n blocks \<Longrightarrow> n \<le> n' \<Longrightarrow> positions_le n' blocks"
  by (fastforce simp: positions_le_def)

lemma positions_le_update:
  assumes "positions_le n blocks" "t < length blocks"
  shows "positions_le n (blocks[t := (blocks ! t)\<lparr>start_position := n\<rparr>])"
    "positions_le n (blocks[t := (blocks ! t)\<lparr>end_position := n\<rparr>])"
  using assms by (auto simp: positions_le_def dest!: set_update_subset_insert [THEN subsetD])

lemma compact_positions_le:
  assumes "compact cs out blocks = Ok (out', blocks')" "positions_le (length out) blocks"
  shows "positions_le (length out') blocks'"
  using assms
proof (induction cs arbitrary: out blocks)
  case (Cons c cs)
  show ?case
    using Cons.prems
    by (cases c rule: compact_cases)
      (auto simp: positions_le_update split: if_splits elim!: positions_le_mono dest!: Cons.IH)
qed simp

text \<open>Compaction succeeds when the block numbers are in range.\<close>

lemma compact_total:
  assumes "\<forall>c \<in> set cs. \<forall>b \<in> set (block_refs (imc_mnemonic c)). b < length blocks"
  shows "\<exists>r. compact cs out blocks = Ok r"
  using assms
proof (induction cs arbitrary: out blocks)
  case (Cons c cs)
  then show ?case by (cases c rule: compact_cases) (auto simp: block_refs_def)
qed simp

text \<open>A marker that comes last of its kind decides the position of its block.\<close>

lemma compact_keeps_end:
  assumes "compact cs out blocks = Ok (out', blocks')" "\<forall>d \<in> set cs. imc_mnemonic d \<noteq> End t"
  shows "end_position (blocks' ! t) = end_position (blocks ! t)"
  using assms
proof (induction cs arbitrary: out blocks)
  case (Cons c cs)
  show ?case
    using Cons.prems
    by (cases c rule: compact_cases) (auto simp: nth_list_update split: if_splits dest!: Cons.IH)
qed simp

lemma compact_keeps_start:
  assumes "compact cs out blocks = Ok (out', blocks')" "\<forall>d \<in> set cs. imc_mnemonic d \<noteq> Block t"
  shows "start_position (blocks' ! t) = start_position (blocks ! t)"
  using assms
proof (induction cs arbitrary: out blocks)
  case (Cons c cs)
  show ?case
    using Cons.prems
    by (cases c rule: compact_cases) (auto simp: nth_list_update split: if_splits dest!: Cons.IH)
qed simp

lemma compact_inst_type:
  assumes "compact cs out blocks = Ok (out', blocks')"
  shows "inst_type (blocks' ! t) = inst_type (blocks ! t)"
  using assms
proof (induction cs arbitrary: out blocks)
  case (Cons c cs)
  show ?case
    using Cons.prems
    by (cases c rule: compact_cases) (auto simp: nth_list_update split: if_splits dest!: Cons.IH)
qed simp

text \<open>The marker a branch to block \<open>t\<close> goes to.\<close>

definition branch_marker :: "block_context list \<Rightarrow> nat \<Rightarrow> mnemonic" where
  "branch_marker blocks t = (if inst_type (blocks ! t) = Inst_Loop then Block t else End t)"

lemma compact_marker_position:
  assumes "compact (pre @ c # post) [] blocks = Ok (out, blocks')"
    and "imc_mnemonic c = branch_marker blocks t"
    and "\<forall>d \<in> set post. imc_mnemonic d \<noteq> branch_marker blocks t"
  shows "t < length blocks' \<and> preferred_target (blocks' ! t) = length (filter kept pre)"
proof -
  from assms(1) obtain o1 b1 where 1: "compact pre [] blocks = Ok (o1, b1)"
      "compact (c # post) o1 b1 = Ok (out, blocks')"
    by (auto simp: compact_append outcome_iff)
  have o1: "o1 = filter kept pre" "length b1 = length blocks" using compact_out [OF 1(1)] by simp_all
  have it: "inst_type (b1 ! t) = inst_type (blocks ! t)" using compact_inst_type [OF 1(1)] .
  show ?thesis
  proof (cases "inst_type (blocks ! t) = Inst_Loop")
    case True
    with assms(2) 1(2) have 2: "t < length b1"
      "compact post o1 (b1[t := (b1 ! t)\<lparr>start_position := length o1\<rparr>]) = Ok (out, blocks')"
      by (auto simp: branch_marker_def split: if_splits)
    from compact_keeps_start [OF 2(2)] compact_inst_type [OF 2(2), of t] compact_out [OF 2(2)]
      assms(3) True o1 it 2(1)
    show ?thesis by (simp add: branch_marker_def preferred_target_def)
  next
    case False
    with assms(2) 1(2) have 2: "t < length b1"
      "compact post o1 (b1[t := (b1 ! t)\<lparr>end_position := length o1\<rparr>]) = Ok (out, blocks')"
      by (auto simp: branch_marker_def split: if_splits)
    from compact_keeps_end [OF 2(2)] compact_inst_type [OF 2(2), of t] compact_out [OF 2(2)]
      assms(3) False o1 it 2(1)
    show ?thesis by (simp add: branch_marker_def preferred_target_def)
  qed
qed

definition ex_loop_blocks :: "block_context list" where
  "ex_loop_blocks =
     [\<lparr>inst_type = Inst_Loop, block_type = BT_Empty, stack_level = 0, start_position = 0,
       end_position = 0, else_position = 0\<rparr>,
      \<lparr>inst_type = Inst_Block, block_type = BT_Empty, stack_level = 0, start_position = 0,
       end_position = 0, else_position = 0\<rparr>]"

text \<open>
  Compaction keeps branch targets.  A branch to block \<open>t\<close> goes to the \<open>Block\<close> marker of
  a loop and to the \<open>End\<close> marker of any other block.  After the markers are gone, the
  position that the branch is given is the one where the codes that followed the marker start.
\<close>

theorem branch_lands_after_marker:
  assumes "compact (pre @ c # post) [] blocks = Ok (out, blocks')"
    and "imc_mnemonic c = branch_marker blocks t"
    and "\<forall>d \<in> set post. imc_mnemonic d \<noteq> branch_marker blocks t"
  shows "\<exists>p. branch_position blocks' opc t = Ok p \<and> drop p out = filter kept post"
proof -
  have "\<not> kept c" using assms(2) by (auto simp: branch_marker_def split: if_splits)
  with compact_out [OF assms(1)] have "out = filter kept pre @ filter kept post" by simp
  with compact_marker_position [OF assms] show ?thesis
    by (simp add: branch_position_def get_at_def)
qed


theorem branch_lands_after_marker_witness:
  "compact ([imc_new 0 (Single Op_Loop) (Block 0) 0, imc_new 2 (Single Op_Br) (Br 0) 0] @
       imc_new 4 (Single Op_End) (End 1) 0 # [imc_new 5 (Single Op_End) Return 0]) [] ex_loop_blocks
     = Ok ([imc_new 2 (Single Op_Br) (Br 0) 0, imc_new 5 (Single Op_End) Return 0],
           ex_loop_blocks[1 := (ex_loop_blocks ! 1)\<lparr>end_position := 1\<rparr>]) \<and>
   (\<exists>p. branch_position (ex_loop_blocks[1 := (ex_loop_blocks ! 1)\<lparr>end_position := 1\<rparr>]) (Single Op_Br) 1 = Ok p \<and>
      drop p [imc_new 2 (Single Op_Br) (Br 0) 0, imc_new 5 (Single Op_End) Return 0]
        = filter kept [imc_new 5 (Single Op_End) Return 0])"
proof -
  have c: "compact ([imc_new 0 (Single Op_Loop) (Block 0) 0, imc_new 2 (Single Op_Br) (Br 0) 0] @
       imc_new 4 (Single Op_End) (End 1) 0 # [imc_new 5 (Single Op_End) Return 0]) [] ex_loop_blocks
     = Ok ([imc_new 2 (Single Op_Br) (Br 0) 0, imc_new 5 (Single Op_End) Return 0],
           ex_loop_blocks[1 := (ex_loop_blocks ! 1)\<lparr>end_position := 1\<rparr>])"
    by (simp add: ex_loop_blocks_def kept_def)
  show ?thesis
    using c branch_lands_after_marker [OF c, of 1 "Single Op_Br"]
    by (simp add: branch_marker_def ex_loop_blocks_def)
qed


section \<open>Fixing the branch targets\<close>

lemma adjust_keeps:
  assumes "adjust_branch_target f c = Ok c'"
  shows "imc_level c' = imc_level c \<and> stack_need (imc_mnemonic c') = stack_need (imc_mnemonic c) \<and>
    operand_ok md lts (imc_mnemonic c') = operand_ok md lts (imc_mnemonic c) \<and>
    is_call (imc_mnemonic c') = is_call (imc_mnemonic c) \<and> kept c' = kept c \<and>
    (imc_mnemonic c' = Return \<longleftrightarrow> imc_mnemonic c = Return)"
  using assms
  by (cases "imc_mnemonic c")
    (auto simp: adjust_branch_target_def adjust_mnemonic_def outcome_iff stack_need_def
      operand_ok_def is_call_def kept_def)

lemma fix_branches_nth:
  assumes "fix_branches blocks codes = Ok codes'"
  shows "length codes' = length codes"
    "i < length codes \<Longrightarrow> adjust_branch_target (branch_position blocks) (codes ! i) = Ok (codes' ! i)"
  using map_outcome_Ok [OF assms [unfolded fix_branches_def]] by simp_all

lemma fix_branches_in_set:
  assumes "fix_branches blocks codes = Ok codes'" "c' \<in> set codes'"
  obtains c where "c \<in> set codes" "adjust_branch_target (branch_position blocks) c = Ok c'"
  using assms fix_branches_nth [OF assms(1)] by (metis in_set_conv_nth)

lemma fix_branches_targets:
  assumes "adjust_branch_target (branch_position blocks) c = Ok c'" "positions_le n blocks"
  shows "\<forall>t \<in> set (targets (imc_mnemonic c')). t \<le> n"
proof -
  from assms(1) obtain m where "adjust_mnemonic (branch_position blocks) (imc_mnemonic c) = Ok m"
    "c' = c\<lparr>imc_mnemonic := m\<rparr>"
    by (auto simp: adjust_branch_target_def outcome_iff)
  moreover have "branch_position blocks opc t = Ok t' \<Longrightarrow> t' \<le> n" for opc t t'
    using assms(2)
    by (auto simp: branch_position_def preferred_target_def positions_le_def outcome_iff
        dest: get_at_in_set split: if_splits)
  ultimately show ?thesis
    using adjust_mnemonic_targets [of "branch_position blocks" _ m "\<lambda>t. t \<le> n"] by simp
qed


section \<open>The generated code\<close>

lemma gen_start_inv: "gen_inv md lts (gen_start s)"
  by (simp add: gen_inv_def gen_start_def block_stack_ok_def)

lemma generate_E:
  assumes "generate fi fp s params results md = Ok (cb, s')"
  obtains st codes where "gen_done md (cb_local_types cb) st"
    and "check_results results (gs_value_stack st) = Ok ()"
    and "backend st = Ok codes"
    and "cb_int_codes cb = codes" "cb_max_stack cb = gs_max_stack st" "cb_leaf cb = gs_leaf st"
  using assms gen_loop_done [OF _ gen_start_inv]
  by (fastforce simp: generate_def outcome_iff)

text \<open>The codes before compaction, and what is left of each code in the result.\<close>

lemma backend_E:
  assumes "gen_done md lts st" "backend st = Ok codes'"
  obtains cs codes blocks where
    "\<forall>c \<in> set cs. code_ok md lts (length (gs_blocks st)) (gs_max_stack st) c"
    "gs_leaf st \<Longrightarrow> \<forall>c \<in> set cs. \<not> is_call (imc_mnemonic c)"
    "imc_mnemonic (last cs) = Return" "imc_level (last cs) = usize_sub (length (gs_value_stack st)) 1"
    "cs \<noteq> []" "codes = filter kept cs" "codes \<noteq> []" "last codes = last cs"
    "positions_le (length codes - 1) blocks" "fix_branches blocks codes = Ok codes'"
proof -
  from assms(1) obtain pre c where pre: "gs_codes st = pre @ [c]" and c: "imc_mnemonic c = Return"
    "imc_level c = usize_sub (length (gs_value_stack st)) 1"
    and inv: "gen_inv md lts st" "gen_bound st = gs_max_stack st"
    by (auto simp: gen_done_def)
  obtain cs where cs: "fuse_pass (gs_codes st) = cs @ [c]"
    using fuse_pass_return [OF c(1), of pre] pre by metis
  from assms(2) cs obtain o1 b1 where 1: "compact cs [] (gs_blocks st) = Ok (o1, b1)"
    "fix_branches b1 (o1 @ [c]) = Ok codes'"
    using c(1) by (auto simp: backend_eq outcome_iff compact_append kept_def)
  have out: "o1 = filter kept cs" "length b1 = length (gs_blocks st)"
    using compact_out [OF 1(1)] by simp_all
  have "positions_le 0 (gs_blocks st)"
    using inv(1) by (simp add: gen_inv_def positions_le_def fresh_block_def)
  then have "positions_le (length o1) b1" using compact_positions_le [OF 1(1)] by simp
  moreover have "\<forall>d \<in> set (cs @ [c]). code_ok md lts (length (gs_blocks st)) (gs_max_stack st) d"
    unfolding cs [symmetric] using inv by (intro fuse_pass_ok) (simp_all add: gen_inv_def)
  moreover have "gs_leaf st \<Longrightarrow> \<forall>d \<in> set (cs @ [c]). \<not> is_call (imc_mnemonic d)"
    unfolding cs [symmetric] using inv by (intro fuse_pass_no_call) (simp add: gen_inv_def)
  moreover have "kept c" using c(1) by (simp add: kept_def)
  ultimately show thesis
    using that [of "cs @ [c]" "o1 @ [c]" b1] 1(2) out c by simp
qed

text \<open>
  A function body the examples use: \<open>block; local.get 0; i32.const 5; i32.lt_s; br_if 0; end;
  local.get 0; i32.const 1; i32.add; end\<close>, of type \<open>[i32] -> [i32]\<close>.
\<close>

definition ex_body :: "u8 list" where
  "ex_body = [0x00, 0x02, 0x40, 0x20, 0x00, 0x41, 0x05, 0x48, 0x0D, 0x00, 0x0B,
              0x20, 0x00, 0x41, 0x01, 0x6A, 0x0B]"

definition ex_block :: code_block where
  "ex_block =
     \<lparr>cb_func_index = 0, cb_file_position = 0, cb_local_types = [I32], cb_max_stack = 2, cb_leaf = True,
      cb_int_codes =
        [imc_new 3 (Single Op_LocalGet) (LocalGet32 0) 0,
         imc_new 5 (Single Op_I32Const) (I32Const 5) 1,
         imc_new 8 (Single Op_BrIf) (FusedI32Br R_LtS 3) 0,
         imc_new 11 (Single Op_LocalGet) (LocalGet32 0) 0,
         imc_new 15 (Single (Op_I32Bin B_Add)) (FusedI32AddI 1) 0,
         imc_new 16 (Single Op_End) Return 0]\<rparr>"

lemmas reader_eval = from_slice_def read_byte_def read_unsigned_def read_signed_def
  read_unsigned_loop.simps read_signed_loop.simps read_opcode_def decode_def single_new_def
  single_table_lo_def single_table_hi_def get_bytes_def read_memarg_def get_at_def Let_def
  usize_sub_def usize_add_def with_capacity_def

lemmas gen_eval = gen_read_def gen_level_def gen_top_level_def gen_pop_def gen_last_def gen_push_def
  gen_emit_def gen_drops_def block_get_def gen_unreachable_def read_block_type_def gen_open_def
  gen_block_def gen_if_def gen_else_def gen_end_def gen_br_def gen_br_if_def read_target_def
  gen_br_table_def gen_return_def gen_signature_def gen_call_def gen_call_indirect_def gen_drop_def
  gen_select_def gen_local_get_def gen_local_set_def gen_local_tee_def gen_global_get_def
  gen_global_set_def is_32bit_def gen_load_def gen_store_def gen_memory_size_def
  gen_memory_grow_def gen_memory_copy_def gen_memory_fill_def gen_i32_const_def gen_i64_const_def
  gen_unary_def gen_compare_def gen_binary_def gen_convert_def gen_i32_unary_def
  gen_i64_unary_def gen_i32_compare_def gen_i64_compare_def gen_i32_binary_def
  gen_i64_binary_def gen_single_def gen_fc_def gen_marks_def gen_step_def gen_loop.simps
  block_type_from_i64_def

lemmas generate_eval = reader_eval gen_eval generate_def local_var_types_def check_results_def
  backend_eq fuse_pass_def fuse_pair_def fuse_i32_const_def fuse_i64_const_def fix_branches_def
  adjust_branch_target_def adjust_mnemonic_def branch_position_def preferred_target_def
  gen_start_def kept_def imc_new_def

lemma generate_ex:
  "generate 0 0 (from_slice ex_body) [I32] [I32] module_new
     = Ok (ex_block, \<lparr>blob = ex_body, position = 17\<rparr>)"
  by (simp add: ex_body_def ex_block_def generate_eval cong: and_then_weak_cong)

text \<open>What \<open>generate\<close> promises about the block it returns.\<close>

definition block_ok :: "wasm_module \<Rightarrow> code_block \<Rightarrow> bool" where
  "block_ok md cb \<longleftrightarrow>
     cb_int_codes cb \<noteq> [] \<and> imc_mnemonic (last (cb_int_codes cb)) = Return \<and>
     (\<forall>c \<in> set (cb_int_codes cb).
        level_ok (cb_max_stack cb) c \<and> operand_ok md (cb_local_types cb) (imc_mnemonic c) \<and>
        kept c \<and> (cb_leaf cb \<longrightarrow> \<not> is_call (imc_mnemonic c)) \<and>
        (\<forall>t \<in> set (targets (imc_mnemonic c)). t < length (cb_int_codes cb)))"

lemma generate_block_ok:
  assumes "generate fi fp s params results md = Ok (cb, s')"
  shows "block_ok md cb"
proof -
  from assms obtain st where st: "gen_done md (cb_local_types cb) st"
    "backend st = Ok (cb_int_codes cb)" "cb_max_stack cb = gs_max_stack st" "cb_leaf cb = gs_leaf st"
    by (auto elim: generate_E)
  from st(1,2) show ?thesis
  proof (rule backend_E)
    fix cs codes blocks
    assume ok: "\<forall>c \<in> set cs. code_ok md (cb_local_types cb) (length (gs_blocks st)) (gs_max_stack st) c"
      and nocall: "gs_leaf st \<Longrightarrow> \<forall>c \<in> set cs. \<not> is_call (imc_mnemonic c)"
      and last: "imc_mnemonic (last cs) = Return" "last codes = last cs"
      and codes: "codes = filter kept cs" "codes \<noteq> []"
      and pos: "positions_le (length codes - 1) blocks"
      and fixed: "fix_branches blocks codes = Ok (cb_int_codes cb)"
    note nth = fix_branches_nth [OF fixed]
    from codes(2) nth have ne: "cb_int_codes cb \<noteq> []" by auto
    have "adjust_branch_target (branch_position blocks) (last codes) = Ok (last (cb_int_codes cb))"
      using nth(2) [of "length codes - 1"] nth(1) codes(2) ne by (simp add: last_conv_nth)
    from adjust_keeps [OF this] last have "imc_mnemonic (last (cb_int_codes cb)) = Return" by simp
    moreover have "level_ok (cb_max_stack cb) c \<and> operand_ok md (cb_local_types cb) (imc_mnemonic c) \<and>
       kept c \<and> (cb_leaf cb \<longrightarrow> \<not> is_call (imc_mnemonic c)) \<and>
       (\<forall>t \<in> set (targets (imc_mnemonic c)). t < length (cb_int_codes cb))"
      if "c \<in> set (cb_int_codes cb)" for c
    proof -
      from fix_branches_in_set [OF fixed that] obtain d where
        d: "d \<in> set codes" "adjust_branch_target (branch_position blocks) d = Ok c" .
      have "\<forall>t \<in> set (targets (imc_mnemonic c)). t < length (cb_int_codes cb)"
        using fix_branches_targets [OF d(2) pos] codes(2) nth(1) by (cases codes) (auto simp: less_Suc_eq_le)
      with adjust_keeps [OF d(2)] d(1) codes(1) nocall ok st(3,4) show ?thesis
        by (auto simp: code_ok_def level_ok_def)
    qed
    ultimately show ?thesis using ne by (simp add: block_ok_def)
  qed
qed

text \<open>
  C2: The verifier's promise about the stack and the operands.  Every code of a generated block
  other than \<open>Return\<close> touches, counted upwards from its stack level, only slots below the
  \<open>max_stack\<close> that the interpreter allocates.  A \<open>Return\<close> names a slot below
  \<open>max_stack\<close>, or the wrapped level of an empty stack.  The level of a call is at most
  \<open>max_stack\<close>; its arguments lie below the level, and nothing is promised about how many
  there are.  The local, global, function and type indices are in range, and a memory instruction
  occurs only in a module that has a memory.
\<close>

theorem generate_verified:
  assumes "generate fi fp s params results md = Ok (cb, s')" "c \<in> set (cb_int_codes cb)"
  shows "level_ok (cb_max_stack cb) c \<and> operand_ok md (cb_local_types cb) (imc_mnemonic c)"
  using generate_block_ok [OF assms(1)] assms(2) by (simp add: block_ok_def)

theorem generate_verified_witness:
  "level_ok (cb_max_stack ex_block) (imc_new 8 (Single Op_BrIf) (FusedI32Br R_LtS 3) 0)"
  using generate_verified [OF generate_ex, of "imc_new 8 (Single Op_BrIf) (FusedI32Br R_LtS 3) 0"]
  by (simp add: ex_block_def)

text \<open>
  C3: Control cannot leave a generated block.  The last code is \<open>Return\<close>, so every other
  code has a successor; every branch target is the index of a code; the markers \<open>Nop\<close>,
  \<open>Block\<close> and \<open>End\<close> are gone; and in a block marked as a leaf function there is no
  call.
\<close>

theorem generate_flow:
  assumes "generate fi fp s params results md = Ok (cb, s')"
  shows "cb_int_codes cb \<noteq> [] \<and> imc_mnemonic (last (cb_int_codes cb)) = Return \<and>
    (\<forall>c \<in> set (cb_int_codes cb). kept c \<and> (cb_leaf cb \<longrightarrow> \<not> is_call (imc_mnemonic c)) \<and>
       (\<forall>t \<in> set (targets (imc_mnemonic c)). t < length (cb_int_codes cb)))"
  using generate_block_ok [OF assms] by (simp add: block_ok_def)

theorem generate_flow_witness:
  "imc_mnemonic (last (cb_int_codes ex_block)) = Return \<and>
   list_all (\<lambda>t. t < length (cb_int_codes ex_block)) (targets (FusedI32Br R_LtS 3))"
  using generate_flow [OF generate_ex] by (auto simp: ex_block_def list_all_iff)

end
