(* ===== verification/StackHeap.thy ===== *)
theory StackHeap
  imports WasmTypes
begin

text \<open>
  The stacks of the runtime (src/lib/wasm/src/stack.rs): \<open>FixedStack\<close>, a stack in a borrowed
  slice, and \<open>StackHeap\<close>, the bump allocator from which the interpreter takes value stacks
  and local variables.

  The interpreter allocates slices of \<open>WasmUnsafeValue\<close> only, eight bytes each at offsets that
  are multiples of 16, so the byte vector of the heap is modelled by its eight-byte slots.  A slice
  that \<open>alloc\<close> returns outlives the borrow of the heap; it is a reference into the buffer of
  the vector, and it dangles once the vector has been reallocated.  Each reallocation opens a new
  \<open>generation\<close> of the buffer, and a slice carries the generation it was made in.
\<close>

section \<open>Fixed-size stack\<close>

record 'a fixed_stack =
  fs_slice :: "'a list"
  fs_sp :: nat

definition fs_from_slice :: "'a list \<Rightarrow> 'a fixed_stack" where
  "fs_from_slice xs = \<lparr>fs_slice = xs, fs_sp = 0\<rparr>"

definition fs_get :: "'a fixed_stack \<Rightarrow> 'a list option" where
  "fs_get s = (if fs_sp s \<le> length (fs_slice s) then Some (take (fs_sp s) (fs_slice s)) else None)"

text \<open>\<open>as_slice\<close>: \<open>self.get().unwrap()\<close>\<close>

definition fs_as_slice :: "'a fixed_stack \<Rightarrow> (unit, 'a list) outcome" where
  "fs_as_slice s = (case fs_get s of Some xs \<Rightarrow> Ok xs | None \<Rightarrow> Panic)"

definition fs_last :: "'a fixed_stack \<Rightarrow> 'a option" where
  "fs_last s = (if 0 < fs_sp s then get_at (fs_slice s) (fs_sp s - 1) else None)"

definition fs_push :: "'a \<Rightarrow> 'a fixed_stack \<Rightarrow> (unit, 'a fixed_stack) outcome" where
  "fs_push x s =
     (if fs_sp s < length (fs_slice s)
      then Ok \<lparr>fs_slice = (fs_slice s)[fs_sp s := x], fs_sp = fs_sp s + 1\<rparr>
      else Err ())"

text \<open>\<open>pop\<close> reads the slot without a check of the slice length.\<close>

definition fs_pop :: "'a fixed_stack \<Rightarrow> (unit, 'a option \<times> 'a fixed_stack) outcome" where
  "fs_pop s =
     (if 0 < fs_sp s
      then (if fs_sp s - 1 < length (fs_slice s)
            then Ok (Some (fs_slice s ! (fs_sp s - 1)), s\<lparr>fs_sp := fs_sp s - 1\<rparr>)
            else UB OutOfRange)
      else Ok (None, s))"

definition fs_remove_all :: "'a fixed_stack \<Rightarrow> 'a fixed_stack" where
  "fs_remove_all s = s\<lparr>fs_sp := 0\<rparr>"

text \<open>\<open>resize\<close> shrinks; the other cases are \<open>todo!()\<close>.\<close>

definition fs_resize :: "nat \<Rightarrow> 'a fixed_stack \<Rightarrow> (unit, 'a fixed_stack) outcome" where
  "fs_resize new_size s =
     (if new_size < length (fs_slice s)
      then (if fs_sp s < new_size then Panic else Ok (s\<lparr>fs_sp := new_size\<rparr>))
      else Panic)"


section \<open>Stack heap\<close>

record stack_heap =
  sh_slots :: "unsafe_value list"
  sh_capacity :: nat
  sh_generation :: nat
  sh_stack_pointer :: nat

record heap_slice =
  sl_generation :: nat
  sl_offset :: nat
  sl_len :: nat

definition heap_with_capacity :: "nat \<Rightarrow> stack_heap" where
  "heap_with_capacity cap =
     \<lparr>sh_slots = [], sh_capacity = cap, sh_generation = 0, sh_stack_pointer = 0\<rparr>"

text \<open>\<open>(n + 15) & !15\<close> on \<open>usize\<close>\<close>

definition align16 :: "nat \<Rightarrow> nat" where
  "align16 n = usize_add n 15 div 16 * 16"

text \<open>
  \<open>Vec::resize(new_size, 0)\<close> on the byte vector: it extends the buffer in place up to the
  capacity and moves it otherwise, to at least twice the capacity.
\<close>

definition vec_resize :: "nat \<Rightarrow> stack_heap \<Rightarrow> ('e, stack_heap) outcome" where
  "vec_resize new_size h =
     (let slots = sh_slots h @ replicate (new_size div 8 - length (sh_slots h)) uv_zero in
      if new_size \<le> sh_capacity h then Ok (h\<lparr>sh_slots := slots\<rparr>)
      else if 2 ^ 63 \<le> new_size then Panic
      else Ok (h\<lparr>sh_slots := slots, sh_capacity := max new_size (2 * sh_capacity h),
                 sh_generation := sh_generation h + 1\<rparr>))"

definition heap_alloc :: "nat \<Rightarrow> stack_heap \<Rightarrow> ('e, heap_slice \<times> stack_heap) outcome" where
  "heap_alloc len h =
     (let offset = align16 (sh_stack_pointer h);
          vec_size = (8 * len) mod 2 ^ 64;
          new_size = align16 (usize_add offset vec_size)
      in
      and_then (if 8 * length (sh_slots h) < new_size then vec_resize new_size h else Ok h) (\<lambda>h'.
        Ok (\<lparr>sl_generation = sh_generation h', sl_offset = offset div 8, sl_len = len\<rparr>,
            h'\<lparr>sh_stack_pointer := new_size\<rparr>)))"

text \<open>\<open>snapshot\<close>: the child works on the same vector; the parent keeps its stack pointer.\<close>

definition heap_restore :: "stack_heap \<Rightarrow> stack_heap \<Rightarrow> stack_heap" where
  "heap_restore parent child = child\<lparr>sh_stack_pointer := sh_stack_pointer parent\<rparr>"

text \<open>
  Access to a slot of a slice, as the unchecked accessors of intr.rs have it: no bounds check, no
  lifetime.
\<close>

definition slice_get :: "stack_heap \<Rightarrow> heap_slice \<Rightarrow> nat \<Rightarrow> ('e, unsafe_value) outcome" where
  "slice_get h sl i =
     (if sl_generation sl \<noteq> sh_generation h then UB DanglingRef
      else if i < sl_len sl \<and> sl_offset sl + i < length (sh_slots h)
      then Ok (sh_slots h ! (sl_offset sl + i))
      else UB OutOfRange)"

definition slice_set :: "heap_slice \<Rightarrow> nat \<Rightarrow> unsafe_value \<Rightarrow> stack_heap \<Rightarrow> ('e, stack_heap) outcome" where
  "slice_set sl i v h =
     (if sl_generation sl \<noteq> sh_generation h then UB DanglingRef
      else if i < sl_len sl \<and> sl_offset sl + i < length (sh_slots h)
      then Ok (h\<lparr>sh_slots := (sh_slots h)[sl_offset sl + i := v]\<rparr>)
      else UB OutOfRange)"


section \<open>The contract of a bounded stack\<close>

text \<open>
  A bounded stack behaves like a list with a capacity: \<open>view\<close> is the contents, top first.
\<close>

locale bounded_stack =
  fixes push :: "'a \<Rightarrow> 's \<Rightarrow> (unit, 's) outcome"
    and pop :: "'s \<Rightarrow> (unit, 'a option \<times> 's) outcome"
    and view :: "'s \<Rightarrow> 'a list"
    and capacity :: "'s \<Rightarrow> nat"
    and inv :: "'s \<Rightarrow> bool"
  assumes push_full: "inv s \<Longrightarrow> capacity s \<le> length (view s) \<Longrightarrow> push x s = Err ()"
    and push_ok: "inv s \<Longrightarrow> length (view s) < capacity s \<Longrightarrow>
      \<exists>s'. push x s = Ok s' \<and> inv s' \<and> view s' = x # view s \<and> capacity s' = capacity s"
    and pop_empty: "inv s \<Longrightarrow> view s = [] \<Longrightarrow> pop s = Ok (None, s)"
    and pop_top: "inv s \<Longrightarrow> view s = x # xs \<Longrightarrow>
      \<exists>s'. pop s = Ok (Some x, s') \<and> inv s' \<and> view s' = xs \<and> capacity s' = capacity s"
begin

lemma push_pop:
  assumes "inv s" "push x s = Ok s'"
  shows "\<exists>s''. pop s' = Ok (Some x, s'') \<and> view s'' = view s \<and> capacity s'' = capacity s"
proof -
  have "length (view s) < capacity s"
    using assms push_full [of s x] by (cases "length (view s) < capacity s") auto
  with assms push_ok [of s x] have "inv s'" "view s' = x # view s" "capacity s' = capacity s"
    by auto
  with pop_top [of s' x "view s"] show ?thesis by metis
qed

lemma pop_never_fails:
  assumes "inv s"
  shows "\<exists>r s'. pop s = Ok (r, s') \<and> inv s' \<and> r = (case view s of [] \<Rightarrow> None | x # _ \<Rightarrow> Some x)"
  using assms pop_empty [of s] pop_top [of s] by (cases "view s") force+

end

definition fs_inv :: "'a fixed_stack \<Rightarrow> bool" where
  "fs_inv s \<longleftrightarrow> fs_sp s \<le> length (fs_slice s)"

definition fs_view :: "'a fixed_stack \<Rightarrow> 'a list" where
  "fs_view s = rev (take (fs_sp s) (fs_slice s))"

definition fs_capacity :: "'a fixed_stack \<Rightarrow> nat" where
  "fs_capacity s = length (fs_slice s)"

lemma fs_view_length: "fs_inv s \<Longrightarrow> length (fs_view s) = fs_sp s"
  by (simp add: fs_inv_def fs_view_def)

lemma fs_view_Cons:
  assumes "fs_inv s" "fs_view s = x # xs"
  shows "0 < fs_sp s \<and> fs_slice s ! (fs_sp s - 1) = x \<and> rev (take (fs_sp s - 1) (fs_slice s)) = xs"
proof -
  obtain n where n: "fs_sp s = Suc n" using assms fs_view_length [OF assms(1)] by (cases "fs_sp s") auto
  then have "fs_view s = fs_slice s ! n # rev (take n (fs_slice s))"
    using assms(1) by (simp add: fs_inv_def fs_view_def take_Suc_conv_app_nth)
  with assms(2) n show ?thesis by simp
qed

interpretation fixed: bounded_stack fs_push fs_pop fs_view fs_capacity fs_inv
proof (unfold_locales, goal_cases)
  case (1 s x)
  then show ?case using fs_view_length [of s] by (simp add: fs_push_def fs_capacity_def)
next
  case (2 s x)
  then show ?case
    using fs_view_length [of s]
    by (auto simp: fs_push_def fs_capacity_def fs_inv_def fs_view_def take_Suc_conv_app_nth)
next
  case (3 s)
  then show ?case using fs_view_length [of s] by (simp add: fs_pop_def)
next
  case (4 s x xs)
  with fs_view_Cons [OF 4] show ?case
    by (auto simp: fs_pop_def fs_inv_def fs_view_def fs_capacity_def)
qed

text \<open>
  A \<open>FixedStack\<close> that satisfies its invariant behaves like a stack of bounded height: what
  a successful \<open>push\<close> stores is what the next \<open>pop\<close> returns, the rest is unchanged, and
  \<open>push\<close> fails exactly on a full slice.
\<close>

theorem fixed_stack_push_pop:
  assumes "fs_inv s"
  shows "(fs_push x s = Err () \<longleftrightarrow> fs_sp s = length (fs_slice s)) \<and>
    (\<forall>s'. fs_push x s = Ok s' \<longrightarrow>
       fs_inv s' \<and> fs_last s' = Some x \<and> (\<exists>s''. fs_pop s' = Ok (Some x, s'') \<and> fs_view s'' = fs_view s))"
proof -
  have "fs_inv s'" "fs_last s' = Some x" if "fs_push x s = Ok s'" for s'
    using that assms by (auto simp: fs_push_def fs_inv_def fs_last_def get_at_def split: if_splits)
  moreover have "fs_push x s = Err () \<longleftrightarrow> fs_sp s = length (fs_slice s)"
    using assms by (auto simp: fs_push_def fs_inv_def)
  ultimately show ?thesis using fixed.push_pop [OF assms] by blast
qed

theorem fixed_stack_push_pop_witness:
  "fs_last \<lparr>fs_slice = [7, 0 :: nat], fs_sp = 1\<rparr> = Some 7"
proof -
  have "fs_inv (fs_from_slice [0, 0 :: nat])" by (simp add: fs_inv_def fs_from_slice_def)
  from fixed_stack_push_pop [OF this, of 7] show ?thesis by (simp add: fs_push_def fs_from_slice_def)
qed


section \<open>Allocation\<close>

text \<open>
  The stack pointer is aligned and inside the vector, the vector consists of 16-byte units inside
  its capacity.
\<close>

definition heap_inv :: "stack_heap \<Rightarrow> bool" where
  "heap_inv h \<longleftrightarrow>
     16 dvd sh_stack_pointer h \<and> sh_stack_pointer h \<le> 8 * length (sh_slots h) \<and>
     16 dvd 8 * length (sh_slots h) \<and> 8 * length (sh_slots h) \<le> sh_capacity h"

lemma heap_inv_new: "heap_inv (heap_with_capacity cap)"
  by (simp add: heap_inv_def heap_with_capacity_def)

lemma align16_exact: "n + 15 < 2 ^ 64 \<Longrightarrow> align16 n = (n + 15) div 16 * 16"
  by (simp add: align16_def usize_add_exact)

lemma align16_bounds:
  assumes "n + 15 < 2 ^ 64"
  shows "16 dvd align16 n" "n \<le> align16 n" "align16 n < n + 16"
  using assms by (simp_all add: align16_exact)

lemma align16_id: "16 dvd n \<Longrightarrow> n + 15 < 2 ^ 64 \<Longrightarrow> align16 n = n"
  by (auto simp: align16_exact elim!: dvdE)

lemma align16_le_slots:
  assumes "16 dvd 8 * length xs" "n \<le> 8 * length xs" "n + 15 < 2 ^ 64"
  shows "align16 n \<le> 8 * length xs"
  using assms align16_bounds [OF assms(3)] by (auto elim!: dvdE)

text \<open>The size of the vector an allocation asks for.\<close>

definition alloc_end :: "nat \<Rightarrow> stack_heap \<Rightarrow> nat" where
  "alloc_end len h = align16 (sh_stack_pointer h + 8 * len)"

lemma heap_alloc_eq:
  assumes "heap_inv h" "sh_stack_pointer h + 8 * len + 15 < 2 ^ 63"
  shows "heap_alloc len h =
    (let h' = (if alloc_end len h \<le> 8 * length (sh_slots h) then h
               else h\<lparr>sh_slots := sh_slots h @ replicate (alloc_end len h div 8 - length (sh_slots h)) uv_zero,
                      sh_capacity := (if alloc_end len h \<le> sh_capacity h then sh_capacity h
                                      else max (alloc_end len h) (2 * sh_capacity h)),
                      sh_generation := (if alloc_end len h \<le> sh_capacity h then sh_generation h
                                        else sh_generation h + 1)\<rparr>)
     in Ok (\<lparr>sl_generation = sh_generation h', sl_offset = sh_stack_pointer h div 8, sl_len = len\<rparr>,
            h'\<lparr>sh_stack_pointer := alloc_end len h\<rparr>))"
proof -
  have sp: "align16 (sh_stack_pointer h) = sh_stack_pointer h"
    using assms by (intro align16_id) (simp_all add: heap_inv_def)
  have add: "usize_add (sh_stack_pointer h) (8 * len) = sh_stack_pointer h + 8 * len"
    using assms(2) by (intro usize_add_exact) simp
  have "alloc_end len h < 2 ^ 63"
    using align16_bounds(3) [of "sh_stack_pointer h + 8 * len"] assms(2) by (simp add: alloc_end_def)
  with sp add assms(2) show ?thesis
    by (simp add: heap_alloc_def vec_resize_def Let_def alloc_end_def)
qed

text \<open>
  \<open>StackHeap::alloc\<close>.  Below \<open>isize::MAX\<close> bytes an allocation succeeds; the slice
  lies above everything allocated before and inside the vector; the old contents stay, the new ones
  are zero; and the buffer moves, so that every older slice dangles, exactly when the capacity is
  exceeded.
\<close>

theorem heap_alloc_spec:
  assumes "heap_inv h" "sh_stack_pointer h + 8 * len + 15 < 2 ^ 63"
  shows "\<exists>sl h'. heap_alloc len h = Ok (sl, h') \<and> heap_inv h' \<and>
    sl_len sl = len \<and> sl_generation sl = sh_generation h' \<and>
    8 * sl_offset sl = sh_stack_pointer h \<and> 8 * (sl_offset sl + len) \<le> sh_stack_pointer h' \<and>
    take (length (sh_slots h)) (sh_slots h') = sh_slots h \<and>
    set (drop (length (sh_slots h)) (sh_slots h')) \<subseteq> {uv_zero} \<and>
    (sh_generation h' = sh_generation h \<longleftrightarrow> alloc_end len h \<le> sh_capacity h)"
proof -
  let ?e = "alloc_end len h"
  have e: "16 dvd ?e" "sh_stack_pointer h + 8 * len \<le> ?e"
    using align16_bounds [of "sh_stack_pointer h + 8 * len"] assms(2) by (simp_all add: alloc_end_def)
  have inv: "16 dvd sh_stack_pointer h" "sh_stack_pointer h \<le> 8 * length (sh_slots h)"
    "16 dvd 8 * length (sh_slots h)" "8 * length (sh_slots h) \<le> sh_capacity h"
    using assms(1) by (simp_all add: heap_inv_def)
  have "8 * (sh_stack_pointer h div 8) = sh_stack_pointer h" using inv(1) by (auto elim!: dvdE)
  moreover have "8 * (?e div 8) = ?e" using e(1) by (auto elim!: dvdE)
  ultimately show ?thesis
    using e inv by (auto simp: heap_alloc_eq [OF assms] Let_def heap_inv_def)
qed

theorem heap_alloc_spec_witness:
  "\<exists>sl h'. heap_alloc 3 (heap_with_capacity 0x10000) = Ok (sl, h') \<and> sl_len sl = 3"
  using heap_alloc_spec [of "heap_with_capacity 0x10000" 3, OF heap_inv_new]
  by (auto simp: heap_with_capacity_def)

text \<open>
  References kept across an allocation dangle.  When an allocation exceeds the capacity, every
  slice that was valid before is a reference to the old buffer, and its next use is undefined
  behaviour.
\<close>

theorem heap_alloc_dangles:
  assumes "heap_inv h" "sh_stack_pointer h + 8 * len + 15 < 2 ^ 63"
    and "sl_generation old = sh_generation h" "sh_capacity h < alloc_end len h"
    and "heap_alloc len h = Ok (sl, h')"
  shows "slice_get h' old i = UB DanglingRef \<and> slice_set old i v h' = UB DanglingRef"
proof -
  from assms(4,5) have "sh_generation h' \<noteq> sh_generation h"
    using assms(1) by (auto simp: heap_alloc_eq [OF assms(1,2)] Let_def heap_inv_def split: if_splits)
  with assms(3) show ?thesis
    by (simp add: slice_get_def slice_set_def)
qed

theorem heap_alloc_dangles_witness:
  "slice_get \<lparr>sh_slots = replicate 514 uv_zero, sh_capacity = 8192, sh_generation = 1, sh_stack_pointer = 4112\<rparr>
     \<lparr>sl_generation = 0, sl_offset = 0, sl_len = 2\<rparr> 0 = (UB DanglingRef :: (unit, unsafe_value) outcome)"
proof -
  let ?h = "\<lparr>sh_slots = replicate 2 uv_zero, sh_capacity = 4096, sh_generation = 0, sh_stack_pointer = 16\<rparr>"
  have inv: "heap_inv ?h" by (simp add: heap_inv_def)
  have e: "alloc_end 512 ?h = 4112" by (simp add: alloc_end_def align16_exact)
  have "heap_alloc 512 ?h =
    (Ok (\<lparr>sl_generation = 1, sl_offset = 2, sl_len = 512\<rparr>,
        \<lparr>sh_slots = replicate 514 uv_zero, sh_capacity = 8192, sh_generation = 1, sh_stack_pointer = 4112\<rparr>)
      :: (unit, heap_slice \<times> stack_heap) outcome)"
    using inv by (simp add: heap_alloc_eq e Let_def flip: replicate_add)
  note moved = this
  show ?thesis
    by (rule conjunct1 [OF heap_alloc_dangles [OF inv _ _ _ moved]]) (simp_all add: e)
qed

end
