(* ===== verification/NameTable.thy ===== *)
theory NameTable
  imports IntCode
begin

text \<open>
  The \<open>name\<close> section (\<open>WasmName\<close> of src/lib/wasm/src/wasm.rs): its parser and the lookup of
  a function or global name by binary search, which the interpreter uses to build its error values.
\<close>

section \<open>Lookup\<close>

text \<open>\<open>slice::binary_search_by_key\<close> on the elements \<open>left\<close> up to \<open>right\<close>.\<close>

function search_by_key :: "(nat \<times> 'a) list \<Rightarrow> nat \<Rightarrow> nat \<Rightarrow> nat \<Rightarrow> nat option" where
  "search_by_key xs key left right =
     (if left < right then
        let mid = left + (right - left) div 2 in
        if fst (xs ! mid) < key then search_by_key xs key (mid + 1) right
        else if key < fst (xs ! mid) then search_by_key xs key left mid
        else Some mid
      else None)"
  by pat_completeness auto
termination
  by (relation "measure (\<lambda>(xs, key, left, right). right - left)") auto

declare search_by_key.simps [simp del]

definition lookup_name :: "(nat \<times> u8 list) list \<Rightarrow> nat \<Rightarrow> u8 list option" where
  "lookup_name table idx =
     (case search_by_key table idx 0 (length table) of
        Some v \<Rightarrow> map_option snd (get_at table v)
      | None \<Rightarrow> None)"

definition name_func_by_index :: "wasm_name \<Rightarrow> nat \<Rightarrow> u8 list option" where
  "name_func_by_index nm idx = lookup_name (nm_functions nm) idx"

definition name_global_by_index :: "wasm_name \<Rightarrow> nat \<Rightarrow> u8 list option" where
  "name_global_by_index nm idx = lookup_name (nm_globals nm) idx"


section \<open>Parsing\<close>

datatype name_subsection_type = NS_Module | NS_Function | NS_Local | NS_Labels | NS_Type | NS_Table
  | NS_Memory | NS_Global | NS_ElemSegment | NS_DataSegment

definition name_subsections :: "name_subsection_type list" where
  "name_subsections = [NS_Module, NS_Function, NS_Local, NS_Labels, NS_Type, NS_Table, NS_Memory,
     NS_Global, NS_ElemSegment, NS_DataSegment]"

definition read_assoc :: "leb128_stream \<Rightarrow> (decode_error, (nat \<times> u8 list) \<times> leb128_stream) outcome" where
  "read_assoc s =
     and_then (read_unsigned s) (\<lambda>(idx, s1). and_then (get_string s1) (\<lambda>(n, s2). Ok ((unat idx, n), s2)))"

definition read_name_map :: "leb128_stream \<Rightarrow> (decode_error, (nat \<times> u8 list) list) outcome" where
  "read_name_map s =
     and_then (read_unsigned s) (\<lambda>(n, s1). and_then (read_many read_assoc (unat n) s1) (\<lambda>(xs, _). Ok xs))"

text \<open>One subsection; a module name that does not parse is dropped (\<open>.ok()\<close>).\<close>

definition name_subsection :: "u8 \<Rightarrow> u8 list \<Rightarrow> wasm_name \<Rightarrow> (decode_error, wasm_name) outcome" where
  "name_subsection name_id bytes nm =
     (case get_at name_subsections (unat name_id) of
        None \<Rightarrow> Ok nm
      | Some sec \<Rightarrow>
         (case sec of
            NS_Module \<Rightarrow>
              (case get_string (from_slice bytes) of
                 Ok (n, _) \<Rightarrow> Ok (nm\<lparr>nm_module := Some n\<rparr>)
               | Err _ \<Rightarrow> Ok (nm\<lparr>nm_module := None\<rparr>)
               | Panic \<Rightarrow> Panic
               | UB u \<Rightarrow> UB u)
          | NS_Function \<Rightarrow>
              and_then (read_name_map (from_slice bytes)) (\<lambda>xs. Ok (nm\<lparr>nm_functions := nm_functions nm @ xs\<rparr>))
          | NS_Global \<Rightarrow>
              and_then (read_name_map (from_slice bytes)) (\<lambda>xs. Ok (nm\<lparr>nm_globals := nm_globals nm @ xs\<rparr>))
          | _ \<Rightarrow> Ok nm))"

definition read_subsection :: "leb128_stream \<Rightarrow> (decode_error, (u8 \<times> u8 list) \<times> leb128_stream) outcome" where
  "read_subsection s =
     and_then (read_byte s) (\<lambda>(i, s1). and_then (read_bytes s1) (\<lambda>(b, s2). Ok ((i, b), s2)))"

interpretation subsec: reader read_subsection
  unfolding read_subsection_def
  by (rule byte.seq_reader) (auto simp: outcome_iff dest!: vec.rd_advance)

function name_loop :: "leb128_stream \<Rightarrow> wasm_name \<Rightarrow> (decode_error, wasm_name) outcome" where
  "name_loop s nm =
     (if is_eof s then Ok nm
      else and_then (read_subsection s) (\<lambda>(sub, s1).
           and_then (name_subsection (fst sub) (snd sub) nm) (\<lambda>nm1. name_loop s1 nm1)))"
  by pat_completeness auto
termination
  by (relation "measure (\<lambda>(s, nm). length (blob s) - position s)") (auto dest: subsec.rd_advance)

declare name_loop.simps [simp del]

definition name_from_stream :: "leb128_stream \<Rightarrow> (decode_error, wasm_name) outcome" where
  "name_from_stream s = name_loop s \<lparr>nm_module = None, nm_functions = [], nm_globals = []\<rparr>"


section \<open>The search is a lookup\<close>

lemma search_sound:
  "search_by_key xs key left right = Some i \<Longrightarrow> right \<le> length xs \<Longrightarrow>
     left \<le> i \<and> i < right \<and> fst (xs ! i) = key"
proof (induction xs key left right rule: search_by_key.induct)
  case (1 xs key left right)
  show ?case
    using "1.prems" "1.IH" [OF _ refl]
    by (fastforce simp: search_by_key.simps [of xs key left right] Let_def split: if_splits)
qed

lemma search_complete:
  "sorted_wrt (<) (map fst xs) \<Longrightarrow> right \<le> length xs \<Longrightarrow> left \<le> i \<Longrightarrow> i < right \<Longrightarrow> fst (xs ! i) = key \<Longrightarrow>
     search_by_key xs key left right = Some i"
proof (induction xs key left right rule: search_by_key.induct)
  case (1 xs key left right)
  let ?mid = "left + (right - left) div 2"
  have mid: "?mid < right" using "1.prems" by linarith
  have less: "fst (xs ! a) < fst (xs ! b)" if "a < b" "b < length xs" for a b
    using "1.prems"(1) that sorted_wrt_nth_less [of "(<)" "map fst xs" a b] by simp
  consider "i < ?mid" | "i = ?mid" | "?mid < i" by linarith
  then show ?case
  proof cases
    case 1
    then have "key < fst (xs ! ?mid)" using less [of i ?mid] "1.prems" mid by simp
    with 1 "1.IH"(2) [OF _ refl] "1.prems" mid show ?thesis
      by (simp add: search_by_key.simps [of xs key left right] Let_def)
  next
    case 2
    with "1.prems" show ?thesis by (simp add: search_by_key.simps [of xs key left right] Let_def)
  next
    case 3
    then have "fst (xs ! ?mid) < key" using less [of ?mid i] "1.prems" by simp
    with 3 "1.IH"(1) [OF _ refl] "1.prems" show ?thesis
      by (simp add: search_by_key.simps [of xs key left right] Let_def)
  qed
qed

text \<open>
  Looking up a name by binary search.  On a table that is strictly sorted by index, as the
  binary format demands, the search finds an index exactly when the table has it, and returns the
  name stored with it.
\<close>

theorem lookup_name_map_of:
  assumes "sorted_wrt (<) (map fst table)"
  shows "lookup_name table idx = map_of table idx"
proof (cases "search_by_key table idx 0 (length table)")
  case None
  have "idx \<notin> fst ` set table"
  proof
    assume "idx \<in> fst ` set table"
    then obtain i where "i < length table" "fst (table ! i) = idx" by (force simp: in_set_conv_nth)
    with search_complete [OF assms order_refl le0, of i idx] None show False by simp
  qed
  with None show ?thesis by (simp add: lookup_name_def map_of_eq_None_iff [THEN iffD2])
next
  case (Some i)
  with search_sound [OF Some] have i: "i < length table" "fst (table ! i) = idx" by auto
  have "distinct (map fst table)" using assms strict_sorted_iff by blast
  moreover have "(idx, snd (table ! i)) \<in> set table" using i by (metis nth_mem prod.collapse)
  ultimately have "map_of table idx = Some (snd (table ! i))" by (rule map_of_is_SomeI)
  with i Some show ?thesis by (simp add: lookup_name_def get_at_def)
qed

theorem lookup_name_map_of_witness:
  "lookup_name [(1, [65]), (4, [66]), (9, [67])] 4 = Some [66]"
  using lookup_name_map_of [of "[(1, [65]), (4, [66]), (9, [67])]" 4] by simp

end
