(* ===== verification/Interp.thy ===== *)
theory Interp
  imports Generate StackHeap NameTable "HOL-Library.Signed_Division"
begin

text \<open>
  The interpreter of the intermediate code (src/lib/wasm/src/intr.rs).

  \<open>interp_state\<close> holds what a run changes: the module (its memory and globals are behind cells
  and are updated in place), the \<open>StackHeap\<close>, and the vector of locals that
  \<open>WasmInvocation::invoke\<close> makes for the function it starts.  A \<open>frame\<close> holds the variables
  of one activation of \<open>_interpret\<close>.  The unchecked accessors give undefined behaviour when
  their index is out of range or their slice dangles.

  Imported functions (\<open>WasmDynFunc\<close>) and the allocator's answer to \<open>Vec::try_reserve\<close> are
  arguments (\<open>host\<close>, \<open>try_reserve\<close>).  A run may not end, so it takes fuel: one unit for
  each code; \<open>None\<close> means that the fuel did not suffice.
\<close>

section \<open>Numeric operations\<close>

primrec rel_op :: "relop \<Rightarrow> 'a::len word \<Rightarrow> 'a word \<Rightarrow> bool" where
  "rel_op R_Eq a b = (a = b)"
| "rel_op R_Ne a b = (a \<noteq> b)"
| "rel_op R_LtS a b = (sint a < sint b)"
| "rel_op R_LtU a b = (a < b)"
| "rel_op R_GtS a b = (sint b < sint a)"
| "rel_op R_GtU a b = (b < a)"
| "rel_op R_LeS a b = (sint a \<le> sint b)"
| "rel_op R_LeU a b = (a \<le> b)"
| "rel_op R_GeS a b = (sint b \<le> sint a)"
| "rel_op R_GeU a b = (b \<le> a)"

definition leading_zeros :: "'a::len word \<Rightarrow> nat" where
  "leading_zeros w = length (takeWhile Not (map (bit w) (rev [0..<LENGTH('a)])))"

definition trailing_zeros :: "'a::len word \<Rightarrow> nat" where
  "trailing_zeros w = length (takeWhile Not (map (bit w) [0..<LENGTH('a)]))"

definition count_ones :: "'a::len word \<Rightarrow> nat" where
  "count_ones w = length (filter (bit w) [0..<LENGTH('a)])"

primrec un_op :: "unop \<Rightarrow> 'a::len word \<Rightarrow> 'a word" where
  "un_op U_Clz a = of_nat (leading_zeros a)"
| "un_op U_Ctz a = of_nat (trailing_zeros a)"
| "un_op U_Popcnt a = of_nat (count_ones a)"

text \<open>
  The shift amounts are reduced modulo the width, and \<open>wrapping_div\<close> and \<open>wrapping_rem\<close>
  truncate towards zero.
\<close>

definition shift_amount :: "'a::len word \<Rightarrow> nat" where
  "shift_amount b = unat b mod LENGTH('a)"

primrec bin_op :: "binop \<Rightarrow> 'a::len word \<Rightarrow> 'a word \<Rightarrow> 'a word" where
  "bin_op B_Add a b = a + b"
| "bin_op B_Sub a b = a - b"
| "bin_op B_Mul a b = a * b"
| "bin_op B_DivS a b = word_of_int (sint a sdiv sint b)"
| "bin_op B_DivU a b = a div b"
| "bin_op B_RemS a b = word_of_int (sint a smod sint b)"
| "bin_op B_RemU a b = a mod b"
| "bin_op B_And a b = (a AND b)"
| "bin_op B_Or a b = (a OR b)"
| "bin_op B_Xor a b = (a XOR b)"
| "bin_op B_Shl a b = push_bit (shift_amount b) a"
| "bin_op B_ShrS a b = signed_drop_bit (shift_amount b) a"
| "bin_op B_ShrU a b = drop_bit (shift_amount b) a"
| "bin_op B_Rotl a b = word_rotl (unat b) a"
| "bin_op B_Rotr a b = word_rotr (unat b) a"

definition is_division :: "binop \<Rightarrow> bool" where
  "is_division b \<longleftrightarrow> b \<in> {B_DivS, B_DivU, B_RemS, B_RemU}"

definition is_rotation :: "binop \<Rightarrow> bool" where
  "is_rotation b \<longleftrightarrow> b \<in> {B_Rotl, B_Rotr}"

text \<open>The 32-bit arms: a division checks its divisor first.\<close>

definition bin32 :: "binop \<Rightarrow> unsafe_value \<Rightarrow> unsafe_value \<Rightarrow> (runtime_error, unsafe_value) outcome" where
  "bin32 b lhs rhs =
     (if is_division b \<and> uv_get_u32 rhs = 0 then Err RtDivideByZero
      else Ok (uv_map_u32 (\<lambda>l. bin_op b l (uv_get_u32 rhs)) lhs))"

text \<open>The 64-bit arms; the rotations read their amount with \<open>get_u32\<close>.\<close>

definition bin64 :: "binop \<Rightarrow> unsafe_value \<Rightarrow> unsafe_value \<Rightarrow> (runtime_error, unsafe_value) outcome" where
  "bin64 b lhs rhs =
     (if is_rotation b then uv_map_u64 (\<lambda>l. bin_op b l (ucast (uv_get_u32 rhs))) lhs
      else and_then (uv_get_u64 rhs) (\<lambda>r.
        if is_division b \<and> r = 0 then Err RtDivideByZero else uv_map_u64 (\<lambda>l. bin_op b l r) lhs))"

definition rel32 :: "relop \<Rightarrow> unsafe_value \<Rightarrow> unsafe_value \<Rightarrow> bool" where
  "rel32 r lhs rhs = rel_op r (uv_get_u32 lhs) (uv_get_u32 rhs)"

definition rel64 :: "relop \<Rightarrow> unsafe_value \<Rightarrow> unsafe_value \<Rightarrow> ('e, bool) outcome" where
  "rel64 r lhs rhs =
     and_then (uv_get_u64 lhs) (\<lambda>l. and_then (uv_get_u64 rhs) (\<lambda>r'. Ok (rel_op r l r')))"

primrec conv_op :: "convop \<Rightarrow> unsafe_value \<Rightarrow> ('e, unsafe_value) outcome" where
  "conv_op C_I32WrapI64 v = and_then (uv_get_u64 v) (\<lambda>w. Ok (W32 (ucast w)))"
| "conv_op C_I64ExtendI32S v = Ok (W64 (scast (uv_get_u32 v)))"
| "conv_op C_I64ExtendI32U v = Ok (W64 (ucast (uv_get_u32 v)))"
| "conv_op C_I32Extend8S v = Ok (W32 (scast (uv_get_u8 v)))"
| "conv_op C_I32Extend16S v = Ok (W32 (scast (uv_get_u16 v)))"
| "conv_op C_I64Extend8S v = Ok (W64 (scast (uv_get_u8 v)))"
| "conv_op C_I64Extend16S v = Ok (W64 (scast (uv_get_u16 v)))"
| "conv_op C_I64Extend32S v = Ok (W64 (scast (uv_get_u32 v)))"

primrec load_op :: "loadop \<Rightarrow> u32 \<Rightarrow> u32 \<Rightarrow> wasm_memory \<Rightarrow> (runtime_error, unsafe_value) outcome" where
  "load_op L_I32Load offset i m = and_then (mem_read_u32 offset i m) (\<lambda>v. Ok (W32 v))"
| "load_op L_I32Load8S offset i m = and_then (mem_read_u8 offset i m) (\<lambda>v. Ok (W32 (scast v)))"
| "load_op L_I32Load8U offset i m = and_then (mem_read_u8 offset i m) (\<lambda>v. Ok (W32 (ucast v)))"
| "load_op L_I32Load16S offset i m = and_then (mem_read_u16 offset i m) (\<lambda>v. Ok (W32 (scast v)))"
| "load_op L_I32Load16U offset i m = and_then (mem_read_u16 offset i m) (\<lambda>v. Ok (W32 (ucast v)))"
| "load_op L_I64Load offset i m = and_then (mem_read_u64 offset i m) (\<lambda>v. Ok (W64 v))"
| "load_op L_I64Load8S offset i m = and_then (mem_read_u8 offset i m) (\<lambda>v. Ok (W64 (scast v)))"
| "load_op L_I64Load8U offset i m = and_then (mem_read_u8 offset i m) (\<lambda>v. Ok (W64 (ucast v)))"
| "load_op L_I64Load16S offset i m = and_then (mem_read_u16 offset i m) (\<lambda>v. Ok (W64 (scast v)))"
| "load_op L_I64Load16U offset i m = and_then (mem_read_u16 offset i m) (\<lambda>v. Ok (W64 (ucast v)))"
| "load_op L_I64Load32S offset i m = and_then (mem_read_u32 offset i m) (\<lambda>v. Ok (W64 (scast v)))"
| "load_op L_I64Load32U offset i m = and_then (mem_read_u32 offset i m) (\<lambda>v. Ok (W64 (ucast v)))"

primrec store_op :: "storeop \<Rightarrow> u32 \<Rightarrow> u32 \<Rightarrow> unsafe_value \<Rightarrow> wasm_memory \<Rightarrow> (runtime_error, wasm_memory) outcome" where
  "store_op S_I32Store offset i v m = mem_write_u32 offset i (uv_get_u32 v) m"
| "store_op S_I32Store8 offset i v m = mem_write_u8 offset i (uv_get_u8 v) m"
| "store_op S_I32Store16 offset i v m = mem_write_u16 offset i (uv_get_u16 v) m"
| "store_op S_I64Store offset i v m = and_then (uv_get_u64 v) (\<lambda>w. mem_write_u64 offset i w m)"
| "store_op S_I64Store8 offset i v m = mem_write_u8 offset i (uv_get_u8 v) m"
| "store_op S_I64Store16 offset i v m = mem_write_u16 offset i (uv_get_u16 v) m"
| "store_op S_I64Store32 offset i v m = mem_write_u32 offset i (uv_get_u32 v) m"


section \<open>State and frames\<close>

datatype locals_ref = EntryLocals | HeapLocals heap_slice

record interp_state =
  is_module :: wasm_module
  is_heap :: stack_heap
  is_entry :: "unsafe_value list"

record frame =
  fr_func_index :: nat
  fr_block :: code_block
  fr_locals :: locals_ref
  fr_values :: heap_slice
  fr_results :: "val_type list"

type_synonym 'a exec = "(runtime_error, 'a \<times> interp_state) outcome"

text \<open>\<open>value_stack.get_unchecked\<close>, \<open>get_unchecked_mut\<close> and the same of \<open>locals\<close>\<close>

definition vs_get :: "frame \<Rightarrow> nat \<Rightarrow> interp_state \<Rightarrow> ('e, unsafe_value) outcome" where
  "vs_get fr i st = slice_get (is_heap st) (fr_values fr) i"

definition vs_set :: "frame \<Rightarrow> nat \<Rightarrow> unsafe_value \<Rightarrow> interp_state \<Rightarrow> ('e, interp_state) outcome" where
  "vs_set fr i v st = and_then (slice_set (fr_values fr) i v (is_heap st)) (\<lambda>h. Ok (st\<lparr>is_heap := h\<rparr>))"

definition local_get :: "frame \<Rightarrow> nat \<Rightarrow> interp_state \<Rightarrow> ('e, unsafe_value) outcome" where
  "local_get fr i st =
     (case fr_locals fr of
        EntryLocals \<Rightarrow> (if i < length (is_entry st) then Ok (is_entry st ! i) else UB OutOfRange)
      | HeapLocals sl \<Rightarrow> slice_get (is_heap st) sl i)"

definition local_set :: "frame \<Rightarrow> nat \<Rightarrow> unsafe_value \<Rightarrow> interp_state \<Rightarrow> ('e, interp_state) outcome" where
  "local_set fr i v st =
     (case fr_locals fr of
        EntryLocals \<Rightarrow>
          (if i < length (is_entry st) then Ok (st\<lparr>is_entry := (is_entry st)[i := v]\<rparr>) else UB OutOfRange)
      | HeapLocals sl \<Rightarrow> and_then (slice_set sl i v (is_heap st)) (\<lambda>h. Ok (st\<lparr>is_heap := h\<rparr>)))"

text \<open>The memory a frame works on, \<open>memory_unchecked(0)\<close>.\<close>

definition memory0 :: "interp_state \<Rightarrow> ('e, wasm_memory) outcome" where
  "memory0 st = (case m_memories (is_module st) of [] \<Rightarrow> UB OutOfRange | m # _ \<Rightarrow> Ok m)"

definition set_memory0 :: "wasm_memory \<Rightarrow> interp_state \<Rightarrow> interp_state" where
  "set_memory0 m st =
     st\<lparr>is_module := (is_module st)\<lparr>m_memories := (m_memories (is_module st))[0 := m]\<rparr>\<rparr>"


section \<open>One code\<close>

datatype flow = Next | Goto nat | Leave nat

definition x_branch :: "bool \<Rightarrow> nat \<Rightarrow> interp_state \<Rightarrow> flow exec" where
  "x_branch cc target st = Ok (if cc then Goto target else Next, st)"

definition x_br_if :: "frame \<Rightarrow> nat \<Rightarrow> nat \<Rightarrow> interp_state \<Rightarrow> flow exec" where
  "x_br_if fr level target st =
     and_then (vs_get fr level st) (\<lambda>v. x_branch (uv_get_bool v) target st)"

definition x_br_table :: "frame \<Rightarrow> nat \<Rightarrow> nat list \<Rightarrow> interp_state \<Rightarrow> flow exec" where
  "x_br_table fr level table st =
     and_then (vs_get fr level st) (\<lambda>v.
     let index = min (usize_sub (length table) 1) (unat (uv_get_u32 v)) in
     case get_at table index of None \<Rightarrow> UB OutOfRange | Some target \<Rightarrow> Ok (Goto target, st))"

definition x_select :: "frame \<Rightarrow> nat \<Rightarrow> interp_state \<Rightarrow> flow exec" where
  "x_select fr level st =
     and_then (vs_get fr (level + 2) st) (\<lambda>cc.
     if uv_get_bool cc then Ok (Next, st)
     else and_then (vs_get fr (level + 1) st) (\<lambda>b.
          and_then (vs_set fr level b st) (\<lambda>st'. Ok (Next, st'))))"

definition x_local_get :: "frame \<Rightarrow> nat \<Rightarrow> nat \<Rightarrow> interp_state \<Rightarrow> flow exec" where
  "x_local_get fr level i st =
     and_then (local_get fr i st) (\<lambda>v. and_then (vs_set fr level v st) (\<lambda>st'. Ok (Next, st')))"

definition x_local_set :: "frame \<Rightarrow> nat \<Rightarrow> nat \<Rightarrow> interp_state \<Rightarrow> flow exec" where
  "x_local_set fr level i st =
     and_then (vs_get fr level st) (\<lambda>v. and_then (local_set fr i v st) (\<lambda>st'. Ok (Next, st')))"

definition x_local_const :: "frame \<Rightarrow> nat \<Rightarrow> unsafe_value \<Rightarrow> interp_state \<Rightarrow> flow exec" where
  "x_local_const fr i v st = and_then (local_set fr i v st) (\<lambda>st'. Ok (Next, st'))"

definition x_global_get :: "frame \<Rightarrow> nat \<Rightarrow> nat \<Rightarrow> interp_state \<Rightarrow> flow exec" where
  "x_global_get fr level i st =
     (case get_at (m_globals (is_module st)) i of
        None \<Rightarrow> UB OutOfRange
      | Some g \<Rightarrow> and_then (vs_set fr level (uv_from_value (global_value g)) st) (\<lambda>st'. Ok (Next, st')))"

definition x_global_set :: "frame \<Rightarrow> nat \<Rightarrow> nat \<Rightarrow> interp_state \<Rightarrow> flow exec" where
  "x_global_set fr level i st =
     (case get_at (m_globals (is_module st)) i of
        None \<Rightarrow> UB OutOfRange
      | Some g \<Rightarrow>
         and_then (vs_get fr level st) (\<lambda>v.
           Ok (Next, st\<lparr>is_module := (is_module st)
                 \<lparr>m_globals := (m_globals (is_module st))[i := global_set_value g v]\<rparr>\<rparr>)))"

definition x_const :: "frame \<Rightarrow> nat \<Rightarrow> unsafe_value \<Rightarrow> interp_state \<Rightarrow> flow exec" where
  "x_const fr level v st = and_then (vs_set fr level v st) (\<lambda>st'. Ok (Next, st'))"

text \<open>Codes that replace the slot at their level, with one and with two operands.\<close>

definition x_unary :: "frame \<Rightarrow> nat \<Rightarrow> (unsafe_value \<Rightarrow> (runtime_error, unsafe_value) outcome)
    \<Rightarrow> interp_state \<Rightarrow> flow exec" where
  "x_unary fr level f st =
     and_then (vs_get fr level st) (\<lambda>v. and_then (f v) (\<lambda>w. x_const fr level w st))"

definition x_binary :: "frame \<Rightarrow> nat \<Rightarrow> (unsafe_value \<Rightarrow> unsafe_value \<Rightarrow> (runtime_error, unsafe_value) outcome)
    \<Rightarrow> interp_state \<Rightarrow> flow exec" where
  "x_binary fr level f st =
     and_then (vs_get fr (level + 1) st) (\<lambda>rhs.
     and_then (vs_get fr level st) (\<lambda>lhs.
     and_then (f lhs rhs) (\<lambda>w. x_const fr level w st)))"

text \<open>The fused conditional branches, on one and on two operands.\<close>

definition x_branch1 :: "frame \<Rightarrow> nat \<Rightarrow> nat \<Rightarrow> (unsafe_value \<Rightarrow> (runtime_error, bool) outcome)
    \<Rightarrow> interp_state \<Rightarrow> flow exec" where
  "x_branch1 fr level target f st =
     and_then (vs_get fr level st) (\<lambda>v. and_then (f v) (\<lambda>cc. x_branch cc target st))"

definition x_branch2 :: "frame \<Rightarrow> nat \<Rightarrow> nat
    \<Rightarrow> (unsafe_value \<Rightarrow> unsafe_value \<Rightarrow> (runtime_error, bool) outcome) \<Rightarrow> interp_state \<Rightarrow> flow exec" where
  "x_branch2 fr level target f st =
     and_then (vs_get fr (level + 1) st) (\<lambda>rhs.
     and_then (vs_get fr level st) (\<lambda>lhs.
     and_then (f lhs rhs) (\<lambda>cc. x_branch cc target st)))"

definition x_load :: "frame \<Rightarrow> nat \<Rightarrow> loadop \<Rightarrow> u32 \<Rightarrow> interp_state \<Rightarrow> flow exec" where
  "x_load fr level k offset st =
     and_then (memory0 st) (\<lambda>m. x_unary fr level (\<lambda>v. load_op k offset (uv_get_u32 v) m) st)"

definition x_store :: "frame \<Rightarrow> nat \<Rightarrow> storeop \<Rightarrow> u32 \<Rightarrow> interp_state \<Rightarrow> flow exec" where
  "x_store fr level k offset st =
     and_then (memory0 st) (\<lambda>m.
     and_then (vs_get fr level st) (\<lambda>index.
     and_then (vs_get fr (level + 1) st) (\<lambda>data.
     and_then (store_op k offset (uv_get_u32 index) data m) (\<lambda>m'.
       Ok (Next, set_memory0 m' st)))))"

definition x_memory_size :: "frame \<Rightarrow> nat \<Rightarrow> interp_state \<Rightarrow> flow exec" where
  "x_memory_size fr level st =
     and_then (memory0 st) (\<lambda>m. x_const fr level (W32 (memory_size m)) st)"

definition x_memory_grow :: "(nat \<Rightarrow> bool) \<Rightarrow> frame \<Rightarrow> nat \<Rightarrow> interp_state \<Rightarrow> flow exec" where
  "x_memory_grow try_reserve fr level st =
     and_then (memory0 st) (\<lambda>m.
     and_then (vs_get fr level st) (\<lambda>v.
     let (r, m') = memory_grow try_reserve (uv_get_u32 v) m in
       x_const fr level (W32 r) (set_memory0 m' st)))"

definition x_memory_copy :: "frame \<Rightarrow> nat \<Rightarrow> interp_state \<Rightarrow> flow exec" where
  "x_memory_copy fr level st =
     and_then (memory0 st) (\<lambda>m.
     and_then (vs_get fr level st) (\<lambda>dest.
     and_then (vs_get fr (level + 1) st) (\<lambda>src.
     and_then (vs_get fr (level + 2) st) (\<lambda>count.
     and_then (memory_copy (unat (uv_get_u32 dest)) (unat (uv_get_u32 src)) (unat (uv_get_u32 count)) m)
       (\<lambda>m'. Ok (Next, set_memory0 m' st))))))"

definition x_memory_fill :: "frame \<Rightarrow> nat \<Rightarrow> interp_state \<Rightarrow> flow exec" where
  "x_memory_fill fr level st =
     and_then (memory0 st) (\<lambda>m.
     and_then (vs_get fr level st) (\<lambda>offset.
     and_then (vs_get fr (level + 1) st) (\<lambda>val.
     and_then (vs_get fr (level + 2) st) (\<lambda>count.
     and_then (memory_write_bytes (unat (uv_get_u32 offset)) (uv_get_u8 val) (unat (uv_get_u32 count)) m)
       (\<lambda>m'. Ok (Next, set_memory0 m' st))))))"

text \<open>
  The match on the mnemonic.  The last case stands for the two calls, which \<open>run\<close> handles.
\<close>

definition exec_code :: "(nat \<Rightarrow> bool) \<Rightarrow> frame \<Rightarrow> imc \<Rightarrow> interp_state \<Rightarrow> flow exec" where
  "exec_code try_reserve fr code st =
     (let level = imc_level code in
      case imc_mnemonic code of
        Unreachable \<Rightarrow> Err RtUnreachable
      | Nop \<Rightarrow> Err RtUnreachable
      | Undefined \<Rightarrow> Err RtUnreachable
      | Block _ \<Rightarrow> Err RtUnreachable
      | End _ \<Rightarrow> Err RtUnreachable
      | Reinterpret _ \<Rightarrow> Ok (Next, st)
      | Br target \<Rightarrow> Ok (Goto target, st)
      | BrIf target \<Rightarrow> x_br_if fr level target st
      | BrTable table \<Rightarrow> x_br_table fr level table st
      | Return \<Rightarrow> Ok (Leave level, st)
      | Select \<Rightarrow> x_select fr level st
      | LocalGet32 i \<Rightarrow> x_local_get fr level i st
      | LocalGet i \<Rightarrow> x_local_get fr level i st
      | LocalSet32 i \<Rightarrow> x_local_set fr level i st
      | LocalTee32 i \<Rightarrow> x_local_set fr level i st
      | LocalSet i \<Rightarrow> x_local_set fr level i st
      | LocalTee i \<Rightarrow> x_local_set fr level i st
      | GlobalGet i \<Rightarrow> x_global_get fr level i st
      | GlobalSet i \<Rightarrow> x_global_set fr level i st
      | Load k offset \<Rightarrow> x_load fr level k offset st
      | Store k offset \<Rightarrow> x_store fr level k offset st
      | MemorySize \<Rightarrow> x_memory_size fr level st
      | MemoryGrow \<Rightarrow> x_memory_grow try_reserve fr level st
      | MemoryCopy \<Rightarrow> x_memory_copy fr level st
      | MemoryFill \<Rightarrow> x_memory_fill fr level st
      | I32Const v \<Rightarrow> x_const fr level (W32 v) st
      | I64Const v \<Rightarrow> x_const fr level (W64 v) st
      | I32Eqz \<Rightarrow> x_unary fr level (\<lambda>v. Ok (uv_from_bool (uv_get_u32 v = 0))) st
      | I32Rel r \<Rightarrow> x_binary fr level (\<lambda>lhs rhs. Ok (uv_from_bool (rel32 r lhs rhs))) st
      | I32Un u \<Rightarrow> x_unary fr level (\<lambda>v. Ok (uv_map_u32 (un_op u) v)) st
      | I32Bin b \<Rightarrow> x_binary fr level (bin32 b) st
      | I64Eqz \<Rightarrow> x_unary fr level (\<lambda>v. and_then (uv_get_u64 v) (\<lambda>w. Ok (uv_from_bool (w = 0)))) st
      | I64Rel r \<Rightarrow> x_binary fr level (\<lambda>lhs rhs. and_then (rel64 r lhs rhs) (\<lambda>c. Ok (uv_from_bool c))) st
      | I64Un u \<Rightarrow> x_unary fr level (uv_map_u64 (un_op u)) st
      | I64Bin b \<Rightarrow> x_binary fr level (bin64 b) st
      | Conv c \<Rightarrow> x_unary fr level (conv_op c) st
      | FusedI32SetConst i v \<Rightarrow> x_local_const fr i (W32 v) st
      | FusedI32AddI v \<Rightarrow> x_unary fr level (\<lambda>l. Ok (uv_map_u32 (\<lambda>a. a + v) l)) st
      | FusedI32SubI v \<Rightarrow> x_unary fr level (\<lambda>l. Ok (uv_map_u32 (\<lambda>a. a - v) l)) st
      | FusedI32AndI v \<Rightarrow> x_unary fr level (\<lambda>l. Ok (uv_map_u32 (\<lambda>a. a AND v) l)) st
      | FusedI32OrI v \<Rightarrow> x_unary fr level (\<lambda>l. Ok (uv_map_u32 (\<lambda>a. a OR v) l)) st
      | FusedI32XorI v \<Rightarrow> x_unary fr level (\<lambda>l. Ok (uv_map_u32 (\<lambda>a. a XOR v) l)) st
      | FusedI32ShlI v \<Rightarrow> x_unary fr level (\<lambda>l. Ok (uv_map_u32 (\<lambda>a. push_bit (shift_amount v) a) l)) st
      | FusedI32ShrUI v \<Rightarrow> x_unary fr level (\<lambda>l. Ok (uv_map_u32 (\<lambda>a. drop_bit (shift_amount v) a) l)) st
      | FusedI32ShrSI v \<Rightarrow> x_unary fr level (\<lambda>l. Ok (uv_map_u32 (\<lambda>a. signed_drop_bit (shift_amount v) a) l)) st
      | FusedI64SetConst i v \<Rightarrow> x_local_const fr i (W64 v) st
      | FusedI64AddI v \<Rightarrow> x_unary fr level (uv_map_u64 (\<lambda>a. a + v)) st
      | FusedI64SubI v \<Rightarrow> x_unary fr level (uv_map_u64 (\<lambda>a. a - v)) st
      | FusedI32BrZ target \<Rightarrow> x_branch1 fr level target (\<lambda>v. Ok (uv_get_u32 v = 0)) st
      | FusedI32Br r target \<Rightarrow> x_branch2 fr level target (\<lambda>lhs rhs. Ok (rel32 r lhs rhs)) st
      | FusedI64BrZ target \<Rightarrow> x_branch1 fr level target (\<lambda>v. and_then (uv_get_u64 v) (\<lambda>w. Ok (w = 0))) st
      | FusedI64BrEq target \<Rightarrow> x_branch2 fr level target (rel64 R_Eq) st
      | FusedI64BrNe target \<Rightarrow> x_branch2 fr level target (rel64 R_Ne) st
      | _ \<Rightarrow> Ok (Next, st))"


section \<open>Errors\<close>

record wasm_runtime_error =
  re_kind :: runtime_error
  re_file_position :: nat
  re_function :: nat
  re_function_name :: "u8 list option"
  re_position :: nat
  re_opcode :: opcode

definition codeblock :: "wasm_module \<Rightarrow> nat \<Rightarrow> code_block option" where
  "codeblock md i = (case get_at (m_functions md) i of None \<Rightarrow> None | Some f \<Rightarrow> f_code_block f)"

definition interp_error :: "wasm_module \<Rightarrow> nat \<Rightarrow> imc \<Rightarrow> runtime_error \<Rightarrow> wasm_runtime_error" where
  "interp_error md func_index code kind =
     \<lparr>re_kind = kind,
      re_file_position =
        usize_add (case codeblock md func_index of None \<Rightarrow> 0 | Some cb \<Rightarrow> cb_file_position cb) (imc_position code),
      re_function = func_index,
      re_function_name = (case m_names md of None \<Rightarrow> None | Some nm \<Rightarrow> name_func_by_index nm func_index),
      re_position = imc_position code,
      re_opcode = imc_opcode code\<rparr>"

text \<open>\<open>impl From<WasmRuntimeErrorKind> for WasmRuntimeError\<close>\<close>

definition error_from_kind :: "runtime_error \<Rightarrow> wasm_runtime_error" where
  "error_from_kind kind =
     \<lparr>re_kind = kind, re_file_position = 0, re_function = 0, re_function_name = None,
      re_position = 0, re_opcode = Single Op_Unreachable\<rparr>"


section \<open>Calls\<close>

text \<open>A run with fuel.\<close>

type_synonym 'a fueled = "(wasm_runtime_error, 'a \<times> interp_state) outcome option"

definition fuel_then :: "'a fueled \<Rightarrow> ('a \<times> interp_state \<Rightarrow> 'b fueled) \<Rightarrow> 'b fueled" where
  "fuel_then m f =
     (case m of None \<Rightarrow> None
      | Some (Ok r) \<Rightarrow> f r
      | Some (Err e) \<Rightarrow> Some (Err e)
      | Some Panic \<Rightarrow> Some Panic
      | Some (UB u) \<Rightarrow> Some (UB u))"

text \<open>Bulk access to a slice: the elements \<open>i\<close> up to \<open>i + n\<close>.\<close>

definition slice_read :: "stack_heap \<Rightarrow> heap_slice \<Rightarrow> nat \<Rightarrow> nat \<Rightarrow> ('e, unsafe_value list) outcome" where
  "slice_read h sl i n =
     (if n = 0 then Ok []
      else if sl_generation sl \<noteq> sh_generation h then UB DanglingRef
      else if i + n \<le> sl_len sl \<and> sl_offset sl + i + n \<le> length (sh_slots h)
      then Ok (take n (drop (sl_offset sl + i) (sh_slots h)))
      else UB OutOfRange)"

definition slice_write :: "heap_slice \<Rightarrow> nat \<Rightarrow> unsafe_value list \<Rightarrow> stack_heap \<Rightarrow> ('e, stack_heap) outcome" where
  "slice_write sl i xs h =
     (if xs = [] then Ok h
      else if sl_generation sl \<noteq> sh_generation h then UB DanglingRef
      else if i + length xs \<le> sl_len sl \<and> sl_offset sl + i + length xs \<le> length (sh_slots h)
      then Ok (h\<lparr>sh_slots := take (sl_offset sl + i) (sh_slots h) @ xs
                                @ drop (sl_offset sl + i + length xs) (sh_slots h)\<rparr>)
      else UB OutOfRange)"

text \<open>
  The local variables of a callee.  When the caller's value stack is large enough they are its tail
  from the first argument on; otherwise they are allocated and filled by
  \<open>locals.iter_mut().skip(stack_under).zip(value_stack.iter())\<close>.
\<close>

definition initial_value_stack_size :: nat where
  "initial_value_stack_size = 512"

definition callee_locals ::
    "heap_slice \<Rightarrow> nat \<Rightarrow> nat \<Rightarrow> stack_heap \<Rightarrow> ('e, heap_slice \<times> stack_heap) outcome" where
  "callee_locals values stack_under local_len h =
     (if usize_add stack_under local_len \<le> sl_len values
      then (if sl_generation values \<noteq> sh_generation h then UB DanglingRef
            else if stack_under \<le> sl_len values
            then Ok (\<lparr>sl_generation = sl_generation values, sl_offset = sl_offset values + stack_under,
                      sl_len = sl_len values - stack_under\<rparr>, h)
            else UB OutOfRange)
      else
        and_then (heap_alloc (max initial_value_stack_size local_len) h) (\<lambda>(locals, h1).
        let n = min (sl_len locals - stack_under) (sl_len values) in
        and_then (slice_read h1 values 0 n) (\<lambda>vs.
        and_then (slice_write locals stack_under vs h1) (\<lambda>h2.
          Ok (locals, h2)))))"

text \<open>\<open>(0..local_types.len()).zip(locals.iter_mut().skip(param_len))\<close>: clears the declared locals.\<close>

definition clear_locals :: "heap_slice \<Rightarrow> nat \<Rightarrow> nat \<Rightarrow> stack_heap \<Rightarrow> ('e, stack_heap) outcome" where
  "clear_locals locals param_len n h =
     slice_write locals param_len (replicate (min n (sl_len locals - param_len)) uv_zero) h"

text \<open>The head of \<open>_interpret\<close>: a fresh value stack, and the reference to memory 0.\<close>

definition enter :: "nat \<Rightarrow> code_block \<Rightarrow> locals_ref \<Rightarrow> val_type list \<Rightarrow> interp_state
    \<Rightarrow> ('e, frame \<times> interp_state) outcome" where
  "enter func_index cb locals results st =
     and_then (heap_alloc (cb_max_stack cb) (is_heap st)) (\<lambda>(values, h1).
     and_then (slice_write values 0 (replicate (sl_len values) uv_zero) h1) (\<lambda>h2.
     and_then (memory0 st) (\<lambda>_.
       Ok (\<lparr>fr_func_index = func_index, fr_block = cb, fr_locals = locals, fr_values = values,
            fr_results = results\<rparr>, st\<lparr>is_heap := h2\<rparr>))))"

text \<open>The end of \<open>_interpret\<close>.\<close>

definition finish :: "frame \<Rightarrow> nat \<Rightarrow> interp_state \<Rightarrow> ('e, wasm_value option \<times> interp_state) outcome" where
  "finish fr level st =
     (case fr_results fr of
        [] \<Rightarrow> Ok (None, st)
      | t # _ \<Rightarrow>
         and_then (vs_get fr level st) (\<lambda>v. and_then (uv_get_by_type t v) (\<lambda>w. Ok (Some w, st))))"

type_synonym host = "nat \<Rightarrow> wasm_module \<Rightarrow> unsafe_value list \<Rightarrow> (runtime_error, wasm_value \<times> wasm_module) outcome"

text \<open>A call of an imported function.\<close>

definition call_import :: "host \<Rightarrow> wasm_function \<Rightarrow> nat \<Rightarrow> frame \<Rightarrow> nat \<Rightarrow> interp_state
    \<Rightarrow> (runtime_error, interp_state) outcome" where
  "call_import host target f fr stack_under st =
     and_then (slice_read (is_heap st) (fr_values fr) stack_under (length (param_types (f_type target)))) (\<lambda>args.
     and_then (host f (is_module st) args) (\<lambda>(result, md).
     let st1 = st\<lparr>is_module := md\<rparr> in
     case result_types (f_type target) of
       [] \<Rightarrow> Ok st1
     | t # _ \<Rightarrow>
         (if is_valid_type result t then vs_set fr stack_under (uv_from_value result) st1
          else Err RtTypeMismatch)))"

text \<open>
  \<open>WasmInterpreter::call\<close>.  \<open>enter_run\<close> is the run of the callee from its first code.  The
  heap is restored by \<open>snapshot\<close>.
\<close>

definition call_function ::
    "host \<Rightarrow> (frame \<Rightarrow> interp_state \<Rightarrow> (wasm_value option) fueled) \<Rightarrow> wasm_function \<Rightarrow> imc \<Rightarrow> frame
       \<Rightarrow> interp_state \<Rightarrow> unit fueled" where
  "call_function host enter_run target code fr st =
     (let err = interp_error (is_module st) (fr_func_index fr) code;
          param_len = length (param_types (f_type target));
          stack_under = usize_sub (imc_level code) param_len
      in case f_code_block target of
        Some cb \<Rightarrow>
          fuel_then
            (Some (and_then (callee_locals (fr_values fr) stack_under
                              (usize_add param_len (length (cb_local_types cb))) (is_heap st)) (\<lambda>(locals, h1).
                   and_then (clear_locals locals param_len (length (cb_local_types cb)) h1) (\<lambda>h2.
                     enter (f_index target) cb (HeapLocals locals) (result_types (f_type target))
                       (st\<lparr>is_heap := h2\<rparr>)))))
            (\<lambda>(callee, st1). fuel_then (enter_run callee st1) (\<lambda>(result, st2).
               Some (and_then
                 (case result of None \<Rightarrow> Ok st2
                  | Some w \<Rightarrow> vs_set fr stack_under (uv_from_value w) st2)
                 (\<lambda>st3. Ok ((), st3\<lparr>is_heap := heap_restore (is_heap st) (is_heap st3)\<rparr>)))))
      | None \<Rightarrow>
          (case f_dlink target of
             Some f \<Rightarrow> Some (and_then (map_err err (call_import host target f fr stack_under st)) (\<lambda>st'. Ok ((), st')))
           | None \<Rightarrow> Some (Err (err RtNoMethod))))"

text \<open>The function a call goes to.\<close>

definition call_target :: "frame \<Rightarrow> imc \<Rightarrow> interp_state \<Rightarrow> (runtime_error, wasm_function) outcome" where
  "call_target fr code st =
     (case imc_mnemonic code of
        Call i \<Rightarrow> (case get_at (m_functions (is_module st)) i of None \<Rightarrow> UB OutOfRange | Some f \<Rightarrow> Ok f)
      | CallIndirect type_index \<Rightarrow>
          and_then (vs_get fr (imc_level code) st) (\<lambda>v.
          and_then (ok_or RtNoMethod (elem_get (is_module st) (unat (scast (uv_get_u32 v) :: u64)))) (\<lambda>f.
          and_then (guard (f_type_index f = type_index) RtTypeMismatch) (\<lambda>_. Ok f)))
      | _ \<Rightarrow> Err RtNoMethod)"


section \<open>Runs\<close>

primrec run :: "host \<Rightarrow> (nat \<Rightarrow> bool) \<Rightarrow> nat \<Rightarrow> frame \<Rightarrow> nat \<Rightarrow> interp_state \<Rightarrow> (wasm_value option) fueled" where
  "run host try_reserve 0 = (\<lambda>fr pc st. None)"
| "run host try_reserve (Suc n) = (\<lambda>fr pc st.
     case get_at (cb_int_codes (fr_block fr)) pc of
       None \<Rightarrow> Some (finish fr 0 st)
     | Some code \<Rightarrow>
         let err = interp_error (is_module st) (fr_func_index fr) code in
         if is_call (imc_mnemonic code) then
           fuel_then (Some (map_err err (and_then (call_target fr code st) (\<lambda>f. Ok (f, st))))) (\<lambda>(f, st1).
           fuel_then (call_function host (\<lambda>fr' st'. run host try_reserve n fr' 0 st') f code fr st1) (\<lambda>(_, st2).
             run host try_reserve n fr (pc + 1) st2))
         else
           fuel_then (Some (map_err err (exec_code try_reserve fr code st))) (\<lambda>(flow, st1).
             case flow of
               Next \<Rightarrow> run host try_reserve n fr (pc + 1) st1
             | Goto target \<Rightarrow> run host try_reserve n fr target st1
             | Leave level \<Rightarrow> Some (finish fr level st1)))"

declare run.simps(2) [simp del]

text \<open>\<open>WasmInvocation::invoke\<close>: the parameters are checked one by one.\<close>

primrec set_params :: "val_type list \<Rightarrow> nat \<Rightarrow> wasm_value list \<Rightarrow> unsafe_value list
    \<Rightarrow> (wasm_runtime_error, unsafe_value list) outcome" where
  "set_params [] index params locals = Ok locals"
| "set_params (t # ts) index params locals =
     (case get_at params index of
        None \<Rightarrow> Err (error_from_kind RtInvalidParameter)
      | Some param \<Rightarrow>
         (if \<not> is_valid_type param t then Err (error_from_kind RtInvalidParameter)
          else set_params ts (index + 1) params (locals[index := uv_from_value param])))"

definition invoke :: "host \<Rightarrow> (nat \<Rightarrow> bool) \<Rightarrow> nat \<Rightarrow> wasm_module \<Rightarrow> wasm_function \<Rightarrow> wasm_value list
    \<Rightarrow> (wasm_value option) fueled" where
  "invoke host try_reserve fuel md function params =
     (case f_code_block function of
        None \<Rightarrow> Some (Err (error_from_kind RtNoMethod))
      | Some cb \<Rightarrow>
         let local_len = max initial_value_stack_size
               (usize_add (length (param_types (f_type function))) (length (cb_local_types cb))) in
         fuel_then
           (Some (and_then (with_capacity 8 local_len) (\<lambda>_.
                  and_then (set_params (param_types (f_type function)) 0 params (replicate local_len uv_zero)) (\<lambda>locals.
                    enter (f_index function) cb EntryLocals (result_types (f_type function))
                      \<lparr>is_module = md, is_heap = heap_with_capacity 0x10000, is_entry = locals\<rparr>))))
           (\<lambda>(fr, st). run host try_reserve fuel fr 0 st))"


section \<open>Evaluation\<close>

lemma fuel_then_simps [simp]:
  "fuel_then None f = None" "fuel_then (Some (Ok r)) f = f r" "fuel_then (Some (Err e)) f = Some (Err e)"
  "fuel_then (Some Panic) f = Some Panic" "fuel_then (Some (UB u)) f = Some (UB u)"
  by (simp_all add: fuel_then_def)

lemma fuel_then_weak_cong: "m = m' \<Longrightarrow> fuel_then m f = fuel_then m' f"
  by simp

lemmas run_numeral = run.simps(2) [of host tr "pred_numeral k" for host tr k, folded numeral_eq_Suc]

lemmas exec_eval = exec_code_def x_branch_def x_br_if_def x_br_table_def x_select_def
  x_local_get_def x_local_set_def x_local_const_def x_global_get_def x_global_set_def x_const_def
  x_unary_def x_binary_def x_branch1_def x_branch2_def x_load_def x_store_def x_memory_size_def
  x_memory_grow_def x_memory_copy_def x_memory_fill_def vs_get_def vs_set_def local_get_def
  local_set_def slice_get_def slice_set_def uv_map_u32_def uv_from_bool_def uv_get_bool_def
  bin32_def is_division_def rel32_def is_call_def get_at_def finish_def imc_new_def memory0_def
  run_numeral run.simps(2) Let_def

lemmas eval_congs = and_then_weak_cong fuel_then_weak_cong

end
