(* ===== verification/InterpSafety.thy ===== *)
theory InterpSafety
  imports Interp
begin

text \<open>
  What the interpreter may rely on: in a frame whose slices are large enough, a code that keeps the
  verifier's promise stays inside the value stack, the locals, the globals and the memory.  For leaf
  functions this lifts to whole runs.
\<close>

section \<open>Frames that fit\<close>

definition slice_ok :: "stack_heap \<Rightarrow> heap_slice \<Rightarrow> bool" where
  "slice_ok h sl \<longleftrightarrow>
     sl_generation sl = sh_generation h \<and> sl_offset sl + sl_len sl \<le> length (sh_slots h)"

definition frame_ok :: "frame \<Rightarrow> interp_state \<Rightarrow> bool" where
  "frame_ok fr st \<longleftrightarrow>
     slice_ok (is_heap st) (fr_values fr) \<and> sl_len (fr_values fr) = cb_max_stack (fr_block fr) \<and>
     (case fr_locals fr of
        EntryLocals \<Rightarrow> length (cb_local_types (fr_block fr)) \<le> length (is_entry st)
      | HeapLocals sl \<Rightarrow>
          slice_ok (is_heap st) sl \<and> length (cb_local_types (fr_block fr)) \<le> sl_len sl)"

text \<open>
  The module of the run: it has the globals and functions of the module the code was generated for,
  and memory 0 has at least one page.
\<close>

definition module_ok :: "wasm_module \<Rightarrow> interp_state \<Rightarrow> bool" where
  "module_ok md st \<longleftrightarrow>
     length (m_globals (is_module st)) = length (m_globals md) \<and>
     (\<exists>m ms. m_memories (is_module st) = m # ms \<and> memory_inv m \<and> mem_data m \<noteq> [])"

definition run_ok :: "wasm_module \<Rightarrow> frame \<Rightarrow> interp_state \<Rightarrow> bool" where
  "run_ok md fr st \<longleftrightarrow> frame_ok fr st \<and> module_ok md st"

text \<open>
  A result that stays inside the language except that it may read bytes of a slot that were never
  written.
\<close>

fun confined :: "('a \<Rightarrow> bool) \<Rightarrow> ('e, 'a) outcome \<Rightarrow> bool" where
  "confined P (Ok x) = P x"
| "confined P (Err e) = True"
| "confined P Panic = False"
| "confined P (UB u) = (u = UninitRead)"

lemma confined_and_then:
  "confined P (and_then m f) \<longleftrightarrow> confined (\<lambda>x. confined P (f x)) m"
  by (cases m) auto

lemma confined_mono: "confined P m \<Longrightarrow> (\<And>x. P x \<Longrightarrow> Q x) \<Longrightarrow> confined Q m"
  by (cases m) auto

lemma confined_map_err [simp]: "confined P (map_err g m) = confined P m"
  by (cases m) auto

lemma slice_get_ok:
  "slice_ok h sl \<Longrightarrow> i < sl_len sl \<Longrightarrow> slice_get h sl i = Ok (sh_slots h ! (sl_offset sl + i))"
  by (simp add: slice_ok_def slice_get_def)

lemma slice_set_ok:
  "slice_ok h sl \<Longrightarrow> i < sl_len sl \<Longrightarrow>
     slice_set sl i v h = Ok (h\<lparr>sh_slots := (sh_slots h)[sl_offset sl + i := v]\<rparr>)"
  by (simp add: slice_ok_def slice_set_def)

lemma slice_ok_update [simp]: "slice_ok (h\<lparr>sh_slots := (sh_slots h)[k := v]\<rparr>) sl = slice_ok h sl"
  by (simp add: slice_ok_def)

lemma run_ok_heap_update:
  "run_ok md fr (st\<lparr>is_heap := (is_heap st)\<lparr>sh_slots := (sh_slots (is_heap st))[k := v]\<rparr>\<rparr>) = run_ok md fr st"
  by (auto simp: run_ok_def frame_ok_def module_ok_def split: locals_ref.splits)

lemma run_ok_values:
  "run_ok md fr st \<Longrightarrow> slice_ok (is_heap st) (fr_values fr) \<and> sl_len (fr_values fr) = cb_max_stack (fr_block fr)"
  by (simp add: run_ok_def frame_ok_def)

lemma run_ok_locals:
  "run_ok md fr st \<Longrightarrow> fr_locals fr = HeapLocals sl \<Longrightarrow>
     slice_ok (is_heap st) sl \<and> length (cb_local_types (fr_block fr)) \<le> sl_len sl"
  by (simp add: run_ok_def frame_ok_def)

lemma vs_get_confined:
  assumes "run_ok md fr st" "i < cb_max_stack (fr_block fr)" "\<And>v. P v"
  shows "confined P (vs_get fr i st)"
  using assms by (simp add: run_ok_def frame_ok_def vs_get_def slice_get_ok)

lemma vs_set_confined:
  assumes "run_ok md fr st" "i < cb_max_stack (fr_block fr)" "\<And>st'. run_ok md fr st' \<Longrightarrow> P st'"
  shows "confined P (vs_set fr i v st)"
  using run_ok_values [OF assms(1)] assms by (simp add: vs_set_def slice_set_ok run_ok_heap_update)

lemma local_get_confined:
  assumes "run_ok md fr st" "i < length (cb_local_types (fr_block fr))" "\<And>v. P v"
  shows "confined P (local_get fr i st)"
  using assms
  by (auto simp: run_ok_def frame_ok_def local_get_def slice_get_ok split: locals_ref.splits)

lemma local_set_confined:
  assumes "run_ok md fr st" "i < length (cb_local_types (fr_block fr))" "\<And>st'. run_ok md fr st' \<Longrightarrow> P st'"
  shows "confined P (local_set fr i v st)"
proof (cases "fr_locals fr")
  case EntryLocals
  with assms show ?thesis by (auto simp: local_set_def run_ok_def frame_ok_def module_ok_def)
next
  case (HeapLocals sl)
  with run_ok_locals [OF assms(1) HeapLocals] assms show ?thesis
    by (simp add: local_set_def slice_set_ok run_ok_heap_update)
qed

lemma memory0_confined:
  assumes "run_ok md fr st" "\<And>m. memory_inv m \<Longrightarrow> mem_data m \<noteq> [] \<Longrightarrow> P m"
  shows "confined P (memory0 st)"
  using assms by (auto simp: run_ok_def module_ok_def memory0_def)

lemma set_memory0_ok:
  assumes "run_ok md fr st" "memory_inv m" "mem_data m \<noteq> []"
  shows "run_ok md fr (set_memory0 m st)"
  using assms
  by (auto simp: run_ok_def module_ok_def frame_ok_def set_memory0_def split: locals_ref.splits)

lemma load_op_confined:
  assumes "memory_inv m" "mem_data m \<noteq> []" "\<And>v. P v"
  shows "confined P (load_op k off i m)"
  using memory_inv_nonempty [OF assms(1,2)] assms(3)
  by (cases k) (simp_all add: confined_and_then acc8.rd_eq acc16.rd_eq acc32.rd_eq acc64.rd_eq)

lemma store_op_confined:
  assumes "memory_inv m" "mem_data m \<noteq> []" "\<And>m'. memory_inv m' \<Longrightarrow> mem_data m' \<noteq> [] \<Longrightarrow> P m'"
  shows "confined P (store_op k off i v m)"
proof -
  have len: "65536 \<le> length (mem_data m)" using memory_inv_nonempty [OF assms(1,2)] .
  have P: "P m'" if "length (mem_data m') = length (mem_data m)" for m'
    using that assms by (auto simp: memory_inv_def simp flip: length_greater_0_conv)
  show ?thesis
    using len
    by (cases k; cases v) (auto simp: acc8.wr_eq acc16.wr_eq acc32.wr_eq acc64.wr_eq intro!: P)
qed


section \<open>The codes\<close>

lemma x_const_confined:
  assumes "run_ok md fr st" "level < cb_max_stack (fr_block fr)" "\<And>st'. run_ok md fr st' \<Longrightarrow> P (Next, st')"
  shows "confined P (x_const fr level v st)"
  unfolding x_const_def confined_and_then by (rule vs_set_confined [OF assms(1,2)]) (simp add: assms(3))

lemma x_unary_confined:
  assumes "run_ok md fr st" "level < cb_max_stack (fr_block fr)" "\<And>v. confined (\<lambda>_. True) (f v)"
    "\<And>st'. run_ok md fr st' \<Longrightarrow> P (Next, st')"
  shows "confined P (x_unary fr level f st)"
  unfolding x_unary_def confined_and_then
  by (rule vs_get_confined [OF assms(1,2)], rule confined_mono [OF assms(3)],
      rule x_const_confined [OF assms(1,2)], rule assms(4))

lemma x_binary_confined:
  assumes "run_ok md fr st" "level + 1 < cb_max_stack (fr_block fr)"
    "\<And>v w. confined (\<lambda>_. True) (f v w)" "\<And>st'. run_ok md fr st' \<Longrightarrow> P (Next, st')"
  shows "confined P (x_binary fr level f st)"
proof -
  have l: "level < cb_max_stack (fr_block fr)" using assms(2) by simp
  show ?thesis
    unfolding x_binary_def confined_and_then
    by (rule vs_get_confined [OF assms(1,2)], rule vs_get_confined [OF assms(1) l],
        rule confined_mono [OF assms(3)], rule x_const_confined [OF assms(1) l], rule assms(4))
qed

lemma x_branch1_confined:
  assumes "run_ok md fr st" "level < cb_max_stack (fr_block fr)" "\<And>v. confined (\<lambda>_. True) (f v)"
    "P (Next, st)" "P (Goto target, st)"
  shows "confined P (x_branch1 fr level target f st)"
  unfolding x_branch1_def confined_and_then
  by (rule vs_get_confined [OF assms(1,2)], rule confined_mono [OF assms(3)])
    (simp add: x_branch_def assms(4,5))

lemma x_branch2_confined:
  assumes "run_ok md fr st" "level + 1 < cb_max_stack (fr_block fr)"
    "\<And>v w. confined (\<lambda>_. True) (f v w)" "P (Next, st)" "P (Goto target, st)"
  shows "confined P (x_branch2 fr level target f st)"
proof -
  have l: "level < cb_max_stack (fr_block fr)" using assms(2) by simp
  show ?thesis
    unfolding x_branch2_def confined_and_then
    by (rule vs_get_confined [OF assms(1,2)], rule vs_get_confined [OF assms(1) l],
        rule confined_mono [OF assms(3)])
      (simp add: x_branch_def assms(4,5))
qed

lemma x_br_if_confined:
  assumes "run_ok md fr st" "level < cb_max_stack (fr_block fr)" "P (Next, st)" "P (Goto target, st)"
  shows "confined P (x_br_if fr level target st)"
  unfolding x_br_if_def confined_and_then
  by (rule vs_get_confined [OF assms(1,2)]) (simp add: x_branch_def assms(3,4))

lemma x_br_table_confined:
  assumes "run_ok md fr st" "level < cb_max_stack (fr_block fr)" "table \<noteq> []"
    "\<And>t. t \<in> set table \<Longrightarrow> P (Goto t, st)"
  shows "confined P (x_br_table fr level table st)"
proof -
  have idx: "min (usize_sub (length table) (Suc 0)) n < length table" for n
    using assms(3) by (cases table) (auto simp: usize_sub_def)
  show ?thesis
    unfolding x_br_table_def confined_and_then
    by (rule vs_get_confined [OF assms(1,2)]) (simp add: Let_def get_at_def idx assms(4))
qed

lemma x_select_confined:
  assumes "run_ok md fr st" "level + 2 < cb_max_stack (fr_block fr)" "\<And>st'. run_ok md fr st' \<Longrightarrow> P (Next, st')"
  shows "confined P (x_select fr level st)"
proof -
  have l: "level < cb_max_stack (fr_block fr)" "level + 1 < cb_max_stack (fr_block fr)"
    using assms(2) by simp_all
  have k: "confined P (and_then (vs_get fr (level + 1) st) (\<lambda>b.
      and_then (vs_set fr level b st) (\<lambda>st'. Ok (Next, st'))) :: flow exec)"
    unfolding confined_and_then
    by (rule vs_get_confined [OF assms(1) l(2)], rule vs_set_confined [OF assms(1) l(1)]) (simp add: assms(3))
  show ?thesis
    unfolding x_select_def confined_and_then [of P "vs_get fr (level + 2) st"]
    by (rule vs_get_confined [OF assms(1,2)]) (use k assms(1,3) in simp)
qed

lemma x_local_get_confined:
  assumes "run_ok md fr st" "level < cb_max_stack (fr_block fr)" "i < length (cb_local_types (fr_block fr))"
    "\<And>st'. run_ok md fr st' \<Longrightarrow> P (Next, st')"
  shows "confined P (x_local_get fr level i st)"
  unfolding x_local_get_def confined_and_then
  by (rule local_get_confined [OF assms(1,3)], rule vs_set_confined [OF assms(1,2)]) (simp add: assms(4))

lemma x_local_set_confined:
  assumes "run_ok md fr st" "level < cb_max_stack (fr_block fr)" "i < length (cb_local_types (fr_block fr))"
    "\<And>st'. run_ok md fr st' \<Longrightarrow> P (Next, st')"
  shows "confined P (x_local_set fr level i st)"
  unfolding x_local_set_def confined_and_then
  by (rule vs_get_confined [OF assms(1,2)], rule local_set_confined [OF assms(1,3)]) (simp add: assms(4))

lemma x_local_const_confined:
  assumes "run_ok md fr st" "i < length (cb_local_types (fr_block fr))"
    "\<And>st'. run_ok md fr st' \<Longrightarrow> P (Next, st')"
  shows "confined P (x_local_const fr i v st)"
  unfolding x_local_const_def confined_and_then
  by (rule local_set_confined [OF assms(1,2)]) (simp add: assms(3))

lemma run_ok_globals: "run_ok md fr st \<Longrightarrow> length (m_globals (is_module st)) = length (m_globals md)"
  by (simp add: run_ok_def module_ok_def)

lemma x_global_get_confined:
  assumes "run_ok md fr st" "level < cb_max_stack (fr_block fr)" "i < length (m_globals md)"
    "\<And>st'. run_ok md fr st' \<Longrightarrow> P (Next, st')"
  shows "confined P (x_global_get fr level i st)"
  using assms(3) run_ok_globals [OF assms(1)]
  by (simp add: x_global_get_def get_at_def confined_and_then vs_set_confined [OF assms(1,2)] assms(4))

lemma x_global_set_confined:
  assumes "run_ok md fr st" "level < cb_max_stack (fr_block fr)" "i < length (m_globals md)"
    "\<And>st'. run_ok md fr st' \<Longrightarrow> P (Next, st')"
  shows "confined P (x_global_set fr level i st)"
proof -
  have "run_ok md fr (st\<lparr>is_module := (is_module st)\<lparr>m_globals := (m_globals (is_module st))[i := g]\<rparr>\<rparr>)" for g
    using assms(1) by (auto simp: run_ok_def frame_ok_def module_ok_def split: locals_ref.splits)
  with assms(3) run_ok_globals [OF assms(1)] show ?thesis
    by (simp add: x_global_set_def get_at_def confined_and_then vs_get_confined [OF assms(1,2)] assms(4))
qed

lemma x_load_confined:
  assumes "run_ok md fr st" "level < cb_max_stack (fr_block fr)" "\<And>st'. run_ok md fr st' \<Longrightarrow> P (Next, st')"
  shows "confined P (x_load fr level k off st)"
  unfolding x_load_def confined_and_then
  by (rule memory0_confined [OF assms(1)], rule x_unary_confined [OF assms(1,2)])
    (simp_all add: load_op_confined assms(3))

lemma x_store_confined:
  assumes "run_ok md fr st" "level + 1 < cb_max_stack (fr_block fr)" "\<And>st'. run_ok md fr st' \<Longrightarrow> P (Next, st')"
  shows "confined P (x_store fr level k off st)"
proof -
  have l: "level < cb_max_stack (fr_block fr)" using assms(2) by simp
  show ?thesis
    unfolding x_store_def confined_and_then
    by (rule memory0_confined [OF assms(1)], rule vs_get_confined [OF assms(1) l],
        rule vs_get_confined [OF assms(1,2)])
      (simp add: store_op_confined set_memory0_ok [OF assms(1)] assms(3))
qed

lemma x_memory_size_confined:
  assumes "run_ok md fr st" "level < cb_max_stack (fr_block fr)" "\<And>st'. run_ok md fr st' \<Longrightarrow> P (Next, st')"
  shows "confined P (x_memory_size fr level st)"
  unfolding x_memory_size_def confined_and_then
  by (rule memory0_confined [OF assms(1)], rule x_const_confined [OF assms(1,2)],
      rule assms(3))

lemma memory_grow_keeps:
  assumes "memory_grow tr d m = (r, m')" "memory_inv m" "mem_data m \<noteq> []"
  shows "memory_inv m' \<and> mem_data m' \<noteq> []"
  using assms by (auto simp: memory_grow_def memory_inv_def Let_def split: if_splits)

lemma x_memory_grow_confined:
  assumes "run_ok md fr st" "level < cb_max_stack (fr_block fr)" "\<And>st'. run_ok md fr st' \<Longrightarrow> P (Next, st')"
  shows "confined P (x_memory_grow tr fr level st)"
  unfolding x_memory_grow_def confined_and_then
  by (rule memory0_confined [OF assms(1)], rule vs_get_confined [OF assms(1,2)])
    (auto simp: Let_def split: prod.splits dest!: memory_grow_keeps
      intro!: x_const_confined [OF set_memory0_ok [OF assms(1)] assms(2)] assms(3))

lemma bulk_confined:
  assumes "memory_inv m" "mem_data m \<noteq> []" "\<And>m'. memory_inv m' \<Longrightarrow> mem_data m' \<noteq> [] \<Longrightarrow> P m'"
  shows "confined P (memory_copy d s c m)" "confined P (memory_write_bytes off v c m)"
proof -
  have P: "P m'" if "length (mem_data m') = length (mem_data m)" for m'
    using that assms by (auto simp: memory_inv_def simp flip: length_greater_0_conv)
  show "confined P (memory_copy d s c m)" "confined P (memory_write_bytes off v c m)"
    by (auto simp: memory_copy_def memory_write_bytes_def ptr_slice_def ptr_copy_def Let_def intro!: P)
qed

lemma x_memory_copy_confined:
  assumes "run_ok md fr st" "level + 2 < cb_max_stack (fr_block fr)" "\<And>st'. run_ok md fr st' \<Longrightarrow> P (Next, st')"
  shows "confined P (x_memory_copy fr level st)" "confined P (x_memory_fill fr level st)"
proof -
  have l: "level < cb_max_stack (fr_block fr)" "level + 1 < cb_max_stack (fr_block fr)"
    using assms(2) by simp_all
  show "confined P (x_memory_copy fr level st)"
    unfolding x_memory_copy_def confined_and_then
    by (rule memory0_confined [OF assms(1)], rule vs_get_confined [OF assms(1) l(1)],
        rule vs_get_confined [OF assms(1) l(2)], rule vs_get_confined [OF assms(1,2)])
      (simp add: bulk_confined set_memory0_ok [OF assms(1)] assms(3))
  show "confined P (x_memory_fill fr level st)"
    unfolding x_memory_fill_def confined_and_then
    by (rule memory0_confined [OF assms(1)], rule vs_get_confined [OF assms(1) l(1)],
        rule vs_get_confined [OF assms(1) l(2)], rule vs_get_confined [OF assms(1,2)])
      (simp add: bulk_confined set_memory0_ok [OF assms(1)] assms(3))
qed

lemma operator_confined:
  "confined (\<lambda>_. True) (bin32 b v w)" "confined (\<lambda>_. True) (bin64 b v w)"
  "confined (\<lambda>_. True) (conv_op c v)" "confined (\<lambda>_. True) (rel64 r v w)"
  "confined (\<lambda>_. True) (uv_map_u64 f v)" "confined (\<lambda>_. True) (uv_get_u64 v)"
  by (cases v; cases w; simp add: bin32_def bin64_def rel64_def uv_map_u64_def)
    (cases v; cases w; cases c; simp add: bin32_def bin64_def rel64_def uv_map_u64_def)+

text \<open>What a code may do to the control flow.\<close>

definition flow_ok :: "imc \<Rightarrow> flow \<Rightarrow> bool" where
  "flow_ok c fl =
     (case fl of
        Next \<Rightarrow> imc_mnemonic c \<noteq> Return
      | Goto t \<Rightarrow> t \<in> set (targets (imc_mnemonic c))
      | Leave l \<Rightarrow> imc_mnemonic c = Return \<and> l = imc_level c)"

lemmas x_confined = x_const_confined x_unary_confined x_binary_confined x_branch1_confined
  x_branch2_confined x_br_if_confined x_br_table_confined x_select_confined x_local_get_confined
  x_local_set_confined x_local_const_confined x_global_get_confined x_global_set_confined
  x_load_confined x_store_confined x_memory_size_confined x_memory_grow_confined
  x_memory_copy_confined

lemma exec_code_confined:
  assumes "run_ok md fr st" "level_ok (cb_max_stack (fr_block fr)) c"
    "operand_ok md (cb_local_types (fr_block fr)) (imc_mnemonic c)" "imc_mnemonic c \<noteq> BrTable []"
    "\<not> is_call (imc_mnemonic c)"
  shows "confined (\<lambda>(fl, st'). run_ok md fr st' \<and> flow_ok c fl) (exec_code tr fr c st)"
  using assms(2-)
  apply (cases "imc_mnemonic c";
      simp add: exec_code_def Let_def level_ok_def stack_need_def operand_ok_def is_call_def assms(1) flow_ok_def
        targets_def)
  apply (rule x_confined [OF assms(1)];
      simp add: assms(1) flow_ok_def targets_def operator_confined confined_and_then)+
  done


section \<open>Runs of leaf functions\<close>

text \<open>The two gaps the verifier leaves: an empty branch table, and a \<open>return\<close> on an empty stack.\<close>

definition gaps_closed :: "val_type list \<Rightarrow> code_block \<Rightarrow> bool" where
  "gaps_closed results cb \<longleftrightarrow>
     (\<forall>c \<in> set (cb_int_codes cb). imc_mnemonic c \<noteq> BrTable [] \<and>
        (imc_mnemonic c = Return \<longrightarrow> results = [] \<or> imc_level c < cb_max_stack cb))"

definition confined_run :: "'a fueled \<Rightarrow> bool" where
  "confined_run r \<longleftrightarrow> (case r of None \<Rightarrow> True | Some m \<Rightarrow> confined (\<lambda>_. True) m)"

lemma confined_run_fuel_then:
  "confined_run (fuel_then (Some m) f) \<longleftrightarrow> confined (\<lambda>x. confined_run (f x)) m"
  by (cases m) (simp_all add: confined_run_def fuel_then_def)

lemma uv_get_by_type_confined: "confined (\<lambda>_. True) (uv_get_by_type t v)"
  by (cases t; cases v) simp_all

lemma finish_confined:
  assumes "run_ok md fr st" "fr_results fr = [] \<or> level < cb_max_stack (fr_block fr)"
  shows "confined (\<lambda>_. True) (finish fr level st)"
proof (cases "fr_results fr")
  case (Cons t ts)
  with assms(2) have l: "level < cb_max_stack (fr_block fr)" by simp
  from Cons show ?thesis
    by (simp add: finish_def confined_and_then uv_get_by_type_confined vs_get_confined [OF assms(1) l])
qed (simp add: finish_def)

lemma leaf_run_confined_from:
  assumes "block_ok md (fr_block fr)" "cb_leaf (fr_block fr)" "gaps_closed (fr_results fr) (fr_block fr)"
    and "run_ok md fr st" "pc < length (cb_int_codes (fr_block fr))"
  shows "confined_run (run host tr n fr pc st)"
  using assms(4,5)
proof (induction n arbitrary: pc st)
  case 0
  then show ?case by (simp add: confined_run_def)
next
  case (Suc n)
  let ?codes = "cb_int_codes (fr_block fr)"
  define c where "c = ?codes ! pc"
  have c: "c \<in> set ?codes" using Suc.prems(2) by (simp add: c_def)
  have ok: "level_ok (cb_max_stack (fr_block fr)) c"
      "operand_ok md (cb_local_types (fr_block fr)) (imc_mnemonic c)"
      "imc_mnemonic c \<noteq> BrTable []" "\<not> is_call (imc_mnemonic c)"
    using assms(1-3) c by (auto simp: block_ok_def gaps_closed_def)
  have step: "confined (\<lambda>(fl, st'). run_ok md fr st' \<and> flow_ok c fl) (exec_code tr fr c st)"
    by (rule exec_code_confined [OF Suc.prems(1) ok])
  have cont: "confined_run (case fl of
      Next \<Rightarrow> run host tr n fr (pc + 1) st'
    | Goto target \<Rightarrow> run host tr n fr target st'
    | Leave level \<Rightarrow> Some (finish fr level st'))" if "run_ok md fr st'" "flow_ok c fl" for fl st'
  proof (cases fl)
    case Next
    with that have "imc_mnemonic c \<noteq> Return" by (simp add: flow_ok_def)
    then have "pc \<noteq> length ?codes - 1"
      using assms(1) Suc.prems(2) by (auto simp: block_ok_def c_def last_conv_nth)
    then have "pc + 1 < length ?codes" using Suc.prems(2) by linarith
    with Suc.IH [OF that(1)] Next show ?thesis by simp
  next
    case (Goto t)
    with that assms(1) c have "t < length ?codes" by (auto simp: block_ok_def flow_ok_def)
    with Suc.IH [OF that(1)] Goto show ?thesis by simp
  next
    case (Leave l)
    with that assms(3) c have "fr_results fr = [] \<or> l < cb_max_stack (fr_block fr)"
      by (auto simp: gaps_closed_def flow_ok_def)
    with finish_confined [OF that(1)] Leave show ?thesis by (simp add: confined_run_def)
  qed
  have "get_at ?codes pc = Some c" using Suc.prems(2) by (simp add: get_at_def c_def)
  then show ?case
    using ok(4) cont
    by (auto simp: run.simps(2) Let_def confined_run_fuel_then intro!: confined_mono [OF step])
qed

text \<open>
  A verified leaf function stays inside its memory.  Take a leaf function whose code
  \<open>generate\<close> produced and that has neither an empty branch table nor a \<open>return\<close> below its
  result, and a frame that fits it: a value stack of \<open>max_stack\<close> slots, locals for the declared
  types, a module with the same globals and a memory of at least one page.  Then no run, however
  long, uses an index out of range or a dangling slice, and it does not panic.
\<close>

theorem leaf_run_in_bounds:
  assumes "generate fi fp s params results md = Ok (cb, s')" "cb_leaf cb" "gaps_closed (fr_results fr) cb"
    and "fr_block fr = cb" "run_ok md fr st"
  shows "run host tr n fr 0 st \<notin> {Some (UB OutOfRange), Some (UB DanglingRef), Some Panic}"
proof -
  have "block_ok md cb" by (rule generate_block_ok [OF assms(1)])
  then have "confined_run (run host tr n fr 0 st)"
    using assms(2-5) by (intro leaf_run_confined_from [of md]) (auto simp: block_ok_def)
  then show ?thesis by (auto simp: confined_run_def)
qed

text \<open>A module with one page of memory, and a frame for the example function.\<close>

definition ex_module :: wasm_module where
  "ex_module = module_new\<lparr>m_memories := [memory_new \<lparr>limit_min = 1, limit_max = 1\<rparr>]\<rparr>"

definition ex_state :: interp_state where
  "ex_state =
     \<lparr>is_module = ex_module,
      is_heap = \<lparr>sh_slots = [uv_zero, uv_zero], sh_capacity = 0x10000, sh_generation = 0, sh_stack_pointer = 16\<rparr>,
      is_entry = [W32 7]\<rparr>"

definition ex_frame :: frame where
  "ex_frame =
     \<lparr>fr_func_index = 0, fr_block = ex_block, fr_locals = EntryLocals,
      fr_values = \<lparr>sl_generation = 0, sl_offset = 0, sl_len = 2\<rparr>, fr_results = [I32]\<rparr>"

lemma ex_module_ok: "module_ok module_new ex_state"
  by (auto simp: module_ok_def ex_state_def ex_module_def module_new_def memory_inv_new)
    (simp add: memory_new_def page_size_def)

lemma ex_run_ok: "run_ok module_new ex_frame ex_state"
  using ex_module_ok
  by (simp add: run_ok_def frame_ok_def ex_frame_def ex_state_def ex_block_def slice_ok_def)

lemma ex_gaps_closed: "gaps_closed [I32] ex_block"
  by (simp add: gaps_closed_def ex_block_def)

theorem leaf_run_in_bounds_witness:
  "run (\<lambda>_ _ _. Err RtNoMethod) (\<lambda>_. False) 100 ex_frame 0 ex_state \<noteq> Some (UB OutOfRange)"
  using leaf_run_in_bounds [OF generate_ex, of ex_frame ex_state "\<lambda>_ _ _. Err RtNoMethod" "\<lambda>_. False" 100]
    ex_run_ok ex_gaps_closed
  by (simp add: ex_frame_def ex_block_def)


section \<open>Invocation\<close>

lemma set_params_length:
  "set_params ts i params locals = Ok locals' \<Longrightarrow> length locals' = length locals"
  by (induction ts arbitrary: i locals) (auto split: option.splits if_splits)

lemma set_params_confined: "confined (\<lambda>ls. length ls = length locals) (set_params ts i params locals)"
  by (induction ts arbitrary: i locals) (auto split: option.splits, metis length_list_update)

lemma heap_new_alloc:
  assumes "8 * len + 15 < 2 ^ 63"
  shows "\<exists>h. heap_alloc len (heap_with_capacity cap)
      = Ok (\<lparr>sl_generation = sh_generation h, sl_offset = 0, sl_len = len\<rparr>, h) \<and> len \<le> length (sh_slots h)"
proof -
  let ?h = "heap_with_capacity cap"
  have e: "8 * len \<le> alloc_end len ?h"
    using align16_bounds(2) [of "8 * len"] assms by (simp add: alloc_end_def heap_with_capacity_def)
  then have e': "len \<le> alloc_end len ?h div 8" by linarith
  have sp: "sh_stack_pointer ?h = 0" "sh_slots ?h = []" by (simp_all add: heap_with_capacity_def)
  then have "sh_stack_pointer ?h + 8 * len + 15 < 2 ^ 63" using assms by simp
  note eq = heap_alloc_eq [OF heap_inv_new this]
  show ?thesis using e e' sp by (simp add: eq Let_def)
qed

text \<open>
  Invoking a verified leaf function of fewer than \<open>2 ^ 59\<close> stack slots and locals, in a
  module with the globals it was generated for and a memory of at least one page; a wrong argument
  list is reported as an error.
\<close>

lemma invoke_leaf_confined:
  assumes "block_ok md' cb" "cb_leaf cb"
    and "f_code_block f = Some cb" "gaps_closed (result_types (f_type f)) cb"
    and "length (m_globals md) = length (m_globals md')"
    and "m_memories md = m # ms" "memory_inv m" "mem_data m \<noteq> []"
    and "cb_max_stack cb < 2 ^ 59" "length (param_types (f_type f)) + length (cb_local_types cb) < 2 ^ 59"
  shows "confined_run (invoke host tr n md f args)"
proof -
  let ?len = "max initial_value_stack_size
      (usize_add (length (param_types (f_type f))) (length (cb_local_types cb)))"
  have len: "?len = max 512 (length (param_types (f_type f)) + length (cb_local_types cb))"
    using assms(10) by (simp add: usize_add_exact initial_value_stack_size_def)
  have enter: "confined (\<lambda>x. confined_run (case x of (fr, st) \<Rightarrow> run host tr n fr 0 st))
      (enter (f_index f) cb EntryLocals (result_types (f_type f))
         \<lparr>is_module = md, is_heap = heap_with_capacity 0x10000, is_entry = locals\<rparr>
       :: (wasm_runtime_error, _) outcome)"
    if "length locals = ?len" for locals
  proof -
    obtain h where h: "heap_alloc (cb_max_stack cb) (heap_with_capacity 0x10000)
        = (Ok (\<lparr>sl_generation = sh_generation h, sl_offset = 0, sl_len = cb_max_stack cb\<rparr>, h)
            :: (wasm_runtime_error, _) outcome)"
      "cb_max_stack cb \<le> length (sh_slots h)"
      using heap_new_alloc [of "cb_max_stack cb" "0x10000", where ?'a = wasm_runtime_error] assms(9) by auto
    let ?fr = "\<lparr>fr_func_index = f_index f, fr_block = cb, fr_locals = EntryLocals,
      fr_values = \<lparr>sl_generation = sh_generation h, sl_offset = 0, sl_len = cb_max_stack cb\<rparr>,
      fr_results = result_types (f_type f)\<rparr>"
    have "confined_run (run host tr n ?fr 0 \<lparr>is_module = md, is_heap = h', is_entry = locals\<rparr>)"
      if "sh_generation h' = sh_generation h" "length (sh_slots h') = length (sh_slots h)" for h'
      using that \<open>length locals = ?len\<close> len h(2) assms(1,2,4-8)
      by (intro leaf_run_confined_from [of md'])
        (auto simp: block_ok_def run_ok_def frame_ok_def module_ok_def slice_ok_def)
    with h assms(6) show ?thesis
      by (cases "cb_max_stack cb = 0") (simp_all add: enter_def slice_write_def memory0_def)
  qed
  show ?thesis
    using assms(3,10) len enter set_params_confined [of "replicate ?len uv_zero" "param_types (f_type f)" 0 args]
    by (auto simp: invoke_def Let_def confined_run_fuel_then confined_and_then with_capacity_def
        elim!: confined_mono)
qed


section \<open>Fuel\<close>

lemma fuel_then_mono:
  assumes "fuel_then m f = Some r" "\<And>q. m = Some q \<Longrightarrow> m' = Some q" "\<And>x q. f x = Some q \<Longrightarrow> f' x = Some q"
  shows "fuel_then m' f' = Some r"
  using assms by (auto simp: fuel_then_def split: option.splits outcome.splits)

lemma call_function_mono:
  assumes "call_function host er f c fr st = Some r" "\<And>fr st q. er fr st = Some q \<Longrightarrow> er' fr st = Some q"
  shows "call_function host er' f c fr st = Some r"
proof (cases "f_code_block f")
  case None
  with assms(1) show ?thesis by (simp add: call_function_def Let_def)
next
  case (Some cb)
  show ?thesis
    using assms(1) unfolding call_function_def Let_def Some option.case
    by (rule fuel_then_mono) (auto elim!: fuel_then_mono intro: assms(2) split: prod.splits)
qed

text \<open>
  The fuel only bounds the run.  A run that ends with some fuel ends in the same way with more:
  the outcome of a function does not depend on the bound.
\<close>

theorem run_fuel_mono:
  "run host tr n fr pc st = Some r \<Longrightarrow> run host tr (n + k) fr pc st = Some r"
proof (induction n arbitrary: fr pc st r)
  case 0
  then show ?case by simp
next
  case (Suc n)
  show ?case
  proof (cases "get_at (cb_int_codes (fr_block fr)) pc")
    case None
    with Suc.prems show ?thesis by (simp add: run.simps(2))
  next
    case (Some c)
    show ?thesis
    proof (cases "is_call (imc_mnemonic c)")
      case True
      from Suc.prems Some True show ?thesis
        unfolding add_Suc run.simps(2)
        by (auto simp: Let_def elim!: fuel_then_mono intro: Suc.IH call_function_mono split: prod.splits)
    next
      case False
      from Suc.prems Some False show ?thesis
        unfolding add_Suc run.simps(2)
        by (auto simp: Let_def elim!: fuel_then_mono intro: Suc.IH split: prod.splits flow.splits)
    qed
  qed
qed

lemma ex_run:
  "\<exists>st. run host tr 7 ex_frame 0 ex_state = Some (Ok (Some (V_I32 8), st))"
  by (simp add: exec_eval ex_frame_def ex_state_def ex_block_def ex_module_def
      module_new_def cong: eval_congs)

theorem run_fuel_mono_witness:
  "\<exists>st. run (\<lambda>_ _ _. Err RtNoMethod) (\<lambda>_. False) 1000 ex_frame 0 ex_state = Some (Ok (Some (V_I32 8), st))"
  using ex_run [of "\<lambda>_ _ _. Err RtNoMethod" "\<lambda>_. False"]
    run_fuel_mono [of "\<lambda>_ _ _. Err RtNoMethod" "\<lambda>_. False" 7 ex_frame 0 ex_state _ 993]
  by auto

end
