(* ===== verification/Fusion.thy ===== *)
theory Fusion
  imports InterpSafety
begin

text \<open>
  The fused instructions against the pairs they replace.  A pair leaves its intermediate value in a
  slot of the value stack that is dead afterwards; up to that slot the fused code does the same.
  The last section shows that the pass also fuses codes between which the source has a
  \<open>drop\<close>, where it changes the result.
\<close>

section \<open>Slots\<close>

definition slot :: "frame \<Rightarrow> nat \<Rightarrow> interp_state \<Rightarrow> unsafe_value" where
  "slot fr i st = sh_slots (is_heap st) ! (sl_offset (fr_values fr) + i)"

definition put :: "frame \<Rightarrow> nat \<Rightarrow> unsafe_value \<Rightarrow> interp_state \<Rightarrow> interp_state" where
  "put fr i v st =
     st\<lparr>is_heap := (is_heap st)\<lparr>sh_slots := (sh_slots (is_heap st))[sl_offset (fr_values fr) + i := v]\<rparr>\<rparr>"

lemma vs_get_slot:
  "run_ok md fr st \<Longrightarrow> i < cb_max_stack (fr_block fr) \<Longrightarrow> vs_get fr i st = Ok (slot fr i st)"
  by (drule run_ok_values) (simp add: vs_get_def slot_def slice_get_ok)

lemma vs_set_put:
  "run_ok md fr st \<Longrightarrow> i < cb_max_stack (fr_block fr) \<Longrightarrow> vs_set fr i v st = Ok (put fr i v st)"
  by (drule run_ok_values) (simp add: vs_set_def put_def slice_set_ok)

lemma run_ok_put [simp]: "run_ok md fr (put fr i v st) = run_ok md fr st"
  by (simp add: put_def run_ok_heap_update)

lemma slot_put_same:
  "run_ok md fr st \<Longrightarrow> i < cb_max_stack (fr_block fr) \<Longrightarrow> slot fr i (put fr i v st) = v"
  by (drule run_ok_values) (simp add: slot_def put_def slice_ok_def)

lemma slot_put_other [simp]: "i \<noteq> j \<Longrightarrow> slot fr j (put fr i v st) = slot fr j st"
  by (simp add: slot_def put_def)

lemma put_put [simp]: "put fr i v (put fr i w st) = put fr i v st"
  by (simp add: put_def)

lemma put_swap: "i \<noteq> j \<Longrightarrow> put fr i v (put fr j w st) = put fr j w (put fr i v st)"
  by (simp add: put_def list_update_swap)

lemma local_set_forget:
  assumes "run_ok md fr st" "i < length (cb_local_types (fr_block fr))"
  shows "and_then (local_set fr i v (put fr l v st)) (\<lambda>s. Ok (put fr l z s))
       = and_then (local_set fr i v st) (\<lambda>s. Ok (put fr l z s))"
proof -
  have upd: "xs[k := x, m := x, k := y] = xs[m := x, k := y]" for xs :: "unsafe_value list" and k m x y
    by (cases "k = m") (simp_all add: list_update_swap)
  show ?thesis
    using assms run_ok_locals [OF assms(1)]
    by (cases "fr_locals fr") (auto simp: local_set_def put_def slice_set_ok upd)
qed


section \<open>The pairs\<close>

text \<open>Two codes in a row, and a result up to the slot \<open>i\<close>.\<close>

definition exec_pair :: "(nat \<Rightarrow> bool) \<Rightarrow> frame \<Rightarrow> imc \<Rightarrow> imc \<Rightarrow> interp_state \<Rightarrow> flow exec" where
  "exec_pair tr fr a b st = and_then (exec_code tr fr a st) (\<lambda>(_, st1). exec_code tr fr b st1)"

definition forget :: "frame \<Rightarrow> nat \<Rightarrow> flow exec \<Rightarrow> flow exec" where
  "forget fr i r = and_then r (\<lambda>(fl, st). Ok (fl, put fr i uv_zero st))"

text \<open>
  The second code takes the value the first one pushed: an operator works one slot below it, a
  \<open>local.set\<close> or \<open>br_if\<close> pops it.
\<close>

definition levels_match :: "imc \<Rightarrow> imc \<Rightarrow> bool" where
  "levels_match a b \<longleftrightarrow>
     (case imc_mnemonic b of
        I32Bin _ \<Rightarrow> imc_level a = imc_level b + 1
      | I64Bin _ \<Rightarrow> imc_level a = imc_level b + 1
      | _ \<Rightarrow> imc_level a = imc_level b)"

lemmas pair_simps = exec_pair_def forget_def exec_code_def Let_def x_const_def x_unary_def
  x_binary_def x_branch1_def x_branch2_def x_br_if_def x_branch_def x_local_set_def
  x_local_const_def

lemma fused_const_i32:
  assumes "fuse_i32_const v (I32Bin b) = Some m" and ok: "run_ok md fr st" "imc_level b' + 1 < cb_max_stack (fr_block fr)"
    and "imc_mnemonic a' = I32Const v" "imc_mnemonic b' = I32Bin b" "imc_level a' = imc_level b' + 1"
  shows "forget fr (imc_level a') (exec_pair tr fr a' b' st)
       = forget fr (imc_level a') (exec_code tr fr (b'\<lparr>imc_mnemonic := m\<rparr>) st)"
proof -
  let ?l = "imc_level b'"
  have l: "?l < cb_max_stack (fr_block fr)" using ok(2) by simp
  note slots = vs_get_slot [where md = md] vs_set_put [where md = md] slot_put_same [where md = md]
  have bin: "exec_pair tr fr a' b' st =
      Ok (Next, put fr ?l (uv_map_u32 (\<lambda>a. bin_op b a v) (slot fr ?l st)) (put fr (?l + 1) (W32 v) st))"
    if "\<not> is_division b"
    using that assms l by (simp add: pair_simps slots bin32_def)
  have fused: "exec_code tr fr (b'\<lparr>imc_mnemonic := m\<rparr>) st =
      Ok (Next, put fr ?l (uv_map_u32 (\<lambda>a. bin_op b a v) (slot fr ?l st)) st)" and "\<not> is_division b"
    using assms(1) ok l
    by (cases b; auto simp: fuse_i32_const_def pair_simps slots is_division_def)+
  with bin show ?thesis
    by (simp add: forget_def assms(6) put_swap [of ?l "Suc ?l"])
qed

lemma fused_const_i64:
  assumes "fuse_i64_const v (I64Bin b) = Some m" and ok: "run_ok md fr st" "imc_level b' + 1 < cb_max_stack (fr_block fr)"
    and "imc_mnemonic a' = I64Const v" "imc_mnemonic b' = I64Bin b" "imc_level a' = imc_level b' + 1"
  shows "forget fr (imc_level a') (exec_pair tr fr a' b' st)
       = forget fr (imc_level a') (exec_code tr fr (b'\<lparr>imc_mnemonic := m\<rparr>) st)"
proof -
  let ?l = "imc_level b'"
  note slots = vs_get_slot [where md = md] vs_set_put [where md = md] slot_put_same [where md = md]
  have l: "?l < cb_max_stack (fr_block fr)" using ok(2) by simp
  have bin: "exec_pair tr fr a' b' st =
      and_then (uv_map_u64 (\<lambda>a. bin_op b a v) (slot fr ?l st)) (\<lambda>w.
        Ok (Next, put fr ?l w (put fr (?l + 1) (W64 v) st)))"
    if "\<not> is_division b" "\<not> is_rotation b"
    using that assms l
    by (cases "slot fr ?l st") (simp_all add: pair_simps slots bin64_def uv_map_u64_def)
  have fused: "exec_code tr fr (b'\<lparr>imc_mnemonic := m\<rparr>) st =
      and_then (uv_map_u64 (\<lambda>a. bin_op b a v) (slot fr ?l st)) (\<lambda>w. Ok (Next, put fr ?l w st))"
    and b: "\<not> is_division b" "\<not> is_rotation b"
    using assms(1) ok l
    by (cases b; auto simp: fuse_i64_const_def pair_simps slots is_division_def is_rotation_def uv_map_u64_def)+
  show ?thesis
    unfolding bin [OF b] fused
    by (cases "uv_map_u64 (\<lambda>a. bin_op b a v) (slot fr ?l st) :: (runtime_error, unsafe_value) outcome")
      (simp_all add: forget_def assms(6) put_swap [of ?l "Suc ?l"])
qed

lemma fused_set_const:
  assumes ok: "run_ok md fr st" "imc_level b' < cb_max_stack (fr_block fr)" "i < length (cb_local_types (fr_block fr))"
    and "imc_mnemonic b' = LocalSet i" "imc_level a' = imc_level b'"
    and "imc_mnemonic a' = I32Const v \<and> m = FusedI32SetConst i v \<and> w = W32 v \<or>
         imc_mnemonic a' = I64Const u \<and> m = FusedI64SetConst i u \<and> w = W64 u"
  shows "forget fr (imc_level a') (exec_pair tr fr a' b' st)
       = forget fr (imc_level a') (exec_code tr fr (b'\<lparr>imc_mnemonic := m\<rparr>) st)"
proof -
  let ?l = "imc_level b'"
  note slots = vs_get_slot [where md = md] vs_set_put [where md = md] slot_put_same [where md = md]
  have "exec_pair tr fr a' b' st =
      and_then (local_set fr i w (put fr ?l w st)) (\<lambda>st'. Ok (Next, st'))"
    using assms by (auto simp: pair_simps slots)
  moreover have "exec_code tr fr (b'\<lparr>imc_mnemonic := m\<rparr>) st = and_then (local_set fr i w st) (\<lambda>st'. Ok (Next, st'))"
    using assms(6) by (auto simp: pair_simps)
  moreover have "and_then (and_then (local_set fr i w (put fr ?l w st)) (\<lambda>s. Ok (put fr ?l uv_zero s)))
        (\<lambda>s. Ok (Next, s) :: flow exec)
      = and_then (and_then (local_set fr i w st) (\<lambda>s. Ok (put fr ?l uv_zero s))) (\<lambda>s. Ok (Next, s))"
    by (simp add: local_set_forget [OF ok(1,3)])
  ultimately show ?thesis by (simp add: forget_def and_then_assoc assms(5))
qed

lemma fused_branch:
  assumes "fuse_pair (imc_mnemonic a') (BrIf t) = Some m" and ok: "run_ok md fr st"
    and level: "imc_level a' + stack_need (imc_mnemonic a') \<le> cb_max_stack (fr_block fr)"
    and "imc_mnemonic b' = BrIf t" "imc_level a' = imc_level b'"
  shows "forget fr (imc_level a') (exec_pair tr fr a' b' st)
       = forget fr (imc_level a') (exec_code tr fr (b'\<lparr>imc_mnemonic := m\<rparr>) st)"
proof -
  let ?l = "imc_level b'"
  note slots = vs_get_slot [where md = md] vs_set_put [where md = md] slot_put_same [where md = md]
  from assms(1) show ?thesis
  proof (cases rule: fuse_pair_E)
    case (1 v)
    then show ?thesis by (simp add: fuse_i32_const_def)
  next
    case (2 v)
    then show ?thesis by (simp add: fuse_i64_const_def)
  next
    case (3 t')
    with assms show ?thesis
      by (cases "slot fr ?l st") (auto simp: fuse_pair_def pair_simps slots stack_need_def)
  next
    case (4 t' r)
    with assms show ?thesis
      by (cases "slot fr ?l st"; cases "slot fr (Suc ?l) st"; cases r)
        (auto simp: fuse_pair_def pair_simps slots stack_need_def rel64_def)
  qed
qed

text \<open>
  C6: A fused instruction does what its pair does.  When the second code of a pair takes the value
  that the first one pushed, running the fused code gives the same flow and the same state as
  running the two codes, up to the slot of that value, which is dead: the same branch, the same
  locals, the same stack below.  That the second code takes the value is a hypothesis, because
  \<open>generate\<close> also fuses a constant that was dropped with a later code, and then the result changes.
\<close>

theorem fused_pair_correct:
  assumes fuse: "fuse_pair (imc_mnemonic a) (imc_mnemonic b) = Some m" and match: "levels_match a b"
    and ok: "run_ok md fr st"
    and "level_ok (cb_max_stack (fr_block fr)) a" "level_ok (cb_max_stack (fr_block fr)) b"
    and "operand_ok md (cb_local_types (fr_block fr)) (imc_mnemonic b)"
  shows "forget fr (imc_level a) (exec_pair tr fr a b st)
       = forget fr (imc_level a) (exec_code tr fr (b\<lparr>imc_mnemonic := m\<rparr>) st)"
  using fuse
proof (cases rule: fuse_pair_E)
  case (1 v)
  from 1(2) show ?thesis
  proof (cases rule: fuse_i32_const_E)
    case (1 i)
    with \<open>imc_mnemonic a = I32Const v\<close> assms show ?thesis
      by (intro fused_set_const [of md]) (auto simp: levels_match_def level_ok_def stack_need_def operand_ok_def)
  next
    case (2 b')
    with 1 assms show ?thesis
      by (intro fused_const_i32 [of v b' m md]) (auto simp: levels_match_def level_ok_def stack_need_def)
  qed
next
  case (2 v)
  from 2(2) show ?thesis
  proof (cases rule: fuse_i64_const_E)
    case (1 i)
    with \<open>imc_mnemonic a = I64Const v\<close> assms show ?thesis
      by (intro fused_set_const [of md]) (auto simp: levels_match_def level_ok_def stack_need_def operand_ok_def)
  next
    case (2 b')
    with \<open>imc_mnemonic a = I64Const v\<close> \<open>fuse_i64_const v (imc_mnemonic b) = Some m\<close> assms show ?thesis
      by (intro fused_const_i64 [of v b' m md]) (auto simp: levels_match_def level_ok_def stack_need_def)
  qed
next
  case (3 t)
  with assms show ?thesis
    by (intro fused_branch [of a t m md]) (auto simp: levels_match_def level_ok_def)
next
  case (4 t r)
  with assms show ?thesis
    by (intro fused_branch [of a t m md]) (auto simp: levels_match_def level_ok_def)
qed

theorem fused_pair_correct_witness:
  "forget ex_frame 1 (exec_pair (\<lambda>_. False) ex_frame
       (imc_new 0 (Single Op_I32Const) (I32Const 5) 1) (imc_new 2 (Single (Op_I32Bin B_Add)) (I32Bin B_Add) 0) ex_state)
   = forget ex_frame 1 (exec_code (\<lambda>_. False) ex_frame
       (imc_new 2 (Single (Op_I32Bin B_Add)) (FusedI32AddI 5) 0) ex_state)"
proof -
  let ?a = "imc_new 0 (Single Op_I32Const) (I32Const 5) 1"
  let ?b = "imc_new 2 (Single (Op_I32Bin B_Add)) (I32Bin B_Add) 0"
  have "fuse_pair (imc_mnemonic ?a) (imc_mnemonic ?b) = Some (FusedI32AddI 5)"
    by (simp add: fuse_pair_def fuse_i32_const_def)
  moreover have "levels_match ?a ?b" by (simp add: levels_match_def)
  moreover have "level_ok (cb_max_stack (fr_block ex_frame)) ?a" "level_ok (cb_max_stack (fr_block ex_frame)) ?b"
    "operand_ok module_new (cb_local_types (fr_block ex_frame)) (imc_mnemonic ?b)"
    by (simp_all add: level_ok_def stack_need_def operand_ok_def ex_frame_def ex_block_def)
  ultimately show ?thesis
    using fused_pair_correct [of ?a ?b "FusedI32AddI 5" module_new ex_frame ex_state "\<lambda>_. False"] ex_run_ok
    by (simp add: imc_new_def)
qed


section \<open>A pair that is not one\<close>

text \<open>
  \<open>drop\<close> emits no code, so the codes around it are adjacent in the vector.  The function
  \<open>local.get 0; local.get 1; i32.const 5; drop; i32.add\<close> returns the sum of its arguments.
\<close>

definition drop_body :: "u8 list" where
  "drop_body = [0x00, 0x20, 0x00, 0x20, 0x01, 0x41, 0x05, 0x1A, 0x6A, 0x0B]"

definition drop_block :: code_block where
  "drop_block =
     \<lparr>cb_func_index = 0, cb_file_position = 0, cb_local_types = [I32, I32], cb_max_stack = 3, cb_leaf = True,
      cb_int_codes =
        [imc_new 1 (Single Op_LocalGet) (LocalGet32 0) 0,
         imc_new 3 (Single Op_LocalGet) (LocalGet32 1) 1,
         imc_new 8 (Single (Op_I32Bin B_Add)) (FusedI32AddI 5) 0,
         imc_new 9 (Single Op_End) Return 0]\<rparr>"

lemma generate_drop:
  "generate 0 0 (from_slice drop_body) [I32, I32] [I32] module_new
     = Ok (drop_block, \<lparr>blob = drop_body, position = 10\<rparr>)"
  by (simp add: drop_body_def drop_block_def generate_eval cong: and_then_weak_cong)

definition drop_function :: wasm_function where
  "drop_function =
     (function_internal 0 0 \<lparr>param_types = [I32, I32], result_types = [I32]\<rparr>)\<lparr>f_code_block := Some drop_block\<rparr>"

lemmas invoke_eval = invoke_def set_params.simps enter_def heap_alloc_def vec_resize_def heap_with_capacity_def
  align16_def usize_add_def slice_read_def slice_write_def initial_value_stack_size_def with_capacity_def
  call_function_def call_target_def callee_locals_def clear_locals_def heap_restore_def usize_sub_def

text \<open>
  A constant that is dropped is added.  The verifier accepts the function above, the pass fuses
  \<open>i32.const 5\<close> with the addition, and for all arguments \<open>a\<close> and \<open>b\<close> the
  interpreter returns \<open>a + 5\<close> where the program asks for \<open>a + b\<close>.
\<close>

theorem dropped_constant_is_added:
  "generate 0 0 (from_slice drop_body) [I32, I32] [I32] module_new
     = Ok (drop_block, \<lparr>blob = drop_body, position = 10\<rparr>) \<and>
   (\<exists>st. invoke host tr 5 ex_module drop_function [V_I32 a, V_I32 b] = Some (Ok (Some (V_I32 (a + 5)), st)))"
proof
  show "\<exists>st. invoke host tr 5 ex_module drop_function [V_I32 a, V_I32 b] = Some (Ok (Some (V_I32 (a + 5)), st))"
    by (simp add: invoke_eval exec_eval drop_function_def function_internal_def drop_block_def ex_module_def
        module_new_def nth_list_update cong: eval_congs)
qed (rule generate_drop)

end
