(* ===== verification/Calls.thy ===== *)
theory Calls
  imports Fusion
begin

text \<open>
  Calls between functions of a module: how a callee gets its arguments, and what the verifier lets
  through.
\<close>

section \<open>Two functions\<close>

text \<open>
  Function 0 returns its argument (\<open>local.get 0\<close>); function 1 is
  \<open>local.get 0; local.get 1; call 0; i32.add\<close>, so that it returns the sum of its arguments.
\<close>

definition id_type :: wasm_type where
  "id_type = \<lparr>param_types = [I32], result_types = [I32]\<rparr>"

definition add_type :: wasm_type where
  "add_type = \<lparr>param_types = [I32, I32], result_types = [I32]\<rparr>"

definition id_body :: "u8 list" where
  "id_body = [0x00, 0x20, 0x00, 0x0B]"

definition add_body :: "u8 list" where
  "add_body = [0x00, 0x20, 0x00, 0x20, 0x01, 0x10, 0x00, 0x6A, 0x0B]"

definition id_block :: code_block where
  "id_block =
     \<lparr>cb_func_index = 0, cb_file_position = 0, cb_local_types = [I32], cb_max_stack = 1, cb_leaf = True,
      cb_int_codes =
        [imc_new 1 (Single Op_LocalGet) (LocalGet32 0) 0, imc_new 3 (Single Op_End) Return 0]\<rparr>"

definition add_block :: code_block where
  "add_block =
     \<lparr>cb_func_index = 1, cb_file_position = 0, cb_local_types = [I32, I32], cb_max_stack = 2, cb_leaf = False,
      cb_int_codes =
        [imc_new 1 (Single Op_LocalGet) (LocalGet32 0) 0,
         imc_new 3 (Single Op_LocalGet) (LocalGet32 1) 1,
         imc_new 5 (Single Op_Call) (Call 0) 2,
         imc_new 7 (Single (Op_I32Bin B_Add)) (I32Bin B_Add) 0,
         imc_new 8 (Single Op_End) Return 0]\<rparr>"

definition declared_module :: wasm_module where
  "declared_module =
     ex_module\<lparr>m_types := [id_type, add_type],
               m_functions := [function_internal 0 0 id_type, function_internal 1 1 add_type]\<rparr>"

definition id_function :: wasm_function where
  "id_function = (function_internal 0 0 id_type)\<lparr>f_code_block := Some id_block\<rparr>"

definition add_function :: wasm_function where
  "add_function = (function_internal 1 1 add_type)\<lparr>f_code_block := Some add_block\<rparr>"

definition linked_module :: wasm_module where
  "linked_module = declared_module\<lparr>m_functions := [id_function, add_function]\<rparr>"

lemmas two_functions = id_type_def add_type_def id_block_def add_block_def declared_module_def
  id_function_def add_function_def linked_module_def function_internal_def ex_module_def module_new_def

lemma generate_id:
  "generate 0 0 (from_slice id_body) [I32] [I32] declared_module
     = Ok (id_block, \<lparr>blob = id_body, position = 4\<rparr>)"
  by (simp add: id_body_def id_block_def generate_eval cong: and_then_weak_cong)

lemma generate_add:
  "generate 1 0 (from_slice add_body) [I32, I32] [I32] declared_module
     = Ok (add_block, \<lparr>blob = add_body, position = 9\<rparr>)"
  by (simp add: add_body_def two_functions generate_eval cong: and_then_weak_cong)

text \<open>
  An argument that is lost.  Both functions pass the verifier.  The value stack of function 1
  has two slots, too few for the locals of the callee behind the first operand, so the callee's
  locals are allocated, and the loop that fills them skips on the wrong side: it moves the caller's
  stack up by the height below the arguments instead of taking the arguments.  The callee reads a
  fresh slot, and for all \<open>a\<close> and \<open>b\<close> the call computes \<open>a + 0\<close> where the
  program asks for \<open>a + b\<close>.
\<close>

theorem call_loses_argument:
  "generate 0 0 (from_slice id_body) [I32] [I32] declared_module
     = Ok (id_block, \<lparr>blob = id_body, position = 4\<rparr>) \<and>
   generate 1 0 (from_slice add_body) [I32, I32] [I32] declared_module
     = Ok (add_block, \<lparr>blob = add_body, position = 9\<rparr>) \<and>
   (\<exists>st. invoke host tr 9 linked_module add_function [V_I32 a, V_I32 b] = Some (Ok (Some (V_I32 a), st)))"
proof (intro conjI)
  show "\<exists>st. invoke host tr 9 linked_module add_function [V_I32 a, V_I32 b] = Some (Ok (Some (V_I32 a), st))"
    by (simp add: invoke_eval exec_eval two_functions nth_list_update nth_append uv_zero_def cong: eval_congs)
qed (rule generate_id generate_add)+


section \<open>A call without its argument\<close>

definition bare_call_body :: "u8 list" where
  "bare_call_body = [0x00, 0x10, 0x00, 0x1A, 0x0B]"

definition bare_call_block :: code_block where
  "bare_call_block =
     \<lparr>cb_func_index = 1, cb_file_position = 0, cb_local_types = [], cb_max_stack = 1, cb_leaf = False,
      cb_int_codes =
        [imc_new 1 (Single Op_Call) (Call 0) 0, imc_new 4 (Single Op_End) Return (2 ^ 64 - 1)]\<rparr>"

definition bare_call_function :: wasm_function where
  "bare_call_function =
     (function_internal 1 2 \<lparr>param_types = [], result_types = []\<rparr>)\<lparr>f_code_block := Some bare_call_block\<rparr>"

text \<open>
  The verifier does not check the arguments of a call.  The body \<open>call 0; drop\<close> passes,
  although function 0 takes an argument and the stack is empty.  At run time the level below the
  arguments wraps to \<open>2 ^ 64 - 1\<close>, the comparison with the height of the stack wraps too, and
  the unchecked split leaves the value stack.
\<close>

theorem call_underflow_accepted:
  "generate 1 0 (from_slice bare_call_body) [] [] declared_module
     = Ok (bare_call_block, \<lparr>blob = bare_call_body, position = 5\<rparr>) \<and>
   invoke host tr 9 linked_module bare_call_function [] = Some (UB OutOfRange)"
proof
  show "generate 1 0 (from_slice bare_call_body) [] [] declared_module
     = Ok (bare_call_block, \<lparr>blob = bare_call_body, position = 5\<rparr>)"
    by (simp add: bare_call_body_def bare_call_block_def two_functions generate_eval cong: and_then_weak_cong)
  show "invoke host tr 9 linked_module bare_call_function [] = Some (UB OutOfRange)"
    by (simp add: invoke_eval exec_eval two_functions bare_call_function_def bare_call_block_def
        cong: eval_congs)
qed


section \<open>Arguments in place\<close>

lemma slice_write_replicate:
  assumes "slice_ok h sl" "i + n \<le> sl_len sl"
  shows "slice_write sl i (replicate n v) h =
    Ok (h\<lparr>sh_slots := take (sl_offset sl + i) (sh_slots h) @ replicate n v
                            @ drop (sl_offset sl + i + n) (sh_slots h)\<rparr>)"
  using assms by (cases "n = 0") (auto simp: slice_write_def slice_ok_def)

text \<open>
  The arguments of a call when the caller's stack has room.  If the value stack reaches at
  least \<open>local_len\<close> slots beyond the first argument, the callee's locals are that part of the
  stack: local \<open>i\<close> is argument \<open>i\<close>, the declared locals are cleared, nothing below the
  arguments changes, and nothing is allocated.
\<close>

theorem call_arguments_in_place:
  assumes "slice_ok h values" "stack_under + param_len + n \<le> sl_len values" "sl_len values < 2 ^ 64"
  shows "\<exists>locals h'. callee_locals values stack_under (param_len + n) h
      = (Ok (locals, h) :: ('e, heap_slice \<times> stack_heap) outcome) \<and>
    clear_locals locals param_len n h = Ok h' \<and> slice_ok h' locals \<and> slice_ok h' values \<and>
    (\<forall>i < param_len. slice_get h' locals i = slice_get h values (stack_under + i)) \<and>
    (\<forall>i < n. slice_get h' locals (param_len + i) = Ok uv_zero) \<and>
    (\<forall>i < stack_under. slice_get h' values i = slice_get h values i)"
proof -
  let ?locals = "\<lparr>sl_generation = sl_generation values, sl_offset = sl_offset values + stack_under,
      sl_len = sl_len values - stack_under\<rparr>"
  have 1: "callee_locals values stack_under (param_len + n) h = Ok (?locals, h)"
    using assms by (simp add: callee_locals_def usize_add_exact slice_ok_def)
  have ok: "slice_ok h ?locals" using assms by (simp add: slice_ok_def)
  have m: "min n (sl_len ?locals - param_len) = n" using assms(2) by simp
  have fits: "param_len + n \<le> sl_len ?locals" using assms(2) by simp
  have 2: "clear_locals ?locals param_len n h =
      Ok (h\<lparr>sh_slots := take (sl_offset ?locals + param_len) (sh_slots h) @ replicate n uv_zero
                              @ drop (sl_offset ?locals + param_len + n) (sh_slots h)\<rparr>)"
    unfolding clear_locals_def m by (rule slice_write_replicate [OF ok fits])
  show ?thesis
    by (rule exI, rule exI, rule conjI [OF 1], rule conjI [OF 2])
      (use assms in \<open>auto simp: slice_ok_def slice_get_def nth_append add.assoc\<close>)
qed

theorem call_arguments_in_place_witness:
  "\<exists>locals. callee_locals \<lparr>sl_generation = 0, sl_offset = 0, sl_len = 4\<rparr> 1 (1 + 1)
      \<lparr>sh_slots = [W32 1, W32 2, W32 3, W32 4], sh_capacity = 64, sh_generation = 0, sh_stack_pointer = 32\<rparr>
     = (Ok (locals, \<lparr>sh_slots = [W32 1, W32 2, W32 3, W32 4], sh_capacity = 64, sh_generation = 0,
              sh_stack_pointer = 32\<rparr>) :: (unit, heap_slice \<times> stack_heap) outcome)"
proof -
  let ?h = "\<lparr>sh_slots = [W32 1, W32 2, W32 3, W32 4], sh_capacity = 64, sh_generation = 0, sh_stack_pointer = 32\<rparr>"
  let ?v = "\<lparr>sl_generation = 0, sl_offset = 0, sl_len = 4\<rparr>"
  have "slice_ok ?h ?v" by (simp add: slice_ok_def)
  from call_arguments_in_place [OF this, of 1 1 1, where ?'e = unit] show ?thesis
    by auto
qed

end
