(* ===== verification/Loader.thy ===== *)
theory Loader
  imports Generate NameTable
begin

text \<open>
  \<open>WasmLoader\<close> of src/lib/wasm/src/wasm.rs: from the bytes of a file to a \<open>WasmModule\<close>.
  The header is checked, the sections are read one after the other, and each section extends the
  module; the function bodies go through the code generator.

  The module under construction is passed through the parsers.  \<open>load\<close> leaves the module
  half built when a section fails, but \<open>instantiate\<close>, its only caller, then drops the loader,
  so an error carries no module.

  The locale \<open>module_invariant\<close> states when a predicate on the module survives every parser,
  and carries it through the section loop.
\<close>

section \<open>Items of the sections\<close>

definition read_val_type :: "leb128_stream \<Rightarrow> (decode_error, val_type \<times> leb128_stream) outcome" where
  "read_val_type s =
     and_then (read_unsigned s) (\<lambda>(v, s1). and_then (val_type_from_u64 v) (\<lambda>t. Ok (t, s1)))"

definition type_from_stream :: "leb128_stream \<Rightarrow> (decode_error, wasm_type \<times> leb128_stream) outcome" where
  "type_from_stream s =
     and_then (read_unsigned s) (\<lambda>(k, s1).
     and_then (guard (k = 0x60) UnexpectedToken) (\<lambda>_.
     and_then (read_unsigned s1) (\<lambda>(n_params, s2).
     and_then (with_capacity 1 (unat n_params)) (\<lambda>_.
     and_then (read_many read_val_type (unat n_params) s2) (\<lambda>(params, s3).
     and_then (read_unsigned s3) (\<lambda>(n_result, s4).
     and_then (with_capacity 1 (unat n_result)) (\<lambda>_.
     and_then (read_many read_val_type (unat n_result) s4) (\<lambda>(results, s5).
       Ok (\<lparr>param_types = params, result_types = results\<rparr>, s5)))))))))"

text \<open>The table has \<open>min\<close> entries, which fits the address space: \<open>min\<close> has 32 bits.\<close>

definition table_from_stream :: "leb128_stream \<Rightarrow> (decode_error, wasm_table \<times> leb128_stream) outcome" where
  "table_from_stream s =
     and_then (read_unsigned s) (\<lambda>(k, s1).
     and_then (guard (k = 0x70) UnexpectedToken) (\<lambda>_.
     and_then (limit_from_stream s1) (\<lambda>(limit, s2).
       Ok (\<lparr>tbl_limit = limit, tbl_table = replicate (unat (limit_min limit)) 0\<rparr>, s2))))"

definition import_index_from_stream :: "leb128_stream \<Rightarrow> (decode_error, import_index \<times> leb128_stream) outcome" where
  "import_index_from_stream s =
     and_then (read_unsigned s) (\<lambda>(k, s1).
       if k = 0 then and_then (read_unsigned s1) (\<lambda>(v, s2). Ok (Import_Type (unat v), s2))
       else if k = 2 then and_then (limit_from_stream s1) (\<lambda>(l, s2). Ok (Import_Memory l, s2))
       else Err UnexpectedToken)"

definition import_from_stream :: "leb128_stream \<Rightarrow> (decode_error, wasm_import \<times> leb128_stream) outcome" where
  "import_from_stream s =
     and_then (get_string s) (\<lambda>(mod_name, s1).
     and_then (get_string s1) (\<lambda>(name, s2).
     and_then (import_index_from_stream s2) (\<lambda>(index, s3).
       Ok (\<lparr>imp_mod_name = mod_name, imp_name = name, imp_index = index, imp_func_ref = 0\<rparr>, s3))))"

definition export_index_from_stream :: "leb128_stream \<Rightarrow> (decode_error, export_index \<times> leb128_stream) outcome" where
  "export_index_from_stream s =
     and_then (read_unsigned s) (\<lambda>(k, s1).
       if k = 0 then and_then (read_unsigned s1) (\<lambda>(v, s2). Ok (Export_Function (unat v), s2))
       else if k = 1 then and_then (read_unsigned s1) (\<lambda>(v, s2). Ok (Export_Table (unat v), s2))
       else if k = 2 then and_then (read_unsigned s1) (\<lambda>(v, s2). Ok (Export_Memory (unat v), s2))
       else if k = 3 then and_then (read_unsigned s1) (\<lambda>(v, s2). Ok (Export_Global (unat v), s2))
       else Err UnexpectedToken)"

definition export_from_stream :: "leb128_stream \<Rightarrow> (decode_error, wasm_export \<times> leb128_stream) outcome" where
  "export_from_stream s =
     and_then (get_string s) (\<lambda>(name, s1).
     and_then (export_index_from_stream s1) (\<lambda>(index, s2). Ok (\<lparr>exp_name = name, exp_index = index\<rparr>, s2)))"

definition read_end :: "leb128_stream \<Rightarrow> (decode_error, leb128_stream) outcome" where
  "read_end s =
     and_then (read_byte s) (\<lambda>(v, s1). if single_new v = Some Op_End then Ok s1 else Err UnexpectedToken)"

definition eval_expr :: "leb128_stream \<Rightarrow> (decode_error, wasm_value \<times> leb128_stream) outcome" where
  "eval_expr s =
     and_then (read_byte s) (\<lambda>(opc, s1).
       if single_new opc = Some Op_I32Const then
         and_then (read_signed s1) (\<lambda>(r, s2). and_then (read_end s2) (\<lambda>s3. Ok (V_I32 (ucast r), s3)))
       else if single_new opc = Some Op_I64Const then
         and_then (read_signed s1) (\<lambda>(r, s2). and_then (read_end s2) (\<lambda>s3. Ok (V_I64 r, s3)))
       else Err UnexpectedToken)"

text \<open>\<open>i32 as usize\<close> extends the sign: a negative offset becomes a huge one.\<close>

definition eval_offset :: "leb128_stream \<Rightarrow> (decode_error, nat \<times> leb128_stream) outcome" where
  "eval_offset s =
     and_then (eval_expr s) (\<lambda>(v, s1).
     and_then (map_err (\<lambda>_. InvalidParameter) (value_get_u32 v)) (\<lambda>w.
       Ok (unat (scast w :: u64), s1)))"


section \<open>Sections\<close>

text \<open>What a resolver says about an import; a Rust function pointer is a handle, as in IntCode.\<close>

datatype import_result = Import_Ok nat | Import_NoModule | Import_NoMethod | Import_Later

type_synonym resolver = "u8 list \<Rightarrow> u8 list \<Rightarrow> wasm_type \<Rightarrow> import_result"

type_synonym loading = "wasm_module \<times> leb128_stream"

text \<open>\<open>for i in 0..n\<close>, with the loop variable, over the module and the stream.\<close>

primrec for_items :: "(nat \<Rightarrow> 's \<Rightarrow> ('e, 's) outcome) \<Rightarrow> nat \<Rightarrow> nat \<Rightarrow> 's \<Rightarrow> ('e, 's) outcome" where
  "for_items f i 0 st = Ok st"
| "for_items f i (Suc n) st = and_then (f i st) (for_items f (i + 1) n)"

definition counted :: "(nat \<Rightarrow> loading \<Rightarrow> (decode_error, loading) outcome) \<Rightarrow> wasm_section \<Rightarrow> wasm_module
    \<Rightarrow> (decode_error, wasm_module) outcome" where
  "counted item sec md =
     and_then (read_unsigned (sec_stream sec)) (\<lambda>(n_items, s1).
     and_then (for_items item 0 (unat n_items) (md, s1)) (\<lambda>(md', _). Ok md'))"

fun type_item :: "nat \<Rightarrow> loading \<Rightarrow> (decode_error, loading) outcome" where
  "type_item i (md, s) =
     and_then (type_from_stream s) (\<lambda>(ft, s1). Ok (md\<lparr>m_types := m_types md @ [ft]\<rparr>, s1))"

definition parse_sec_type :: "wasm_section \<Rightarrow> wasm_module \<Rightarrow> (decode_error, wasm_module) outcome" where
  "parse_sec_type = counted type_item"

definition resolve :: "resolver \<Rightarrow> wasm_import \<Rightarrow> wasm_type \<Rightarrow> (decode_error, nat) outcome" where
  "resolve res imp ft =
     (case res (imp_mod_name imp) (imp_name imp) ft of
        Import_Ok v \<Rightarrow> Ok v
      | Import_NoMethod \<Rightarrow> Err (NoMethod (imp_name imp))
      | Import_NoModule \<Rightarrow> Err (NoModule (imp_mod_name imp))
      | Import_Later \<Rightarrow> Panic)"

fun import_item :: "resolver \<Rightarrow> nat \<Rightarrow> loading \<Rightarrow> (decode_error, loading) outcome" where
  "import_item res i (md, s) =
     and_then (import_from_stream s) (\<lambda>(imp, s1).
       case imp_index imp of
         Import_Type index \<Rightarrow>
           and_then (ok_or InvalidType (get_at (m_types md) index)) (\<lambda>ft.
           and_then (resolve res imp ft) (\<lambda>dlink.
             Ok (md\<lparr>m_functions := m_functions md @ [function_from_import (m_n_ext_func md) index ft dlink],
                    m_n_ext_func := m_n_ext_func md + 1,
                    m_imports := m_imports md @ [imp\<lparr>imp_func_ref := m_n_ext_func md\<rparr>]\<rparr>, s1)))
       | Import_Memory memtype \<Rightarrow>
           Ok (md\<lparr>m_memories := m_memories md @ [memory_new memtype],
                  m_imports := m_imports md @ [imp]\<rparr>, s1))"

definition parse_sec_import :: "resolver \<Rightarrow> wasm_section \<Rightarrow> wasm_module \<Rightarrow> (decode_error, wasm_module) outcome" where
  "parse_sec_import res = counted (import_item res)"

fun func_item :: "nat \<Rightarrow> nat \<Rightarrow> loading \<Rightarrow> (decode_error, loading) outcome" where
  "func_item base_index i (md, s) =
     and_then (read_unsigned s) (\<lambda>(v, s1).
     and_then (ok_or InvalidType (get_at (m_types md) (unat v))) (\<lambda>ft.
       Ok (md\<lparr>m_functions := m_functions md @ [function_internal (base_index + i) (unat v) ft]\<rparr>, s1)))"

definition parse_sec_func :: "wasm_section \<Rightarrow> wasm_module \<Rightarrow> (decode_error, wasm_module) outcome" where
  "parse_sec_func sec md = counted (func_item (length (m_imports md))) sec md"

text \<open>An exported function learns its export number; an index out of range is ignored.\<close>

definition mark_export :: "nat \<Rightarrow> wasm_export \<Rightarrow> wasm_function list \<Rightarrow> wasm_function list" where
  "mark_export i e fs =
     (case exp_index e of
        Export_Function index \<Rightarrow>
          (if index < length fs then fs[index := (fs ! index)\<lparr>f_origin := Origin_Export i\<rparr>] else fs)
      | _ \<Rightarrow> fs)"

fun export_item :: "nat \<Rightarrow> loading \<Rightarrow> (decode_error, loading) outcome" where
  "export_item i (md, s) =
     and_then (export_from_stream s) (\<lambda>(e, s1).
       Ok (md\<lparr>m_functions := mark_export i e (m_functions md), m_exports := m_exports md @ [e]\<rparr>, s1))"

definition parse_sec_export :: "wasm_section \<Rightarrow> wasm_module \<Rightarrow> (decode_error, wasm_module) outcome" where
  "parse_sec_export = counted export_item"

fun memory_item :: "nat \<Rightarrow> loading \<Rightarrow> (decode_error, loading) outcome" where
  "memory_item i (md, s) =
     and_then (limit_from_stream s) (\<lambda>(limit, s1).
       Ok (md\<lparr>m_memories := m_memories md @ [memory_new limit]\<rparr>, s1))"

definition parse_sec_memory :: "wasm_section \<Rightarrow> wasm_module \<Rightarrow> (decode_error, wasm_module) outcome" where
  "parse_sec_memory = counted memory_item"

fun table_item :: "nat \<Rightarrow> loading \<Rightarrow> (decode_error, loading) outcome" where
  "table_item i (md, s) =
     and_then (table_from_stream s) (\<lambda>(table, s1). Ok (md\<lparr>m_tables := m_tables md @ [table]\<rparr>, s1))"

definition parse_sec_table :: "wasm_section \<Rightarrow> wasm_module \<Rightarrow> (decode_error, wasm_module) outcome" where
  "parse_sec_table = counted table_item"

text \<open>
  The range \<open>offset..offset + n_elements\<close> of an element segment wraps like every sum of the
  release build; an entry beyond the table is read and dropped.
\<close>

fun fill_table :: "nat \<Rightarrow> nat list \<times> leb128_stream \<Rightarrow> (decode_error, nat list \<times> leb128_stream) outcome" where
  "fill_table i (table, s) = and_then (read_unsigned s) (\<lambda>(elem, s1). Ok (table[i := unat elem], s1))"

definition range_len :: "nat \<Rightarrow> nat \<Rightarrow> nat" where
  "range_len offset n = usize_add offset n - offset"

fun elem_item :: "nat \<Rightarrow> loading \<Rightarrow> (decode_error, loading) outcome" where
  "elem_item i (md, s) =
     and_then (read_unsigned s) (\<lambda>(v, s1).
     and_then (eval_offset s1) (\<lambda>(offset, s2).
     and_then (read_unsigned s2) (\<lambda>(n_elements, s3).
     and_then (ok_or InvalidParameter (get_at (m_tables md) (unat v))) (\<lambda>table.
     and_then (for_items fill_table offset (range_len offset (unat n_elements)) (tbl_table table, s3))
       (\<lambda>(entries, s4).
          Ok (md\<lparr>m_tables := (m_tables md)[unat v := table\<lparr>tbl_table := entries\<rparr>]\<rparr>, s4))))))"

definition parse_sec_elem :: "wasm_section \<Rightarrow> wasm_module \<Rightarrow> (decode_error, wasm_module) outcome" where
  "parse_sec_elem = counted elem_item"

fun code_item :: "nat \<Rightarrow> nat \<Rightarrow> loading \<Rightarrow> (decode_error, loading) outcome" where
  "code_item sec_position i (md, s) =
     (let index = i + m_n_ext_func md in
      and_then (ok_or InvalidParameter (get_at (m_functions md) index)) (\<lambda>func_def.
      and_then (read_unsigned s) (\<lambda>(len, s1).
        let file_position = sec_position + position s1 in
        and_then (get_bytes (unat len) s1) (\<lambda>(bytes, s2).
        and_then (generate index file_position (from_slice bytes)
                    (param_types (f_type func_def)) (result_types (f_type func_def)) md) (\<lambda>(body, _).
          Ok (md\<lparr>m_functions := (m_functions md)[index := func_def\<lparr>f_code_block := Some body\<rparr>]\<rparr>, s2))))))"

definition parse_sec_code :: "wasm_section \<Rightarrow> wasm_module \<Rightarrow> (decode_error, wasm_module) outcome" where
  "parse_sec_code sec md = counted (code_item (sec_file_position sec)) sec md"

text \<open>\<open>unwrap\<close>: the error of a segment that does not fit the memory is a panic.\<close>

definition unwrap :: "('e, 'a) outcome \<Rightarrow> ('f, 'a) outcome" where
  "unwrap m = (case m of Ok x \<Rightarrow> Ok x | Err _ \<Rightarrow> Panic | Panic \<Rightarrow> Panic | UB u \<Rightarrow> UB u)"

fun data_item :: "nat \<Rightarrow> loading \<Rightarrow> (decode_error, loading) outcome" where
  "data_item i (md, s) =
     and_then (read_unsigned s) (\<lambda>(v, s1).
     and_then (eval_offset s1) (\<lambda>(offset, s2).
     and_then (read_bytes s2) (\<lambda>(src, s3).
     and_then (ok_or InvalidParameter (get_at (m_memories md) (unat v))) (\<lambda>memory.
     and_then (unwrap (memory_write_slice offset src memory)) (\<lambda>memory'.
       Ok (md\<lparr>m_memories := (m_memories md)[unat v := memory']\<rparr>, s3))))))"

definition parse_sec_data :: "wasm_section \<Rightarrow> wasm_module \<Rightarrow> (decode_error, wasm_module) outcome" where
  "parse_sec_data = counted data_item"

definition parse_sec_start :: "wasm_section \<Rightarrow> wasm_module \<Rightarrow> (decode_error, wasm_module) outcome" where
  "parse_sec_start sec md =
     and_then (read_unsigned (sec_stream sec)) (\<lambda>(index, _). Ok (md\<lparr>m_start := Some (unat index)\<rparr>))"

fun global_item :: "nat \<Rightarrow> loading \<Rightarrow> (decode_error, loading) outcome" where
  "global_item i (md, s) =
     and_then (read_byte s) (\<lambda>(b, s1).
     and_then (val_type_from_u64 (ucast b)) (\<lambda>ty.
     and_then (read_byte s1) (\<lambda>(m, s2).
     and_then (eval_expr s2) (\<lambda>(value, s3).
     and_then (guard (is_valid_type value ty) InvalidGlobal) (\<lambda>_.
     and_then (global_new value (m = 1)) (\<lambda>g.
       Ok (md\<lparr>m_globals := m_globals md @ [g]\<rparr>, s3)))))))"

definition parse_sec_global :: "wasm_section \<Rightarrow> wasm_module \<Rightarrow> (decode_error, wasm_module) outcome" where
  "parse_sec_global = counted global_item"

definition parse_sec_data_count :: "wasm_section \<Rightarrow> wasm_module \<Rightarrow> (decode_error, wasm_module) outcome" where
  "parse_sec_data_count sec md =
     and_then (read_unsigned (sec_stream sec)) (\<lambda>(count, _). Ok (md\<lparr>m_data_count := Some (unat count)\<rparr>))"

text \<open>\<open>.ok()\<close>: an error becomes \<open>None\<close>.\<close>

definition ok_option :: "('e, 'a) outcome \<Rightarrow> ('f, 'a option) outcome" where
  "ok_option m = (case m of Ok x \<Rightarrow> Ok (Some x) | Err _ \<Rightarrow> Ok None | Panic \<Rightarrow> Panic | UB u \<Rightarrow> UB u)"

definition name_section_name :: "u8 list" where
  "name_section_name = [0x6E, 0x61, 0x6D, 0x65]"

definition parse_custom :: "wasm_section \<Rightarrow> wasm_module \<Rightarrow> (decode_error, wasm_module) outcome" where
  "parse_custom sec md =
     and_then (ok_option (get_string (sec_stream sec))) (\<lambda>r.
       case r of
         Some (name, s1) \<Rightarrow>
           (if name = name_section_name
            then and_then (ok_option (name_from_stream s1)) (\<lambda>names. Ok (md\<lparr>m_names := names\<rparr>))
            else Ok md)
       | None \<Rightarrow> Ok md)"

definition parse_section :: "resolver \<Rightarrow> wasm_section \<Rightarrow> wasm_module \<Rightarrow> (decode_error, wasm_module) outcome" where
  "parse_section res sec =
     (case sec_type sec of
        Sec_Custom \<Rightarrow> parse_custom sec
      | Sec_Type \<Rightarrow> parse_sec_type sec
      | Sec_Import \<Rightarrow> parse_sec_import res sec
      | Sec_Table \<Rightarrow> parse_sec_table sec
      | Sec_Memory \<Rightarrow> parse_sec_memory sec
      | Sec_Element \<Rightarrow> parse_sec_elem sec
      | Sec_Function \<Rightarrow> parse_sec_func sec
      | Sec_Export \<Rightarrow> parse_sec_export sec
      | Sec_Code \<Rightarrow> parse_sec_code sec
      | Sec_Data \<Rightarrow> parse_sec_data sec
      | Sec_Start \<Rightarrow> parse_sec_start sec
      | Sec_Global \<Rightarrow> parse_sec_global sec
      | Sec_DataCount \<Rightarrow> parse_sec_data_count sec)"


section \<open>The file\<close>

lemma section_triple_advance:
  "next_section_triple s = Ok (Some (ty, fp, len), s') \<Longrightarrow>
     blob s' = blob s \<and> position s' = fp - 8 + len \<and> position s < fp - 8"
  by (auto simp: next_section_triple_def outcome_iff Let_def
      split: if_splits dest!: byte.rd_advance uleb.rd_advance)

lemma next_section_advance:
  assumes "next_section s = Ok (Some sec, s')"
  shows "blob s' = blob s \<and> position s < position s' \<and> position s' \<le> length (blob s)"
proof -
  from assms obtain r s1 where r: "next_section_triple s = Ok (r, s1)"
    by (auto simp: next_section_def and_then_Ok_iff)
  with assms obtain ty fp len where "r = Some (ty, fp, len)"
    by (cases r) (auto simp: next_section_def)
  with r assms have "next_section_triple s = Ok (Some (ty, fp, len), s')" "fp - 8 + len \<le> length (blob s')"
    by (auto simp: next_section_def Let_def split: if_splits)
  then show ?thesis using section_triple_advance by fastforce
qed

function load_loop :: "resolver \<Rightarrow> leb128_stream \<Rightarrow> wasm_module \<Rightarrow> (decode_error, wasm_module) outcome" where
  "load_loop res s md =
     and_then (next_section s) (\<lambda>(r, s').
       case r of
         None \<Rightarrow> Ok md
       | Some sec \<Rightarrow> and_then (parse_section res sec md) (\<lambda>md'. load_loop res s' md'))"
  by pat_completeness auto
termination
  by (relation "measure (\<lambda>(res, s, md). length (blob s) - position s)")
    (auto dest!: next_section_advance)

declare load_loop.simps [simp del]

text \<open>\<open>load\<close>; slicing \<open>blob[8..]\<close> panics on a shorter blob.\<close>

definition load :: "u8 list \<Rightarrow> resolver \<Rightarrow> wasm_module \<Rightarrow> (decode_error, wasm_module) outcome" where
  "load bs res md = (if 8 \<le> length bs then load_loop res (from_slice (drop 8 bs)) md else Panic)"

definition minimal_mod_size :: nat where "minimal_mod_size = 8"

definition magic :: u32 where "magic = 0x6D736100"

definition ver_current :: u32 where "ver_current = 1"

text \<open>\<open>identity\<close>: the two unchecked reads are behind the check of the length.\<close>

definition identity :: "u8 list \<Rightarrow> ('e, bool) outcome" where
  "identity bs =
     (if minimal_mod_size \<le> length bs then
        and_then (ptr_read 4 bs 0) (\<lambda>w.
          if w = magic then and_then (ptr_read 4 bs 4) (\<lambda>v. Ok (v = ver_current)) else Ok False)
      else Ok False)"

definition instantiate :: "u8 list \<Rightarrow> resolver \<Rightarrow> (decode_error, wasm_module) outcome" where
  "instantiate bs res =
     and_then (identity bs) (\<lambda>b. if b then load bs res module_new else Err BadExecutable)"

end
