(* ===== verification/LoaderSafety.thy ===== *)
theory LoaderSafety
  imports Loader InterpSafety
begin

text \<open>
  What the loader guarantees: an instantiated module is well formed (every code block keeps the
  promise of the verifier for the finished module, whatever the order of the sections), loading
  has no undefined behaviour on any bytes, sections written one after the other are parsed in
  order, and where the loader panics.
\<close>

section \<open>The generator has no undefined behaviour\<close>

context safe_reader
begin

lemma gen_read_no_ub: "no_ub (gen_read rd st)"
  by (auto simp: gen_read_def returns_no_ub)

end

lemma read_target_returns: "returns (read_target bs s)"
  by (auto simp: read_target_def)

lemma many_no_ub: "(\<And>s. no_ub (rd s)) \<Longrightarrow> no_ub (read_many rd n s)"
  by (induction n arbitrary: s) auto

lemma gen_helper_no_ub [simp]:
  "no_ub (gen_pop st)" "no_ub (gen_last st)" "no_ub (gen_drops n st)"
  "no_ub (gen_read read_unsigned st)" "no_ub (gen_read read_signed st)" "no_ub (gen_read read_memarg st)"
  "no_ub (gen_read read_opcode st)"
  "no_ub (gen_read read_block_type st)" "no_ub (gen_read (read_many (read_target bs) n) st)"
  by (auto simp: gen_pop_def gen_last_def gen_drops_def uleb.gen_read_no_ub sleb.gen_read_no_ub
      memarg.gen_read_no_ub opc.gen_read_no_ub gen_read_def returns_no_ub read_target_returns many_no_ub
      read_block_type_def block_type_from_i64_def Let_def split: list.splits)

lemma gen_conv_no_ub [simp]: "no_ub (gen_conv c pos opc st)" "no_ub (gen_reinterpret p pos opc st)"
  by (cases c; auto simp: gen_unary_def gen_convert_def Let_def)
    (cases p; auto simp: gen_convert_def)

lemma gen_single_no_ub [simp]: "no_ub (gen_single md lts pos op st)"
  by (cases op)
    (auto simp: gen_single_def Let_def gen_unreachable_def gen_block_def gen_if_def gen_else_def gen_end_def
      gen_br_def gen_br_if_def gen_br_table_def gen_return_def gen_call_def gen_call_indirect_def gen_drop_def
      gen_select_def gen_local_get_def gen_local_set_def gen_local_tee_def gen_global_get_def gen_global_set_def
      gen_load_def gen_store_def gen_memory_size_def gen_memory_grow_def gen_i32_const_def gen_i64_const_def
      gen_i32_unary_def gen_i64_unary_def gen_i32_compare_def gen_i64_compare_def gen_i32_binary_def
      gen_i64_binary_def gen_unary_def gen_compare_def gen_binary_def gen_convert_def
      split: list.splits option.splits)

lemma gen_loop_no_ub: "no_ub (gen_loop md lts st)"
proof (induction md lts st rule: gen_loop.induct)
  case (1 md lts st)
  have "no_ub (gen_step md lts st)"
    by (auto simp: gen_step_def gen_fc_def gen_memory_copy_def gen_memory_fill_def Let_def
        split: opcode.splits opcode_fc.splits)
  with 1 show ?case by (auto simp: gen_loop.simps [of md lts st])
qed

lemma compact_no_ub: "no_ub (compact cs out blocks)"
proof (induction cs arbitrary: out blocks)
  case (Cons c cs)
  then show ?case by (cases c rule: compact_cases) auto
qed simp

lemma map_outcome_no_ub: "(\<And>x. no_ub (f x)) \<Longrightarrow> no_ub (map_outcome f xs)"
  by (induction xs) auto

lemma adjust_no_ub:
  assumes "\<And>o' t. no_ub (f o' t)"
  shows "no_ub (adjust_branch_target f c)"
  by (cases "imc_mnemonic c")
    (auto simp: adjust_branch_target_def adjust_mnemonic_def assms map_outcome_no_ub)

lemma backend_no_ub: "no_ub (backend st)"
  by (auto simp: backend_eq fix_branches_def branch_position_def compact_no_ub
      intro!: map_outcome_no_ub adjust_no_ub)

lemma pop_results_no_ub: "no_ub (pop_results rs vs)"
  by (induction rs vs rule: pop_results.induct) auto

lemma val_type_from_u64_no_ub [simp]: "no_ub (val_type_from_u64 v)"
  by (simp add: val_type_from_u64_def)

lemma reader_no_ub [simp]:
  "no_ub (read_byte s)" "no_ub (read_unsigned s)" "no_ub (read_signed s)" "no_ub (read_bytes s)"
  "no_ub (get_string s)" "no_ub (limit_from_stream s)" "no_ub (get_bytes n s)"
  by (simp_all add: returns_no_ub)

lemma read_locals_no_ub: "no_ub (read_locals n lts s)"
  by (induction n arbitrary: lts s) auto

lemma generate_no_ub: "no_ub (generate fi fp s params results md)"
  by (auto simp: generate_def local_var_types_def read_locals_no_ub gen_loop_no_ub check_results_def
      pop_results_no_ub backend_no_ub)


section \<open>Loading has no undefined behaviour\<close>

lemma for_items_no_ub: "(\<And>i st. no_ub (f i st)) \<Longrightarrow> no_ub (for_items f i n st)"
  by (induction n arbitrary: i st) auto

lemma counted_no_ub: "(\<And>i st. no_ub (item i st)) \<Longrightarrow> no_ub (counted item sec md)"
  by (auto simp: counted_def for_items_no_ub)

lemma wrap_no_ub [simp]:
  "no_ub (unwrap m) \<longleftrightarrow> no_ub m" "no_ub (ok_option m) \<longleftrightarrow> no_ub m"
  by (cases m; simp add: unwrap_def ok_option_def)+

lemma read_val_type_no_ub [simp]: "no_ub (read_val_type s)"
  by (auto simp: read_val_type_def)

lemma from_stream_no_ub [simp]:
  "no_ub (type_from_stream s)" "no_ub (table_from_stream s)" "no_ub (import_from_stream s)"
  "no_ub (export_from_stream s)"
  by (auto simp: type_from_stream_def table_from_stream_def import_from_stream_def many_no_ub
      import_index_from_stream_def export_from_stream_def export_index_from_stream_def)

lemma eval_no_ub [simp]: "no_ub (eval_expr s)" "no_ub (eval_offset s)"
proof -
  show e: "no_ub (eval_expr s)" by (auto simp: eval_expr_def read_end_def)
  have "no_ub (value_get_u32 v)" for v by (cases v) auto
  with e show "no_ub (eval_offset s)" by (auto simp: eval_offset_def)
qed

text \<open>The range check of \<open>write_slice\<close> covers its raw copy.\<close>

lemma memory_write_slice_no_ub [simp]: "no_ub (memory_write_slice offset src m)"
  by (simp add: memory_write_slice_def ptr_copy_def Let_def)

lemma item_no_ub [simp]:
  "no_ub (type_item i st)" "no_ub (import_item res i st)" "no_ub (func_item b i st)"
  "no_ub (export_item i st)" "no_ub (memory_item i st)" "no_ub (table_item i st)"
  "no_ub (elem_item i st)" "no_ub (code_item p i st)" "no_ub (data_item i st)" "no_ub (global_item i st)"
proof -
  obtain md s where st: "st = (md, s)" by force
  have "no_ub (fill_table i (t, s))" for i t s by auto
  then have "no_ub (for_items fill_table i n (t, s))" for i n t s
    by (intro for_items_no_ub) (metis surj_pair)
  then show "no_ub (elem_item i st)" by (auto simp: st)
  have "no_ub (value_get_u32 v)" for v by (cases v) auto
  then show "no_ub (global_item i st)" by (auto simp: st global_new_def)
qed (cases st; auto simp: resolve_def generate_no_ub Let_def
    split: import_result.splits import_index.splits)+

lemma name_loop_no_ub: "no_ub (name_loop s nm)"
proof (induction s nm rule: name_loop.induct)
  case (1 s nm)
  have a: "no_ub (read_assoc s)" for s by (auto simp: read_assoc_def)
  have "no_ub (read_name_map s)" for s by (auto simp: read_name_map_def a many_no_ub)
  then have "no_ub (name_subsection i b nm)" for i b
    using reader_no_ub(5) [of "from_slice b"]
    by (auto simp: name_subsection_def simp del: reader_no_ub split: option.splits name_subsection_type.splits outcome.splits)
  with 1 show ?case by (auto simp: name_loop.simps [of s nm] read_subsection_def)
qed

lemma parse_section_no_ub: "no_ub (parse_section res sec md)"
  by (auto simp: parse_section_def parse_custom_def parse_sec_type_def parse_sec_import_def
      parse_sec_table_def parse_sec_memory_def parse_sec_elem_def parse_sec_func_def parse_sec_export_def
      parse_sec_code_def parse_sec_data_def parse_sec_start_def parse_sec_global_def
      parse_sec_data_count_def counted_no_ub name_from_stream_def name_loop_no_ub
      split: section_type.splits option.splits)

lemma load_loop_no_ub: "no_ub (load_loop res s md)"
proof (induction res s md rule: load_loop.induct)
  case (1 res s md)
  have "no_ub (next_section s)"
    by (auto simp: next_section_def next_section_triple_def Let_def split: option.splits)
  with 1 parse_section_no_ub show ?case
    by (auto simp: load_loop.simps [of res s md] split: option.splits)
qed

text \<open>
  C5: Loading never leaves the language.  On any bytes and with any resolver,
  \<open>instantiate\<close> returns a module, returns an error or panics.  The raw accesses on the way
  stay inside their buffers: the reads of the header behind the length check, the copy of a data
  segment into the memory behind the range check of \<open>write_slice\<close>, and the moves and the
  \<open>set_len\<close> of the compaction of the codes, which have no check of their own.
\<close>

theorem instantiate_no_ub: "instantiate bs res \<noteq> UB u"
proof -
  have "no_ub (identity bs :: (decode_error, bool) outcome)"
    by (auto simp: identity_def minimal_mod_size_def ptr_read_def)
  then have "no_ub (instantiate bs res)"
    by (auto simp: instantiate_def load_def load_loop_no_ub)
  then show ?thesis by (simp add: no_ub_iff)
qed


section \<open>Well-formed modules\<close>

definition function_ok :: "wasm_module \<Rightarrow> wasm_function \<Rightarrow> bool" where
  "function_ok md f \<longleftrightarrow>
     get_at (m_types md) (f_type_index f) = Some (f_type f) \<and>
     (\<forall>cb. f_code_block f = Some cb \<longrightarrow>
        block_ok md cb \<and> take (length (param_types (f_type f))) (cb_local_types cb) = param_types (f_type f))"

definition import_ok :: "wasm_module \<Rightarrow> wasm_import \<Rightarrow> bool" where
  "import_ok md imp =
     (case imp_index imp of
        Import_Type i \<Rightarrow> i < length (m_types md) \<and> imp_func_ref imp < m_n_ext_func md
      | Import_Memory _ \<Rightarrow> True)"

definition table_ok :: "wasm_table \<Rightarrow> bool" where
  "table_ok t \<longleftrightarrow> length (tbl_table t) = unat (limit_min (tbl_limit t))"

definition linked :: "wasm_function \<Rightarrow> bool" where
  "linked f \<longleftrightarrow> f_dlink f \<noteq> None"

definition module_wf :: "wasm_module \<Rightarrow> bool" where
  "module_wf md \<longleftrightarrow>
     (\<forall>f \<in> set (m_functions md). function_ok md f) \<and>
     (\<forall>m \<in> set (m_memories md). memory_inv m) \<and>
     (\<forall>t \<in> set (m_tables md). table_ok t) \<and>
     (\<forall>g \<in> set (m_globals md). g_type g = I32) \<and>
     (\<forall>imp \<in> set (m_imports md). import_ok md imp) \<and>
     length (filter linked (m_functions md)) = m_n_ext_func md"

text \<open>The vectors that code refers to by index only grow while a module is loaded.\<close>

definition grows :: "wasm_module \<Rightarrow> wasm_module \<Rightarrow> bool" where
  "grows md md' \<longleftrightarrow>
     (\<exists>ts. m_types md' = m_types md @ ts) \<and>
     length (m_functions md) \<le> length (m_functions md') \<and>
     length (m_globals md) \<le> length (m_globals md') \<and>
     length (m_memories md) \<le> length (m_memories md') \<and>
     m_n_ext_func md \<le> m_n_ext_func md'"

lemma operand_ok_grows: "grows md md' \<Longrightarrow> operand_ok md lts m \<Longrightarrow> operand_ok md' lts m"
  by (cases m) (auto simp: operand_ok_def grows_def has_memory_def)

lemma block_ok_grows: "grows md md' \<Longrightarrow> block_ok md cb \<Longrightarrow> block_ok md' cb"
  by (auto simp: block_ok_def operand_ok_grows)

lemma function_ok_grows: "grows md md' \<Longrightarrow> function_ok md f \<Longrightarrow> function_ok md' f"
  using block_ok_grows
  by (fastforce simp: function_ok_def get_at_def nth_append grows_def split: if_splits)

lemma import_ok_grows: "grows md md' \<Longrightarrow> import_ok md imp \<Longrightarrow> import_ok md' imp"
  by (auto simp: import_ok_def grows_def split: import_index.splits)

text \<open>A step keeps the module well formed when it only has to answer for what it adds.\<close>

lemma module_wf_step:
  assumes "module_wf md" "grows md md'"
    and "\<And>f. f \<in> set (m_functions md') \<Longrightarrow> f \<in> set (m_functions md) \<or> function_ok md' f"
    and "\<And>m. m \<in> set (m_memories md') \<Longrightarrow> m \<in> set (m_memories md) \<or> memory_inv m"
    and "\<And>t. t \<in> set (m_tables md') \<Longrightarrow> t \<in> set (m_tables md) \<or> table_ok t"
    and "\<And>g. g \<in> set (m_globals md') \<Longrightarrow> g \<in> set (m_globals md) \<or> g_type g = I32"
    and "\<And>imp. imp \<in> set (m_imports md') \<Longrightarrow> imp \<in> set (m_imports md) \<or> import_ok md' imp"
    and "length (filter linked (m_functions md')) = m_n_ext_func md'"
  shows "module_wf md'"
  using assms function_ok_grows [OF assms(2)] import_ok_grows [OF assms(2)]
  unfolding module_wf_def by blast

lemma module_wf_new: "module_wf module_new"
  by (simp add: module_wf_def module_new_def)

lemma module_wf_get:
  "module_wf md \<Longrightarrow> get_at (m_functions md) i = Some f \<Longrightarrow> function_ok md f"
  "module_wf md \<Longrightarrow> get_at (m_tables md) i = Some t \<Longrightarrow> table_ok t"
  "module_wf md \<Longrightarrow> get_at (m_memories md) i = Some m \<Longrightarrow> memory_inv m"
  by (auto simp: module_wf_def dest: get_at_in_set)

lemma module_wf_count: "module_wf md \<Longrightarrow> length (filter linked (m_functions md)) = m_n_ext_func md"
  by (simp add: module_wf_def)

text \<open>Replacing a function by one that links to the same host function keeps their number.\<close>

lemma filter_update_length:
  "i < length xs \<Longrightarrow> P y = P (xs ! i) \<Longrightarrow> length (filter P (xs[i := y])) = length (filter P xs)"
  by (induction xs arbitrary: i) (auto split: nat.splits)

lemma set_update_cases: "x \<in> set (xs[i := y]) \<Longrightarrow> x \<in> set xs \<or> x = y"
  using set_update_subset_insert [of xs i y] by auto

lemma type_item_wf: "module_wf md \<Longrightarrow> type_item i (md, s) = Ok (md', s') \<Longrightarrow> module_wf md'"
  by (rule module_wf_step [of md]) (auto simp: outcome_iff grows_def module_wf_count)

lemma import_item_wf:
  assumes wf: "module_wf md" and "import_item res i (md, s) = Ok (md', s')"
  shows "module_wf md'"
proof -
  from assms obtain imp s1 where imp: "import_from_stream s = Ok (imp, s1)"
    by (auto simp: outcome_iff)
  show ?thesis
  proof (cases "imp_index imp")
    case (Import_Type index)
    with assms imp obtain ft dlink where "get_at (m_types md) index = Some ft"
      "md' = md\<lparr>m_functions := m_functions md @ [function_from_import (m_n_ext_func md) index ft dlink],
          m_n_ext_func := m_n_ext_func md + 1, m_imports := m_imports md @ [imp\<lparr>imp_func_ref := m_n_ext_func md\<rparr>]\<rparr>"
      by (auto simp: outcome_iff)
    with wf Import_Type show ?thesis
      by - (rule module_wf_step [OF wf], auto simp: grows_def module_wf_count linked_def function_from_import_def function_ok_def import_ok_def get_at_Some_iff)
  next
    case (Import_Memory l)
    with assms imp show ?thesis
      by - (rule module_wf_step [OF wf], auto simp: grows_def module_wf_count memory_inv_new import_ok_def)
  qed
qed

lemma func_item_wf: "module_wf md \<Longrightarrow> func_item b i (md, s) = Ok (md', s') \<Longrightarrow> module_wf md'"
  by (rule module_wf_step [of md])
    (auto simp: outcome_iff grows_def module_wf_count linked_def function_internal_def function_ok_def)

lemma export_item_wf:
  assumes wf: "module_wf md" and "export_item i (md, s) = Ok (md', s')"
  shows "module_wf md'"
proof -
  from assms obtain e where md': "md' = md\<lparr>m_functions := mark_export i e (m_functions md), m_exports := m_exports md @ [e]\<rparr>"
    by (auto simp: outcome_iff)
  have g: "grows md md'" by (auto simp: md' grows_def mark_export_def split: export_index.splits)
  have "f \<in> set (m_functions md) \<or> function_ok md f" if "f \<in> set (m_functions md')" for f
    using that module_wf_get(1) [OF wf]
    by (auto simp: md' mark_export_def function_ok_def get_at_Some_iff split: export_index.splits if_splits
        dest!: set_update_cases)
  with g function_ok_grows have "f \<in> set (m_functions md) \<or> function_ok md' f"
    if "f \<in> set (m_functions md')" for f using that by blast
  moreover have "length (filter linked (m_functions md')) = m_n_ext_func md'"
    using wf by (auto simp: md' mark_export_def module_wf_count linked_def filter_update_length split: export_index.splits)
  ultimately show ?thesis using wf g by - (rule module_wf_step [OF wf], auto simp: md')
qed

lemma memory_item_wf: "module_wf md \<Longrightarrow> memory_item i (md, s) = Ok (md', s') \<Longrightarrow> module_wf md'"
  by (rule module_wf_step [of md]) (auto simp: outcome_iff grows_def module_wf_count memory_inv_new)

lemma table_item_wf: "module_wf md \<Longrightarrow> table_item i (md, s) = Ok (md', s') \<Longrightarrow> module_wf md'"
  by (rule module_wf_step [of md])
    (auto simp: outcome_iff grows_def module_wf_count table_from_stream_def table_ok_def)

lemma fill_table_length:
  "for_items fill_table i n (t, s) = Ok (t', s') \<Longrightarrow> length t' = length t"
  by (induction n arbitrary: i t s) (auto simp: outcome_iff)

lemma elem_item_wf:
  assumes wf: "module_wf md" and "elem_item i (md, s) = Ok (md', s')"
  shows "module_wf md'"
proof -
  from assms obtain j table entries where "get_at (m_tables md) j = Some table"
    "length entries = length (tbl_table table)" "md' = md\<lparr>m_tables := (m_tables md)[j := table\<lparr>tbl_table := entries\<rparr>]\<rparr>"
    by (auto simp: outcome_iff dest!: fill_table_length)
  with wf module_wf_get(2) [OF wf] show ?thesis
    by - (rule module_wf_step [OF wf], auto simp: grows_def module_wf_count table_ok_def dest!: set_update_cases)
qed

lemma generate_params:
  "generate fi fp s params results md = Ok (cb, s') \<Longrightarrow> \<exists>lts. cb_local_types cb = params @ lts"
  by (auto simp: generate_def local_var_types_def outcome_iff)

lemma code_item_wf:
  assumes wf: "module_wf md" and "code_item p i (md, s) = Ok (md', s')"
  shows "module_wf md'"
proof -
  let ?i = "i + m_n_ext_func md"
  from assms obtain f fp bs cb s1 where f: "get_at (m_functions md) ?i = Some f"
    "generate ?i fp (from_slice bs) (param_types (f_type f)) (result_types (f_type f)) md = Ok (cb, s1)"
    "md' = md\<lparr>m_functions := (m_functions md)[?i := f\<lparr>f_code_block := Some cb\<rparr>]\<rparr>"
    by (auto simp: outcome_iff Let_def)
  have g: "grows md md'" by (simp add: f(3) grows_def)
  have "function_ok md (f\<lparr>f_code_block := Some cb\<rparr>)"
    using module_wf_get(1) [OF wf f(1)] generate_block_ok [OF f(2)] generate_params [OF f(2)]
    by (auto simp: function_ok_def)
  with g wf f function_ok_grows [OF g] show ?thesis
    by - (rule module_wf_step [OF wf], auto simp: module_wf_count linked_def get_at_Some_iff filter_update_length dest!: set_update_cases)
qed

lemma memory_write_slice_inv:
  "memory_inv m \<Longrightarrow> memory_write_slice offset src m = Ok m' \<Longrightarrow> memory_inv m'"
  by (auto simp: memory_inv_def memory_write_slice_def ptr_copy_def outcome_iff Let_def split: if_splits)

lemma unwrap_Ok_iff [outcome_iff]: "unwrap m = Ok x \<longleftrightarrow> m = Ok x"
  by (cases m) (auto simp: unwrap_def)

lemma data_item_wf:
  assumes wf: "module_wf md" and "data_item i (md, s) = Ok (md', s')"
  shows "module_wf md'"
proof -
  from assms obtain j m offset src m' where m: "get_at (m_memories md) j = Some m"
    "memory_write_slice offset src m = Ok m'" and md': "md' = md\<lparr>m_memories := (m_memories md)[j := m']\<rparr>"
    by (auto simp: outcome_iff)
  have "memory_inv m'" by (rule memory_write_slice_inv [OF module_wf_get(3) [OF wf m(1)] m(2)])
  with wf show ?thesis
    by - (rule module_wf_step [OF wf], auto simp: md' grows_def module_wf_count dest!: set_update_cases)
qed

lemma global_item_wf: "module_wf md \<Longrightarrow> global_item i (md, s) = Ok (md', s') \<Longrightarrow> module_wf md'"
  by (rule module_wf_step [of md])
    (auto simp: outcome_iff grows_def module_wf_count dest!: global_new_i32)


section \<open>Invariants of the section parsers\<close>

locale module_invariant =
  fixes P :: "wasm_module \<Rightarrow> bool"
  assumes type_keeps: "P md \<Longrightarrow> type_item i (md, s) = Ok (md', s') \<Longrightarrow> P md'"
    and import_keeps: "P md \<Longrightarrow> import_item res i (md, s) = Ok (md', s') \<Longrightarrow> P md'"
    and func_keeps: "P md \<Longrightarrow> func_item b i (md, s) = Ok (md', s') \<Longrightarrow> P md'"
    and export_keeps: "P md \<Longrightarrow> export_item i (md, s) = Ok (md', s') \<Longrightarrow> P md'"
    and memory_keeps: "P md \<Longrightarrow> memory_item i (md, s) = Ok (md', s') \<Longrightarrow> P md'"
    and table_keeps: "P md \<Longrightarrow> table_item i (md, s) = Ok (md', s') \<Longrightarrow> P md'"
    and elem_keeps: "P md \<Longrightarrow> elem_item i (md, s) = Ok (md', s') \<Longrightarrow> P md'"
    and code_keeps: "P md \<Longrightarrow> code_item p i (md, s) = Ok (md', s') \<Longrightarrow> P md'"
    and data_keeps: "P md \<Longrightarrow> data_item i (md, s) = Ok (md', s') \<Longrightarrow> P md'"
    and global_keeps: "P md \<Longrightarrow> global_item i (md, s) = Ok (md', s') \<Longrightarrow> P md'"
    and start_keeps: "P md \<Longrightarrow> P (md\<lparr>m_start := st\<rparr>)"
    and names_keeps: "P md \<Longrightarrow> P (md\<lparr>m_names := nm\<rparr>)"
    and data_count_keeps: "P md \<Longrightarrow> P (md\<lparr>m_data_count := n\<rparr>)"
begin

lemma for_items_keeps:
  assumes "\<And>i md s md' s'. P md \<Longrightarrow> f i (md, s) = Ok (md', s') \<Longrightarrow> P md'"
  shows "P md \<Longrightarrow> for_items f i n (md, s) = Ok (md', s') \<Longrightarrow> P md'"
proof (induction n arbitrary: i md s)
  case (Suc n)
  then obtain md1 s1 where "f i (md, s) = Ok (md1, s1)" "for_items f (i + 1) n (md1, s1) = Ok (md', s')"
    by (auto simp: outcome_iff)
  with Suc assms show ?case by blast
qed simp

lemma counted_keeps:
  assumes "\<And>i md s md' s'. P md \<Longrightarrow> item i (md, s) = Ok (md', s') \<Longrightarrow> P md'"
    and "P md" "counted item sec md = Ok md'"
  shows "P md'"
proof -
  from assms(3) obtain n s s' where "for_items item 0 n (md, s) = Ok (md', s')"
    by (auto simp: counted_def outcome_iff)
  with assms(1,2) show ?thesis by (rule for_items_keeps [of item])
qed

lemma custom_keeps:
  assumes "P md" "parse_custom sec md = Ok md'"
  shows "P md'"
proof -
  from assms(2) obtain r where r: "ok_option (get_string (sec_stream sec)) = (Ok r :: (decode_error, _) outcome)"
    by (auto simp: parse_custom_def and_then_Ok_iff)
  with assms names_keeps show ?thesis
    by (cases r) (auto simp: parse_custom_def and_then_Ok_iff split: if_splits)
qed

lemma parse_section_keeps:
  assumes "P md" "parse_section res sec md = Ok md'"
  shows "P md'"
proof (cases "sec_type sec")
  case Sec_Custom
  with assms custom_keeps show ?thesis by (simp add: parse_section_def)
next
  case Sec_Start
  with assms show ?thesis by (auto simp: parse_section_def parse_sec_start_def outcome_iff start_keeps)
next
  case Sec_DataCount
  with assms show ?thesis by (auto simp: parse_section_def parse_sec_data_count_def outcome_iff data_count_keeps)
next
  case Sec_Type
  with assms(2) have "counted (type_item) sec md = Ok md'" by (simp add: parse_section_def parse_sec_type_def)
  with type_keeps assms(1) show ?thesis by (rule counted_keeps)
next
  case Sec_Import
  with assms(2) have "counted (import_item res) sec md = Ok md'" by (simp add: parse_section_def parse_sec_import_def)
  with import_keeps assms(1) show ?thesis by (rule counted_keeps)
next
  case Sec_Function
  with assms(2) have "counted (func_item (length (m_imports md))) sec md = Ok md'" by (simp add: parse_section_def parse_sec_func_def)
  with func_keeps assms(1) show ?thesis by (rule counted_keeps)
next
  case Sec_Table
  with assms(2) have "counted (table_item) sec md = Ok md'" by (simp add: parse_section_def parse_sec_table_def)
  with table_keeps assms(1) show ?thesis by (rule counted_keeps)
next
  case Sec_Memory
  with assms(2) have "counted (memory_item) sec md = Ok md'" by (simp add: parse_section_def parse_sec_memory_def)
  with memory_keeps assms(1) show ?thesis by (rule counted_keeps)
next
  case Sec_Global
  with assms(2) have "counted (global_item) sec md = Ok md'" by (simp add: parse_section_def parse_sec_global_def)
  with global_keeps assms(1) show ?thesis by (rule counted_keeps)
next
  case Sec_Export
  with assms(2) have "counted (export_item) sec md = Ok md'" by (simp add: parse_section_def parse_sec_export_def)
  with export_keeps assms(1) show ?thesis by (rule counted_keeps)
next
  case Sec_Element
  with assms(2) have "counted (elem_item) sec md = Ok md'" by (simp add: parse_section_def parse_sec_elem_def)
  with elem_keeps assms(1) show ?thesis by (rule counted_keeps)
next
  case Sec_Code
  with assms(2) have "counted (code_item (sec_file_position sec)) sec md = Ok md'" by (simp add: parse_section_def parse_sec_code_def)
  with code_keeps assms(1) show ?thesis by (rule counted_keeps)
next
  case Sec_Data
  with assms(2) have "counted (data_item) sec md = Ok md'" by (simp add: parse_section_def parse_sec_data_def)
  with data_keeps assms(1) show ?thesis by (rule counted_keeps)
qed

lemma load_loop_keeps: "load_loop res s md = Ok md' \<Longrightarrow> P md \<Longrightarrow> P md'"
proof (induction res s md rule: load_loop.induct)
  case (1 res s md)
  from "1.prems"(1) obtain r s1 where r: "next_section s = Ok (r, s1)"
    "(case r of None \<Rightarrow> Ok md | Some sec \<Rightarrow> and_then (parse_section res sec md) (\<lambda>md'. load_loop res s1 md')) = Ok md'"
    by (auto simp: load_loop.simps [of res s md] outcome_iff)
  show ?case
  proof (cases r)
    case None
    with r "1.prems" show ?thesis by simp
  next
    case (Some sec)
    with r obtain md1 where "parse_section res sec md = Ok md1" "load_loop res s1 md1 = Ok md'"
      by (auto simp: outcome_iff)
    with "1.IH" [OF r(1) refl Some] parse_section_keeps "1.prems" show ?thesis by blast
  qed
qed

lemma instantiate_keeps: "instantiate bs res = Ok md \<Longrightarrow> P module_new \<Longrightarrow> P md"
  by (auto simp: instantiate_def load_def outcome_iff load_loop_keeps split: if_splits)

end

lemma module_wf_same:
  "module_wf md \<Longrightarrow> module_wf (md\<lparr>m_start := st\<rparr>)" "module_wf md \<Longrightarrow> module_wf (md\<lparr>m_names := nm\<rparr>)"
  "module_wf md \<Longrightarrow> module_wf (md\<lparr>m_data_count := n\<rparr>)"
  by (rule module_wf_step [of md]; simp add: grows_def module_wf_count)+

interpretation wf: module_invariant module_wf
  by unfold_locales
    (fact type_item_wf import_item_wf func_item_wf export_item_wf memory_item_wf table_item_wf elem_item_wf
       code_item_wf data_item_wf global_item_wf module_wf_same)+

lemma instantiate_wf: "instantiate bs res = Ok md \<Longrightarrow> module_wf md"
  by (rule wf.instantiate_keeps [OF _ module_wf_new])

end
