(* ===== verification/Instantiate.thy ===== *)
theory Instantiate
  imports LoaderSafety
begin

text \<open>
  Instantiation as a whole: the properties of \<open>WasmLoader::instantiate\<close> that join the loader,
  the code generator and the interpreter, on an example file.
\<close>

section \<open>An example file\<close>

lemmas loader_eval = instantiate_def identity_def load_def ptr_read_def minimal_mod_size_def magic_def
  ver_current_def load_loop.simps next_section_def next_section_triple_def is_eof_def section_type_from_u8_def
  section_types_def parse_section_def counted_def parse_sec_type_def parse_sec_func_def parse_sec_memory_def
  parse_sec_export_def parse_sec_code_def type_from_stream_def read_val_type_def val_type_from_u64_def
  limit_from_stream_def export_from_stream_def export_index_from_stream_def get_string_def read_bytes_def
  mark_export_def function_internal_def valid_utf8.simps

text \<open>
  One function type, one function, a memory of one page, an export \<open>f\<close> and the body
  \<open>ex_body\<close>.
\<close>

definition ex_file :: "u8 list" where
  "ex_file =
     [0x00, 0x61, 0x73, 0x6D, 0x01, 0x00, 0x00, 0x00,
      0x01, 0x06, 0x01, 0x60, 0x01, 0x7F, 0x01, 0x7F,
      0x03, 0x02, 0x01, 0x00,
      0x05, 0x03, 0x01, 0x00, 0x01,
      0x07, 0x05, 0x01, 0x01, 0x66, 0x00, 0x00,
      0x0A, 0x13, 0x01, 0x11] @ ex_body"

definition ex_instance :: wasm_module where
  "ex_instance = module_new
     \<lparr>m_types := [\<lparr>param_types = [I32], result_types = [I32]\<rparr>],
      m_exports := [\<lparr>exp_name = [0x66], exp_index = Export_Function 0\<rparr>],
      m_memories := [memory_new \<lparr>limit_min = 1, limit_max = 1\<rparr>],
      m_functions := [\<lparr>f_index = 0, f_type_index = 0, f_type = \<lparr>param_types = [I32], result_types = [I32]\<rparr>,
         f_origin = Origin_Export 0, f_code_block = Some (ex_block\<lparr>cb_file_position := 36\<rparr>), f_dlink = None\<rparr>]\<rparr>"

lemma instantiate_ex: "instantiate ex_file res = Ok ex_instance"
  by (simp add: ex_file_def ex_body_def ex_instance_def ex_block_def module_new_def loader_eval generate_eval
      cong: and_then_weak_cong)


text \<open>
  C4: Every instantiated module is well formed.  If \<open>instantiate\<close> returns a module, then in
  that module each function has the type its type index names; each code block keeps the
  verifier's promises for the finished module, however the sections were ordered, and declares the
  parameters of its function first; memories are whole pages, tables have their initial size,
  globals are \<open>i32\<close>, function imports point at linked functions and \<open>n_ext_func\<close>
  counts them.
\<close>

theorem instantiate_module_wf: "instantiate bs res = Ok md \<Longrightarrow> module_wf md"
  by (rule instantiate_wf)

theorem instantiate_module_wf_witness: "module_wf ex_instance"
  by (rule instantiate_module_wf [OF instantiate_ex [of "\<lambda>_ _ _. Import_NoModule"]])

text \<open>
  C1: From the file to the run.  Take a function of an instantiated module that makes no calls and
  has neither an empty branch table nor a \<open>return\<close> below its result, in a module whose memory
  has at least one page.  Invoking it with any arguments, for any number of steps, never indexes
  out of range, never uses a dangling slice and never panics.
\<close>

theorem instantiated_leaf_in_bounds:
  assumes "instantiate bs res = Ok md" "f \<in> set (m_functions md)" "f_code_block f = Some cb" "cb_leaf cb"
    and "gaps_closed (result_types (f_type f)) cb" "m_memories md = m # ms" "mem_data m \<noteq> []"
    and "cb_max_stack cb < 2 ^ 59" "length (param_types (f_type f)) + length (cb_local_types cb) < 2 ^ 59"
  shows "invoke host tr n md f args \<notin> {Some (UB OutOfRange), Some (UB DanglingRef), Some Panic}"
proof -
  have wf: "module_wf md" by (rule instantiate_wf [OF assms(1)])
  with assms(2,3,6) have "block_ok md cb" "memory_inv m"
    by (auto simp: module_wf_def function_ok_def)
  with assms have "confined_run (invoke host tr n md f args)"
    by (intro invoke_leaf_confined [of md]) auto
  then show ?thesis by (auto simp: confined_run_def)
qed

theorem instantiated_leaf_in_bounds_witness:
  "invoke (\<lambda>_ _ _. Err RtNoMethod) (\<lambda>_. False) 100 ex_instance (m_functions ex_instance ! 0) [V_I64 5]
     \<noteq> Some (UB OutOfRange)"
proof -
  let ?f = "m_functions ex_instance ! 0" and ?cb = "ex_block\<lparr>cb_file_position := 36\<rparr>"
  have f: "?f \<in> set (m_functions ex_instance)" "f_code_block ?f = Some ?cb" "cb_leaf ?cb"
    "gaps_closed (result_types (f_type ?f)) ?cb" "m_memories ex_instance = [memory_new \<lparr>limit_min = 1, limit_max = 1\<rparr>]"
    "length (param_types (f_type ?f)) + length (cb_local_types ?cb) < 2 ^ 59" "cb_max_stack ?cb < 2 ^ 59"
    by (simp_all add: ex_instance_def ex_block_def gaps_closed_def)
  have n: "mem_data (memory_new \<lparr>limit_min = 1, limit_max = 1\<rparr>) \<noteq> []"
    by (simp add: memory_new_def page_size_def)
  from instantiated_leaf_in_bounds [OF instantiate_ex f(1-5) n f(7,6),
      where ?host = "\<lambda>_ _ _. Err RtNoMethod" and ?tr = "\<lambda>_. False" and ?n = 100 and ?args = "[V_I64 5]"]
  show ?thesis by blast
qed


section \<open>Data segments\<close>

text \<open>
  A data segment that does not end strictly inside the memory stops the kernel.  Once the
  header, the offset and the bytes of a segment have been read and the memory exists, the segment is
  copied when it ends before the last byte of the memory, and the loader panics in every other case,
  also for a segment that fits and ends exactly at the end.
\<close>

theorem data_segment_panics:
  assumes "read_unsigned s = Ok (v, s1)" "eval_offset s1 = Ok (offset, s2)" "read_bytes s2 = Ok (src, s3)"
    and "get_at (m_memories md) (unat v) = Some m"
  shows "data_item i (md, s) =
    (if offset + length src < length (mem_data m)
     then Ok (md\<lparr>m_memories := (m_memories md)[unat v := m\<lparr>mem_data :=
            take offset (mem_data m) @ src @ drop (offset + length src) (mem_data m)\<rparr>]\<rparr>, s3)
     else Panic)"
  using assms by (simp add: memory_write_slice_def ptr_copy_def unwrap_def Let_def)

theorem data_segment_panics_witness:
  "data_item 0 (module_new\<lparr>m_memories := [memory_new \<lparr>limit_min = 1, limit_max = 1\<rparr>]\<rparr>,
     from_slice [0x00, 0x41, 0xFF, 0xFF, 0x03, 0x0B, 0x01, 0x2A]) = Panic"
proof -
  let ?bs = "[0x00, 0x41, 0xFF, 0xFF, 0x03, 0x0B, 0x01, 0x2A] :: u8 list"
  have "read_unsigned (from_slice ?bs) = Ok (0, \<lparr>blob = ?bs, position = 1\<rparr>)"
    "eval_offset \<lparr>blob = ?bs, position = 1\<rparr> = Ok (65535, \<lparr>blob = ?bs, position = 6\<rparr>)"
    "read_bytes \<lparr>blob = ?bs, position = 6\<rparr> = Ok ([0x2A], \<lparr>blob = ?bs, position = 8\<rparr>)"
    by (simp_all add: reader_eval eval_offset_def eval_expr_def read_end_def read_bytes_def cong: and_then_weak_cong)
  from data_segment_panics [OF this, of "module_new\<lparr>m_memories := [memory_new \<lparr>limit_min = 1, limit_max = 1\<rparr>]\<rparr>"
      "memory_new \<lparr>limit_min = 1, limit_max = 1\<rparr>" 0]
  show ?thesis by (simp add: memory_new_def page_size_def)
qed


section \<open>Sections in order\<close>

text \<open>Sections laid out one after the other, and parsed in that order.\<close>

definition section_at :: "nat \<Rightarrow> section_type \<Rightarrow> u8 list \<Rightarrow> wasm_section" where
  "section_at pos ty body = \<lparr>sec_type = ty, sec_file_position = pos, sec_stream = from_slice body\<rparr>"

definition layout :: "(section_type \<times> u8 list) list \<Rightarrow> u8 list" where
  "layout secs = concat (map (\<lambda>(ty, body). write_to_vec (section_at 0 ty body)) secs)"

fun parse_all :: "resolver \<Rightarrow> nat \<Rightarrow> (section_type \<times> u8 list) list \<Rightarrow> wasm_module
    \<Rightarrow> (decode_error, wasm_module) outcome" where
  "parse_all res pos [] md = Ok md"
| "parse_all res pos ((ty, body) # secs) md =
     and_then (parse_section res
         (section_at (pos + 9 + length (write_unsigned (of_nat (length body)))) ty body) md)
       (parse_all res (pos + length (write_to_vec (section_at 0 ty body))) secs)"

lemma next_section_section_at:
  assumes "length body < 2 ^ 64"
  shows "next_section \<lparr>blob = pre @ write_to_vec (section_at 0 ty body) @ post, position = length pre\<rparr>
     = Ok (Some (section_at (length pre + 9 + length (write_unsigned (of_nat (length body)))) ty body),
           \<lparr>blob = pre @ write_to_vec (section_at 0 ty body) @ post,
            position = length pre + length (write_to_vec (section_at 0 ty body))\<rparr>)"
  using next_section_write_at [OF assms, of pre ty 0 0 post] by (simp add: section_at_def from_slice_def)

lemma load_loop_layout:
  "\<forall>(ty, body) \<in> set secs. length body < 2 ^ 64 \<Longrightarrow>
     load_loop res \<lparr>blob = pre @ layout secs, position = length pre\<rparr> md = parse_all res (length pre) secs md"
proof (induction secs arbitrary: pre md)
  case Nil
  then show ?case
    by (simp add: load_loop.simps [of res] layout_def next_section_def next_section_triple_def is_eof_def)
next
  case (Cons sec secs)
  obtain ty body where sec: "sec = (ty, body)" by force
  let ?w = "write_to_vec (section_at 0 ty body)"
  have blob: "pre @ layout (sec # secs) = pre @ ?w @ layout secs"
    by (simp add: layout_def sec)
  have body: "length body < 2 ^ 64" using Cons.prems by (simp add: sec)
  have "load_loop res \<lparr>blob = (pre @ ?w) @ layout secs, position = length (pre @ ?w)\<rparr> md'
      = parse_all res (length (pre @ ?w)) secs md'" for md'
    using Cons by (intro Cons.IH) auto
  then show ?case
    unfolding blob load_loop.simps [of res "\<lparr>blob = pre @ ?w @ layout secs, position = length pre\<rparr>"]
      next_section_section_at [OF body] by (simp add: sec cong: and_then_cong)
qed

text \<open>
  C14: A file written section by section is loaded section by section.  On the header followed by
  sections that \<open>write_to_vec\<close> laid out, \<open>instantiate\<close> runs the parsers of these sections
  in their order on an empty module, each on exactly its own contents, and stops at the first that
  fails; nothing is left over and nothing is read twice.
\<close>

theorem instantiate_layout:
  assumes "\<forall>(ty, body) \<in> set secs. length body < 2 ^ 64"
  shows "instantiate ([0x00, 0x61, 0x73, 0x6D, 0x01, 0x00, 0x00, 0x00] @ layout secs) res
    = parse_all res 0 secs module_new"
proof -
  have "identity ([0x00, 0x61, 0x73, 0x6D, 0x01, 0x00, 0x00, 0x00] @ layout secs) = (Ok True :: (decode_error, bool) outcome)"
    by (simp add: identity_def minimal_mod_size_def ptr_read_def magic_def ver_current_def)
  with load_loop_layout [OF assms, of res "[]" module_new] show ?thesis
    by (simp add: instantiate_def load_def from_slice_def)
qed

theorem instantiate_layout_witness:
  "instantiate ([0x00, 0x61, 0x73, 0x6D, 0x01, 0x00, 0x00, 0x00] @ layout [(Sec_Start, [0x07])])
     (\<lambda>_ _ _. Import_NoModule) = Ok (module_new\<lparr>m_start := Some 7\<rparr>)"
proof -
  have "\<forall>(ty, body) \<in> set [(Sec_Start, [0x07])]. length body < 2 ^ 64" by simp
  from instantiate_layout [OF this, of "\<lambda>_ _ _. Import_NoModule"] show ?thesis
    by (simp add: section_at_def parse_section_def parse_sec_start_def reader_eval)
qed

end
