(* ===== verification/Fifo.thy ===== *)
theory Fifo
  imports Prelude
begin

text \<open>
  \<open>ConcurrentFifo\<close> of src/system/src/sync/fifo.rs: a bounded queue that several processors use
  at once without a lock.  \<open>head\<close> and \<open>tail\<close> count the dequeued and the enqueued values; a
  ticket \<open>t\<close> belongs to slot \<open>t & mask\<close>, and the stamp of the slot says whether the slot
  waits for the writer of \<open>t\<close> (stamp \<open>t\<close>) or for its reader (stamp \<open>t + 1\<close>).

  A call is a machine whose steps are the atomic accesses of the source, in the order of the source;
  the system interleaves the steps of any number of threads (\<open>without_interrupts\<close> masks the
  interrupts of one processor and does not stop the others).  The accesses are taken as sequentially
  consistent.  The counters and stamps are \<open>usize\<close> values: their sums wrap around modulo
  \<open>2 ^ 64\<close>.  The theorems are about runs in which fewer than \<open>2 ^ 64\<close> minus one lap
  values have been enqueued; a thread that sleeps while the counters go round once would
  take an old ticket for a new one.
\<close>

section \<open>The queue and the steps of a call\<close>

record 'a ring_slot =
  slot_stamp :: nat
  slot_value :: "'a option"

record 'a fifo =
  ff_head :: nat
  ff_tail :: nat
  ff_mask :: nat
  ff_one_lap :: nat
  ff_data :: "'a ring_slot list"

text \<open>\<open>usize::next_power_of_two\<close>, from the power \<open>p\<close> on.\<close>

function power_of_two_from :: "nat \<Rightarrow> nat \<Rightarrow> nat" where
  "power_of_two_from p n = (if p = 0 \<or> n \<le> p then p else power_of_two_from (2 * p) n)"
  by pat_completeness auto
termination
  by (relation "measure (\<lambda>(p, n). n - p)") auto

declare power_of_two_from.simps [simp del]

definition next_power_of_two :: "nat \<Rightarrow> nat" where
  "next_power_of_two n = power_of_two_from 1 n"

text \<open>\<open>MaybeUninit::zeroed()\<close> is a slot without a value.\<close>

definition slot_new :: "nat \<Rightarrow> 'a ring_slot" where
  "slot_new stamp = \<lparr>slot_stamp = stamp, slot_value = None\<rparr>"

definition fifo_with_capacity :: "nat \<Rightarrow> 'a fifo" where
  "fifo_with_capacity capacity =
     (let cap = next_power_of_two (capacity + 1) in
      \<lparr>ff_head = 0, ff_tail = 0, ff_mask = cap - 1, ff_one_lap = cap,
       ff_data = map slot_new [0..<cap]\<rparr>)"

text \<open>Where a thread is: the access it makes next, and the locals it has read.\<close>

datatype 'a fifo_pc =
    Idle
  | Enq_Tail 'a | Enq_Head 'a nat | Enq_Stamp 'a nat | Enq_Cas 'a nat | Enq_Write 'a nat | Enq_Publish 'a nat
  | Enq_Ok | Enq_Err 'a
  | Deq_Head | Deq_Tail nat | Deq_Stamp nat | Deq_Cas nat | Deq_Read nat | Deq_Release nat 'a
  | Deq_Some 'a | Deq_None

definition fifo_slot :: "'a fifo \<Rightarrow> nat \<Rightarrow> 'a ring_slot" where
  "fifo_slot f t = ff_data f ! (t AND ff_mask f)"

definition set_slot :: "nat \<Rightarrow> ('a ring_slot \<Rightarrow> 'a ring_slot) \<Rightarrow> 'a fifo \<Rightarrow> 'a fifo" where
  "set_slot t g f = f\<lparr>ff_data := (ff_data f)[t AND ff_mask f := g (fifo_slot f t)]\<rparr>"

text \<open>
  One access of \<open>_enqueue\<close>; \<open>weak\<close> says that \<open>compare_exchange_weak\<close> fails although
  the values agree.  A failed attempt spins and starts over.
\<close>

fun enqueue_step :: "bool \<Rightarrow> 'a fifo \<Rightarrow> 'a fifo_pc \<Rightarrow> 'a fifo_pc \<times> 'a fifo" where
  "enqueue_step weak f (Enq_Tail v) = (Enq_Head v (ff_tail f), f)"
| "enqueue_step weak f (Enq_Head v t) =
     (if usize_add t 1 AND ff_mask f = ff_head f AND ff_mask f then Enq_Err v else Enq_Stamp v t, f)"
| "enqueue_step weak f (Enq_Stamp v t) =
     (if slot_stamp (fifo_slot f t) = t then Enq_Cas v t else Enq_Tail v, f)"
| "enqueue_step weak f (Enq_Cas v t) =
     (if ff_tail f = t \<and> \<not> weak then (Enq_Write v t, f\<lparr>ff_tail := usize_add t 1\<rparr>) else (Enq_Tail v, f))"
| "enqueue_step weak f (Enq_Write v t) = (Enq_Publish v t, set_slot t (\<lambda>s. s\<lparr>slot_value := Some v\<rparr>) f)"
| "enqueue_step weak f (Enq_Publish v t) = (Enq_Ok, set_slot t (\<lambda>s. s\<lparr>slot_stamp := usize_add t 1\<rparr>) f)"
| "enqueue_step weak f pc = (pc, f)"

text \<open>One access of \<open>_dequeue\<close>; reading a slot that was never written is undefined.\<close>

fun dequeue_step :: "bool \<Rightarrow> 'a fifo \<Rightarrow> 'a fifo_pc \<Rightarrow> (unit, 'a fifo_pc \<times> 'a fifo) outcome" where
  "dequeue_step weak f Deq_Head = Ok (Deq_Tail (ff_head f), f)"
| "dequeue_step weak f (Deq_Tail h) =
     Ok (if h AND ff_mask f = ff_tail f AND ff_mask f then Deq_None else Deq_Stamp h, f)"
| "dequeue_step weak f (Deq_Stamp h) =
     Ok (if slot_stamp (fifo_slot f h) = usize_add h 1 then Deq_Cas h else Deq_Head, f)"
| "dequeue_step weak f (Deq_Cas h) =
     Ok (if ff_head f = h \<and> \<not> weak then (Deq_Read h, f\<lparr>ff_head := usize_add h 1\<rparr>) else (Deq_Head, f))"
| "dequeue_step weak f (Deq_Read h) =
     (case slot_value (fifo_slot f h) of None \<Rightarrow> UB UninitRead | Some x \<Rightarrow> Ok (Deq_Release h x, f))"
| "dequeue_step weak f (Deq_Release h x) =
     Ok (Deq_Some x, set_slot h (\<lambda>s. s\<lparr>slot_stamp := usize_add h (ff_one_lap f)\<rparr>) f)"
| "dequeue_step weak f pc = Ok (pc, f)"

definition is_enqueue :: "'a fifo_pc \<Rightarrow> bool" where
  "is_enqueue pc =
     (case pc of Enq_Tail _ \<Rightarrow> True | Enq_Head _ _ \<Rightarrow> True | Enq_Stamp _ _ \<Rightarrow> True | Enq_Cas _ _ \<Rightarrow> True
      | Enq_Write _ _ \<Rightarrow> True | Enq_Publish _ _ \<Rightarrow> True | _ \<Rightarrow> False)"

definition is_dequeue :: "'a fifo_pc \<Rightarrow> bool" where
  "is_dequeue pc =
     (case pc of Deq_Head \<Rightarrow> True | Deq_Tail _ \<Rightarrow> True | Deq_Stamp _ \<Rightarrow> True | Deq_Cas _ \<Rightarrow> True
      | Deq_Read _ \<Rightarrow> True | Deq_Release _ _ \<Rightarrow> True | _ \<Rightarrow> False)"

definition fifo_step :: "bool \<Rightarrow> 'a fifo \<Rightarrow> 'a fifo_pc \<Rightarrow> (unit, 'a fifo_pc \<times> 'a fifo) outcome" where
  "fifo_step weak f pc = (if is_enqueue pc then Ok (enqueue_step weak f pc) else dequeue_step weak f pc)"


section \<open>The system\<close>

text \<open>
  Two histories are kept beside the queue; no access reads them.  \<open>fs_log\<close> has the values in
  the order in which their writers advanced \<open>tail\<close>, so that ticket \<open>t\<close> carries the value
  \<open>fs_log ! t\<close>.  \<open>fs_got\<close> has the tickets and values that dequeue calls returned.
\<close>

record 'a fifo_sys =
  fs_fifo :: "'a fifo"
  fs_pc :: "nat \<Rightarrow> 'a fifo_pc"
  fs_log :: "'a list"
  fs_got :: "(nat \<times> 'a) list"

definition fifo_start :: "nat \<Rightarrow> 'a fifo_sys" where
  "fifo_start capacity =
     \<lparr>fs_fifo = fifo_with_capacity capacity, fs_pc = (\<lambda>_. Idle), fs_log = [], fs_got = []\<rparr>"

text \<open>A thread is about to write its value just after it won its ticket.\<close>

definition log_after :: "'a fifo_pc \<Rightarrow> 'a list \<Rightarrow> 'a list" where
  "log_after pc' log = (case pc' of Enq_Write v t \<Rightarrow> log @ [v] | _ \<Rightarrow> log)"

definition got_after :: "'a fifo_pc \<Rightarrow> (nat \<times> 'a) list \<Rightarrow> (nat \<times> 'a) list" where
  "got_after pc got = (case pc of Deq_Release h x \<Rightarrow> got @ [(h, x)] | _ \<Rightarrow> got)"

text \<open>The access that thread \<open>i\<close> makes next.\<close>

definition sys_access :: "bool \<Rightarrow> nat \<Rightarrow> 'a fifo_sys \<Rightarrow> (unit, 'a fifo_sys) outcome" where
  "sys_access weak i s =
     and_then (fifo_step weak (fs_fifo s) (fs_pc s i)) (\<lambda>(pc', f').
       Ok (s\<lparr>fs_fifo := f', fs_pc := (fs_pc s)(i := pc'), fs_log := log_after pc' (fs_log s),
             fs_got := got_after (fs_pc s i) (fs_got s)\<rparr>))"

definition in_call :: "'a fifo_pc \<Rightarrow> bool" where
  "in_call pc \<longleftrightarrow> is_enqueue pc \<or> is_dequeue pc"

inductive fifo_sys_step :: "'a fifo_sys \<Rightarrow> 'a fifo_sys \<Rightarrow> bool" where
  call_enqueue: "\<not> in_call (fs_pc s i) \<Longrightarrow> fifo_sys_step s (s\<lparr>fs_pc := (fs_pc s)(i := Enq_Tail v)\<rparr>)"
| call_dequeue: "\<not> in_call (fs_pc s i) \<Longrightarrow> fifo_sys_step s (s\<lparr>fs_pc := (fs_pc s)(i := Deq_Head)\<rparr>)"
| access: "in_call (fs_pc s i) \<Longrightarrow> sys_access weak i s = Ok s' \<Longrightarrow> fifo_sys_step s s'"

inductive fifo_reachable :: "nat \<Rightarrow> 'a fifo_sys \<Rightarrow> bool" for capacity where
  start: "fifo_reachable capacity (fifo_start capacity)"
| step: "fifo_reachable capacity s \<Longrightarrow> fifo_sys_step s s' \<Longrightarrow> fifo_reachable capacity s'"

text \<open>The values in the queue: enqueued, not yet dequeued.\<close>

definition fifo_queue :: "'a fifo_sys \<Rightarrow> 'a list" where
  "fifo_queue s = drop (ff_head (fs_fifo s)) (fs_log s)"

end
