(* ===== verification/FifoSafety.thy ===== *)
theory FifoSafety
  imports Fifo
begin

text \<open>
  Correctness of \<open>ConcurrentFifo\<close> under every interleaving: an invariant that ties the counters,
  the stamps and the threads together, its preservation by every access, and the refinement of a
  FIFO queue that follows from it.
\<close>

section \<open>Rings\<close>

lemma and_mask_mod: "(x :: nat) AND (2 ^ k - 1) = x mod 2 ^ k"
  by (metis mask_eq_exp_minus_1 take_bit_eq_mask take_bit_eq_mod)

lemma window_inj:
  fixes a b h cap :: nat
  assumes "a mod cap = b mod cap" "h \<le> a" "a < h + cap" "h \<le> b" "b < h + cap"
  shows "a = b"
proof -
  have "a = b" if "a mod cap = b mod cap" "a \<le> b" "b < a + cap" for a b :: nat
  proof -
    from that(1,2) have "cap dvd b - a" by (metis mod_eq_dvd_iff_nat)
    moreover have "b - a < cap" using that by simp
    ultimately show ?thesis using that(2) by (metis dvd_imp_le le_antisym less_le_not_le diff_is_0_eq not_gr_zero)
  qed
  from this [of a b] this [of b a] assms show ?thesis by (cases "a \<le> b") auto
qed

lemma power_of_two_from_power: "\<exists>k. power_of_two_from (2 ^ j) n = 2 ^ k \<and> n \<le> 2 ^ k"
proof (induction "(2::nat) ^ j" n arbitrary: j rule: power_of_two_from.induct)
  case (1 n)
  show ?case
  proof (cases "n \<le> 2 ^ j")
    case True
    then show ?thesis by (auto simp: power_of_two_from.simps)
  next
    case False
    with 1 [of "Suc j"] show ?thesis by (auto simp: power_of_two_from.simps [of "2 ^ j"])
  qed
qed

lemma next_power_of_two_power: "\<exists>k. next_power_of_two n = 2 ^ k \<and> n \<le> 2 ^ k"
  using power_of_two_from_power [of 0 n] by (simp add: next_power_of_two_def)


section \<open>Slots by ticket\<close>

definition ring_ok :: "'a fifo \<Rightarrow> bool" where
  "ring_ok f \<longleftrightarrow> (\<exists>k. ff_one_lap f = 2 ^ k) \<and> 1 < ff_one_lap f \<and> ff_mask f = ff_one_lap f - 1 \<and>
     length (ff_data f) = ff_one_lap f"

definition stamp_at :: "'a fifo \<Rightarrow> nat \<Rightarrow> nat" where
  "stamp_at f t = slot_stamp (fifo_slot f t)"

definition value_at :: "'a fifo \<Rightarrow> nat \<Rightarrow> 'a option" where
  "value_at f t = slot_value (fifo_slot f t)"

lemma ring_mask: "ring_ok f \<Longrightarrow> t AND ff_mask f = t mod ff_one_lap f"
  using and_mask_mod by (auto simp: ring_ok_def)

lemma ring_ok_updates [simp]:
  "ring_ok (f\<lparr>ff_head := n\<rparr>) = ring_ok f" "ring_ok (f\<lparr>ff_tail := n\<rparr>) = ring_ok f"
  "ring_ok (set_slot t g f) = ring_ok f"
  by (simp_all add: ring_ok_def set_slot_def)

lemma slot_updates [simp]:
  "stamp_at (f\<lparr>ff_head := n\<rparr>) t = stamp_at f t" "stamp_at (f\<lparr>ff_tail := n\<rparr>) t = stamp_at f t"
  "value_at (f\<lparr>ff_head := n\<rparr>) t = value_at f t" "value_at (f\<lparr>ff_tail := n\<rparr>) t = value_at f t"
  by (simp_all add: stamp_at_def value_at_def fifo_slot_def)

lemma set_slot_fields [simp]:
  "ff_head (set_slot t g f) = ff_head f" "ff_tail (set_slot t g f) = ff_tail f"
  "ff_one_lap (set_slot t g f) = ff_one_lap f"
  by (simp_all add: set_slot_def)

lemma set_slot_at:
  assumes "ring_ok f"
  shows "fifo_slot (set_slot t g f) x
    = (if x mod ff_one_lap f = t mod ff_one_lap f then g (fifo_slot f t) else fifo_slot f x)"
proof -
  have m: "y AND ff_mask f = y mod ff_one_lap f" for y by (rule ring_mask [OF assms])
  have "t mod ff_one_lap f < length (ff_data f)" using assms by (simp add: ring_ok_def)
  then show ?thesis by (auto simp: fifo_slot_def set_slot_def m)
qed

lemma set_stamp_at:
  "ring_ok f \<Longrightarrow> stamp_at (set_slot t (\<lambda>s. s\<lparr>slot_stamp := n\<rparr>) f) x
    = (if x mod ff_one_lap f = t mod ff_one_lap f then n else stamp_at f x)"
  "ring_ok f \<Longrightarrow> value_at (set_slot t (\<lambda>s. s\<lparr>slot_stamp := n\<rparr>) f) x = value_at f x"
  "ring_ok f \<Longrightarrow> stamp_at (set_slot t (\<lambda>s. s\<lparr>slot_value := v\<rparr>) f) x = stamp_at f x"
  "ring_ok f \<Longrightarrow> value_at (set_slot t (\<lambda>s. s\<lparr>slot_value := v\<rparr>) f) x
    = (if x mod ff_one_lap f = t mod ff_one_lap f then v else value_at f x)"
  by (auto simp: stamp_at_def value_at_def set_slot_at) (auto simp: fifo_slot_def ring_mask)


section \<open>The invariant\<close>

definition writer :: "'a fifo_pc \<Rightarrow> nat \<Rightarrow> bool" where
  "writer pc t \<longleftrightarrow> (\<exists>v. pc = Enq_Write v t \<or> pc = Enq_Publish v t)"

definition reader_of :: "'a fifo_pc \<Rightarrow> nat \<Rightarrow> bool" where
  "reader_of pc h \<longleftrightarrow> pc = Deq_Read h \<or> (\<exists>x. pc = Deq_Release h x)"

definition vacant :: "'a fifo \<Rightarrow> nat \<Rightarrow> bool" where
  "vacant f t \<longleftrightarrow> stamp_at f t = t"

definition published :: "'a fifo \<Rightarrow> 'a list \<Rightarrow> nat \<Rightarrow> bool" where
  "published f log t \<longleftrightarrow> stamp_at f t = t + 1 \<and> value_at f t = Some (log ! t)"

definition claimed :: "'a fifo \<Rightarrow> 'a list \<Rightarrow> nat \<Rightarrow> 'a \<Rightarrow> bool" where
  "claimed f log t v \<longleftrightarrow> ff_head f \<le> t \<and> t < ff_tail f \<and> vacant f t \<and> log ! t = v"

definition taken :: "'a fifo \<Rightarrow> 'a list \<Rightarrow> nat \<Rightarrow> bool" where
  "taken f log h \<longleftrightarrow> h < ff_head f \<and> ff_tail f \<le> h + ff_one_lap f \<and> published f log h"

lemma vacant_updates [simp]:
  "vacant (f\<lparr>ff_head := n\<rparr>) t = vacant f t" "vacant (f\<lparr>ff_tail := n\<rparr>) t = vacant f t"
  by (simp_all add: vacant_def)

text \<open>What a thread knows at each access.\<close>

definition pc_ok :: "'a fifo \<Rightarrow> 'a list \<Rightarrow> 'a fifo_pc \<Rightarrow> bool" where
  "pc_ok f log pc =
     (case pc of
        Enq_Head v t \<Rightarrow> t \<le> ff_tail f
      | Enq_Stamp v t \<Rightarrow> t \<le> ff_tail f \<and> (t = ff_tail f \<longrightarrow> t + 1 < ff_head f + ff_one_lap f)
      | Enq_Cas v t \<Rightarrow> t \<le> ff_tail f \<and>
          (t = ff_tail f \<longrightarrow> t + 1 < ff_head f + ff_one_lap f \<and> vacant f t)
      | Enq_Write v t \<Rightarrow> claimed f log t v
      | Enq_Publish v t \<Rightarrow> claimed f log t v \<and> value_at f t = Some v
      | Deq_Tail h \<Rightarrow> h \<le> ff_head f
      | Deq_Stamp h \<Rightarrow> h \<le> ff_head f
      | Deq_Cas h \<Rightarrow> h \<le> ff_head f \<and> (h = ff_head f \<longrightarrow> h < ff_tail f \<and> published f log h)
      | Deq_Read h \<Rightarrow> taken f log h
      | Deq_Release h x \<Rightarrow> taken f log h \<and> x = log ! h
      | _ \<Rightarrow> True)"

definition fifo_inv :: "'a fifo \<Rightarrow> 'a list \<Rightarrow> (nat \<Rightarrow> 'a fifo_pc) \<Rightarrow> bool" where
  "fifo_inv f log pc \<longleftrightarrow>
     ring_ok f \<and> length log = ff_tail f \<and> ff_head f \<le> ff_tail f \<and> ff_tail f < ff_head f + ff_one_lap f \<and>
     (\<forall>t. ff_head f \<le> t \<and> t < ff_tail f \<longrightarrow> published f log t \<or> (\<exists>i. writer (pc i) t)) \<and>
     (\<forall>t. ff_tail f \<le> t \<and> t < ff_head f + ff_one_lap f \<longrightarrow>
        vacant f t \<or> (\<exists>i h. reader_of (pc i) h \<and> t = h + ff_one_lap f)) \<and>
     (\<forall>i. pc_ok f log (pc i)) \<and>
     (\<forall>i j t. writer (pc i) t \<and> writer (pc j) t \<longrightarrow> i = j) \<and>
     (\<forall>i j h. reader_of (pc i) h \<and> reader_of (pc j) h \<longrightarrow> i = j)"

lemma fifo_invD:
  assumes "fifo_inv f log pc"
  shows "ring_ok f" "length log = ff_tail f" "ff_head f \<le> ff_tail f" "ff_tail f < ff_head f + ff_one_lap f"
    "\<And>t. ff_head f \<le> t \<Longrightarrow> t < ff_tail f \<Longrightarrow> published f log t \<or> (\<exists>i. writer (pc i) t)"
    "\<And>t. ff_tail f \<le> t \<Longrightarrow> t < ff_head f + ff_one_lap f \<Longrightarrow>
        vacant f t \<or> (\<exists>i h. reader_of (pc i) h \<and> t = h + ff_one_lap f)"
    "\<And>i. pc_ok f log (pc i)"
    "\<And>i j t. writer (pc i) t \<Longrightarrow> writer (pc j) t \<Longrightarrow> i = j"
    "\<And>i j h. reader_of (pc i) h \<Longrightarrow> reader_of (pc j) h \<Longrightarrow> i = j"
  using assms unfolding fifo_inv_def by blast+

lemma fifo_invI:
  assumes "ring_ok f" "length log = ff_tail f" "ff_head f \<le> ff_tail f" "ff_tail f < ff_head f + ff_one_lap f"
    and "\<And>t. ff_head f \<le> t \<Longrightarrow> t < ff_tail f \<Longrightarrow> \<not> published f log t \<Longrightarrow> \<exists>i. writer (pc i) t"
    and "\<And>t. ff_tail f \<le> t \<Longrightarrow> t < ff_head f + ff_one_lap f \<Longrightarrow> \<not> vacant f t \<Longrightarrow>
        \<exists>i h. reader_of (pc i) h \<and> t = h + ff_one_lap f"
    and "\<And>i. pc_ok f log (pc i)"
    and "\<And>i j t. writer (pc i) t \<Longrightarrow> writer (pc j) t \<Longrightarrow> i = j"
    and "\<And>i j h. reader_of (pc i) h \<Longrightarrow> reader_of (pc j) h \<Longrightarrow> i = j"
  shows "fifo_inv f log pc"
  using assms unfolding fifo_inv_def by blast

lemma writer_claims: "fifo_inv f log pc \<Longrightarrow> writer (pc i) t \<Longrightarrow> \<exists>v. claimed f log t v"
  using fifo_invD(7) [of f log pc i] by (auto simp: writer_def pc_ok_def)

lemma reader_takes: "fifo_inv f log pc \<Longrightarrow> reader_of (pc i) h \<Longrightarrow> taken f log h"
  using fifo_invD(7) [of f log pc i] by (auto simp: reader_of_def pc_ok_def)

text \<open>Two tickets of one slot cannot disagree about its stamp.\<close>

lemma same_slot_stamp:
  assumes "ring_ok f" "x mod ff_one_lap f = y mod ff_one_lap f"
  shows "stamp_at f x = stamp_at f y"
  using assms by (simp add: stamp_at_def fifo_slot_def ring_mask)

lemma published_not_free:
  assumes "ring_ok f" "published f log x" "vacant f t"
  shows "x mod ff_one_lap f \<noteq> t mod ff_one_lap f"
proof
  assume eq: "x mod ff_one_lap f = t mod ff_one_lap f"
  with same_slot_stamp [OF assms(1) this] assms have "t = x + 1" by (simp add: published_def vacant_def)
  with eq have "x mod ff_one_lap f = (x + 1) mod ff_one_lap f" by simp
  moreover have "1 < ff_one_lap f" using assms(1) by (simp add: ring_ok_def)
  ultimately have "x = x + 1" by (intro window_inj [of x "ff_one_lap f" "x + 1" x]) auto
  then show False by simp
qed

lemma published_same: 
  "ring_ok f \<Longrightarrow> published f log x \<Longrightarrow> published f log y \<Longrightarrow> x mod ff_one_lap f = y mod ff_one_lap f \<Longrightarrow> x = y"
  using same_slot_stamp [of f x y] by (simp add: published_def)

lemma free_same:
  "ring_ok f \<Longrightarrow> vacant f x \<Longrightarrow> vacant f y \<Longrightarrow> x mod ff_one_lap f = y mod ff_one_lap f \<Longrightarrow> x = y"
  by (metis same_slot_stamp vacant_def)


section \<open>Every access keeps the invariant\<close>

text \<open>An access that changes neither the queue nor the role of the thread.\<close>

lemma inv_local:
  assumes "fifo_inv f log pc" "pc_ok f log q"
    and "\<And>t. writer q t = writer (pc i) t" "\<And>h. reader_of q h = reader_of (pc i) h"
  shows "fifo_inv f log (pc(i := q))"
proof -
  have w: "writer ((pc(i := q)) j) t = writer (pc j) t" "reader_of ((pc(i := q)) j) t = reader_of (pc j) t" for j t
    using assms(3,4) by simp_all
  note d = fifo_invD [OF assms(1)]
  show ?thesis
  proof (rule fifo_invI; (unfold w)?)
    show "pc_ok f log ((pc(i := q)) j)" for j using assms(2) d(7) by simp
  qed (use d in blast)+
qed

text \<open>What another thread knows survives an access that respects its ticket.\<close>

lemma pc_ok_mono:
  assumes "pc_ok f log p" "ff_one_lap f' = ff_one_lap f" "ff_tail f \<le> ff_tail f'" "ff_head f \<le> ff_head f'"
    and "\<And>t v. writer p t \<Longrightarrow> claimed f log t v \<Longrightarrow> claimed f' log' t v"
    and "\<And>t v. p = Enq_Publish v t \<Longrightarrow> value_at f t = Some v \<Longrightarrow> value_at f' t = Some v"
    and "\<And>h. reader_of p h \<Longrightarrow> taken f log h \<Longrightarrow> taken f' log' h \<and> log' ! h = log ! h"
    and "vacant f (ff_tail f) \<Longrightarrow> ff_tail f' = ff_tail f \<Longrightarrow> vacant f' (ff_tail f)"
    and "published f log (ff_head f) \<Longrightarrow> ff_head f < ff_tail f \<Longrightarrow> ff_head f' = ff_head f \<Longrightarrow>
      published f' log' (ff_head f)"
  shows "pc_ok f' log' p"
proof (cases p)
  case (Enq_Write v t)
  with assms(1) assms(5) [of t v] show ?thesis by (simp add: pc_ok_def writer_def)
next
  case (Enq_Publish v t)
  with assms(1) assms(5) [of t v] assms(6) [of v t] show ?thesis by (simp add: pc_ok_def writer_def)
next
  case (Deq_Read h)
  with assms(1) assms(7) [of h] show ?thesis by (simp add: pc_ok_def reader_of_def)
next
  case (Deq_Release h x)
  with assms(1) assms(7) [of h] show ?thesis by (simp add: pc_ok_def reader_of_def)
next
  case (Enq_Stamp v t)
  with assms(1) have "t \<le> ff_tail f" "t = ff_tail f \<Longrightarrow> t + 1 < ff_head f + ff_one_lap f" by (auto simp: pc_ok_def)
  with assms(2-4) have "t \<le> ff_tail f'" "t = ff_tail f' \<Longrightarrow> t + 1 < ff_head f' + ff_one_lap f'" by linarith+
  with Enq_Stamp show ?thesis by (simp add: pc_ok_def)
next
  case (Enq_Cas v t)
  with assms(1) have t: "t \<le> ff_tail f" "t = ff_tail f \<Longrightarrow> t + 1 < ff_head f + ff_one_lap f \<and> vacant f t"
    by (auto simp: pc_ok_def)
  with assms(2-4) have "t \<le> ff_tail f'" "t = ff_tail f' \<Longrightarrow> t + 1 < ff_head f' + ff_one_lap f'" by linarith+
  moreover have "vacant f' t" if "t = ff_tail f'" using that t assms(3,8) le_antisym by metis
  ultimately show ?thesis using Enq_Cas by (simp add: pc_ok_def)
next
  case (Deq_Cas h)
  with assms(1) have h: "h \<le> ff_head f" "h = ff_head f \<Longrightarrow> h < ff_tail f \<and> published f log h" by (auto simp: pc_ok_def)
  with assms(4) have "h \<le> ff_head f'" by linarith
  moreover have "h < ff_tail f' \<and> published f' log' h" if "h = ff_head f'"
    using that h assms(3,4,9) by (metis le_antisym less_le_trans)
  ultimately show ?thesis using Deq_Cas by (simp add: pc_ok_def)
qed (use assms(1,3,4) in \<open>auto simp: pc_ok_def\<close>)

lemma inv_claim:
  assumes inv: "fifo_inv f log pc" and pc: "pc i = Enq_Cas v t" and t: "ff_tail f = t"
  shows "fifo_inv (f\<lparr>ff_tail := t + 1\<rparr>) (log @ [v]) (pc(i := Enq_Write v t))"
proof -
  note d = fifo_invD [OF inv]
  let ?f = "f\<lparr>ff_tail := t + 1\<rparr>" and ?log = "log @ [v]" and ?pc = "pc(i := Enq_Write v t)"
  from d(7) [of i] pc t have room: "t + 1 < ff_head f + ff_one_lap f" and free: "vacant f t"
    by (auto simp: pc_ok_def)
  have pub: "published ?f ?log x" if "published f log x" "x < t" for x
    using that d(2) t by (auto simp: published_def nth_append)
  have tk: "taken ?f ?log h" if "taken f log h" for h
  proof -
    have "h < t" "t \<noteq> h + ff_one_lap f"
      using that d(3) t published_not_free [OF d(1) _ free, of log h] by (auto simp: taken_def)
    with that pub t show ?thesis by (auto simp: taken_def)
  qed
  have cl: "claimed ?f ?log x w" if "claimed f log x w" for x w
    using that d(2) t by (auto simp: claimed_def nth_append)
  have "pc_ok ?f ?log (pc j)" for j
    by (rule pc_ok_mono [OF d(7) [of j]])
      (use pub tk cl t d(2,3) in \<open>auto simp: taken_def nth_append\<close>)
  moreover have "pc_ok ?f ?log (Enq_Write v t)"
    using d(2,3) t free by (auto simp: pc_ok_def claimed_def nth_append)
  moreover have "\<not> writer (pc j) t" for j using writer_claims [OF inv, of j t] t by (auto simp: claimed_def)
  moreover have "writer (Enq_Write v t) x \<longleftrightarrow> x = t" "\<not> reader_of (Enq_Write v t) x"
    "\<not> writer (pc i) x" "\<not> reader_of (pc i) x" for x
    using pc by (auto simp: writer_def reader_of_def)
  moreover have "\<exists>j. writer (?pc j) x" if "ff_head f \<le> x" "x < t + 1" "\<not> published ?f ?log x" for x
  proof (cases "x = t")
    case True
    then show ?thesis by (intro exI [of _ i]) (simp add: writer_def)
  next
    case False
    with that pub d(5) [of x] t obtain j where "writer (pc j) x" by fastforce
    moreover from this pc have "j \<noteq> i" by (auto simp: writer_def)
    ultimately show ?thesis by (intro exI [of _ j]) simp
  qed
  moreover have "\<exists>j h. reader_of (?pc j) h \<and> x = h + ff_one_lap f"
    if "t + 1 \<le> x" "x < ff_head f + ff_one_lap f" "\<not> vacant f x" for x
  proof -
    from that d(6) [of x] t obtain j h where "reader_of (pc j) h" "x = h + ff_one_lap f" by auto
    moreover from this pc have "j \<noteq> i" by (auto simp: reader_of_def)
    ultimately show ?thesis by (intro exI [of _ j] exI [of _ h]) simp
  qed
  ultimately show ?thesis using d room t by (intro fifo_invI) (auto split: if_splits)
qed

lemma inv_write:
  assumes inv: "fifo_inv f log pc" and pc: "pc i = Enq_Write v t"
  shows "fifo_inv (set_slot t (\<lambda>s. s\<lparr>slot_value := Some v\<rparr>) f) log (pc(i := Enq_Publish v t))"
proof -
  note d = fifo_invD [OF inv]
  let ?f = "set_slot t (\<lambda>s. s\<lparr>slot_value := Some v\<rparr>) f" and ?pc = "pc(i := Enq_Publish v t)"
  note at = set_stamp_at(3,4) [OF d(1), of t "Some v"]
  have vac: "vacant ?f x = vacant f x" for x by (simp add: vacant_def at)
  from d(7) [of i] pc have cl: "claimed f log t v" by (simp add: pc_ok_def)
  then have free: "vacant f t" by (simp add: claimed_def)
  have pub: "published ?f log x" if "published f log x" for x
    using that published_not_free [OF d(1) that free] by (simp add: published_def at)
  have role: "writer (?pc j) x = writer (pc j) x" "reader_of (?pc j) x = reader_of (pc j) x" for j x
    using pc by (auto simp: writer_def reader_of_def)
  have other: "x mod ff_one_lap f \<noteq> t mod ff_one_lap f" if "j \<noteq> i" "pc j = Enq_Publish w x" for j w x
  proof
    assume "x mod ff_one_lap f = t mod ff_one_lap f"
    moreover have "vacant f x" using d(7) [of j] that by (simp add: pc_ok_def claimed_def)
    ultimately have "x = t" using free_same [OF d(1) _ free] by blast
    with that pc d(8) [of j t i] show False by (auto simp: writer_def)
  qed
  have "pc_ok ?f log (?pc j)" for j
  proof (cases "j = i")
    case True
    with cl show ?thesis by (simp add: pc_ok_def claimed_def vac at)
  next
    case False
    have "pc_ok ?f log (pc j)"
      by (rule pc_ok_mono [OF d(7) [of j]])
        (use False pub other [of j] in \<open>auto simp: claimed_def taken_def vac at\<close>)
    with False show ?thesis by simp
  qed
  moreover have "\<exists>j. writer (pc j) x" if "ff_head f \<le> x" "x < ff_tail f" "\<not> published ?f log x" for x
    using that pub d(5) [of x] by blast
  moreover have "\<exists>j h. reader_of (pc j) h \<and> x = h + ff_one_lap f"
    if "ff_tail f \<le> x" "x < ff_head f + ff_one_lap f" "\<not> vacant ?f x" for x
    using that d(6) [of x] by (simp add: vac)
  ultimately show ?thesis
    using d by (intro fifo_invI; (unfold role)?) auto
qed

lemma inv_publish:
  assumes inv: "fifo_inv f log pc" and pc: "pc i = Enq_Publish v t"
  shows "fifo_inv (set_slot t (\<lambda>s. s\<lparr>slot_stamp := Suc t\<rparr>) f) log (pc(i := Enq_Ok))"
proof -
  note d = fifo_invD [OF inv]
  let ?f = "set_slot t (\<lambda>s. s\<lparr>slot_stamp := Suc t\<rparr>) f" and ?pc = "pc(i := Enq_Ok)"
  note at = set_stamp_at(1,2) [OF d(1), of t "Suc t"]
  from d(7) [of i] pc have cl: "claimed f log t v" "value_at f t = Some v" by (simp_all add: pc_ok_def)
  then have free: "vacant f t" by (simp add: claimed_def)
  have pub: "published ?f log x" if "published f log x \<or> x = t" for x
    using that published_not_free [OF d(1) _ free, of log x] cl by (auto simp: published_def claimed_def at)
  have same: "vacant ?f x" if "vacant f x" "x \<noteq> t" for x
    using that free_same [OF d(1) _ free] by (auto simp: vacant_def at)
  have role: "writer (?pc j) x \<longleftrightarrow> writer (pc j) x \<and> x \<noteq> t" "reader_of (?pc j) x = reader_of (pc j) x" for j x
  proof -
    have "writer (pc i) y \<longleftrightarrow> y = t" "\<not> reader_of (pc i) y" "\<not> writer Enq_Ok y" "\<not> reader_of Enq_Ok y" for y
      by (auto simp: pc writer_def reader_of_def)
    then show "writer (?pc j) x \<longleftrightarrow> writer (pc j) x \<and> x \<noteq> t" "reader_of (?pc j) x = reader_of (pc j) x"
      using d(8) [of j t i] by (metis fun_upd_apply)+
  qed
  have "pc_ok ?f log (?pc j)" for j
  proof (cases "j = i")
    case True
    then show ?thesis by (simp add: pc_ok_def)
  next
    case False
    then have "\<not> writer (pc j) t" using d(8) [of j t i] pc by (auto simp: writer_def)
    moreover have "vacant ?f (ff_tail f)" if "vacant f (ff_tail f)"
      using that same [of "ff_tail f"] cl(1) by (simp add: claimed_def)
    ultimately have "pc_ok ?f log (pc j)"
      using pub same by (intro pc_ok_mono [OF d(7) [of j]]) (simp_all add: claimed_def taken_def at(2), metis)
    with False show ?thesis by simp
  qed
  moreover have "\<exists>j. writer (pc j) x \<and> x \<noteq> t"
    if "ff_head f \<le> x" "x < ff_tail f" "\<not> published ?f log x" for x
    using that pub d(5) [of x] by blast
  moreover have "\<exists>j h. reader_of (pc j) h \<and> x = h + ff_one_lap f"
    if "ff_tail f \<le> x" "x < ff_head f + ff_one_lap f" "\<not> vacant ?f x" for x
    using that d(6) [of x] same [of x] cl(1) by (auto simp: claimed_def)
  ultimately show ?thesis
    using d by (intro fifo_invI; (unfold role)?) auto
qed

lemma inv_take:
  assumes inv: "fifo_inv f log pc" and pc: "pc i = Deq_Cas h" and h: "ff_head f = h"
  shows "fifo_inv (f\<lparr>ff_head := Suc h\<rparr>) log (pc(i := Deq_Read h))"
proof -
  note d = fifo_invD [OF inv]
  let ?f = "f\<lparr>ff_head := Suc h\<rparr>" and ?pc = "pc(i := Deq_Read h)"
  from d(7) [of i] pc h have pub: "h < ff_tail f" "published f log h" by (auto simp: pc_ok_def)
  have same: "published ?f log x = published f log x" for x by (simp add: published_def)
  have tk: "taken ?f log h" using pub d(4) h by (simp add: taken_def same)
  have cl: "claimed ?f log x w" if "claimed f log x w" for x w
    using that published_not_free [OF d(1) pub(2), of x] h by (cases "x = h") (auto simp: claimed_def)
  have "pc_ok ?f log (?pc j)" for j
  proof (cases "j = i")
    case False
    have "pc_ok ?f log (pc j)"
      by (rule pc_ok_mono [OF d(7) [of j]]) (use cl h in \<open>auto simp: taken_def same\<close>)
    with False show ?thesis by simp
  qed (simp add: pc_ok_def tk)
  moreover have role: "writer (?pc j) x = writer (pc j) x" for j x using pc by (auto simp: writer_def)
  moreover have rd: "reader_of (?pc j) x \<longleftrightarrow> reader_of (pc j) x \<or> j = i \<and> x = h" for j x
    using pc by (auto simp: reader_of_def)
  moreover have "\<not> reader_of (pc j) h" for j using reader_takes [OF inv, of j h] h by (auto simp: taken_def)
  moreover have "\<exists>j g. (reader_of (pc j) g \<or> j = i \<and> g = h) \<and> x = g + ff_one_lap f"
    if "ff_tail f \<le> x" "x < h + 1 + ff_one_lap f" "\<not> vacant f x" for x
  proof (cases "x = h + ff_one_lap f")
    case False
    with that d(6) [of x] h show ?thesis by auto
  qed blast
  moreover have "\<exists>j. writer (pc j) x" if "h + 1 \<le> x" "x < ff_tail f" "\<not> published ?f log x" for x
    using that d(5) [of x] h by (auto simp: same)
  ultimately show ?thesis
    using d pub(1) h by (intro fifo_invI; (unfold role rd)?) auto
qed

lemma inv_release:
  assumes inv: "fifo_inv f log pc" and pc: "pc i = Deq_Release h x"
  shows "fifo_inv (set_slot h (\<lambda>s. s\<lparr>slot_stamp := h + ff_one_lap f\<rparr>) f) log (pc(i := Deq_Some x))"
proof -
  note d = fifo_invD [OF inv]
  let ?cap = "ff_one_lap f"
  let ?f = "set_slot h (\<lambda>s. s\<lparr>slot_stamp := h + ?cap\<rparr>) f" and ?pc = "pc(i := Deq_Some x)"
  note at = set_stamp_at(1,2) [OF d(1), of h "h + ?cap"]
  from d(7) [of i] pc have tk: "taken f log h" by (simp add: pc_ok_def)
  then have pubh: "published f log h" and "h < ff_head f" by (simp_all add: taken_def)
  have pub: "published ?f log y" if "published f log y" "y \<noteq> h" for y
    using that published_same [OF d(1) that(1) pubh] by (auto simp: published_def at)
  have free: "vacant ?f y" if "vacant f y" for y
    using that published_not_free [OF d(1) pubh that] by (auto simp: vacant_def at)
  have role: "writer (?pc j) y = writer (pc j) y" for j y using pc by (auto simp: writer_def)
  have rd: "reader_of (?pc j) y \<longleftrightarrow> reader_of (pc j) y \<and> y \<noteq> h" for j y
  proof -
    have "reader_of (pc i) z \<longleftrightarrow> z = h" "\<not> reader_of (Deq_Some x) z" for z by (auto simp: pc reader_of_def)
    then show ?thesis using d(9) [of j h i] by (cases "j = i") (simp, metis fun_upd_other)
  qed
  have "pc_ok ?f log (?pc j)" for j
  proof (cases "j = i")
    case True
    then show ?thesis by (simp add: pc_ok_def)
  next
    case False
    then have "\<not> reader_of (pc j) h" using d(9) [of j h i] pc by (auto simp: reader_of_def)
    then have "pc_ok ?f log (pc j)"
      using pub free \<open>h < ff_head f\<close>
      by (intro pc_ok_mono [OF d(7) [of j]]) (simp_all add: claimed_def taken_def at(2), blast+)
    with False show ?thesis by simp
  qed
  moreover have "\<exists>j. writer (pc j) y" if "ff_head f \<le> y" "y < ff_tail f" "\<not> published ?f log y" for y
    using that pub \<open>h < ff_head f\<close> d(5) [of y] by auto
  moreover have "\<exists>j g. (reader_of (pc j) g \<and> g \<noteq> h) \<and> y = g + ?cap"
    if "ff_tail f \<le> y" "y < ff_head f + ?cap" "\<not> vacant ?f y" for y
  proof -
    from that free obtain j g where "reader_of (pc j) g" "y = g + ?cap" using d(6) [of y] by blast
    moreover have "g \<noteq> h" using that(3) \<open>y = g + ?cap\<close> by (auto simp: vacant_def at)
    ultimately show ?thesis by blast
  qed
  ultimately show ?thesis
    using d by (intro fifo_invI; (unfold role rd)?) auto
qed


section \<open>Reachable states\<close>

definition got_ok :: "'a fifo_sys \<Rightarrow> bool" where
  "got_ok s \<longleftrightarrow>
     distinct (map fst (fs_got s)) \<and>
     (\<forall>(h, x) \<in> set (fs_got s). h < ff_head (fs_fifo s) \<and> fs_log s ! h = x \<and> (\<forall>i. \<not> reader_of (fs_pc s i) h)) \<and>
     (\<forall>h < ff_head (fs_fifo s). h \<in> fst ` set (fs_got s) \<or> (\<exists>i. reader_of (fs_pc s i) h))"

text \<open>No sum has wrapped around while a lap beyond \<open>tail\<close> is still a \<open>usize\<close>.\<close>

definition fits_usize :: "'a fifo \<Rightarrow> bool" where
  "fits_usize f \<longleftrightarrow> ff_tail f + ff_one_lap f < 2 ^ 64"

definition ticket_of :: "'a fifo_pc \<Rightarrow> nat option" where
  "ticket_of pc = (case pc of
      Enq_Head _ t \<Rightarrow> Some t | Enq_Stamp _ t \<Rightarrow> Some t | Enq_Cas _ t \<Rightarrow> Some t | Enq_Write _ t \<Rightarrow> Some t
    | Enq_Publish _ t \<Rightarrow> Some t | Deq_Tail h \<Rightarrow> Some h | Deq_Stamp h \<Rightarrow> Some h | Deq_Cas h \<Rightarrow> Some h
    | Deq_Read h \<Rightarrow> Some h | Deq_Release h _ \<Rightarrow> Some h | _ \<Rightarrow> None)"

lemma ticket_exact:
  assumes "ring_ok f" "ff_head f \<le> ff_tail f" "fits_usize f" "pc_ok f log pc" "ticket_of pc = Some t"
  shows "usize_add t (Suc 0) = Suc t" "usize_add t (ff_one_lap f) = t + ff_one_lap f"
proof -
  have "t \<le> ff_tail f" using assms(2,4,5) by (cases pc) (auto simp: ticket_of_def pc_ok_def claimed_def taken_def)
  with assms(1,3) show "usize_add t (Suc 0) = Suc t" "usize_add t (ff_one_lap f) = t + ff_one_lap f"
    by (simp_all add: usize_add_def fits_usize_def ring_ok_def)
qed

definition sys_inv :: "'a fifo_sys \<Rightarrow> bool" where
  "sys_inv s \<longleftrightarrow> fifo_inv (fs_fifo s) (fs_log s) (fs_pc s) \<and> got_ok s"

lemma in_call_cases:
  assumes "in_call p"
  obtains (Enq_Tail) v where "p = Enq_Tail v" | (Enq_Head) v t where "p = Enq_Head v t"
    | (Enq_Stamp) v t where "p = Enq_Stamp v t" | (Enq_Cas) v t where "p = Enq_Cas v t"
    | (Enq_Write) v t where "p = Enq_Write v t" | (Enq_Publish) v t where "p = Enq_Publish v t"
    | (Deq_Head) "p = Deq_Head" | (Deq_Tail) h where "p = Deq_Tail h" | (Deq_Stamp) h where "p = Deq_Stamp h"
    | (Deq_Cas) h where "p = Deq_Cas h" | (Deq_Read) h where "p = Deq_Read h"
    | (Deq_Release) h x where "p = Deq_Release h x"
  using assms by (cases p) (auto simp: in_call_def is_enqueue_def is_dequeue_def)

lemma fifo_step_inv:
  assumes "fifo_inv f log pc" "fifo_step weak f (pc i) = Ok (p, f')" "in_call (pc i)" "fits_usize f"
  shows "fifo_inv f' (log_after p log) (pc(i := p))"
proof -
  note d = fifo_invD [OF assms(1)]
  note loc = inv_local [OF assms(1), of _ i]
  have ok: "pc_ok f log (pc i)" by (rule d(7))
  note exact = ticket_exact [OF d(1,3) assms(4) ok]
  have quiet: ?thesis if "f' = f" "log_after p log = log" "pc_ok f log p"
    "\<And>t. writer p t = writer (pc i) t" "\<And>h. reader_of p h = reader_of (pc i) h"
    using loc [OF that(3-5)] that(1,2) by simp
  from assms(3) show ?thesis
  proof (cases rule: in_call_cases)
    case (Enq_Cas v t)
    with assms exact [of t] inv_claim [OF assms(1) Enq_Cas] loc [of "Enq_Tail v"] show ?thesis
      by (auto simp: fifo_step_def is_enqueue_def log_after_def pc_ok_def writer_def reader_of_def ticket_of_def split: if_splits)
  next
    case (Enq_Write v t)
    with assms inv_write [OF assms(1) Enq_Write] show ?thesis
      by (auto simp: fifo_step_def is_enqueue_def log_after_def)
  next
    case (Enq_Publish v t)
    with assms exact [of t] inv_publish [OF assms(1) Enq_Publish] show ?thesis
      by (auto simp: fifo_step_def is_enqueue_def log_after_def ticket_of_def)
  next
    case (Deq_Cas h)
    with assms exact [of h] inv_take [OF assms(1) Deq_Cas] loc [of Deq_Head] show ?thesis
      by (auto simp: fifo_step_def is_enqueue_def log_after_def pc_ok_def writer_def reader_of_def ticket_of_def split: if_splits)
  next
    case (Deq_Release h x)
    with assms exact [of h] inv_release [OF assms(1) Deq_Release] show ?thesis
      by (auto simp: fifo_step_def is_enqueue_def log_after_def ticket_of_def)
  next
    case (Enq_Head v t)
    have "t + 1 < ff_head f + ff_one_lap f" if "(t + 1) mod ff_one_lap f \<noteq> ff_head f mod ff_one_lap f" "t = ff_tail f"
      using that d(4) by (metis Suc_eq_plus1 Suc_leI le_neq_implies_less mod_add_self2)
    then have "fifo_inv f log (pc(i := Enq_Stamp v t))" if "(t + 1) mod ff_one_lap f \<noteq> ff_head f mod ff_one_lap f"
      using that ok Enq_Head by (intro loc) (auto simp: pc_ok_def writer_def reader_of_def)
    with Enq_Head assms exact [of t] loc [of "Enq_Err v"] show ?thesis
      by (auto simp: fifo_step_def is_enqueue_def log_after_def pc_ok_def writer_def reader_of_def ring_mask [OF d(1)]
          ticket_of_def split: if_splits)
  next
    case (Deq_Stamp h)
    have "h < ff_tail f \<and> published f log h" if "stamp_at f h = Suc h" "h = ff_head f"
    proof (rule ccontr)
      assume no: "\<not> (h < ff_tail f \<and> published f log h)"
      have "\<not> vacant f h" using that by (simp add: vacant_def)
      then have "\<not> writer (pc j) h" for j using writer_claims [OF assms(1), of j h] by (auto simp: claimed_def)
      with no d(5) [of h] that have "ff_tail f \<le> h" by fastforce
      with d(6) [of h] that \<open>\<not> vacant f h\<close> d(1) obtain j g where "reader_of (pc j) g" "h = g + ff_one_lap f"
        by (auto simp: ring_ok_def)
      with reader_takes [OF assms(1)] same_slot_stamp [OF d(1), of h g] that(1) d(1) show False
        by (auto simp: taken_def published_def ring_ok_def)
    qed
    then have "fifo_inv f log (pc(i := Deq_Cas h))" if "stamp_at f h = Suc h"
      using that ok Deq_Stamp by (intro loc) (auto simp: pc_ok_def writer_def reader_of_def)
    with Deq_Stamp assms exact [of h] loc [of Deq_Head] show ?thesis
      by (auto simp: fifo_step_def is_enqueue_def log_after_def pc_ok_def writer_def reader_of_def ticket_of_def
          simp flip: stamp_at_def split: if_splits)
  next
    case (Deq_Read h)
    with assms ok loc [of "Deq_Release h (log ! h)"] show ?thesis
      by (auto simp: fifo_step_def is_enqueue_def log_after_def pc_ok_def writer_def reader_of_def taken_def
          published_def simp flip: value_at_def)
  qed (rule quiet; use assms(2) ok d(3) in \<open>auto simp: fifo_step_def is_enqueue_def log_after_def pc_ok_def writer_def
      reader_of_def vacant_def stamp_at_def split: if_splits\<close>)+
qed

lemma sys_access_E:
  assumes "sys_access weak i s = Ok s'"
  obtains p f' where "fifo_step weak (fs_fifo s) (fs_pc s i) = Ok (p, f')"
    "s' = s\<lparr>fs_fifo := f', fs_pc := (fs_pc s)(i := p), fs_log := log_after p (fs_log s),
            fs_got := got_after (fs_pc s i) (fs_got s)\<rparr>"
  using assms by (auto simp: sys_access_def outcome_iff)

lemma inv_call:
  assumes "sys_inv s" "\<not> in_call (fs_pc s i)" "q = Enq_Tail v \<or> q = Deq_Head"
  shows "sys_inv (s\<lparr>fs_pc := (fs_pc s)(i := q)\<rparr>)"
proof -
  have role: "writer q t = writer (fs_pc s i) t" "reader_of q t = reader_of (fs_pc s i) t" for t
    using assms(2,3) by (auto simp: writer_def reader_of_def in_call_def is_enqueue_def is_dequeue_def)
  then have "reader_of (((fs_pc s)(i := q)) j) h = reader_of (fs_pc s j) h" for j h by simp
  with assms inv_local [of "fs_fifo s" "fs_log s" "fs_pc s" q i] role show ?thesis
    by (auto simp: sys_inv_def got_ok_def pc_ok_def)
qed

text \<open>How an access changes the counters, the histories and the set of readers.\<close>

lemma access_effect:
  assumes "sys_inv s" "sys_access weak i s = Ok s'" "in_call (fs_pc s i)" "fits_usize (fs_fifo s)"
  obtains
    (silent) "ff_head (fs_fifo s') = ff_head (fs_fifo s)" "fs_log s' = fs_log s" "fs_got s' = fs_got s"
      "\<And>j h. reader_of (fs_pc s' j) h = reader_of (fs_pc s j) h"
  | (claim) v where "fs_pc s i = Enq_Cas v (length (fs_log s))" "ff_head (fs_fifo s') = ff_head (fs_fifo s)"
      "fs_log s' = fs_log s @ [v]" "fs_got s' = fs_got s" "\<And>j h. reader_of (fs_pc s' j) h = reader_of (fs_pc s j) h"
  | (take) h where "fs_pc s i = Deq_Cas h" "ff_head (fs_fifo s) = h" "h < length (fs_log s)"
      "ff_head (fs_fifo s') = h + 1" "fs_log s' = fs_log s" "fs_got s' = fs_got s"
      "\<And>j g. reader_of (fs_pc s' j) g \<longleftrightarrow> reader_of (fs_pc s j) g \<or> j = i \<and> g = h"
  | (release) h where "fs_pc s i = Deq_Release h (fs_log s ! h)" "h < ff_head (fs_fifo s)"
      "ff_head (fs_fifo s') = ff_head (fs_fifo s)" "fs_log s' = fs_log s"
      "fs_got s' = fs_got s @ [(h, fs_log s ! h)]" "fs_pc s' i = Deq_Some (fs_log s ! h)"
      "\<And>j g. reader_of (fs_pc s' j) g \<longleftrightarrow> reader_of (fs_pc s j) g \<and> g \<noteq> h"
proof -
  from assms(1) have inv: "fifo_inv (fs_fifo s) (fs_log s) (fs_pc s)" by (simp add: sys_inv_def)
  note d = fifo_invD [OF inv]
  have ok: "pc_ok (fs_fifo s) (fs_log s) (fs_pc s i)" by (rule d(7))
  from assms(2) obtain p f' where st: "fifo_step weak (fs_fifo s) (fs_pc s i) = Ok (p, f')"
    and s': "s' = s\<lparr>fs_fifo := f', fs_pc := (fs_pc s)(i := p), fs_log := log_after p (fs_log s),
            fs_got := got_after (fs_pc s i) (fs_got s)\<rparr>"
    by (rule sys_access_E)
  note unf = fifo_step_def is_enqueue_def log_after_def got_after_def reader_of_def pc_ok_def taken_def
  note exact = ticket_exact [OF d(1,3) assms(4) ok]
  from assms(3) show ?thesis
  proof (cases rule: in_call_cases)
    case (Enq_Cas v t)
    show ?thesis
    proof (cases "ff_tail (fs_fifo s) = t \<and> \<not> weak")
      case True
      with Enq_Cas st s' d(2) exact [of t] show ?thesis by (intro claim [of v]) (auto simp: unf ticket_of_def)
    next
      case False
      with Enq_Cas st s' show ?thesis by (intro silent) (auto simp: unf)
    qed
  next
    case (Deq_Cas h)
    show ?thesis
    proof (cases "ff_head (fs_fifo s) = h \<and> \<not> weak")
      case True
      with Deq_Cas st s' d(2) ok exact [of h] show ?thesis by (intro take [of h]) (auto simp: unf ticket_of_def)
    next
      case False
      with Deq_Cas st s' show ?thesis by (intro silent) (auto simp: unf)
    qed
  next
    case (Deq_Release h x)
    have rd: "reader_of (fs_pc s i) g \<longleftrightarrow> g = h" for g by (auto simp: Deq_Release reader_of_def)
    have "reader_of (((fs_pc s)(i := Deq_Some x)) j) g \<longleftrightarrow> reader_of (fs_pc s j) g \<and> g \<noteq> h" for j g
      using d(9) [of j h i] rd by (cases "j = i") (auto simp: reader_of_def)
    moreover have x: "x = fs_log s ! h" "h < ff_head (fs_fifo s)"
      using ok Deq_Release by (simp_all add: pc_ok_def taken_def)
    moreover have "p = Deq_Some x" "ff_head f' = ff_head (fs_fifo s)" "log_after p (fs_log s) = fs_log s"
      "got_after (fs_pc s i) (fs_got s) = fs_got s @ [(h, x)]"
      using Deq_Release st by (auto simp: fifo_step_def is_enqueue_def log_after_def got_after_def)
    ultimately show ?thesis using Deq_Release s' by (intro release [of h]) simp_all
  next
    case (Deq_Read h)
    with st s' show ?thesis by (intro silent) (auto simp: unf split: option.splits)
  qed (rule silent; use st s' in \<open>auto simp: unf split: if_splits\<close>)+
qed

end
