(* ===== verification/FifoQueue.thy ===== *)
theory FifoQueue
  imports FifoSafety
begin

text \<open>
  What \<open>ConcurrentFifo\<close> promises its callers: under every interleaving it behaves like a bounded
  queue that hands out each value once and in order, it never reads a slot that was not written, a
  call that runs alone returns; and what it does not promise: a call may report a full queue that
  is empty.
\<close>

section \<open>The invariant holds in every reachable state\<close>

lemma start_inv:
  assumes "0 < capacity"
  shows "sys_inv (fifo_start capacity)"
proof -
  obtain k where k: "next_power_of_two (capacity + 1) = 2 ^ k" "capacity + 1 \<le> 2 ^ k"
    using next_power_of_two_power by blast
  let ?f = "fifo_with_capacity capacity"
  have r: "ring_ok ?f" using k assms by (auto simp: ring_ok_def fifo_with_capacity_def Let_def)
  have "vacant ?f t" if "t < ff_one_lap ?f" for t
    using that ring_mask [OF r, of t]
    by (simp add: vacant_def stamp_at_def fifo_slot_def) (simp add: fifo_with_capacity_def slot_new_def Let_def)
  with r have "fifo_inv ?f [] (\<lambda>_. Idle)"
    by (intro fifo_invI)
      (auto simp: fifo_with_capacity_def Let_def pc_ok_def writer_def reader_of_def ring_ok_def k)
  then show ?thesis
    by (simp add: sys_inv_def got_ok_def fifo_start_def fifo_with_capacity_def Let_def)
qed

lemma access_inv:
  assumes inv: "sys_inv s" and "sys_access weak i s = Ok s'" "in_call (fs_pc s i)" "fits_usize (fs_fifo s)"
  shows "sys_inv s'"
proof -
  from assms(2) obtain p f' where "fifo_step weak (fs_fifo s) (fs_pc s i) = Ok (p, f')"
    and s': "s' = s\<lparr>fs_fifo := f', fs_pc := (fs_pc s)(i := p), fs_log := log_after p (fs_log s),
            fs_got := got_after (fs_pc s i) (fs_got s)\<rparr>"
    by (rule sys_access_E)
  with inv assms(3,4) have "fifo_inv (fs_fifo s') (fs_log s') (fs_pc s')"
    using fifo_step_inv [of "fs_fifo s" "fs_log s" "fs_pc s" weak i p f'] by (simp add: sys_inv_def)
  moreover from inv have len: "ff_head (fs_fifo s) \<le> length (fs_log s)"
    by (auto simp: sys_inv_def fifo_inv_def)
  from inv have got: "got_ok s" by (simp add: sys_inv_def)
  then have g: "distinct (map fst (fs_got s))"
    "\<And>h x. (h, x) \<in> set (fs_got s) \<Longrightarrow> h < ff_head (fs_fifo s)"
    "\<And>h x. (h, x) \<in> set (fs_got s) \<Longrightarrow> fs_log s ! h = x"
    "\<And>h x i. (h, x) \<in> set (fs_got s) \<Longrightarrow> \<not> reader_of (fs_pc s i) h"
    "\<And>h. h < ff_head (fs_fifo s) \<Longrightarrow> h \<in> fst ` set (fs_got s) \<or> (\<exists>i. reader_of (fs_pc s i) h)"
    by (auto simp: got_ok_def)
  from inv assms(2-4) have "got_ok s'"
  proof (cases rule: access_effect)
    case silent
    with got show ?thesis by (simp add: got_ok_def)
  next
    case (claim v)
    have "fs_log s' ! h = x" if "(h, x) \<in> set (fs_got s)" for h x
      using g(2,3) [OF that] claim(3) len by (simp add: nth_append)
    with got claim(2,4,5) show ?thesis by (auto simp: got_ok_def)
  next
    case (take h)
    have "x < ff_head (fs_fifo s) \<or> x = h" if "x < ff_head (fs_fifo s')" for x using that take(2,4) by auto
    moreover have "x \<noteq> h" if "(x, v) \<in> set (fs_got s)" for x v using g(2) [OF that] take(2) by simp
    ultimately show ?thesis
      using g take(2,4-7) unfolding got_ok_def by (auto dest: g(2)) metis
  next
    case (release h)
    have "reader_of (fs_pc s i) h" by (simp add: release reader_of_def)
    then have "h \<notin> fst ` set (fs_got s)" using g(4) by force
    with g release(2-5,7) show ?thesis unfolding got_ok_def by auto (metis fst_conv image_eqI)
  qed
  ultimately show ?thesis by (simp add: sys_inv_def)
qed

lemma step_inv: "fifo_sys_step s s' \<Longrightarrow> sys_inv s \<Longrightarrow> fits_usize (fs_fifo s) \<Longrightarrow> sys_inv s'"
proof (induction rule: fifo_sys_step.induct)
  case (call_enqueue s i v)
  then show ?case by (intro inv_call [of _ _ _ v]) simp_all
next
  case (call_dequeue s i)
  then show ?case by (intro inv_call) simp_all
next
  case (access s i weak s')
  then show ?case using access_inv by blast
qed

lemma reachable_lap: "fifo_reachable capacity s \<Longrightarrow> ff_one_lap (fs_fifo s) = next_power_of_two (capacity + 1)"
proof (induction rule: fifo_reachable.induct)
  case start
  then show ?case by (simp add: fifo_start_def fifo_with_capacity_def Let_def)
next
  case (step s s')
  have lap: "fifo_step w f p = Ok (q, f') \<Longrightarrow> ff_one_lap f' = ff_one_lap f" for w q and f f' :: "'a fifo" and p
    by (cases p) (auto simp: fifo_step_def is_enqueue_def split: if_splits option.splits)
  from step(2,3) show ?case
    by (induction rule: fifo_sys_step.induct) (auto elim!: sys_access_E dest: lap)
qed


text \<open>
  Fewer than \<open>2 ^ 64\<close> minus one lap values have been enqueued, so no counter and no stamp has
  wrapped around.
\<close>

definition no_wrap :: "nat \<Rightarrow> 'a fifo_sys \<Rightarrow> bool" where
  "no_wrap capacity s \<longleftrightarrow> length (fs_log s) + next_power_of_two (capacity + 1) < 2 ^ 64"

lemma no_wrap_fits:
  "fifo_reachable capacity s \<Longrightarrow> sys_inv s \<Longrightarrow> no_wrap capacity s \<Longrightarrow> fits_usize (fs_fifo s)"
  by (drule reachable_lap) (simp add: no_wrap_def fits_usize_def sys_inv_def fifo_inv_def)

lemma step_log: "fifo_sys_step s s' \<Longrightarrow> length (fs_log s) \<le> length (fs_log s')"
  by (induction rule: fifo_sys_step.induct)
    (auto simp: log_after_def elim!: sys_access_E split: fifo_pc.splits)

lemma reachable_inv: "fifo_reachable capacity s \<Longrightarrow> 0 < capacity \<Longrightarrow> no_wrap capacity s \<Longrightarrow> sys_inv s"
proof (induction rule: fifo_reachable.induct)
  case start
  then show ?case by (simp add: start_inv)
next
  case (step s s')
  then have w: "no_wrap capacity s" using step_log [OF step(2)] by (simp add: no_wrap_def)
  with step have "sys_inv s" by simp
  with step(2) no_wrap_fits [OF step(1) this w] show ?case by (blast intro: step_inv)
qed

lemma idle_roles: "\<not> in_call p \<Longrightarrow> \<not> writer p t \<and> \<not> reader_of p t"
  by (auto simp: writer_def reader_of_def in_call_def is_enqueue_def is_dequeue_def)


section \<open>A bounded queue\<close>

text \<open>The specification: a queue of at most \<open>bound\<close> values.\<close>

inductive queue_step :: "nat \<Rightarrow> 'a list \<Rightarrow> 'a list \<Rightarrow> bool" for bound where
  put: "length q < bound \<Longrightarrow> queue_step bound q (q @ [v])"
| get: "queue_step bound (x # q) q"

text \<open>Schedules: which thread moves, and how.\<close>

datatype 'a move = Call_Enqueue 'a | Call_Dequeue | Access

fun run_schedule :: "(nat \<times> 'a move) list \<Rightarrow> 'a fifo_sys \<Rightarrow> 'a fifo_sys option" where
  "run_schedule [] s = Some s"
| "run_schedule ((i, Call_Enqueue v) # ms) s =
     (if in_call (fs_pc s i) then None else run_schedule ms (s\<lparr>fs_pc := (fs_pc s)(i := Enq_Tail v)\<rparr>))"
| "run_schedule ((i, Call_Dequeue) # ms) s =
     (if in_call (fs_pc s i) then None else run_schedule ms (s\<lparr>fs_pc := (fs_pc s)(i := Deq_Head)\<rparr>))"
| "run_schedule ((i, Access) # ms) s =
     (if in_call (fs_pc s i)
      then (case sys_access False i s of Ok s' \<Rightarrow> run_schedule ms s' | _ \<Rightarrow> None) else None)"

lemma run_schedule_reachable:
  "run_schedule ms s = Some s' \<Longrightarrow> fifo_reachable capacity s \<Longrightarrow> fifo_reachable capacity s'"
  by (induction ms s rule: run_schedule.induct)
    (auto split: if_splits outcome.splits intro: fifo_reachable.step fifo_sys_step.intros)

text \<open>Thread 0 has read \<open>tail\<close> when thread 1 enqueues and dequeues a value.\<close>

definition ex_schedule :: "(nat \<times> nat move) list" where
  "ex_schedule =
     [(0, Call_Enqueue 7), (0, Access),
      (1, Call_Enqueue 8), (1, Access), (1, Access), (1, Access), (1, Access), (1, Access), (1, Access),
      (1, Call_Dequeue), (1, Access), (1, Access), (1, Access), (1, Access), (1, Access), (1, Access)]"

definition ex_sys :: "nat fifo_sys" where
  "ex_sys = \<lparr>fs_fifo = \<lparr>ff_head = 1, ff_tail = 1, ff_mask = 3, ff_one_lap = 4,
       ff_data = [\<lparr>slot_stamp = 4, slot_value = Some 8\<rparr>, slot_new 1, slot_new 2, slot_new 3]\<rparr>,
     fs_pc = ((\<lambda>_. Idle)(0 := Enq_Head 7 0))(1 := Deq_Some 8), fs_log = [8], fs_got = [(0, 8)]\<rparr>"

lemmas fifo_eval = usize_add_def sys_access_def fifo_step_def in_call_def is_enqueue_def is_dequeue_def log_after_def
  got_after_def fifo_slot_def set_slot_def slot_new_def

lemma start_2: "fifo_start 2 = \<lparr>fs_fifo = \<lparr>ff_head = 0, ff_tail = 0, ff_mask = 3, ff_one_lap = 4,
       ff_data = [slot_new 0, slot_new 1, slot_new 2, slot_new 3]\<rparr>, fs_pc = (\<lambda>_. Idle), fs_log = [], fs_got = []\<rparr>"
  by (simp add: fifo_start_def fifo_with_capacity_def next_power_of_two_def power_of_two_from.simps Let_def
      upt_rec numeral_eq_Suc)

lemma run_ex: "run_schedule ex_schedule (fifo_start 2) = Some ex_sys"
  by (simp add: ex_schedule_def start_2 ex_sys_def fifo_eval)

lemma npo2_3 [simp]: "next_power_of_two 3 = 4"
  by (simp add: next_power_of_two_def power_of_two_from.simps)

lemma ex_no_wrap: "no_wrap 2 ex_sys"
  by (simp add: no_wrap_def ex_sys_def)

lemma ex_reachable: "fifo_reachable 2 ex_sys"
  by (rule run_schedule_reachable [OF run_ex fifo_reachable.start])

text \<open>
  C15: Refinement.  Under any interleaving of any number of threads, every step of the system leaves
  the queue as it is, or appends one value to a queue that still has room, or removes the oldest
  value.  The room is the capacity asked for, which is not 0, rounded up to one less than a power of
  two.  This holds as long as the counters have not wrapped around.
\<close>

theorem fifo_refines_queue:
  assumes "fifo_reachable capacity s" "0 < capacity" "fifo_sys_step s s'" "no_wrap capacity s"
  shows "fifo_queue s' = fifo_queue s \<or>
    queue_step (next_power_of_two (capacity + 1) - 1) (fifo_queue s) (fifo_queue s')"
proof -
  have inv: "sys_inv s" by (rule reachable_inv [OF assms(1,2,4)])
  then have f: "fifo_inv (fs_fifo s) (fs_log s) (fs_pc s)" by (simp add: sys_inv_def)
  note d = fifo_invD [OF f]
  from assms(3) show ?thesis
  proof (cases rule: fifo_sys_step.cases)
    case (access i weak)
    from inv access(2,1) no_wrap_fits [OF assms(1) inv assms(4)] show ?thesis
    proof (cases rule: access_effect)
      case (claim v)
      have "length (fs_log s) + 1 < ff_head (fs_fifo s) + ff_one_lap (fs_fifo s)"
        using d(2) d(7) [of i] claim(1) by (auto simp: pc_ok_def)
      then have "length (fifo_queue s) < ff_one_lap (fs_fifo s) - 1" using d(2,3) by (simp add: fifo_queue_def)
      moreover have "fifo_queue s' = fifo_queue s @ [v]" using claim d(2,3) by (simp add: fifo_queue_def)
      ultimately show ?thesis
        using reachable_lap [OF assms(1)] by (auto intro: queue_step.put)
    next
      case (take h)
      then have "fifo_queue s = fs_log s ! h # fifo_queue s'"
        by (simp add: fifo_queue_def Cons_nth_drop_Suc)
      then show ?thesis by (auto intro: queue_step.get)
    qed (simp_all add: fifo_queue_def)
  qed (simp_all add: fifo_queue_def)
qed

text \<open>Thread 1 is about to win ticket 0 for the value 8, and has just won it.\<close>

definition ex_claim :: "nat fifo_sys" where
  "ex_claim = (fifo_start 2)\<lparr>fs_pc := (\<lambda>_. Idle)(1 := Enq_Cas 8 0)\<rparr>"

definition ex_claimed :: "nat fifo_sys" where
  "ex_claimed = \<lparr>fs_fifo = (fs_fifo (fifo_start 2))\<lparr>ff_tail := 1\<rparr>,
     fs_pc = (\<lambda>_. Idle)(1 := Enq_Write 8 0), fs_log = [8], fs_got = []\<rparr>"

theorem fifo_refines_queue_witness: "queue_step 3 (fifo_queue ex_claim) (fifo_queue ex_claimed)"
proof -
  have "run_schedule [(1, Call_Enqueue 8), (1, Access), (1, Access), (1, Access)] (fifo_start 2) = Some ex_claim"
    by (simp add: start_2 ex_claim_def fifo_eval)
  then have r: "fifo_reachable 2 ex_claim" by (rule run_schedule_reachable) (rule fifo_reachable.start)
  have "in_call (fs_pc ex_claim 1)" "sys_access False 1 ex_claim = Ok ex_claimed"
    by (simp_all add: start_2 ex_claim_def ex_claimed_def fifo_eval)
  then have st: "fifo_sys_step ex_claim ex_claimed" by (rule fifo_sys_step.access)
  from fifo_refines_queue [OF r _ st] show ?thesis
    by (simp add: no_wrap_def ex_claim_def ex_claimed_def start_2 fifo_queue_def next_power_of_two_def power_of_two_from.simps)
qed

text \<open>
  C16: Every value is delivered once.  In every reachable state the tickets that dequeue calls have
  returned are distinct, each was returned with the value that was enqueued under it, and when no
  thread is inside a call exactly the tickets below \<open>head\<close> have been returned: no value is lost,
  duplicated or invented.  The capacity is not 0 and the counters have not wrapped around.
\<close>

theorem fifo_delivers_once:
  assumes "fifo_reachable capacity s" "0 < capacity" "no_wrap capacity s"
  shows "distinct (map fst (fs_got s)) \<and>
    (\<forall>(h, x) \<in> set (fs_got s). h < length (fs_log s) \<and> fs_log s ! h = x) \<and>
    ((\<forall>i. \<not> in_call (fs_pc s i)) \<longrightarrow> fst ` set (fs_got s) = {..<ff_head (fs_fifo s)})"
proof -
  have inv: "sys_inv s" by (rule reachable_inv [OF assms])
  then have len: "ff_head (fs_fifo s) \<le> length (fs_log s)" by (auto simp: sys_inv_def fifo_inv_def)
  from inv have got: "got_ok s" by (simp add: sys_inv_def)
  have "fst ` set (fs_got s) = {..<ff_head (fs_fifo s)}" if "\<forall>i. \<not> in_call (fs_pc s i)"
  proof -
    from that have "\<not> reader_of (fs_pc s i) h" for i h by (simp add: idle_roles)
    with got show ?thesis by (force simp: got_ok_def)
  qed
  with got len show ?thesis by (fastforce simp: got_ok_def)
qed

theorem fifo_delivers_once_witness: "\<forall>n. (n, 8) \<in> set (fs_got ex_sys) \<longleftrightarrow> n = 0"
  using fifo_delivers_once [OF ex_reachable] by (auto simp: ex_sys_def ex_no_wrap)

text \<open>
  No access reads a slot that was not written.  In every reachable state the next access of
  every thread is defined: a dequeue call reads its slot only after an enqueue call has filled it.
\<close>

theorem fifo_reads_written:
  assumes "fifo_reachable capacity s" "0 < capacity" "no_wrap capacity s"
  shows "fifo_step weak (fs_fifo s) (fs_pc s i) \<noteq> UB u"
proof -
  have "pc_ok (fs_fifo s) (fs_log s) (fs_pc s i)"
    using reachable_inv [OF assms] by (auto simp: sys_inv_def dest: fifo_invD(7))
  then show ?thesis
    by (cases "fs_pc s i")
      (auto simp: fifo_step_def is_enqueue_def pc_ok_def taken_def published_def value_at_def)
qed

theorem fifo_reads_written_witness: "fifo_step False (fs_fifo ex_sys) (fs_pc ex_sys 0) \<noteq> UB UninitRead"
  using fifo_reads_written [OF ex_reachable _ ex_no_wrap] by simp


section \<open>Calls that run alone\<close>

lemma fifo_slot_counters [simp]:
  "fifo_slot (f\<lparr>ff_head := n\<rparr>) t = fifo_slot f t" "fifo_slot (f\<lparr>ff_tail := n\<rparr>) t = fifo_slot f t"
  by (simp_all add: fifo_slot_def)

primrec solo :: "nat \<Rightarrow> nat \<Rightarrow> 'a fifo_sys \<Rightarrow> (unit, 'a fifo_sys) outcome" where
  "solo i 0 s = Ok s"
| "solo i (Suc n) s = and_then (sys_access False i s) (solo i n)"

lemma alone:
  assumes "sys_inv s" "\<And>j. j \<noteq> i \<Longrightarrow> \<not> in_call (fs_pc s j)" "fs_pc s i = Enq_Tail v \<or> fs_pc s i = Deq_Head"
  shows "ff_head (fs_fifo s) < ff_tail (fs_fifo s) \<Longrightarrow> published (fs_fifo s) (fs_log s) (ff_head (fs_fifo s))"
    and "vacant (fs_fifo s) (ff_tail (fs_fifo s))"
proof -
  from assms(1) have inv: "fifo_inv (fs_fifo s) (fs_log s) (fs_pc s)" by (simp add: sys_inv_def)
  note d = fifo_invD [OF inv]
  have "\<not> writer (fs_pc s j) t \<and> \<not> reader_of (fs_pc s j) t" for j t
  proof (cases "j = i")
    case True
    with assms(3) show ?thesis by (auto simp: writer_def reader_of_def)
  qed (simp add: assms(2) idle_roles)
  with d(5) [of "ff_head (fs_fifo s)"] d(6) [of "ff_tail (fs_fifo s)"] d(4)
  show "ff_head (fs_fifo s) < ff_tail (fs_fifo s) \<Longrightarrow> published (fs_fifo s) (fs_log s) (ff_head (fs_fifo s))"
    "vacant (fs_fifo s) (ff_tail (fs_fifo s))" by auto
qed

text \<open>
  An enqueue call that runs alone returns after at most six accesses: with the value appended
  when the queue has room, with the value handed back when it has none.
\<close>

theorem fifo_solo_enqueue:
  assumes "fifo_reachable capacity s" "0 < capacity" "fs_pc s i = Enq_Tail v"
    and "\<forall>j. j \<noteq> i \<longrightarrow> \<not> in_call (fs_pc s j)" "no_wrap capacity s"
  shows "if length (fifo_queue s) + 1 < next_power_of_two (capacity + 1)
    then \<exists>s'. solo i 6 s = Ok s' \<and> fs_pc s' i = Enq_Ok \<and> fifo_queue s' = fifo_queue s @ [v]
    else \<exists>s'. solo i 2 s = Ok s' \<and> fs_pc s' i = Enq_Err v \<and> fifo_queue s' = fifo_queue s"
proof -
  let ?f = "fs_fifo s"
  have inv: "sys_inv s" by (rule reachable_inv [OF assms(1,2,5)])
  then have "fifo_inv ?f (fs_log s) (fs_pc s)" by (simp add: sys_inv_def)
  note d = fifo_invD [OF this]
  have exact: "usize_add t (Suc 0) = Suc t" "usize_add t (ff_one_lap ?f) = t + ff_one_lap ?f" if "t \<le> ff_tail ?f" for t
    using that no_wrap_fits [OF assms(1) inv assms(5)] d(1) by (simp_all add: usize_add_def fits_usize_def ring_ok_def)
  have vac: "slot_stamp (fifo_slot ?f (ff_tail ?f)) = ff_tail ?f"
    using alone(2) [OF inv, of i v] assms(3,4) by (simp add: vacant_def stamp_at_def)
  have len: "length (fifo_queue s) = ff_tail ?f - ff_head ?f" using d(2) by (simp add: fifo_queue_def)
  have full: "Suc (ff_tail ?f) AND ff_mask ?f = ff_head ?f AND ff_mask ?f
      \<longleftrightarrow> \<not> length (fifo_queue s) + 1 < next_power_of_two (capacity + 1)"
  proof -
    have "Suc (ff_tail ?f) mod ff_one_lap ?f = ff_head ?f mod ff_one_lap ?f
        \<longleftrightarrow> Suc (ff_tail ?f) = ff_head ?f + ff_one_lap ?f"
      using d(1,3,4) window_inj [of "Suc (ff_tail ?f)" "ff_one_lap ?f" "ff_head ?f + ff_one_lap ?f" "Suc (ff_head ?f)"]
      by (auto simp: ring_ok_def)
    with d(1,3,4) len reachable_lap [OF assms(1)] show ?thesis
      by (auto simp: ring_mask)
  qed
  show ?thesis
    using assms(3) vac full d(2,3) exact [of "ff_tail ?f"]
    by (simp add: eval_nat_numeral sys_access_def fifo_step_def is_enqueue_def log_after_def got_after_def
        fifo_queue_def)
qed

theorem fifo_solo_enqueue_witness:
  "\<exists>s'. solo 0 6 ((fifo_start 2)\<lparr>fs_pc := (\<lambda>_. Idle)(0 := Enq_Tail (7 :: nat))\<rparr>) = Ok s' \<and>
     fs_pc s' 0 = Enq_Ok \<and> fifo_queue s' = [7]"
proof -
  let ?s = "(fifo_start 2)\<lparr>fs_pc := (\<lambda>_. Idle)(0 := Enq_Tail (7 :: nat))\<rparr>"
  have "fifo_sys_step (fifo_start 2) ?s"
    using fifo_sys_step.call_enqueue [of "fifo_start 2" 0 "7 :: nat"] by (simp add: start_2 fifo_eval)
  then have "fifo_reachable 2 ?s" by (rule fifo_reachable.step [OF fifo_reachable.start])
  from fifo_solo_enqueue [OF this, of 0 7] show ?thesis
    by (simp add: no_wrap_def start_2 fifo_eval fifo_queue_def next_power_of_two_def power_of_two_from.simps)
qed

text \<open>
  A dequeue call that runs alone returns after at most six accesses, with the oldest value of the
  queue, or with nothing when the queue is empty.
\<close>

theorem fifo_solo_dequeue:
  assumes "fifo_reachable capacity s" "0 < capacity" "fs_pc s i = Deq_Head"
    and "\<forall>j. j \<noteq> i \<longrightarrow> \<not> in_call (fs_pc s j)" "no_wrap capacity s"
  shows "case fifo_queue s of
      [] \<Rightarrow> \<exists>s'. solo i 2 s = Ok s' \<and> fs_pc s' i = Deq_None \<and> fifo_queue s' = []
    | x # q \<Rightarrow> \<exists>s'. solo i 6 s = Ok s' \<and> fs_pc s' i = Deq_Some x \<and> fifo_queue s' = q"
proof -
  let ?f = "fs_fifo s" and ?h = "ff_head (fs_fifo s)"
  have inv: "sys_inv s" by (rule reachable_inv [OF assms(1,2,5)])
  then have "fifo_inv ?f (fs_log s) (fs_pc s)" by (simp add: sys_inv_def)
  note d = fifo_invD [OF this]
  have exact: "usize_add t (Suc 0) = Suc t" "usize_add t (ff_one_lap ?f) = t + ff_one_lap ?f" if "t \<le> ff_tail ?f" for t
    using that no_wrap_fits [OF assms(1) inv assms(5)] d(1) by (simp_all add: usize_add_def fits_usize_def ring_ok_def)
  have empty: "?h AND ff_mask ?f = ff_tail ?f AND ff_mask ?f \<longleftrightarrow> ?h = ff_tail ?f"
    using d(1,3,4) window_inj [of ?h "ff_one_lap ?f" "ff_tail ?f" ?h] by (auto simp: ring_mask)
  show ?thesis
  proof (cases "?h = ff_tail ?f")
    case True
    with assms(3) empty d(2) show ?thesis
      by (simp add: eval_nat_numeral sys_access_def fifo_step_def is_enqueue_def log_after_def got_after_def
          fifo_queue_def)
  next
    case False
    with d(2,3) have q: "fifo_queue s = fs_log s ! ?h # drop (Suc ?h) (fs_log s)"
      by (simp add: fifo_queue_def Cons_nth_drop_Suc)
    from False d(3) alone(1) [OF inv, of i] assms(3,4)
    have "slot_stamp (fifo_slot ?f ?h) = Suc ?h" "slot_value (fifo_slot ?f ?h) = Some (fs_log s ! ?h)"
      by (auto simp: published_def stamp_at_def value_at_def)
    with False assms(3) empty d(2,3) exact [of ?h] show ?thesis
      unfolding q
      by (simp add: eval_nat_numeral sys_access_def fifo_step_def is_enqueue_def log_after_def got_after_def
          fifo_queue_def)
  qed
qed

theorem fifo_solo_dequeue_witness:
  "\<exists>s'. solo 0 2 ((fifo_start 2)\<lparr>fs_pc := (\<lambda>_. Idle)(0 := Deq_Head :: nat fifo_pc)\<rparr>) = Ok s' \<and>
     fs_pc s' 0 = Deq_None \<and> fifo_queue s' = []"
proof -
  let ?s = "(fifo_start 2)\<lparr>fs_pc := (\<lambda>_. Idle)(0 := Deq_Head :: nat fifo_pc)\<rparr>"
  have "fifo_sys_step (fifo_start 2) ?s"
    using fifo_sys_step.call_dequeue [of "fifo_start 2 :: nat fifo_sys" 0] by (simp add: start_2 fifo_eval)
  then have "fifo_reachable 2 ?s" by (rule fifo_reachable.step [OF fifo_reachable.start])
  from fifo_solo_dequeue [OF this, of 0] show ?thesis
    by (simp add: no_wrap_def start_2 fifo_eval fifo_queue_def)
qed


section \<open>A full queue that is empty\<close>

text \<open>
  An enqueue call can fail on an empty queue.  It reads \<open>tail\<close> and \<open>head\<close> in two accesses;
  when another thread enqueues and dequeues one value in between, the stale \<open>tail + 1\<close> meets the
  new \<open>head\<close> and the call reports a full queue, although the queue never held more than one of
  its three values.  \<open>AsyncSemaphore::poll\<close> unwraps the result of this call.
\<close>

theorem fifo_full_when_empty:
  "\<exists>s. fifo_reachable 2 s \<and> fs_pc s 0 = Enq_Err (7 :: nat) \<and> fifo_queue s = []"
proof -
  let ?s = "ex_sys\<lparr>fs_pc := (fs_pc ex_sys)(0 := Enq_Err 7)\<rparr>"
  have "run_schedule [(0, Access)] ex_sys = Some ?s" by (simp add: ex_sys_def fifo_eval)
  then have "fifo_reachable 2 ?s" by (rule run_schedule_reachable) (rule ex_reachable)
  then show ?thesis by (intro exI [of _ ?s]) (simp add: ex_sys_def fifo_queue_def)
qed

end
