(* ===== verification/Locks.thy ===== *)
theory Locks
  imports Prelude
begin

text \<open>
  The blocking locks of src/system/src/sync: \<open>RwLockInner\<close> (rwlock.rs), \<open>BinarySemaphore\<close>
  and \<open>Semaphore\<close> (semaphore.rs), which share the waiting protocol of \<open>SignallingObject\<close>
  (signal.rs) and the sleep counter of a thread (task/scheduler.rs).

  A lock is an atomic word with an attempt to take it and a release.  The threads run
  \<open>wait_for\<close> and the unlock operations as machines whose steps are the atomic accesses of the
  source; the system interleaves them.  In \<open>lock_step\<close> a thread that was admitted releases the
  lock itself, as the guards and \<open>synchronized\<close> do.  \<open>Semaphore::signal\<close> is public, and a
  semaphore that counts events is signalled by threads that never waited for it: \<open>sem_run\<close> lets
  every thread signal, and lets a thread that was admitted go on without giving anything back.
  The accesses are taken as sequentially consistent.  The locale \<open>lock_word\<close> is the contract between a word
  and the protocol; the three locks interpret it.
\<close>

section \<open>Lock words\<close>

text \<open>Readers share a lock; writers, and the holders of a semaphore, take it exclusively.\<close>

datatype lock_mode = Shared | Exclusive

definition lock_write :: nat where "lock_write = 1"

definition lock_count :: nat where "lock_count = 2"

fun rw_try :: "lock_mode \<Rightarrow> nat \<Rightarrow> nat option" where
  "rw_try Shared v = (if v AND lock_write = 0 then Some (usize_add v lock_count) else None)"
| "rw_try Exclusive v = (if v = 0 then Some lock_write else None)"

fun rw_release :: "lock_mode \<Rightarrow> nat \<Rightarrow> nat" where
  "rw_release Shared v = usize_sub v lock_count"
| "rw_release Exclusive v = 0"

text \<open>After the release the word is loaded again, and the waiter is woken when it is zero.\<close>

definition rw_notify :: "nat \<Rightarrow> bool" where
  "rw_notify v \<longleftrightarrow> v = 0"

text \<open>\<open>AtomicBool\<close>: \<open>false\<close> is 0 and \<open>true\<close> is 1.\<close>

definition binary_try :: "lock_mode \<Rightarrow> nat \<Rightarrow> nat option" where
  "binary_try m v = (if v = 0 then Some 1 else None)"

definition binary_release :: "lock_mode \<Rightarrow> nat \<Rightarrow> nat" where
  "binary_release m v = (if v = 1 then 0 else v)"

definition sem_try :: "lock_mode \<Rightarrow> nat \<Rightarrow> nat option" where
  "sem_try m v = (if 1 \<le> v then Some (v - 1) else None)"

definition sem_signal :: "lock_mode \<Rightarrow> nat \<Rightarrow> nat" where
  "sem_signal m v = usize_add v 1"

definition always_notify :: "nat \<Rightarrow> bool" where
  "always_notify v = True"


section \<open>The waiting protocol\<close>

datatype lock_pc =
    L_Idle
  | L_Try lock_mode | L_Register lock_mode nat | L_Park lock_mode | L_Asleep lock_mode | L_Retry lock_mode
  | L_Timer lock_mode nat
  | L_Held lock_mode
  | L_Check | L_Take | L_Wake nat

record lock_sys =
  lk_word :: nat
  lk_waiter :: "nat option"
  lk_pc :: "nat \<Rightarrow> lock_pc"
  lk_sleep :: "nat \<Rightarrow> int"

definition lock_start :: "nat \<Rightarrow> lock_sys" where
  "lock_start v = \<lparr>lk_word = v, lk_waiter = None, lk_pc = (\<lambda>_. L_Idle), lk_sleep = (\<lambda>_. 0)\<rparr>"

definition max_delta :: nat where "max_delta = 7"

definition goto :: "nat \<Rightarrow> lock_pc \<Rightarrow> lock_sys \<Rightarrow> lock_sys" where
  "goto i pc s = s\<lparr>lk_pc := (lk_pc s)(i := pc)\<rparr>"

text \<open>
  \<open>f()\<close> of \<open>wait_for\<close>: the attempt, where the weak exchange of \<open>BinarySemaphore\<close> may fail
  without a reason.  \<open>fetch_update\<close> of the other locks retries instead; for them the model only
  allows more runs.
\<close>

definition attempt :: "(lock_mode \<Rightarrow> nat \<Rightarrow> nat option) \<Rightarrow> bool \<Rightarrow> nat \<Rightarrow> lock_mode \<Rightarrow> lock_pc \<Rightarrow> lock_sys \<Rightarrow> lock_sys" where
  "attempt lock_try weak i m otherwise s =
     (case lock_try m (lk_word s) of
        Some w \<Rightarrow> (if weak then goto i otherwise s else goto i (L_Held m) (s\<lparr>lk_word := w\<rparr>))
      | None \<Rightarrow> goto i otherwise s)"

text \<open>
  The next access of a thread in \<open>wait_for\<close> or in an unlock operation; \<open>None\<close> for a thread
  that has nothing to do: it is idle, holds the lock, or is asleep.
\<close>

definition lock_access :: "(lock_mode \<Rightarrow> nat \<Rightarrow> nat option) \<Rightarrow> (nat \<Rightarrow> bool) \<Rightarrow> bool \<Rightarrow> nat \<Rightarrow> lock_sys \<Rightarrow> lock_sys option" where
  "lock_access lock_try notify weak i s =
     (case lk_pc s i of
        L_Try m \<Rightarrow> Some (attempt lock_try weak i m (L_Register m 0) s)
      | L_Register m d \<Rightarrow>
          (if lk_waiter s = None then Some (goto i (L_Park m) (s\<lparr>lk_waiter := Some i\<rparr>))
           else Some (goto i (L_Timer m d) s))
      | L_Park m \<Rightarrow> Some (goto i (L_Asleep m) (s\<lparr>lk_sleep := (lk_sleep s)(i := lk_sleep s i + 1)\<rparr>))
      | L_Asleep m \<Rightarrow> (if 0 < lk_sleep s i then None else Some (goto i (L_Retry m) s))
      | L_Retry m \<Rightarrow> Some (attempt lock_try weak i m (L_Try m) s)
      | L_Timer m d \<Rightarrow> Some (goto i (L_Register m (if d < max_delta then d + 1 else d)) s)
      | L_Check \<Rightarrow> Some (goto i (if notify (lk_word s) then L_Take else L_Idle) s)
      | L_Take \<Rightarrow>
          (case lk_waiter s of
             None \<Rightarrow> Some (goto i L_Idle s)
           | Some t \<Rightarrow> Some (goto i (L_Wake t) (s\<lparr>lk_waiter := None\<rparr>)))
      | L_Wake t \<Rightarrow> Some (goto i L_Idle (s\<lparr>lk_sleep := (lk_sleep s)(t := lk_sleep s t - 1)\<rparr>))
      | _ \<Rightarrow> None)"

definition lock_unlock :: "(lock_mode \<Rightarrow> nat \<Rightarrow> nat) \<Rightarrow> nat \<Rightarrow> lock_mode \<Rightarrow> lock_sys \<Rightarrow> lock_sys" where
  "lock_unlock release i m s = goto i L_Check (s\<lparr>lk_word := release m (lk_word s)\<rparr>)"

text \<open>
  There are fewer than \<open>2 ^ 62\<close> threads: each has a stack of its own, and no more stacks fit the
  address space.
\<close>

definition thread_limit :: nat where "thread_limit = 2 ^ 62"

inductive lock_step :: "(lock_mode \<Rightarrow> nat \<Rightarrow> nat option) \<Rightarrow> (lock_mode \<Rightarrow> nat \<Rightarrow> nat) \<Rightarrow> (nat \<Rightarrow> bool)
    \<Rightarrow> lock_sys \<Rightarrow> lock_sys \<Rightarrow> bool"
  for lock_try release notify where
  call: "lk_pc s i = L_Idle \<Longrightarrow> i < thread_limit \<Longrightarrow> lock_step lock_try release notify s (goto i (L_Try m) s)"
| access: "lock_access lock_try notify weak i s = Some s' \<Longrightarrow> lock_step lock_try release notify s s'"
| unlock: "lk_pc s i = L_Held m \<Longrightarrow> lock_step lock_try release notify s (lock_unlock release i m s)"

inductive lock_reachable :: "(lock_mode \<Rightarrow> nat \<Rightarrow> nat option) \<Rightarrow> (lock_mode \<Rightarrow> nat \<Rightarrow> nat) \<Rightarrow> (nat \<Rightarrow> bool) \<Rightarrow> nat
    \<Rightarrow> lock_sys \<Rightarrow> bool"
  for lock_try release notify v where
  start: "lock_reachable lock_try release notify v (lock_start v)"
| step: "lock_reachable lock_try release notify v s \<Longrightarrow> lock_step lock_try release notify s s' \<Longrightarrow>
     lock_reachable lock_try release notify v s'"

text \<open>
  Semaphores.  An idle thread, or one that was admitted, may signal; a handler of interrupts counts as a
  thread of its own.  \<open>waits\<close> counts the calls of \<open>wait\<close> and \<open>try_lock\<close> that were
  granted and \<open>signals\<close> the calls of \<open>signal\<close>; no access reads them.
\<close>

definition is_held :: "lock_pc \<Rightarrow> bool" where
  "is_held pc = (case pc of L_Held _ \<Rightarrow> True | _ \<Rightarrow> False)"

inductive sem_run :: "nat \<Rightarrow> lock_sys \<Rightarrow> nat \<Rightarrow> nat \<Rightarrow> bool" for v where
  new: "sem_run v (lock_start v) 0 0"
| wait: "sem_run v s waits signals \<Longrightarrow> lk_pc s i = L_Idle \<Longrightarrow> i < thread_limit \<Longrightarrow>
     sem_run v (goto i (L_Try m) s) waits signals"
| access: "sem_run v s waits signals \<Longrightarrow> lock_access sem_try always_notify weak i s = Some s' \<Longrightarrow>
     sem_run v s' (if is_held (lk_pc s' i) then waits + 1 else waits) signals"
| try_lock: "sem_run v s waits signals \<Longrightarrow> lk_pc s i = L_Idle \<Longrightarrow> i < thread_limit \<Longrightarrow>
     sem_try m (lk_word s) = Some w \<Longrightarrow> sem_run v (goto i (L_Held m) (s\<lparr>lk_word := w\<rparr>)) (waits + 1) signals"
| signal: "sem_run v s waits signals \<Longrightarrow> lk_pc s i = L_Idle \<or> is_held (lk_pc s i) \<Longrightarrow> i < thread_limit \<Longrightarrow>
     sem_run v (lock_unlock sem_signal i m s) waits (signals + 1)"
| leave: "sem_run v s waits signals \<Longrightarrow> is_held (lk_pc s i) \<Longrightarrow> sem_run v (goto i L_Idle s) waits signals"

definition holders :: "lock_sys \<Rightarrow> lock_mode \<Rightarrow> nat set" where
  "holders s m = {i. lk_pc s i = L_Held m}"


section \<open>What a lock word promises\<close>

text \<open>The word \<open>x\<close> stands for \<open>r\<close> holders in shared mode and \<open>w\<close> in exclusive mode.\<close>

definition agrees :: "(nat \<Rightarrow> nat \<Rightarrow> nat \<Rightarrow> bool) \<Rightarrow> lock_sys \<Rightarrow> bool" where
  "agrees counts s \<longleftrightarrow>
     (\<forall>i. lk_pc s i \<noteq> L_Idle \<longrightarrow> i < thread_limit) \<and>
     counts (card (holders s Shared)) (card (holders s Exclusive)) (lk_word s)"

locale lock_word =
  fixes lock_try :: "lock_mode \<Rightarrow> nat \<Rightarrow> nat option"
    and release :: "lock_mode \<Rightarrow> nat \<Rightarrow> nat"
    and counts :: "nat \<Rightarrow> nat \<Rightarrow> nat \<Rightarrow> bool"
    and v :: nat
  assumes counts_start: "counts 0 0 v"
    and try_shared: "counts r w x \<Longrightarrow> r < thread_limit \<Longrightarrow> lock_try Shared x = Some y \<Longrightarrow> counts (Suc r) w y"
    and try_exclusive: "counts r w x \<Longrightarrow> lock_try Exclusive x = Some y \<Longrightarrow> counts r (Suc w) y"
    and release_shared: "counts (Suc r) w x \<Longrightarrow> counts r w (release Shared x)"
    and release_exclusive: "counts r (Suc w) x \<Longrightarrow> counts r w (release Exclusive x)"
begin

lemma holders_finite:
  assumes "agrees counts s"
  shows "finite (holders s m)" "i \<notin> holders s m \<Longrightarrow> i < thread_limit \<Longrightarrow> card (holders s m) < thread_limit"
proof -
  have sub: "holders s m \<subseteq> {..<thread_limit}" using assms by (force simp: agrees_def holders_def)
  then show "finite (holders s m)" by (rule finite_subset) simp
  show "card (holders s m) < thread_limit" if "i \<notin> holders s m" "i < thread_limit"
    using psubset_card_mono [of "{..<thread_limit}" "holders s m"] sub that by auto
qed

lemma agrees_acquire:
  assumes "agrees counts s" "lock_try m (lk_word s) = Some w" "\<And>m'. lk_pc s i \<noteq> L_Held m'" "lk_pc s i \<noteq> L_Idle"
  shows "agrees counts (goto i (L_Held m) (s\<lparr>lk_word := w\<rparr>))"
proof -
  let ?s = "goto i (L_Held m) (s\<lparr>lk_word := w\<rparr>)"
  have h: "holders ?s m = insert i (holders s m)" "\<And>m'. m' \<noteq> m \<Longrightarrow> holders ?s m' = holders s m'" "i \<notin> holders s m"
    using assms(3) by (auto simp: holders_def goto_def)
  have i: "i < thread_limit" using assms(1,4) by (auto simp: agrees_def)
  with h holders_finite [OF assms(1), where m = m] have "card (holders ?s m) = Suc (card (holders s m))"
    "card (holders s m) < thread_limit" by auto
  with assms(1,2) h(2) i show ?thesis
    by (cases m) (auto simp: agrees_def goto_def try_shared try_exclusive)
qed

lemma agrees_release:
  assumes "agrees counts s" "lk_pc s i = L_Held m"
  shows "agrees counts (lock_unlock release i m s)"
proof -
  let ?s = "lock_unlock release i m s"
  have h: "holders ?s m = holders s m - {i}" "\<And>m'. m' \<noteq> m \<Longrightarrow> holders ?s m' = holders s m'" "i \<in> holders s m"
    using assms(2) by (auto simp: holders_def goto_def lock_unlock_def)
  then have "card (holders s m) = Suc (card (holders ?s m))"
    using card.remove [OF holders_finite(1) [OF assms(1)] h(3)] by simp
  moreover have "i < thread_limit" using assms by (auto simp: agrees_def)
  ultimately show ?thesis
    using assms(1) h(2) by (cases m) (auto simp: agrees_def lock_unlock_def goto_def release_shared release_exclusive)
qed

lemma agrees_other:
  assumes "agrees counts s" "\<And>m. holders s' m = holders s m" "lk_word s' = lk_word s"
    and "\<And>j. lk_pc s' j \<noteq> L_Idle \<Longrightarrow> lk_pc s j \<noteq> L_Idle \<or> j < thread_limit"
  shows "agrees counts s'"
  using assms by (auto simp: agrees_def)

lemma agrees_attempt:
  assumes "agrees counts s" "\<And>m'. lk_pc s i \<noteq> L_Held m'" "lk_pc s i \<noteq> L_Idle" "\<And>m'. p \<noteq> L_Held m'"
  shows "agrees counts (attempt lock_try weak i m p s)"
proof -
  have "agrees counts (goto i p s)"
    by (rule agrees_other [OF assms(1)]) (use assms in \<open>auto simp: holders_def goto_def split: if_splits\<close>)
  then show ?thesis
    using agrees_acquire [OF assms(1) _ assms(2,3)] by (auto simp: attempt_def split: option.splits)
qed

lemma agrees_access:
  assumes "agrees counts s" "lock_access lock_try notify weak i s = Some s'"
  shows "agrees counts s'"
proof (cases "(\<exists>m. lk_pc s i = L_Try m) \<or> (\<exists>m. lk_pc s i = L_Retry m)")
  case True
  with assms show ?thesis by (auto simp: lock_access_def intro!: agrees_attempt)
next
  case False
  with assms(2) have "\<And>m. holders s' m = holders s m" "lk_word s' = lk_word s"
    "\<And>j. lk_pc s' j \<noteq> L_Idle \<Longrightarrow> lk_pc s j \<noteq> L_Idle \<or> j < thread_limit"
    by (auto simp: lock_access_def goto_def holders_def split: lock_pc.splits if_splits option.splits)
  then show ?thesis by (rule agrees_other [OF assms(1)])
qed

lemma agrees_reachable: "lock_reachable lock_try release notify v s \<Longrightarrow> agrees counts s"
proof (induction rule: lock_reachable.induct)
  case start
  then show ?case by (simp add: agrees_def lock_start_def holders_def counts_start)
next
  case (step s s')
  from step(2,3) show ?case
  proof (induction rule: lock_step.induct)
    case (call s i m)
    show ?case
      by (rule agrees_other [OF call(3)]) (use call(1,2) in \<open>auto simp: goto_def holders_def split: if_splits\<close>)
  next
    case (access weak i s s')
    then show ?case using agrees_access by blast
  next
    case (unlock s i m)
    then show ?case using agrees_release by blast
  qed
qed

end


section \<open>The three locks\<close>

definition rw_counts :: "nat \<Rightarrow> nat \<Rightarrow> nat \<Rightarrow> bool" where
  "rw_counts r w x \<longleftrightarrow> r \<le> thread_limit \<and> (w = 0 \<and> x = 2 * r \<or> w = 1 \<and> r = 0 \<and> x = 1)"

definition binary_counts :: "nat \<Rightarrow> nat \<Rightarrow> nat \<Rightarrow> bool" where
  "binary_counts r w x \<longleftrightarrow> r + w = x \<and> x \<le> 1"

definition sem_counts :: "nat \<Rightarrow> nat \<Rightarrow> nat \<Rightarrow> nat \<Rightarrow> bool" where
  "sem_counts v r w x \<longleftrightarrow> r + w + x = v \<and> v < 2 ^ 64"

interpretation rw: lock_word rw_try rw_release rw_counts 0
  by unfold_locales
    (auto simp: rw_counts_def lock_count_def lock_write_def thread_limit_def usize_add_def usize_sub_def
      and_one_eq split: if_splits)

interpretation binary: lock_word binary_try binary_release binary_counts 0
  by unfold_locales (auto simp: binary_counts_def binary_try_def binary_release_def split: if_splits)

text \<open>The initial value of a semaphore is any \<open>usize\<close>.\<close>

interpretation sem: lock_word sem_try sem_signal "sem_counts (unat v)" "unat v" for v :: "64 word"
  using unsigned_less [of v, where 'a = nat]
  by unfold_locales (auto simp: sem_counts_def sem_try_def sem_signal_def usize_add_def split: if_splits)

lemma holders_card_zero: "agrees counts s \<Longrightarrow> card (holders s m) = 0 \<longleftrightarrow> holders s m = {}"
proof -
  assume "agrees counts s"
  then have "holders s m \<subseteq> {..<thread_limit}" by (force simp: agrees_def holders_def)
  then have "finite (holders s m)" by (rule finite_subset) simp
  then show ?thesis by simp
qed

lemma binary_exclusion:
  assumes "lock_reachable binary_try binary_release always_notify 0 s"
  shows "card (holders s Shared) + card (holders s Exclusive) = lk_word s" "lk_word s \<le> 1"
  using binary.agrees_reachable [OF assms] by (auto simp: agrees_def binary_counts_def)


text \<open>When the threads give back what they took and nobody else signals, holders and value add up.\<close>

lemma semaphore_holders:
  assumes "lock_reachable sem_try sem_signal always_notify (unat (v :: 64 word)) s"
  shows "card (holders s Shared) + card (holders s Exclusive) + lk_word s = unat v"
  using sem.agrees_reachable [OF assms] by (simp add: agrees_def sem_counts_def)

text \<open>An access of \<open>wait_for\<close> takes one from the value exactly when it admits its thread.\<close>

lemma sem_access_word:
  assumes "lock_access sem_try always_notify weak i s = Some s'"
  shows "lk_word s = lk_word s' + (if is_held (lk_pc s' i) then 1 else 0)"
  using assms
  by (auto simp: lock_access_def attempt_def goto_def sem_try_def is_held_def
      split: lock_pc.splits if_splits option.splits)

lemma sem_run_balance: "sem_run v s waits signals \<Longrightarrow> v + signals < 2 ^ 64 \<Longrightarrow> lk_word s + waits = v + signals"
proof (induction rule: sem_run.induct)
  case (access s waits signals weak i s')
  then show ?case using sem_access_word [OF access(2)] by (simp split: if_splits)
next
  case (try_lock s waits signals i m w)
  then show ?case by (auto simp: sem_try_def goto_def split: if_splits)
next
  case (signal s waits signals i m)
  then show ?case by (simp add: lock_unlock_def sem_signal_def goto_def usize_add_def)
qed (simp_all add: lock_start_def goto_def)


section \<open>A sleeping thread is not forgotten\<close>

text \<open>
  A thread that registered itself is owed one wake-up.  The debt is held by the waiter word, or
  by the one thread that took it from there.
\<close>

definition owes :: "lock_sys \<Rightarrow> nat option \<Rightarrow> nat \<Rightarrow> bool" where
  "owes s x i \<longleftrightarrow> (case x of None \<Rightarrow> lk_waiter s = Some i | Some j \<Rightarrow> lk_pc s j = L_Wake i)"

definition parks :: "lock_pc \<Rightarrow> bool" where
  "parks p \<longleftrightarrow> (\<exists>m. p = L_Park m \<or> p = L_Asleep m)"

definition parked :: "lock_pc \<Rightarrow> int" where
  "parked p = (case p of L_Asleep m \<Rightarrow> 1 | _ \<Rightarrow> 0)"

definition debt_ok :: "lock_sys \<Rightarrow> nat \<Rightarrow> bool" where
  "debt_ok s i \<longleftrightarrow>
     (if \<exists>x. owes s x i
      then parks (lk_pc s i) \<and> lk_sleep s i = parked (lk_pc s i) \<and> (\<forall>x y. owes s x i \<longrightarrow> owes s y i \<longrightarrow> x = y)
      else lk_sleep s i = (if parks (lk_pc s i) then parked (lk_pc s i) - 1 else 0))"

lemma debt_ok_goto:
  assumes "\<And>i. debt_ok s i" "\<not> parks (lk_pc s j)" "\<not> parks p" "\<And>i. lk_pc s j \<noteq> L_Wake i" "\<And>i. p \<noteq> L_Wake i"
  shows "debt_ok (goto j p (s\<lparr>lk_word := w\<rparr>)) i"
proof -
  have "owes (goto j p (s\<lparr>lk_word := w\<rparr>)) x i = owes s x i" for x
    using assms(4,5) by (auto simp: owes_def goto_def split: option.splits)
  then show ?thesis using assms(1) [of i] assms(2,3) by (auto simp: debt_ok_def goto_def split: if_splits)
qed

lemma debt_ok_register:
  assumes inv: "\<And>i. debt_ok s i" and pc: "lk_pc s j = L_Register m d" and none: "lk_waiter s = None"
  shows "debt_ok (goto j (L_Park m) (s\<lparr>lk_waiter := Some j\<rparr>)) i"
proof -
  let ?s = "goto j (L_Park m) (s\<lparr>lk_waiter := Some j\<rparr>)"
  have o: "owes ?s x i \<longleftrightarrow> (if x = None then i = j else owes s x i)" for x
    using pc none by (auto simp: owes_def goto_def split: option.splits)
  have s0: "\<not> owes s None i" using none by (simp add: owes_def)
  show ?thesis
  proof (cases "i = j")
    case True
    with inv [of j] pc have n: "\<not> owes s x i" "lk_sleep s i = 0" for x
      by (auto simp: debt_ok_def parks_def split: if_splits)
    with True o show ?thesis by (auto simp: debt_ok_def goto_def parks_def parked_def split: if_splits)
  next
    case False
    with o s0 have "owes ?s x i = owes s x i" for x by (cases x) auto
    with False inv [of i] show ?thesis by (auto simp: debt_ok_def goto_def)
  qed
qed

lemma debt_ok_park:
  assumes inv: "\<And>i. debt_ok s i" and pc: "lk_pc s j = L_Park m"
  shows "debt_ok (goto j (L_Asleep m) (s\<lparr>lk_sleep := (lk_sleep s)(j := lk_sleep s j + 1)\<rparr>)) i"
proof -
  have "owes (goto j (L_Asleep m) (s\<lparr>lk_sleep := (lk_sleep s)(j := lk_sleep s j + 1)\<rparr>)) x i = owes s x i" for x
    using pc by (auto simp: owes_def goto_def split: option.splits)
  with inv [of i] pc show ?thesis by (auto simp: debt_ok_def goto_def parks_def parked_def split: if_splits)
qed

lemma debt_ok_resume:
  assumes inv: "\<And>i. debt_ok s i" and pc: "lk_pc s j = L_Asleep m" and "\<not> 0 < lk_sleep s j"
  shows "debt_ok (goto j (L_Retry m) s) i"
proof -
  have "owes (goto j (L_Retry m) s) x i = owes s x i" for x
    using pc by (auto simp: owes_def goto_def split: option.splits)
  with inv [of i] pc assms(3) show ?thesis by (auto simp: debt_ok_def goto_def parks_def parked_def split: if_splits)
qed

lemma debt_ok_take:
  assumes inv: "\<And>i. debt_ok s i" and pc: "lk_pc s j = L_Take" and some: "lk_waiter s = Some t"
  shows "debt_ok (goto j (L_Wake t) (s\<lparr>lk_waiter := None\<rparr>)) i"
proof -
  let ?s = "goto j (L_Wake t) (s\<lparr>lk_waiter := None\<rparr>)"
  have o: "owes ?s x i \<longleftrightarrow> (if x = None then False else if x = Some j then i = t else owes s x i)" for x
    by (auto simp: owes_def goto_def split: option.splits)
  have s0: "owes s None t" "\<not> owes s (Some j) i" using pc some by (auto simp: owes_def)
  have ij: "lk_pc ?s i = (if i = j then L_Wake t else lk_pc s i)" "lk_sleep ?s i = lk_sleep s i"
    by (simp_all add: goto_def)
  have pj: "\<not> parks (lk_pc s j)" "\<not> parks (L_Wake t)" using pc by (simp_all add: parks_def)
  show ?thesis
  proof (cases "i = t")
    case True
    with s0 inv [of t] have "parks (lk_pc s i)" "lk_sleep s i = parked (lk_pc s i)" "owes s x i \<Longrightarrow> x = None" for x
      by (auto simp: debt_ok_def split: if_splits)
    with True o ij pj show ?thesis by (auto simp: debt_ok_def split: if_splits)
  next
    case False
    with some have "\<not> owes s None i" by (simp add: owes_def)
    with False o s0 have "owes ?s x i = owes s x i" for x by auto
    with ij inv [of i] pj show ?thesis by (auto simp: debt_ok_def split: if_splits)
  qed
qed

lemma debt_ok_wake:
  assumes inv: "\<And>i. debt_ok s i" and pc: "lk_pc s j = L_Wake t"
  shows "debt_ok (goto j L_Idle (s\<lparr>lk_sleep := (lk_sleep s)(t := lk_sleep s t - 1)\<rparr>)) i"
proof -
  let ?s = "goto j L_Idle (s\<lparr>lk_sleep := (lk_sleep s)(t := lk_sleep s t - 1)\<rparr>)"
  have o: "owes ?s x i \<longleftrightarrow> x \<noteq> Some j \<and> owes s x i" for x
    by (auto simp: owes_def goto_def split: option.splits)
  have s0: "owes s (Some j) i' \<longleftrightarrow> i' = t" for i' using pc by (auto simp: owes_def)
  have pj: "\<not> parks (lk_pc s j)" "\<not> parks L_Idle" using pc by (simp_all add: parks_def)
  have t: "parks (lk_pc s t)" "lk_sleep s t = parked (lk_pc s t)" "owes s x t \<Longrightarrow> x = Some j" for x
    using inv [of t] s0 by (auto simp: debt_ok_def split: if_splits)
  show ?thesis
  proof (cases "i = t")
    case True
    with t o have "\<not> owes ?s x i" for x by auto
    with True t pj show ?thesis by (auto simp: debt_ok_def goto_def)
  next
    case False
    with o s0 have "owes ?s x i = owes s x i" for x by auto
    with False inv [of i] pj show ?thesis by (auto simp: debt_ok_def goto_def split: if_splits)
  qed
qed

lemmas debt_ok_steps = debt_ok_register debt_ok_park debt_ok_resume debt_ok_take debt_ok_wake

lemma debt_ok_attempt:
  assumes "\<And>i. debt_ok s i" "\<not> parks (lk_pc s j)" "\<not> parks p" "\<And>i. lk_pc s j \<noteq> L_Wake i" "\<And>i. p \<noteq> L_Wake i"
  shows "debt_ok (attempt lock_try weak j m p s) i"
  using debt_ok_goto [OF assms(1,2)] assms(3-) debt_ok_goto [where w = "lk_word s", OF assms]
  by (auto simp: attempt_def parks_def split: option.splits)

lemma debt_ok_access:
  assumes inv: "\<And>i. debt_ok s i" and "lock_access lock_try notify weak j s = Some s'"
  shows "debt_ok s' i"
  using assms(2) debt_ok_goto [where w = "lk_word s", OF inv, of j _ i]
  by (auto simp: lock_access_def parks_def intro!: debt_ok_attempt debt_ok_steps inv
      split: lock_pc.splits if_splits option.splits)

lemma debt_ok_reachable: "lock_reachable lock_try release notify v s \<Longrightarrow> debt_ok s i"
proof (induction arbitrary: i rule: lock_reachable.induct)
  case start
  show ?case by (auto simp: debt_ok_def lock_start_def owes_def parks_def split: option.splits)
next
  case (step s s')
  from step(2,3) show ?case
  proof (induction rule: lock_step.induct)
    case (call s j m)
    then show ?case using debt_ok_goto [where w = "lk_word s", of s j "L_Try m"] by (simp add: parks_def)
  next
    case (access weak j s s')
    then show ?case using debt_ok_access by blast
  next
    case (unlock s j m)
    then show ?case unfolding lock_unlock_def by (intro debt_ok_goto) (simp_all add: parks_def)
  qed
qed


lemma sem_run_debt_ok: "sem_run v s waits signals \<Longrightarrow> debt_ok s i"
proof (induction arbitrary: i rule: sem_run.induct)
  case new
  show ?case by (auto simp: debt_ok_def lock_start_def owes_def parks_def split: option.splits)
next
  case (wait s waits signals j m)
  then show ?case using debt_ok_goto [where w = "lk_word s", of s j "L_Try m"] by (simp add: parks_def)
next
  case (access s waits signals weak j s')
  then show ?case using debt_ok_access by blast
next
  case (try_lock s waits signals j m w)
  then show ?case by (intro debt_ok_goto) (simp_all add: parks_def)
next
  case (signal s waits signals j m)
  then show ?case unfolding lock_unlock_def by (intro debt_ok_goto) (auto simp: parks_def is_held_def)
next
  case (leave s waits signals j)
  then obtain m where "lk_pc s j = L_Held m" by (auto simp: is_held_def split: lock_pc.splits)
  with leave show ?case using debt_ok_goto [where w = "lk_word s", of s j L_Idle] by (simp add: parks_def)
qed

text \<open>In a semaphore that everybody signals, too, a sleeping thread is owed one wake.\<close>

lemma sem_sleeper_is_owed:
  assumes "sem_run v s waits signals" "lk_pc s i = L_Asleep m" "0 < lk_sleep s i"
  shows "lk_sleep s i = 1 \<and> (lk_waiter s = Some i \<or> (\<exists>j. lk_pc s j = L_Wake i))"
proof -
  obtain x where x: "owes s x i" and n: "lk_sleep s i = 1"
    using sem_run_debt_ok [OF assms(1), of i] assms(2,3) by (auto simp: debt_ok_def parked_def parks_def split: if_splits)
  then show ?thesis by (cases x) (auto simp: owes_def)
qed


section \<open>The properties\<close>

text \<open>
  A schedule of the binary semaphore: thread 1 locks; thread 0 tries, fails, and is about to
  register; thread 1 unlocks and finds nobody to wake; thread 0 registers and parks.
\<close>

definition forgotten :: lock_sys where
  "forgotten = \<lparr>lk_word = 0, lk_waiter = Some 0, lk_pc = (\<lambda>_. L_Idle)(0 := L_Asleep Exclusive), lk_sleep = (\<lambda>_. 0)(0 := 1)\<rparr>"

fun lock_accesses :: "(lock_mode \<Rightarrow> nat \<Rightarrow> nat option) \<Rightarrow> (nat \<Rightarrow> bool) \<Rightarrow> nat list \<Rightarrow> lock_sys \<Rightarrow> lock_sys option" where
  "lock_accesses lock_try notify [] s = Some s"
| "lock_accesses lock_try notify (i # is) s = Option.bind (lock_access lock_try notify False i s) (lock_accesses lock_try notify is)"

lemma lock_access_reachable:
  "lock_access lock_try notify weak i s = Some s' \<Longrightarrow> lock_reachable lock_try release notify v s \<Longrightarrow>
   lock_reachable lock_try release notify v s'"
  by (rule lock_reachable.step [OF _ lock_step.access])

lemma lock_accesses_reachable:
  "lock_accesses lock_try notify is s = Some s' \<Longrightarrow> lock_reachable lock_try release notify v s \<Longrightarrow>
   lock_reachable lock_try release notify v s'"
  by (induction "is" arbitrary: s) (auto simp: bind_eq_Some_conv dest: lock_access_reachable)

lemmas schedule_simps = lock_access_def attempt_def goto_def lock_start_def lock_unlock_def always_notify_def
  binary_try_def binary_release_def

abbreviation "binary_reachable \<equiv> lock_reachable binary_try binary_release always_notify 0"

lemma forgotten_reachable: "binary_reachable forgotten"
proof -
  let ?acc = "lock_accesses binary_try always_notify"
  let ?call = "\<lambda>i. goto i (L_Try Exclusive)"
  have call: "binary_reachable (?call i s)" if "binary_reachable s" "lk_pc s i = L_Idle" "i < 2" for i s
    by (rule lock_reachable.step [OF that(1)], rule lock_step.call) (use that in \<open>auto simp: thread_limit_def\<close>)
  let ?s1 = "\<lparr>lk_word = 1, lk_waiter = None, lk_pc = (\<lambda>_. L_Idle)(1 := L_Held Exclusive), lk_sleep = (\<lambda>_. 0)\<rparr>"
  have "?acc [1] (?call 1 (lock_start 0)) = Some ?s1" by (simp add: schedule_simps)
  then have s1: "binary_reachable ?s1"
    by (rule lock_accesses_reachable) (rule call [OF lock_reachable.start], simp_all add: lock_start_def)
  let ?s2 = "?s1\<lparr>lk_pc := (\<lambda>_. L_Idle)(1 := L_Held Exclusive, 0 := L_Register Exclusive 0)\<rparr>"
  have "?acc [0] (?call 0 ?s1) = Some ?s2" by (simp add: schedule_simps)
  then have s2: "binary_reachable ?s2"
    by (rule lock_accesses_reachable) (rule call [OF s1], simp_all)
  have s3: "binary_reachable (lock_unlock binary_release 1 Exclusive ?s2)"
    by (rule lock_reachable.step [OF s2], rule lock_step.unlock) simp
  have "?acc [1, 1, 0, 0] (lock_unlock binary_release 1 Exclusive ?s2) = Some forgotten"
    by (auto simp: schedule_simps forgotten_def intro!: ext)
  then show ?thesis using s3 by (rule lock_accesses_reachable)
qed

text \<open>
  C17: a thread that holds an \<open>RwLock\<close> for writing is alone: in every reachable state of any number
  of threads that read and write, no other thread holds the lock in either mode; and the lock word
  is 1 for a writer and twice the number of readers otherwise.
\<close>

theorem rw_exclusion:
  assumes "lock_reachable rw_try rw_release rw_notify 0 s"
  shows "if holders s Exclusive = {} then lk_word s = 2 * card (holders s Shared)
    else (\<exists>i. holders s Exclusive = {i} \<and> holders s Shared = {}) \<and> lk_word s = 1"
proof -
  from assms have a: "agrees rw_counts s" by (rule rw.agrees_reachable)
  then have "rw_counts (card (holders s Shared)) (card (holders s Exclusive)) (lk_word s)"
    by (simp add: agrees_def)
  then show ?thesis
    using holders_card_zero [OF a, of Shared] holders_card_zero [OF a, of Exclusive]
    by (auto simp: rw_counts_def card_1_singleton_iff)
qed

theorem rw_exclusion_witness:
  "\<exists>s. lk_pc s 3 = L_Held Exclusive \<and> lk_word s = 1 \<and> holders s Shared = {}"
proof -
  let ?s = "goto 3 (L_Held Exclusive) ((lock_start 0)\<lparr>lk_word := 1\<rparr>)"
  have "lock_reachable rw_try rw_release rw_notify 0 (goto 3 (L_Try Exclusive) (lock_start 0))"
    by (rule lock_reachable.step [OF lock_reachable.start], rule lock_step.call) (auto simp: lock_start_def thread_limit_def)
  then have "lock_reachable rw_try rw_release rw_notify 0 ?s"
    by (rule lock_accesses_reachable [of _ _ "[3]", rotated])
      (simp add: lock_access_def attempt_def goto_def lock_start_def lock_write_def)
  note r = rw_exclusion [OF this]
  moreover have p: "lk_pc ?s 3 = L_Held Exclusive" by (simp add: goto_def)
  then have "holders ?s Exclusive \<noteq> {}" by (auto simp: holders_def)
  ultimately have "lk_word ?s = 1" "holders ?s Shared = {}" by (auto simp: if_splits)
  with p show ?thesis by blast
qed

text \<open>
  C18: a \<open>Semaphore\<close> created with value \<open>v\<close> grants exactly as many waits as were paid for: in every
  state that any number of threads reach, all of which may wait, try, signal without having waited, or
  go on without signalling, the value plus the waits that were granted is \<open>v\<close> plus the signals.
  So no signal is lost and no more waits are granted than there were permits, as long as \<open>v\<close> and
  the signals together fit a \<open>usize\<close>.
\<close>

theorem semaphore_admits:
  assumes "sem_run v s waits signals" "v + signals < 2 ^ 64"
  shows "lk_word s + waits = v + signals"
  using assms by (rule sem_run_balance)

text \<open>Thread 1 waits for an event, registers and sleeps; thread 2 signals and wakes it; thread 1 is admitted.\<close>

lemma event_run: "\<exists>s. sem_run 0 s 1 1 \<and> lk_pc s 1 = L_Held Exclusive"
proof -
  let ?s0 = "goto 1 (L_Try Exclusive) (lock_start 0)"
  let ?s1 = "\<lparr>lk_word = 0, lk_waiter = Some 1, lk_pc = (\<lambda>_. L_Idle)(1 := L_Asleep Exclusive), lk_sleep = (\<lambda>_. 0)(1 := 1)\<rparr>"
  note run = sem_run.access [where weak = False]
  note simps = lock_access_def attempt_def goto_def lock_start_def sem_try_def always_notify_def is_held_def lock_unlock_def sem_signal_def usize_add_def
  have "sem_run 0 ?s0 0 0"
    by (rule sem_run.wait [OF sem_run.new]) (simp_all add: lock_start_def thread_limit_def)
  from run [OF this, of 1 "goto 1 (L_Register Exclusive 0) (lock_start 0)"]
  have "sem_run 0 (goto 1 (L_Register Exclusive 0) (lock_start 0)) 0 0" by (simp add: simps)
  from run [OF this, of 1 "goto 1 (L_Park Exclusive) ((lock_start 0)\<lparr>lk_waiter := Some 1\<rparr>)"]
  have "sem_run 0 (goto 1 (L_Park Exclusive) ((lock_start 0)\<lparr>lk_waiter := Some 1\<rparr>)) 0 0" by (simp add: simps)
  from run [OF this, of 1 ?s1] have "sem_run 0 ?s1 0 0" by (simp add: simps)
  from sem_run.signal [OF this, of 2 Exclusive]
  have "sem_run 0 (lock_unlock sem_signal 2 Exclusive ?s1) 0 1" by (simp add: thread_limit_def)
  from run [OF this, of 2 "goto 2 L_Take (?s1\<lparr>lk_word := 1\<rparr>)"]
  have "sem_run 0 (goto 2 L_Take (?s1\<lparr>lk_word := 1\<rparr>)) 0 1" by (simp add: simps)
  from run [OF this, of 2 "goto 2 (L_Wake 1) (?s1\<lparr>lk_word := 1, lk_waiter := None\<rparr>)"]
  have "sem_run 0 (goto 2 (L_Wake 1) (?s1\<lparr>lk_word := 1, lk_waiter := None\<rparr>)) 0 1" by (simp add: simps)
  moreover have "lock_access sem_try always_notify False 2 (goto 2 (L_Wake 1) (?s1\<lparr>lk_word := 1, lk_waiter := None\<rparr>)) =
      Some (?s1\<lparr>lk_word := 1, lk_waiter := None, lk_sleep := (\<lambda>_. 0)\<rparr>)" by (auto simp: simps intro!: ext)
  ultimately have "sem_run 0 (?s1\<lparr>lk_word := 1, lk_waiter := None, lk_sleep := (\<lambda>_. 0)\<rparr>) 0 1"
    using run [of 0 "goto 2 (L_Wake 1) (?s1\<lparr>lk_word := 1, lk_waiter := None\<rparr>)" 0 1 2] by (simp add: is_held_def)
  from run [OF this, of 1 "goto 1 (L_Retry Exclusive) (?s1\<lparr>lk_word := 1, lk_waiter := None, lk_sleep := (\<lambda>_. 0)\<rparr>)"]
  have "sem_run 0 (goto 1 (L_Retry Exclusive) (?s1\<lparr>lk_word := 1, lk_waiter := None, lk_sleep := (\<lambda>_. 0)\<rparr>)) 0 1"
    by (simp add: simps)
  from run [OF this, of 1 "goto 1 (L_Held Exclusive) (?s1\<lparr>lk_word := 0, lk_waiter := None, lk_sleep := (\<lambda>_. 0)\<rparr>)"]
  have "sem_run 0 (goto 1 (L_Held Exclusive) (?s1\<lparr>lk_word := 0, lk_waiter := None, lk_sleep := (\<lambda>_. 0)\<rparr>)) 1 1"
    by (simp add: simps)
  moreover have "lk_pc (goto 1 (L_Held Exclusive) (?s1\<lparr>lk_word := 0, lk_waiter := None, lk_sleep := (\<lambda>_. 0)\<rparr>)) 1 = L_Held Exclusive"
    by (simp add: goto_def)
  ultimately show ?thesis by blast
qed

theorem semaphore_admits_witness: "\<exists>s :: lock_sys. lk_pc s 1 = L_Held Exclusive \<and> lk_word s = 0"
proof -
  from event_run obtain s where s: "sem_run 0 s 1 1" "lk_pc s 1 = L_Held Exclusive" by blast
  have "0 + 1 < (2 :: nat) ^ 64" by simp
  from semaphore_admits [OF s(1) this] have "lk_word s = 0" by simp
  with s(2) show ?thesis by blast
qed

text \<open>
  C19: a thread asleep in \<open>wait_for\<close> is never forgotten by the protocol: its sleep counter is
  exactly 1, and either the waiter word still names it, so that the next \<open>signal\<close> takes it, or a
  thread has taken it and its next step is the \<open>wake\<close> that brings the counter to 0.
\<close>

theorem sleeper_is_owed_a_wake:
  assumes "lock_reachable lock_try release notify v s"
    and "lk_pc s i = L_Asleep m" "lock_access lock_try notify weak i s = None"
  shows "lk_sleep s i = 1 \<and> (lk_waiter s = Some i \<or>
    (\<exists>j s'. lk_pc s j = L_Wake i \<and> lock_access lock_try notify weak j s = Some s' \<and> lk_sleep s' i = 0))"
proof -
  have "0 < lk_sleep s i" using assms(2,3) by (auto simp: lock_access_def split: if_splits)
  then obtain x where x: "owes s x i" and n: "lk_sleep s i = 1"
    using debt_ok_reachable [OF assms(1), of i] assms(2) by (auto simp: debt_ok_def parked_def parks_def split: if_splits)
  show ?thesis
  proof (cases x)
    case None
    with x n show ?thesis by (simp add: owes_def)
  next
    case (Some j)
    with x have "lk_pc s j = L_Wake i" by (simp add: owes_def)
    then show ?thesis using n by (auto simp: lock_access_def goto_def)
  qed
qed

theorem sleeper_is_owed_a_wake_witness:
  "lk_sleep forgotten 0 = 1 \<and> lk_waiter forgotten = Some 0"
proof -
  have "lk_pc forgotten 0 = L_Asleep Exclusive" "lock_access binary_try always_notify False 0 forgotten = None"
    by (simp_all add: forgotten_def lock_access_def)
  from sleeper_is_owed_a_wake [OF forgotten_reachable this] show ?thesis
    by (auto simp: forgotten_def split: if_splits)
qed

text \<open>
  The wake-up of \<open>wait_for\<close> can come too early: between the failed attempt and the
  registration of a thread the holder may release the lock and find nobody to wake.  The
  \<open>BinarySemaphore\<close> reaches a state where it is free, every thread but one is idle, and that
  one sleeps for it and has no step of its own.
\<close>

theorem binary_lost_wakeup:
  "\<exists>s. lock_reachable binary_try binary_release always_notify 0 s \<and>
     lk_word s = 0 \<and> lk_pc s = (\<lambda>_. L_Idle)(0 := L_Asleep Exclusive) \<and>
     lock_access binary_try always_notify False 0 s = None \<and> lock_access binary_try always_notify True 0 s = None"
proof -
  have "lk_word forgotten = 0" "lk_pc forgotten = (\<lambda>_. L_Idle)(0 := L_Asleep Exclusive)"
    "lock_access binary_try always_notify weak 0 forgotten = None" for weak
    by (simp_all add: forgotten_def lock_access_def)
  with forgotten_reachable show ?thesis by blast
qed

end
