(* ===== verification/PageAlloc.thy ===== *)
theory PageAlloc
  imports Prelude
begin

text \<open>
  The page allocator of src/system/src/mem/mm.rs: the list of free regions, each packed in one
  \<open>u64\<close> (\<open>MemFreePair\<close>), kept in a \<open>FixedVec\<close> (src/system/src/mem/fixedvec.rs) behind a spin
  lock.  Both operations hold the lock while they use the list, so each is one step of the model.
  Addresses and sizes are 64-bit words.
\<close>

section \<open>Packed regions\<close>

definition mm_page_size :: u64 where "mm_page_size = 0x1000"

definition pair_new :: "u64 \<Rightarrow> u64 \<Rightarrow> u64" where
  "pair_new base sz = (base div mm_page_size) OR push_bit 32 (sz div mm_page_size)"

definition pair_split :: "u64 \<Rightarrow> u64 \<times> u64" where
  "pair_split data = (data AND 0xFFFFFFFF, drop_bit 32 data)"

definition pair_try_merge :: "u64 \<Rightarrow> u64 \<Rightarrow> u64 option" where
  "pair_try_merge data other =
     (let (base0, size0) = pair_split data; (base1, size1) = pair_split other in
      if base0 + size0 = base1 then Some (base0 OR push_bit 32 (size0 + size1))
      else if base1 + size1 = base0 then Some (base1 OR push_bit 32 (size0 + size1))
      else None)"

text \<open>The new contents of the pair, and the address of the pages that were cut off it.\<close>

definition pair_alloc :: "u64 \<Rightarrow> u64 \<Rightarrow> (u64 \<times> u64) option" where
  "pair_alloc data sz =
     (let n = (sz + mm_page_size - 1) div mm_page_size; (base, limit) = pair_split data in
      if limit < n then None
      else Some ((base + n) OR push_bit 32 (limit - n), base * mm_page_size))"


section \<open>\<open>FixedVec\<close>\<close>

record 'a fixed_vec =
  fv_data :: "'a list"
  fv_len :: nat

definition fv_new :: "nat \<Rightarrow> 'a \<Rightarrow> 'a fixed_vec" where
  "fv_new n template = \<lparr>fv_data = replicate n template, fv_len = 0\<rparr>"

definition fv_push :: "'a fixed_vec \<Rightarrow> 'a \<Rightarrow> 'a fixed_vec option" where
  "fv_push v x =
     (if fv_len v < length (fv_data v) then Some (v\<lparr>fv_data := (fv_data v)[fv_len v := x], fv_len := fv_len v + 1\<rparr>)
      else None)"

definition fv_pop :: "'a fixed_vec \<Rightarrow> ('a \<times> 'a fixed_vec) option" where
  "fv_pop v = (if 0 < fv_len v then Some (fv_data v ! (fv_len v - 1), v\<lparr>fv_len := fv_len v - 1\<rparr>) else None)"

definition fv_as_slice :: "'a fixed_vec \<Rightarrow> 'a list" where
  "fv_as_slice v = take (fv_len v) (fv_data v)"

text \<open>The elements of the slice are atomic and change in place.\<close>

definition fv_set_slice :: "'a list \<Rightarrow> 'a fixed_vec \<Rightarrow> 'a fixed_vec" where
  "fv_set_slice xs v = v\<lparr>fv_data := xs @ drop (fv_len v) (fv_data v)\<rparr>"

definition fv_ok :: "nat \<Rightarrow> 'a fixed_vec \<Rightarrow> bool" where
  "fv_ok n v \<longleftrightarrow> length (fv_data v) = n \<and> fv_len v \<le> n"

lemma fv_push_slice: "fv_ok n v \<Longrightarrow> fv_push v x = Some v' \<Longrightarrow> fv_ok n v' \<and> fv_as_slice v' = fv_as_slice v @ [x]"
  by (auto simp: fv_ok_def fv_push_def fv_as_slice_def take_Suc_conv_app_nth split: if_splits)

lemma fv_push_full: "fv_ok n v \<Longrightarrow> fv_push v x = None \<longleftrightarrow> length (fv_as_slice v) = n"
  by (auto simp: fv_ok_def fv_push_def fv_as_slice_def)

lemma fv_pop_push: "fv_ok n v \<Longrightarrow> fv_push v x = Some v' \<Longrightarrow> \<exists>w. fv_pop v' = Some (x, w) \<and> fv_as_slice w = fv_as_slice v"
  by (auto simp: fv_ok_def fv_push_def fv_pop_def fv_as_slice_def split: if_splits)

lemma fv_set_slice:
  "fv_ok n v \<Longrightarrow> length xs = length (fv_as_slice v) \<Longrightarrow> fv_ok n (fv_set_slice xs v) \<and> fv_as_slice (fv_set_slice xs v) = xs"
  by (auto simp: fv_ok_def fv_set_slice_def fv_as_slice_def)

lemma fv_new_ok: "fv_ok n (fv_new n x)" "fv_as_slice (fv_new n x) = []"
  by (simp_all add: fv_ok_def fv_new_def fv_as_slice_def)


section \<open>The memory manager\<close>

record mem_manager =
  mm_reserved_memory_size :: u64
  mm_lost_size :: u64
  mm_free_pages :: u64
  mm_n_fragments :: u64
  mm_mem_list :: "u64 fixed_vec"

definition max_free_pairs :: nat where "max_free_pairs = 1024"

definition mm_new :: mem_manager where
  "mm_new = \<lparr>mm_reserved_memory_size = 0, mm_lost_size = 0, mm_free_pages = 0, mm_n_fragments = 0,
     mm_mem_list = fv_new max_free_pairs 0\<rparr>"

record boot_desc =
  bd_base :: u64
  bd_page_count :: "32 word"
  bd_available :: bool

text \<open>The loop of \<open>init_first\<close> over the memory map; a list that is full makes \<open>unwrap\<close> panic.\<close>

fun init_list :: "boot_desc list \<Rightarrow> u64 \<Rightarrow> u64 fixed_vec \<Rightarrow> (unit, u64 fixed_vec \<times> u64) outcome" where
  "init_list [] free_count list = Ok (list, free_count)"
| "init_list (d # ds) free_count list =
     (if bd_available d
      then (let sz = ucast (bd_page_count d) * mm_page_size in
            case fv_push list (pair_new (bd_base d) sz) of
              Some list' \<Rightarrow> init_list ds (free_count + sz) list'
            | None \<Rightarrow> Panic)
      else init_list ds free_count list)"

definition init_first :: "boot_desc list \<Rightarrow> u64 \<Rightarrow> (unit, mem_manager) outcome" where
  "init_first mm total_memory_size =
     and_then (init_list mm 0 (mm_mem_list mm_new)) (\<lambda>(list, free_count).
       Ok (mm_new\<lparr>mm_mem_list := list, mm_n_fragments := of_nat (fv_len list),
         mm_reserved_memory_size := total_memory_size - free_count, mm_free_pages := free_count\<rparr>))"

record mem_layout =
  ly_size :: u64
  ly_align :: u64

definition round_up_page :: "u64 \<Rightarrow> u64" where
  "round_up_page sz = (let align_m1 = mm_page_size - 1 in (sz + align_m1) AND NOT align_m1)"

fun alloc_first :: "u64 \<Rightarrow> u64 list \<Rightarrow> (u64 list \<times> u64) option" where
  "alloc_first sz [] = None"
| "alloc_first sz (p # ps) =
     (case pair_alloc p sz of
        Some (p', v) \<Rightarrow> Some (p' # ps, v)
      | None \<Rightarrow> map_option (\<lambda>(ps', v). (p # ps', v)) (alloc_first sz ps))"

text \<open>\<open>NonNullPhysicalAddress::new\<close> refuses the address 0.\<close>

definition pg_alloc :: "mem_layout \<Rightarrow> mem_manager \<Rightarrow> u64 option \<times> mem_manager" where
  "pg_alloc layout s =
     (if mm_page_size < ly_align layout then (None, s)
      else let sz = round_up_page (ly_size layout) in
        case alloc_first sz (fv_as_slice (mm_mem_list s)) of
          Some (ps, v) \<Rightarrow>
            (if v = 0 then None else Some v,
             s\<lparr>mm_mem_list := fv_set_slice ps (mm_mem_list s), mm_free_pages := mm_free_pages s - sz\<rparr>)
        | None \<Rightarrow> (None, s))"

fun merge_first :: "u64 \<Rightarrow> u64 list \<Rightarrow> u64 list option" where
  "merge_first entry [] = None"
| "merge_first entry (p # ps) =
     (case pair_try_merge p entry of
        Some p' \<Rightarrow> Some (p' # ps)
      | None \<Rightarrow> map_option (\<lambda>ps'. p # ps') (merge_first entry ps))"

definition pg_dealloc :: "u64 \<Rightarrow> mem_layout \<Rightarrow> mem_manager \<Rightarrow> mem_manager" where
  "pg_dealloc base layout s =
     (let sz = round_up_page (ly_size layout);
          new_entry = pair_new base sz;
          s = s\<lparr>mm_free_pages := mm_free_pages s + sz, mm_n_fragments := of_nat (fv_len (mm_mem_list s))\<rparr> in
      case merge_first new_entry (fv_as_slice (mm_mem_list s)) of
        Some ps \<Rightarrow> s\<lparr>mm_mem_list := fv_set_slice ps (mm_mem_list s)\<rparr>
      | None \<Rightarrow>
          (case fv_push (mm_mem_list s) new_entry of
             Some list \<Rightarrow> s\<lparr>mm_mem_list := list\<rparr>
           | None \<Rightarrow> s\<lparr>mm_lost_size := mm_lost_size s + sz\<rparr>))"

datatype mprotect = MP_None | MP_Read | MP_ReadWrite | MP_ReadExec

fun can_read :: "mprotect \<Rightarrow> bool" where
  "can_read MP_None = False"
| "can_read _ = True"

fun can_write :: "mprotect \<Rightarrow> bool" where
  "can_write MP_ReadWrite = True"
| "can_write _ = True"

fun can_executable :: "mprotect \<Rightarrow> bool" where
  "can_executable MP_ReadExec = True"
| "can_executable _ = True"


section \<open>The pages of a region\<close>

definition pair_base :: "u64 \<Rightarrow> nat" where
  "pair_base p = unat (fst (pair_split p))"

definition pair_size :: "u64 \<Rightarrow> nat" where
  "pair_size p = unat (snd (pair_split p))"

definition pair_pages :: "u64 \<Rightarrow> nat set" where
  "pair_pages p = {pair_base p..<pair_base p + pair_size p}"

text \<open>The region ends below page \<open>2 ^ 32\<close>, so that its base keeps fitting the lower half.\<close>

definition pair_ok :: "u64 \<Rightarrow> bool" where
  "pair_ok p \<longleftrightarrow> pair_base p + pair_size p < 2 ^ 32"

lemma low_half: "unat (w :: u64) < 2 ^ 32 \<Longrightarrow> take_bit 32 w = w"
  by (simp add: word_unat_eq_iff unsigned_take_bit_eq take_bit_nat_eq_self)

lemma split_pack:
  assumes "unat b < 2 ^ 32" "unat s < 2 ^ 32"
  shows "pair_split (b OR push_bit 32 s) = (b, s)"
proof -
  have eq: "take_bit 32 b = b" "take_bit 32 s = s" using assms by (simp_all only: low_half)
  have "(b OR push_bit 32 s) AND 0xFFFFFFFF = take_bit 32 (b OR push_bit 32 s)"
    by (simp add: take_bit_eq_mask mask_numeral)
  also have "\<dots> = b" using eq by (simp add: take_bit_push_bit)
  finally have low: "(b OR push_bit 32 s) AND 0xFFFFFFFF = b" .
  have "drop_bit 32 b = 0" using eq(1) by (simp add: take_bit_eq_self_iff_drop_bit_eq_0)
  moreover have "drop_bit 32 (push_bit 32 s) = s"
  proof (rule bit_word_eqI)
    fix n
    assume "n < LENGTH(64)"
    moreover have "bit s n \<longleftrightarrow> n < 32 \<and> bit s n" using eq(2) by (metis bit_take_bit_iff)
    ultimately show "bit (drop_bit 32 (push_bit 32 s)) n \<longleftrightarrow> bit s n"
      by (auto simp: bit_simps)
  qed
  ultimately show ?thesis using low by (simp add: pair_split_def)
qed

lemma pair_pack:
  assumes "unat b + unat s < 2 ^ 32"
  shows "pair_base (b OR push_bit 32 s) = unat b" "pair_size (b OR push_bit 32 s) = unat s"
    "pair_ok (b OR push_bit 32 s)" "pair_pages (b OR push_bit 32 s) = {unat b..<unat b + unat s}"
  using assms split_pack [of b s] by (simp_all add: pair_base_def pair_size_def pair_ok_def pair_pages_def)

text \<open>The number of pages a layout takes.\<close>

definition pages_of :: "mem_layout \<Rightarrow> nat" where
  "pages_of l = (unat (ly_size l) + 4095) div 4096"

text \<open>A \<open>Layout\<close> is at most \<open>isize::MAX\<close> bytes long.\<close>

definition layout_ok :: "mem_layout \<Rightarrow> bool" where
  "layout_ok l \<longleftrightarrow> unat (ly_size l) < 2 ^ 63"

lemma unat_add_small: "unat (a :: u64) + unat b < 2 ^ 64 \<Longrightarrow> unat (a + b) = unat a + unat b"
  by (simp add: unat_word_ariths)

lemma unat_round_up_page:
  assumes "layout_ok l"
  shows "unat (round_up_page (ly_size l)) = 4096 * pages_of l"
proof -
  let ?x = "ly_size l + 0xFFF"
  have x: "unat ?x = unat (ly_size l) + 4095"
    using assms unat_add_small [of "ly_size l" "0xFFF"] by (simp add: layout_ok_def)
  have "?x AND NOT (mask 12) = push_bit 12 (drop_bit 12 ?x)"
    by (rule bit_word_eqI) (auto simp: bit_simps)
  then have "round_up_page (ly_size l) = push_bit 12 (drop_bit 12 ?x)"
    by (simp add: round_up_page_def mm_page_size_def Let_def mask_numeral)
  then have "unat (round_up_page (ly_size l)) = take_bit 64 (push_bit 12 (drop_bit 12 (unat ?x)))"
    using x assms by (simp add: unsigned_push_bit_eq unsigned_drop_bit_eq take_bit_nat_eq_self layout_ok_def)
  also have "\<dots> = take_bit 64 (4096 * pages_of l)"
    by (simp only: x pages_of_def push_bit_eq_mult drop_bit_eq_div) (simp add: mult.commute)
  also have "4096 * pages_of l < 2 ^ 64" using assms by (simp add: layout_ok_def pages_of_def)
  then have "take_bit 64 (4096 * pages_of l) = 4096 * pages_of l" by (rule take_bit_nat_eq_self)
  finally show ?thesis .
qed

lemma pair_new_aligned:
  assumes "unat base = 4096 * b" "unat sz = 4096 * n" "b + n < 2 ^ 32"
  shows "pair_base (pair_new base sz) = b" "pair_size (pair_new base sz) = n"
    "pair_ok (pair_new base sz)" "pair_pages (pair_new base sz) = {b..<b + n}"
proof -
  have "unat (base div mm_page_size) = b" "unat (sz div mm_page_size) = n"
    using assms(1,2) by (simp_all add: mm_page_size_def unat_div)
  with assms(3) pair_pack [of "base div mm_page_size" "sz div mm_page_size"]
  show "pair_base (pair_new base sz) = b" "pair_size (pair_new base sz) = n"
    "pair_ok (pair_new base sz)" "pair_pages (pair_new base sz) = {b..<b + n}"
    by (simp_all add: pair_new_def)
qed

lemma pages_of_size:
  assumes "unat (sz :: u64) = 4096 * n" "n \<le> 2 ^ 51"
  shows "unat ((sz + mm_page_size - 1) div mm_page_size) = n"
proof -
  have "sz + mm_page_size - 1 = sz + 0xFFF" by (simp add: mm_page_size_def)
  moreover have "unat (sz + 0xFFF) = 4096 * n + 4095"
    using assms unat_add_small [of sz "0xFFF"] by simp
  ultimately have "unat (sz + mm_page_size - 1) = 4096 * n + 4095" by (simp only:)
  then show ?thesis by (simp add: unat_div mm_page_size_def)
qed

lemma pair_alloc_spec:
  assumes "pair_ok p" "unat sz = 4096 * n" "n \<le> 2 ^ 51"
  shows "if pair_size p < n then pair_alloc p sz = None
    else \<exists>p'. pair_alloc p sz = Some (p', of_nat (4096 * pair_base p)) \<and> pair_ok p' \<and>
      pair_base p' = pair_base p + n \<and> pair_pages p' = {pair_base p + n..<pair_base p + pair_size p}"
proof -
  obtain b l where s: "pair_split p = (b, l)" by (cases "pair_split p")
  with assms(1) have bl: "unat b + unat l < 2 ^ 32" "pair_base p = unat b" "pair_size p = unat l"
    by (simp_all add: pair_ok_def pair_base_def pair_size_def)
  let ?n = "(sz + mm_page_size - 1) div mm_page_size"
  note n = pages_of_size [OF assms(2,3)]
  show ?thesis
  proof (cases "unat l < n")
    case True
    then show ?thesis using s n bl by (simp add: pair_alloc_def Let_def word_less_nat_alt)
  next
    case False
    then have le: "?n \<le> l" by (simp add: word_le_nat_alt n)
    have u: "unat (b + ?n) = unat b + n" using bl(1) False n by (simp add: unat_add_small)
    have v: "unat (l - ?n) = unat l - n" using unat_sub [OF le] n by simp
    have "unat (b + ?n) + unat (l - ?n) < 2 ^ 32" using u v bl(1) False by simp
    note k = pair_pack [OF this]
    have "b * mm_page_size = of_nat (4096 * unat b)" by (simp add: mm_page_size_def mult.commute)
    then show ?thesis using False s le bl k u v
      by (auto simp: pair_alloc_def Let_def not_less)
  qed
qed

lemma pair_try_merge_spec:
  assumes "pair_ok p" "pair_ok q" "pair_try_merge p q = Some r" "pair_pages p \<inter> pair_pages q = {}"
  shows "pair_ok r \<and> pair_pages r = pair_pages p \<union> pair_pages q"
proof -
  obtain b0 s0 b1 s1 where s: "pair_split p = (b0, s0)" "pair_split q = (b1, s1)"
    by (cases "pair_split p", cases "pair_split q")
  with assms(1,2) have u: "unat b0 + unat s0 < 2 ^ 32" "unat b1 + unat s1 < 2 ^ 32"
    and pg: "pair_pages p = {unat b0..<unat b0 + unat s0}" "pair_pages q = {unat b1..<unat b1 + unat s1}"
    by (simp_all add: pair_ok_def pair_base_def pair_size_def pair_pages_def)
  have a: "unat (b0 + s0) = unat b0 + unat s0" "unat (b1 + s1) = unat b1 + unat s1"
    "unat (s0 + s1) = unat s0 + unat s1"
    using u by (simp_all add: unat_add_small)
  consider "b0 + s0 = b1" "r = b0 OR push_bit 32 (s0 + s1)" | "b1 + s1 = b0" "r = b1 OR push_bit 32 (s0 + s1)"
    using assms(3) s by (auto simp: pair_try_merge_def split: if_splits)
  then show ?thesis
  proof cases
    case 1
    with a u have "unat b0 + unat (s0 + s1) < 2 ^ 32" "unat b1 = unat b0 + unat s0" by auto
    then show ?thesis using 1(2) pair_pack [of b0 "s0 + s1"] a pg by auto
  next
    case 2
    with a u have "unat b1 + unat (s0 + s1) < 2 ^ 32" "unat b0 = unat b1 + unat s1" by auto
    then show ?thesis using 2(2) pair_pack [of b1 "s0 + s1"] a pg by auto
  qed
qed

lemma unat_page_address:
  assumes "b < 2 ^ 32"
  shows "unat (of_nat (4096 * b) :: u64) = 4096 * b"
proof -
  have "take_bit 64 (4096 * b) = 4096 * b" by (rule take_bit_nat_eq_self) (use assms in simp)
  then show ?thesis by (simp add: unat_of_nat take_bit_eq_mod del: of_nat_mult)
qed

lemma pair_try_merge_adjacent:
  assumes "pair_ok p" "pair_ok q" "pair_base p = pair_base q + pair_size q"
  shows "pair_try_merge p q \<noteq> None"
proof -
  obtain b0 s0 b1 s1 where s: "pair_split p = (b0, s0)" "pair_split q = (b1, s1)"
    by (cases "pair_split p", cases "pair_split q")
  with assms have "unat b1 + unat s1 < 2 ^ 32" "unat b0 = unat b1 + unat s1"
    by (simp_all add: pair_ok_def pair_base_def pair_size_def)
  then have "unat (b1 + s1) = unat b0" by (simp add: unat_add_small)
  then have "b1 + s1 = b0" by (simp add: word_unat_eq_iff)
  with s show ?thesis by (simp add: pair_try_merge_def)
qed


section \<open>The free list\<close>

definition list_pages :: "u64 list \<Rightarrow> nat set" where
  "list_pages ps = (\<Union>p \<in> set ps. pair_pages p)"

fun apart :: "u64 list \<Rightarrow> bool" where
  "apart [] = True"
| "apart (p # ps) \<longleftrightarrow> pair_pages p \<inter> list_pages ps = {} \<and> apart ps"

definition regions_ok :: "u64 list \<Rightarrow> bool" where
  "regions_ok ps \<longleftrightarrow> list_all pair_ok ps \<and> apart ps"

lemma list_pages_simps [simp]:
  "list_pages [] = {}" "list_pages (p # ps) = pair_pages p \<union> list_pages ps"
  "list_pages (ps @ qs) = list_pages ps \<union> list_pages qs"
  by (auto simp: list_pages_def)

lemma finite_list_pages [simp]: "finite (list_pages ps)"
  by (simp add: list_pages_def pair_pages_def)

lemma regions_ok_Cons:
  "regions_ok (p # ps) \<longleftrightarrow> pair_ok p \<and> pair_pages p \<inter> list_pages ps = {} \<and> regions_ok ps"
  by (auto simp: regions_ok_def)

lemma regions_ok_snoc:
  "regions_ok (ps @ [q]) \<longleftrightarrow> regions_ok ps \<and> pair_ok q \<and> pair_pages q \<inter> list_pages ps = {}"
proof -
  have "apart (ps @ [q]) \<longleftrightarrow> apart ps \<and> pair_pages q \<inter> list_pages ps = {}"
    by (induction ps) auto
  then show ?thesis by (auto simp: regions_ok_def)
qed

lemma alloc_first_Some:
  assumes "unat sz = 4096 * n" "n \<le> 2 ^ 51" "regions_ok ps" "alloc_first sz ps = Some (ps', v)"
  shows "\<exists>b. v = of_nat (4096 * b) \<and> b + n < 2 ^ 32 \<and> {b..<b + n} \<subseteq> list_pages ps \<and>
    list_pages ps' = list_pages ps - {b..<b + n} \<and> regions_ok ps' \<and> length ps' = length ps"
  using assms(3,4)
proof (induction ps arbitrary: ps')
  case Nil
  then show ?case by simp
next
  case (Cons p ps)
  then have p: "pair_ok p" "pair_pages p \<inter> list_pages ps = {}" "regions_ok ps" by (auto simp: regions_ok_Cons)
  note a = pair_alloc_spec [OF p(1) assms(1,2)]
  show ?case
  proof (cases "pair_size p < n")
    case True
    with a Cons(3) obtain qs where q: "alloc_first sz ps = Some (qs, v)" "ps' = p # qs" by auto
    from Cons(1) [OF p(3) q(1)] obtain b where b: "v = of_nat (4096 * b)" "b + n < 2 ^ 32"
      "{b..<b + n} \<subseteq> list_pages ps" "list_pages qs = list_pages ps - {b..<b + n}" "regions_ok qs"
      "length qs = length ps" by blast
    moreover have "pair_pages p \<inter> {b..<b + n} = {}" using p(2) b(3) by blast
    ultimately show ?thesis using p q(2) by (intro exI [of _ b]) (auto simp: regions_ok_Cons)
  next
    case False
    with a obtain p' where p': "pair_alloc p sz = Some (p', of_nat (4096 * pair_base p))" "pair_ok p'"
      "pair_pages p' = {pair_base p + n..<pair_base p + pair_size p}" by auto
    have cut: "{pair_base p..<pair_base p + n} \<subseteq> pair_pages p" "pair_pages p' = pair_pages p - {pair_base p..<pair_base p + n}"
      using False p'(3) by (auto simp: pair_pages_def)
    have "pair_base p + n < 2 ^ 32" using p(1) False by (simp add: pair_ok_def)
    moreover have "ps' = p' # ps" "v = of_nat (4096 * pair_base p)" using p'(1) Cons(3) by auto
    ultimately show ?thesis
      using cut p p'(2) by (intro exI [of _ "pair_base p"]) (auto simp: regions_ok_Cons)
  qed
qed

text \<open>The rest of the region that was cut starts where the cut ends, so the pages can merge back.\<close>

lemma alloc_first_rest:
  assumes "unat sz = 4096 * n" "n \<le> 2 ^ 51" "regions_ok ps" "alloc_first sz ps = Some (ps', of_nat (4096 * b))" "b < 2 ^ 32"
  shows "\<exists>p \<in> set ps'. pair_base p = b + n"
  using assms(3,4)
proof (induction ps arbitrary: ps')
  case (Cons p ps)
  then have p: "pair_ok p" "regions_ok ps" by (auto simp: regions_ok_Cons)
  note a = pair_alloc_spec [OF p(1) assms(1,2)]
  show ?case
  proof (cases "pair_size p < n")
    case True
    with a Cons show ?thesis using p(2) by auto
  next
    case False
    with a obtain p' where p': "pair_alloc p sz = Some (p', of_nat (4096 * pair_base p))"
      "pair_base p' = pair_base p + n" by auto
    have "pair_base p < 2 ^ 32" using p(1) by (simp add: pair_ok_def)
    moreover from p'(1) Cons(3) have "ps' = p' # ps" "of_nat (4096 * pair_base p) = (of_nat (4096 * b) :: u64)" by auto
    ultimately show ?thesis using p'(2) unat_page_address [of b] unat_page_address [of "pair_base p"] assms(5) by auto
  qed
qed simp

lemma merge_first_adjacent:
  assumes "pair_ok q" "regions_ok ps" "p \<in> set ps" "pair_base p = pair_base q + pair_size q"
  shows "merge_first q ps \<noteq> None"
  using assms(2,3)
proof (induction ps)
  case (Cons r ps)
  then have "pair_ok r" by (simp add: regions_ok_Cons)
  then have "pair_try_merge r q \<noteq> None" if "r = p"
    using that assms(1,4) pair_try_merge_adjacent by blast
  with Cons show ?case by (auto simp: regions_ok_Cons split: option.splits)
qed simp

lemma alloc_first_None:
  assumes "unat sz = 4096 * n" "n \<le> 2 ^ 51" "regions_ok ps"
  shows "alloc_first sz ps = None \<longleftrightarrow> (\<forall>p \<in> set ps. pair_size p < n)"
  using assms(3)
proof (induction ps)
  case (Cons p ps)
  then have "pair_ok p" "regions_ok ps" by (auto simp: regions_ok_Cons)
  with Cons(1) pair_alloc_spec [OF this(1) assms(1,2)] show ?case by (cases "pair_size p < n") auto
qed simp

lemma merge_first_Some:
  assumes "pair_ok q" "pair_pages q \<inter> list_pages ps = {}" "regions_ok ps" "merge_first q ps = Some ps'"
  shows "list_pages ps' = list_pages ps \<union> pair_pages q \<and> regions_ok ps' \<and> length ps' = length ps"
  using assms(2-4)
proof (induction ps arbitrary: ps')
  case (Cons p ps)
  then have p: "pair_ok p" "pair_pages p \<inter> list_pages ps = {}" "regions_ok ps"
    "pair_pages p \<inter> pair_pages q = {}" "pair_pages q \<inter> list_pages ps = {}" by (auto simp: regions_ok_Cons)
  show ?case
  proof (cases "pair_try_merge p q")
    case None
    with Cons(4) obtain qs where q: "merge_first q ps = Some qs" "ps' = p # qs" by auto
    with Cons(1) [OF p(5,3)] p show ?thesis by (auto simp: regions_ok_Cons)
  next
    case (Some r)
    with Cons(4) pair_try_merge_spec [OF p(1) assms(1) Some p(4)] p show ?thesis
      by (auto simp: regions_ok_Cons)
  qed
qed simp

end
