(* ===== verification/PageSafety.thy ===== *)
theory PageSafety
  imports PageAlloc
begin

text \<open>
  What the page allocator promises: the invariant of the memory manager, the contract of a page
  pool as a locale with the proof that live allocations never overlap, its interpretation on
  \<open>pg_alloc\<close> and \<open>pg_dealloc\<close>, and the memory map that starts it.
\<close>

section \<open>The invariant of the memory manager\<close>

definition mm_free :: "mem_manager \<Rightarrow> nat set" where
  "mm_free s = list_pages (fv_as_slice (mm_mem_list s))"

text \<open>The free regions do not overlap, and \<open>free_pages\<close> counts their bytes and the lost ones.\<close>

definition mm_inv :: "mem_manager \<Rightarrow> bool" where
  "mm_inv s \<longleftrightarrow> fv_ok max_free_pairs (mm_mem_list s) \<and> regions_ok (fv_as_slice (mm_mem_list s)) \<and>
     mm_free_pages s = of_nat (4096 * card (mm_free s)) + mm_lost_size s"

definition region :: "u64 \<Rightarrow> mem_layout \<Rightarrow> nat set" where
  "region a l = {unat a div 4096..<unat a div 4096 + pages_of l}"

definition legit :: "u64 \<Rightarrow> mem_layout \<Rightarrow> bool" where
  "legit a l \<longleftrightarrow> layout_ok l \<and> unat a mod 4096 = 0 \<and> unat a div 4096 + pages_of l < 2 ^ 32"

lemma pages_of_bound: "layout_ok l \<Longrightarrow> pages_of l \<le> 2 ^ 51"
  by (simp add: layout_ok_def pages_of_def)

lemma mm_set_list:
  assumes "mm_inv s" "mm_mem_list s' = fv_set_slice ps (mm_mem_list s)"
    and "length ps = length (fv_as_slice (mm_mem_list s))" "regions_ok ps"
    and "mm_free_pages s' = of_nat (4096 * card (list_pages ps)) + mm_lost_size s'"
  shows "mm_inv s'" "mm_free s' = list_pages ps"
  using assms fv_set_slice [of max_free_pairs "mm_mem_list s" ps] by (auto simp: mm_inv_def mm_free_def)

lemma round_up_word:
  assumes "layout_ok l"
  shows "round_up_page (ly_size l) = of_nat (4096 * pages_of l)"
proof -
  have "round_up_page (ly_size l) = of_nat (unat (round_up_page (ly_size l)))" by simp
  then show ?thesis by (simp only: unat_round_up_page [OF assms])
qed

lemma finite_mm_free [simp]: "finite (mm_free s)"
  by (simp add: mm_free_def)

text \<open>What an allocation does: it cuts a range of pages off a free region, or nothing fits.\<close>

lemma pg_alloc_cases:
  assumes inv: "mm_inv s" and l: "layout_ok l" "ly_align l \<le> mm_page_size" and "pg_alloc l s = (r, s')"
  obtains (none) "r = None" "s' = s" "\<And>p. p \<in> set (fv_as_slice (mm_mem_list s)) \<Longrightarrow> pair_size p < pages_of l"
  | (some) b where "r = (if b = 0 then None else Some (of_nat (4096 * b)))" "b + pages_of l < 2 ^ 32"
      "{b..<b + pages_of l} \<subseteq> mm_free s" "mm_free s' = mm_free s - {b..<b + pages_of l}"
      "mm_inv s'" "mm_lost_size s' = mm_lost_size s"
      "\<exists>p \<in> set (fv_as_slice (mm_mem_list s')). pair_base p = b + pages_of l"
proof -
  let ?ps = "fv_as_slice (mm_mem_list s)" and ?sz = "round_up_page (ly_size l)"
  note sz = unat_round_up_page [OF l(1)] pages_of_bound [OF l(1)]
  from inv have ps: "regions_ok ?ps" by (simp add: mm_inv_def)
  show thesis
  proof (cases "alloc_first ?sz ?ps")
    case None
    with assms(4) l(2) alloc_first_None [OF sz ps] show thesis
      by (intro none) (auto simp: pg_alloc_def Let_def split: if_splits)
  next
    case (Some x)
    obtain qs v where q: "alloc_first ?sz ?ps = Some (qs, v)" using Some by (cases x) auto
    from alloc_first_Some [OF sz ps q] obtain b where b: "v = of_nat (4096 * b)" "b + pages_of l < 2 ^ 32"
      "{b..<b + pages_of l} \<subseteq> list_pages ?ps" "list_pages qs = list_pages ?ps - {b..<b + pages_of l}"
      "regions_ok qs" "length qs = length ?ps" by blast
    have rest: "\<exists>p \<in> set qs. pair_base p = b + pages_of l"
      by (rule alloc_first_rest [OF sz ps]) (use q b(1,2) in simp_all)
    have s': "r = (if v = 0 then None else Some v)"
      "s' = s\<lparr>mm_mem_list := fv_set_slice qs (mm_mem_list s), mm_free_pages := mm_free_pages s - ?sz\<rparr>"
      using assms(4) q l(2) by (auto simp: pg_alloc_def Let_def split: if_splits)
    have card: "card (list_pages ?ps) = card (list_pages qs) + pages_of l"
      using b(3,4) card_mono [OF _ b(3)] by (simp add: card_Diff_subset)
    have "mm_free_pages s - ?sz = of_nat (4096 * card (list_pages qs)) + mm_lost_size s"
      using inv by (simp add: mm_inv_def mm_free_def card round_up_word [OF l(1)] algebra_simps)
    with mm_set_list [OF inv, of s' qs] b(5,6) s'(2) have "mm_inv s'" "mm_free s' = list_pages qs" by simp_all
    moreover have "v = 0 \<longleftrightarrow> b = 0"
    proof -
      have "unat v = 4096 * b" using b(1,2) unat_page_address [of b] by simp
      then show ?thesis by (metis mult_is_0 unat_0_iff zero_neq_numeral)
    qed
    moreover have "fv_as_slice (mm_mem_list s') = qs"
      using fv_set_slice [of max_free_pairs "mm_mem_list s" qs] inv b(6) s'(2) by (simp add: mm_inv_def)
    ultimately show thesis using b s' rest by (intro some [of b]) (auto simp: mm_free_def)
  qed
qed

text \<open>
  What a deallocation does: the region is free again, merged or as an entry of its own, or the
  list is full and its bytes are counted as lost.
\<close>

lemma pg_dealloc_cases:
  assumes inv: "mm_inv s" and a: "legit a l" "region a l \<inter> mm_free s = {}"
  obtains (free) "mm_inv (pg_dealloc a l s)" "mm_free (pg_dealloc a l s) = mm_free s \<union> region a l"
      "mm_lost_size (pg_dealloc a l s) = mm_lost_size s"
  | (lost) "mm_inv (pg_dealloc a l s)" "mm_free (pg_dealloc a l s) = mm_free s"
      "mm_lost_size (pg_dealloc a l s) = mm_lost_size s + of_nat (4096 * pages_of l)"
      "length (fv_as_slice (mm_mem_list s)) = max_free_pairs"
      "\<And>p. p \<in> set (fv_as_slice (mm_mem_list s)) \<Longrightarrow> pair_base p \<noteq> unat a div 4096 + pages_of l"
proof -
  let ?ps = "fv_as_slice (mm_mem_list s)" and ?sz = "round_up_page (ly_size l)" and ?s = "pg_dealloc a l s"
  let ?q = "pair_new a ?sz"
  have l: "layout_ok l" using a(1) by (simp add: legit_def)
  have "unat a = 4096 * (unat a div 4096)" using a(1) by (auto simp: legit_def)
  from pair_new_aligned [OF this unat_round_up_page [OF l]] a(1)
  have q: "pair_ok ?q" "pair_pages ?q = region a l" "pair_base ?q + pair_size ?q = unat a div 4096 + pages_of l"
    by (simp_all add: legit_def region_def)
  from inv have fv: "fv_ok max_free_pairs (mm_mem_list s)" and ps: "regions_ok ?ps" by (simp_all add: mm_inv_def)
  have dis: "pair_pages ?q \<inter> list_pages ?ps = {}" using a(2) q(2) by (simp add: mm_free_def)
  have card: "card (list_pages ?ps \<union> region a l) = card (list_pages ?ps) + pages_of l"
    using dis q(2) by (subst card_Un_disjoint) (auto simp: region_def)
  have count: "mm_free_pages s + ?sz = of_nat (4096 * (card (list_pages ?ps) + pages_of l)) + mm_lost_size s"
    using inv by (simp add: mm_inv_def mm_free_def round_up_word [OF l] algebra_simps)
  show thesis
  proof (cases "merge_first ?q ?ps")
    case (Some qs)
    from merge_first_Some [OF q(1) dis ps Some] q(2)
    have m: "list_pages qs = list_pages ?ps \<union> region a l" "regions_ok qs" "length qs = length ?ps" by auto
    have s: "mm_mem_list ?s = fv_set_slice qs (mm_mem_list s)" "mm_free_pages ?s = mm_free_pages s + ?sz"
      "mm_lost_size ?s = mm_lost_size s"
      using Some by (simp_all add: pg_dealloc_def Let_def)
    with mm_set_list [OF inv s(1) m(3,2)] count card m(1) show thesis by (intro free) (auto simp: mm_free_def)
  next
    case None
    show thesis
    proof (cases "fv_push (mm_mem_list s) ?q")
      case (Some list)
      from fv_push_slice [OF fv Some] have f: "fv_ok max_free_pairs list" "fv_as_slice list = ?ps @ [?q]" by auto
      have s: "mm_mem_list ?s = list" "mm_free_pages ?s = mm_free_pages s + ?sz" "mm_lost_size ?s = mm_lost_size s"
        using None Some by (simp_all add: pg_dealloc_def Let_def)
      have "regions_ok (?ps @ [?q])" using ps q dis by (simp add: regions_ok_snoc)
      then show thesis using f s q(2) count card by (intro free) (simp_all add: mm_inv_def mm_free_def)
    next
      case full: None
      have s: "mm_mem_list ?s = mm_mem_list s" "mm_free_pages ?s = mm_free_pages s + ?sz"
        "mm_lost_size ?s = mm_lost_size s + ?sz"
        using None full by (simp_all add: pg_dealloc_def Let_def)
      have "mm_inv ?s" using inv s by (simp add: mm_inv_def mm_free_def)
      moreover have "pair_base p \<noteq> unat a div 4096 + pages_of l" if "p \<in> set ?ps" for p
        using merge_first_adjacent [OF q(1) ps that] None q(3) by auto
      ultimately show thesis using s full fv_push_full [OF fv] round_up_word [OF l]
        by (intro lost) (simp_all add: mm_free_def)
    qed
  qed
qed


section \<open>The contract of a page pool\<close>

inductive pool_run :: "('s \<Rightarrow> bool) \<Rightarrow> ('l \<Rightarrow> bool) \<Rightarrow> ('l \<Rightarrow> 's \<Rightarrow> 'a option \<times> 's) \<Rightarrow> ('a \<Rightarrow> 'l \<Rightarrow> 's \<Rightarrow> 's)
    \<Rightarrow> 's \<Rightarrow> ('a \<times> 'l) list \<Rightarrow> bool"
  for init valid alloc dealloc where
  start: "init s \<Longrightarrow> pool_run init valid alloc dealloc s []"
| take: "pool_run init valid alloc dealloc s own \<Longrightarrow> valid l \<Longrightarrow> alloc l s = (Some a, s') \<Longrightarrow>
     pool_run init valid alloc dealloc s' ((a, l) # own)"
| fail: "pool_run init valid alloc dealloc s own \<Longrightarrow> valid l \<Longrightarrow> alloc l s = (None, s') \<Longrightarrow>
     pool_run init valid alloc dealloc s' own"
| give: "pool_run init valid alloc dealloc s (xs @ (a, l) # ys) \<Longrightarrow>
     pool_run init valid alloc dealloc (dealloc a l s) (xs @ ys)"

text \<open>
  A run holds a list of live allocations.  What the allocator promises: what it hands out was
  free, and what it takes back it adds to the free pages or loses.
\<close>

locale page_pool =
  fixes inv :: "'s \<Rightarrow> bool" and free :: "'s \<Rightarrow> nat set" and pages :: "'a \<Rightarrow> 'l \<Rightarrow> nat set"
    and fits :: "'a \<Rightarrow> 'l \<Rightarrow> bool" and valid :: "'l \<Rightarrow> bool"
    and alloc :: "'l \<Rightarrow> 's \<Rightarrow> 'a option \<times> 's" and dealloc :: "'a \<Rightarrow> 'l \<Rightarrow> 's \<Rightarrow> 's"
  assumes alloc_some: "inv s \<Longrightarrow> valid l \<Longrightarrow> alloc l s = (Some a, s') \<Longrightarrow>
      inv s' \<and> fits a l \<and> pages a l \<subseteq> free s \<and> free s' = free s - pages a l"
    and alloc_none: "inv s \<Longrightarrow> valid l \<Longrightarrow> alloc l s = (None, s') \<Longrightarrow> inv s' \<and> free s' \<subseteq> free s"
    and dealloc_any: "inv s \<Longrightarrow> fits a l \<Longrightarrow> pages a l \<inter> free s = {} \<Longrightarrow>
      inv (dealloc a l s) \<and> free (dealloc a l s) \<subseteq> free s \<union> pages a l"
begin

lemma live_apart:
  assumes "pool_run init valid alloc dealloc s own" and init: "\<And>s. init s \<Longrightarrow> inv s"
  shows "inv s \<and> sorted_wrt (\<lambda>(a, l) (b, m). pages a l \<inter> pages b m = {}) own \<and>
    (\<forall>(a, l) \<in> set own. fits a l \<and> pages a l \<inter> free s = {})"
  using assms(1)
proof (induction rule: pool_run.induct)
  case (start s)
  then show ?case by (simp add: init)
next
  case (take s own l a s')
  then have "inv s'" "fits a l" "pages a l \<subseteq> free s" "free s' = free s - pages a l"
    using alloc_some by blast+
  with take(4) show ?case by (fastforce)
next
  case (fail s own l s')
  then have "inv s'" "free s' \<subseteq> free s" using alloc_none by blast+
  with fail(4) show ?case by blast
next
  case (give s xs a l ys)
  then have g: "inv s" "fits a l" "pages a l \<inter> free s = {}" by auto
  then have "inv (dealloc a l s)" "free (dealloc a l s) \<subseteq> free s \<union> pages a l" using dealloc_any by blast+
  with give(2) show ?case by (fastforce simp: sorted_wrt_append)
qed

end

definition layout_valid :: "mem_layout \<Rightarrow> bool" where
  "layout_valid l \<longleftrightarrow> layout_ok l \<and> ly_align l \<le> mm_page_size"

lemma pg_alloc_region:
  assumes "b \<noteq> 0" "b + pages_of l < 2 ^ 32" "layout_ok l"
  shows "region (of_nat (4096 * b)) l = {b..<b + pages_of l}" "legit (of_nat (4096 * b)) l"
  using assms unat_page_address [of b] by (simp_all add: region_def legit_def)

interpretation mm: page_pool mm_inv mm_free region legit layout_valid pg_alloc pg_dealloc
proof unfold_locales
  fix s l a s'
  assume s: "mm_inv s" and l: "layout_valid l" and r: "pg_alloc l s = (Some a, s')"
  from l have v: "layout_ok l" "ly_align l \<le> mm_page_size" by (simp_all add: layout_valid_def)
  from s v r show "mm_inv s' \<and> legit a l \<and> region a l \<subseteq> mm_free s \<and> mm_free s' = mm_free s - region a l"
  proof (cases rule: pg_alloc_cases)
    case (some b)
    then show ?thesis using pg_alloc_region [of b l] v(1) by (auto split: if_splits)
  qed simp
next
  fix s l s'
  assume s: "mm_inv s" and l: "layout_valid l" and r: "pg_alloc l s = (None, s')"
  from l have v: "layout_ok l" "ly_align l \<le> mm_page_size" by (simp_all add: layout_valid_def)
  from s v r show "mm_inv s' \<and> mm_free s' \<subseteq> mm_free s"
    by (cases rule: pg_alloc_cases) (use s in auto)
next
  fix s a l
  assume "mm_inv s" "legit a l" "region a l \<inter> mm_free s = {}"
  then show "mm_inv (pg_dealloc a l s) \<and> mm_free (pg_dealloc a l s) \<subseteq> mm_free s \<union> region a l"
    by (cases rule: pg_dealloc_cases) auto
qed


section \<open>The memory map of the boot loader\<close>

definition desc_pages :: "boot_desc \<Rightarrow> nat set" where
  "desc_pages d = {unat (bd_base d) div 4096..<unat (bd_base d) div 4096 + unat (bd_page_count d)}"

text \<open>The available regions are aligned, end below page \<open>2 ^ 32\<close> and do not overlap.\<close>

fun map_ok :: "boot_desc list \<Rightarrow> nat set \<Rightarrow> bool" where
  "map_ok [] used = True"
| "map_ok (d # ds) used =
     (if bd_available d
      then unat (bd_base d) mod 4096 = 0 \<and> unat (bd_base d) div 4096 + unat (bd_page_count d) < 2 ^ 32 \<and>
        desc_pages d \<inter> used = {} \<and> map_ok ds (used \<union> desc_pages d)
      else map_ok ds used)"

lemma desc_size: "unat (ucast (c :: 32 word) * mm_page_size) = 4096 * unat c"
proof -
  have c: "unat c < 2 ^ 32" using unsigned_less [of c, where 'a = nat] by simp
  then have "unat (ucast c :: u64) = unat c" by (simp add: unsigned_ucast_eq take_bit_nat_eq_self)
  with c show ?thesis by (simp add: unat_word_ariths mm_page_size_def mult.commute)
qed

lemma init_list_ok:
  assumes "init_list ds fc v = Ok (v', fc')" "map_ok ds (list_pages (fv_as_slice v))"
    and "fv_ok n v" "regions_ok (fv_as_slice v)" "fc = of_nat (4096 * card (list_pages (fv_as_slice v)))"
  shows "fv_ok n v' \<and> regions_ok (fv_as_slice v') \<and> fc' = of_nat (4096 * card (list_pages (fv_as_slice v')))"
  using assms
proof (induction ds arbitrary: fc v)
  case Nil
  then show ?case by auto
next
  case (Cons d ds)
  show ?case
  proof (cases "bd_available d")
    case True
    let ?sz = "ucast (bd_page_count d) * mm_page_size :: u64" and ?q = "pair_new (bd_base d) (ucast (bd_page_count d) * mm_page_size)"
    from True Cons(3) have m: "unat (bd_base d) = 4096 * (unat (bd_base d) div 4096)"
      "unat (bd_base d) div 4096 + unat (bd_page_count d) < 2 ^ 32" by auto
    from pair_new_aligned [OF m(1) desc_size m(2)] have q: "pair_ok ?q" "pair_pages ?q = desc_pages d"
      by (simp_all add: desc_pages_def)
    from True Cons(2) obtain w where w: "fv_push v ?q = Some w" "init_list ds (fc + ?sz) w = Ok (v', fc')"
      by (auto simp: Let_def split: option.splits)
    from fv_push_slice [OF Cons(4) w(1)] have f: "fv_ok n w" "fv_as_slice w = fv_as_slice v @ [?q]" by auto
    have dis: "desc_pages d \<inter> list_pages (fv_as_slice v) = {}" using True Cons(3) by simp
    have r: "regions_ok (fv_as_slice w)" using f(2) q dis Cons(5) by (simp add: regions_ok_snoc)
    have "?sz = of_nat (unat ?sz)" by simp
    then have "?sz = of_nat (4096 * unat (bd_page_count d))" by (simp only: desc_size)
    moreover have "card (list_pages (fv_as_slice w)) = card (list_pages (fv_as_slice v)) + unat (bd_page_count d)"
      using f(2) q(2) dis by (simp add: card_Un_disjoint desc_pages_def Int_commute)
    ultimately have "fc + ?sz = of_nat (4096 * card (list_pages (fv_as_slice w)))"
      using Cons(6) by (simp add: algebra_simps)
    moreover have "map_ok ds (list_pages (fv_as_slice w))" using True Cons(3) f(2) q(2) by (simp add: Un_commute)
    ultimately show ?thesis using Cons(1) [OF w(2) _ f(1) r] by simp
  next
    case False
    with Cons show ?thesis by simp
  qed
qed

lemma init_first_inv:
  assumes "init_first ds t = Ok s" "map_ok ds {}"
  shows "mm_inv s"
proof -
  let ?v = "mm_mem_list mm_new"
  from assms(1) obtain v fc where i: "init_list ds 0 ?v = Ok (v, fc)"
    and s: "mm_mem_list s = v" "mm_free_pages s = fc" "mm_lost_size s = 0"
    by (auto simp: init_first_def outcome_iff mm_new_def)
  have v: "fv_ok max_free_pairs ?v" "fv_as_slice ?v = []" by (simp_all add: mm_new_def fv_new_ok)
  from init_list_ok [OF i _ v(1)] assms(2) v(2) s show ?thesis
    by (simp add: mm_inv_def mm_free_def regions_ok_def)
qed


section \<open>The properties\<close>

definition mm_started :: "mem_manager \<Rightarrow> bool" where
  "mm_started s \<longleftrightarrow> (\<exists>ds t. map_ok ds {} \<and> init_first ds t = Ok s)"

abbreviation "mm_run \<equiv> pool_run mm_started layout_valid pg_alloc pg_dealloc"

text \<open>An example: three pages at 0x2000 and five at 0x10000, with a reserved region in between.\<close>

definition ex_map :: "boot_desc list" where
  "ex_map = [\<lparr>bd_base = 0x2000, bd_page_count = 3, bd_available = True\<rparr>,
     \<lparr>bd_base = 0x5000, bd_page_count = 11, bd_available = False\<rparr>,
     \<lparr>bd_base = 0x10000, bd_page_count = 5, bd_available = True\<rparr>]"

definition ex_mm :: mem_manager where
  "ex_mm = mm_new\<lparr>mm_reserved_memory_size := 0xF8000, mm_free_pages := 0x8000, mm_n_fragments := 2,
     mm_mem_list := \<lparr>fv_data = 0x300000002 # 0x500000010 # replicate 1022 0, fv_len = 2\<rparr>\<rparr>"

lemma ex_map_ok: "map_ok ex_map {}"
  by (auto simp: ex_map_def desc_pages_def)

lemma ex_init: "init_first ex_map 0x100000 = Ok ex_mm"
proof -
  have r: "replicate 1024 (0 :: u64) = 0 # 0 # replicate 1022 0"
    by (simp add: numeral_eq_Suc)
  show ?thesis
    by (simp add: init_first_def ex_map_def ex_mm_def mm_new_def fv_new_def fv_push_def max_free_pairs_def r
        mm_page_size_def pair_new_def Let_def)
qed

lemma ex_started: "mm_started ex_mm"
  using ex_map_ok ex_init by (auto simp: mm_started_def)

lemma mm_run_inv: "mm_run s own \<Longrightarrow> mm_inv s"
  using mm.live_apart [of mm_started s own] init_first_inv by (auto simp: mm_started_def)

text \<open>
  C31: live allocations of pages never overlap.  From any memory map whose available regions are
  aligned and apart, after any sequence of allocations and deallocations, the pages of two live
  allocations are disjoint, none of them is free, and the counter \<open>free_pages\<close> is the number of
  free bytes plus the bytes lost when the list of regions was full.
\<close>

theorem pages_never_shared:
  assumes "pool_run mm_started layout_valid pg_alloc pg_dealloc s own"
  shows "sorted_wrt (\<lambda>(a, l) (b, m). region a l \<inter> region b m = {}) own \<and>
    (\<forall>(a, l) \<in> set own. region a l \<inter> mm_free s = {}) \<and>
    mm_free_pages s = of_nat (4096 * card (mm_free s)) + mm_lost_size s"
  using mm.live_apart [OF assms] init_first_inv mm_run_inv [OF assms] by (auto simp: mm_started_def mm_inv_def)

theorem pages_never_shared_witness: "mm_free_pages ex_mm = of_nat (4096 * card (mm_free ex_mm))"
proof -
  have "pool_run mm_started layout_valid pg_alloc pg_dealloc ex_mm []" by (rule pool_run.start) (rule ex_started)
  from pages_never_shared [OF this] show ?thesis by (simp add: ex_mm_def mm_new_def)
qed

text \<open>
  C36: an allocation hands out free pages and removes exactly those from the free list.  When it
  returns nothing, either the layout asks for more than the alignment of a page or no region is
  large enough, and nothing changes; or the pages were cut off a region that starts at address 0,
  which cannot be returned: they are gone.
\<close>

theorem pg_alloc_spec:
  assumes "pool_run mm_started layout_valid pg_alloc pg_dealloc s own" "layout_ok l"
  shows "case pg_alloc l s of
      (Some a, s') \<Rightarrow> ly_align l \<le> mm_page_size \<and> unat a mod 4096 = 0 \<and> region a l \<subseteq> mm_free s \<and> mm_free s' = mm_free s - region a l
    | (None, s') \<Rightarrow>
        s' = s \<and> (mm_page_size < ly_align l \<or> (\<forall>p \<in> set (fv_as_slice (mm_mem_list s)). pair_size p < pages_of l)) \<or>
        {0..<pages_of l} \<subseteq> mm_free s \<and> mm_free s' = mm_free s - {0..<pages_of l}"
proof (cases "mm_page_size < ly_align l")
  case True
  then show ?thesis by (simp add: pg_alloc_def)
next
  case False
  then have v: "layout_ok l" "ly_align l \<le> mm_page_size" using assms(2) by simp_all
  obtain r s' where r: "pg_alloc l s = (r, s')" by (cases "pg_alloc l s")
  from mm_run_inv [OF assms(1)] v r show ?thesis
  proof (cases rule: pg_alloc_cases)
    case none
    with r show ?thesis by simp
  next
    case (some b)
    with r pg_alloc_region [of b l] v show ?thesis by (auto simp: legit_def)
  qed
qed

definition ex_layout :: mem_layout where
  "ex_layout = \<lparr>ly_size = 0x3001, ly_align = 8\<rparr>"

lemma ex_alloc: "fst (pg_alloc ex_layout ex_mm) = Some 0x10000"
  by (simp add: pg_alloc_def ex_layout_def ex_mm_def mm_new_def round_up_page_def mm_page_size_def Let_def
      fv_as_slice_def pair_alloc_def pair_split_def)

lemma ex_layout_valid: "layout_valid ex_layout"
  by (simp add: layout_valid_def layout_ok_def ex_layout_def mm_page_size_def)

theorem pg_alloc_spec_witness: "{16..<20} \<subseteq> mm_free ex_mm"
proof -
  have "pool_run mm_started layout_valid pg_alloc pg_dealloc ex_mm []" by (rule pool_run.start) (rule ex_started)
  from pg_alloc_spec [OF this, of ex_layout] ex_layout_valid ex_alloc show ?thesis
    by (auto simp: region_def pages_of_def ex_layout_def layout_valid_def split: prod.splits)
qed

text \<open>
  C37: giving pages back undoes their allocation: the free pages and the counters of free and of
  lost bytes are those before it, and nothing is lost even when the list of regions is full, because
  the pages merge with what is left of the region they came from.  The third counter,
  \<open>n_fragments\<close>, is not restored: it is set to the length of the list before the deallocation.
\<close>

theorem pg_alloc_dealloc:
  assumes "pool_run mm_started layout_valid pg_alloc pg_dealloc s own" "layout_valid l" "pg_alloc l s = (Some a, s')"
  shows "mm_free (pg_dealloc a l s') = mm_free s \<and> mm_lost_size (pg_dealloc a l s') = mm_lost_size s \<and>
    mm_free_pages (pg_dealloc a l s') = mm_free_pages s \<and>
    mm_n_fragments (pg_dealloc a l s') = of_nat (fv_len (mm_mem_list s'))"
proof -
  have frag: "mm_n_fragments (pg_dealloc a l s') = of_nat (fv_len (mm_mem_list s'))"
    by (simp add: pg_dealloc_def Let_def split: option.splits)
  from assms(2) have v: "layout_ok l" "ly_align l \<le> mm_page_size" by (simp_all add: layout_valid_def)
  have "mm_inv s" by (rule mm_run_inv [OF assms(1)])
  from this v assms(3) show ?thesis
  proof (cases rule: pg_alloc_cases)
    case (some b)
    then have a: "a = of_nat (4096 * b)" "b \<noteq> 0" by (auto split: if_splits)
    with pg_alloc_region [of b l] some(2) v(1)
    have reg: "region a l = {b..<b + pages_of l}" "legit a l" "unat a div 4096 = b"
      using unat_page_address [of b] by simp_all
    have dis: "region a l \<inter> mm_free s' = {}" using some(4) reg(1) by blast
    from some(5) reg(2) dis show ?thesis
    proof (cases rule: pg_dealloc_cases)
      case free
      then have "mm_free (pg_dealloc a l s') = mm_free s" using some(3,4) reg(1) by blast
      with free(1,3) some(6) \<open>mm_inv s\<close> frag show ?thesis by (simp add: mm_inv_def)
    next
      case lost
      with some(7) reg(3) show ?thesis by auto
    qed
  qed simp
qed

theorem pg_alloc_dealloc_witness:
  "mm_free (pg_dealloc 0x10000 ex_layout (snd (pg_alloc ex_layout ex_mm))) = mm_free ex_mm"
proof -
  have "pool_run mm_started layout_valid pg_alloc pg_dealloc ex_mm []" by (rule pool_run.start) (rule ex_started)
  moreover have "pg_alloc ex_layout ex_mm = (Some 0x10000, snd (pg_alloc ex_layout ex_mm))"
    using ex_alloc by (metis prod.collapse)
  ultimately show ?thesis using pg_alloc_dealloc [OF _ ex_layout_valid] by blast
qed

end
