(* ===== verification/Slab.thy ===== *)
theory Slab
  imports Prelude
begin

text \<open>
  The slab allocator (src/system/src/mem/slab.rs).  Every cache keeps its free blocks in a stack that several
  processors use at once without a lock.  For blocks of 16 octets the node of the stack is the block itself,
  with the link behind it; for larger blocks the node is a box that is allocated when a block is freed and
  dropped when the block is allocated again.

  A call is a machine whose steps are the atomic accesses of the source, in the order of the source, and
  the system interleaves the steps of any number of threads; the accesses are taken as sequentially consistent.
  The answers of the page allocator and of \<open>Box::new\<close> are choices of the environment.
\<close>

section \<open>Size classes\<close>

datatype allocation_error = AllocUnexpected | AllocOutOfMemory | AllocInvalidArgument | AllocUnsupported

definition SLABS :: "nat list" where
  "SLABS = [16, 32, 64, 128, 256, 512, 1024, 2048]"

text \<open>The cache that serves a layout; \<open>None\<close> is \<open>Unsupported\<close>.\<close>

definition slab_for :: "nat \<Rightarrow> nat \<Rightarrow> nat option" where
  "slab_for sz align =
     (let sz = max sz align in
      if 0xFFFF < sz then None else List.find (\<lambda>block_size. sz \<le> block_size) SLABS)"

definition PAGE_SIZE_MIN :: nat where "PAGE_SIZE_MIN = 0x1000"

definition entry_size :: "nat \<Rightarrow> nat" where
  "entry_size block_size = (if block_size = 16 then 32 else block_size)"

text \<open>The blocks that \<open>expand\<close> cuts a new page into.\<close>

definition slab_entries :: "nat \<Rightarrow> nat \<Rightarrow> nat list" where
  "slab_entries block_size blob =
     map (\<lambda>i. blob + i * entry_size block_size) [0..<PAGE_SIZE_MIN div entry_size block_size]"


section \<open>The cache and the steps of a call\<close>

text \<open>The counters and the head, and the memory of the nodes: links, elements, and the boxes that live.\<close>

record slab_cache =
  sc_block_size :: nat
  sc_total_count :: nat
  sc_free_count :: nat
  sc_free_ptr :: nat
  sm_next :: "nat \<Rightarrow> nat"
  sm_elem :: "nat \<Rightarrow> nat"
  sm_boxes :: "nat set"

definition slab_new :: "nat \<Rightarrow> slab_cache" where
  "slab_new block_size =
     \<lparr>sc_block_size = block_size, sc_total_count = 0, sc_free_count = 0, sc_free_ptr = 0,
      sm_next = (\<lambda>_. 0), sm_elem = (\<lambda>_. 0), sm_boxes = {}\<rparr>"

text \<open>A free block whose node is a box, or whose node is the block.\<close>

definition boxed :: "slab_cache \<Rightarrow> bool" where
  "boxed c \<longleftrightarrow> sc_block_size c \<noteq> 16"

definition node_elem :: "slab_cache \<Rightarrow> nat \<Rightarrow> nat" where
  "node_elem c n = (if boxed c then sm_elem c n else n)"

definition free_memory_size :: "slab_cache \<Rightarrow> nat" where
  "free_memory_size c = sc_free_count c * sc_block_size c mod 2 ^ 64"

text \<open>What follows a call of \<open>free\<close>: the caller, or the rest of the loop of \<open>expand\<close>.\<close>

datatype slab_cont = Ret | Expanding "nat list" nat

text \<open>Where a thread is: the access it makes next, with the locals it has read.\<close>

datatype slab_pc =
    SIdle
  | A_Load | A_Next nat | A_Cas nat nat | A_Count nat | A_Take nat | A_Expand | A_Done nat | A_Error allocation_error
  | F_Node nat slab_cont | F_Load nat slab_cont | F_Store nat nat slab_cont | F_Cas nat nat slab_cont | F_Count slab_cont | F_Done
  | X_Total nat

text \<open>The choices of the environment: a weak exchange that fails, the address of a box, the answer for a page.\<close>

record slab_env =
  e_weak :: bool
  e_box :: nat
  e_blob :: "nat option"

fun slab_step :: "slab_env \<Rightarrow> slab_cache \<Rightarrow> slab_pc \<Rightarrow> (unit, slab_pc \<times> slab_cache) outcome" where
  "slab_step e c A_Load = Ok (if sc_free_ptr c = 0 then A_Expand else A_Next (sc_free_ptr c), c)"
| "slab_step e c (A_Next current) =
     (if boxed c \<and> current \<notin> sm_boxes c then UB DanglingRef else Ok (A_Cas current (sm_next c current), c))"
| "slab_step e c (A_Cas current next) =
     Ok (if sc_free_ptr c = current \<and> \<not> e_weak e then (A_Count current, c\<lparr>sc_free_ptr := next\<rparr>) else (A_Load, c))"
| "slab_step e c (A_Count current) = Ok (A_Take current, c\<lparr>sc_free_count := usize_sub (sc_free_count c) 1\<rparr>)"
| "slab_step e c (A_Take current) =
     (if boxed c then
        if current \<in> sm_boxes c then Ok (A_Done (sm_elem c current), c\<lparr>sm_boxes := sm_boxes c - {current}\<rparr>) else UB DanglingRef
      else Ok (A_Done current, c))"
| "slab_step e c A_Expand =
     (case e_blob e of
        None \<Rightarrow> Ok (A_Error AllocOutOfMemory, c)
      | Some blob \<Rightarrow>
          (case slab_entries (sc_block_size c) blob of
             [] \<Rightarrow> Ok (X_Total 0, c)
           | b # bs \<Rightarrow> Ok (F_Node b (Expanding bs (Suc (length bs))), c)))"
| "slab_step e c (X_Total n) = Ok (A_Load, c\<lparr>sc_total_count := usize_add (sc_total_count c) n\<rparr>)"
| "slab_step e c (F_Node ptr k) =
     Ok (if boxed c then
           (F_Load (e_box e) k, c\<lparr>sm_next := (sm_next c)(e_box e := 0), sm_elem := (sm_elem c)(e_box e := ptr),
              sm_boxes := insert (e_box e) (sm_boxes c)\<rparr>)
         else (F_Load ptr k, c))"
| "slab_step e c (F_Load node k) = Ok (F_Store node (sc_free_ptr c) k, c)"
| "slab_step e c (F_Store node current k) = Ok (F_Cas node current k, c\<lparr>sm_next := (sm_next c)(node := current)\<rparr>)"
| "slab_step e c (F_Cas node current k) =
     Ok (if sc_free_ptr c = current \<and> \<not> e_weak e then (F_Count k, c\<lparr>sc_free_ptr := node\<rparr>) else (F_Store node (sc_free_ptr c) k, c))"
| "slab_step e c (F_Count k) =
     Ok (case k of
           Ret \<Rightarrow> F_Done
         | Expanding [] n \<Rightarrow> X_Total n
         | Expanding (b # bs) n \<Rightarrow> F_Node b (Expanding bs n),
         c\<lparr>sc_free_count := usize_add (sc_free_count c) 1\<rparr>)"
| "slab_step e c pc = Ok (pc, c)"


section \<open>The system\<close>

text \<open>
  Threads call \<open>alloc\<close> and \<open>free\<close>; \<open>ss_used\<close> are the blocks that were handed out and not given back, and
  \<open>ss_pages\<close> the pages the cache got.  A block that is freed was handed out.  The page allocator gives pages
  that it did not give before, and \<open>Box::new\<close> gives an address that is not the address of a box that lives.
\<close>

record slab_sys =
  ss_cache :: slab_cache
  ss_threads :: "nat \<Rightarrow> slab_pc"
  ss_used :: "nat set"
  ss_pages :: "nat set"

definition slab_start :: "nat \<Rightarrow> slab_sys" where
  "slab_start block_size = \<lparr>ss_cache = slab_new block_size, ss_threads = (\<lambda>_. SIdle), ss_used = {}, ss_pages = {}\<rparr>"

text \<open>A thread that is inside \<open>alloc\<close>, also while it expands the cache.\<close>

fun in_alloc :: "slab_pc \<Rightarrow> bool" where
  "in_alloc SIdle = False"
| "in_alloc F_Done = False"
| "in_alloc (F_Node p k) = (k \<noteq> Ret)"
| "in_alloc (F_Load n k) = (k \<noteq> Ret)"
| "in_alloc (F_Store n cur k) = (k \<noteq> Ret)"
| "in_alloc (F_Cas n cur k) = (k \<noteq> Ret)"
| "in_alloc (F_Count k) = (k \<noteq> Ret)"
| "in_alloc _ = True"

definition env_ok :: "slab_env \<Rightarrow> slab_sys \<Rightarrow> bool" where
  "env_ok e s \<longleftrightarrow> e_box e \<noteq> 0 \<and> e_box e \<notin> sm_boxes (ss_cache s) \<and>
     (case e_blob e of None \<Rightarrow> True | Some blob \<Rightarrow> blob \<noteq> 0 \<and> PAGE_SIZE_MIN dvd blob \<and> blob \<notin> ss_pages s)"

text \<open>The page that a step takes.\<close>

definition page_taken :: "slab_env \<Rightarrow> slab_pc \<Rightarrow> nat set" where
  "page_taken e pc = (if pc = A_Expand then set_option (e_blob e) else {})"

text \<open>With \<open>serial\<close> a thread enters \<open>alloc\<close> only when no other thread is inside; calls of \<open>free\<close> are never held back.\<close>

inductive slab_sys_step :: "bool \<Rightarrow> slab_sys \<Rightarrow> slab_sys \<Rightarrow> bool" for serial where
  call_alloc: "ss_threads s t = SIdle \<Longrightarrow> (serial \<Longrightarrow> \<forall>u. \<not> in_alloc (ss_threads s u)) \<Longrightarrow>
    slab_sys_step serial s (s\<lparr>ss_threads := (ss_threads s)(t := A_Load)\<rparr>)"
| call_free: "ss_threads s t = SIdle \<Longrightarrow> p \<in> ss_used s \<Longrightarrow>
    slab_sys_step serial s (s\<lparr>ss_threads := (ss_threads s)(t := F_Node p Ret), ss_used := ss_used s - {p}\<rparr>)"
| access: "env_ok e s \<Longrightarrow> slab_step e (ss_cache s) (ss_threads s t) = Ok (pc, c) \<Longrightarrow>
    slab_sys_step serial s
      (s\<lparr>ss_cache := c, ss_threads := (ss_threads s)(t := pc), ss_pages := ss_pages s \<union> page_taken e (ss_threads s t)\<rparr>)"
| return_block: "ss_threads s t = A_Done p \<Longrightarrow>
    slab_sys_step serial s (s\<lparr>ss_threads := (ss_threads s)(t := SIdle), ss_used := insert p (ss_used s)\<rparr>)"
| return_none: "ss_threads s t = F_Done \<or> ss_threads s t = A_Error d \<Longrightarrow>
    slab_sys_step serial s (s\<lparr>ss_threads := (ss_threads s)(t := SIdle)\<rparr>)"

inductive slab_reachable :: "bool \<Rightarrow> nat \<Rightarrow> slab_sys \<Rightarrow> bool" for serial block_size where
  start: "slab_reachable serial block_size (slab_start block_size)"
| step: "slab_reachable serial block_size s \<Longrightarrow> slab_sys_step serial s s' \<Longrightarrow> slab_reachable serial block_size s'"

end
