(* ===== verification/SlabSafety.thy ===== *)
theory SlabSafety
  imports Slab
begin

text \<open>
  Who owns the blocks of a slab cache.  When the calls of \<open>alloc\<close> do not overlap, the free list is a list and every
  block has one owner, however many calls of \<open>free\<close> run at the same time; when they overlap, a block
  can be handed out twice and a box can be read after it was dropped.
\<close>

section \<open>The pool of blocks\<close>

text \<open>The contract: every block belongs to one thread, to the free list or to a user.\<close>

definition pool_ok :: "(nat \<Rightarrow> nat list) \<Rightarrow> nat list \<Rightarrow> nat set \<Rightarrow> bool" where
  "pool_ok H F U \<longleftrightarrow> distinct F \<and> (\<forall>t. distinct (H t)) \<and> (\<forall>t u. t \<noteq> u \<longrightarrow> set (H t) \<inter> set (H u) = {}) \<and>
     (\<forall>t. set (H t) \<inter> set F = {} \<and> set (H t) \<inter> U = {}) \<and> set F \<inter> U = {}"

definition pool_all :: "(nat \<Rightarrow> nat list) \<Rightarrow> nat list \<Rightarrow> nat set \<Rightarrow> nat set" where
  "pool_all H F U = (\<Union>t. set (H t)) \<union> set F \<union> U"

lemma pool_pop: "pool_ok H (x # F) U \<Longrightarrow> H t = [] \<Longrightarrow> pool_ok (H(t := [x])) F U"
  unfolding pool_ok_def by (auto split: if_splits)

lemma pool_push: "pool_ok H F U \<Longrightarrow> H t = x # xs \<Longrightarrow> pool_ok (H(t := xs)) (x # F) U"
  unfolding pool_ok_def
  by (auto split: if_splits) (metis disjoint_iff distinct.simps(2) list.set_intros(1) list.set_intros(2))+

lemma pool_fresh: "pool_ok H F U \<Longrightarrow> H t = [] \<Longrightarrow> distinct xs \<Longrightarrow> set xs \<inter> pool_all H F U = {} \<Longrightarrow> pool_ok (H(t := xs)) F U"
  unfolding pool_ok_def pool_all_def by (auto split: if_splits)

lemma pool_use: "pool_ok H F U \<Longrightarrow> H t = [x] \<Longrightarrow> pool_ok (H(t := [])) F (insert x U)"
  unfolding pool_ok_def by (auto split: if_splits) (metis disjoint_iff list.set_intros(1))+

lemma pool_free: "pool_ok H F U \<Longrightarrow> H t = [] \<Longrightarrow> x \<in> U \<Longrightarrow> pool_ok (H(t := [x])) F (U - {x})"
  unfolding pool_ok_def by (auto split: if_splits)

lemma pool_all_pop: "H t = [] \<Longrightarrow> pool_all (H(t := [x])) F U \<subseteq> pool_all H (x # F) U"
  by (auto simp: pool_all_def split: if_splits)

lemma pool_all_fresh: "pool_all (H(t := xs)) F U \<subseteq> pool_all H F U \<union> set xs"
  by (auto simp: pool_all_def split: if_splits)

lemma pool_all_free: "x \<in> U \<Longrightarrow> pool_all (H(t := [x])) F (U - {x}) \<subseteq> pool_all H F U"
  by (auto simp: pool_all_def split: if_splits)

lemma pool_all_push: "H t = x # xs \<Longrightarrow> pool_all (H(t := xs)) (x # F) U \<subseteq> pool_all H F U"
  unfolding pool_all_def by (auto split: if_splits) (metis list.set_intros)+


section \<open>The structure of the free list\<close>

fun chain :: "(nat \<Rightarrow> nat) \<Rightarrow> nat \<Rightarrow> nat list \<Rightarrow> bool" where
  "chain nx p [] \<longleftrightarrow> p = 0"
| "chain nx p (n # ns) \<longleftrightarrow> p = n \<and> n \<noteq> 0 \<and> chain nx (nx n) ns"

lemma chain_cong: "(\<And>n. n \<in> set ns \<Longrightarrow> nx' n = nx n) \<Longrightarrow> chain nx' p ns = chain nx p ns"
  by (induction ns arbitrary: p) auto

lemma chain_nonzero: "chain nx p ns \<Longrightarrow> n \<in> set ns \<Longrightarrow> n \<noteq> 0"
  by (induction ns arbitrary: p) auto

fun pend :: "slab_cont \<Rightarrow> nat list" where
  "pend Ret = []"
| "pend (Expanding bs n) = bs"

text \<open>The nodes and the blocks that a thread owns.\<close>

fun pc_nodes :: "slab_pc \<Rightarrow> nat list" where
  "pc_nodes (F_Load n k) = [n]"
| "pc_nodes (F_Store n cur k) = [n]"
| "pc_nodes (F_Cas n cur k) = [n]"
| "pc_nodes (A_Count n) = [n]"
| "pc_nodes (A_Take n) = [n]"
| "pc_nodes _ = []"

fun pc_blocks :: "slab_pc \<Rightarrow> nat list" where
  "pc_blocks (F_Node p k) = p # pend k"
| "pc_blocks (F_Load n k) = pend k"
| "pc_blocks (F_Store n cur k) = pend k"
| "pc_blocks (F_Cas n cur k) = pend k"
| "pc_blocks (F_Count k) = pend k"
| "pc_blocks (A_Done p) = [p]"
| "pc_blocks _ = []"

definition holds :: "slab_cache \<Rightarrow> slab_pc \<Rightarrow> nat list" where
  "holds c pc = map (node_elem c) (pc_nodes pc) @ pc_blocks pc"

definition nodes_ok :: "slab_cache \<Rightarrow> (nat \<Rightarrow> slab_pc) \<Rightarrow> nat list \<Rightarrow> bool" where
  "nodes_ok c T L \<longleftrightarrow> distinct L \<and> (boxed c \<longrightarrow> set L \<subseteq> sm_boxes c) \<and>
     (\<forall>t n. n \<in> set (pc_nodes (T t)) \<longrightarrow> n \<noteq> 0 \<and> n \<notin> set L \<and> (boxed c \<longrightarrow> n \<in> sm_boxes c)) \<and>
     (\<forall>t u. t \<noteq> u \<longrightarrow> set (pc_nodes (T t)) \<inter> set (pc_nodes (T u)) = {})"

text \<open>What the locals of a thread say about the list.\<close>

fun slab_pc_ok :: "slab_cache \<Rightarrow> nat list \<Rightarrow> slab_pc \<Rightarrow> bool" where
  "slab_pc_ok c L (A_Next cur) = (cur \<in> set L)"
| "slab_pc_ok c L (A_Cas cur nx) = (cur \<in> set L \<and> nx = sm_next c cur)"
| "slab_pc_ok c L (F_Cas n cur k) = (sm_next c n = cur)"
| "slab_pc_ok c L _ = True"

definition slab_holds :: "slab_sys \<Rightarrow> nat \<Rightarrow> nat list" where
  "slab_holds s t = holds (ss_cache s) (ss_threads s t)"

definition slab_blocks :: "slab_sys \<Rightarrow> nat set" where
  "slab_blocks s = (\<Union>p\<in>ss_pages s. set (slab_entries (sc_block_size (ss_cache s)) p))"

definition slab_inv :: "slab_sys \<Rightarrow> nat list \<Rightarrow> bool" where
  "slab_inv s L \<longleftrightarrow> chain (sm_next (ss_cache s)) (sc_free_ptr (ss_cache s)) L \<and>
     nodes_ok (ss_cache s) (ss_threads s) L \<and> (\<forall>t. slab_pc_ok (ss_cache s) L (ss_threads s t)) \<and>
     (\<forall>t u. in_alloc (ss_threads s t) \<and> in_alloc (ss_threads s u) \<longrightarrow> t = u) \<and>
     pool_ok (slab_holds s) (map (node_elem (ss_cache s)) L) (ss_used s) \<and>
     pool_all (slab_holds s) (map (node_elem (ss_cache s)) L) (ss_used s) \<subseteq> slab_blocks s \<and>
     (\<forall>p\<in>ss_pages s. p \<noteq> 0 \<and> PAGE_SIZE_MIN dvd p)"


section \<open>Every step keeps the invariant\<close>

text \<open>A step of thread \<open>t\<close> changes what \<open>t\<close> holds; what the others hold stays.\<close>

lemma inv_step:
  assumes inv: "slab_inv s L"
    and "chain (sm_next c') (sc_free_ptr c') L'" "sc_block_size c' = sc_block_size (ss_cache s)"
    and "nodes_ok c' ((ss_threads s)(t := pc')) L'" "slab_pc_ok c' L' pc'" "\<And>u. u \<noteq> t \<Longrightarrow> slab_pc_ok c' L' (ss_threads s u)"
    and "in_alloc pc' \<Longrightarrow> in_alloc (ss_threads s t)"
    and elems: "\<And>u n. u \<noteq> t \<Longrightarrow> n \<in> set (pc_nodes (ss_threads s u)) \<Longrightarrow> node_elem c' n = node_elem (ss_cache s) n"
    and "pool_ok ((slab_holds s)(t := holds c' pc')) (map (node_elem c') L') (ss_used s)"
    and "pool_all ((slab_holds s)(t := holds c' pc')) (map (node_elem c') L') (ss_used s)
      \<subseteq> (\<Union>p\<in>P'. set (slab_entries (sc_block_size c') p))"
    and "\<forall>p\<in>P'. p \<noteq> 0 \<and> PAGE_SIZE_MIN dvd p"
  shows "slab_inv (s\<lparr>ss_cache := c', ss_threads := (ss_threads s)(t := pc'), ss_pages := P'\<rparr>) L'"
proof -
  let ?s = "s\<lparr>ss_cache := c', ss_threads := (ss_threads s)(t := pc'), ss_pages := P'\<rparr>"
  have "slab_holds ?s = (slab_holds s)(t := holds c' pc')"
    using elems by (auto simp: slab_holds_def holds_def fun_eq_iff)
  then show ?thesis using assms unfolding slab_inv_def by (auto simp: slab_blocks_def)
qed

text \<open>A step that leaves the list, the elements and the boxes as they are, and sets at most a link of its own node.\<close>

lemma slab_inv_local:
  assumes inv: "slab_inv s L" and same: "sc_free_ptr c' = sc_free_ptr (ss_cache s)" "sm_elem c' = sm_elem (ss_cache s)"
      "sm_boxes c' = sm_boxes (ss_cache s)" "sc_block_size c' = sc_block_size (ss_cache s)"
    and links: "\<And>n. n \<notin> set (pc_nodes (ss_threads s t)) \<Longrightarrow> sm_next c' n = sm_next (ss_cache s) n"
    and own: "holds (ss_cache s) pc' = holds (ss_cache s) (ss_threads s t)" "set (pc_nodes pc') \<subseteq> set (pc_nodes (ss_threads s t))"
    and "slab_pc_ok c' L pc'" "in_alloc pc' \<Longrightarrow> in_alloc (ss_threads s t)"
  shows "slab_inv (s\<lparr>ss_cache := c', ss_threads := (ss_threads s)(t := pc')\<rparr>) L"
proof -
  let ?c = "ss_cache s" and ?T = "ss_threads s"
  note i = inv [unfolded slab_inv_def]
  have n: "nodes_ok ?c ?T L" using i by blast
  have elem: "node_elem c' = node_elem ?c" "boxed c' = boxed ?c" using same by (simp_all add: node_elem_def boxed_def fun_eq_iff)
  have nl: "sm_next c' n = sm_next ?c n" if "n \<in> set L" for n using links n that by (auto simp: nodes_ok_def)
  have no: "sm_next c' n = sm_next ?c n" if "u \<noteq> t" "n \<in> set (pc_nodes (?T u))" for u n
    using links n that unfolding nodes_ok_def by blast
  have "slab_inv (s\<lparr>ss_cache := c', ss_threads := ?T(t := pc'), ss_pages := ss_pages s\<rparr>) L"
  proof (rule inv_step [OF inv])
    show "chain (sm_next c') (sc_free_ptr c') L" using i nl chain_cong [of L "sm_next c'" "sm_next ?c"] same by simp
    show "nodes_ok c' (?T(t := pc')) L" using n own(2) unfolding nodes_ok_def same elem by (simp split: if_splits) blast
    show "slab_pc_ok c' L (?T u)" if "u \<noteq> t" for u
    proof -
      have "slab_pc_ok ?c L (?T u)" using i by blast
      with nl no [OF that] show ?thesis by (cases "?T u") auto
    qed
    have "holds c' pc' = slab_holds s t" using own(1) by (simp add: holds_def slab_holds_def elem)
    then show "pool_ok ((slab_holds s)(t := holds c' pc')) (map (node_elem c') L) (ss_used s)"
      "pool_all ((slab_holds s)(t := holds c' pc')) (map (node_elem c') L) (ss_used s) \<subseteq> (\<Union>p\<in>ss_pages s. set (slab_entries (sc_block_size c') p))"
      using i by (simp_all add: elem same slab_blocks_def fun_upd_triv)
  qed (use assms i elem in auto)
  then show ?thesis by simp
qed

lemma inv_pop:
  assumes inv: "slab_inv s L" and t: "ss_threads s t = A_Cas cur nx" and head: "sc_free_ptr (ss_cache s) = cur"
  shows "\<exists>L'. slab_inv (s\<lparr>ss_cache := (ss_cache s)\<lparr>sc_free_ptr := nx\<rparr>, ss_threads := (ss_threads s)(t := A_Count cur)\<rparr>) L'"
proof -
  let ?c = "ss_cache s" and ?T = "ss_threads s" and ?c' = "(ss_cache s)\<lparr>sc_free_ptr := nx\<rparr>"
  note i = inv [unfolded slab_inv_def]
  have cur: "cur \<in> set L" "nx = sm_next ?c cur" using i t by (metis slab_pc_ok.simps(2))+
  then obtain L' where L: "L = cur # L'" using i head by (cases L) auto
  have n: "nodes_ok ?c ?T (cur # L')" using i L by simp
  have elem: "node_elem ?c' = node_elem ?c" "boxed ?c' = boxed ?c" by (simp_all add: node_elem_def boxed_def fun_eq_iff)
  have held: "slab_holds s t = []" by (simp add: slab_holds_def t holds_def)
  have pool: "pool_ok (slab_holds s) (node_elem ?c cur # map (node_elem ?c) L') (ss_used s)"
    "pool_all (slab_holds s) (node_elem ?c cur # map (node_elem ?c) L') (ss_used s) \<subseteq> slab_blocks s" using i L by simp_all
  have "slab_inv (s\<lparr>ss_cache := ?c', ss_threads := ?T(t := A_Count cur), ss_pages := ss_pages s\<rparr>) L'"
  proof (rule inv_step [OF inv])
    show "chain (sm_next ?c') (sc_free_ptr ?c') L'" using i L cur by simp
    show "nodes_ok ?c' (?T(t := A_Count cur)) L'" using n i chain_nonzero cur unfolding nodes_ok_def elem by auto
    show "slab_pc_ok ?c' L' (?T u)" if "u \<noteq> t" for u
    proof -
      have "\<not> in_alloc (?T u)" "slab_pc_ok ?c L (?T u)" using i t that by (metis in_alloc.simps)+
      then show ?thesis by (cases "?T u") auto
    qed
    show "pool_ok ((slab_holds s)(t := holds ?c' (A_Count cur))) (map (node_elem ?c') L') (ss_used s)"
      using pool_pop [OF pool(1) held] by (simp add: holds_def elem)
    show "pool_all ((slab_holds s)(t := holds ?c' (A_Count cur))) (map (node_elem ?c') L') (ss_used s) \<subseteq> (\<Union>p\<in>ss_pages s. set (slab_entries (sc_block_size ?c') p))"
      using pool_all_pop [of "slab_holds s", OF held, of "node_elem ?c cur"] pool(2) by (force simp: holds_def elem slab_blocks_def)
  qed (use i t elem in auto)
  then show ?thesis by auto
qed

lemma inv_push:
  assumes inv: "slab_inv s L" and t: "ss_threads s t = F_Cas n cur k" and head: "sc_free_ptr (ss_cache s) = cur"
  shows "slab_inv (s\<lparr>ss_cache := (ss_cache s)\<lparr>sc_free_ptr := n\<rparr>, ss_threads := (ss_threads s)(t := F_Count k)\<rparr>) (n # L)"
proof -
  let ?c = "ss_cache s" and ?T = "ss_threads s" and ?c' = "(ss_cache s)\<lparr>sc_free_ptr := n\<rparr>"
  note i = inv [unfolded slab_inv_def]
  have nx: "sm_next ?c n = cur" using i t by (metis slab_pc_ok.simps(3))
  have no: "nodes_ok ?c ?T L" using i by blast
  have mine: "n \<noteq> 0" "n \<notin> set L" "boxed ?c \<Longrightarrow> n \<in> sm_boxes ?c" "\<And>u. u \<noteq> t \<Longrightarrow> n \<notin> set (pc_nodes (?T u))"
    using no t unfolding nodes_ok_def by (metis list.set_intros(1) pc_nodes.simps(3) disjoint_iff)+
  have elem: "node_elem ?c' = node_elem ?c" "boxed ?c' = boxed ?c" by (simp_all add: node_elem_def boxed_def fun_eq_iff)
  have held: "slab_holds s t = node_elem ?c n # pend k" by (simp add: slab_holds_def t holds_def)
  have "slab_inv (s\<lparr>ss_cache := ?c', ss_threads := ?T(t := F_Count k), ss_pages := ss_pages s\<rparr>) (n # L)"
  proof (rule inv_step [OF inv])
    show "chain (sm_next ?c') (sc_free_ptr ?c') (n # L)" using i nx head mine by simp
    show "nodes_ok ?c' (?T(t := F_Count k)) (n # L)" using no mine unfolding nodes_ok_def elem by auto
    show "slab_pc_ok ?c' (n # L) (?T u)" if "u \<noteq> t" for u
    proof -
      have "slab_pc_ok ?c L (?T u)" using i by blast
      then show ?thesis by (cases "?T u") auto
    qed
    show "pool_ok ((slab_holds s)(t := holds ?c' (F_Count k))) (map (node_elem ?c') (n # L)) (ss_used s)"
      using i pool_push [of "slab_holds s", OF _ held] by (simp add: holds_def elem)
    show "pool_all ((slab_holds s)(t := holds ?c' (F_Count k))) (map (node_elem ?c') (n # L)) (ss_used s) \<subseteq> (\<Union>p\<in>ss_pages s. set (slab_entries (sc_block_size ?c') p))"
      using i pool_all_push [of "slab_holds s", OF held] by (force simp: holds_def elem slab_blocks_def)
  qed (use i t elem in auto)
  then show ?thesis by auto
qed

lemma slab_inv_take:
  assumes inv: "slab_inv s L" and t: "ss_threads s t = A_Take n" and "boxed (ss_cache s)"
  shows "slab_inv (s\<lparr>ss_cache := (ss_cache s)\<lparr>sm_boxes := sm_boxes (ss_cache s) - {n}\<rparr>, ss_threads := (ss_threads s)(t := A_Done (sm_elem (ss_cache s) n))\<rparr>) L"
proof -
  let ?c = "ss_cache s" and ?T = "ss_threads s" and ?c' = "(ss_cache s)\<lparr>sm_boxes := sm_boxes (ss_cache s) - {n}\<rparr>"
  note i = inv [unfolded slab_inv_def]
  have no: "nodes_ok ?c ?T L" using i by blast
  have mine: "n \<notin> set L" "\<And>u. u \<noteq> t \<Longrightarrow> n \<notin> set (pc_nodes (?T u))"
    using no t unfolding nodes_ok_def by (metis list.set_intros(1) pc_nodes.simps(5) disjoint_iff)+
  have elem: "node_elem ?c' = node_elem ?c" "boxed ?c' = boxed ?c" by (simp_all add: node_elem_def boxed_def fun_eq_iff)
  have held: "slab_holds s t = holds ?c' (A_Done (sm_elem ?c n))" using assms(3) by (simp add: slab_holds_def t holds_def node_elem_def)
  have "slab_inv (s\<lparr>ss_cache := ?c', ss_threads := ?T(t := A_Done (sm_elem ?c n)), ss_pages := ss_pages s\<rparr>) L"
  proof (rule inv_step [OF inv])
    show "nodes_ok ?c' (?T(t := A_Done (sm_elem ?c n))) L"
      using no mine unfolding nodes_ok_def elem by (simp split: if_splits) blast
    show "slab_pc_ok ?c' L (?T u)" for u
    proof -
      have "slab_pc_ok ?c L (?T u)" using i by blast
      then show ?thesis by (cases "?T u") auto
    qed
  qed (use i t elem in \<open>auto simp flip: held simp: fun_upd_triv slab_blocks_def\<close>)
  then show ?thesis by simp
qed

text \<open>The blocks of a page lie in the page, so different pages have different blocks.\<close>

lemma slab_entry:
  assumes "b \<in> set (slab_entries bs p)"
  shows "\<exists>j. b = p + j * entry_size bs \<and> Suc j * entry_size bs \<le> PAGE_SIZE_MIN"
proof -
  from assms obtain j where j: "b = p + j * entry_size bs" "j \<in> set [0..<PAGE_SIZE_MIN div entry_size bs]"
    unfolding slab_entries_def set_map by (rule imageE)
  then have "Suc j * entry_size bs \<le> PAGE_SIZE_MIN div entry_size bs * entry_size bs" by (intro mult_le_mono1) simp
  then have "Suc j * entry_size bs \<le> PAGE_SIZE_MIN" using div_times_less_eq_dividend by (rule le_trans)
  with j(1) show ?thesis by blast
qed

lemma slab_entry_page:
  assumes "b \<in> set (slab_entries bs p)" "PAGE_SIZE_MIN dvd p"
  shows "b div PAGE_SIZE_MIN * PAGE_SIZE_MIN = p"
proof -
  from slab_entry [OF assms(1)] obtain j where j: "b = p + j * entry_size bs" "Suc j * entry_size bs \<le> PAGE_SIZE_MIN" by blast
  have "0 < entry_size bs" using assms(1) by (cases "entry_size bs") (auto simp: slab_entries_def)
  then have "j * entry_size bs < PAGE_SIZE_MIN" using j(2) by simp
  then show ?thesis using assms(2) j(1) by (auto elim!: dvdE simp: PAGE_SIZE_MIN_def)
qed

lemma slab_entries_distinct: "distinct (slab_entries bs p)"
proof (cases "entry_size bs = 0")
  case False
  then show ?thesis by (auto simp: slab_entries_def distinct_map inj_on_def)
qed (simp add: slab_entries_def)

lemma slab_block_nonzero: "slab_inv s L \<Longrightarrow> b \<in> slab_blocks s \<Longrightarrow> b \<noteq> 0"
  by (auto simp: slab_inv_def slab_blocks_def slab_entries_def)

lemma inv_node:
  assumes inv: "slab_inv s L" and t: "ss_threads s t = F_Node p k" and env: "env_ok e s"
    and step: "slab_step e (ss_cache s) (F_Node p k) = Ok (pc', c')"
  shows "slab_inv (s\<lparr>ss_cache := c', ss_threads := (ss_threads s)(t := pc')\<rparr>) L"
proof -
  let ?c = "ss_cache s" and ?T = "ss_threads s"
  let ?n = "if boxed ?c then e_box e else p"
  note i = inv [unfolded slab_inv_def]
  have no: "nodes_ok ?c ?T L" using i by blast
  have pc': "pc' = F_Load ?n k" using step by (auto split: if_splits)
  have c': "sc_free_ptr c' = sc_free_ptr ?c" "sc_block_size c' = sc_block_size ?c" "boxed c' = boxed ?c"
    "sm_boxes c' = (if boxed ?c then insert ?n (sm_boxes ?c) else sm_boxes ?c)" "node_elem c' ?n = p"
    "\<And>m. m \<noteq> ?n \<Longrightarrow> sm_next c' m = sm_next ?c m \<and> node_elem c' m = node_elem ?c m"
    using step by (auto simp: boxed_def node_elem_def split: if_splits)
  have held: "slab_holds s t = p # pend k" by (simp add: slab_holds_def t holds_def)
  have p: "p \<notin> node_elem ?c ` set L" "p \<noteq> 0" "\<And>u. u \<noteq> t \<Longrightarrow> p \<notin> set (slab_holds s u)"
  proof -
    have pool: "pool_ok (slab_holds s) (map (node_elem ?c) L) (ss_used s)" "pool_all (slab_holds s) (map (node_elem ?c) L) (ss_used s) \<subseteq> slab_blocks s"
      using i by blast+
    have mem: "p \<in> set (slab_holds s t)" by (simp add: held)
    show "p \<notin> node_elem ?c ` set L" using pool(1) mem unfolding pool_ok_def set_map by blast
    show "p \<noteq> 0" using pool(2) mem slab_block_nonzero [OF inv, of p] by (auto simp: pool_all_def)
    show "p \<notin> set (slab_holds s u)" if "u \<noteq> t" for u using pool(1) mem that unfolding pool_ok_def by blast
  qed
  have new: "?n \<noteq> 0" "?n \<notin> set L" "\<And>u. u \<noteq> t \<Longrightarrow> ?n \<notin> set (pc_nodes (?T u))"
  proof -
    show "?n \<noteq> 0" using env p(2) by (auto simp: env_ok_def)
    show "?n \<notin> set L" using env no p(1) by (auto simp: env_ok_def nodes_ok_def node_elem_def)
    show "?n \<notin> set (pc_nodes (?T u))" if "u \<noteq> t" for u
      using env no p(3) [OF that] by (auto simp: env_ok_def nodes_ok_def slab_holds_def holds_def node_elem_def)
  qed
  have maps: "map (node_elem c') L = map (node_elem ?c) L" using new(2) c'(6) by (intro map_cong refl) metis
  have same: "holds c' pc' = slab_holds s t" by (simp add: held pc' holds_def c'(5))
  have "slab_inv (s\<lparr>ss_cache := c', ss_threads := ?T(t := pc'), ss_pages := ss_pages s\<rparr>) L"
  proof (rule inv_step [OF inv])
    show "chain (sm_next c') (sc_free_ptr c') L" using i chain_cong [of L "sm_next c'" "sm_next ?c"] c'(1,6) new(2) by metis
    show "nodes_ok c' (?T(t := pc')) L" using no new unfolding nodes_ok_def c'(3,4) pc' by (auto split: if_splits)
    show "slab_pc_ok c' L (?T u)" if "u \<noteq> t" for u
    proof -
      have "slab_pc_ok ?c L (?T u)" using i by blast
      with new(2) new(3) [OF that] c'(6) show ?thesis by (cases "?T u") (auto, metis+)
    qed
    show "pool_ok ((slab_holds s)(t := holds c' pc')) (map (node_elem c') L) (ss_used s)"
      "pool_all ((slab_holds s)(t := holds c' pc')) (map (node_elem c') L) (ss_used s) \<subseteq> (\<Union>p\<in>ss_pages s. set (slab_entries (sc_block_size c') p))"
      using i unfolding maps same fun_upd_triv c'(2) slab_blocks_def by blast+
    show "node_elem c' m = node_elem ?c m" if "u \<noteq> t" "m \<in> set (pc_nodes (?T u))" for u m using new(3) [OF that(1)] c'(6) that(2) by metis
  qed (use i t c'(2) pc' in auto)
  then show ?thesis by simp
qed

lemma inv_expand:
  assumes inv: "slab_inv s L" and t: "ss_threads s t = A_Expand" and env: "env_ok e s"
    and step: "slab_step e (ss_cache s) A_Expand = Ok (pc', c')"
  shows "slab_inv (s\<lparr>ss_cache := c', ss_threads := (ss_threads s)(t := pc'), ss_pages := ss_pages s \<union> page_taken e A_Expand\<rparr>) L"
proof (cases "e_blob e")
  case None
  have "slab_inv (s\<lparr>ss_cache := ss_cache s, ss_threads := (ss_threads s)(t := A_Error AllocOutOfMemory)\<rparr>) L"
    by (rule slab_inv_local [OF inv]) (simp_all add: t holds_def)
  with None step show ?thesis by (auto simp: page_taken_def)
next
  case (Some blob)
  let ?c = "ss_cache s" and ?bs = "slab_entries (sc_block_size (ss_cache s)) blob"
  note i = inv [unfolded slab_inv_def]
  have c': "c' = ?c" "holds ?c pc' = ?bs" "pc_nodes pc' = []" "slab_pc_ok ?c L pc'" using step Some by (auto simp: holds_def split: list.splits)
  have held: "slab_holds s t = []" by (simp add: slab_holds_def t holds_def)
  have blob: "blob \<notin> ss_pages s" "PAGE_SIZE_MIN dvd blob" "blob \<noteq> 0" using env Some by (simp_all add: env_ok_def)
  have "b \<notin> slab_blocks s" if "b \<in> set ?bs" for b
    using slab_entry_page [OF that blob(2)] slab_entry_page [of b _ ] i blob(1) by (auto simp: slab_blocks_def)
  then have fresh: "set ?bs \<inter> pool_all (slab_holds s) (map (node_elem ?c) L) (ss_used s) = {}" using i by blast
  have pool: "pool_ok ((slab_holds s)(t := ?bs)) (map (node_elem ?c) L) (ss_used s)"
    using i held fresh by (intro pool_fresh slab_entries_distinct) auto
  have all: "pool_all ((slab_holds s)(t := ?bs)) (map (node_elem ?c) L) (ss_used s)
      \<subseteq> (\<Union>p\<in>insert blob (ss_pages s). set (slab_entries (sc_block_size ?c) p))"
    by (rule subset_trans [OF pool_all_fresh]) (use i in \<open>auto simp: slab_blocks_def\<close>)
  have "nodes_ok ?c ((ss_threads s)(t := pc')) L" using i c'(3) by (auto simp: nodes_ok_def)
  then have "slab_inv (s\<lparr>ss_cache := ?c, ss_threads := (ss_threads s)(t := pc'), ss_pages := insert blob (ss_pages s)\<rparr>) L"
    using i t c' pool all blob by (intro inv_step [OF inv]) auto
  then show ?thesis using Some c'(1) by (simp add: page_taken_def)
qed

text \<open>A step of any thread.\<close>

lemma inv_access:
  assumes inv: "slab_inv s L" and env: "env_ok e s" and step: "slab_step e (ss_cache s) (ss_threads s t) = Ok (pc', c')"
  shows "\<exists>L'. slab_inv (s\<lparr>ss_cache := c', ss_threads := (ss_threads s)(t := pc'), ss_pages := ss_pages s \<union> page_taken e (ss_threads s t)\<rparr>) L'"
proof -
  let ?c = "ss_cache s" and ?T = "ss_threads s"
  note i = inv [unfolded slab_inv_def]
  have pages: "s\<lparr>ss_cache := c', ss_threads := ?T(t := pc'), ss_pages := ss_pages s \<union> page_taken e (?T t)\<rparr> =
      s\<lparr>ss_cache := c', ss_threads := ?T(t := pc')\<rparr>" if "?T t \<noteq> A_Expand" using that by (simp add: page_taken_def)
  note local = slab_inv_local [OF inv, of c' t pc']
  show ?thesis
  proof (cases "?T t")
    case A_Load
    have "chain (sm_next ?c) (sc_free_ptr ?c) L" using i by blast
    then have "sc_free_ptr ?c \<noteq> 0 \<Longrightarrow> sc_free_ptr ?c \<in> set L" by (cases L) auto
    with A_Load step local pages show ?thesis by (auto simp: holds_def split: if_splits)
  next
    case (A_Next cur)
    moreover from this have "cur \<in> set L" using i by (metis slab_pc_ok.simps(1))
    ultimately show ?thesis using step local pages by (auto simp: holds_def split: if_splits)
  next
    case (A_Cas cur nx)
    then show ?thesis using step local pages inv_pop [OF inv A_Cas] by (auto simp: holds_def split: if_splits)
  next
    case (A_Take n)
    have "slab_inv (s\<lparr>ss_cache := c', ss_threads := ?T(t := pc')\<rparr>) L"
    proof (cases "boxed ?c")
      case True
      with step A_Take slab_inv_take [OF inv A_Take True] show ?thesis by (auto split: if_splits)
    next
      case False
      with step A_Take show ?thesis by (intro local) (auto simp: holds_def node_elem_def)
    qed
    then show ?thesis using pages A_Take by auto
  next
    case A_Expand
    with inv_expand [OF inv A_Expand env] step show ?thesis by auto
  next
    case (A_Done p)
    then have "pc' = ?T t" "c' = ?c" and ne: "?T t \<noteq> A_Expand" using step by auto
    then have "s\<lparr>ss_cache := c', ss_threads := ?T(t := pc')\<rparr> = s" by simp
    then show ?thesis using inv unfolding pages [OF ne] by auto
  next
    case (A_Error d)
    then have "pc' = ?T t" "c' = ?c" and ne: "?T t \<noteq> A_Expand" using step by auto
    then have "s\<lparr>ss_cache := c', ss_threads := ?T(t := pc')\<rparr> = s" by simp
    then show ?thesis using inv unfolding pages [OF ne] by auto
  next
    case (F_Node p k)
    with inv_node [OF inv F_Node env] step pages show ?thesis by auto
  next
    case (F_Cas n cur k)
    then show ?thesis using step local pages inv_push [OF inv F_Cas] by (auto simp: holds_def split: if_splits)
  qed (use step local pages in \<open>auto simp: holds_def node_elem_def boxed_def split: slab_cont.splits list.splits\<close>)
qed

lemma inv_sys_step:
  assumes inv: "slab_inv s L" and step: "slab_sys_step True s s'"
  shows "\<exists>L'. slab_inv s' L'"
  using step
proof cases
  case (call_alloc t)
  have "slab_holds (s\<lparr>ss_threads := (ss_threads s)(t := A_Load)\<rparr>) = slab_holds s"
    using call_alloc(2) by (auto simp: slab_holds_def holds_def)
  then have "slab_inv (s\<lparr>ss_threads := (ss_threads s)(t := A_Load)\<rparr>) L"
    using inv call_alloc(2,3) unfolding slab_inv_def by (auto simp: nodes_ok_def slab_blocks_def)
  then show ?thesis using call_alloc by blast
next
  case (call_free t p)
  let ?s = "s\<lparr>ss_threads := (ss_threads s)(t := F_Node p Ret), ss_used := ss_used s - {p}\<rparr>"
  have held: "slab_holds s t = []" "slab_holds ?s = (slab_holds s)(t := [p])" using call_free by (auto simp: slab_holds_def holds_def)
  have "pool_ok (slab_holds ?s) (map (node_elem (ss_cache s)) L) (ss_used s - {p})"
    using inv call_free(3) unfolding held(2) by (intro pool_free held(1)) (simp_all add: slab_inv_def)
  moreover have "pool_all (slab_holds ?s) (map (node_elem (ss_cache s)) L) (ss_used s - {p}) \<subseteq> slab_blocks s"
    using inv pool_all_free [OF call_free(3)] unfolding held(2) slab_inv_def by (meson subset_trans)
  ultimately have "slab_inv ?s L" using inv call_free(2) unfolding slab_inv_def by (auto simp: nodes_ok_def slab_blocks_def)
  then show ?thesis using call_free by blast
next
  case (access e t pc c)
  then show ?thesis using inv_access [OF inv] by blast
next
  case (return_block t p)
  let ?s = "s\<lparr>ss_threads := (ss_threads s)(t := SIdle), ss_used := insert p (ss_used s)\<rparr>"
  have held: "slab_holds s t = [p]" "slab_holds ?s = (slab_holds s)(t := [])" using return_block by (auto simp: slab_holds_def holds_def)
  have "pool_ok (slab_holds ?s) (map (node_elem (ss_cache s)) L) (insert p (ss_used s))"
    using inv unfolding held(2) by (intro pool_use held(1)) (simp add: slab_inv_def)
  moreover have "pool_all (slab_holds ?s) (map (node_elem (ss_cache s)) L) (insert p (ss_used s)) \<subseteq> pool_all (slab_holds s) (map (node_elem (ss_cache s)) L) (ss_used s)"
    unfolding held(2) pool_all_def using held(1) by (auto split: if_splits) (metis list.set_intros(1))+
  ultimately have "slab_inv ?s L" using inv return_block(2) unfolding slab_inv_def by (auto simp: nodes_ok_def slab_blocks_def)
  then show ?thesis using return_block by blast
next
  case (return_none t d)
  then have "slab_inv (s\<lparr>ss_cache := ss_cache s, ss_threads := (ss_threads s)(t := SIdle)\<rparr>) L"
    by (intro slab_inv_local [OF inv]) (auto simp: holds_def)
  then show ?thesis using return_none by auto
qed

lemma slab_inv_reachable: "slab_reachable True bs s \<Longrightarrow> \<exists>L. slab_inv s L"
proof (induction rule: slab_reachable.induct)
  case start
  have "slab_inv (slab_start bs) []"
    by (simp add: slab_inv_def slab_start_def slab_new_def nodes_ok_def pool_ok_def pool_all_def slab_holds_def holds_def)
  then show ?case by blast
next
  case (step s s')
  then show ?case using inv_sys_step by blast
qed



section \<open>Runs\<close>

text \<open>States written out, and the accesses of a thread that runs without interruption.\<close>

abbreviation sys :: "slab_cache \<Rightarrow> (nat \<Rightarrow> slab_pc) \<Rightarrow> nat set \<Rightarrow> nat set \<Rightarrow> slab_sys" where
  "sys c T U P \<equiv> \<lparr>ss_cache = c, ss_threads = T, ss_used = U, ss_pages = P\<rparr>"

lemma run_access:
  assumes "slab_reachable f bs (sys c T U P)" "T t = pc" "pc \<noteq> A_Expand" "b \<noteq> 0" "b \<notin> sm_boxes c"
    and "slab_step \<lparr>e_weak = False, e_box = b, e_blob = None\<rparr> c pc = Ok (pc', c')"
  shows "slab_reachable f bs (sys c' (T(t := pc')) U P)"
proof -
  have "env_ok \<lparr>e_weak = False, e_box = b, e_blob = None\<rparr> (sys c T U P)" using assms(4,5) by (simp add: env_ok_def)
  from slab_reachable.step [OF assms(1) slab_sys_step.access [OF this, of t pc' c']] assms(2,3,6) show ?thesis
    by (simp add: page_taken_def)
qed

definition popped :: "slab_cache \<Rightarrow> slab_cache" where
  "popped c = c\<lparr>sc_free_ptr := sm_next c (sc_free_ptr c), sc_free_count := usize_sub (sc_free_count c) 1,
     sm_boxes := (if boxed c then sm_boxes c - {sc_free_ptr c} else sm_boxes c)\<rparr>"

lemma run_count:
  assumes r: "slab_reachable f bs (sys c T U P)" and "T t = A_Count x" "finite (sm_boxes c)" "boxed c \<Longrightarrow> x \<in> sm_boxes c"
  shows "slab_reachable f bs (sys (c\<lparr>sc_free_count := usize_sub (sc_free_count c) 1, sm_boxes := (if boxed c then sm_boxes c - {x} else sm_boxes c)\<rparr>)
    (T(t := A_Done (node_elem c x))) U P)"
proof -
  obtain b where b: "b \<noteq> 0" "b \<notin> sm_boxes c" using assms(3) ex_new_if_finite [of "insert 0 (sm_boxes c)"] by auto
  let ?c = "c\<lparr>sc_free_count := usize_sub (sc_free_count c) 1\<rparr>"
  have 1: "slab_reachable f bs (sys ?c (T(t := A_Take x)) U P)" using run_access [OF r assms(2) _ b] by simp
  show ?thesis using run_access [OF 1, of t "A_Take x" b] b assms(4)
    by (cases "boxed c") (simp_all add: node_elem_def boxed_def)
qed

lemma run_load:
  assumes r: "slab_reachable f bs (sys c T U P)" and "T t = A_Load" "finite (sm_boxes c)" "sc_free_ptr c \<noteq> 0"
  shows "slab_reachable f bs (sys c (T(t := A_Next (sc_free_ptr c))) U P)"
proof -
  obtain b where b: "b \<noteq> 0" "b \<notin> sm_boxes c" using assms(3) ex_new_if_finite [of "insert 0 (sm_boxes c)"] by auto
  show ?thesis using run_access [OF r assms(2) _ b] assms(4) by simp
qed

lemma run_next:
  assumes r: "slab_reachable f bs (sys c T U P)" and "T t = A_Next x" "finite (sm_boxes c)" "boxed c \<Longrightarrow> x \<in> sm_boxes c"
  shows "slab_reachable f bs (sys c (T(t := A_Cas x (sm_next c x))) U P)"
proof -
  obtain b where b: "b \<noteq> 0" "b \<notin> sm_boxes c" using assms(3) ex_new_if_finite [of "insert 0 (sm_boxes c)"] by auto
  show ?thesis using run_access [OF r assms(2) _ b] assms(4) by simp
qed

lemma run_cas:
  assumes r: "slab_reachable f bs (sys c T U P)" and "T t = A_Cas x nx" "sc_free_ptr c = x" "finite (sm_boxes c)"
  shows "slab_reachable f bs (sys (c\<lparr>sc_free_ptr := nx\<rparr>) (T(t := A_Count x)) U P)"
proof -
  obtain b where b: "b \<noteq> 0" "b \<notin> sm_boxes c" using assms(4) ex_new_if_finite [of "insert 0 (sm_boxes c)"] by auto
  show ?thesis using run_access [OF r assms(2) _ b] assms(3) by simp
qed

lemma run_pop:
  assumes r: "slab_reachable f bs (sys c T U P)" and t: "T t = A_Load" and "finite (sm_boxes c)" "sc_free_ptr c \<noteq> 0"
    and "boxed c \<Longrightarrow> sc_free_ptr c \<in> sm_boxes c"
  shows "slab_reachable f bs (sys (popped c) (T(t := A_Done (node_elem c (sc_free_ptr c)))) U P)"
proof -
  let ?x = "sc_free_ptr c"
  have 1: "slab_reachable f bs (sys c (T(t := A_Next ?x)) U P)" by (rule run_load [OF r t assms(3,4)])
  have 2: "slab_reachable f bs (sys c (T(t := A_Cas ?x (sm_next c ?x))) U P)" using run_next [OF 1, of t ?x] assms by simp
  have 3: "slab_reachable f bs (sys (c\<lparr>sc_free_ptr := sm_next c ?x\<rparr>) (T(t := A_Count ?x)) U P)" using run_cas [OF 2, of t ?x] assms(3) by simp
  show ?thesis using run_count [OF 3, of t ?x] assms by (cases "sc_block_size c = 16") (simp_all add: popped_def node_elem_def boxed_def)
qed

definition pushed :: "slab_cache \<Rightarrow> nat \<Rightarrow> nat \<Rightarrow> slab_cache" where
  "pushed c b p = (let n = (if boxed c then b else p) in
     c\<lparr>sc_free_ptr := n, sc_free_count := usize_add (sc_free_count c) 1, sm_next := (sm_next c)(n := sc_free_ptr c),
       sm_elem := (if boxed c then (sm_elem c)(b := p) else sm_elem c), sm_boxes := (if boxed c then insert b (sm_boxes c) else sm_boxes c)\<rparr>)"

fun after_free :: "slab_cont \<Rightarrow> slab_pc" where
  "after_free Ret = F_Done"
| "after_free (Expanding [] n) = X_Total n"
| "after_free (Expanding (b # bs) n) = F_Node b (Expanding bs n)"

lemma run_push:
  assumes r: "slab_reachable f bs (sys c T U P)" and t: "T t = F_Node p k" and fin: "finite (sm_boxes c)" and b: "b \<noteq> 0" "b \<notin> sm_boxes c"
  shows "slab_reachable f bs (sys (pushed c b p) (T(t := after_free k)) U P)"
proof -
  define n where "n = (if boxed c then b else p)"
  define c1 where "c1 = (if boxed c then c\<lparr>sm_next := (sm_next c)(b := 0), sm_elem := (sm_elem c)(b := p), sm_boxes := insert b (sm_boxes c)\<rparr> else c)"
  let ?c2 = "c1\<lparr>sm_next := (sm_next c1)(n := sc_free_ptr c)\<rparr>"
  obtain b' where "b' \<noteq> 0" "b' \<notin> insert b (sm_boxes c)" using fin ex_new_if_finite [of "insert 0 (insert b (sm_boxes c))"] by auto
  then have b': "b' \<noteq> 0" "b' \<notin> sm_boxes c1" by (simp_all add: c1_def)
  have head: "sc_free_ptr c1 = sc_free_ptr c" and cnt: "sc_free_count c1 = sc_free_count c" by (simp_all add: c1_def)
  have 1: "slab_reachable f bs (sys c1 (T(t := F_Load n k)) U P)" using run_access [OF r t _ b] by (simp add: n_def c1_def split: if_splits)
  have 2: "slab_reachable f bs (sys c1 (T(t := F_Store n (sc_free_ptr c) k)) U P)" using run_access [OF 1 _ _ b', of t "F_Load n k"] head by simp
  have 3: "slab_reachable f bs (sys ?c2 (T(t := F_Cas n (sc_free_ptr c) k)) U P)"
    using run_access [OF 2 _ _ b', of t "F_Store n (sc_free_ptr c) k"] by simp
  have 4: "slab_reachable f bs (sys (?c2\<lparr>sc_free_ptr := n\<rparr>) (T(t := F_Count k)) U P)"
    using run_access [OF 3 _ _ b'(1), of t "F_Cas n (sc_free_ptr c) k"] b'(2) head by simp
  have "?c2\<lparr>sc_free_ptr := n, sc_free_count := usize_add (sc_free_count c) 1\<rparr> = pushed c b p"
    by (auto simp: pushed_def Let_def n_def c1_def)
  then have "slab_step e (?c2\<lparr>sc_free_ptr := n\<rparr>) (F_Count k) = Ok (after_free k, pushed c b p)" for e
    by (cases k rule: after_free.cases) (simp_all add: cnt)
  with run_access [OF 4 _ _ b'(1), of t "F_Count k"] b'(2) show ?thesis by simp
qed

text \<open>The loop of \<open>expand\<close> of a thread that runs alone; the boxes are taken from the addresses from \<open>b\<close> on.\<close>

fun pushed_all :: "slab_cache \<Rightarrow> nat \<Rightarrow> nat list \<Rightarrow> slab_cache" where
  "pushed_all c b [] = c"
| "pushed_all c b (p # ps) = pushed_all (pushed c b p) (Suc b) ps"

lemma run_expand_loop:
  assumes "slab_reachable f bs (sys c T U P)" "T t = F_Node p (Expanding ps n)" "finite (sm_boxes c)" "b \<noteq> 0" "\<forall>m\<in>sm_boxes c. m < b"
  shows "slab_reachable f bs (sys ((pushed_all c b (p # ps))\<lparr>sc_total_count := usize_add (sc_total_count (pushed_all c b (p # ps))) n\<rparr>) (T(t := A_Load)) U P)"
  using assms
proof (induction ps arbitrary: p c b T)
  case Nil
  have "slab_reachable f bs (sys (pushed c b p) (T(t := X_Total n)) U P)" using run_push [OF Nil(1,2,3,4)] Nil(5) by auto
  moreover obtain b' where "b' \<noteq> 0" "b' \<notin> sm_boxes (pushed c b p)"
    using Nil(3) ex_new_if_finite [of "insert 0 (insert b (sm_boxes c))"] by (auto simp: pushed_def Let_def)
  ultimately have "slab_reachable f bs (sys ((pushed c b p)\<lparr>sc_total_count := usize_add (sc_total_count (pushed c b p)) n\<rparr>) (T(t := A_Load)) U P)"
    using run_access [of f bs "pushed c b p" "T(t := X_Total n)" U P t "X_Total n" b'] by simp
  then show ?case unfolding pushed_all.simps .
next
  case (Cons q ps)
  have "slab_reachable f bs (sys (pushed c b p) (T(t := F_Node q (Expanding ps n))) U P)" using run_push [OF Cons.prems(1,2,3,4)] Cons.prems(5) by auto
  moreover have "finite (sm_boxes (pushed c b p))" "\<forall>m\<in>sm_boxes (pushed c b p). m < Suc b"
    using Cons.prems(3,5) by (auto simp: pushed_def Let_def less_Suc_eq)
  ultimately show ?case using Cons.IH [of "pushed c b p" "T(t := F_Node q (Expanding ps n))" q "Suc b"]
    unfolding pushed_all.simps(2) [of c b p] fun_upd_upd by (simp add: fun_upd_def)
qed

lemma run_expand:
  assumes "slab_reachable f bs (sys c T U P)" "T t = A_Load" "sc_free_ptr c = 0" "sm_boxes c = {}"
    and "slab_entries (sc_block_size c) blob = p # ps" "blob \<noteq> 0" "PAGE_SIZE_MIN dvd blob" "blob \<notin> P"
  shows "\<exists>c'. c' = (pushed_all c 1 (p # ps))\<lparr>sc_total_count := sc_total_count c'\<rparr> \<and> slab_reachable f bs (sys c' (T(t := A_Load)) U (insert blob P))"
proof -
  have 1: "slab_reachable f bs (sys c (T(t := A_Expand)) U P)" using run_access [OF assms(1,2) _ zero_neq_one [symmetric]] assms(3,4) by simp
  have "env_ok \<lparr>e_weak = False, e_box = 1, e_blob = Some blob\<rparr> (sys c (T(t := A_Expand)) U P)" using assms(4,6-8) by (simp add: env_ok_def)
  from slab_reachable.step [OF 1 slab_sys_step.access [OF this, of t]] assms(5)
  have "slab_reachable f bs (sys c (T(t := F_Node p (Expanding ps (Suc (length ps))))) U (insert blob P))" by (simp add: page_taken_def)
  from run_expand_loop [OF this, of t p ps "Suc (length ps)" 1] assms(4) show ?thesis by (intro exI conjI) auto
qed

text \<open>Calls and returns of a thread.\<close>

lemma run_call_alloc:
  "slab_reachable False bs (sys c T U P) \<Longrightarrow> T t = SIdle \<Longrightarrow> slab_reachable False bs (sys c (T(t := A_Load)) U P)"
  using slab_reachable.step [of False bs "sys c T U P", OF _ slab_sys_step.call_alloc [of _ t]] by simp

lemma run_return:
  "slab_reachable f bs (sys c T U P) \<Longrightarrow> T t = A_Done p \<Longrightarrow> slab_reachable f bs (sys c (T(t := SIdle)) (insert p U) P)"
  using slab_reachable.step [of f bs "sys c T U P", OF _ slab_sys_step.return_block [of _ t p]] by simp

lemma run_free:
  assumes "slab_reachable f bs (sys c T U P)" "T t = SIdle" "p \<in> U" "\<not> boxed c" "sm_boxes c = {}"
  shows "slab_reachable f bs (sys (pushed c 1 p) (T(t := SIdle)) (U - {p}) P)"
proof -
  have "slab_reachable f bs (sys c (T(t := F_Node p Ret)) (U - {p}) P)"
    using slab_reachable.step [OF assms(1) slab_sys_step.call_free [of _ t p]] assms(2,3) by simp
  from run_push [OF this, of t p Ret 1] assms(5) have "slab_reachable f bs (sys (pushed c 1 p) (T(t := F_Done)) (U - {p}) P)" by simp
  from slab_reachable.step [OF this slab_sys_step.return_none [of _ t]] show ?thesis by simp
qed

lemma run_alloc:
  assumes "slab_reachable False bs (sys c T U P)" "T t = SIdle" "\<not> boxed c" "sm_boxes c = {}" "sc_free_ptr c \<noteq> 0"
  shows "slab_reachable False bs (sys (popped c) (T(t := A_Done (sc_free_ptr c))) U P)"
  using run_pop [OF run_call_alloc [OF assms(1,2)], of t] assms(3-) by (simp add: node_elem_def)

lemma aba_run:
  assumes r: "slab_reachable False bs (sys c T {} P)" and t: "T 0 = A_Load" "T 1 = SIdle"
    and c: "\<not> boxed c" "sm_boxes c = {}" "sc_free_ptr c = x" "sm_next c x = y" "x \<noteq> 0" "y \<noteq> 0" "x \<noteq> y"
  shows "\<exists>c'. slab_reachable False bs (sys c' (T(0 := SIdle, 1 := A_Done y)) {x, y} P)"
proof -
  let ?T = "T(0 := A_Cas x y)"
  have 1: "slab_reachable False bs (sys c (T(0 := A_Next x)) {} P)" using run_load [OF r t(1)] c by simp
  have 2: "slab_reachable False bs (sys c ?T {} P)" using run_next [OF 1, of 0 x] c by simp
  have 3: "slab_reachable False bs (sys (popped c) (?T(1 := SIdle)) {x} P)"
    using run_return [OF run_alloc [OF 2], of 1 1 x] t c by simp
  have pop: "\<not> boxed (popped c)" "sm_boxes (popped c) = {}" "sc_free_ptr (popped c) = y" "sm_next (popped c) = sm_next c"
    using c by (simp_all add: popped_def boxed_def)
  let ?c2 = "popped (popped c)"
  have 4: "slab_reachable False bs (sys ?c2 (?T(1 := SIdle)) {x, y} P)"
    using run_return [OF run_alloc [OF 3], of 1 1 y] pop c by (simp add: insert_commute)
  have pop2: "\<not> boxed ?c2" "sm_boxes ?c2 = {}" using pop by (simp_all add: popped_def boxed_def)
  let ?c3 = "pushed ?c2 1 x"
  have 5: "slab_reachable False bs (sys ?c3 (?T(1 := SIdle)) {y} P)" using run_free [OF 4, of 1 x] pop2 c(7) by (simp add: insert_Diff_if)
  have push: "\<not> boxed ?c3" "sm_boxes ?c3 = {}" "sc_free_ptr ?c3 = x" using pop2 by (simp_all add: pushed_def boxed_def Let_def)
  have 6: "slab_reachable False bs (sys (?c3\<lparr>sc_free_ptr := y\<rparr>) (?T(1 := SIdle, 0 := A_Count x)) {y} P)" using run_cas [OF 5, of 0 x y] push by simp
  let ?c4 = "?c3\<lparr>sc_free_ptr := y, sc_free_count := usize_sub (sc_free_count ?c3) 1, sm_boxes := {}\<rparr>"
  have 65: "slab_reachable False bs (sys ?c4 (?T(1 := SIdle, 0 := A_Done x)) {y} P)"
    using run_count [OF 6, of 0 x] push by (simp add: boxed_def node_elem_def)
  have 7: "slab_reachable False bs (sys ?c4 (?T(1 := SIdle, 0 := SIdle)) {x, y} P)" using run_return [OF 65, of 0 x] by simp
  have "slab_reachable False bs (sys (popped ?c4) (?T(1 := SIdle, 0 := SIdle, 1 := A_Done y)) {x, y} P)"
    using run_alloc [OF 7, of 1] push c(6) by (simp add: boxed_def)
  moreover have "?T(1 := SIdle, 0 := SIdle, 1 := A_Done y) = T(0 := SIdle, 1 := A_Done y)" by auto
  ultimately show ?thesis by auto
qed

lemma pushed_all_append: "pushed_all c b (ps @ qs) = pushed_all (pushed_all c b ps) (b + length ps) qs"
  by (induction ps arbitrary: c b) simp_all

lemma pushed_all_unboxed: "\<not> boxed c \<Longrightarrow> sm_boxes (pushed_all c b ps) = sm_boxes c \<and> \<not> boxed (pushed_all c b ps)"
  by (induction ps arbitrary: c b) (simp_all add: pushed_def boxed_def Let_def)

section \<open>The properties\<close>

text \<open>
  C20: blocks of a slab cache are never shared when \<open>alloc\<close> is not called by two threads at once.  In every
  state that any number of threads reach, with calls of \<open>free\<close> overlapping each other and one
  \<open>alloc\<close> in every way, the block that \<open>alloc\<close> is about to return is in no one else's hands, and no step reads a
  box that was dropped.
\<close>

theorem slab_serial_safe:
  assumes "slab_reachable True bs s"
  shows "(ss_threads s t = A_Done p \<longrightarrow> p \<notin> ss_used s \<and> (\<forall>u. u \<noteq> t \<longrightarrow> p \<notin> set (slab_holds s u)) \<and> p \<in> slab_blocks s) \<and>
    (\<forall>e u. slab_step e (ss_cache s) (ss_threads s t) \<noteq> UB u)"
proof -
  from slab_inv_reachable [OF assms] obtain L where inv: "slab_inv s L" by blast
  note i = inv [unfolded slab_inv_def]
  have "p \<notin> ss_used s \<and> (\<forall>u. u \<noteq> t \<longrightarrow> p \<notin> set (slab_holds s u)) \<and> p \<in> slab_blocks s" if "ss_threads s t = A_Done p"
  proof -
    have p: "p \<in> set (slab_holds s t)" using that by (simp add: slab_holds_def holds_def)
    have pool: "pool_ok (slab_holds s) (map (node_elem (ss_cache s)) L) (ss_used s)" using i by blast
    have "p \<in> pool_all (slab_holds s) (map (node_elem (ss_cache s)) L) (ss_used s)" using p by (auto simp: pool_all_def)
    then have "p \<in> slab_blocks s" using i by blast
    with p pool show ?thesis unfolding pool_ok_def by (metis disjoint_iff)
  qed
  moreover have "slab_step e (ss_cache s) (ss_threads s t) \<noteq> UB u" for e u
  proof (cases "ss_threads s t")
    case (A_Next cur)
    moreover from this have "cur \<in> set L" using i by (metis slab_pc_ok.simps(1))
    ultimately show ?thesis using i by (auto simp: nodes_ok_def)
  next
    case (A_Take n)
    then have "boxed (ss_cache s) \<longrightarrow> n \<in> sm_boxes (ss_cache s)" using i unfolding nodes_ok_def by (metis list.set_intros(1) pc_nodes.simps(5))
    with A_Take show ?thesis by auto
  qed (auto split: option.splits list.splits)
  ultimately show ?thesis by blast
qed

text \<open>The blocks that the first page is cut into.\<close>

lemma entries_16: "\<exists>ps. slab_entries 16 4096 = (4096 # ps) @ [8128, 8160]"
proof -
  have "[0..<128] = (0 # [1..<126]) @ [126, 127 :: nat]"
    using upt_add_eq_append [of 0 126 2] upt_rec [of 0 126] by (simp add: upt_rec [of 126 128] upt_rec [of 127 128] numeral_eq_Suc)
  then show ?thesis by (simp add: slab_entries_def entry_size_def PAGE_SIZE_MIN_def)
qed

lemma entries_2048: "slab_entries 2048 4096 = [4096, 6144]"
proof -
  have "[0..<2] = [0, 1 :: nat]" by (simp add: upt_rec)
  then show ?thesis by (simp add: slab_entries_def entry_size_def PAGE_SIZE_MIN_def)
qed

lemma run_first_alloc:
  "\<exists>c'. slab_reachable True 2048 (sys c' ((\<lambda>_. SIdle)(0 := A_Done 6144)) {} {4096})"
proof -
  have "slab_reachable True 2048 (sys (slab_new 2048) (\<lambda>_. SIdle) {} {})" using slab_reachable.start [of True 2048] by (simp add: slab_start_def)
  from slab_reachable.step [OF this slab_sys_step.call_alloc [of _ 0]] have "slab_reachable True 2048 (sys (slab_new 2048) ((\<lambda>_. SIdle)(0 := A_Load)) {} {})"
    by simp
  from run_expand [OF this, of 0 4096 4096 "[6144]"] entries_2048 obtain c' where
    c': "c' = (pushed_all (slab_new 2048) 1 [4096, 6144])\<lparr>sc_total_count := sc_total_count c'\<rparr>"
    "slab_reachable True 2048 (sys c' ((\<lambda>_. SIdle)(0 := A_Load)) {} {4096})" by (auto simp: slab_new_def PAGE_SIZE_MIN_def)
  have c: "boxed c'" "sm_boxes c' = {1, 2}" "sc_free_ptr c' = 2" "sm_elem c' 2 = 6144"
    by (subst c'(1); simp add: pushed_def boxed_def Let_def slab_new_def numeral_2_eq_2 insert_commute)+
  show ?thesis using run_pop [OF c'(2), of 0] c by (auto simp: node_elem_def)
qed

theorem slab_serial_safe_witness:
  "\<exists>s. slab_reachable True 2048 s \<and> ss_threads s 0 = A_Done 6144 \<and> 6144 \<notin> ss_used s \<and> 6144 \<in> slab_blocks s"
proof -
  from run_first_alloc obtain c' where "slab_reachable True 2048 (sys c' ((\<lambda>_. SIdle)(0 := A_Done 6144)) {} {4096})" by blast
  with slab_serial_safe [OF this, of 0 6144] show ?thesis by (intro exI conjI) auto
qed

text \<open>
  C21: two allocations at once hand out a block twice.  The free list of the 16-octet blocks has the ABA problem: the
  exchange of \<open>alloc\<close> compares only the head, and a block that was popped and pushed again in between
  makes it succeed with a link that is out of date.  A state is reachable in which a thread is about to return a
  block that is in use.
\<close>

theorem slab_hands_out_twice:
  "\<exists>s t p. slab_reachable False 16 s \<and> ss_threads s t = A_Done p \<and> p \<in> ss_used s"
proof -
  let ?T = "(\<lambda>_. SIdle)(0 := A_Load)"
  obtain ps where ps: "slab_entries 16 4096 = 4096 # (ps @ [8128, 8160])" using entries_16 by auto
  have "slab_reachable False 16 (sys (slab_new 16) (\<lambda>_. SIdle) {} {})" using slab_reachable.start [of False 16] by (simp add: slab_start_def)
  then have "slab_reachable False 16 (sys (slab_new 16) ?T {} {})" by (rule run_call_alloc) simp
  from run_expand [OF this, of 0 4096] ps obtain c' where
    c': "c' = (pushed_all (slab_new 16) 1 ((4096 # ps) @ [8128, 8160]))\<lparr>sc_total_count := sc_total_count c'\<rparr>"
    "slab_reachable False 16 (sys c' ?T {} {4096})" by (auto simp: slab_new_def PAGE_SIZE_MIN_def)
  obtain d b where d: "c' = (pushed (pushed d b 8128) (Suc b) 8160)\<lparr>sc_total_count := sc_total_count c'\<rparr>" "\<not> boxed d" "sm_boxes d = {}"
    using c'(1) pushed_all_unboxed [of "slab_new 16" 1 "4096 # ps"] unfolding pushed_all_append by (auto simp: slab_new_def boxed_def)
  have "\<not> boxed c'" "sm_boxes c' = {}" "sc_free_ptr c' = 8160" "sm_next c' 8160 = 8128"
    using d(2,3) by (subst d(1), simp add: pushed_def boxed_def Let_def)+
  from aba_run [OF c'(2) _ _ this] obtain c'' where "slab_reachable False 16 (sys c'' (?T(0 := SIdle, 1 := A_Done 8128)) {8160, 8128} {4096})" by auto
  then show ?thesis by (intro exI [of _ "sys c'' (?T(0 := SIdle, 1 := A_Done 8128)) {8160, 8128} {4096}"] exI [of _ 1] exI [of _ 8128]) simp
qed

text \<open>
  Two allocations at once read a box that was dropped.  For larger blocks the node of the free list is a box
  which \<open>alloc\<close> drops; a second \<open>alloc\<close> that has read the same head reads its link afterwards.
\<close>

theorem slab_reads_dropped_box:
  "\<exists>s t e. slab_reachable False 2048 s \<and> slab_step e (ss_cache s) (ss_threads s t) = UB DanglingRef"
proof -
  let ?T = "(\<lambda>_. SIdle)(0 := A_Load)"
  have "slab_reachable False 2048 (sys (slab_new 2048) (\<lambda>_. SIdle) {} {})" using slab_reachable.start [of False 2048] by (simp add: slab_start_def)
  then have "slab_reachable False 2048 (sys (slab_new 2048) ?T {} {})" by (rule run_call_alloc) simp
  from run_expand [OF this, of 0 4096 4096 "[6144]"] entries_2048 obtain c' where
    c': "c' = (pushed_all (slab_new 2048) 1 [4096, 6144])\<lparr>sc_total_count := sc_total_count c'\<rparr>"
    "slab_reachable False 2048 (sys c' ?T {} {4096})" by (auto simp: slab_new_def PAGE_SIZE_MIN_def)
  have c: "boxed c'" "sm_boxes c' = {1, 2}" "sc_free_ptr c' = 2"
    by (subst c'(1); simp add: pushed_def boxed_def Let_def slab_new_def numeral_2_eq_2 insert_commute)+
  have 1: "slab_reachable False 2048 (sys c' ((\<lambda>_. SIdle)(0 := A_Next 2)) {} {4096})" using run_load [OF c'(2), of 0] c by simp
  have "slab_reachable False 2048 (sys (popped c') ((\<lambda>_. SIdle)(0 := A_Next 2, 1 := A_Done (node_elem c' 2))) {} {4096})"
    using run_pop [OF run_call_alloc [OF 1, of 1], of 1] c by simp
  moreover have "slab_step e (popped c') (A_Next 2) = UB DanglingRef" for e using c by (simp add: popped_def boxed_def)
  ultimately show ?thesis
    by (intro exI [of _ "sys (popped c') ((\<lambda>_. SIdle)(0 := A_Next 2, 1 := A_Done (node_elem c' 2))) {} {4096}"] exI [of _ 0]) simp
qed

text \<open>
  C22: a block fits its layout.  The cache that serves a layout has blocks of at least its size; every block lies in its
  page, two blocks of a page do not overlap, and the address has the alignment of the layout.
\<close>

theorem slab_block_fits:
  assumes "slab_for size' align = Some bs" "align = 2 ^ k" "PAGE_SIZE_MIN dvd page" "p \<in> set (slab_entries bs page)"
  shows "size' \<le> bs \<and> align dvd p \<and> page \<le> p \<and> p + bs \<le> page + PAGE_SIZE_MIN \<and>
    (\<forall>q\<in>set (slab_entries bs page). q \<noteq> p \<longrightarrow> p + bs \<le> q \<or> q + bs \<le> p)"
proof -
  let ?e = "entry_size bs"
  from assms(1) have "max size' align \<le> bs \<and> bs \<in> set SLABS"
    unfolding slab_for_def Let_def by (metis find_Some_iff nth_mem option.distinct(1))
  then have bs: "max size' align \<le> bs" "bs \<in> set SLABS" by blast+
  then obtain m where m: "?e = 2 ^ m" "m \<le> 12" "bs \<le> ?e"
    by (auto simp: SLABS_def entry_size_def intro: that [of 5] that [of 6] that [of 7] that [of 8] that [of 9] that [of 10] that [of 11])
  have "align \<le> ?e" using bs(1) m(3) by simp
  then have "k \<le> m" using assms(2) m(1) by simp
  then have ae: "align dvd ?e" using assms(2) m(1) by (simp add: le_imp_power_dvd)
  moreover have "?e dvd PAGE_SIZE_MIN" using m(1,2) le_imp_power_dvd [of m 12 "2::nat"] by (simp add: PAGE_SIZE_MIN_def)
  ultimately have ap: "align dvd page" using assms(3) by (meson dvd_trans)
  from slab_entry [OF assms(4)] obtain j where j: "p = page + j * ?e" "Suc j * ?e \<le> PAGE_SIZE_MIN" by blast
  have "p + bs \<le> q \<or> q + bs \<le> p" if "q \<in> set (slab_entries bs page)" "q \<noteq> p" for q
  proof -
    from slab_entry [OF that(1)] obtain l where l: "q = page + l * ?e" by blast
    with that(2) j(1) have "Suc j \<le> l \<or> Suc l \<le> j" by (cases j l rule: linorder_cases) auto
    then have "Suc j * ?e \<le> l * ?e \<or> Suc l * ?e \<le> j * ?e" using mult_le_mono1 by blast
    with j(1) l m(3) show ?thesis by auto
  qed
  then show ?thesis using bs j m(3) ae ap by auto
qed

theorem slab_block_fits_witness: "slab_for 40 8 = Some 64 \<and> (8::nat) dvd 4160 \<and> 4160 + 64 \<le> (4096::nat) + PAGE_SIZE_MIN"
proof -
  have "slab_for 40 8 = Some 64" by (simp add: slab_for_def SLABS_def)
  moreover have "4160 \<in> set (slab_entries 64 4096)" by (force simp: slab_entries_def entry_size_def PAGE_SIZE_MIN_def image_iff intro!: bexI [of _ 1])
  moreover have "(8::nat) = 2 ^ 3" "PAGE_SIZE_MIN dvd 4096" by (simp_all add: PAGE_SIZE_MIN_def)
  ultimately show ?thesis using slab_block_fits [of 40 8 64 3 4096 4160] by blast
qed

end
