(* ===== verification/HidReport.thy ===== *)
theory HidReport
  imports Prelude
begin

text \<open>
  Report descriptors of input devices: the items of src/lib/megstd/src/io/hid.rs and their parser
  \<open>HidParsedReport::parse\<close> in src/system/src/io/hid_mgr.rs.  A descriptor comes from the device, so every byte string
  has to be expected.  \<open>todo!()\<close> is a panic.
\<close>

section \<open>Values and flags\<close>

text \<open>\<open>HidReportValue\<close>: the parameter of an item, by its width.\<close>

datatype hid_value = HZero | X8 u8 | X16 u16 | X32 u32

fun hv_as_usize :: "hid_value \<Rightarrow> nat" where
  "hv_as_usize HZero = 0"
| "hv_as_usize (X8 v) = unat v"
| "hv_as_usize (X16 v) = unat v"
| "hv_as_usize (X32 v) = unat v"

fun hv_as_isize :: "hid_value \<Rightarrow> int" where
  "hv_as_isize HZero = 0"
| "hv_as_isize (X8 v) = sint v"
| "hv_as_isize (X16 v) = sint v"
| "hv_as_isize (X32 v) = sint v"

definition hv_as_u32 :: "hid_value \<Rightarrow> u32" where
  "hv_as_u32 v = word_of_nat (hv_as_usize v)"

definition hv_u8 :: "hid_value \<Rightarrow> u8" where
  "hv_u8 v = word_of_nat (hv_as_usize v)"

definition hv_u16 :: "hid_value \<Rightarrow> u16" where
  "hv_u16 v = word_of_nat (hv_as_usize v)"

definition FLAG_CONSTANT :: u32 where "FLAG_CONSTANT = 0x0001"
definition FLAG_VARIABLE :: u32 where "FLAG_VARIABLE = 0x0002"
definition FLAG_RELATIVE :: u32 where "FLAG_RELATIVE = 0x0004"

definition flag_contains :: "u32 \<Rightarrow> u32 \<Rightarrow> bool" where
  "flag_contains f other \<longleftrightarrow> f AND other = other"

text \<open>A usage is its page and its number; the pages the driver asks for.\<close>

definition hid_usage_new :: "u16 \<Rightarrow> u16 \<Rightarrow> u32" where
  "hid_usage_new page usage = ucast usage + ucast page * 0x10000"

definition usage_page_of :: "u32 \<Rightarrow> u16" where
  "usage_page_of u = ucast (drop_bit 16 u)"

definition usage_id_of :: "u32 \<Rightarrow> u16" where
  "usage_id_of u = ucast (u AND 0xFFFF)"

definition PAGE_GENERIC_DESKTOP :: u16 where "PAGE_GENERIC_DESKTOP = 0x0001"
definition PAGE_KEYBOARD :: u16 where "PAGE_KEYBOARD = 0x0007"
definition PAGE_BUTTON :: u16 where "PAGE_BUTTON = 0x0009"
definition PAGE_CONSUMER :: u16 where "PAGE_CONSUMER = 0x000C"


section \<open>Items\<close>

text \<open>\<open>HidReportItemTag\<close> with its codes.\<close>

datatype hid_tag =
    Input | Output | Feature | Collection | EndCollection
  | UsagePage | LogicalMinimum | LogicalMaximum | PhysicalMinimum | PhysicalMaximum | UnitExponent | HidUnit
  | ReportSize | ReportId | ReportCount | Push | Pop
  | HidUsage | UsageMinimum | UsageMaximum | DesignatorIndex | DesignatorMinimum | DesignatorMaximum
  | StringIndex | StringMinimum | StringMaximum | Delimiter

fun tag_code :: "hid_tag \<Rightarrow> u8" where
  "tag_code Input = 0x80"
| "tag_code Output = 0x90"
| "tag_code Feature = 0xB0"
| "tag_code Collection = 0xA0"
| "tag_code EndCollection = 0xC0"
| "tag_code UsagePage = 0x04"
| "tag_code LogicalMinimum = 0x14"
| "tag_code LogicalMaximum = 0x24"
| "tag_code PhysicalMinimum = 0x34"
| "tag_code PhysicalMaximum = 0x44"
| "tag_code UnitExponent = 0x54"
| "tag_code HidUnit = 0x64"
| "tag_code ReportSize = 0x74"
| "tag_code ReportId = 0x84"
| "tag_code ReportCount = 0x94"
| "tag_code Push = 0xA4"
| "tag_code Pop = 0xB4"
| "tag_code HidUsage = 0x08"
| "tag_code UsageMinimum = 0x18"
| "tag_code UsageMaximum = 0x28"
| "tag_code DesignatorIndex = 0x38"
| "tag_code DesignatorMinimum = 0x48"
| "tag_code DesignatorMaximum = 0x58"
| "tag_code StringIndex = 0x78"
| "tag_code StringMinimum = 0x88"
| "tag_code StringMaximum = 0x98"
| "tag_code Delimiter = 0xA8"

definition hid_tags :: "hid_tag list" where
  "hid_tags = [Input, Output, Feature, Collection, EndCollection, UsagePage, LogicalMinimum, LogicalMaximum,
     PhysicalMinimum, PhysicalMaximum, UnitExponent, HidUnit, ReportSize, ReportId, ReportCount, Push, Pop, HidUsage,
     UsageMinimum, UsageMaximum, DesignatorIndex, DesignatorMinimum, DesignatorMaximum, StringIndex, StringMinimum,
     StringMaximum, Delimiter]"

definition item_tag :: "u8 \<Rightarrow> hid_tag option" where
  "item_tag lead = List.find (\<lambda>t. tag_code t = lead AND 0xFC) hid_tags"

definition is_long_item :: "u8 \<Rightarrow> bool" where
  "is_long_item lead \<longleftrightarrow> lead = 0xFE"

datatype collection_type =
    CPhysical | CApplication | CLogical | CReport | CNamedArray | CUsageSwitch | CUsageModifier

definition collection_types :: "collection_type list" where
  "collection_types = [CPhysical, CApplication, CLogical, CReport, CNamedArray, CUsageSwitch, CUsageModifier]"

definition collection_from_usize :: "nat \<Rightarrow> collection_type option" where
  "collection_from_usize n = get_at collection_types n"


section \<open>The reader of a descriptor\<close>

text \<open>\<open>HidReporteReader\<close>: a position in the bytes.  A read that fails may have moved the position.\<close>

type_synonym 'a hid_read = "nat \<Rightarrow> 'a option \<times> nat"

definition hr_bind :: "'a hid_read \<Rightarrow> ('a \<Rightarrow> 'b hid_read) \<Rightarrow> 'b hid_read" where
  "hr_bind m f i = (case m i of (None, i') \<Rightarrow> (None, i') | (Some x, i') \<Rightarrow> f x i')"

definition hr_some :: "'a \<Rightarrow> 'a hid_read" where
  "hr_some x i = (Some x, i)"

definition hr_next :: "u8 list \<Rightarrow> u8 hid_read" where
  "hr_next data i = (if i < length data then (Some (data ! i), i + 1) else (None, i))"

definition hr_next_u16 :: "u8 list \<Rightarrow> u16 hid_read" where
  "hr_next_u16 data =
     hr_bind (hr_next data) (\<lambda>b1. hr_bind (hr_next data) (\<lambda>b2. hr_some (ucast b1 + ucast b2 * 0x100)))"

definition hr_next_u32 :: "u8 list \<Rightarrow> u32 hid_read" where
  "hr_next_u32 data =
     hr_bind (hr_next data) (\<lambda>b1. hr_bind (hr_next data) (\<lambda>b2.
     hr_bind (hr_next data) (\<lambda>b3. hr_bind (hr_next data) (\<lambda>b4.
       hr_some (ucast b1 + ucast b2 * 0x100 + ucast b3 * 0x10000 + ucast b4 * 0x1000000)))))"

text \<open>\<open>Iterator::advance_by\<close>: \<open>next\<close> as often as asked.\<close>

fun hr_advance_by :: "u8 list \<Rightarrow> nat \<Rightarrow> unit hid_read" where
  "hr_advance_by data 0 = hr_some ()"
| "hr_advance_by data (Suc n) = hr_bind (hr_next data) (\<lambda>_. hr_advance_by data n)"

text \<open>The width of the parameter is in the low two bits of the lead byte.\<close>

definition read_param :: "u8 list \<Rightarrow> u8 \<Rightarrow> hid_value hid_read" where
  "read_param data lead =
     (if lead AND 3 = 0 then hr_some HZero
      else if lead AND 3 = 1 then hr_bind (hr_next data) (\<lambda>v. hr_some (X8 v))
      else if lead AND 3 = 2 then hr_bind (hr_next_u16 data) (\<lambda>v. hr_some (X16 v))
      else hr_bind (hr_next_u32 data) (\<lambda>v. hr_some (X32 v)))"

text \<open>The item behind a lead byte; \<open>None\<close> ends the parser with the position.\<close>

definition hr_item :: "u8 list \<Rightarrow> u8 \<Rightarrow> (hid_tag \<times> hid_value) hid_read" where
  "hr_item data lead =
     (if is_long_item lead then
        hr_bind (hr_next data) (\<lambda>len. hr_bind (hr_next data) (\<lambda>lead.
        hr_bind (hr_advance_by data (unat len)) (\<lambda>_ i.
          case item_tag lead of None \<Rightarrow> (None, i) | Some tag \<Rightarrow> (Some (tag, HZero), i))))
      else
        (\<lambda>i. case item_tag lead of
           None \<Rightarrow> (None, i)
         | Some tag \<Rightarrow> hr_bind (read_param data lead) (\<lambda>param. hr_some (tag, param)) i))"


section \<open>What the parser builds\<close>

record main_item =
  mi_flags :: u32
  mi_report_size :: u8
  mi_report_count :: u8
  mi_usage_min :: u32
  mi_usage_max :: u32
  mi_logical_min :: u32
  mi_logical_max :: u32
  mi_physical_min :: u32
  mi_physical_max :: u32

datatype report_entry =
    EInput main_item | EOutput main_item | EFeature main_item
  | ECollection collection_type | EEndCollection collection_type

record report_app =
  ra_report_id :: "u8 option"
  ra_usage :: u32
  ra_entries :: "report_entry list"

definition app_empty :: report_app where
  "app_empty = \<lparr>ra_report_id = None, ra_usage = 0, ra_entries = []\<rparr>"

definition app_clear_stream :: "report_app \<Rightarrow> report_app" where
  "app_clear_stream a = a\<lparr>ra_entries := []\<rparr>"

definition app_clear :: "report_app \<Rightarrow> report_app" where
  "app_clear a = app_clear_stream (a\<lparr>ra_report_id := None, ra_usage := 0\<rparr>)"

record hid_parsed =
  hp_report_ids :: "u8 list"
  hp_primary :: "report_app option"
  hp_tagged :: "u8 \<Rightarrow> report_app option"

definition parsed_new :: hid_parsed where
  "parsed_new = \<lparr>hp_report_ids = [], hp_primary = None, hp_tagged = Map.empty\<rparr>"

definition has_report_id :: "hid_parsed \<Rightarrow> bool" where
  "has_report_id p \<longleftrightarrow> 0 < length (hp_report_ids p)"

definition initial_bit_position :: "hid_parsed \<Rightarrow> nat" where
  "initial_bit_position p = (if has_report_id p then 8 else 0)"

text \<open>Bits of an item and of an application.\<close>

definition item_bit_count :: "main_item \<Rightarrow> nat" where
  "item_bit_count v = unat (mi_report_size v) * unat (mi_report_count v)"

fun entry_bit_count :: "report_entry \<Rightarrow> nat" where
  "entry_bit_count (EInput v) = item_bit_count v"
| "entry_bit_count (EOutput v) = item_bit_count v"
| "entry_bit_count (EFeature v) = item_bit_count v"
| "entry_bit_count (ECollection c) = 0"
| "entry_bit_count (EEndCollection c) = 0"

definition app_bit_count :: "(report_entry \<Rightarrow> bool) \<Rightarrow> report_app \<Rightarrow> nat" where
  "app_bit_count predicate a = foldl (\<lambda>acc v. usize_add acc (entry_bit_count v)) 0 (filter predicate (ra_entries a))"

fun is_input :: "report_entry \<Rightarrow> bool" where
  "is_input (EInput v) = True"
| "is_input _ = False"

fun is_output :: "report_entry \<Rightarrow> bool" where
  "is_output (EOutput v) = True"
| "is_output _ = False"

fun is_feature :: "report_entry \<Rightarrow> bool" where
  "is_feature (EFeature v) = True"
| "is_feature _ = False"

definition bit_count_for_input :: "report_app \<Rightarrow> nat" where
  "bit_count_for_input = app_bit_count is_input"

definition bit_count_for_output :: "report_app \<Rightarrow> nat" where
  "bit_count_for_output = app_bit_count is_output"

definition bit_count_for_feature :: "report_app \<Rightarrow> nat" where
  "bit_count_for_feature = app_bit_count is_feature"

definition input_items :: "report_app \<Rightarrow> main_item list" where
  "input_items a = List.map_filter (\<lambda>v. case v of EInput v \<Rightarrow> Some v | _ \<Rightarrow> None) (ra_entries a)"


section \<open>The state of the parser\<close>

record hid_global =
  hg_usage_page :: u16
  hg_logical_minimum :: hid_value
  hg_logical_maximum :: hid_value
  hg_physical_minimum :: hid_value
  hg_physical_maximum :: hid_value
  hg_unit_exponent :: int
  hg_unit :: nat
  hg_report_size :: nat
  hg_report_count :: nat
  hg_report_id :: "u8 option"

definition hid_global_new :: hid_global where
  "hid_global_new = \<lparr>hg_usage_page = 0, hg_logical_minimum = HZero, hg_logical_maximum = HZero, hg_physical_minimum = HZero,
     hg_physical_maximum = HZero, hg_unit_exponent = 0, hg_unit = 0, hg_report_size = 0, hg_report_count = 0,
     hg_report_id = None\<rparr>"

record hid_local =
  hl_usage :: "u32 list"
  hl_usage_minimum :: u32
  hl_usage_maximum :: u32
  hl_delimiter :: nat

definition local_new :: hid_local where
  "local_new = \<lparr>hl_usage = [], hl_usage_minimum = 0, hl_usage_maximum = 0, hl_delimiter = 0\<rparr>"

text \<open>A limit of an item: with its sign when the item is relative.\<close>

definition limit_of :: "u32 \<Rightarrow> hid_value \<Rightarrow> u32" where
  "limit_of flag v = (if flag_contains flag FLAG_RELATIVE then word_of_int (hv_as_isize v) else hv_as_u32 v)"

text \<open>A usage without a page gets the page of the global state.\<close>

definition main_item_usages :: "u32 \<Rightarrow> hid_global \<Rightarrow> hid_local \<Rightarrow> u32 option \<Rightarrow> u32 \<times> u32" where
  "main_item_usages flag g l usage =
     (if flag_contains flag FLAG_CONSTANT then (0, 0)
      else
        let (usage_min, usage_max) = (case usage of Some u \<Rightarrow> (u, 0) | None \<Rightarrow> (hl_usage_minimum l, hl_usage_maximum l)) in
        (if usage_min < 0x10000 then hid_usage_new (hg_usage_page g) (ucast usage_min) else usage_min,
         if usage_min < 0x10000 then hid_usage_new (hg_usage_page g) (ucast usage_max) else usage_max))"

definition main_item_new :: "u32 \<Rightarrow> hid_global \<Rightarrow> hid_local \<Rightarrow> u32 option \<Rightarrow> nat \<Rightarrow> main_item" where
  "main_item_new flag g l usage report_count =
     (let (usage_min, usage_max) = main_item_usages flag g l usage in
      \<lparr>mi_flags = flag, mi_report_size = word_of_nat (hg_report_size g),
       mi_report_count = word_of_nat (if 0 < report_count then report_count else hg_report_count g),
       mi_usage_min = usage_min, mi_usage_max = usage_max,
       mi_logical_min = limit_of flag (hg_logical_minimum g), mi_logical_max = limit_of flag (hg_logical_maximum g),
       mi_physical_min = limit_of flag (hg_physical_minimum g), mi_physical_max = limit_of flag (hg_physical_maximum g)\<rparr>)"

fun from_item :: "main_item \<Rightarrow> hid_tag \<Rightarrow> report_entry option" where
  "from_item item Input = Some (EInput item)"
| "from_item item Output = Some (EOutput item)"
| "from_item item Feature = Some (EFeature item)"
| "from_item item _ = None"

text \<open>\<open>ParsedReportMainItem::parse\<close>: the entries that a main item adds, one for each usage or one for the range.\<close>

definition main_item_parse :: "hid_tag \<Rightarrow> u32 \<Rightarrow> hid_global \<Rightarrow> hid_local \<Rightarrow> report_entry list" where
  "main_item_parse tag flag g l =
     (if 0 < length (hl_usage l) then
        let report_count = hg_report_count g div length (hl_usage l) in
        List.map_filter (\<lambda>usage. from_item (main_item_new flag g l (Some usage) report_count) tag) (hl_usage l)
      else List.map_filter (\<lambda>item. from_item item tag) [main_item_new flag g l None 0])"

record hid_state =
  hs_report :: hid_parsed
  hs_app :: report_app
  hs_ctx :: "collection_type list"
  hs_stack :: "hid_global list"
  hs_global :: hid_global
  hs_local :: hid_local

definition hid_state_new :: hid_state where
  "hid_state_new = \<lparr>hs_report = parsed_new, hs_app = app_empty, hs_ctx = [], hs_stack = [], hs_global = hid_global_new, hs_local = local_new\<rparr>"

text \<open>The application is stored under its report id, or as the primary one.\<close>

definition store_app :: "hid_state \<Rightarrow> hid_state" where
  "store_app s =
     s\<lparr>hs_report := (case ra_report_id (hs_app s) of
         Some report_id \<Rightarrow> (hs_report s)\<lparr>hp_tagged := (hp_tagged (hs_report s))(report_id \<mapsto> hs_app s)\<rparr>
       | None \<Rightarrow> (hs_report s)\<lparr>hp_primary := Some (hs_app s)\<rparr>)\<rparr>"

definition add_entries :: "report_entry list \<Rightarrow> hid_state \<Rightarrow> hid_state" where
  "add_entries es s = s\<lparr>hs_app := (hs_app s)\<lparr>ra_entries := ra_entries (hs_app s) @ es\<rparr>\<rparr>"

definition reset_local :: "hid_state \<Rightarrow> hid_state" where
  "reset_local s = s\<lparr>hs_local := local_new\<rparr>"

definition main_entries :: "hid_tag \<Rightarrow> hid_value \<Rightarrow> hid_state \<Rightarrow> hid_state" where
  "main_entries tag param s =
     reset_local (add_entries (main_item_parse tag (hv_as_u32 param) (hs_global s) (hs_local s)) s)"

definition open_collection :: "hid_value \<Rightarrow> hid_state \<Rightarrow> (unit, hid_state) outcome" where
  "open_collection param s =
     (case collection_from_usize (hv_as_usize param) of
        None \<Rightarrow> Panic
      | Some ct \<Rightarrow>
          let s = s\<lparr>hs_ctx := ct # hs_ctx s\<rparr> in
          Ok (reset_local
            (if ct = CApplication then
               let s = (if CApplication \<in> set (hs_ctx s) then store_app s else s);
                   usage = (case hl_usage (hs_local s) of [] \<Rightarrow> 0 | u # us \<Rightarrow> u) in
               s\<lparr>hs_app := (app_clear_stream (hs_app s))\<lparr>ra_usage :=
                   (if usage < 0x10000 then hid_usage_new (hg_usage_page (hs_global s)) (ucast usage) else usage)\<rparr>\<rparr>
             else add_entries [ECollection ct] s)))"

definition close_collection :: "hid_state \<Rightarrow> (unit, hid_state) outcome" where
  "close_collection s =
     (case hs_ctx s of
        [] \<Rightarrow> Err ()
      | ct # ctx \<Rightarrow>
          let s = s\<lparr>hs_ctx := ctx\<rparr> in
          Ok (reset_local
            (if ct = CApplication then let s = store_app s in s\<lparr>hs_app := app_clear (hs_app s)\<rparr>
             else add_entries [EEndCollection ct] s)))"

definition set_report_id :: "u8 \<Rightarrow> hid_state \<Rightarrow> hid_state" where
  "set_report_id report_id s =
     (if report_id = 0 then s
      else
        s\<lparr>hs_report := (if report_id \<in> set (hp_report_ids (hs_report s)) then hs_report s
            else (hs_report s)\<lparr>hp_report_ids := hp_report_ids (hs_report s) @ [report_id]\<rparr>),
          hs_app := (hs_app s)\<lparr>ra_report_id := Some report_id\<rparr>,
          hs_global := (hs_global s)\<lparr>hg_report_id := Some report_id\<rparr>\<rparr>)"

text \<open>What an item does; an error is returned with the position of the reader.\<close>

fun hid_exec :: "hid_tag \<Rightarrow> hid_value \<Rightarrow> hid_state \<Rightarrow> (unit, hid_state) outcome" where
  "hid_exec Input param s = Ok (main_entries Input param s)"
| "hid_exec Output param s = Ok (main_entries Output param s)"
| "hid_exec Feature param s = Ok (main_entries Feature param s)"
| "hid_exec Collection param s = open_collection param s"
| "hid_exec EndCollection param s = close_collection s"
| "hid_exec UsagePage param s = Ok (s\<lparr>hs_global := (hs_global s)\<lparr>hg_usage_page := hv_u16 param\<rparr>\<rparr>)"
| "hid_exec LogicalMinimum param s = Ok (s\<lparr>hs_global := (hs_global s)\<lparr>hg_logical_minimum := param\<rparr>\<rparr>)"
| "hid_exec LogicalMaximum param s = Ok (s\<lparr>hs_global := (hs_global s)\<lparr>hg_logical_maximum := param\<rparr>\<rparr>)"
| "hid_exec PhysicalMinimum param s = Ok (s\<lparr>hs_global := (hs_global s)\<lparr>hg_physical_minimum := param\<rparr>\<rparr>)"
| "hid_exec PhysicalMaximum param s = Ok (s\<lparr>hs_global := (hs_global s)\<lparr>hg_physical_maximum := param\<rparr>\<rparr>)"
| "hid_exec UnitExponent param s = Ok (s\<lparr>hs_global := (hs_global s)\<lparr>hg_unit_exponent := hv_as_isize param\<rparr>\<rparr>)"
| "hid_exec HidUnit param s = Ok (s\<lparr>hs_global := (hs_global s)\<lparr>hg_unit := hv_as_usize param\<rparr>\<rparr>)"
| "hid_exec ReportSize param s = Ok (s\<lparr>hs_global := (hs_global s)\<lparr>hg_report_size := hv_as_usize param\<rparr>\<rparr>)"
| "hid_exec ReportId param s = Ok (set_report_id (hv_u8 param) s)"
| "hid_exec ReportCount param s = Ok (s\<lparr>hs_global := (hs_global s)\<lparr>hg_report_count := hv_as_usize param\<rparr>\<rparr>)"
| "hid_exec Push param s = Ok (s\<lparr>hs_stack := hs_global s # hs_stack s\<rparr>)"
| "hid_exec Pop param s = (case hs_stack s of [] \<Rightarrow> Err () | g # st \<Rightarrow> Ok (s\<lparr>hs_global := g, hs_stack := st\<rparr>))"
| "hid_exec HidUsage param s = Ok (s\<lparr>hs_local := (hs_local s)\<lparr>hl_usage := hl_usage (hs_local s) @ [hv_as_u32 param]\<rparr>\<rparr>)"
| "hid_exec UsageMinimum param s = Ok (s\<lparr>hs_local := (hs_local s)\<lparr>hl_usage_minimum := hv_as_u32 param\<rparr>\<rparr>)"
| "hid_exec UsageMaximum param s = Ok (s\<lparr>hs_local := (hs_local s)\<lparr>hl_usage_maximum := hv_as_u32 param\<rparr>\<rparr>)"
| "hid_exec DesignatorIndex param s = Panic"
| "hid_exec DesignatorMinimum param s = Panic"
| "hid_exec DesignatorMaximum param s = Panic"
| "hid_exec StringIndex param s = Panic"
| "hid_exec StringMinimum param s = Panic"
| "hid_exec StringMaximum param s = Panic"
| "hid_exec Delimiter param s = Panic"


section \<open>The parser\<close>

text \<open>A reader never moves backwards, which is the termination of the loop.\<close>

lemma hr_next_mono: "hr_next data i = (r, i') \<Longrightarrow> i \<le> i'"
  by (auto simp: hr_next_def split: if_splits)

lemma hr_bind_mono:
  "hr_bind m f i = (r, i') \<Longrightarrow> (\<And>r i'. m i = (r, i') \<Longrightarrow> i \<le> i') \<Longrightarrow> (\<And>x j r i'. f x j = (r, i') \<Longrightarrow> j \<le> i') \<Longrightarrow> i \<le> i'"
  by (auto simp: hr_bind_def split: prod.splits option.splits) (metis order_trans)+

lemma hr_some_mono: "hr_some x i = (r, i') \<Longrightarrow> i \<le> i'"
  by (simp add: hr_some_def)

lemma hr_advance_by_mono: "hr_advance_by data n i = (r, i') \<Longrightarrow> i \<le> i'"
proof (induction n arbitrary: i r i')
  case 0
  then show ?case by (simp add: hr_some_mono)
next
  case (Suc n)
  then show ?case by (auto elim!: hr_bind_mono dest: hr_next_mono)
qed

lemma read_param_mono: "read_param data lead i = (r, i') \<Longrightarrow> i \<le> i'"
  unfolding read_param_def hr_next_u16_def hr_next_u32_def
  by (auto simp: hr_some_mono elim!: hr_bind_mono dest: hr_next_mono hr_some_mono split: if_splits)

lemma hr_item_mono: "hr_item data lead i = (r, i') \<Longrightarrow> i \<le> i'"
  unfolding hr_item_def
  by (auto elim!: hr_bind_mono dest: hr_next_mono hr_advance_by_mono read_param_mono hr_some_mono split: if_splits option.splits)

function hid_parse_loop :: "u8 list \<Rightarrow> nat \<Rightarrow> hid_state \<Rightarrow> (nat, hid_parsed) outcome" where
  "hid_parse_loop data i s =
     (case hr_next data i of
        (None, _) \<Rightarrow> Ok (hs_report s)
      | (Some lead, i) \<Rightarrow>
          (case hr_item data lead i of
             (None, i) \<Rightarrow> Err i
           | (Some (tag, param), i) \<Rightarrow> and_then (map_err (\<lambda>_. i) (hid_exec tag param s)) (hid_parse_loop data i)))"
  by pat_completeness auto
termination
  by (relation "measure (\<lambda>(data, i, s). length data - i)")
    (auto simp: hr_next_def split: if_splits dest!: hr_item_mono [OF sym])

declare hid_parse_loop.simps [simp del]

definition hid_parse :: "u8 list \<Rightarrow> (nat, hid_parsed) outcome" where
  "hid_parse report_desc = hid_parse_loop report_desc 0 hid_state_new"

end
