(* ===== verification/HidReportSafety.thy ===== *)
theory HidReportSafety
  imports HidReport
begin

text \<open>
  What the parser of report descriptors does on any bytes: where it stops, when it panics, what it keeps of the
  report ids, and that it runs the items a descriptor encodes in their order.
\<close>

section \<open>The reader\<close>

lemma hr_bind_fail:
  "hr_bind m f i = (None, i') \<longleftrightarrow> m i = (None, i') \<or> (\<exists>x j. m i = (Some x, j) \<and> f x j = (None, i'))"
  by (auto simp: hr_bind_def split: prod.splits option.splits)

lemma hr_bind_done:
  "hr_bind m f i = (Some y, i') \<longleftrightarrow> (\<exists>x j. m i = (Some x, j) \<and> f x j = (Some y, i'))"
  by (auto simp: hr_bind_def split: prod.splits option.splits)

lemma hr_next_within: "hr_next data i = (r, i') \<Longrightarrow> i \<le> length data \<Longrightarrow> i' \<le> length data"
  by (auto simp: hr_next_def split: if_splits)

lemma hr_some_within: "hr_some x i = (r, i') \<Longrightarrow> i \<le> n \<Longrightarrow> i' \<le> n"
  by (simp add: hr_some_def)

lemma hr_bind_within:
  "hr_bind m f i = (r, i') \<Longrightarrow> i \<le> n \<Longrightarrow> (\<And>r i'. m i = (r, i') \<Longrightarrow> i' \<le> n) \<Longrightarrow>
     (\<And>x j r i'. f x j = (r, i') \<Longrightarrow> j \<le> n \<Longrightarrow> i' \<le> n) \<Longrightarrow> i' \<le> n"
  by (auto simp: hr_bind_def split: prod.splits option.splits)

lemma hr_advance_by_within: "hr_advance_by data n i = (r, i') \<Longrightarrow> i \<le> length data \<Longrightarrow> i' \<le> length data"
proof (induction n arbitrary: i r i')
  case 0
  then show ?case by (simp add: hr_some_within)
next
  case (Suc n)
  from Suc.prems show ?case by (auto elim!: hr_bind_within intro: hr_next_within Suc.IH)
qed

lemma read_param_within: "read_param data lead i = (r, i') \<Longrightarrow> i \<le> length data \<Longrightarrow> i' \<le> length data"
  unfolding read_param_def hr_next_u16_def hr_next_u32_def
  by (auto elim!: hr_bind_within intro: hr_next_within hr_some_within split: if_splits)

lemma hr_item_within: "hr_item data lead i = (r, i') \<Longrightarrow> i \<le> length data \<Longrightarrow> i' \<le> length data"
  unfolding hr_item_def
  by (auto elim!: hr_bind_within intro: hr_next_within hr_some_within hr_advance_by_within read_param_within
      split: if_splits option.splits)

text \<open>One round of the loop.\<close>

lemma parse_loop_end: "length data \<le> i \<Longrightarrow> hid_parse_loop data i s = Ok (hs_report s)"
  by (subst hid_parse_loop.simps) (simp add: hr_next_def)

lemma parse_loop_round:
  "i < length data \<Longrightarrow> hid_parse_loop data i s =
     (case hr_item data (data ! i) (Suc i) of
        (None, i') \<Rightarrow> Err i'
      | (Some (tag, param), i') \<Rightarrow> and_then (map_err (\<lambda>_. i') (hid_exec tag param s)) (hid_parse_loop data i'))"
  by (subst hid_parse_loop.simps) (simp add: hr_next_def)

text \<open>Induction over the rounds, with the result of the loop.\<close>

lemma hid_loop_induct [case_names finish fail item]:
  assumes finish: "\<And>i s. length data \<le> i \<Longrightarrow> P i s (Ok (hs_report s))"
    and fail: "\<And>i i' s. i < length data \<Longrightarrow> hr_item data (data ! i) (Suc i) = (None, i') \<Longrightarrow> P i s (Err i')"
    and item: "\<And>i i' tag param s. i < length data \<Longrightarrow> i < i' \<Longrightarrow> hr_item data (data ! i) (Suc i) = (Some (tag, param), i') \<Longrightarrow>
      (\<And>s'. hid_exec tag param s = Ok s' \<Longrightarrow> P i' s' (hid_parse_loop data i' s')) \<Longrightarrow>
      P i s (and_then (map_err (\<lambda>_. i') (hid_exec tag param s)) (hid_parse_loop data i'))"
  shows "P i s (hid_parse_loop data i s)"
proof (induction "length data - i" arbitrary: i s rule: less_induct)
  case less
  show ?case
  proof (cases "i < length data")
    case False
    then show ?thesis using finish by (simp add: parse_loop_end)
  next
    case lt: True
    obtain r i' where it: "hr_item data (data ! i) (Suc i) = (r, i')" by fastforce
    with hr_item_mono have i': "i < i'" by fastforce
    show ?thesis
    proof (cases r)
      case None
      with it fail [OF lt] lt show ?thesis by (simp add: parse_loop_round)
    next
      case (Some x)
      then obtain tag param where "r = Some (tag, param)" by (cases x) auto
      with it item [OF lt i'] less lt i' show ?thesis by (simp add: parse_loop_round diff_less_mono2)
    qed
  qed
qed

text \<open>The items of a descriptor, up to the first that cannot be read.\<close>

function hid_items :: "u8 list \<Rightarrow> nat \<Rightarrow> (hid_tag \<times> hid_value) list" where
  "hid_items data i =
     (if i < length data then
        (case hr_item data (data ! i) (Suc i) of (None, _) \<Rightarrow> [] | (Some it, i') \<Rightarrow> it # hid_items data i')
      else [])"
  by pat_completeness auto
termination
  by (relation "measure (\<lambda>(data, i). length data - i)") (auto dest!: hr_item_mono [OF sym])

declare hid_items.simps [simp del]

lemma hid_items_simps:
  "length data \<le> i \<Longrightarrow> hid_items data i = []"
  "i < length data \<Longrightarrow> hr_item data (data ! i) (Suc i) = (Some it, i') \<Longrightarrow> hid_items data i = it # hid_items data i'"
  by (subst hid_items.simps; simp)+


section \<open>Panics and errors\<close>

text \<open>The items that the parser leaves to be done.\<close>

fun hid_unsupported :: "hid_tag \<times> hid_value \<Rightarrow> bool" where
  "hid_unsupported (Collection, param) = (7 \<le> hv_as_usize param)"
| "hid_unsupported (tag, param) = (tag \<in> {DesignatorIndex, DesignatorMinimum, DesignatorMaximum, StringIndex, StringMinimum, StringMaximum, Delimiter})"

lemma collection_from_usize_None [simp]: "collection_from_usize n = None \<longleftrightarrow> 7 \<le> n"
  by (auto simp: collection_from_usize_def get_at_None_iff collection_types_def)

lemma hid_exec_no_ub: "no_ub (hid_exec tag param s)"
  by (cases tag) (auto simp: open_collection_def close_collection_def Let_def split: option.splits list.splits)

lemma hid_exec_panic: "hid_exec tag param s = Panic \<longleftrightarrow> hid_unsupported (tag, param)"
  using collection_from_usize_None [of "hv_as_usize param"]
  by (cases tag) (auto simp del: collection_from_usize_None simp: open_collection_def close_collection_def Let_def split: option.splits list.splits)

lemma parse_loop_outcome:
  "i \<le> length data \<longrightarrow> no_ub r \<and> (\<forall>pos. r = Err pos \<longrightarrow> i < pos \<and> pos \<le> length data) \<and>
     (r = Panic \<longrightarrow> (\<exists>it\<in>set (hid_items data i). hid_unsupported it))"
  if "r = hid_parse_loop data i s" for r
  unfolding that
proof (induction rule: hid_loop_induct)
  case (fail i i' s)
  then show ?case using hr_item_mono hr_item_within by fastforce
next
  case (item i i' tag param s)
  have i': "i' \<le> length data" using hr_item_within [OF item(3)] item(1) by simp
  have items: "hid_items data i = (tag, param) # hid_items data i'" using hid_items_simps(2) [OF item(1,3)] .
  show ?case
  proof (cases "hid_exec tag param s")
    case (Ok s')
    from item(4) [OF Ok] i' item(2) Ok items show ?thesis by auto
  next
    case (UB u)
    with hid_exec_no_ub [of tag param s] show ?thesis by simp
  qed (use items item(2) i' hid_exec_panic [of tag param s] in auto)
qed simp

text \<open>
  C23: the parser of report descriptors is total and its failures are known.  On any bytes it returns a report or an
  error whose position lies behind an item that was begun and inside the descriptor, or it panics; it panics only when
  the descriptor has an item that is marked as to be done: a designator, string or delimiter item, or a collection
  of an unknown type.
\<close>

theorem hid_parse_outcome:
  "no_ub (hid_parse d) \<and> (\<forall>pos. hid_parse d = Err pos \<longrightarrow> 0 < pos \<and> pos \<le> length d) \<and>
   (hid_parse d = Panic \<longrightarrow> (\<exists>it\<in>set (hid_items d 0). hid_unsupported it))"
  using parse_loop_outcome [OF refl, of 0 d hid_state_new] by (simp add: hid_parse_def)

theorem hid_parse_outcome_witness:
  "hid_parse [0xA1, 7] = Panic \<and> (\<exists>it\<in>set (hid_items [0xA1, 7] 0). hid_unsupported it)"
proof -
  have "hid_parse [0xA1, 7] = Panic"
    by (simp add: hid_parse_def parse_loop_round hr_item_def is_long_item_def item_tag_def hid_tags_def hr_bind_def hr_some_def
        hr_next_def read_param_def open_collection_def collection_from_usize_def collection_types_def get_at_def)
  with hid_parse_outcome [of "[0xA1, 7]"] show ?thesis by blast
qed


section \<open>Invariants of the parser\<close>

text \<open>What every item keeps holds of the state from which the report is taken.\<close>

locale descriptor_invariant =
  fixes inv :: "hid_state \<Rightarrow> bool"
  assumes start: "inv hid_state_new"
    and keep: "inv s \<Longrightarrow> hid_exec tag param s = Ok s' \<Longrightarrow> inv s'"
begin

lemma loop: "inv s \<longrightarrow> r = Ok p \<longrightarrow> (\<exists>s. inv s \<and> p = hs_report s)" if "r = hid_parse_loop data i s" for r
  unfolding that
proof (induction rule: hid_loop_induct)
  case (item i i' tag param s)
  then show ?case by (auto simp: outcome_iff dest: keep)
qed auto

lemma parsed: "hid_parse d = Ok p \<Longrightarrow> \<exists>s. inv s \<and> p = hs_report s"
  using loop [OF refl] start by (simp add: hid_parse_def)

end


section \<open>Report ids\<close>

definition ids_ok :: "hid_parsed \<Rightarrow> bool" where
  "ids_ok p \<longleftrightarrow> distinct (hp_report_ids p) \<and> 0 \<notin> set (hp_report_ids p) \<and>
     (\<forall>i a. hp_tagged p i = Some a \<longrightarrow> ra_report_id a = Some i \<and> i \<in> set (hp_report_ids p)) \<and>
     (\<forall>a. hp_primary p = Some a \<longrightarrow> ra_report_id a = None)"

definition app_id_ok :: "hid_state \<Rightarrow> bool" where
  "app_id_ok s \<longleftrightarrow> ids_ok (hs_report s) \<and> (\<forall>i. ra_report_id (hs_app s) = Some i \<longrightarrow> i \<in> set (hp_report_ids (hs_report s)))"

lemma store_app_ids: "app_id_ok s \<Longrightarrow> app_id_ok (store_app s)"
  by (auto simp: app_id_ok_def ids_ok_def store_app_def split: option.splits)

lemma set_report_id_ids: "app_id_ok s \<Longrightarrow> app_id_ok (set_report_id i s)"
  unfolding app_id_ok_def ids_ok_def set_report_id_def by (auto split: option.splits)

text \<open>Steps that change neither the report nor the id of the application.\<close>

lemma app_id_ok_same:
  "app_id_ok s \<Longrightarrow> hs_report s' = hs_report s \<Longrightarrow> ra_report_id (hs_app s') = ra_report_id (hs_app s) \<or> ra_report_id (hs_app s') = None \<Longrightarrow> app_id_ok s'"
  by (auto simp: app_id_ok_def)

lemmas hid_steps = main_entries_def add_entries_def reset_local_def app_clear_def app_clear_stream_def

lemma open_collection_ids: "app_id_ok s \<Longrightarrow> open_collection param s = Ok s' \<Longrightarrow> app_id_ok s'"
proof (cases "collection_from_usize (hv_as_usize param)")
  case (Some ct)
  assume ok: "app_id_ok s" and s': "open_collection param s = Ok s'"
  let ?s = "s\<lparr>hs_ctx := ct # hs_ctx s\<rparr>"
  have s: "app_id_ok ?s" using ok by (auto simp: app_id_ok_def)
  show ?thesis
  proof (cases "ct = CApplication")
    case True
    with s' Some have "hs_report s' = hs_report (store_app ?s)" "ra_report_id (hs_app s') = ra_report_id (hs_app (store_app ?s))"
      by (auto simp: open_collection_def Let_def hid_steps)
    with app_id_ok_same [OF store_app_ids [OF s]] show ?thesis by simp
  next
    case False
    with s' Some show ?thesis by (intro app_id_ok_same [OF s]) (auto simp: open_collection_def Let_def hid_steps)
  qed
qed (simp add: open_collection_def)

lemma close_collection_ids: "app_id_ok s \<Longrightarrow> close_collection s = Ok s' \<Longrightarrow> app_id_ok s'"
proof (cases "hs_ctx s")
  case (Cons ct ctx)
  assume ok: "app_id_ok s" and s': "close_collection s = Ok s'"
  let ?s = "s\<lparr>hs_ctx := ctx\<rparr>"
  have s: "app_id_ok ?s" using ok by (auto simp: app_id_ok_def)
  show ?thesis
  proof (cases "ct = CApplication")
    case True
    with s' Cons have "hs_report s' = hs_report (store_app ?s)" "ra_report_id (hs_app s') = None"
      by (auto simp: close_collection_def Let_def hid_steps)
    with app_id_ok_same [OF store_app_ids [OF s]] show ?thesis by simp
  next
    case False
    with s' Cons show ?thesis by (intro app_id_ok_same [OF s]) (auto simp: close_collection_def Let_def hid_steps)
  qed
qed (simp add: close_collection_def)

lemma hid_exec_ids: "app_id_ok s \<Longrightarrow> hid_exec tag param s = Ok s' \<Longrightarrow> app_id_ok s'"
  by (cases tag) (auto intro: open_collection_ids close_collection_ids set_report_id_ids app_id_ok_same simp: hid_steps split: list.splits)

lemma new_state_ids: "app_id_ok hid_state_new"
  by (simp add: app_id_ok_def ids_ok_def hid_state_new_def parsed_new_def app_empty_def)

interpretation ids: descriptor_invariant app_id_ok
  by unfold_locales (rule new_state_ids, rule hid_exec_ids)

text \<open>
  C25: report ids.  In every report that the parser returns the ids are distinct and not zero, an application found
  under an id has that id, which is one of the ids of the report, and the primary application has none.
\<close>

theorem hid_parse_ids:
  assumes "hid_parse d = Ok p"
  shows "distinct (hp_report_ids p) \<and> 0 \<notin> set (hp_report_ids p) \<and>
    (\<forall>i a. hp_tagged p i = Some a \<longrightarrow> ra_report_id a = Some i \<and> i \<in> set (hp_report_ids p)) \<and>
    (\<forall>a. hp_primary p = Some a \<longrightarrow> ra_report_id a = None)"
  using ids.parsed [OF assms] unfolding app_id_ok_def ids_ok_def by blast


section \<open>Constant items\<close>

text \<open>A constant item is padding: it has no usage.\<close>

fun entry_ok :: "report_entry \<Rightarrow> bool" where
  "entry_ok (EInput v) = (flag_contains (mi_flags v) FLAG_CONSTANT \<longrightarrow> mi_usage_min v = 0)"
| "entry_ok (EOutput v) = (flag_contains (mi_flags v) FLAG_CONSTANT \<longrightarrow> mi_usage_min v = 0)"
| "entry_ok (EFeature v) = (flag_contains (mi_flags v) FLAG_CONSTANT \<longrightarrow> mi_usage_min v = 0)"
| "entry_ok _ = True"

definition app_ok :: "report_app \<Rightarrow> bool" where
  "app_ok a \<longleftrightarrow> (\<forall>e\<in>set (ra_entries a). entry_ok e)"

definition apps_ok :: "hid_state \<Rightarrow> bool" where
  "apps_ok s \<longleftrightarrow> app_ok (hs_app s) \<and> (\<forall>a. hp_primary (hs_report s) = Some a \<longrightarrow> app_ok a) \<and>
     (\<forall>i a. hp_tagged (hs_report s) i = Some a \<longrightarrow> app_ok a)"

lemma main_item_entry_ok: "from_item (main_item_new flag g l u c) tag = Some e \<Longrightarrow> entry_ok e"
  by (cases tag) (auto simp: main_item_new_def main_item_usages_def Let_def split: prod.splits)

lemma main_item_parse_ok: "e \<in> set (main_item_parse tag flag g l) \<Longrightarrow> entry_ok e"
  by (auto simp: main_item_parse_def Let_def List.map_filter_def main_item_entry_ok split: if_splits)

lemma store_app_ok: "apps_ok s \<Longrightarrow> apps_ok (store_app s)"
  by (auto simp: apps_ok_def store_app_def split: option.splits if_splits)

lemma apps_ok_same: "apps_ok s \<Longrightarrow> hs_report s' = hs_report s \<Longrightarrow> app_ok (hs_app s') \<Longrightarrow> apps_ok s'"
  by (auto simp: apps_ok_def)

lemma open_collection_ok: "apps_ok s \<Longrightarrow> open_collection param s = Ok s' \<Longrightarrow> apps_ok s'"
proof (cases "collection_from_usize (hv_as_usize param)")
  case (Some ct)
  assume ok: "apps_ok s" and s': "open_collection param s = Ok s'"
  let ?s = "s\<lparr>hs_ctx := ct # hs_ctx s\<rparr>"
  have s: "apps_ok ?s" using ok by (auto simp: apps_ok_def)
  show ?thesis
  proof (cases "ct = CApplication")
    case True
    with s' Some show ?thesis
      by (intro apps_ok_same [OF store_app_ok [OF s]]) (auto simp: open_collection_def Let_def hid_steps app_ok_def)
  next
    case False
    with s' Some ok show ?thesis
      by (intro apps_ok_same [OF s]) (auto simp: open_collection_def Let_def hid_steps app_ok_def apps_ok_def)
  qed
qed (simp add: open_collection_def)

lemma close_collection_ok: "apps_ok s \<Longrightarrow> close_collection s = Ok s' \<Longrightarrow> apps_ok s'"
proof (cases "hs_ctx s")
  case (Cons ct ctx)
  assume ok: "apps_ok s" and s': "close_collection s = Ok s'"
  let ?s = "s\<lparr>hs_ctx := ctx\<rparr>"
  have s: "apps_ok ?s" using ok by (auto simp: apps_ok_def)
  show ?thesis
  proof (cases "ct = CApplication")
    case True
    with s' Cons show ?thesis
      by (intro apps_ok_same [OF store_app_ok [OF s]]) (auto simp: close_collection_def Let_def hid_steps app_ok_def)
  next
    case False
    with s' Cons ok show ?thesis
      by (intro apps_ok_same [OF s]) (auto simp: close_collection_def Let_def hid_steps app_ok_def apps_ok_def)
  qed
qed (simp add: close_collection_def)

lemma main_entries_ok: "apps_ok s \<Longrightarrow> apps_ok (main_entries tag param s)"
  by (auto simp: apps_ok_def app_ok_def hid_steps dest: main_item_parse_ok)

lemma hid_exec_apps_ok: "apps_ok s \<Longrightarrow> hid_exec tag param s = Ok s' \<Longrightarrow> apps_ok s'"
  by (cases tag) (auto intro: open_collection_ok close_collection_ok main_entries_ok split: list.splits,
      auto simp: apps_ok_def app_ok_def set_report_id_def split: if_splits)

lemma new_state_apps: "apps_ok hid_state_new"
  by (simp add: apps_ok_def app_ok_def hid_state_new_def parsed_new_def app_empty_def)

interpretation apps: descriptor_invariant apps_ok
  by unfold_locales (rule new_state_apps, rule hid_exec_apps_ok)


section \<open>Descriptors that encode items\<close>

text \<open>The short form of an item, as a device writes it.\<close>

fun encode_item :: "hid_tag \<times> hid_value \<Rightarrow> u8 list" where
  "encode_item (tag, HZero) = [tag_code tag]"
| "encode_item (tag, X8 v) = [tag_code tag OR 1, v]"
| "encode_item (tag, X16 v) = [tag_code tag OR 2, ucast v, ucast (drop_bit 8 v)]"
| "encode_item (tag, X32 v) =
     [tag_code tag OR 3, ucast v, ucast (drop_bit 8 v), ucast (drop_bit 16 v), ucast (drop_bit 24 v)]"

text \<open>Running items one after the other; an error is reported behind its item.\<close>

fun run_items :: "nat \<Rightarrow> (hid_tag \<times> hid_value) list \<Rightarrow> hid_state \<Rightarrow> (nat, hid_parsed) outcome" where
  "run_items pos [] s = Ok (hs_report s)"
| "run_items pos ((tag, param) # its) s =
     (let pos = pos + length (encode_item (tag, param)) in
      and_then (map_err (\<lambda>_. pos) (hid_exec tag param s)) (run_items pos its))"

lemmas octet_unat = word_unat_eq_iff unat_word_ariths unsigned_ucast_eq unsigned_drop_bit_eq unsigned_take_bit_eq
  take_bit_nat_def drop_bit_nat_def

lemma u16_of_octets: "(ucast (ucast v :: u8) + ucast (ucast (drop_bit 8 v) :: u8) * 0x100 :: u16) = v"
proof -
  have "unat v < 65536" using unsigned_less [of v] by simp
  moreover from this have "unat v div 256 mod 256 = unat v div 256" by simp
  ultimately show ?thesis using div_mult_mod_eq [of "unat v" 256] by (simp add: octet_unat)
qed

lemma octets_sum:
  assumes "n < 2 ^ 32"
  shows "n mod 256 + n div 256 mod 256 * 256 + n div 65536 mod 256 * 65536 + n div 16777216 mod 256 * 16777216 = (n :: nat)"
proof -
  let ?a = "n div 256" and ?b = "n div 65536" and ?c = "n div 16777216"
  have "?a div 256 = ?b" "?b div 256 = ?c" by (simp_all add: div_mult2_eq [symmetric])
  moreover have "?c mod 256 = ?c" using assms by simp
  ultimately show ?thesis using div_mult_mod_eq [of n 256] div_mult_mod_eq [of ?a 256] div_mult_mod_eq [of ?b 256] by linarith
qed

lemma u32_of_octets:
  "(ucast (ucast v :: u8) + ucast (ucast (drop_bit 8 v) :: u8) * 0x100 + ucast (ucast (drop_bit 16 v) :: u8) * 0x10000 +
    ucast (ucast (drop_bit 24 v) :: u8) * 0x1000000 :: u32) = v"
proof -
  have "unat v < 2 ^ 32" using unsigned_less [of v] by simp
  with octets_sum [OF this] show ?thesis by (simp add: octet_unat mod_add_left_eq mod_add_right_eq)
qed

lemma lead_byte_fields:
  "item_tag (tag_code tag) = Some tag" "item_tag (tag_code tag OR 1) = Some tag" "item_tag (tag_code tag OR 2) = Some tag"
  "item_tag (tag_code tag OR 3) = Some tag" "tag_code tag AND 3 = 0" "(tag_code tag OR 1) AND 3 = 1"
  "(tag_code tag OR 2) AND 3 = 2" "(tag_code tag OR 3) AND 3 = 3" "\<not> is_long_item (tag_code tag)"
  "\<not> is_long_item (tag_code tag OR 1)" "\<not> is_long_item (tag_code tag OR 2)" "\<not> is_long_item (tag_code tag OR 3)"
  by (cases tag; simp add: item_tag_def hid_tags_def is_long_item_def)+

lemma hr_next_mid [simp]: "hr_next (pre @ b # post) (length pre) = (Some b, Suc (length pre))"
  by (simp add: hr_next_def)

lemma hr_next_ahead:
  "hr_next (pre @ a # b # post) (Suc (length pre)) = (Some b, Suc (Suc (length pre)))"
  "hr_next (pre @ a # a1 # b # post) (Suc (Suc (length pre))) = (Some b, Suc (Suc (Suc (length pre))))"
  "hr_next (pre @ a # a1 # a2 # b # post) (Suc (Suc (Suc (length pre)))) = (Some b, Suc (Suc (Suc (Suc (length pre)))))"
  "hr_next (pre @ a # a1 # a2 # a3 # b # post) (Suc (Suc (Suc (Suc (length pre))))) = (Some b, Suc (Suc (Suc (Suc (Suc (length pre))))))"
  by (simp_all add: hr_next_def nth_append)

lemma hr_item_encoded:
  "hr_item (pre @ encode_item it @ post) ((pre @ encode_item it @ post) ! length pre) (Suc (length pre)) =
     (Some it, length pre + length (encode_item it))"
proof -
  obtain tag v where "it = (tag, v)" by fastforce
  then show ?thesis
    by (cases v) (simp_all add: hr_item_def lead_byte_fields read_param_def hr_bind_def hr_some_def hr_next_ahead hr_next_u16_def
        hr_next_u32_def u16_of_octets u32_of_octets)
qed

lemma encode_item_nonempty: "0 < length (encode_item it)"
  by (cases it rule: encode_item.cases) auto

lemma parse_loop_encoded:
  "hid_parse_loop (pre @ concat (map encode_item its)) (length pre) s = run_items (length pre) its s"
proof (induction its arbitrary: pre s)
  case Nil
  then show ?case by (simp add: parse_loop_end)
next
  case (Cons it its)
  let ?post = "concat (map encode_item its)"
  have lt: "length pre < length (pre @ encode_item it @ ?post)" using encode_item_nonempty [of it] by simp
  obtain tag param where it: "it = (tag, param)" by fastforce
  have "hid_parse_loop (pre @ encode_item it @ ?post) (length pre) s =
      and_then (map_err (\<lambda>_. length (pre @ encode_item it)) (hid_exec tag param s)) (hid_parse_loop ((pre @ encode_item it) @ ?post) (length (pre @ encode_item it)))"
    unfolding parse_loop_round [OF lt] hr_item_encoded by (simp add: it)
  also have "\<dots> = and_then (map_err (\<lambda>_. length (pre @ encode_item it)) (hid_exec tag param s)) (run_items (length (pre @ encode_item it)) its)"
    by (rule and_then_cong [OF refl]) (rule Cons.IH)
  finally show ?case by (simp add: it Let_def)
qed

text \<open>
  C24: a descriptor runs the items it encodes.  For any sequence of items in their short form, of every tag and every
  width, parsing the bytes is executing the items in their order; an error has the position behind its item.
\<close>

theorem hid_parse_encoded: "hid_parse (concat (map encode_item its)) = run_items 0 its hid_state_new"
  using parse_loop_encoded [of "[]" its] by (simp add: hid_parse_def)


section \<open>The bits of a report\<close>

fun entry_of :: "hid_tag \<Rightarrow> main_item \<Rightarrow> report_entry" where
  "entry_of Output v = EOutput v"
| "entry_of Feature v = EFeature v"
| "entry_of _ v = EInput v"

lemma map_filter_entry:
  "tag \<in> {Input, Output, Feature} \<Longrightarrow> List.map_filter (\<lambda>u. from_item (f u) tag) us = map (\<lambda>u. entry_of tag (f u)) us"
  by (auto simp: List.map_filter_def)

lemma entry_of_bit_count [simp]: "entry_bit_count (entry_of tag v) = item_bit_count v"
  by (cases tag) auto

lemma main_item_bit_count:
  "hg_report_size g < 256 \<Longrightarrow> item_bit_count (main_item_new flag g l u c) =
     hg_report_size g * ((if 0 < c then c else hg_report_count g) mod 256)"
  by (auto simp: item_bit_count_def main_item_new_def unsigned_of_nat take_bit_nat_def Let_def split: prod.splits)

text \<open>
  The entries of a main item have its bits.  When the item has a range of usages, or as many usages as
  divide its count, the entries that it adds have together \<open>report_size * report_count\<close> bits, one entry per usage.
\<close>

theorem main_item_bits:
  assumes "tag \<in> {Input, Output, Feature}" "hg_report_size g < 256" "hg_report_count g < 256"
    and "length (hl_usage l) dvd hg_report_count g \<and> 0 < hg_report_count g \<or> hl_usage l = []"
  shows "sum_list (map entry_bit_count (main_item_parse tag flag g l)) = hg_report_size g * hg_report_count g \<and>
    length (main_item_parse tag flag g l) = max 1 (length (hl_usage l))"
proof (cases "hl_usage l = []")
  case True
  with assms(1-3) show ?thesis by (auto simp: main_item_parse_def map_filter_entry main_item_bit_count)
next
  case False
  let ?n = "length (hl_usage l)" and ?c = "hg_report_count g div length (hl_usage l)"
  from False assms(4) have c: "?n * ?c = hg_report_count g" by auto
  with False assms(4) have "0 < ?c" by (metis gr0I mult_0_right less_irrefl)
  then have "?c < 256" using assms(3) False by (metis div_le_dividend order_le_less_trans)
  with c \<open>0 < ?c\<close> assms(1,2) False show ?thesis
    by (auto simp: main_item_parse_def map_filter_entry main_item_bit_count o_def sum_list_triv map_replicate_const sum_list_replicate Suc_le_eq)
qed

text \<open>
  Bits are lost otherwise.  Eight bits with three usages are parsed as three entries of two bits; two bits with three
  usages are parsed as three entries of two bits.  Every later field of the report is then read from the wrong place.
\<close>

theorem main_item_bits_lost:
  "sum_list (map entry_bit_count (main_item_parse Input 2 (hid_global_new\<lparr>hg_report_size := 1, hg_report_count := 8\<rparr>) (local_new\<lparr>hl_usage := [1, 2, 3]\<rparr>))) = 6 \<and>
   sum_list (map entry_bit_count (main_item_parse Input 2 (hid_global_new\<lparr>hg_report_size := 1, hg_report_count := 2\<rparr>) (local_new\<lparr>hl_usage := [1, 2, 3]\<rparr>))) = 6"
  by (simp add: main_item_parse_def main_item_new_def main_item_usages_def flag_contains_def FLAG_CONSTANT_def List.map_filter_def item_bit_count_def
      hid_global_new_def local_new_def)

text \<open>Witnesses of the properties with hypotheses.\<close>

theorem main_item_bits_witness:
  "sum_list (map entry_bit_count (main_item_parse Input 2 (hid_global_new\<lparr>hg_report_size := 8, hg_report_count := 2\<rparr>) (local_new\<lparr>hl_usage := [0x30, 0x31]\<rparr>))) = 16"
  using main_item_bits [of Input "hid_global_new\<lparr>hg_report_size := 8, hg_report_count := 2\<rparr>" "local_new\<lparr>hl_usage := [0x30, 0x31]\<rparr>" 2]
  by (simp flip: numeral_2_eq_2)

theorem hid_parse_ids_witness:
  "\<exists>p. hid_parse [0xA1, 1, 0x85, 3, 0xC0] = Ok p \<and> hp_report_ids p = [3] \<and> distinct (hp_report_ids p) \<and> hp_tagged p 3 \<noteq> None \<and>
     (\<forall>i a. hp_tagged p i = Some a \<longrightarrow> ra_report_id a = Some i)"
proof -
  have "[0xA1, 1, 0x85, 3, 0xC0] = concat (map encode_item [(Collection, X8 1), (ReportId, X8 3), (EndCollection, HZero)])" by simp
  then have "hid_parse [0xA1, 1, 0x85, 3, 0xC0] = run_items 0 [(Collection, X8 1), (ReportId, X8 3), (EndCollection, HZero)] hid_state_new"
    using parse_loop_encoded [of "[]"] unfolding hid_parse_def by (metis append_Nil list.size(3))
  then obtain p where p: "hid_parse [0xA1, 1, 0x85, 3, 0xC0] = Ok p" "hp_report_ids p = [3]" "hp_tagged p 3 \<noteq> None"
    by (simp add: open_collection_def close_collection_def collection_from_usize_def collection_types_def get_at_def hid_state_new_def
        parsed_new_def app_empty_def local_new_def hid_steps store_app_def set_report_id_def hv_u8_def)
  with hid_parse_ids [OF p(1)] show ?thesis by blast
qed

end
