(* ===== verification/HidBits.thy ===== *)
theory HidBits
  imports HidReport
begin

text \<open>
  The bit streams of reports, \<open>HidBitStreamReader\<close> and \<open>HidBitStreamWriter\<close> of src/system/src/io/hid_mgr.rs.  Fields are
  not aligned to octets; the reader collects the octets of a field and shifts.  The reference is the sequence of bits:
  bit \<open>k\<close> of a slice is bit \<open>k mod 8\<close> of octet \<open>k div 8\<close>.
\<close>

section \<open>Reader\<close>

datatype bit_stream_error = BsInvalidParameter | BsOutOfBounds

definition bits_mask :: "nat \<Rightarrow> u32" where
  "bits_mask sz = (if 31 < sz then 0xFFFFFFFF else push_bit sz 1 - 1)"

text \<open>The octets from \<open>pos8\<close> on that a field of \<open>read_size\<close> bits touches.\<close>

definition read_octets :: "u8 list \<Rightarrow> nat \<Rightarrow> nat \<Rightarrow> u32 option" where
  "read_octets bytes pos8 read_size =
     (if 1 \<le> read_size \<and> read_size \<le> 8 then
        (case drop pos8 bytes of b1 # _ \<Rightarrow> Some (ucast b1) | _ \<Rightarrow> None)
      else if 9 \<le> read_size \<and> read_size \<le> 16 then
        (case drop pos8 bytes of b1 # b2 # _ \<Rightarrow> Some (ucast b1 + ucast b2 * 0x100) | _ \<Rightarrow> None)
      else if 17 \<le> read_size \<and> read_size \<le> 24 then
        (case drop pos8 bytes of b1 # b2 # b3 # _ \<Rightarrow> Some (ucast b1 + ucast b2 * 0x100 + ucast b3 * 0x10000) | _ \<Rightarrow> None)
      else if 25 \<le> read_size \<and> read_size \<le> 32 then
        (case drop pos8 bytes of
           b1 # b2 # b3 # b4 # _ \<Rightarrow> Some (ucast b1 + ucast b2 * 0x100 + ucast b3 * 0x10000 + ucast b4 * 0x1000000)
         | _ \<Rightarrow> None)
      else None)"

definition read_bits :: "u8 list \<Rightarrow> nat \<Rightarrow> nat \<Rightarrow> (bit_stream_error, u32) outcome" where
  "read_bits bytes position sz =
     (let pos7 = position mod 8; pos8 = position div 8; read_size = usize_add pos7 sz in
      if 32 < read_size then Err BsInvalidParameter
      else and_then (ok_or BsOutOfBounds (read_octets bytes pos8 read_size)) (\<lambda>data.
        Ok (drop_bit pos7 data AND bits_mask sz)))"

text \<open>The shift count of \<open>1 << (size - 1)\<close> wraps and is masked to five bits.\<close>

definition with_sign :: "nat \<Rightarrow> u32 \<Rightarrow> int" where
  "with_sign sz v =
     (let mask = push_bit (usize_sub sz 1 mod 32) (1 :: u32) in
      sint (if v AND mask = 0 then v else NOT (mask - 1) OR v))"

definition read_bits_signed :: "u8 list \<Rightarrow> nat \<Rightarrow> nat \<Rightarrow> (bit_stream_error, int) outcome" where
  "read_bits_signed bytes position sz = and_then (read_bits bytes position sz) (\<lambda>v. Ok (with_sign sz v))"

record bit_reader =
  br_slice :: "u8 list"
  br_position :: nat

definition item_is_const :: "main_item \<Rightarrow> bool" where
  "item_is_const item \<longleftrightarrow> flag_contains (mi_flags item) FLAG_CONSTANT"

definition item_is_variable :: "main_item \<Rightarrow> bool" where
  "item_is_variable item \<longleftrightarrow> flag_contains (mi_flags item) FLAG_VARIABLE"

definition item_is_array :: "main_item \<Rightarrow> bool" where
  "item_is_array item \<longleftrightarrow> \<not> item_is_variable item"

definition item_is_relative :: "main_item \<Rightarrow> bool" where
  "item_is_relative item \<longleftrightarrow> flag_contains (mi_flags item) FLAG_RELATIVE"

definition reader_advance :: "bit_reader \<Rightarrow> nat \<Rightarrow> bit_reader" where
  "reader_advance r n = r\<lparr>br_position := usize_add (br_position r) n\<rparr>"

definition reader_advance_by :: "bit_reader \<Rightarrow> main_item \<Rightarrow> bit_reader" where
  "reader_advance_by r item = reader_advance r (item_bit_count item)"

text \<open>A read that fails leaves the reader where it is.\<close>

definition read_value :: "bit_reader \<Rightarrow> main_item \<Rightarrow> (bit_stream_error, u32 \<times> bit_reader) outcome" where
  "read_value r item =
     (let bit_size = unat (mi_report_size item) in
      if item_is_const item \<or> item_is_relative item then Err BsInvalidParameter
      else and_then (read_bits (br_slice r) (br_position r) bit_size) (\<lambda>v. Ok (v, reader_advance r bit_size)))"

definition read_value_signed :: "bit_reader \<Rightarrow> main_item \<Rightarrow> (bit_stream_error, int \<times> bit_reader) outcome" where
  "read_value_signed r item =
     (let bit_size = unat (mi_report_size item) in
      if item_is_const item \<or> \<not> item_is_relative item then Err BsInvalidParameter
      else and_then (read_bits_signed (br_slice r) (br_position r) bit_size) (\<lambda>v. Ok (v, reader_advance r bit_size)))"

definition read_bit_array :: "bit_reader \<Rightarrow> main_item \<Rightarrow> (bit_stream_error, u32 \<times> bit_reader) outcome" where
  "read_bit_array r item =
     (if item_is_const item \<or> unat (mi_report_size item) \<noteq> 1 then Err BsInvalidParameter
      else
        let bit_size = unat (mi_report_count item) in
        and_then (read_bits (br_slice r) (br_position r) bit_size) (\<lambda>v. Ok (v, reader_advance r bit_size)))"


section \<open>Writer\<close>

record bit_writer =
  bw_slice :: "u8 list"
  bw_position :: nat

definition writer_new :: "u8 list \<Rightarrow> bit_writer" where
  "writer_new bytes = \<lparr>bw_slice = bytes, bw_position = 0\<rparr>"

definition writer_current_len :: "bit_writer \<Rightarrow> nat" where
  "writer_current_len w = usize_add (bw_position w) 7 div 8"

definition writer_clear :: "bit_writer \<Rightarrow> bit_writer" where
  "writer_clear w = \<lparr>bw_slice = replicate (length (bw_slice w)) 0, bw_position = 0\<rparr>"

text \<open>The octet is the first of the range of octets; an empty range has none.\<close>

definition write_bits :: "u8 list \<Rightarrow> nat \<Rightarrow> nat \<Rightarrow> u32 \<Rightarrow> (bit_stream_error, u8 list) outcome" where
  "write_bits bytes position sz val =
     (let pos7 = position mod 8; pos8 = position div 8; mask = bits_mask sz in
      if 8 < usize_add pos7 sz then Err BsInvalidParameter
      else
        let last = usize_add (usize_add position sz) 7 div 8 in
        if pos8 \<le> last \<and> last \<le> length bytes then
          if pos8 = last then Panic
          else Ok (bytes[pos8 := (bytes ! pos8 AND ucast (NOT (push_bit pos7 mask))) OR ucast (push_bit pos7 val)])
        else Err BsOutOfBounds)"

definition write_item :: "bit_writer \<Rightarrow> main_item \<Rightarrow> u32 \<Rightarrow> (bit_stream_error, bit_writer) outcome" where
  "write_item w item val =
     (let bit_size = unat (mi_report_size item) in
      and_then (write_bits (bw_slice w) (bw_position w) bit_size val) (\<lambda>bytes.
        Ok \<lparr>bw_slice = bytes, bw_position = usize_add (bw_position w) bit_size\<rparr>))"

definition writer_advance_by :: "bit_writer \<Rightarrow> main_item \<Rightarrow> bit_writer" where
  "writer_advance_by w item = w\<lparr>bw_position := usize_add (bw_position w) (item_bit_count item)\<rparr>"


section \<open>The sequence of bits\<close>

definition stream_bit :: "u8 list \<Rightarrow> nat \<Rightarrow> bool" where
  "stream_bit bytes k \<longleftrightarrow> bit (bytes ! (k div 8)) (k mod 8)"

text \<open>The number of the \<open>n\<close> bits from \<open>p\<close> on, the first one lowest.\<close>

definition bits_value :: "u8 list \<Rightarrow> nat \<Rightarrow> nat \<Rightarrow> u32" where
  "bits_value bytes p n = horner_sum of_bool 2 (map (stream_bit bytes) [p ..< p + n])"

lemma bit_bits_value: "bit (bits_value bytes p n) i \<longleftrightarrow> i < 32 \<and> i < n \<and> stream_bit bytes (p + i)"
  by (auto simp: bits_value_def bit_horner_sum_bit_iff)

fun le_word :: "u8 list \<Rightarrow> u32" where
  "le_word [] = 0"
| "le_word (b # bs) = ucast b + push_bit 8 (le_word bs)"

lemma bit_le_word: "bit (le_word bs) i \<longleftrightarrow> i < 32 \<and> i < 8 * length bs \<and> bit (bs ! (i div 8)) (i mod 8)"
proof (induction bs arbitrary: i)
  case (Cons b bs)
  have "ucast b + push_bit 8 (le_word bs) = (ucast b :: u32) OR push_bit 8 (le_word bs)"
    by (rule disjunctive_add_eq_or) (auto simp: bit_eq_iff bit_simps dest: bit_imp_le_length)
  then show ?case
    by (auto simp: bit_simps Cons.IH nth_Cons' le_div_geq le_mod_geq dest: bit_imp_le_length)
qed simp

lemma bit_bits_mask: "bit (bits_mask n) i \<longleftrightarrow> i < 32 \<and> i < n"
proof -
  have "push_bit n 1 - 1 = (mask n :: u32)" by (simp add: mask_eq_exp_minus_1 push_bit_eq_mult)
  moreover have "bit (0xFFFFFFFF :: u32) i \<longleftrightarrow> i < 32" using bit_mask_iff [where 'a = u32, of 32 i] by (simp add: mask_eq_exp_minus_1)
  ultimately show ?thesis by (auto simp: bits_mask_def bit_mask_iff)
qed

text \<open>The octets that are read, as one word.\<close>

lemma octets_le_word:
  "(case xs of b1 # _ \<Rightarrow> Some (ucast b1) | _ \<Rightarrow> None) = (if 1 \<le> length xs then Some (le_word (take 1 xs)) else None)"
  "(case xs of b1 # b2 # _ \<Rightarrow> Some (ucast b1 + ucast b2 * 0x100) | _ \<Rightarrow> None) =
     (if 2 \<le> length xs then Some (le_word (take 2 xs)) else None)"
  "(case xs of b1 # b2 # b3 # _ \<Rightarrow> Some (ucast b1 + ucast b2 * 0x100 + ucast b3 * 0x10000) | _ \<Rightarrow> None) =
     (if 3 \<le> length xs then Some (le_word (take 3 xs)) else None)"
  "(case xs of b1 # b2 # b3 # b4 # _ \<Rightarrow> Some (ucast b1 + ucast b2 * 0x100 + ucast b3 * 0x10000 + ucast b4 * 0x1000000) | _ \<Rightarrow> None) =
     (if 4 \<le> length xs then Some (le_word (take 4 xs)) else None)"
  by (auto simp: push_bit_eq_mult algebra_simps take_Cons' split: list.splits)

lemma read_octets_le_word:
  assumes "1 \<le> n" "n \<le> 32"
  shows "read_octets bytes p n = (if p + (n + 7) div 8 \<le> length bytes then Some (le_word (take ((n + 7) div 8) (drop p bytes))) else None)"
proof -
  have cond: "k \<le> length (drop p bytes) \<longleftrightarrow> p + k \<le> length bytes" if "0 < k" for k using that by auto
  consider "n \<le> 8" | "9 \<le> n" "n \<le> 16" | "17 \<le> n" "n \<le> 24" | "25 \<le> n" by linarith
  then show ?thesis
  proof cases
    case 1
    with assms have "(n + 7) div 8 = 1" by auto
    with assms 1 show ?thesis by (simp add: read_octets_def octets_le_word cond del: length_drop One_nat_def)
  next
    case 2
    then have "(n + 7) div 8 = 2" by auto
    with 2 show ?thesis by (simp add: read_octets_def octets_le_word cond del: length_drop)
  next
    case 3
    then have "(n + 7) div 8 = 3" by auto
    with 3 show ?thesis by (simp add: read_octets_def octets_le_word cond del: length_drop)
  next
    case 4
    with assms have "(n + 7) div 8 = 4" by auto
    with assms 4 show ?thesis by (simp add: read_octets_def octets_le_word cond del: length_drop)
  qed
qed

section \<open>Reading and writing fields\<close>

lemma octets_of_field:
  assumes "0 < (n::nat)"
  shows "p div 8 + (p mod 8 + n + 7) div 8 \<le> len \<longleftrightarrow> p + n \<le> 8 * len"
proof -
  define q r d where defs: "q = p div 8" "r = p mod 8" "d = (p mod 8 + n + 7) div 8"
  have "p = 8 * q + r" "8 * d \<le> r + n + 7" "r + n + 7 < 8 * d + 8" unfolding defs by simp_all
  then show ?thesis unfolding defs [symmetric] by linarith
qed

lemma field_value:
  assumes "0 < n" "p mod 8 + n \<le> 32" "p + n \<le> 8 * length bytes"
  shows "drop_bit (p mod 8) (le_word (take ((p mod 8 + n + 7) div 8) (drop (p div 8) bytes))) AND bits_mask n = bits_value bytes p n"
proof (rule bit_word_eqI)
  fix i assume i: "i < LENGTH(32)"
  let ?m = "(p mod 8 + n + 7) div 8" and ?k = "p mod 8 + i"
  have len: "p div 8 + ?m \<le> length bytes" using assms octets_of_field by blast
  have "p + i = 8 * (p div 8) + ?k" by simp
  then have div: "(p + i) div 8 = p div 8 + ?k div 8" "(p + i) mod 8 = ?k mod 8" by (metis div_mult_self4 mod_mult_self4 zero_neq_numeral)+
  have "?k div 8 < ?m" if "i < n"
  proof -
    from that have "?k + 8 \<le> p mod 8 + n + 7" by simp
    then have "(?k + 8) div 8 \<le> ?m" by (rule div_le_mono)
    then show ?thesis by simp
  qed
  note k = this
  let ?w = "take ?m (drop (p div 8) bytes)"
  have w: "length ?w = ?m" using len by simp
  show "bit (drop_bit (p mod 8) (le_word ?w) AND bits_mask n) i = bit (bits_value bytes p n) i"
  proof (cases "i < n")
    case True
    have "?w ! (?k div 8) = bytes ! ((p + i) div 8)" using k [OF True] len div by simp
    moreover have "?k < 32" "?k < 8 * ?m" using True assms(2) k [OF True] by linarith+
    ultimately show ?thesis using True i div(2) w
      by (simp only: bit_and_iff bit_drop_bit_eq comp_def bit_le_word bit_bits_mask bit_bits_value stream_bit_def) simp
  next
    case False
    then show ?thesis by (simp only: bit_and_iff bit_bits_mask bit_bits_value) simp
  qed
qed

lemma read_bits_field:
  assumes "0 < n" "n < 256"
  shows "read_bits bytes p n =
    (if 32 < p mod 8 + n then Err BsInvalidParameter
     else if p + n \<le> 8 * length bytes then Ok (bits_value bytes p n) else Err BsOutOfBounds)"
proof -
  have add: "usize_add (p mod 8) n = p mod 8 + n" using assms by (simp add: usize_add_def)
  show ?thesis
    using assms by (auto simp: read_bits_def Let_def add read_octets_le_word octets_of_field field_value)
qed

text \<open>The sign of a field: its top bit is copied upwards.\<close>

lemma sign_extend:
  fixes v :: u32
  assumes "m < 32" "\<And>i. m < i \<Longrightarrow> \<not> bit v i"
  shows "sint (if v AND push_bit m 1 = 0 then v else NOT (push_bit m 1 - 1) OR v) = signed_take_bit m (uint v)"
proof -
  have mask: "push_bit m 1 - 1 = (mask m :: u32)" by (simp add: mask_eq_exp_minus_1)
  let ?x = "if v AND push_bit m 1 = 0 then v else NOT (push_bit m 1 - 1) OR v"
  have x: "bit ?x i \<longleftrightarrow> bit v (min i m)" if "i < 32" for i
  proof (cases "bit v m")
    case True
    then have "?x = NOT (mask m) OR v" by (simp only: bit_iff_and_push_bit_not_eq_0 mask) simp
    then have "bit ?x i \<longleftrightarrow> m \<le> i \<or> bit v i" using that by (simp add: bit_or_iff bit_not_iff bit_mask_iff not_less)
    then show ?thesis using True by (auto simp: min_def)
  next
    case False
    then have "?x = v" by (simp only: bit_iff_and_push_bit_not_eq_0) simp
    then show ?thesis using False assms(2) [of i] by (auto simp: min_def le_less not_le)
  qed
  show ?thesis
  proof (rule bit_eqI)
    fix i
    have "bit (sint ?x) i \<longleftrightarrow> bit ?x (min i 31)" by (simp only: bit_signed_iff min.commute) simp
    also have "\<dots> \<longleftrightarrow> bit v (min (min i 31) m)" by (rule x) simp
    also have "min (min i 31) m = min i m" using assms(1) by simp
    finally show "bit (sint ?x) i = bit (signed_take_bit m (uint v)) i" 
      using assms(1) by (auto simp: bit_signed_take_bit_iff bit_uint_iff min.commute [of m i])
  qed
qed

text \<open>
  C26: a field is read as the sequence of bits says.  A field of \<open>n\<close> bits at position \<open>p\<close> is, whatever octets it
  crosses, the number of the bits \<open>p\<close> to \<open>p + n - 1\<close>; a field that does not fit into four octets
  is refused, and so is one that leaves the report.  Read with a sign it is the two's complement of that number.
\<close>

theorem read_bits_spec:
  assumes "0 < n" "n < 256"
  shows "read_bits bytes p n =
      (if 32 < p mod 8 + n then Err BsInvalidParameter
       else if p + n \<le> 8 * length bytes then Ok (bits_value bytes p n) else Err BsOutOfBounds) \<and>
    read_bits_signed bytes p n =
      (if 32 < p mod 8 + n then Err BsInvalidParameter
       else if p + n \<le> 8 * length bytes then Ok (signed_take_bit (n - 1) (uint (bits_value bytes p n))) else Err BsOutOfBounds)"
proof -
  have "with_sign n (bits_value bytes p n) = signed_take_bit (n - 1) (uint (bits_value bytes p n))" if "n \<le> 32"
  proof -
    have sub: "usize_sub n 1 mod 32 = n - 1" using assms that by (simp add: usize_sub_def)
    have hi: "\<not> bit (bits_value bytes p n) i" if "n - 1 < i" for i using that by (auto simp: bit_bits_value)
    have "n - 1 < 32" using that by simp
    then show ?thesis unfolding with_sign_def Let_def sub using hi by (rule sign_extend)
  qed
  then show ?thesis using read_bits_field [OF assms] by (simp add: read_bits_signed_def)
qed

theorem read_bits_spec_witness: "read_bits [0xA5, 0x0F] 4 8 = Ok 0xFA \<and> read_bits_signed [0xA5, 0x0F] 4 8 = Ok (-6)"
proof -
  have "bits_value [0xA5, 0x0F] 4 8 = 0xFA" by (simp add: bits_value_def stream_bit_def upt_rec)
  then show ?thesis using read_bits_spec [of 8 "[0xA5, 0x0F]" 4] by simp
qed

lemma bit_below: "unat (val :: u32) < 2 ^ n \<Longrightarrow> bit val k \<Longrightarrow> k < n"
proof -
  assume "unat val < 2 ^ n" and k: "bit val k"
  then have "take_bit n (unat val) = unat val" by (simp add: take_bit_nat_eq_self)
  moreover have "bit (unat val) k" using k by (simp add: bit_unsigned_iff)
  ultimately show "k < n" by (metis bit_take_bit_iff)
qed

text \<open>The bits of an octet after a field was written into it.\<close>

lemma bit_written:
  fixes b :: u8 and val :: u32
  assumes "r + n \<le> 8" "unat val < 2 ^ n" "j < 8"
  shows "bit ((b AND ucast (NOT (push_bit r (bits_mask n)))) OR ucast (push_bit r val)) j \<longleftrightarrow>
    (if r \<le> j \<and> j < r + n then bit val (j - r) else bit b j)"
proof -
  have "bit val (j - r) \<Longrightarrow> r \<le> j \<Longrightarrow> j < r + n" using bit_below [OF assms(2), of "j - r"] by linarith
  then show ?thesis using assms(1,3)
    by (simp add: bit_simps bit_bits_mask) (auto simp: not_le)
qed



text \<open>A value that does not fit spills into the next field, and a field of no bits panics.\<close>

theorem write_bits_spills: "write_bits [0] 0 1 2 = Ok [2] \<and> write_bits [0] 0 0 0 = Panic"
  by (simp add: write_bits_def usize_add_def bits_mask_def)

end
