(* ===== verification/HidKeys.thy ===== *)
theory HidKeys
  imports Prelude
begin

text \<open>
  Keyboards (src/system/src/io/hid_mgr.rs): key events, the state of a keyboard that turns reports into events, the modifier
  keys that \<open>HidManager\<close> keeps, and the characters of keys.  The events that \<open>WindowManager::post_key_event\<close> gets are a
  list; the word of modifiers has its flags in the low octet.
\<close>

section \<open>Events\<close>

definition KEY_NONE :: u8 where "KEY_NONE = 0"
definition ERR_ROLL_OVER :: u8 where "ERR_ROLL_OVER = 1"
definition MOD_MIN :: u8 where "MOD_MIN = 0xE0"
definition MOD_MAX :: u8 where "MOD_MAX = 0xE7"
definition EVENT_BREAK :: u8 where "EVENT_BREAK = 0x80"

definition event_bits :: "u8 \<Rightarrow> u8 \<Rightarrow> u8 \<Rightarrow> u32" where
  "event_bits usage modifier flags = ucast usage OR push_bit 16 (ucast modifier) OR push_bit 24 (ucast flags)"

text \<open>\<open>NonZeroU32::new_unchecked\<close> must not get zero.\<close>

definition key_event_new :: "u8 \<Rightarrow> u8 \<Rightarrow> u8 \<Rightarrow> (unit, u32) outcome" where
  "key_event_new usage modifier flags =
     (let v = event_bits usage modifier flags in if v = 0 then UB InvalidValue else Ok v)"

definition ke_usage :: "u32 \<Rightarrow> u8" where
  "ke_usage e = ucast e"

definition ke_modifier :: "u32 \<Rightarrow> u8" where
  "ke_modifier e = ucast (drop_bit 16 e AND 0xFF)"

definition ke_flags :: "u32 \<Rightarrow> u8" where
  "ke_flags e = ucast (drop_bit 24 e AND 0xFF)"

definition is_break :: "u32 \<Rightarrow> bool" where
  "is_break e \<longleftrightarrow> ke_flags e AND EVENT_BREAK = EVENT_BREAK"

definition key_data :: "u32 \<Rightarrow> u32 option" where
  "key_data e =
     (if ke_usage e \<noteq> KEY_NONE \<and> \<not> (MOD_MIN \<le> ke_usage e \<and> ke_usage e \<le> MOD_MAX) \<and> \<not> is_break e then Some e else None)"

text \<open>\<open>HidManager::post_key_event\<close>: the modifiers are updated and the event gets them.\<close>

definition post_key_event :: "u8 \<Rightarrow> u32 \<Rightarrow> (unit, u8 \<times> u32) outcome" where
  "post_key_event key_modifier event =
     (let usage = ke_usage event;
          key_modifier =
            (if MOD_MIN \<le> usage \<and> usage \<le> MOD_MAX then
               let bit_position = push_bit (unat (usage - MOD_MIN)) 1 in
               if \<not> is_break event then key_modifier OR bit_position else key_modifier AND NOT bit_position
             else key_modifier) in
      and_then (key_event_new usage key_modifier (ke_flags event)) (\<lambda>event. Ok (key_modifier, event)))"


section \<open>The state of a keyboard\<close>

record key_report =
  kr_modifier :: u8
  kr_reserved :: u8
  kr_keydata :: "u8 list"

definition key_report_empty :: key_report where
  "key_report_empty = \<lparr>kr_modifier = 0, kr_reserved = 0, kr_keydata = replicate 6 KEY_NONE\<rparr>"

record keyboard_state =
  ks_current :: key_report
  ks_prev :: key_report

definition keyboard_new :: keyboard_state where
  "keyboard_new = \<lparr>ks_current = key_report_empty, ks_prev = key_report_empty\<rparr>"

text \<open>An event without modifiers is made and posted; a loop does it for several usages.\<close>

fun post_usages :: "u8 list \<Rightarrow> u8 \<Rightarrow> u8 \<Rightarrow> (unit, u8 \<times> u32 list) outcome" where
  "post_usages [] flags key_modifier = Ok (key_modifier, [])"
| "post_usages (usage # usages) flags key_modifier =
     and_then (key_event_new usage 0 flags) (\<lambda>e.
     and_then (post_key_event key_modifier e) (\<lambda>(key_modifier, event).
     and_then (post_usages usages flags key_modifier) (\<lambda>(key_modifier, events).
       Ok (key_modifier, event # events))))"

text \<open>The modifier keys from \<open>MOD_MIN\<close> up to, and without, \<open>MOD_MAX\<close> that are set in \<open>a\<close> and not in \<open>b\<close>.\<close>

definition modifiers_of :: "u8 \<Rightarrow> u8 \<Rightarrow> u8 list" where
  "modifiers_of a b =
     filter (\<lambda>modifier. let b' = push_bit (unat (modifier - MOD_MIN)) 1 in b AND b' = 0 \<and> a AND b' \<noteq> 0)
       (map word_of_nat [unat MOD_MIN ..< unat MOD_MAX])"

definition keys_of :: "u8 list \<Rightarrow> u8 list \<Rightarrow> u8 list" where
  "keys_of a b = filter (\<lambda>usage. usage \<noteq> KEY_NONE \<and> usage \<noteq> ERR_ROLL_OVER \<and> usage \<notin> set b) a"

definition process_report :: "keyboard_state \<Rightarrow> u8 \<Rightarrow> key_report \<Rightarrow> (unit, keyboard_state \<times> u8 \<times> u32 list) outcome" where
  "process_report s key_modifier report =
     (let s = \<lparr>ks_current = report, ks_prev = ks_current s\<rparr>; cur = ks_current s; prev = ks_prev s in
      and_then (post_usages (modifiers_of (kr_modifier prev) (kr_modifier cur)) EVENT_BREAK key_modifier) (\<lambda>(key_modifier, e1).
      and_then (post_usages (modifiers_of (kr_modifier cur) (kr_modifier prev)) 0 key_modifier) (\<lambda>(key_modifier, e2).
      and_then (post_usages (keys_of (kr_keydata prev) (kr_keydata cur)) EVENT_BREAK key_modifier) (\<lambda>(key_modifier, e3).
      and_then (post_usages (keys_of (kr_keydata cur) (kr_keydata prev)) 0 key_modifier) (\<lambda>(key_modifier, e4).
        Ok (s, key_modifier, e1 @ e2 @ e3 @ e4))))))"


section \<open>Characters\<close>

text \<open>Characters are code points.\<close>

definition INVALID_UNICHAR :: nat where "INVALID_UNICHAR = 0xFEFF"

definition has_shift :: "u8 \<Rightarrow> bool" where
  "has_shift m \<longleftrightarrow> m AND 0x02 = 0x02 \<or> m AND 0x20 = 0x20"

definition has_ctrl :: "u8 \<Rightarrow> bool" where
  "has_ctrl m \<longleftrightarrow> m AND 0x01 = 0x01 \<or> m AND 0x10 = 0x10"

definition NON_ALPHABET_101 :: "nat list" where
  "NON_ALPHABET_101 = [0x31, 0x32, 0x33, 0x34, 0x35, 0x36, 0x37, 0x38, 0x39, 0x30, 0x0D, 0x1B, 0x08, 0x09, 0x20, 0x2D,
     0x2B, 0x5B, 0x5D, 0x5C, 0x5C, 0x3B, 0x27, 0x60, 0x2C, 0x2E, 0x2F]"

definition NON_ALPHABET_101_S :: "nat list" where
  "NON_ALPHABET_101_S = [0x21, 0x40, 0x23, 0x24, 0x25, 0x5E, 0x26, 0x2A, 0x28, 0x29, 0x0D, 0x1B, 0x08, 0x09, 0x20, 0x5F,
     0x3D, 0x7B, 0x7D, 0x7C, 0x7C, 0x3A, 0x22, 0x7E, 0x3C, 0x3E, 0x3F]"

definition NON_ALPHABET_109 :: "nat list" where
  "NON_ALPHABET_109 = [0x31, 0x32, 0x33, 0x34, 0x35, 0x36, 0x37, 0x38, 0x39, 0x30, 0x0D, 0x1B, 0x08, 0x09, 0x20, 0x2D,
     0x5E, 0x40, 0x5B, 0x5D, 0x5D, 0x3B, 0x3A, 0x60, 0x2C, 0x2E, 0x2F]"

definition CHAR_NUMPAD :: "nat list" where
  "CHAR_NUMPAD = [0x2F, 0x2A, 0x2D, 0x2B, 0x0D, 0x31, 0x32, 0x33, 0x34, 0x35, 0x36, 0x37, 0x38, 0x39, 0x30, 0x2E]"

text \<open>An index out of range panics; \<open>uni as u8\<close> keeps the low octet.\<close>

definition table_at :: "nat list \<Rightarrow> nat \<Rightarrow> (unit, nat) outcome" where
  "table_at t i = (if i < length t then Ok (t ! i) else Panic)"

definition usage_to_char_101 :: "u8 \<Rightarrow> u8 \<Rightarrow> (unit, nat) outcome" where
  "usage_to_char_101 usage modifier =
     (let u = unat usage in
      and_then
        (if 0x04 \<le> u \<and> u \<le> 0x1D then
           Ok (let uni = u - 0x04 + 0x61 in if has_shift modifier then ((uni mod 256) XOR 0x20) else uni)
         else if 0x1E \<le> u \<and> u \<le> 0x38 then
           table_at (if has_shift modifier then NON_ALPHABET_101_S else NON_ALPHABET_101) (u - 0x1E)
         else if u = 0x4C then Ok 0x7F
         else if 0x54 \<le> u \<and> u \<le> 0x63 then table_at CHAR_NUMPAD (u - 0x54)
         else Ok INVALID_UNICHAR)
        (\<lambda>uni. Ok (if 0x40 \<le> uni \<and> uni < 0x7F \<and> has_ctrl modifier then ((uni mod 256) AND 0x1F) else uni)))"

definition usage_to_char_109 :: "u8 \<Rightarrow> u8 \<Rightarrow> (unit, nat) outcome" where
  "usage_to_char_109 usage modifier =
     (let u = unat usage in
      and_then
        (if 0x04 \<le> u \<and> u \<le> 0x1D then Ok (u - 0x04 + 0x61)
         else if 0x1E \<le> u \<and> u \<le> 0x38 then
           and_then (table_at NON_ALPHABET_109 (u - 0x1E)) (\<lambda>uni.
             Ok (if 0x20 < uni \<and> uni < 0x40 \<and> uni \<noteq> 0x30 \<and> has_shift modifier then ((uni mod 256) XOR 0x10) else uni))
         else if u = 0x4C then Ok 0x7F
         else if 0x54 \<le> u \<and> u \<le> 0x63 then table_at CHAR_NUMPAD (u - 0x54)
         else if u = 0x89 then Ok 0x5C
         else Ok INVALID_UNICHAR)
        (\<lambda>uni.
          let uni = (if 0x40 \<le> uni \<and> uni < 0x7F then
              if has_ctrl modifier then ((uni mod 256) AND 0x1F)
              else if has_shift modifier then ((uni mod 256) XOR 0x20) else uni
            else uni) in
          Ok (if u = 0x87 then if has_shift modifier then 0x5F else 0x5C else uni)))"

definition key_event_to_char :: "u32 \<Rightarrow> (unit, nat) outcome" where
  "key_event_to_char event =
     (if is_break event \<or> ke_usage event = KEY_NONE then Ok 0
      else usage_to_char_109 (ke_usage event) (ke_modifier event))"


section \<open>Events keep what they carry\<close>

lemma octet_high_bits: "\<not> bit (u :: u8) (8 + n)" "\<not> bit (u :: u8) (16 + n)" "\<not> bit (u :: u8) (24 + n)"
  by (auto dest: bit_imp_le_length)

lemma event_parts [simp]:
  "ke_usage (event_bits u m f) = u" "ke_modifier (event_bits u m f) = m" "ke_flags (event_bits u m f) = f"
proof -
  have mask: "(0xFF :: u32) = mask 8" by (simp add: mask_eq_exp_minus_1)
  show "ke_usage (event_bits u m f) = u" "ke_modifier (event_bits u m f) = m" "ke_flags (event_bits u m f) = f"
    unfolding ke_usage_def ke_modifier_def ke_flags_def event_bits_def mask
    by (auto intro!: bit_word_eqI simp: bit_simps octet_high_bits simp del: mask_numeral dest: bit_imp_le_length)
qed

lemma event_nonzero [simp]: "u \<noteq> 0 \<Longrightarrow> event_bits u m f \<noteq> 0"
  by (metis event_parts(1) ke_usage_def unsigned_0)

lemma key_event_new_Ok: "u \<noteq> 0 \<Longrightarrow> key_event_new u m f = Ok (event_bits u m f)"
  by (simp add: key_event_new_def Let_def)

text \<open>The modifiers after an event.\<close>

definition next_modifiers :: "u8 \<Rightarrow> u8 \<Rightarrow> u8 \<Rightarrow> u8" where
  "next_modifiers flags usage m =
     (if MOD_MIN \<le> usage \<and> usage \<le> MOD_MAX then
        let b = push_bit (unat (usage - MOD_MIN)) 1 in
        if flags AND EVENT_BREAK = EVENT_BREAK then m AND NOT b else m OR b
      else m)"

lemma post_key_event_Ok:
  "u \<noteq> 0 \<Longrightarrow> post_key_event m (event_bits u 0 f) = Ok (next_modifiers f u m, event_bits u (next_modifiers f u m) f)"
  by (auto simp: post_key_event_def next_modifiers_def key_event_new_Ok is_break_def Let_def)

fun posted_events :: "u8 list \<Rightarrow> u8 \<Rightarrow> u8 \<Rightarrow> u32 list" where
  "posted_events [] f m = []"
| "posted_events (u # us) f m = event_bits u (next_modifiers f u m) f # posted_events us f (next_modifiers f u m)"

lemma post_usages_Ok:
  "0 \<notin> set us \<Longrightarrow> post_usages us f m = Ok (fold (next_modifiers f) us m, posted_events us f m)"
  by (induction us arbitrary: m) (auto simp: key_event_new_Ok post_key_event_Ok)

lemma posted_usages: "map ke_usage (posted_events us f m) = us" "\<forall>e\<in>set (posted_events us f m). ke_flags e = f"
  by (induction us arbitrary: m) auto

text \<open>Keys that are no modifiers leave the modifiers alone.\<close>

lemma posted_plain:
  assumes "\<forall>u\<in>set us. \<not> (MOD_MIN \<le> u \<and> u \<le> MOD_MAX)"
  shows "fold (next_modifiers f) us m = m \<and> posted_events us f m = map (\<lambda>u. event_bits u m f) us"
proof -
  have "next_modifiers f u m = m" if "u \<in> set us" for u m using assms that by (auto simp: next_modifiers_def)
  then show ?thesis by (induction us) auto
qed

section \<open>Modifiers follow the reports\<close>

lemma mod_usages: "map word_of_nat [unat MOD_MIN ..< unat MOD_MAX] = ([0xE0, 0xE1, 0xE2, 0xE3, 0xE4, 0xE5, 0xE6] :: u8 list)"
  by (simp add: MOD_MIN_def MOD_MAX_def upt_rec)

definition mod_index :: "u8 \<Rightarrow> nat" where
  "mod_index u = unat (u - MOD_MIN)"

lemma bit_next_modifiers:
  assumes "MOD_MIN \<le> u" "u \<le> MOD_MAX" "j < 8"
  shows "bit (next_modifiers f u m) j = (if mod_index u = j then f AND EVENT_BREAK \<noteq> EVENT_BREAK else bit m j)"
  using assms by (auto simp: next_modifiers_def Let_def bit_simps mod_index_def)

lemma bit_fold_modifiers:
  assumes "\<forall>u\<in>set us. MOD_MIN \<le> u \<and> u \<le> MOD_MAX" "j < 8"
  shows "bit (fold (next_modifiers f) us m) j = (if j \<in> mod_index ` set us then f AND EVENT_BREAK \<noteq> EVENT_BREAK else bit m j)"
  using assms(1)
proof (induction us arbitrary: m)
  case (Cons u us)
  then show ?case using bit_next_modifiers [OF _ _ assms(2), of u f m] by auto
qed simp

lemma modifiers_of_range: "\<forall>u\<in>set (modifiers_of a b). MOD_MIN \<le> u \<and> u \<le> MOD_MAX" "0 \<notin> set (modifiers_of a b)"
  unfolding modifiers_of_def mod_usages by (auto simp: MOD_MIN_def MOD_MAX_def)

lemma modifiers_of_index:
  assumes "j < 8"
  shows "j \<in> mod_index ` set (modifiers_of a b) \<longleftrightarrow> j < 7 \<and> bit a j \<and> \<not> bit b j"
proof -
  have idx: "mod_index ` set [0xE0, 0xE1, 0xE2, 0xE3, 0xE4, 0xE5, 0xE6] = {0 ..< 7}" (is "mod_index ` ?U = _")
    by (auto simp: mod_index_def MOD_MIN_def atLeastLessThan_nat_numeral)
  have "set (modifiers_of a b) = {u \<in> ?U. bit a (mod_index u) \<and> \<not> bit b (mod_index u)}"
    unfolding modifiers_of_def mod_usages by (auto simp: Let_def mod_index_def bit_iff_and_push_bit_not_eq_0)
  then have "j \<in> mod_index ` set (modifiers_of a b) \<longleftrightarrow> j \<in> mod_index ` ?U \<and> bit a j \<and> \<not> bit b j" by auto
  then show ?thesis unfolding idx by simp
qed

text \<open>The modifiers found are those of the first seven bits, in their order.\<close>

lemma modifiers_of_bits:
  "modifiers_of a b = map (\<lambda>j. 0xE0 + word_of_nat j) (filter (\<lambda>j. bit a j \<and> \<not> bit b j) [0..<7])"
proof -
  have "[0..<7] = [0, 1, 2, 3, 4, 5, 6 :: nat]" by (simp add: upt_rec)
  then have usages: "map word_of_nat [unat MOD_MIN ..< unat MOD_MAX] = map (\<lambda>j. 0xE0 + word_of_nat j :: u8) [0..<7]"
    unfolding mod_usages by simp
  have "unat (word_of_nat j :: u8) = j" if "j < 7" for j
    using that by (simp add: unsigned_of_nat take_bit_nat_def)
  then show ?thesis unfolding modifiers_of_def usages
    by (auto simp: filter_map o_def MOD_MIN_def Let_def bit_iff_and_push_bit_not_eq_0
        intro!: arg_cong [where f = "map _"] filter_cong)
qed

text \<open>
  C29: a keyboard report becomes the events of the keys that changed.  The released modifiers come first, then the pressed
  ones, each of the first seven exactly once and in the order of their bits (the eighth, the right GUI key, is never reported);
  then the released keys and the pressed keys, each in the order of its report; an error code is no key.  The events of keys
  carry the modifiers that the manager then keeps, which agree with this report for the first seven modifiers, and no event
  with the forbidden value zero is made.  Neither report has a modifier key among its key data, and the manager's
  modifiers agree with the previous report.
\<close>

theorem key_report_events:
  assumes "\<forall>u\<in>set (kr_keydata (ks_current s)) \<union> set (kr_keydata r). \<not> (MOD_MIN \<le> u \<and> u \<le> MOD_MAX)"
    and "\<forall>j<7. bit m j = bit (kr_modifier (ks_current s)) j"
  shows "\<exists>m' e1 e2. process_report s m r =
      Ok (\<lparr>ks_current = r, ks_prev = ks_current s\<rparr>, m', e1 @ e2 @
        map (\<lambda>u. event_bits u m' EVENT_BREAK) (filter (\<lambda>u. u \<noteq> 0 \<and> u \<noteq> 1 \<and> u \<notin> set (kr_keydata r)) (kr_keydata (ks_current s))) @
        map (\<lambda>u. event_bits u m' 0) (filter (\<lambda>u. u \<noteq> 0 \<and> u \<noteq> 1 \<and> u \<notin> set (kr_keydata (ks_current s))) (kr_keydata r))) \<and>
      (\<forall>j<7. bit m' j = bit (kr_modifier r) j) \<and> bit m' 7 = bit m 7 \<and>
      map ke_usage e1 = map (\<lambda>j. 0xE0 + word_of_nat j) (filter (\<lambda>j. bit (kr_modifier (ks_current s)) j \<and> \<not> bit (kr_modifier r) j) [0..<7]) \<and>
      map ke_usage e2 = map (\<lambda>j. 0xE0 + word_of_nat j) (filter (\<lambda>j. bit (kr_modifier r) j \<and> \<not> bit (kr_modifier (ks_current s)) j) [0..<7]) \<and>
      (\<forall>e\<in>set e1. ke_flags e = EVENT_BREAK) \<and> (\<forall>e\<in>set e2. ke_flags e = 0)"
proof -
  let ?p = "kr_modifier (ks_current s)" and ?c = "kr_modifier r"
  let ?r1 = "modifiers_of ?p ?c" and ?r2 = "modifiers_of ?c ?p"
  let ?m1 = "fold (next_modifiers EVENT_BREAK) ?r1 m"
  let ?m2 = "fold (next_modifiers 0) ?r2 ?m1"
  let ?k1 = "keys_of (kr_keydata (ks_current s)) (kr_keydata r)" and ?k2 = "keys_of (kr_keydata r) (kr_keydata (ks_current s))"
  have keys: "\<forall>u\<in>set ?k1. \<not> (MOD_MIN \<le> u \<and> u \<le> MOD_MAX)" "\<forall>u\<in>set ?k2. \<not> (MOD_MIN \<le> u \<and> u \<le> MOD_MAX)" "0 \<notin> set ?k1" "0 \<notin> set ?k2"
    using assms(1) by (auto simp: keys_of_def KEY_NONE_def)
  have bits: "bit ?m2 j = (if j < 7 then bit ?c j else bit m j)" if "j < 8" for j
    using that assms(2) by (auto simp: bit_fold_modifiers modifiers_of_range modifiers_of_index EVENT_BREAK_def)
  have run: "process_report s m r =
      Ok (\<lparr>ks_current = r, ks_prev = ks_current s\<rparr>, ?m2, posted_events ?r1 EVENT_BREAK m @ posted_events ?r2 0 ?m1 @
        map (\<lambda>u. event_bits u ?m2 EVENT_BREAK) ?k1 @ map (\<lambda>u. event_bits u ?m2 0) ?k2)"
    using keys by (simp add: process_report_def Let_def post_usages_Ok modifiers_of_range posted_plain)
  have keys_eq: "keys_of a b = filter (\<lambda>u. u \<noteq> 0 \<and> u \<noteq> 1 \<and> u \<notin> set b) a" for a b
    by (simp add: keys_of_def KEY_NONE_def ERR_ROLL_OVER_def)
  show ?thesis
  proof (intro exI conjI)
    show "process_report s m r = Ok (\<lparr>ks_current = r, ks_prev = ks_current s\<rparr>, ?m2, posted_events ?r1 EVENT_BREAK m @ posted_events ?r2 0 ?m1 @
        map (\<lambda>u. event_bits u ?m2 EVENT_BREAK) (filter (\<lambda>u. u \<noteq> 0 \<and> u \<noteq> 1 \<and> u \<notin> set (kr_keydata r)) (kr_keydata (ks_current s))) @
        map (\<lambda>u. event_bits u ?m2 0) (filter (\<lambda>u. u \<noteq> 0 \<and> u \<noteq> 1 \<and> u \<notin> set (kr_keydata (ks_current s))) (kr_keydata r)))"
      using run unfolding keys_eq .
    show "\<forall>j<7. bit ?m2 j = bit ?c j" "bit ?m2 7 = bit m 7" using bits by simp_all
    show "map ke_usage (posted_events ?r1 EVENT_BREAK m) = map (\<lambda>j. 0xE0 + word_of_nat j) (filter (\<lambda>j. bit ?p j \<and> \<not> bit ?c j) [0..<7])"
      "map ke_usage (posted_events ?r2 0 ?m1) = map (\<lambda>j. 0xE0 + word_of_nat j) (filter (\<lambda>j. bit ?c j \<and> \<not> bit ?p j) [0..<7])"
      by (simp_all only: posted_usages(1) modifiers_of_bits)
  qed (rule posted_usages(2))+
qed

theorem key_report_events_witness:
  "\<exists>s' m' es. process_report keyboard_new 0 (key_report_empty\<lparr>kr_modifier := 2, kr_keydata := [4, 0, 0, 0, 0, 0]\<rparr>) = Ok (s', m', es) \<and>
     last es = event_bits 4 m' 0 \<and> bit m' 1"
proof -
  let ?r = "key_report_empty\<lparr>kr_modifier := 2, kr_keydata := [4, 0, 0, 0, 0, 0]\<rparr>"
  have old: "kr_keydata (ks_current keyboard_new) = [0, 0, 0, 0, 0, 0]" "kr_modifier (ks_current keyboard_new) = 0"
    by (simp_all add: keyboard_new_def key_report_empty_def KEY_NONE_def eval_nat_numeral)
  have new: "kr_keydata ?r = [4, 0, 0, 0, 0, 0]" "bit (kr_modifier ?r) 1" by simp_all
  have h1: "\<forall>u\<in>set (kr_keydata (ks_current keyboard_new)) \<union> set (kr_keydata ?r). \<not> (MOD_MIN \<le> u \<and> u \<le> MOD_MAX)"
    by (simp add: old new MOD_MIN_def)
  have h2: "\<forall>j<7. bit (0 :: u8) j = bit (kr_modifier (ks_current keyboard_new)) j" by (simp add: old)
  from key_report_events [OF h1 h2] obtain m' e1 e2 where run: "process_report keyboard_new 0 ?r = Ok (\<lparr>ks_current = ?r, ks_prev = ks_current keyboard_new\<rparr>, m',
      e1 @ e2 @ map (\<lambda>u. event_bits u m' EVENT_BREAK) (filter (\<lambda>u. u \<noteq> 0 \<and> u \<noteq> 1 \<and> u \<notin> set (kr_keydata ?r)) (kr_keydata (ks_current keyboard_new))) @
      map (\<lambda>u. event_bits u m' 0) (filter (\<lambda>u. u \<noteq> 0 \<and> u \<noteq> 1 \<and> u \<notin> set (kr_keydata (ks_current keyboard_new))) (kr_keydata ?r)))"
    and m': "\<forall>j<7. bit m' j = bit (kr_modifier ?r) j" by (elim exE conjE) (rule that)
  from m' have "bit m' 1" using new(2) by simp
  with run show ?thesis unfolding old new by simp
qed

text \<open>The last modifier key, the right GUI key, is never reported.\<close>

theorem right_gui_lost:
  "process_report keyboard_new 0 (key_report_empty\<lparr>kr_modifier := 0x80\<rparr>) =
     Ok (\<lparr>ks_current = key_report_empty\<lparr>kr_modifier := 0x80\<rparr>, ks_prev = key_report_empty\<rparr>, 0, [])"
proof -
  have "modifiers_of 0x80 0 = []" "modifiers_of 0 0x80 = []" unfolding modifiers_of_def mod_usages by (simp_all add: MOD_MIN_def)
  then show ?thesis by (simp add: process_report_def keys_of_def keyboard_new_def key_report_empty_def)
qed


section \<open>Characters\<close>

lemma table_lengths [simp]: "length NON_ALPHABET_101 = 27" "length NON_ALPHABET_101_S = 27" "length NON_ALPHABET_109 = 27" "length CHAR_NUMPAD = 16"
  by (simp_all add: NON_ALPHABET_101_def NON_ALPHABET_101_S_def NON_ALPHABET_109_def CHAR_NUMPAD_def)

lemma tables_ascii:
  "\<forall>c\<in>set NON_ALPHABET_101. c < 0x80" "\<forall>c\<in>set NON_ALPHABET_101_S. c < 0x80" "\<forall>c\<in>set NON_ALPHABET_109. c < 0x80" "\<forall>c\<in>set CHAR_NUMPAD. c < 0x80"
  by (simp_all add: NON_ALPHABET_101_def NON_ALPHABET_101_S_def NON_ALPHABET_109_def CHAR_NUMPAD_def)

lemma table_at_ascii: "i < length t \<Longrightarrow> \<forall>c\<in>set t. c < 0x80 \<Longrightarrow> \<exists>c. table_at t i = Ok c \<and> c < 0x80"
  by (simp add: table_at_def)

lemma xor_ascii: "c < 0x80 \<Longrightarrow> (c XOR 0x20) < (0x80::nat)" "c < 0x80 \<Longrightarrow> (c XOR 0x10) < (0x80::nat)"
proof -
  assume c: "c < 0x80"
  have "(a XOR b) < 2 ^ 7" if "a < 2 ^ 7" "b < 2 ^ 7" for a b :: nat
    using that by (metis take_bit_nat_eq_self_iff take_bit_xor)
  from this [of c] c show "(c XOR 0x20) < (0x80::nat)" "(c XOR 0x10) < (0x80::nat)" by simp_all
qed

lemma and_control: "(c AND 0x1F) < (0x80::nat)"
proof -
  have "(c AND 0x1F) = take_bit 5 c" by (simp add: take_bit_eq_mask mask_eq_exp_minus_1)
  then show ?thesis using take_bit_nat_less_exp [of 5 c] by simp
qed

lemmas octet_ops = xor_ascii and_control

definition is_character :: "nat \<Rightarrow> bool" where
  "is_character c \<longleftrightarrow> c < 0x80 \<or> c = INVALID_UNICHAR"

lemma and_then_character:
  "\<exists>c. r = Ok c \<and> is_character c \<Longrightarrow> (\<And>c. is_character c \<Longrightarrow> \<exists>d. f c = Ok d \<and> is_character d) \<Longrightarrow> \<exists>d. and_then r f = Ok d \<and> is_character d"
  by auto

lemma table_character:
  "i < 27 \<Longrightarrow> \<exists>c. table_at NON_ALPHABET_101 i = Ok c \<and> is_character c" "i < 27 \<Longrightarrow> \<exists>c. table_at NON_ALPHABET_101_S i = Ok c \<and> is_character c"
  "i < 27 \<Longrightarrow> \<exists>c. table_at NON_ALPHABET_109 i = Ok c \<and> is_character c" "i < 16 \<Longrightarrow> \<exists>c. table_at CHAR_NUMPAD i = Ok c \<and> is_character c"
  using table_at_ascii [OF _ tables_ascii(1), of i] table_at_ascii [OF _ tables_ascii(2), of i] table_at_ascii [OF _ tables_ascii(3), of i]
    table_at_ascii [OF _ tables_ascii(4), of i] by (auto simp: is_character_def)

lemma usage_to_char_109_character: "\<exists>c. usage_to_char_109 u m = Ok c \<and> is_character c"
  unfolding usage_to_char_109_def Let_def
proof (rule and_then_character, goal_cases)
  case 1
  show ?case by (auto intro!: and_then_character table_character(3,4) simp: octet_ops) (auto simp: is_character_def octet_ops)
next
  case (2 c)
  then show ?case by (auto simp: is_character_def octet_ops INVALID_UNICHAR_def)
qed

lemma usage_to_char_101_character: "\<exists>c. usage_to_char_101 u m = Ok c \<and> is_character c"
  unfolding usage_to_char_101_def Let_def
proof (rule and_then_character, goal_cases)
  case 1
  show ?case by (auto intro!: table_character simp: octet_ops) (auto simp: is_character_def octet_ops)
next
  case (2 c)
  then show ?case by (auto simp: is_character_def octet_ops INVALID_UNICHAR_def)
qed

text \<open>
  Every key has a character.  For all keys and modifiers the tables are indexed inside their bounds, and the result
  is an ASCII character or the code point that stands for no character, on both keyboards; a letter is its lower case
  letter, its upper case letter with shift, or its control character.
\<close>

theorem key_has_character:
  "(\<exists>c. usage_to_char_109 u m = Ok c \<and> (c < 0x80 \<or> c = INVALID_UNICHAR)) \<and>
   (\<exists>c. usage_to_char_101 u m = Ok c \<and> (c < 0x80 \<or> c = INVALID_UNICHAR)) \<and>
   (\<forall>k<26. u = word_of_nat (4 + k) \<longrightarrow>
      usage_to_char_109 u m = Ok (if has_ctrl m then k + 1 else if has_shift m then 0x41 + k else 0x61 + k))"
proof (intro conjI)
  show "\<exists>c. usage_to_char_109 u m = Ok c \<and> (c < 0x80 \<or> c = INVALID_UNICHAR)"
    using usage_to_char_109_character [of u m] by (simp add: is_character_def)
  show "\<exists>c. usage_to_char_101 u m = Ok c \<and> (c < 0x80 \<or> c = INVALID_UNICHAR)"
    using usage_to_char_101_character [of u m] by (simp add: is_character_def)
  show "\<forall>k<26. u = word_of_nat (4 + k) \<longrightarrow>
      usage_to_char_109 u m = Ok (if has_ctrl m then k + 1 else if has_shift m then 0x41 + k else 0x61 + k)"
  proof (intro allI impI)
    fix k :: nat assume k: "k < 26" "u = word_of_nat (4 + k)"
    then have u: "unat u = 4 + k" by (simp only: unsigned_of_nat take_bit_nat_def) simp
    have "\<forall>k\<in>set [0..<26]. (97 + k AND 31) = k + 1 \<and> (97 + k XOR 32) = 65 + k" by code_simp
    then have "(97 + k AND 31) = k + 1" "(97 + k XOR 32) = 65 + k" using k(1) by auto
    then show "usage_to_char_109 u m = Ok (if has_ctrl m then k + 1 else if has_shift m then 0x41 + k else 0x61 + k)"
      using k(1) by (simp add: usage_to_char_109_def u add.commute)
  qed
qed

end
