(* ===== verification/Isize.thy ===== *)
theory Isize
  imports Prelude "HOL-Library.Signed_Division"
begin

text \<open>
  \<open>isize\<close> of the graphics library: integers that wrap around at 64 bits, and the casts to and from
  \<open>usize\<close>.  Every operation writes its wrap-around out; for operands of the size a screen can
  have (\<open>small\<close>) the wrap-around is the identity, which \<open>isize_simps\<close> removes.
\<close>

named_theorems isize_simps \<open>wrap-around of operations whose result is in range\<close>

definition isize_wrap :: "int \<Rightarrow> int" where
  "isize_wrap i = (i + 2 ^ 63) mod 2 ^ 64 - 2 ^ 63"

definition isize_max :: int where "isize_max = 2 ^ 63 - 1"

definition isize_min :: int where "isize_min = - (2 ^ 63)"

definition isize_add :: "int \<Rightarrow> int \<Rightarrow> int" where "isize_add a b = isize_wrap (a + b)"

definition isize_sub :: "int \<Rightarrow> int \<Rightarrow> int" where "isize_sub a b = isize_wrap (a - b)"

definition isize_mul :: "int \<Rightarrow> int \<Rightarrow> int" where "isize_mul a b = isize_wrap (a * b)"

definition as_isize :: "nat \<Rightarrow> int" where "as_isize n = isize_wrap (int n)"

definition as_usize :: "int \<Rightarrow> nat" where "as_usize i = nat (i mod 2 ^ 64)"

definition usize_mul :: "nat \<Rightarrow> nat \<Rightarrow> nat" where "usize_mul a b = a * b mod 2 ^ 64"

text \<open>Division truncates; a divisor of zero, and \<open>isize::MIN / -1\<close>, panic in every build.\<close>

definition isize_div :: "int \<Rightarrow> int \<Rightarrow> ('e, int) outcome" where
  "isize_div a b = (if b = 0 \<or> a = isize_min \<and> b = - 1 then Panic else Ok (a sdiv b))"

definition in_isize :: "int \<Rightarrow> bool" where
  "in_isize i \<longleftrightarrow> isize_min \<le> i \<and> i \<le> isize_max"

text \<open>Coordinates and lengths of drawings: \<open>2 ^ 32\<close> pixels are more than any screen has.\<close>

definition small :: "int \<Rightarrow> bool" where
  "small i \<longleftrightarrow> \<bar>i\<bar> < 2 ^ 32"

lemma isize_wrap_id [isize_simps]: "- (2 ^ 63) \<le> i \<Longrightarrow> i < 2 ^ 63 \<Longrightarrow> isize_wrap i = i"
  by (simp add: isize_wrap_def)

lemma isize_wrap_range: "in_isize (isize_wrap i)"
  by (simp add: in_isize_def isize_wrap_def isize_min_def isize_max_def)

lemma isize_wrap_idem [simp]: "isize_wrap (isize_wrap i) = isize_wrap i"
  using isize_wrap_range [of i] by (intro isize_wrap_id) (simp_all add: in_isize_def isize_min_def isize_max_def)

lemma isize_add_exact [isize_simps]: "- (2 ^ 63) \<le> a + b \<Longrightarrow> a + b < 2 ^ 63 \<Longrightarrow> isize_add a b = a + b"
  by (simp add: isize_add_def isize_wrap_id)

lemma isize_sub_exact [isize_simps]: "- (2 ^ 63) \<le> a - b \<Longrightarrow> a - b < 2 ^ 63 \<Longrightarrow> isize_sub a b = a - b"
  by (simp add: isize_sub_def isize_wrap_id)

lemma isize_mul_exact: "- (2 ^ 63) \<le> a * b \<Longrightarrow> a * b < 2 ^ 63 \<Longrightarrow> isize_mul a b = a * b"
  by (simp add: isize_mul_def isize_wrap_id)

lemma as_usize_nonneg [isize_simps]: "0 \<le> i \<Longrightarrow> i < 2 ^ 63 \<Longrightarrow> as_usize i = nat i"
  by (simp add: as_usize_def)

lemma as_isize_exact [isize_simps]: "n < 2 ^ 63 \<Longrightarrow> as_isize n = int n"
  by (simp add: as_isize_def isize_wrap_id)

lemma usize_mul_exact: "a * b < 2 ^ 64 \<Longrightarrow> usize_mul a b = a * b"
  by (simp add: usize_mul_def)

lemma small_iff: "small i \<longleftrightarrow> - (2 ^ 32) < i \<and> i < 2 ^ 32"
  by (auto simp: small_def)

lemma isize_wrap_add: "isize_wrap (isize_wrap a + b) = isize_wrap (a + b)"
proof -
  have "isize_wrap a + b + 2 ^ 63 = (a + 2 ^ 63) mod 2 ^ 64 + b" by (simp add: isize_wrap_def)
  then show ?thesis by (simp add: isize_wrap_def mod_simps ac_simps)
qed

end
