(* ===== verification/HidDriver.thy ===== *)
theory HidDriver
  imports HidReportSafety HidBits HidKeys Isize
begin

text \<open>
  The task that reads the reports of an input device (src/system/src/drivers/usb/drivers/usb_hid.rs, \<open>_usb_hid_task\<close>):
  what one report does to the keyboard and the mouse.  A report is the bytes that the device sent, its layout comes from
  the descriptor of the same device, and \<open>unwrap\<close> of an error is a panic.
\<close>

section \<open>Usages the task knows\<close>

definition HID_KEYBOARD :: u32 where "HID_KEYBOARD = hid_usage_new PAGE_GENERIC_DESKTOP 0x0006"
definition HID_MOUSE :: u32 where "HID_MOUSE = hid_usage_new PAGE_GENERIC_DESKTOP 0x0002"
definition HID_X :: u32 where "HID_X = hid_usage_new PAGE_GENERIC_DESKTOP 0x0030"
definition HID_Y :: u32 where "HID_Y = hid_usage_new PAGE_GENERIC_DESKTOP 0x0031"
definition HID_WHEEL :: u32 where "HID_WHEEL = hid_usage_new PAGE_GENERIC_DESKTOP 0x0038"
definition HID_BUTTON_1 :: u32 where "HID_BUTTON_1 = hid_usage_new PAGE_BUTTON 1"
definition HID_CONSUMER_CONTROL :: u32 where "HID_CONSUMER_CONTROL = hid_usage_new PAGE_CONSUMER 0x0001"

definition full_qualified_usage :: "u8 \<Rightarrow> u32" where
  "full_qualified_usage u = hid_usage_new PAGE_KEYBOARD (ucast u)"

lemmas hid_usages = HID_KEYBOARD_def HID_MOUSE_def HID_X_def HID_Y_def HID_WHEEL_def HID_BUTTON_1_def HID_CONSUMER_CONTROL_def
  PAGE_GENERIC_DESKTOP_def PAGE_BUTTON_def PAGE_CONSUMER_def PAGE_KEYBOARD_def hid_usage_new_def full_qualified_usage_def


section \<open>Keyboards\<close>

text \<open>The usages of an array; a value that cannot be read is left out.\<close>

fun read_keys :: "nat \<Rightarrow> bit_reader \<Rightarrow> main_item \<Rightarrow> u8 list \<times> bit_reader" where
  "read_keys 0 r item = ([], r)"
| "read_keys (Suc n) r item =
     (case read_value r item of
        Ok (v, r) \<Rightarrow> (let (vs, r) = read_keys n r item in (ucast v # vs, r))
      | _ \<Rightarrow> read_keys n r item)"

text \<open>\<open>iter_mut().zip\<close>: the first elements are replaced.\<close>

definition overwrite :: "'a list \<Rightarrow> 'a list \<Rightarrow> 'a list" where
  "overwrite old vs = take (length old) vs @ drop (length vs) old"

definition keyboard_item :: "main_item \<Rightarrow> bit_reader \<times> key_report \<Rightarrow> bit_reader \<times> key_report" where
  "keyboard_item item = (\<lambda>(r, report).
     if mi_usage_min item = full_qualified_usage MOD_MIN \<and> mi_usage_max item = full_qualified_usage MOD_MAX then
       (case read_bit_array r item of
          Ok (v, r) \<Rightarrow> (r, report\<lparr>kr_modifier := ucast v\<rparr>)
        | _ \<Rightarrow> (r, report\<lparr>kr_modifier := 0\<rparr>))
     else if unat (mi_report_size item) = 8 \<and> item_is_array item \<and> usage_page_of (mi_usage_min item) = PAGE_KEYBOARD then
       (let (vs, r) = read_keys (unat (mi_report_count item)) r item in (r, report\<lparr>kr_keydata := overwrite (kr_keydata report) vs\<rparr>))
     else (reader_advance_by r item, report))"

definition keyboard_report :: "report_app \<Rightarrow> bit_reader \<Rightarrow> key_report" where
  "keyboard_report app r = snd (fold keyboard_item (input_items app) (r, key_report_empty))"


section \<open>Mice\<close>

record mouse_report =
  mr_buttons :: u8
  mr_x :: int
  mr_y :: int
  mr_wheel :: int

definition mouse_report_default :: mouse_report where
  "mouse_report_default = \<lparr>mr_buttons = 0, mr_x = 0, mr_y = 0, mr_wheel = 0\<rparr>"

record mouse_state =
  ms_current_buttons :: u8
  ms_prev_buttons :: u8
  ms_x :: int
  ms_y :: int
  ms_wheel :: int
  ms_max_x :: int
  ms_max_y :: int

definition mouse_state_empty :: mouse_state where
  "mouse_state_empty = \<lparr>ms_current_buttons = 0, ms_prev_buttons = 0, ms_x = 0, ms_y = 0, ms_wheel = 0, ms_max_x = 0, ms_max_y = 0\<rparr>"

definition process_relative_report :: "mouse_report \<Rightarrow> mouse_state \<Rightarrow> mouse_state" where
  "process_relative_report report s =
     s\<lparr>ms_prev_buttons := ms_current_buttons s, ms_current_buttons := mr_buttons report,
       ms_x := isize_add (ms_x s) (mr_x report), ms_y := isize_add (ms_y s) (mr_y report)\<rparr>"

definition process_absolute_report :: "mouse_report \<Rightarrow> mouse_state \<Rightarrow> mouse_state" where
  "process_absolute_report report s =
     s\<lparr>ms_prev_buttons := ms_current_buttons s, ms_current_buttons := mr_buttons report,
       ms_x := mr_x report, ms_y := mr_y report\<rparr>"

definition read_unwrap :: "('e, 'a) outcome \<Rightarrow> (unit, 'a) outcome" where
  "read_unwrap r = (case r of Ok x \<Rightarrow> Ok x | Err _ \<Rightarrow> Panic | Panic \<Rightarrow> Panic | UB u \<Rightarrow> UB u)"

record mouse_read =
  mo_reader :: bit_reader
  mo_absolute :: bool
  mo_report :: mouse_report
  mo_state :: mouse_state

text \<open>An item that is no bit array of buttons does not move the reader.\<close>

definition mouse_buttons :: "main_item \<Rightarrow> mouse_read \<Rightarrow> (unit, mouse_read) outcome" where
  "mouse_buttons item m =
     (if item_is_variable item \<and> unat (mi_report_size item) = 1 then
        and_then (read_unwrap (read_bit_array (mo_reader m) item)) (\<lambda>(v, r).
          Ok (m\<lparr>mo_reader := r, mo_report := (mo_report m)\<lparr>mr_buttons := ucast v\<rparr>\<rparr>))
      else Ok m)"

definition mouse_x :: "main_item \<Rightarrow> mouse_read \<Rightarrow> (unit, mouse_read) outcome" where
  "mouse_x item m =
     (if item_is_relative item then
        and_then (read_unwrap (read_value_signed (mo_reader m) item)) (\<lambda>(v, r).
          Ok (m\<lparr>mo_reader := r, mo_report := (mo_report m)\<lparr>mr_x := v\<rparr>\<rparr>))
      else
        and_then (read_unwrap (read_value (mo_reader m) item)) (\<lambda>(v, r).
          Ok (m\<lparr>mo_reader := r, mo_absolute := True, mo_report := (mo_report m)\<lparr>mr_x := uint v\<rparr>,
            mo_state := (mo_state m)\<lparr>ms_max_x := uint (mi_logical_max item)\<rparr>\<rparr>)))"

definition mouse_y :: "main_item \<Rightarrow> mouse_read \<Rightarrow> (unit, mouse_read) outcome" where
  "mouse_y item m =
     (if item_is_relative item then
        and_then (read_unwrap (read_value_signed (mo_reader m) item)) (\<lambda>(v, r).
          Ok (m\<lparr>mo_reader := r, mo_report := (mo_report m)\<lparr>mr_y := v\<rparr>\<rparr>))
      else
        and_then (read_unwrap (read_value (mo_reader m) item)) (\<lambda>(v, r).
          Ok (m\<lparr>mo_reader := r, mo_absolute := True, mo_report := (mo_report m)\<lparr>mr_y := uint v\<rparr>,
            mo_state := (mo_state m)\<lparr>ms_max_y := uint (mi_logical_max item)\<rparr>\<rparr>)))"

definition mouse_wheel :: "main_item \<Rightarrow> mouse_read \<Rightarrow> (unit, mouse_read) outcome" where
  "mouse_wheel item m =
     (case read_value_signed (mo_reader m) item of
        Ok (v, r) \<Rightarrow> Ok (m\<lparr>mo_reader := r, mo_report := (mo_report m)\<lparr>mr_wheel := v\<rparr>\<rparr>)
      | _ \<Rightarrow> Ok (m\<lparr>mo_report := (mo_report m)\<lparr>mr_wheel := 0\<rparr>\<rparr>))"

definition mouse_item :: "main_item \<Rightarrow> mouse_read \<Rightarrow> (unit, mouse_read) outcome" where
  "mouse_item item m =
     (if mi_usage_min item = HID_BUTTON_1 then mouse_buttons item m
      else if mi_usage_min item = HID_X then mouse_x item m
      else if mi_usage_min item = HID_Y then mouse_y item m
      else if mi_usage_min item = HID_WHEEL then mouse_wheel item m
      else Ok (m\<lparr>mo_reader := reader_advance_by (mo_reader m) item\<rparr>))"

fun mouse_items :: "main_item list \<Rightarrow> mouse_read \<Rightarrow> (unit, mouse_read) outcome" where
  "mouse_items [] m = Ok m"
| "mouse_items (item # items) m = and_then (mouse_item item m) (mouse_items items)"


section \<open>One report\<close>

text \<open>The application of a report: by its id in the first byte, or the primary one.\<close>

definition hid_report_app :: "hid_parsed \<Rightarrow> u8 list \<Rightarrow> (unit, report_app option) outcome" where
  "hid_report_app p buffer =
     (if has_report_id p then
        (case buffer of [] \<Rightarrow> Panic | b # _ \<Rightarrow> Ok (if b = 0 then None else hp_tagged p b))
      else Ok (hp_primary p))"

record hid_task =
  ht_keys :: keyboard_state
  ht_modifiers :: u8
  ht_mouse :: mouse_state
  ht_events :: "u32 list"

text \<open>Reports that are too short and other applications are passed over; consumer controls are only logged.\<close>

definition hid_handle :: "hid_parsed \<Rightarrow> u8 list \<Rightarrow> hid_task \<Rightarrow> (unit, hid_task) outcome" where
  "hid_handle p buffer t =
     and_then (hid_report_app p buffer) (\<lambda>found.
       case found of
         None \<Rightarrow> Ok t
       | Some app \<Rightarrow>
           if usize_mul (length buffer) 8 < usize_add (initial_bit_position p) (bit_count_for_input app) then Ok t
           else
             let r = \<lparr>br_slice = buffer, br_position = initial_bit_position p\<rparr> in
             if ra_usage app = HID_KEYBOARD then
               and_then (process_report (ht_keys t) (ht_modifiers t) (keyboard_report app r)) (\<lambda>(keys, modifiers, events).
                 Ok (t\<lparr>ht_keys := keys, ht_modifiers := modifiers, ht_events := ht_events t @ events\<rparr>))
             else if ra_usage app = HID_MOUSE then
               and_then (mouse_items (input_items app)
                 \<lparr>mo_reader = r, mo_absolute = False, mo_report = mouse_report_default, mo_state = ht_mouse t\<rparr>) (\<lambda>m.
                 Ok (t\<lparr>ht_mouse := (if mo_absolute m then process_absolute_report else process_relative_report) (mo_report m) (mo_state m)\<rparr>))
             else Ok t)"


section \<open>The keyboard of the specification\<close>

text \<open>The report descriptor that every keyboard of the boot protocol has, as items.\<close>

definition boot_keyboard_items :: "(hid_tag \<times> hid_value) list" where
  "boot_keyboard_items =
     [(UsagePage, X8 1), (HidUsage, X8 6), (Collection, X8 1),
      (UsagePage, X8 7), (UsageMinimum, X8 0xE0), (UsageMaximum, X8 0xE7), (LogicalMinimum, X8 0), (LogicalMaximum, X8 1),
      (ReportSize, X8 1), (ReportCount, X8 8), (Input, X8 2),
      (ReportCount, X8 1), (ReportSize, X8 8), (Input, X8 1),
      (ReportCount, X8 5), (ReportSize, X8 1), (UsagePage, X8 8), (UsageMinimum, X8 1), (UsageMaximum, X8 5), (Output, X8 2),
      (ReportCount, X8 1), (ReportSize, X8 3), (Output, X8 1),
      (ReportCount, X8 6), (ReportSize, X8 8), (LogicalMinimum, X8 0), (LogicalMaximum, X8 0x65),
      (UsagePage, X8 7), (UsageMinimum, X8 0), (UsageMaximum, X8 0x65), (Input, X8 0), (EndCollection, HZero)]"

definition boot_keyboard :: "u8 list" where
  "boot_keyboard = concat (map encode_item boot_keyboard_items)"

end
