(* ===== verification/HidDriverSafety.thy ===== *)
theory HidDriverSafety
  imports HidDriver
begin

text \<open>
  From the descriptor and the bytes of a report to the events: a keyboard of the boot protocol is read as its specification
  says; a report of a mouse never panics when its fields are small, and panics on a descriptor with a wide field.
\<close>

section \<open>Octets of a report\<close>

lemma octet_field: "i < length bytes \<Longrightarrow> bits_value bytes (8 * i) 8 = ucast (bytes ! i)"
proof (rule bit_word_eqI)
  fix k assume k: "k < LENGTH(32)"
  show "bit (bits_value bytes (8 * i) 8) k = bit (ucast (bytes ! i) :: u32) k"
  proof (cases "k < 8")
    case True
    then have "(8 * i + k) div 8 = i" "(8 * i + k) mod 8 = k" by simp_all
    with True k show ?thesis by (simp add: bit_bits_value stream_bit_def bit_unsigned_iff)
  next
    case False
    then show ?thesis by (auto simp: bit_bits_value bit_unsigned_iff dest: bit_imp_le_length)
  qed
qed

lemma octet_of_u32 [simp]: "ucast (ucast (b :: u8) :: u32) = b"
  by (rule bit_word_eqI) (auto simp: bit_simps)

lemma read_octet: "i < length bytes \<Longrightarrow> read_bits bytes (8 * i) 8 = Ok (ucast (bytes ! i))"
  by (simp add: read_bits_field octet_field)

lemma read_keys_octets:
  assumes "mi_report_size item = 8" "\<not> item_is_const item" "\<not> item_is_relative item" "8 * length bytes < 2 ^ 64"
  shows "i + n \<le> length bytes \<Longrightarrow> read_keys n \<lparr>br_slice = bytes, br_position = 8 * i\<rparr> item =
    (take n (drop i bytes), \<lparr>br_slice = bytes, br_position = 8 * (i + n)\<rparr>)"
proof (induction n arbitrary: i)
  case (Suc n)
  then have i: "i < length bytes" by simp
  have pos: "usize_add (8 * i) 8 = 8 * Suc i" using Suc.prems assms(4) by (simp add: usize_add_def)
  have "read_value \<lparr>br_slice = bytes, br_position = 8 * i\<rparr> item = Ok (ucast (bytes ! i), \<lparr>br_slice = bytes, br_position = 8 * Suc i\<rparr>)"
    using assms(1-3) read_octet [OF i] pos by (simp add: read_value_def reader_advance_def)
  moreover have "read_keys n \<lparr>br_slice = bytes, br_position = 8 * Suc i\<rparr> item =
      (take n (drop (Suc i) bytes), \<lparr>br_slice = bytes, br_position = 8 * (Suc i + n)\<rparr>)" using Suc.prems by (intro Suc.IH) simp
  ultimately show ?case using i by (simp add: Cons_nth_drop_Suc [symmetric] del: mult_Suc_right)
qed simp


section \<open>The keyboard of the boot protocol\<close>

definition boot_modifiers :: main_item where
  "boot_modifiers = \<lparr>mi_flags = 2, mi_report_size = 1, mi_report_count = 8, mi_usage_min = 0x000700E0, mi_usage_max = 0x000700E7,
     mi_logical_min = 0, mi_logical_max = 1, mi_physical_min = 0, mi_physical_max = 0\<rparr>"

definition boot_padding :: main_item where
  "boot_padding = \<lparr>mi_flags = 1, mi_report_size = 8, mi_report_count = 1, mi_usage_min = 0, mi_usage_max = 0,
     mi_logical_min = 0, mi_logical_max = 1, mi_physical_min = 0, mi_physical_max = 0\<rparr>"

definition boot_keys :: main_item where
  "boot_keys = \<lparr>mi_flags = 0, mi_report_size = 8, mi_report_count = 6, mi_usage_min = 0x00070000, mi_usage_max = 0x00070065,
     mi_logical_min = 0, mi_logical_max = 0x65, mi_physical_min = 0, mi_physical_max = 0\<rparr>"

lemmas item_flags = item_is_const_def item_is_variable_def item_is_array_def item_is_relative_def flag_contains_def
  FLAG_CONSTANT_def FLAG_VARIABLE_def FLAG_RELATIVE_def

lemmas hid_run = open_collection_def close_collection_def collection_from_usize_def collection_types_def get_at_def hid_state_new_def
  parsed_new_def app_empty_def local_new_def hid_global_new_def hid_steps store_app_def hv_u16_def hv_as_u32_def main_item_parse_def
  main_item_new_def main_item_usages_def limit_of_def hid_usage_new_def List.map_filter_def

lemma boot_keyboard_parse:
  "\<exists>p app. hid_parse boot_keyboard = Ok p \<and> hp_report_ids p = [] \<and> hp_primary p = Some app \<and> ra_usage app = HID_KEYBOARD \<and>
     input_items app = [boot_modifiers, boot_padding, boot_keys] \<and> bit_count_for_input app = 64"
proof -
  have "hid_parse boot_keyboard = run_items 0 boot_keyboard_items hid_state_new"
    using parse_loop_encoded [of "[]" boot_keyboard_items] by (simp add: hid_parse_def boot_keyboard_def)
  then show ?thesis
    unfolding boot_keyboard_items_def
    by (simp add: hid_run flag_contains_def FLAG_CONSTANT_def FLAG_RELATIVE_def input_items_def hid_usages boot_modifiers_def boot_padding_def
        boot_keys_def bit_count_for_input_def app_bit_count_def item_bit_count_def usize_add_def)
qed

lemma boot_keyboard_read:
  assumes "input_items app = [boot_modifiers, boot_padding, boot_keys]" "length bytes = 8"
  shows "keyboard_report app \<lparr>br_slice = bytes, br_position = 0\<rparr> = \<lparr>kr_modifier = bytes ! 0, kr_reserved = 0, kr_keydata = drop 2 bytes\<rparr>"
proof -
  let ?r = "\<lambda>n. \<lparr>br_slice = bytes, br_position = 8 * n\<rparr>"
  have 1: "keyboard_item boot_modifiers (?r 0, k) = (?r 1, k\<lparr>kr_modifier := bytes ! 0\<rparr>)" for k
    using read_octet [of 0 bytes] assms(2)
    by (simp add: keyboard_item_def boot_modifiers_def hid_usages MOD_MIN_def MOD_MAX_def read_bit_array_def item_flags reader_advance_def usize_add_def)
  have 2: "keyboard_item boot_padding (?r 1, k) = (?r 2, k)" for k
    by (simp add: keyboard_item_def boot_padding_def hid_usages MOD_MIN_def MOD_MAX_def item_flags reader_advance_by_def reader_advance_def item_bit_count_def
        usize_add_def usage_page_of_def)
  have "read_keys 6 (?r 2) boot_keys = (take 6 (drop 2 bytes), ?r 8)"
    using read_keys_octets [of boot_keys bytes 2 6] assms(2) by (simp add: boot_keys_def item_flags)
  then have 3: "snd (keyboard_item boot_keys (?r 2, k)) = k\<lparr>kr_keydata := overwrite (kr_keydata k) (drop 2 bytes)\<rparr>" for k
    using assms(2) by (simp add: keyboard_item_def boot_keys_def hid_usages MOD_MIN_def MOD_MAX_def item_flags usage_page_of_def)
  show ?thesis unfolding keyboard_report_def assms(1)
    using assms(2) 1 2 3 by (simp add: key_report_empty_def overwrite_def)
qed

text \<open>
  C28: a keyboard of the boot protocol works.  Its descriptor is accepted, and every report of eight octets is handled as
  the state of the keyboard with the modifiers in the first octet and the six keys in the last ones.
\<close>

theorem boot_keyboard_report:
  "\<exists>p. hid_parse boot_keyboard = Ok p \<and>
    (\<forall>b0 b1 b2 b3 b4 b5 b6 b7 t. hid_handle p [b0, b1, b2, b3, b4, b5, b6, b7] t =
       and_then (process_report (ht_keys t) (ht_modifiers t) \<lparr>kr_modifier = b0, kr_reserved = 0, kr_keydata = [b2, b3, b4, b5, b6, b7]\<rparr>)
         (\<lambda>(keys, modifiers, events). Ok (t\<lparr>ht_keys := keys, ht_modifiers := modifiers, ht_events := ht_events t @ events\<rparr>)))"
proof -
  from boot_keyboard_parse obtain p app where p: "hid_parse boot_keyboard = Ok p" "hp_report_ids p = []" "hp_primary p = Some app"
    "ra_usage app = HID_KEYBOARD" "input_items app = [boot_modifiers, boot_padding, boot_keys]" "bit_count_for_input app = 64" by blast
  have "hid_handle p [b0, b1, b2, b3, b4, b5, b6, b7] t =
       and_then (process_report (ht_keys t) (ht_modifiers t) \<lparr>kr_modifier = b0, kr_reserved = 0, kr_keydata = [b2, b3, b4, b5, b6, b7]\<rparr>)
         (\<lambda>(keys, modifiers, events). Ok (t\<lparr>ht_keys := keys, ht_modifiers := modifiers, ht_events := ht_events t @ events\<rparr>))"
    for b0 b1 b2 b3 b4 b5 b6 b7 t
    using p(2-4,6) boot_keyboard_read [OF p(5), of "[b0, b1, b2, b3, b4, b5, b6, b7]"]
    by (simp add: hid_handle_def hid_report_app_def has_report_id_def initial_bit_position_def usize_mul_def usize_add_def)
  with p(1) show ?thesis by blast
qed

section \<open>Mice\<close>

text \<open>A field that the task reads has at most 25 bits, which fit into four octets at any position.\<close>

definition mouse_item_ok :: "main_item \<Rightarrow> bool" where
  "mouse_item_ok item \<longleftrightarrow> mi_usage_min item \<in> {HID_BUTTON_1, HID_X, HID_Y, HID_WHEEL} \<longrightarrow>
     1 \<le> unat (mi_report_size item) \<and> unat (mi_report_size item) \<le> 25 \<and>
     1 \<le> unat (mi_report_count item) \<and> unat (mi_report_count item) \<le> 25"

text \<open>The reader stays in the part of the report that belongs to the items before.\<close>

definition moved :: "nat \<Rightarrow> bit_reader \<Rightarrow> bit_reader \<Rightarrow> bool" where
  "moved n r r' \<longleftrightarrow> br_slice r' = br_slice r \<and> br_position r' \<le> br_position r + n"

lemma read_bits_small:
  assumes "1 \<le> n" "n \<le> 25" "p + n \<le> 8 * length bytes"
  shows "read_bits bytes p n = Ok (bits_value bytes p n)"
proof -
  have "p mod 8 < 8" by simp
  then have "p mod 8 + n \<le> 32" using assms(2) by linarith
  with assms show ?thesis by (simp add: read_bits_field)
qed

lemma advance_moved: "n \<le> k \<Longrightarrow> moved k r (reader_advance r n)"
  by (simp add: moved_def reader_advance_def usize_add_def mod_less_eq_dividend order_trans [OF mod_less_eq_dividend])

lemma item_size_count: "1 \<le> unat (mi_report_count item) \<Longrightarrow> unat (mi_report_size item) \<le> item_bit_count item"
  "1 \<le> unat (mi_report_size item) \<Longrightarrow> unat (mi_report_count item) \<le> item_bit_count item"
  by (simp_all add: item_bit_count_def)

lemma read_value_ok:
  assumes "\<not> item_is_const item" "1 \<le> unat (mi_report_size item)" "unat (mi_report_size item) \<le> 25" "1 \<le> unat (mi_report_count item)"
    and "br_position r + item_bit_count item \<le> 8 * length (br_slice r)"
  shows "\<not> item_is_relative item \<Longrightarrow> \<exists>v r'. read_value r item = Ok (v, r') \<and> moved (item_bit_count item) r r'"
    and "item_is_relative item \<Longrightarrow> \<exists>v r'. read_value_signed r item = Ok (v, r') \<and> moved (item_bit_count item) r r'"
  using assms item_size_count [of item] read_bits_small [of "unat (mi_report_size item)" "br_position r" "br_slice r"]
  by (auto simp: read_value_def read_value_signed_def read_bits_signed_def Let_def advance_moved)

lemma read_bit_array_ok:
  assumes "\<not> item_is_const item" "unat (mi_report_size item) = 1" "1 \<le> unat (mi_report_count item)" "unat (mi_report_count item) \<le> 25"
    and "br_position r + item_bit_count item \<le> 8 * length (br_slice r)"
  shows "\<exists>v r'. read_bit_array r item = Ok (v, r') \<and> moved (item_bit_count item) r r'"
  using assms item_size_count [of item] read_bits_small [of "unat (mi_report_count item)" "br_position r" "br_slice r"]
  by (auto simp: read_bit_array_def Let_def advance_moved)

lemma read_value_signed_moved:
  assumes "read_value_signed r item = Ok (v, r')" "1 \<le> unat (mi_report_count item)"
  shows "moved (item_bit_count item) r r'"
  using assms item_size_count [of item] by (auto simp: read_value_signed_def outcome_iff Let_def advance_moved split: if_splits)

lemma moved_refl [simp]: "moved n r r"
  by (simp add: moved_def)

lemma mouse_item_returns:
  assumes "mouse_item_ok item" "br_position (mo_reader m) + item_bit_count item \<le> 8 * length (br_slice (mo_reader m))"
    and const: "item_is_const item \<longrightarrow> mi_usage_min item = 0"
  shows "\<exists>m'. mouse_item item m = Ok m' \<and> moved (item_bit_count item) (mo_reader m) (mo_reader m')"
proof (cases "mi_usage_min item \<in> {HID_BUTTON_1, HID_X, HID_Y, HID_WHEEL}")
  case True
  with assms(1) const have ok: "\<not> item_is_const item" "1 \<le> unat (mi_report_size item)" "unat (mi_report_size item) \<le> 25"
    "1 \<le> unat (mi_report_count item)" "unat (mi_report_count item) \<le> 25" by (auto simp: mouse_item_ok_def hid_usages)
  note reads = read_value_ok [OF ok(1-4) assms(2)]
  have x: "\<exists>m'. mouse_x item m = Ok m' \<and> moved (item_bit_count item) (mo_reader m) (mo_reader m')"
    and y: "\<exists>m'. mouse_y item m = Ok m' \<and> moved (item_bit_count item) (mo_reader m) (mo_reader m')"
    using reads by (cases "item_is_relative item"; force simp: mouse_x_def mouse_y_def read_unwrap_def)+
  have b: "\<exists>m'. mouse_buttons item m = Ok m' \<and> moved (item_bit_count item) (mo_reader m) (mo_reader m')"
    using read_bit_array_ok [OF ok(1) _ ok(4,5) assms(2)] by (force simp: mouse_buttons_def read_unwrap_def)
  have w: "\<exists>m'. mouse_wheel item m = Ok m' \<and> moved (item_bit_count item) (mo_reader m) (mo_reader m')"
    using read_value_signed_moved [OF _ ok(4)] by (auto simp: mouse_wheel_def split: outcome.splits)
  show ?thesis using b x y w advance_moved [OF order_refl] by (simp add: mouse_item_def reader_advance_by_def)
next
  case False
  then show ?thesis by (auto simp: mouse_item_def reader_advance_by_def advance_moved)
qed

lemma mouse_items_return:
  assumes "\<forall>item\<in>set items. mouse_item_ok item \<and> (item_is_const item \<longrightarrow> mi_usage_min item = 0)"
    and "br_position (mo_reader m) + sum_list (map item_bit_count items) \<le> 8 * length (br_slice (mo_reader m))"
  shows "\<exists>m'. mouse_items items m = Ok m'"
  using assms
proof (induction items arbitrary: m)
  case (Cons item items)
  then obtain m' where m': "mouse_item item m = Ok m'" "moved (item_bit_count item) (mo_reader m) (mo_reader m')"
    using mouse_item_returns [of item m] by auto
  then have "br_position (mo_reader m') + sum_list (map item_bit_count items) \<le> 8 * length (br_slice (mo_reader m'))"
    using Cons.prems(2) by (auto simp: moved_def)
  with Cons.IH [of m'] Cons.prems(1) m'(1) show ?case by simp
qed simp

text \<open>The bits that the application counts are those of its input items.\<close>

lemma foldl_usize_add: "a + sum_list (map f xs) < 2 ^ 64 \<Longrightarrow> foldl (\<lambda>acc v. usize_add acc (f v)) a xs = a + sum_list (map f xs)"
  by (induction xs arbitrary: a) (simp_all add: usize_add_exact)

lemma input_items_bits: "sum_list (map entry_bit_count (filter is_input es)) = sum_list (map item_bit_count (List.map_filter (\<lambda>v. case v of EInput v \<Rightarrow> Some v | _ \<Rightarrow> None) es))"
  by (induction es) (auto simp: List.map_filter_def split: report_entry.splits)

lemma input_bits_bound: "sum_list (map entry_bit_count (filter is_input es)) \<le> length es * 65025"
proof (induction es)
  case (Cons e es)
  have octet: "unat (w :: u8) \<le> 255" for w
  proof -
    have "unat w < 2 ^ LENGTH(8)" by (rule unsigned_less)
    then show ?thesis by simp
  qed
  have "item_bit_count v \<le> 255 * 255" for v unfolding item_bit_count_def by (rule mult_le_mono [OF octet octet])
  then have "entry_bit_count e \<le> 65025" by (cases e) (simp_all add: order_trans)
  with Cons show ?case by simp
qed simp

lemma bit_count_for_input_sum:
  assumes "length (ra_entries app) < 2 ^ 40"
  shows "bit_count_for_input app = sum_list (map item_bit_count (input_items app)) \<and> bit_count_for_input app < 2 ^ 60"
proof -
  let ?s = "sum_list (map entry_bit_count (filter is_input (ra_entries app)))"
  have "?s < 2 ^ 60" using input_bits_bound [of "ra_entries app"] assms by simp
  then show ?thesis using foldl_usize_add [of 0 entry_bit_count "filter is_input (ra_entries app)"]
    by (simp add: bit_count_for_input_def app_bit_count_def input_items_def input_items_bits)
qed

text \<open>The constant items of a report that was parsed have no usage.\<close>

lemma parsed_const_items:
  assumes "hid_parse d = Ok p" "hid_report_app p buffer = Ok (Some app)" "item \<in> set (input_items app)" "item_is_const item"
  shows "mi_usage_min item = 0"
proof -
  from apps.parsed [OF assms(1)] assms(2) have "app_ok app"
    by (auto simp: apps_ok_def hid_report_app_def split: if_splits list.splits)
  moreover have "EInput item \<in> set (ra_entries app)" using assms(3)
    by (auto simp: input_items_def List.map_filter_def split: report_entry.splits)
  ultimately show ?thesis using assms(4) by (auto simp: app_ok_def item_is_const_def)
qed

text \<open>
  C30: a report of a mouse is handled without a panic.  When the fields of a device that the task reads have between 1 and 25
  bits, any bytes that the device sends are passed over or read inside the report.  A field of no bits is not
  covered: reading it fails and the task unwraps the result.
\<close>

theorem mouse_report_returns:
  assumes "hid_report_app p buffer = Ok (Some app)" "ra_usage app = HID_MOUSE" "\<forall>item\<in>set (input_items app). mouse_item_ok item"
    and "length buffer < 2 ^ 60" "length (ra_entries app) < 2 ^ 40" "hid_parse d = Ok p"
  shows "\<exists>t'. hid_handle p buffer t = Ok t'"
proof (cases "usize_mul (length buffer) 8 < usize_add (initial_bit_position p) (bit_count_for_input app)")
  case True
  with assms(1) show ?thesis by (simp add: hid_handle_def)
next
  case False
  have "initial_bit_position p \<le> 8" by (simp add: initial_bit_position_def)
  then have "initial_bit_position p + sum_list (map item_bit_count (input_items app)) \<le> 8 * length buffer"
    using False assms(4) bit_count_for_input_sum [OF assms(5)] by (simp add: usize_mul_def usize_add_def)
  then obtain m' where "mouse_items (input_items app) \<lparr>mo_reader = \<lparr>br_slice = buffer, br_position = initial_bit_position p\<rparr>, mo_absolute = False,
      mo_report = mouse_report_default, mo_state = ht_mouse t\<rparr> = Ok m'"
    using mouse_items_return [of "input_items app"] assms(3) parsed_const_items [OF assms(6,1)] by fastforce
  moreover have "HID_MOUSE \<noteq> HID_KEYBOARD" by (simp add: hid_usages)
  ultimately show ?thesis using False assms(1,2) by (simp add: hid_handle_def Let_def)
qed

definition narrow_mouse :: "(hid_tag \<times> hid_value) list" where
  "narrow_mouse =
     [(UsagePage, X8 1), (HidUsage, X8 2), (Collection, X8 1), (ReportSize, X8 8), (ReportCount, X8 1), (HidUsage, X8 0x30), (Input, X8 6),
      (HidUsage, X8 0x31), (Input, X8 6), (EndCollection, HZero)]"

theorem mouse_report_returns_witness:
  "\<exists>p t'. hid_parse (concat (map encode_item narrow_mouse)) = Ok p \<and>
     hid_handle p [0xFD, 3] \<lparr>ht_keys = keyboard_new, ht_modifiers = 0, ht_mouse = mouse_state_empty, ht_events = []\<rparr> = Ok t'"
proof -
  have "hid_parse (concat (map encode_item narrow_mouse)) = run_items 0 narrow_mouse hid_state_new"
    using parse_loop_encoded [of "[]" narrow_mouse] by (simp add: hid_parse_def)
  then obtain p app x y where p: "hid_parse (concat (map encode_item narrow_mouse)) = Ok p" "hp_report_ids p = []" "hp_primary p = Some app"
    "ra_usage app = HID_MOUSE" "length (ra_entries app) = 2" "input_items app = [x, y]" "mi_report_size x = 8" "mi_report_size y = 8"
    "mi_report_count x = 1" "mi_report_count y = 1"
    unfolding narrow_mouse_def
    by (simp add: hid_run flag_contains_def FLAG_CONSTANT_def FLAG_RELATIVE_def input_items_def hid_usages)
  have "hid_report_app p [0xFD, 3] = Ok (Some app)" using p(2,3) by (simp add: hid_report_app_def has_report_id_def)
  moreover have "\<forall>item\<in>set (input_items app). mouse_item_ok item" using p(6-) by (simp add: mouse_item_ok_def)
  ultimately show ?thesis using mouse_report_returns [OF _ p(4) _ _ _ p(1)] p(1,5) by simp
qed

text \<open>A mouse with one button and a horizontal field of 32 bits.\<close>

definition wide_mouse :: "(hid_tag \<times> hid_value) list" where
  "wide_mouse =
     [(UsagePage, X8 1), (HidUsage, X8 2), (Collection, X8 1), (UsagePage, X8 9), (UsageMinimum, X8 1), (UsageMaximum, X8 1),
      (ReportSize, X8 1), (ReportCount, X8 1), (Input, X8 2), (UsagePage, X8 1), (HidUsage, X8 0x30), (ReportSize, X8 32), (Input, X8 6),
      (EndCollection, HZero)]"

text \<open>
  A device can panic the kernel.  The descriptor of a mouse whose horizontal field has 32 bits behind a button is accepted,
  and then every report of five octets panics, because the field does not fit into four octets and the error is unwrapped.
\<close>

theorem wide_mouse_panics:
  "\<exists>p. hid_parse (concat (map encode_item wide_mouse)) = Ok p \<and> (\<forall>b0 b1 b2 b3 b4 t. hid_handle p [b0, b1, b2, b3, b4] t = Panic)"
proof -
  have "hid_parse (concat (map encode_item wide_mouse)) = run_items 0 wide_mouse hid_state_new"
    using parse_loop_encoded [of "[]" wide_mouse] by (simp add: hid_parse_def)
  then obtain p app b x where p: "hid_parse (concat (map encode_item wide_mouse)) = Ok p" "hp_report_ids p = []" "hp_primary p = Some app"
    "ra_usage app = HID_MOUSE" "input_items app = [b, x]" "bit_count_for_input app = 33" "mi_flags b = 2" "mi_report_size b = 1" "mi_report_count b = 1"
    "mi_usage_min b = HID_BUTTON_1" "mi_flags x = 6" "mi_report_size x = 32" "mi_usage_min x = HID_X"
    unfolding wide_mouse_def
    by (simp add: hid_run flag_contains_def FLAG_CONSTANT_def FLAG_RELATIVE_def input_items_def hid_usages
        bit_count_for_input_def app_bit_count_def item_bit_count_def usize_add_def)
  have "mouse_items [b, x] \<lparr>mo_reader = \<lparr>br_slice = buf, br_position = 0\<rparr>, mo_absolute = False, mo_report = mouse_report_default, mo_state = s\<rparr> = Panic"
    if "length buf = 5" for buf s
    using p(7-) that
    by (simp add: mouse_item_def hid_usages mouse_buttons_def mouse_x_def item_flags read_bit_array_def read_value_signed_def read_bits_signed_def
        read_bits_field reader_advance_def usize_add_def read_unwrap_def)
  then have "hid_handle p [b0, b1, b2, b3, b4] t = Panic" for b0 b1 b2 b3 b4 t
    using p(2-6) by (simp add: hid_handle_def hid_report_app_def has_report_id_def initial_bit_position_def usize_mul_def usize_add_def hid_usages)
  with p(1) show ?thesis by blast
qed

end
