(* ===== verification/Coords.thy ===== *)
theory Coords
  imports Isize
begin

text \<open>
  Points, movements, sizes, rectangles, coordinates and insets of src/lib/meggl/src/coords.rs.  The
  fields are \<open>isize\<close>.  An operator and its assigning form (\<open>add\<close> and \<open>add_assign\<close>) are one
  function here.  \<open>Point::line_to\<close> calls its closure with one point after the other; the model
  returns the list of these points, or \<open>None\<close> when the loop does not end.
\<close>

section \<open>Points and movements\<close>

record point =
  pt_x :: int
  pt_y :: int

record movement =
  mv_x :: int
  mv_y :: int

record size2 =
  sz_width :: int
  sz_height :: int

record rect =
  r_origin :: point
  r_size :: size2

record edge_insets =
  ei_top :: int
  ei_left :: int
  ei_bottom :: int
  ei_right :: int

record coordinates =
  c_left :: int
  c_top :: int
  c_right :: int
  c_bottom :: int

definition point_new :: "int \<Rightarrow> int \<Rightarrow> point" where
  "point_new x y = \<lparr>pt_x = x, pt_y = y\<rparr>"

definition point_swapped :: "point \<Rightarrow> point" where
  "point_swapped p = \<lparr>pt_x = pt_y p, pt_y = pt_x p\<rparr>"

definition point_add_isize :: "point \<Rightarrow> int \<Rightarrow> point" where
  "point_add_isize p r = \<lparr>pt_x = isize_add (pt_x p) r, pt_y = isize_add (pt_y p) r\<rparr>"

definition point_sub_isize :: "point \<Rightarrow> int \<Rightarrow> point" where
  "point_sub_isize p r = \<lparr>pt_x = isize_sub (pt_x p) r, pt_y = isize_sub (pt_y p) r\<rparr>"

definition point_sub :: "point \<Rightarrow> point \<Rightarrow> movement" where
  "point_sub p q = \<lparr>mv_x = isize_sub (pt_x p) (pt_x q), mv_y = isize_sub (pt_y p) (pt_y q)\<rparr>"

definition movement_new :: "int \<Rightarrow> int \<Rightarrow> movement" where
  "movement_new x y = \<lparr>mv_x = x, mv_y = y\<rparr>"

definition movement_swapped :: "movement \<Rightarrow> movement" where
  "movement_swapped m = \<lparr>mv_x = mv_y m, mv_y = mv_x m\<rparr>"

text \<open>\<open>Distance2\<close> is a \<open>usize\<close>.\<close>

definition movement_distance2 :: "movement \<Rightarrow> nat" where
  "movement_distance2 m = as_usize (isize_add (isize_mul (mv_x m) (mv_x m)) (isize_mul (mv_y m) (mv_y m)))"

definition distance2_from_scalar :: "int \<Rightarrow> nat" where
  "distance2_from_scalar v = as_usize (isize_mul v v)"

definition point_distance2 :: "point \<Rightarrow> point \<Rightarrow> nat" where
  "point_distance2 p q = movement_distance2 (point_sub p q)"

definition movement_is_zero :: "movement \<Rightarrow> bool" where
  "movement_is_zero m \<longleftrightarrow> mv_x m = 0 \<and> mv_y m = 0"

definition movement_from_point :: "point \<Rightarrow> movement" where
  "movement_from_point p = \<lparr>mv_x = pt_x p, mv_y = pt_y p\<rparr>"

definition point_from_movement :: "movement \<Rightarrow> point" where
  "point_from_movement m = \<lparr>pt_x = mv_x m, pt_y = mv_y m\<rparr>"

definition movement_add :: "movement \<Rightarrow> movement \<Rightarrow> movement" where
  "movement_add m n = \<lparr>mv_x = isize_add (mv_x m) (mv_x n), mv_y = isize_add (mv_y m) (mv_y n)\<rparr>"

definition movement_sub :: "movement \<Rightarrow> movement \<Rightarrow> movement" where
  "movement_sub m n = \<lparr>mv_x = isize_sub (mv_x m) (mv_x n), mv_y = isize_sub (mv_y m) (mv_y n)\<rparr>"

definition point_add :: "point \<Rightarrow> movement \<Rightarrow> point" where
  "point_add p m = \<lparr>pt_x = isize_add (pt_x p) (mv_x m), pt_y = isize_add (pt_y p) (mv_y m)\<rparr>"

definition point_sub_movement :: "point \<Rightarrow> movement \<Rightarrow> point" where
  "point_sub_movement p m = \<lparr>pt_x = isize_sub (pt_x p) (mv_x m), pt_y = isize_sub (pt_y p) (mv_y m)\<rparr>"

definition rect_add_movement :: "rect \<Rightarrow> movement \<Rightarrow> rect" where
  "rect_add_movement r m =
     \<lparr>r_origin = \<lparr>pt_x = isize_add (pt_x (r_origin r)) (mv_x m), pt_y = isize_add (pt_y (r_origin r)) (mv_y m)\<rparr>,
      r_size = r_size r\<rparr>"

definition rect_sub_movement :: "rect \<Rightarrow> movement \<Rightarrow> rect" where
  "rect_sub_movement r m =
     \<lparr>r_origin = \<lparr>pt_x = isize_sub (pt_x (r_origin r)) (mv_x m), pt_y = isize_sub (pt_y (r_origin r)) (mv_y m)\<rparr>,
      r_size = r_size r\<rparr>"

text \<open>The loop of \<open>line_to\<close>, with the differences \<open>d\<close>, the directions \<open>s\<close> and the error \<open>e\<close>.\<close>

partial_function (option) line_loop :: "point \<Rightarrow> point \<Rightarrow> point \<Rightarrow> int \<Rightarrow> point \<Rightarrow> point list option" where
  "line_loop c1 d s e c0 =
     (if pt_x c0 = pt_x c1 \<and> pt_y c0 = pt_y c1 then Some [c0]
      else let e2 = isize_add e e;
               step_x = isize_sub 0 (pt_y d) < e2;
               step_y = e2 < pt_x d;
               e' = (if step_x then isize_sub e (pt_y d) else e);
               x' = (if step_x then isize_add (pt_x c0) (pt_x s) else pt_x c0);
               e'' = (if step_y then isize_add e' (pt_x d) else e');
               y' = (if step_y then isize_add (pt_y c0) (pt_y s) else pt_y c0) in
        Option.bind (line_loop c1 d s e'' \<lparr>pt_x = x', pt_y = y'\<rparr>) (\<lambda>ps. Some (c0 # ps)))"

definition line_to :: "point \<Rightarrow> point \<Rightarrow> point list option" where
  "line_to c0 c1 =
     (let d = \<lparr>pt_x = if pt_x c0 < pt_x c1 then isize_sub (pt_x c1) (pt_x c0) else isize_sub (pt_x c0) (pt_x c1),
               pt_y = if pt_y c0 < pt_y c1 then isize_sub (pt_y c1) (pt_y c0) else isize_sub (pt_y c0) (pt_y c1)\<rparr>;
          s = \<lparr>pt_x = if pt_x c0 < pt_x c1 then 1 else - 1, pt_y = if pt_y c0 < pt_y c1 then 1 else - 1\<rparr> in
      line_loop c1 d s (isize_sub (pt_x d) (pt_y d)) c0)"


section \<open>Sizes\<close>

definition size_new :: "int \<Rightarrow> int \<Rightarrow> size2" where
  "size_new w h = \<lparr>sz_width = w, sz_height = h\<rparr>"

definition size_swapped :: "size2 \<Rightarrow> size2" where
  "size_swapped s = \<lparr>sz_width = sz_height s, sz_height = sz_width s\<rparr>"

definition size_is_zero :: "size2 \<Rightarrow> bool" where
  "size_is_zero s \<longleftrightarrow> sz_width s = 0 \<and> sz_height s = 0"

definition size_add :: "size2 \<Rightarrow> size2 \<Rightarrow> size2" where
  "size_add s t = \<lparr>sz_width = isize_add (sz_width s) (sz_width t), sz_height = isize_add (sz_height s) (sz_height t)\<rparr>"

definition size_add_insets :: "size2 \<Rightarrow> edge_insets \<Rightarrow> size2" where
  "size_add_insets s i =
     \<lparr>sz_width = isize_add (isize_add (sz_width s) (ei_left i)) (ei_right i),
      sz_height = isize_add (isize_add (sz_height s) (ei_top i)) (ei_bottom i)\<rparr>"

definition size_sub :: "size2 \<Rightarrow> size2 \<Rightarrow> size2" where
  "size_sub s t = \<lparr>sz_width = isize_sub (sz_width s) (sz_width t), sz_height = isize_sub (sz_height s) (sz_height t)\<rparr>"

definition size_sub_insets :: "size2 \<Rightarrow> edge_insets \<Rightarrow> size2" where
  "size_sub_insets s i =
     \<lparr>sz_width = isize_sub (sz_width s) (isize_add (ei_left i) (ei_left i)),
      sz_height = isize_sub (sz_height s) (isize_add (ei_top i) (ei_bottom i))\<rparr>"

definition size_mul :: "size2 \<Rightarrow> size2 \<Rightarrow> size2" where
  "size_mul s t = \<lparr>sz_width = isize_mul (sz_width s) (sz_width t), sz_height = isize_mul (sz_height s) (sz_height t)\<rparr>"

definition size_mul_isize :: "size2 \<Rightarrow> int \<Rightarrow> size2" where
  "size_mul_isize s r = \<lparr>sz_width = isize_mul (sz_width s) r, sz_height = isize_mul (sz_height s) r\<rparr>"

definition size_mul_usize :: "size2 \<Rightarrow> nat \<Rightarrow> size2" where
  "size_mul_usize s r = \<lparr>sz_width = isize_mul (sz_width s) (as_isize r), sz_height = isize_mul (sz_height s) (as_isize r)\<rparr>"

definition size_div_isize :: "size2 \<Rightarrow> int \<Rightarrow> ('e, size2) outcome" where
  "size_div_isize s r =
     and_then (isize_div (sz_width s) r) (\<lambda>w. and_then (isize_div (sz_height s) r) (\<lambda>h.
       Ok \<lparr>sz_width = w, sz_height = h\<rparr>))"

definition size_div_usize :: "size2 \<Rightarrow> nat \<Rightarrow> ('e, size2) outcome" where
  "size_div_usize s r = size_div_isize s (as_isize r)"


section \<open>Coordinates\<close>

definition isize_abs :: "int \<Rightarrow> int" where
  "isize_abs v = (if 0 \<le> v then v else isize_sub 0 v)"

definition coords_new :: "int \<Rightarrow> int \<Rightarrow> int \<Rightarrow> int \<Rightarrow> coordinates" where
  "coords_new l t r b = \<lparr>c_left = l, c_top = t, c_right = r, c_bottom = b\<rparr>"

definition coords_void :: coordinates where
  "coords_void = coords_new isize_max isize_max isize_min isize_min"

definition coords_from_diagonal :: "point \<Rightarrow> point \<Rightarrow> coordinates" where
  "coords_from_diagonal c1 c2 =
     \<lparr>c_left = min (pt_x c1) (pt_x c2), c_top = min (pt_y c1) (pt_y c2),
      c_right = max (pt_x c1) (pt_x c2), c_bottom = max (pt_y c1) (pt_y c2)\<rparr>"

definition left_top :: "coordinates \<Rightarrow> point" where
  "left_top c = point_new (c_left c) (c_top c)"

definition right_bottom :: "coordinates \<Rightarrow> point" where
  "right_bottom c = point_new (c_right c) (c_bottom c)"

definition left_bottom :: "coordinates \<Rightarrow> point" where
  "left_bottom c = point_new (c_left c) (c_bottom c)"

definition right_top :: "coordinates \<Rightarrow> point" where
  "right_top c = point_new (c_right c) (c_top c)"

definition coords_size :: "coordinates \<Rightarrow> size2" where
  "coords_size c = size_new (isize_sub (c_right c) (c_left c)) (isize_sub (c_bottom c) (c_top c))"

definition coords_is_valid :: "coordinates \<Rightarrow> bool" where
  "coords_is_valid c \<longleftrightarrow> c_left c < c_right c \<and> c_top c < c_bottom c"

definition merged :: "coordinates \<Rightarrow> coordinates \<Rightarrow> coordinates" where
  "merged a b =
     \<lparr>c_left = min (c_left a) (c_left b), c_top = min (c_top a) (c_top b),
      c_right = max (c_right a) (c_right b), c_bottom = max (c_bottom a) (c_bottom b)\<rparr>"

definition trimmed :: "coordinates \<Rightarrow> coordinates \<Rightarrow> coordinates" where
  "trimmed a b =
     \<lparr>c_left = max (c_left a) (c_left b), c_top = max (c_top a) (c_top b),
      c_right = min (c_right a) (c_right b), c_bottom = min (c_bottom a) (c_bottom b)\<rparr>"

definition coords_from_size :: "size2 \<Rightarrow> coordinates" where
  "coords_from_size s = \<lparr>c_left = 0, c_top = 0, c_right = sz_width s, c_bottom = sz_height s\<rparr>"

definition from_rect_unchecked :: "rect \<Rightarrow> coordinates" where
  "from_rect_unchecked r =
     (let x = pt_x (r_origin r); y = pt_y (r_origin r); w = sz_width (r_size r); h = sz_height (r_size r) in
      \<lparr>c_left = if 0 < w then x else isize_add x w,
       c_top = if 0 < h then y else isize_add y h,
       c_right = if 0 < w then isize_add x w else x,
       c_bottom = if 0 < h then isize_add y h else y\<rparr>)"

definition coords_from_rect :: "rect \<Rightarrow> coordinates option" where
  "coords_from_rect r =
     (if sz_width (r_size r) = 0 \<or> sz_height (r_size r) = 0 then None else Some (from_rect_unchecked r))"


section \<open>Rectangles\<close>

definition rect_void :: rect where
  "rect_void = \<lparr>r_origin = point_new isize_max isize_max, r_size = size_new 0 0\<rparr>"

definition rect_new :: "int \<Rightarrow> int \<Rightarrow> int \<Rightarrow> int \<Rightarrow> rect" where
  "rect_new x y width height =
     \<lparr>r_origin = \<lparr>pt_x = if 0 \<le> width then x else isize_add x width, pt_y = if 0 \<le> height then y else isize_add y height\<rparr>,
      r_size = \<lparr>sz_width = isize_abs width, sz_height = isize_abs height\<rparr>\<rparr>"

definition size_bounds :: "size2 \<Rightarrow> rect" where
  "size_bounds s = rect_new 0 0 (sz_width s) (sz_height s)"

definition rect_from_coordinates :: "coordinates \<Rightarrow> rect" where
  "rect_from_coordinates c = \<lparr>r_origin = left_top c, r_size = coords_size c\<rparr>"

definition rect_from_diagonal :: "point \<Rightarrow> point \<Rightarrow> rect" where
  "rect_from_diagonal c1 c2 = rect_from_coordinates (coords_from_diagonal c1 c2)"

definition rect_from_pair :: "point \<Rightarrow> size2 \<Rightarrow> rect" where
  "rect_from_pair p s = rect_new (pt_x p) (pt_y p) (sz_width s) (sz_height s)"

definition min_x :: "rect \<Rightarrow> int" where "min_x r = pt_x (r_origin r)"

definition max_x :: "rect \<Rightarrow> int" where "max_x r = isize_add (pt_x (r_origin r)) (sz_width (r_size r))"

definition mid_x :: "rect \<Rightarrow> int" where "mid_x r = isize_add (min_x r) (max_x r) sdiv 2"

definition min_y :: "rect \<Rightarrow> int" where "min_y r = pt_y (r_origin r)"

definition max_y :: "rect \<Rightarrow> int" where "max_y r = isize_add (pt_y (r_origin r)) (sz_height (r_size r))"

definition mid_y :: "rect \<Rightarrow> int" where "mid_y r = isize_add (min_y r) (max_y r) sdiv 2"

definition rect_center :: "rect \<Rightarrow> point" where
  "rect_center r = point_new (mid_x r) (mid_y r)"

definition rect_bounds :: "rect \<Rightarrow> rect" where
  "rect_bounds r = \<lparr>r_origin = point_new 0 0, r_size = r_size r\<rparr>"

definition insets_by :: "rect \<Rightarrow> edge_insets \<Rightarrow> rect" where
  "insets_by r i =
     \<lparr>r_origin = \<lparr>pt_x = isize_add (pt_x (r_origin r)) (ei_left i), pt_y = isize_add (pt_y (r_origin r)) (ei_top i)\<rparr>,
      r_size = \<lparr>sz_width = isize_sub (sz_width (r_size r)) (isize_add (ei_left i) (ei_right i)),
                sz_height = isize_sub (sz_height (r_size r)) (isize_add (ei_top i) (ei_bottom i))\<rparr>\<rparr>"

definition overlaps :: "rect \<Rightarrow> rect \<Rightarrow> bool" where
  "overlaps a b =
     (case (coords_from_rect a, coords_from_rect b) of
        (Some cl, Some cr) \<Rightarrow> c_left cl < c_right cr \<and> c_left cr < c_right cl \<and> c_top cl < c_bottom cr \<and> c_top cr < c_bottom cl
      | _ \<Rightarrow> False)"

definition contains_point :: "rect \<Rightarrow> point \<Rightarrow> bool" where
  "contains_point r p =
     (case coords_from_rect r of
        Some c \<Rightarrow> c_left c \<le> pt_x p \<and> pt_x p < c_right c \<and> c_top c \<le> pt_y p \<and> pt_y p < c_bottom c
      | None \<Rightarrow> False)"

definition contains_rect :: "rect \<Rightarrow> rect \<Rightarrow> bool" where
  "contains_rect a b =
     (case (coords_from_rect a, coords_from_rect b) of
        (Some cl, Some cr) \<Rightarrow> c_left cl \<le> c_left cr \<and> c_right cr \<le> c_right cl \<and> c_top cl \<le> c_top cr \<and> c_bottom cr \<le> c_bottom cl
      | _ \<Rightarrow> False)"

definition rect_add_size :: "rect \<Rightarrow> size2 \<Rightarrow> rect" where
  "rect_add_size r s = r\<lparr>r_size := size_add (r_size r) s\<rparr>"

definition rect_sub_size :: "rect \<Rightarrow> size2 \<Rightarrow> rect" where
  "rect_sub_size r s = r\<lparr>r_size := size_sub (r_size r) s\<rparr>"

definition rect_add_insets :: "rect \<Rightarrow> edge_insets \<Rightarrow> rect" where
  "rect_add_insets r i =
     \<lparr>r_origin = \<lparr>pt_x = isize_sub (pt_x (r_origin r)) (ei_left i), pt_y = isize_sub (pt_y (r_origin r)) (ei_top i)\<rparr>,
      r_size = \<lparr>sz_width = isize_add (sz_width (r_size r)) (isize_add (ei_left i) (ei_right i)),
                sz_height = isize_add (sz_height (r_size r)) (isize_add (ei_top i) (ei_bottom i))\<rparr>\<rparr>"

definition rect_mul_isize :: "rect \<Rightarrow> int \<Rightarrow> rect" where
  "rect_mul_isize r k =
     rect_new (isize_mul (pt_x (r_origin r)) k) (isize_mul (pt_y (r_origin r)) k)
       (isize_mul (sz_width (r_size r)) k) (isize_mul (sz_height (r_size r)) k)"

definition rect_mul_usize :: "rect \<Rightarrow> nat \<Rightarrow> rect" where
  "rect_mul_usize r k = rect_mul_isize r (as_isize k)"


section \<open>Insets\<close>

definition insets_new :: "int \<Rightarrow> int \<Rightarrow> int \<Rightarrow> int \<Rightarrow> edge_insets" where
  "insets_new t l b r = \<lparr>ei_top = t, ei_left = l, ei_bottom = b, ei_right = r\<rparr>"

definition padding_each :: "int \<Rightarrow> edge_insets" where
  "padding_each v = \<lparr>ei_top = v, ei_left = v, ei_bottom = v, ei_right = v\<rparr>"

definition insets_is_zero :: "edge_insets \<Rightarrow> bool" where
  "insets_is_zero i \<longleftrightarrow> ei_top i = 0 \<and> ei_left i = 0 \<and> ei_bottom i = 0 \<and> ei_right i = 0"

definition insets_add :: "edge_insets \<Rightarrow> edge_insets \<Rightarrow> edge_insets" where
  "insets_add i j =
     \<lparr>ei_top = isize_add (ei_top i) (ei_top j), ei_left = isize_add (ei_left i) (ei_left j),
      ei_bottom = isize_add (ei_bottom i) (ei_bottom j), ei_right = isize_add (ei_right i) (ei_right j)\<rparr>"

definition insets_sub :: "edge_insets \<Rightarrow> edge_insets \<Rightarrow> edge_insets" where
  "insets_sub i j =
     \<lparr>ei_top = isize_sub (ei_top i) (ei_top j), ei_left = isize_sub (ei_left i) (ei_left j),
      ei_bottom = isize_sub (ei_bottom i) (ei_bottom j), ei_right = isize_sub (ei_right i) (ei_right j)\<rparr>"


section \<open>The area of a rectangle\<close>

definition coords_area :: "coordinates \<Rightarrow> (int \<times> int) set" where
  "coords_area c = {(x, y). c_left c \<le> x \<and> x < c_right c \<and> c_top c \<le> y \<and> y < c_bottom c}"

definition rect_area :: "rect \<Rightarrow> (int \<times> int) set" where
  "rect_area r =
     {(x, y). pt_x (r_origin r) \<le> x \<and> x < pt_x (r_origin r) + sz_width (r_size r) \<and>
              pt_y (r_origin r) \<le> y \<and> y < pt_y (r_origin r) + sz_height (r_size r)}"

text \<open>A rectangle of non-negative size whose numbers are far from the limits of \<open>isize\<close>.\<close>

definition rect_ok :: "rect \<Rightarrow> bool" where
  "rect_ok r \<longleftrightarrow> small (pt_x (r_origin r)) \<and> small (pt_y (r_origin r)) \<and>
     0 \<le> sz_width (r_size r) \<and> small (sz_width (r_size r)) \<and> 0 \<le> sz_height (r_size r) \<and> small (sz_height (r_size r))"

lemma coords_from_rect_area:
  assumes "rect_ok r"
  shows "case coords_from_rect r of None \<Rightarrow> rect_area r = {} | Some c \<Rightarrow> coords_is_valid c \<and> coords_area c = rect_area r"
  using assms
  by (auto simp: rect_ok_def small_iff coords_from_rect_def from_rect_unchecked_def Let_def isize_simps
      rect_area_def coords_area_def coords_is_valid_def)

lemma coords_from_rect_Some:
  assumes "rect_ok r" "coords_from_rect r = Some c"
  shows "c_left c = pt_x (r_origin r)" "c_right c = pt_x (r_origin r) + sz_width (r_size r)"
    "c_top c = pt_y (r_origin r)" "c_bottom c = pt_y (r_origin r) + sz_height (r_size r)"
    "0 < sz_width (r_size r)" "0 < sz_height (r_size r)"
  using assms
  by (auto simp: rect_ok_def small_iff coords_from_rect_def from_rect_unchecked_def Let_def isize_simps split: if_splits)

lemma coords_area_empty: "coords_area c = {} \<longleftrightarrow> \<not> coords_is_valid c"
  by (auto simp: coords_area_def coords_is_valid_def)

lemma trimmed_area: "coords_area (trimmed a b) = coords_area a \<inter> coords_area b"
  by (auto simp: coords_area_def trimmed_def)

lemma area_subset:
  assumes "coords_is_valid b"
  shows "coords_area b \<subseteq> coords_area a \<longleftrightarrow>
    c_left a \<le> c_left b \<and> c_right b \<le> c_right a \<and> c_top a \<le> c_top b \<and> c_bottom b \<le> c_bottom a"
proof
  assume sub: "coords_area b \<subseteq> coords_area a"
  have "(c_left b, c_top b) \<in> coords_area b" "(c_right b - 1, c_bottom b - 1) \<in> coords_area b"
    using assms by (auto simp: coords_area_def coords_is_valid_def)
  with sub have "(c_left b, c_top b) \<in> coords_area a" "(c_right b - 1, c_bottom b - 1) \<in> coords_area a" by blast+
  then show "c_left a \<le> c_left b \<and> c_right b \<le> c_right a \<and> c_top a \<le> c_top b \<and> c_bottom b \<le> c_bottom a"
    by (auto simp: coords_area_def)
qed (auto simp: coords_area_def)

lemma overlaps_area:
  assumes "rect_ok a" "rect_ok b"
  shows "overlaps a b \<longleftrightarrow> rect_area a \<inter> rect_area b \<noteq> {}"
proof (cases "coords_from_rect a")
  case None
  with coords_from_rect_area [OF assms(1)] show ?thesis by (simp add: overlaps_def)
next
  case a: (Some ca)
  show ?thesis
  proof (cases "coords_from_rect b")
    case None
    with coords_from_rect_area [OF assms(2)] a show ?thesis by (simp add: overlaps_def)
  next
    case b: (Some cb)
    from coords_from_rect_area [OF assms(1)] coords_from_rect_area [OF assms(2)] a b
    have "coords_is_valid ca" "coords_is_valid cb" and i: "rect_area a \<inter> rect_area b = coords_area (trimmed ca cb)"
      by (auto simp: trimmed_area)
    then show ?thesis
      unfolding i coords_area_empty using a b by (auto simp: overlaps_def coords_is_valid_def trimmed_def)
  qed
qed

lemma contains_rect_area:
  assumes "rect_ok a" "rect_ok b"
  shows "contains_rect a b \<longleftrightarrow> rect_area b \<noteq> {} \<and> rect_area b \<subseteq> rect_area a"
proof (cases "coords_from_rect b")
  case None
  with coords_from_rect_area [OF assms(2)] show ?thesis by (simp add: contains_rect_def split: option.splits)
next
  case b: (Some cb)
  with coords_from_rect_area [OF assms(2)] have v: "coords_is_valid cb" "coords_area cb = rect_area b" by auto
  then have ne: "rect_area b \<noteq> {}" using coords_area_empty by metis
  show ?thesis
  proof (cases "coords_from_rect a")
    case None
    with coords_from_rect_area [OF assms(1)] ne show ?thesis by (simp add: contains_rect_def)
  next
    case (Some ca)
    with coords_from_rect_area [OF assms(1)] have "coords_area ca = rect_area a" by simp
    with area_subset [OF v(1), of ca] v(2) ne Some b show ?thesis by (simp add: contains_rect_def)
  qed
qed

lemma contains_point_area:
  "rect_ok r \<Longrightarrow> contains_point r p \<longleftrightarrow> (pt_x p, pt_y p) \<in> rect_area r"
  using coords_from_rect_area [of r] by (auto simp: contains_point_def coords_area_def split: option.splits)

lemma merged_least:
  assumes "coords_is_valid a" "coords_is_valid b"
  shows "coords_area a \<union> coords_area b \<subseteq> coords_area c \<longleftrightarrow> coords_area (merged a b) \<subseteq> coords_area c"
proof
  assume "coords_area a \<union> coords_area b \<subseteq> coords_area c"
  with area_subset [OF assms(1), of c] area_subset [OF assms(2), of c]
  show "coords_area (merged a b) \<subseteq> coords_area c" by (auto simp: coords_area_def merged_def)
next
  have "coords_area a \<union> coords_area b \<subseteq> coords_area (merged a b)"
    by (auto simp: coords_area_def merged_def)
  then show "coords_area (merged a b) \<subseteq> coords_area c \<Longrightarrow> coords_area a \<union> coords_area b \<subseteq> coords_area c" by blast
qed

lemma rect_coords_inverse:
  assumes "rect_ok r" "coords_from_rect r = Some c"
  shows "rect_from_coordinates c = r"
  using coords_from_rect_Some [OF assms] assms(1)
  by (auto simp: rect_from_coordinates_def left_top_def point_new_def coords_size_def size_new_def isize_simps
      rect_ok_def small_iff intro!: rect.equality point.equality size2.equality)

lemma rect_new_ok:
  assumes "small x" "small y" "small w" "small h" "small (x + w)" "small (y + h)"
  shows "rect_ok (rect_new x y w h)"
    "rect_area (rect_new x y w h) = {(a, b). min x (x + w) \<le> a \<and> a < max x (x + w) \<and> min y (y + h) \<le> b \<and> b < max y (y + h)}"
  using assms by (auto simp: rect_ok_def rect_new_def rect_area_def small_iff isize_abs_def isize_simps)

text \<open>
  Taking insets away from a rectangle undoes adding them; from a size it does so only when the left
  and the right inset are equal, because the left one is subtracted twice.
\<close>

lemma rect_insets_inverse:
  assumes "rect_ok r" "small (ei_left i)" "small (ei_right i)" "small (ei_top i)" "small (ei_bottom i)"
  shows "insets_by (rect_add_insets r i) i = r"
  using assms by (auto simp: insets_by_def rect_add_insets_def isize_simps rect_ok_def small_iff
      intro!: rect.equality point.equality size2.equality)

lemma size_insets_inverse:
  assumes "small (sz_width s)" "small (sz_height s)" "small (ei_left i)" "small (ei_right i)" "small (ei_top i)" "small (ei_bottom i)"
  shows "size_sub_insets (size_add_insets s i) i = s \<longleftrightarrow> ei_left i = ei_right i"
  using assms by (cases s) (auto simp: size_sub_insets_def size_add_insets_def isize_simps small_iff)


section \<open>The properties\<close>

text \<open>
  C33: the predicates on rectangles decide what they say of the areas: \<open>overlaps\<close> that two areas
  meet, \<open>contains\<close> that an area holds a point or another non-empty area; and the trimmed and the
  merged coordinates of two non-empty rectangles are their intersection and the least rectangle around
  both.
\<close>

theorem rect_predicates_area:
  assumes "rect_ok a" "rect_ok b"
  shows "(overlaps a b \<longleftrightarrow> rect_area a \<inter> rect_area b \<noteq> {}) \<and>
    (contains_rect a b \<longleftrightarrow> rect_area b \<noteq> {} \<and> rect_area b \<subseteq> rect_area a) \<and>
    (contains_point a p \<longleftrightarrow> (pt_x p, pt_y p) \<in> rect_area a) \<and>
    (case (coords_from_rect a, coords_from_rect b) of
       (Some ca, Some cb) \<Rightarrow>
         coords_area (trimmed ca cb) = rect_area a \<inter> rect_area b \<and>
         (\<forall>c. rect_area a \<union> rect_area b \<subseteq> coords_area c \<longleftrightarrow> coords_area (merged ca cb) \<subseteq> coords_area c)
     | _ \<Rightarrow> rect_area a = {} \<or> rect_area b = {})"
proof -
  have "case (coords_from_rect a, coords_from_rect b) of
       (Some ca, Some cb) \<Rightarrow>
         coords_area (trimmed ca cb) = rect_area a \<inter> rect_area b \<and>
         (\<forall>c. rect_area a \<union> rect_area b \<subseteq> coords_area c \<longleftrightarrow> coords_area (merged ca cb) \<subseteq> coords_area c)
     | _ \<Rightarrow> rect_area a = {} \<or> rect_area b = {}"
    using coords_from_rect_area [OF assms(1)] coords_from_rect_area [OF assms(2)]
    by (auto simp: trimmed_area simp flip: merged_least split: option.splits)
  with assms show ?thesis
    by (simp add: overlaps_area contains_rect_area contains_point_area)
qed

theorem rect_predicates_area_witness:
  "overlaps (rect_new 0 0 10 10) (rect_new 5 5 10 10) \<and>
   rect_area (rect_new 0 0 10 10) \<inter> rect_area (rect_new 5 5 10 10) \<noteq> {}"
proof -
  have ok: "rect_ok (rect_new 0 0 10 10)" "rect_ok (rect_new 5 5 10 10)"
    by (simp_all add: rect_new_ok small_iff)
  have "overlaps (rect_new 0 0 10 10) (rect_new 5 5 10 10)"
    by (simp add: overlaps_def coords_from_rect_def from_rect_unchecked_def rect_new_def isize_abs_def isize_simps Let_def)
  with rect_predicates_area [OF ok, of "point_new 0 0"] show ?thesis by simp
qed

end
