(* ===== verification/Line.thy ===== *)
theory Line
  imports Coords
begin

text \<open>
  \<open>Point::line_to\<close> (src/lib/meggl/src/coords.rs) ends: the error term keeps the loop next to the line,
  so that neither coordinate passes its target.
\<close>

section \<open>The error term\<close>

text \<open>
  \<open>rx\<close> and \<open>ry\<close> are the steps that are left.  The error is \<open>dx - dy + rx * dy - ry * dx\<close>, and it
  stays on the side that makes the longer direction step in every round.
\<close>

definition line_inv :: "int \<Rightarrow> int \<Rightarrow> int \<Rightarrow> int \<Rightarrow> int \<Rightarrow> bool" where
  "line_inv dx dy rx ry e \<longleftrightarrow>
     0 \<le> dx \<and> dx < 2 ^ 34 \<and> 0 \<le> dy \<and> dy < 2 ^ 34 \<and> 0 \<le> rx \<and> rx \<le> dx \<and> 0 \<le> ry \<and> ry \<le> dy \<and>
     e = dx - dy + rx * dy - ry * dx \<and> - 2 * dy \<le> e \<and> e \<le> 2 * dx \<and>
     (dx = 0 \<and> dy = 0 \<or> (dy \<le> dx \<longrightarrow> - dy < 2 * e) \<and> (dx \<le> dy \<longrightarrow> 2 * e < dx))"

definition line_left :: "int \<Rightarrow> int \<Rightarrow> int \<Rightarrow> int \<Rightarrow> int" where
  "line_left dx dy rx ry = (if dy \<le> dx then rx else ry)"

lemma rest_times:
  assumes "0 \<le> (r :: int)" "0 \<le> d"
  shows "r = 0 \<and> r * d = 0 \<or> 1 \<le> r \<and> d \<le> r * d"
  using assms mult_right_mono [of 1 r d] by (cases "r = 0") auto

text \<open>The products, named, so that linear arithmetic sees them as unknowns.\<close>

lemma line_rest:
  assumes "line_inv dx dy rx ry e"
  obtains A B where "A = rx * dy" "B = ry * dx" "e = dx - dy + A - B"
    "rx = 0 \<and> A = 0 \<or> 1 \<le> rx \<and> dy \<le> A" "ry = 0 \<and> B = 0 \<or> 1 \<le> ry \<and> dx \<le> B"
proof -
  from assms have "0 \<le> rx" "0 \<le> ry" "0 \<le> dx" "0 \<le> dy" "e = dx - dy + rx * dy - ry * dx"
    by (simp_all add: line_inv_def)
  then show thesis by (intro that [OF refl refl _ rest_times rest_times])
qed

lemma line_inv_end:
  assumes "line_inv dx dy rx ry e" "line_left dx dy rx ry = 0"
  shows "rx = 0 \<and> ry = 0"
proof -
  from assms(1) have i: "0 \<le> dx" "0 \<le> dy" "rx \<le> dx" "ry \<le> dy"
    "dx = 0 \<and> dy = 0 \<or> (dy \<le> dx \<longrightarrow> - dy < 2 * e) \<and> (dx \<le> dy \<longrightarrow> 2 * e < dx)"
    unfolding line_inv_def by blast+
  from assms(1) show ?thesis
  proof (rule line_rest)
    fix A B
    assume "e = dx - dy + A - B" "rx = 0 \<and> A = 0 \<or> 1 \<le> rx \<and> dy \<le> A" "ry = 0 \<and> B = 0 \<or> 1 \<le> ry \<and> dx \<le> B"
    with i assms(2) show ?thesis by (auto simp: line_left_def split: if_splits)
  qed
qed

lemma line_inv_step:
  assumes inv: "line_inv dx dy rx ry e" and more: "\<not> (rx = 0 \<and> ry = 0)"
    and bx: "bx \<longleftrightarrow> - dy < 2 * e" and by': "by' \<longleftrightarrow> 2 * e < dx"
    and e': "e' = e - (if bx then dy else 0) + (if by' then dx else 0)"
    and rx': "rx' = rx - (if bx then 1 else 0)" and ry': "ry' = ry - (if by' then 1 else 0)"
  shows "line_inv dx dy rx' ry' e'" "line_left dx dy rx' ry' = line_left dx dy rx ry - 1" "bx \<or> by'"
proof -
  from inv obtain A B where ab: "A = rx * dy" "B = ry * dx" and x: "e = dx - dy + A - B"
    "rx = 0 \<and> A = 0 \<or> 1 \<le> rx \<and> dy \<le> A" "ry = 0 \<and> B = 0 \<or> 1 \<le> ry \<and> dx \<le> B"
    by (rule line_rest)
  have d: "rx' * dy = rx * dy - (if bx then dy else 0)" "ry' * dx = ry * dx - (if by' then dx else 0)"
    by (simp_all add: rx' ry' algebra_simps)
  from inv have i: "0 \<le> dx" "dx < 2 ^ 34" "0 \<le> dy" "dy < 2 ^ 34" "0 \<le> rx" "rx \<le> dx" "0 \<le> ry" "ry \<le> dy"
    "e = dx - dy + rx * dy - ry * dx" "- 2 * dy \<le> e" "e \<le> 2 * dx"
    by (simp_all add: line_inv_def)
  from inv more i have b: "dy \<le> dx \<Longrightarrow> - dy < 2 * e" "dx \<le> dy \<Longrightarrow> 2 * e < dx" by (auto simp: line_inv_def)
  have nx: "bx \<Longrightarrow> 1 \<le> rx" using x i(1-8) bx more by auto
  have ny: "by' \<Longrightarrow> 1 \<le> ry" using x i(1-8) by' more by auto
  show "bx \<or> by'" using b bx by' by (cases "dy \<le> dx") auto
  show "line_left dx dy rx' ry' = line_left dx dy rx ry - 1"
    using b bx by' by (auto simp: line_left_def rx' ry')
  have bounds: "- 2 * dy \<le> e' \<and> e' \<le> 2 * dx" "dy \<le> dx \<Longrightarrow> - dy < 2 * e'" "dx \<le> dy \<Longrightarrow> 2 * e' < dx"
    using i(1-8,10,11) b bx by' by (cases dx dy rule: linorder_cases; auto simp: e' split: if_splits)+
  have "e' = dx - dy + rx' * dy - ry' * dx" using i(9) d by (simp add: e')
  with i bounds nx ny show "line_inv dx dy rx' ry' e'"
    by (simp add: line_inv_def rx' ry')
qed

lemma line_inv_start:
  assumes "0 \<le> dx" "dx < 2 ^ 34" "0 \<le> dy" "dy < 2 ^ 34"
  shows "line_inv dx dy dx dy (dx - dy)"
  using assms by (auto simp: line_inv_def mult.commute)


section \<open>The loop\<close>

definition king_move :: "point \<Rightarrow> point \<Rightarrow> bool" where
  "king_move p q \<longleftrightarrow> p \<noteq> q \<and> \<bar>pt_x q - pt_x p\<bar> \<le> 1 \<and> \<bar>pt_y q - pt_y p\<bar> \<le> 1"

lemma line_loop_path:
  assumes "line_inv dx dy rx ry e" "small x1" "small y1" "sx = 1 \<or> sx = - 1" "sy = 1 \<or> sy = - 1"
  shows "\<exists>ps. line_loop \<lparr>pt_x = x1, pt_y = y1\<rparr> \<lparr>pt_x = dx, pt_y = dy\<rparr> \<lparr>pt_x = sx, pt_y = sy\<rparr> e
      \<lparr>pt_x = x1 - sx * rx, pt_y = y1 - sy * ry\<rparr> = Some ps \<and>
    int (length ps) = line_left dx dy rx ry + 1 \<and> hd ps = \<lparr>pt_x = x1 - sx * rx, pt_y = y1 - sy * ry\<rparr> \<and>
    last ps = \<lparr>pt_x = x1, pt_y = y1\<rparr> \<and> successively king_move ps"
  using assms(1)
proof (induction "nat (line_left dx dy rx ry)" arbitrary: rx ry e rule: less_induct)
  case less
  let ?loop = "line_loop \<lparr>pt_x = x1, pt_y = y1\<rparr> \<lparr>pt_x = dx, pt_y = dy\<rparr> \<lparr>pt_x = sx, pt_y = sy\<rparr>"
  let ?at = "\<lambda>rx ry. \<lparr>pt_x = x1 - sx * rx, pt_y = y1 - sy * ry\<rparr>"
  show ?case
  proof (cases "rx = 0 \<and> ry = 0")
    case True
    then show ?thesis by (subst line_loop.simps) (simp add: line_left_def)
  next
    case False
    define bx by' where "bx \<longleftrightarrow> - dy < 2 * e" and "by' \<longleftrightarrow> 2 * e < dx"
    define rx' ry' where "rx' = rx - (if bx then 1 else 0)" and "ry' = ry - (if by' then 1 else 0)"
    define e' where "e' = e - (if bx then dy else 0) + (if by' then dx else 0)"
    note step = line_inv_step [OF less(2) False bx_def by'_def e'_def rx'_def ry'_def]
    have lt: "nat (line_left dx dy rx' ry') < nat (line_left dx dy rx ry)"
      using step(1,2) by (auto simp: line_inv_def line_left_def split: if_splits)
    from less(1) [OF lt step(1)] obtain ps where ps: "?loop e' (?at rx' ry') = Some ps"
      "int (length ps) = line_left dx dy rx' ry' + 1" "hd ps = ?at rx' ry'"
      "last ps = \<lparr>pt_x = x1, pt_y = y1\<rparr>" "successively king_move ps"
      by blast
    from less(2) have i: "0 \<le> dx" "dx < 2 ^ 34" "0 \<le> dy" "dy < 2 ^ 34" "0 \<le> rx" "rx \<le> dx" "0 \<le> ry" "ry \<le> dy"
      "- 2 * dy \<le> e" "e \<le> 2 * dx"
      by (simp_all add: line_inv_def)
    have at: "isize_add (x1 - sx * rx) sx = x1 - sx * (rx - 1)" "isize_add (y1 - sy * ry) sy = y1 - sy * (ry - 1)"
      using assms(2-) i by (auto simp: small_iff isize_simps)
    have er: "isize_add e e = 2 * e" "isize_sub 0 dy = - dy" "isize_sub e dy = e - dy" "isize_add e dx = e + dx"
      "isize_add (e - dy) dx = e - dy + dx"
      using i by (simp_all add: isize_simps)
    have ne: "\<not> (x1 - sx * rx = x1 \<and> y1 - sy * ry = y1)" using False assms(4,5) by auto
    have "?loop e (?at rx ry) = Option.bind (?loop e' (?at rx' ry')) (\<lambda>ps. Some (?at rx ry # ps))"
      using ne step(3) unfolding line_loop.simps [of _ _ _ e "?at rx ry"]
      by (cases bx; cases by') (auto simp: er at e'_def rx'_def ry'_def simp flip: bx_def by'_def)
    then have "?loop e (?at rx ry) = Some (?at rx ry # ps)" by (simp add: ps(1))
    moreover have "ps \<noteq> []" using ps(2) step(1) by (auto simp: line_inv_def line_left_def split: if_splits)
    moreover have "king_move (?at rx ry) (?at rx' ry')"
      using step(3) assms(4,5) by (auto simp: king_move_def rx'_def ry'_def algebra_simps)
    ultimately show ?thesis using ps step(2) by (auto simp: successively_Cons)
  qed
qed

lemma line_to_path:
  assumes "small (pt_x a)" "small (pt_y a)" "small (pt_x b)" "small (pt_y b)"
  shows "\<exists>ps. line_to a b = Some ps \<and> hd ps = a \<and> last ps = b \<and> successively king_move ps \<and>
    int (length ps) = max \<bar>pt_x b - pt_x a\<bar> \<bar>pt_y b - pt_y a\<bar> + 1"
proof -
  define dx dy where "dx = \<bar>pt_x b - pt_x a\<bar>" and "dy = \<bar>pt_y b - pt_y a\<bar>"
  define sx sy :: int where "sx = (if pt_x a < pt_x b then 1 else - 1)" and "sy = (if pt_y a < pt_y b then 1 else - 1)"
  from assms have "line_inv dx dy dx dy (dx - dy)" by (intro line_inv_start) (auto simp: small_iff dx_def dy_def)
  then have "\<exists>ps. line_loop \<lparr>pt_x = pt_x b, pt_y = pt_y b\<rparr> \<lparr>pt_x = dx, pt_y = dy\<rparr> \<lparr>pt_x = sx, pt_y = sy\<rparr> (dx - dy)
      \<lparr>pt_x = pt_x b - sx * dx, pt_y = pt_y b - sy * dy\<rparr> = Some ps \<and>
    int (length ps) = line_left dx dy dx dy + 1 \<and> hd ps = \<lparr>pt_x = pt_x b - sx * dx, pt_y = pt_y b - sy * dy\<rparr> \<and>
    last ps = \<lparr>pt_x = pt_x b, pt_y = pt_y b\<rparr> \<and> successively king_move ps"
    by (rule line_loop_path [OF _ assms(3,4)]) (auto simp: sx_def sy_def)
  moreover have "\<lparr>pt_x = pt_x b - sx * dx, pt_y = pt_y b - sy * dy\<rparr> = a"
    by (auto simp: sx_def sy_def dx_def dy_def intro!: point.equality)
  moreover have "line_to a b = line_loop b \<lparr>pt_x = dx, pt_y = dy\<rparr> \<lparr>pt_x = sx, pt_y = sy\<rparr> (dx - dy) a"
    using assms by (auto simp: line_to_def Let_def small_iff isize_simps sx_def sy_def dx_def dy_def)
  moreover have "\<lparr>pt_x = pt_x b, pt_y = pt_y b\<rparr> = b" "line_left dx dy dx dy = max dx dy"
    by (auto simp: line_left_def intro!: point.equality)
  ultimately have "\<exists>ps. line_to a b = Some ps \<and> hd ps = a \<and> last ps = b \<and> successively king_move ps \<and>
    int (length ps) = max dx dy + 1" by auto
  then show ?thesis by (simp only: dx_def dy_def)
qed

text \<open>
  C34: drawing a line ends.  Between any two points on a drawing, \<open>line_to\<close> calls its closure with
  the first point, then with one neighbour after the other, and last with the second point, and the
  number of calls is one more than the longer of the two distances: the loop of Bresenham's
  algorithm neither runs past its end nor forever.
\<close>

theorem line_to_terminates:
  assumes "small (pt_x a)" "small (pt_y a)" "small (pt_x b)" "small (pt_y b)"
  shows "\<exists>ps. line_to a b = Some ps \<and> hd ps = a \<and> last ps = b \<and> successively king_move ps \<and>
    int (length ps) = max \<bar>pt_x b - pt_x a\<bar> \<bar>pt_y b - pt_y a\<bar> + 1"
  by (rule line_to_path [OF assms])

theorem line_to_terminates_witness:
  "\<exists>ps. line_to (point_new 0 0) (point_new 3 (- 5)) = Some ps \<and> length ps = 6"
proof -
  have "small (pt_x (point_new 0 0))" "small (pt_y (point_new 0 0))" "small (pt_x (point_new 3 (- 5)))"
    "small (pt_y (point_new 3 (- 5)))"
    by (simp_all add: point_new_def small_def)
  from line_to_terminates [OF this] show ?thesis by (auto simp: point_new_def)
qed

end
