(* ===== verification/Bitmap.thy ===== *)
theory Bitmap
  imports Line
begin

text \<open>
  Bitmaps of src/lib/meggl: \<open>Drawable\<close>, \<open>RasterImage\<close> and the pixel accessors of drawable.rs, and
  the drawing operations that the macro \<open>define_bitmap\<close> of bitmap.rs gives to bitmaps of 8, 16 and 32
  bits.  A bitmap is a slice of pixels with a size and a stride; the type of the pixels is a parameter.
  The unchecked accesses give undefined behaviour outside the slice; a pointer that is only computed
  and never used is not counted as an access.
\<close>

section \<open>Bitmaps and pixels\<close>

record 'a bitmap =
  bm_slice :: "'a list"
  bm_size :: size2
  bm_stride :: nat

definition slice_get_unchecked :: "'a list \<Rightarrow> nat \<Rightarrow> ('e, 'a) outcome" where
  "slice_get_unchecked xs i = (if i < length xs then Ok (xs ! i) else UB OutOfRange)"

definition slice_set_unchecked :: "'a list \<Rightarrow> nat \<Rightarrow> 'a \<Rightarrow> ('e, 'a list) outcome" where
  "slice_set_unchecked xs i v = (if i < length xs then Ok (xs[i := v]) else UB OutOfRange)"

definition bm_width :: "'a bitmap \<Rightarrow> nat" where
  "bm_width b = as_usize (sz_width (bm_size b))"

definition bm_height :: "'a bitmap \<Rightarrow> nat" where
  "bm_height b = as_usize (sz_height (bm_size b))"

definition bm_bounds :: "'a bitmap \<Rightarrow> rect" where
  "bm_bounds b = size_bounds (bm_size b)"

text \<open>\<open>from_slice\<close>: the stride is given, or it is the width.\<close>

definition bm_from_slice :: "'a list \<Rightarrow> size2 \<Rightarrow> nat option \<Rightarrow> 'a bitmap" where
  "bm_from_slice xs s stride =
     \<lparr>bm_slice = xs, bm_size = s, bm_stride = (case stride of Some v \<Rightarrow> v | None \<Rightarrow> as_usize (sz_width s))\<rparr>"

definition bm_new :: "size2 \<Rightarrow> 'a \<Rightarrow> 'a bitmap" where
  "bm_new s bg = bm_from_slice (replicate (usize_mul (as_usize (sz_width s)) (as_usize (sz_height s))) bg) s None"

definition pixel_index :: "'a bitmap \<Rightarrow> point \<Rightarrow> nat" where
  "pixel_index b p = usize_add (as_usize (pt_x p)) (usize_mul (as_usize (pt_y p)) (bm_stride b))"

definition get_pixel_unchecked :: "'a bitmap \<Rightarrow> point \<Rightarrow> ('e, 'a) outcome" where
  "get_pixel_unchecked b p = slice_get_unchecked (bm_slice b) (pixel_index b p)"

definition get_pixel :: "'a bitmap \<Rightarrow> point \<Rightarrow> ('e, 'a option) outcome" where
  "get_pixel b p =
     (if contains_point (bm_bounds b) p then and_then (get_pixel_unchecked b p) (\<lambda>c. Ok (Some c)) else Ok None)"

definition set_pixel_unchecked :: "'a bitmap \<Rightarrow> point \<Rightarrow> 'a \<Rightarrow> ('e, 'a bitmap) outcome" where
  "set_pixel_unchecked b p c =
     and_then (slice_set_unchecked (bm_slice b) (pixel_index b p) c) (\<lambda>xs. Ok (b\<lparr>bm_slice := xs\<rparr>))"

definition set_pixel :: "'a bitmap \<Rightarrow> point \<Rightarrow> 'a \<Rightarrow> ('e, 'a bitmap) outcome" where
  "set_pixel b p c = (if contains_point (bm_bounds b) p then set_pixel_unchecked b p c else Ok b)"

text \<open>The iterator over all pixels: its position, and the next item with the new position.\<close>

definition all_pixels_next :: "'a bitmap \<Rightarrow> nat \<times> nat \<Rightarrow> ('e, ('a \<times> nat \<times> nat) option) outcome" where
  "all_pixels_next b pos =
     (case pos of (x, y) \<Rightarrow>
      if y < bm_height b then
        let (x, y) = (if bm_width b \<le> x then (0, usize_add y 1) else (x, y)) in
        and_then (get_pixel_unchecked b (point_new (as_isize x) (as_isize y))) (\<lambda>c.
          Ok (Some (c, usize_add x 1, y)))
      else Ok None)"


section \<open>Filling\<close>

text \<open>
  \<open>_memset_colors16\<close> and \<open>_memset_colors32\<close>: the range \<open>cursor..cursor + count\<close> is not checked.
  The fills of indexed bitmaps, which go through \<open>_memset_colors8\<close>, are in theory Blend.
\<close>

definition memset_colors :: "'a list \<Rightarrow> nat \<Rightarrow> nat \<Rightarrow> 'a \<Rightarrow> ('e, 'a list) outcome" where
  "memset_colors xs cursor count c =
     (let last = usize_add cursor count in
      if cursor \<le> last \<and> last \<le> length xs
      then Ok (take cursor xs @ replicate count c @ drop last xs) else UB OutOfRange)"

fun fill_rows :: "nat \<Rightarrow> nat \<Rightarrow> nat \<Rightarrow> nat \<Rightarrow> 'a \<Rightarrow> 'a list \<Rightarrow> ('e, 'a list) outcome" where
  "fill_rows 0 cursor width stride c xs = Ok xs"
| "fill_rows (Suc n) cursor width stride c xs =
     and_then (memset_colors xs cursor width c) (fill_rows n (usize_add cursor stride) width stride c)"

text \<open>The clipping that \<open>fill_rect\<close> and \<open>blend_rect\<close> share: \<open>dx\<close>, \<open>dy\<close>, \<open>width\<close>, \<open>height\<close>.\<close>

definition clip_rect :: "size2 \<Rightarrow> rect \<Rightarrow> int \<times> int \<times> int \<times> int" where
  "clip_rect s r =
     (let width = sz_width (r_size r); height = sz_height (r_size r); dx = min_x r; dy = min_y r;
          (width, dx) = (if dx < 0 then (isize_add width dx, 0) else (width, dx));
          (height, dy) = (if dy < 0 then (isize_add height dy, 0) else (height, dy));
          right = isize_add dx width; bottom = isize_add dy height;
          width = (if sz_width s \<le> right then isize_sub (sz_width s) dx else width);
          height = (if sz_height s \<le> bottom then isize_sub (sz_height s) dy else height) in
      (dx, dy, width, height))"

definition fill_rect :: "'a bitmap \<Rightarrow> rect \<Rightarrow> 'a \<Rightarrow> ('e, 'a bitmap) outcome" where
  "fill_rect b r c =
     (case clip_rect (bm_size b) r of (dx, dy, width, height) \<Rightarrow>
      if width \<le> 0 \<or> height \<le> 0 then Ok b
      else
        let width = as_usize width; height = as_usize height; stride = bm_stride b;
            cursor = usize_add (as_usize dx) (usize_mul (as_usize dy) stride) in
        and_then
          (if stride = width then memset_colors (bm_slice b) cursor (usize_mul width height) c
           else fill_rows height cursor width stride c (bm_slice b))
          (\<lambda>xs. Ok (b\<lparr>bm_slice := xs\<rparr>)))"

definition draw_hline :: "'a bitmap \<Rightarrow> point \<Rightarrow> int \<Rightarrow> 'a \<Rightarrow> ('e, 'a bitmap) outcome" where
  "draw_hline b p width c =
     (let dx = pt_x p; dy = pt_y p in
      if dy < 0 \<or> sz_height (bm_size b) \<le> dy then Ok b
      else
        let (w, dx) = (if dx < 0 then (isize_add width dx, 0) else (width, dx));
            right = isize_add dx w;
            w = (if sz_width (bm_size b) \<le> right then isize_sub (sz_width (bm_size b)) dx else w) in
        if w \<le> 0 then Ok b
        else and_then (memset_colors (bm_slice b) (usize_add (as_usize dx) (usize_mul (as_usize dy) (bm_stride b)))
               (as_usize w) c) (\<lambda>xs. Ok (b\<lparr>bm_slice := xs\<rparr>)))"

text \<open>The pixels of \<open>draw_vline\<close> are set with a checked index.\<close>

fun vline_loop :: "nat \<Rightarrow> nat \<Rightarrow> nat \<Rightarrow> 'a \<Rightarrow> 'a list \<Rightarrow> ('e, 'a list) outcome" where
  "vline_loop 0 cursor stride c xs = Ok xs"
| "vline_loop (Suc n) cursor stride c xs =
     (if cursor < length xs then vline_loop n (usize_add cursor stride) stride c (xs[cursor := c]) else Panic)"

definition draw_vline :: "'a bitmap \<Rightarrow> point \<Rightarrow> int \<Rightarrow> 'a \<Rightarrow> ('e, 'a bitmap) outcome" where
  "draw_vline b p height c =
     (let dx = pt_x p; dy = pt_y p in
      if dx < 0 \<or> sz_width (bm_size b) \<le> dx then Ok b
      else
        let (h, dy) = (if dy < 0 then (isize_add height dy, 0) else (height, dy));
            bottom = isize_add dy h;
            h = (if sz_height (bm_size b) \<le> h \<or> sz_height (bm_size b) \<le> bottom
                 then isize_sub (isize_sub (sz_height (bm_size b)) dy) 1 else h) in
        if h \<le> 0 then Ok b
        else and_then (vline_loop (nat h) (usize_add (as_usize dx) (usize_mul (as_usize dy) (bm_stride b)))
               (bm_stride b) c (bm_slice b)) (\<lambda>xs. Ok (b\<lparr>bm_slice := xs\<rparr>)))"

definition bm_clear :: "'a bitmap \<Rightarrow> 'a \<Rightarrow> ('e, 'a bitmap) outcome" where
  "bm_clear b blank = fill_rect b (bm_bounds b) blank"

definition draw_rect :: "'a bitmap \<Rightarrow> rect \<Rightarrow> 'a \<Rightarrow> ('e, 'a bitmap) outcome" where
  "draw_rect b r c =
     (case coords_from_rect r of
        None \<Rightarrow> Ok b
      | Some coords \<Rightarrow>
          let width = sz_width (r_size r); height = sz_height (r_size r) in
          and_then (draw_hline b (left_top coords) width c) (\<lambda>b.
          if 1 < height then
            and_then (draw_hline b (point_sub_movement (left_bottom coords) (movement_new 0 1)) width c) (\<lambda>b.
            if 2 < height then
              and_then (draw_vline b (point_add (left_top coords) (movement_new 0 1)) (isize_sub height 2) c) (\<lambda>b.
              draw_vline b (point_add (right_top coords) (movement_new (- 1) 1)) (isize_sub height 2) c)
            else Ok b)
          else Ok b))"

fun set_pixels :: "'a bitmap \<Rightarrow> point list \<Rightarrow> 'a \<Rightarrow> ('e, 'a bitmap) outcome" where
  "set_pixels b [] c = Ok b"
| "set_pixels b (p # ps) c = and_then (set_pixel b p c) (\<lambda>b. set_pixels b ps c)"

text \<open>\<open>None\<close>: the loop of \<open>line_to\<close> does not end.\<close>

definition draw_line :: "'a bitmap \<Rightarrow> point \<Rightarrow> point \<Rightarrow> 'a \<Rightarrow> ('e, 'a bitmap) outcome option" where
  "draw_line b c1 c2 c =
     (if pt_x c1 = pt_x c2 then
        Some (if pt_y c1 < pt_y c2 then draw_vline b c1 (isize_sub (isize_add 1 (pt_y c2)) (pt_y c1)) c
              else draw_vline b c2 (isize_sub (isize_add 1 (pt_y c1)) (pt_y c2)) c)
      else if pt_y c1 = pt_y c2 then
        Some (if pt_x c1 < pt_x c2 then draw_hline b c1 (isize_sub (isize_add 1 (pt_x c2)) (pt_x c1)) c
              else draw_hline b c2 (isize_sub (isize_add 1 (pt_x c1)) (pt_x c2)) c)
      else map_option (\<lambda>ps. set_pixels b ps c) (line_to c1 c2))"


section \<open>Copying\<close>

definition adjust_blt_coords :: "size2 \<Rightarrow> size2 \<Rightarrow> point \<Rightarrow> rect \<Rightarrow> int \<times> int \<times> int \<times> int \<times> int \<times> int" where
  "adjust_blt_coords dest src p r =
     (let dx = pt_x p; dy = pt_y p; sx = min_x r; sy = min_y r; width = sz_width (r_size r); height = sz_height (r_size r);
          dw = sz_width dest; dh = sz_height dest; sw = sz_width src; sh = sz_height src;
          (dx, width, sx) = (if sx < 0 then (isize_sub dx sx, isize_add width sx, 0) else (dx, width, sx));
          (dy, height, sy) = (if sy < 0 then (isize_sub dy sy, isize_add height sy, 0) else (dy, height, sy));
          (sx, width, dx) = (if dx < 0 then (isize_sub sx dx, isize_add width dx, 0) else (sx, width, dx));
          (sy, height, dy) = (if dy < 0 then (isize_sub sy dy, isize_add height dy, 0) else (sy, height, dy));
          width = (if sw < isize_add sx width then isize_sub sw sx else width);
          height = (if sh < isize_add sy height then isize_sub sh sy else height);
          width = (if dw \<le> isize_add dx width then isize_sub dw dx else width);
          height = (if dh \<le> isize_add dy height then isize_sub dh dy else height) in
      (dx, dy, sx, sy, width, height))"

text \<open>\<open>copy_from_nonoverlapping\<close> between two slices.\<close>

definition copy_slice :: "'a list \<Rightarrow> nat \<Rightarrow> 'a list \<Rightarrow> nat \<Rightarrow> nat \<Rightarrow> ('e, 'a list) outcome" where
  "copy_slice dst d src s n =
     (if d + n \<le> length dst \<and> s + n \<le> length src
      then Ok (take d dst @ take n (drop s src) @ drop (d + n) dst) else UB OutOfRange)"

fun copy_rows :: "nat \<Rightarrow> nat \<Rightarrow> nat \<Rightarrow> nat \<Rightarrow> nat \<Rightarrow> nat \<Rightarrow> 'a list \<Rightarrow> 'a list \<Rightarrow> ('e, 'a list) outcome" where
  "copy_rows 0 width d ds s ss src dst = Ok dst"
| "copy_rows (Suc n) width d ds s ss src dst =
     and_then (copy_slice dst d src s width) (copy_rows n width (usize_add d ds) ds (usize_add s ss) ss src)"

definition blt :: "'a bitmap \<Rightarrow> 'a bitmap \<Rightarrow> point \<Rightarrow> rect \<Rightarrow> ('e, 'a bitmap) outcome" where
  "blt b src p r =
     (case adjust_blt_coords (bm_size b) (bm_size src) p r of (dx, dy, sx, sy, width, height) \<Rightarrow>
      if width \<le> 0 \<or> height \<le> 0 then Ok b
      else
        let width = as_usize width; height = as_usize height; ds = bm_stride b; ss = bm_stride src;
            d = usize_add (as_usize dx) (usize_mul (as_usize dy) ds);
            s = usize_add (as_usize sx) (usize_mul (as_usize sy) ss) in
        and_then
          (if ds = width \<and> ss = width then copy_slice (bm_slice b) d (bm_slice src) s (usize_mul width height)
           else copy_rows height width d ds s ss (bm_slice src) (bm_slice b))
          (\<lambda>xs. Ok (b\<lparr>bm_slice := xs\<rparr>)))"

text \<open>\<open>blt_convert_opt\<close>; \<open>blt_convert\<close> is the case that \<open>f\<close> always gives a colour.\<close>

fun convert_pixels :: "('b \<Rightarrow> 'a option) \<Rightarrow> nat \<Rightarrow> nat \<Rightarrow> nat \<Rightarrow> 'b list \<Rightarrow> 'a list \<Rightarrow> ('e, 'a list) outcome" where
  "convert_pixels f 0 d s src dst = Ok dst"
| "convert_pixels f (Suc n) d s src dst =
     and_then (slice_get_unchecked src s) (\<lambda>c.
     and_then (case f c of Some c' \<Rightarrow> slice_set_unchecked dst d c' | None \<Rightarrow> Ok dst)
       (convert_pixels f n (usize_add d 1) (usize_add s 1) src))"

text \<open>After a row the cursors are at its end; \<open>dd\<close> and \<open>sd\<close> lead to the next row.\<close>

fun convert_rows :: "('b \<Rightarrow> 'a option) \<Rightarrow> nat \<Rightarrow> nat \<Rightarrow> nat \<Rightarrow> nat \<Rightarrow> nat \<Rightarrow> nat \<Rightarrow> 'b list \<Rightarrow> 'a list \<Rightarrow> ('e, 'a list) outcome" where
  "convert_rows f 0 width d dd s sd src dst = Ok dst"
| "convert_rows f (Suc n) width d dd s sd src dst =
     and_then (convert_pixels f width d s src dst)
       (convert_rows f n width (usize_add (usize_add d width) dd) dd (usize_add (usize_add s width) sd) sd src)"

definition blt_convert_opt :: "('b \<Rightarrow> 'a option) \<Rightarrow> 'a bitmap \<Rightarrow> 'b bitmap \<Rightarrow> point \<Rightarrow> rect \<Rightarrow> ('e, 'a bitmap) outcome" where
  "blt_convert_opt f b src p r =
     (case adjust_blt_coords (bm_size b) (bm_size src) p r of (dx, dy, sx, sy, width, height) \<Rightarrow>
      if width \<le> 0 \<or> height \<le> 0 then Ok b
      else
        let width = as_usize width; height = as_usize height; ds = bm_stride b; ss = bm_stride src;
            d = usize_add (as_usize dx) (usize_mul (as_usize dy) ds);
            s = usize_add (as_usize sx) (usize_mul (as_usize sy) ss);
            dd = usize_sub ds width; sd = usize_sub ss width in
        and_then
          (if dd = 0 \<and> sd = 0 then convert_pixels f (usize_mul height width) d s (bm_slice src) (bm_slice b)
           else convert_rows f height width d dd s sd (bm_slice src) (bm_slice b))
          (\<lambda>xs. Ok (b\<lparr>bm_slice := xs\<rparr>)))"

definition blt_convert :: "('b \<Rightarrow> 'a) \<Rightarrow> 'a bitmap \<Rightarrow> 'b bitmap \<Rightarrow> point \<Rightarrow> rect \<Rightarrow> ('e, 'a bitmap) outcome" where
  "blt_convert f = blt_convert_opt (\<lambda>c. Some (f c))"

text \<open>\<open>copy\<close> inside one bitmap: the rows must not overlap, and nothing checks that.\<close>

definition copy_within :: "'a list \<Rightarrow> nat \<Rightarrow> nat \<Rightarrow> nat \<Rightarrow> ('e, 'a list) outcome" where
  "copy_within xs d s n =
     (if d < s + n \<and> s < d + n then UB Overlap else copy_slice xs d xs s n)"

fun copy_within_rows :: "nat \<Rightarrow> nat \<Rightarrow> nat \<Rightarrow> nat \<Rightarrow> nat \<Rightarrow> 'a list \<Rightarrow> ('e, 'a list) outcome" where
  "copy_within_rows 0 width d s stride xs = Ok xs"
| "copy_within_rows (Suc n) width d s stride xs =
     and_then (copy_within xs d s width) (copy_within_rows n width (usize_add d stride) (usize_add s stride) stride)"

definition bm_copy :: "'a bitmap \<Rightarrow> point \<Rightarrow> rect \<Rightarrow> ('e, 'a bitmap) outcome" where
  "bm_copy b p r =
     (case adjust_blt_coords (bm_size b) (bm_size b) p r of (dx, dy, sx, sy, width, height) \<Rightarrow>
      if width \<le> 0 \<or> height \<le> 0 then Ok b
      else
        let width = as_usize width; height = as_usize height; stride = bm_stride b;
            d = usize_add (as_usize dx) (usize_mul (as_usize dy) stride);
            s = usize_add (as_usize sx) (usize_mul (as_usize sy) stride) in
        and_then
          (if stride = width then copy_within (bm_slice b) d s (usize_mul width height)
           else copy_within_rows height width d s stride (bm_slice b))
          (\<lambda>xs. Ok (b\<lparr>bm_slice := xs\<rparr>)))"

text \<open>\<open>view\<close>: the offset of the view in the slice, and the view.\<close>

definition bm_view :: "'a bitmap \<Rightarrow> rect \<Rightarrow> ('e, (nat \<times> 'a bitmap) option) outcome" where
  "bm_view b r =
     (case coords_from_rect r of
        None \<Rightarrow> Ok None
      | Some c \<Rightarrow>
          let width = as_isize (bm_width b); height = as_isize (bm_height b); stride = bm_stride b in
          if c_left c < 0 \<or> width \<le> c_left c \<or> width < c_right c \<or> c_top c < 0 \<or> height \<le> c_top c \<or> height < c_bottom c
          then Ok None
          else
            let off = usize_add (as_usize (min_x r)) (usize_mul (as_usize (min_y r)) stride);
                new_len = usize_add (usize_mul (usize_sub (as_usize (sz_height (r_size r))) 1) stride) (as_usize (sz_width (r_size r))) in
            if off + new_len \<le> length (bm_slice b)
            then Ok (Some (off, \<lparr>bm_slice = take new_len (drop off (bm_slice b)), bm_size = r_size r, bm_stride = stride\<rparr>))
            else UB OutOfRange)"

end
