(* ===== verification/BitmapRows.thy ===== *)
theory BitmapRows
  imports Bitmap
begin

text \<open>
  The row loops of the bitmaps: what a loop over the rows of a region does to the slice, proved once
  in the locale \<open>row_loop\<close> for filling, copying and converting, and what that means for the pixels.
\<close>

section \<open>Rows in a slice\<close>

text \<open>
  \<open>h\<close> rows of \<open>w\<close> elements, \<open>st\<close> apart, the first at \<open>c\<close>: element \<open>j\<close> of row \<open>k\<close> becomes
  \<open>v k j\<close> of what it was; all other elements stay.
\<close>

definition rows_spec :: "nat \<Rightarrow> nat \<Rightarrow> nat \<Rightarrow> nat \<Rightarrow> (nat \<Rightarrow> nat \<Rightarrow> 'a \<Rightarrow> 'a) \<Rightarrow> 'a list \<Rightarrow> 'a list \<Rightarrow> bool" where
  "rows_spec c st w h v xs ys \<longleftrightarrow>
     length ys = length xs \<and>
     (\<forall>k<h. \<forall>j<w. ys ! (c + k * st + j) = v k j (xs ! (c + k * st + j))) \<and>
     (\<forall>i<length xs. (\<forall>k<h. \<forall>j<w. i \<noteq> c + k * st + j) \<longrightarrow> ys ! i = xs ! i)"

lemma rows_spec_0 [simp]: "rows_spec c st w 0 v xs ys \<longleftrightarrow> ys = xs"
  by (auto simp: rows_spec_def intro: nth_equalityI)

text \<open>One row of \<open>w\<close> elements at \<open>c\<close>.\<close>

definition row_spec :: "nat \<Rightarrow> nat \<Rightarrow> (nat \<Rightarrow> 'a \<Rightarrow> 'a) \<Rightarrow> 'a list \<Rightarrow> 'a list \<Rightarrow> bool" where
  "row_spec c w g xs ys \<longleftrightarrow>
     length ys = length xs \<and> (\<forall>j<w. ys ! (c + j) = g j (xs ! (c + j))) \<and>
     (\<forall>i<length xs. i < c \<or> c + w \<le> i \<longrightarrow> ys ! i = xs ! i)"

lemma row_specD:
  assumes "row_spec c w g xs ys"
  shows "length ys = length xs" and "j < w \<Longrightarrow> ys ! (c + j) = g j (xs ! (c + j))"
    and "i < length xs \<Longrightarrow> i < c \<or> c + w \<le> i \<Longrightarrow> ys ! i = xs ! i"
  using assms by (auto simp: row_spec_def)

lemma rows_spec_Suc:
  assumes first: "row_spec c w (v 0) xs ys" and rest: "rows_spec (c + st) st w h (\<lambda>k. v (Suc k)) ys zs"
    and "w \<le> st" "c + h * st + w \<le> length xs"
  shows "rows_spec c st w (Suc h) v xs zs"
  unfolding rows_spec_def
proof (intro conjI allI impI)
  from row_specD(1) [OF first] rest show "length zs = length xs" by (simp add: rows_spec_def)
next
  fix k j
  assume kj: "k < Suc h" "j < w"
  show "zs ! (c + k * st + j) = v k j (xs ! (c + k * st + j))"
  proof (cases k)
    case 0
    have "\<forall>k'<h. \<forall>j'<w. c + j \<noteq> c + st + k' * st + j'" using kj(2) assms(3) by auto
    moreover have "c + j < length ys" using kj row_specD(1) [OF first] assms(4) by auto
    ultimately have "zs ! (c + j) = ys ! (c + j)" using rest by (simp add: rows_spec_def)
    with 0 kj(2) row_specD(2) [OF first] show ?thesis by simp
  next
    case (Suc k')
    let ?i = "c + st + k' * st + j"
    have "k' * st \<le> (h - 1) * st" using kj(1) Suc by (intro mult_right_mono) auto
    moreover have "(h - 1) * st + st = h * st" using kj(1) Suc by (cases h) auto
    ultimately have "?i < length xs" using kj assms(4) by linarith
    then have "ys ! ?i = xs ! ?i" using row_specD(3) [OF first, of ?i] assms(3) by linarith
    with Suc kj rest show ?thesis by (simp add: rows_spec_def add.assoc)
  qed
next
  fix i
  assume i: "i < length xs" "\<forall>k<Suc h. \<forall>j<w. i \<noteq> c + k * st + j"
  have "i \<noteq> c + st + k * st + j" if "k < h" "j < w" for k j
    using i(2) [rule_format, of "Suc k" j] that by (simp add: add.assoc)
  then have "zs ! i = ys ! i" using rest i(1) row_specD(1) [OF first] by (simp add: rows_spec_def)
  moreover have "i < c \<or> c + w \<le> i" using i(2) [rule_format, of 0 "i - c"] by fastforce
  ultimately show "zs ! i = xs ! i" using row_specD(3) [OF first i(1)] by simp
qed

lemma rows_spec_flat:
  assumes "row_spec c (w * h) g xs ys"
  shows "rows_spec c w w h (\<lambda>k j. g (k * w + j)) xs ys"
  unfolding rows_spec_def
proof (intro conjI allI impI)
  from row_specD(1) [OF assms] show "length ys = length xs" .
next
  fix k j
  assume "k < h" "j < w"
  then have "k * w + j < w * h"
  proof -
    have "k * w + j < k * w + w" using \<open>j < w\<close> by simp
    also have "\<dots> = (k + 1) * w" by simp
    also have "\<dots> \<le> h * w" using \<open>k < h\<close> by (intro mult_right_mono) auto
    finally show ?thesis by (simp add: mult.commute)
  qed
  then show "ys ! (c + k * w + j) = g (k * w + j) (xs ! (c + k * w + j))"
    using row_specD(2) [OF assms, of "k * w + j"] by (simp add: add.assoc)
next
  fix i
  assume i: "i < length xs" "\<forall>k<h. \<forall>j<w. i \<noteq> c + k * w + j"
  have "i \<noteq> c + m" if "m < w * h" for m
  proof -
    have "0 < w" using that by (cases w) auto
    then have "m div w < h" "m mod w < w" using that by (auto simp: less_mult_imp_div_less mult.commute)
    with i(2) have "i \<noteq> c + m div w * w + m mod w" by blast
    then show ?thesis by (simp add: add.assoc)
  qed
  from this [of "i - c"] have "i < c \<or> c + w * h \<le> i" by fastforce
  then show "ys ! i = xs ! i" using row_specD(3) [OF assms i(1)] by blast
qed


section \<open>Row loops\<close>

text \<open>
  A loop over rows with a cursor in the destination and one in a source of \<open>slen\<close> elements.  What the
  loop relies on: one row whose two ranges are inside is done completely.
\<close>

locale row_loop =
  fixes loop :: "nat \<Rightarrow> nat \<Rightarrow> nat \<Rightarrow> 'a list \<Rightarrow> ('e, 'a list) outcome"
    and row :: "nat \<Rightarrow> nat \<Rightarrow> 'a list \<Rightarrow> ('e, 'a list) outcome"
    and width ds ss slen :: nat
    and f :: "nat \<Rightarrow> 'a \<Rightarrow> 'a"
  assumes loop_0: "loop 0 d s xs = Ok xs"
    and loop_Suc: "loop (Suc n) d s xs = and_then (row d s xs) (loop n (usize_add d ds) (usize_add s ss))"
    and row_ok: "d + width \<le> length xs \<Longrightarrow> s + width \<le> slen \<Longrightarrow> length xs < 2 ^ 63 \<Longrightarrow> slen < 2 ^ 63 \<Longrightarrow>
      \<exists>ys. row d s xs = Ok ys \<and> row_spec d width (\<lambda>j. f (s + j)) xs ys"
begin

lemma loop_rows:
  assumes "width \<le> ds" "length xs < 2 ^ 63" "slen < 2 ^ 63"
    and "0 < n \<Longrightarrow> d + (n - 1) * ds + width \<le> length xs" "0 < n \<Longrightarrow> s + (n - 1) * ss + width \<le> slen"
  shows "\<exists>ys. loop n d s xs = Ok ys \<and> rows_spec d ds width n (\<lambda>k j. f (s + k * ss + j)) xs ys"
  using assms(2,4,5)
proof (induction n arbitrary: d s xs)
  case 0
  then show ?case by (simp add: loop_0)
next
  case (Suc n)
  have "d + width \<le> length xs" "s + width \<le> slen" using Suc.prems(2,3) by auto
  from row_ok [OF this Suc.prems(1) assms(3)] obtain ys where ys: "row d s xs = Ok ys"
    "row_spec d width (\<lambda>j. f (s + j)) xs ys" by blast
  then have len: "length ys = length xs" by (simp add: row_specD(1))
  show ?case
  proof (cases "n = 0")
    case True
    have "rows_spec d ds width (Suc 0) (\<lambda>k j. f (s + k * ss + j)) xs ys"
      by (rule rows_spec_Suc [of _ _ _ _ ys]) (use ys assms(1) Suc.prems True in simp_all)
    with ys True show ?thesis by (simp add: loop_Suc loop_0)
  next
    case False
    then have split: "(n - 1) * ds + ds = n * ds" "(n - 1) * ss + ss = n * ss" by (cases n; simp)+
    have c: "usize_add d ds = d + ds" "usize_add s ss = s + ss"
      using Suc.prems split assms(3) by (auto intro!: usize_add_exact)
    have "\<exists>zs. loop n (d + ds) (s + ss) ys = Ok zs \<and>
        rows_spec (d + ds) ds width n (\<lambda>k j. f (s + ss + k * ss + j)) ys zs"
      by (rule Suc.IH) (use Suc.prems split len in auto)
    then obtain zs where zs: "loop n (d + ds) (s + ss) ys = Ok zs"
      "rows_spec (d + ds) ds width n (\<lambda>k j. f (s + ss + k * ss + j)) ys zs" by blast
    have "rows_spec d ds width (Suc n) (\<lambda>k j. f (s + k * ss + j)) xs zs"
      by (rule rows_spec_Suc [of _ _ _ _ ys]) (use ys zs assms(1) Suc.prems in \<open>simp_all add: add.assoc\<close>)
    then show ?thesis using ys(1) zs(1) by (auto simp: loop_Suc c)
  qed
qed

end

lemma memset_row:
  assumes "c + n \<le> length xs" "length xs < 2 ^ 63"
  shows "\<exists>ys. memset_colors xs c n col = Ok ys \<and> row_spec c n (\<lambda>_ _. col) xs ys"
proof -
  have "usize_add c n = c + n" using assms by (simp add: usize_add_exact)
  then show ?thesis using assms by (auto simp: memset_colors_def Let_def row_spec_def nth_append min_def)
qed

lemma copy_row:
  assumes "d + n \<le> length dst" "s + n \<le> length src"
  shows "\<exists>ys. copy_slice dst d src s n = Ok ys \<and> row_spec d n (\<lambda>j _. src ! (s + j)) dst ys"
proof -
  have len: "min d (length dst) = d" "min (length src - s) n = n" using assms by simp_all
  then show ?thesis using assms by (auto simp: copy_slice_def row_spec_def nth_append)
qed

lemma row_spec_Suc:
  assumes "row_spec (Suc d) n (\<lambda>j. g (Suc j)) xs' ys" "d < length xs"
    and "length xs' = length xs" "xs' ! d = g 0 (xs ! d)" "\<And>i. i \<noteq> d \<Longrightarrow> xs' ! i = xs ! i"
  shows "row_spec d (Suc n) g xs ys"
  unfolding row_spec_def
proof (intro conjI allI impI)
  fix j
  assume "j < Suc n"
  then show "ys ! (d + j) = g j (xs ! (d + j))"
    using row_specD(2) [OF assms(1), of "j - 1"] row_specD(3) [OF assms(1), of d] assms(2-5) by (cases j) auto
next
  fix i
  assume "i < length xs" "i < d \<or> d + Suc n \<le> i"
  then show "ys ! i = xs ! i" using row_specD(3) [OF assms(1), of i] assms(3,5) by auto
qed (use row_specD(1) [OF assms(1)] assms(3) in simp)

lemma convert_row:
  assumes "d + n \<le> length dst" "s + n \<le> length src" "length dst < 2 ^ 63" "length src < 2 ^ 63"
  shows "\<exists>ys. (convert_pixels f n d s src dst :: ('e, 'a list) outcome) = Ok ys \<and>
    row_spec d n (\<lambda>j old. case f (src ! (s + j)) of None \<Rightarrow> old | Some c \<Rightarrow> c) dst ys"
  using assms
proof (induction n arbitrary: d s dst)
  case 0
  then show ?case by (simp add: row_spec_def)
next
  case (Suc n)
  let ?dst = "case f (src ! s) of None \<Rightarrow> dst | Some c \<Rightarrow> dst[d := c]"
  let ?g = "\<lambda>j old. case f (src ! (s + j)) of None \<Rightarrow> old | Some c \<Rightarrow> c"
  have "usize_add d 1 = Suc d" "usize_add s 1 = Suc s" using Suc.prems by (simp_all add: usize_add_def)
  then have step: "(convert_pixels f (Suc n) d s src dst :: ('e, 'a list) outcome) = convert_pixels f n (Suc d) (Suc s) src ?dst"
    using Suc.prems by (auto simp: slice_get_unchecked_def slice_set_unchecked_def split: option.splits)
  have len: "length ?dst = length dst" by (simp split: option.splits)
  have "Suc d + n \<le> length ?dst" "Suc s + n \<le> length src" "length ?dst < 2 ^ 63" using Suc.prems len by simp_all
  from Suc.IH [OF this Suc.prems(4)] obtain ys
    where ys: "(convert_pixels f n (Suc d) (Suc s) src ?dst :: ('e, 'a list) outcome) = Ok ys"
    "row_spec (Suc d) n (\<lambda>j. ?g (Suc j)) ?dst ys" by (auto simp: add_Suc_shift)
  have "row_spec d (Suc n) ?g dst ys"
    by (rule row_spec_Suc [OF ys(2)]) (use Suc.prems len in \<open>auto split: option.splits\<close>)
  then show ?case unfolding step ys(1) by blast
qed

text \<open>The three loops of the library are row loops.\<close>

interpretation fill: row_loop "\<lambda>n d s. fill_rows n d w st c" "\<lambda>d s xs. memset_colors xs d w c" w st 0 slen "\<lambda>_ _. c"
  for w st slen :: nat and c :: 'a
  by unfold_locales (auto simp: memset_row)

interpretation copying: row_loop "\<lambda>n d s. copy_rows n w d ds s ss src" "\<lambda>d s dst. copy_slice dst d src s w" w ds ss
    "length src" "\<lambda>i _. src ! i"
  for w ds ss :: nat and src :: "'a list"
  by unfold_locales (auto simp: copy_row)

interpretation converting: row_loop "\<lambda>n d s. convert_rows f n w d dd s sd src"
    "\<lambda>d s. convert_pixels f w d s src" w "usize_add w dd" "usize_add w sd" "length src"
    "\<lambda>i old. case f (src ! i) of None \<Rightarrow> old | Some c \<Rightarrow> c"
  for w dd sd :: nat and f :: "'b \<Rightarrow> 'a option" and src :: "'b list"
  by unfold_locales (simp_all add: convert_row usize_add_def mod_simps add.assoc)

end
