(* ===== verification/BitmapPaint.thy ===== *)
theory BitmapPaint
  imports BitmapRows
begin

text \<open>
  What the drawing operations of a bitmap do to its pixels.  \<open>paints\<close> is the specification: inside the
  bounds exactly the pixels of a region change, and the rest of the slice (the padding of the rows) stays.
  The operations clip their arguments and then run a row loop; the clipping is one lemma per axis.
\<close>

section \<open>Well-formed bitmaps and the specification of painting\<close>

text \<open>
  What the constructors take on trust: the slice holds all the rows.  The last row may end before the
  stride does, as it is in a view.
\<close>

definition bitmap_ok :: "'a bitmap \<Rightarrow> bool" where
  "bitmap_ok b \<longleftrightarrow>
     0 \<le> sz_width (bm_size b) \<and> sz_width (bm_size b) < 2 ^ 31 \<and> 0 \<le> sz_height (bm_size b) \<and> sz_height (bm_size b) < 2 ^ 31 \<and>
     nat (sz_width (bm_size b)) \<le> bm_stride b \<and> bm_stride b < 2 ^ 31 \<and> length (bm_slice b) < 2 ^ 63 \<and>
     (0 < sz_height (bm_size b) \<longrightarrow>
        (nat (sz_height (bm_size b)) - 1) * bm_stride b + nat (sz_width (bm_size b)) \<le> length (bm_slice b))"

definition in_bounds :: "'a bitmap \<Rightarrow> int \<Rightarrow> int \<Rightarrow> bool" where
  "in_bounds b x y \<longleftrightarrow> 0 \<le> x \<and> x < sz_width (bm_size b) \<and> 0 \<le> y \<and> y < sz_height (bm_size b)"

definition bm_off :: "'a bitmap \<Rightarrow> int \<Rightarrow> int \<Rightarrow> nat" where
  "bm_off b x y = nat x + nat y * bm_stride b"

definition bm_px :: "'a bitmap \<Rightarrow> int \<Rightarrow> int \<Rightarrow> 'a" where
  "bm_px b x y = bm_slice b ! bm_off b x y"

definition paints :: "'a bitmap \<Rightarrow> (int \<Rightarrow> int \<Rightarrow> bool) \<Rightarrow> (int \<Rightarrow> int \<Rightarrow> 'a \<Rightarrow> 'a) \<Rightarrow> 'a bitmap \<Rightarrow> bool" where
  "paints b R g b' \<longleftrightarrow>
     bm_size b' = bm_size b \<and> bm_stride b' = bm_stride b \<and> length (bm_slice b') = length (bm_slice b) \<and>
     (\<forall>x y. in_bounds b x y \<longrightarrow> bm_px b' x y = (if R x y then g x y (bm_px b x y) else bm_px b x y)) \<and>
     (\<forall>i<length (bm_slice b). (\<forall>x y. in_bounds b x y \<longrightarrow> i \<noteq> bm_off b x y) \<longrightarrow> bm_slice b' ! i = bm_slice b ! i)"

lemma paints_refl: "(\<And>x y. in_bounds b x y \<Longrightarrow> \<not> R x y) \<Longrightarrow> paints b R g b"
  by (auto simp: paints_def)

lemma paints_ok: "paints b R g b' \<Longrightarrow> bitmap_ok b \<Longrightarrow> bitmap_ok b'"
  by (simp add: paints_def bitmap_ok_def)

lemma paints_px: "paints b R g b' \<Longrightarrow> in_bounds b x y \<Longrightarrow> bm_px b' x y = (if R x y then g x y (bm_px b x y) else bm_px b x y)"
  by (simp add: paints_def)

lemma paints_cong:
  "paints b R g b' \<Longrightarrow> (\<And>x y. in_bounds b x y \<Longrightarrow> R x y \<longleftrightarrow> R' x y) \<Longrightarrow>
   (\<And>x y old. in_bounds b x y \<Longrightarrow> R x y \<Longrightarrow> g x y old = g' x y old) \<Longrightarrow> paints b R' g' b'"
  by (simp add: paints_def)

lemma paints_trans:
  "paints b R (\<lambda>_ _ _. c) b1 \<Longrightarrow> paints b1 R' (\<lambda>_ _ _. c) b2 \<Longrightarrow> paints b (\<lambda>x y. R x y \<or> R' x y) (\<lambda>_ _ _. c) b2"
  by (auto simp: paints_def in_bounds_def bm_off_def)

lemma row_col_inject:
  assumes "x < st" "x' < st" "x + y * st = x' + y' * (st::nat)"
  shows "x = x' \<and> y = y'"
proof -
  have "(x + y * st) mod st = x" "(x' + y' * st) mod st = x'" "(x + y * st) div st = y" "(x' + y' * st) div st = y'"
    using assms(1,2) by auto
  then show ?thesis using assms(3) by metis
qed

text \<open>A region inside the bounds is inside the slice, and rows of it are a painted rectangle.\<close>

lemma region_in_slice:
  assumes "bitmap_ok b" "0 \<le> dx" "0 \<le> dy" "0 < w" "0 < h" "dx + w \<le> sz_width (bm_size b)" "dy + h \<le> sz_height (bm_size b)"
  shows "bm_off b dx dy + (nat h - 1) * bm_stride b + nat w \<le> length (bm_slice b)"
proof -
  let ?H = "nat (sz_height (bm_size b))"
  have "nat dy + (nat h - 1) \<le> ?H - 1" using assms(3,5,7) by linarith
  then have "(nat dy + (nat h - 1)) * bm_stride b \<le> (?H - 1) * bm_stride b" by (rule mult_right_mono) simp
  moreover have "nat dx + nat w \<le> nat (sz_width (bm_size b))" using assms by linarith
  moreover have "(?H - 1) * bm_stride b + nat (sz_width (bm_size b)) \<le> length (bm_slice b)"
    using assms by (simp add: bitmap_ok_def)
  ultimately show ?thesis by (simp add: bm_off_def add_mult_distrib)
qed

lemma rows_paint:
  assumes ok: "bitmap_ok b" and reg: "0 \<le> dx" "0 \<le> dy" "0 < w" "0 < h"
      "dx + w \<le> sz_width (bm_size b)" "dy + h \<le> sz_height (bm_size b)"
    and rows: "rows_spec (bm_off b dx dy) (bm_stride b) (nat w) (nat h) v (bm_slice b) ys"
  shows "paints b (\<lambda>x y. dx \<le> x \<and> x < dx + w \<and> dy \<le> y \<and> y < dy + h) (\<lambda>x y. v (nat (y - dy)) (nat (x - dx))) (b\<lparr>bm_slice := ys\<rparr>)"
proof -
  let ?st = "bm_stride b"
  have st: "nat (sz_width (bm_size b)) \<le> ?st" using ok by (simp add: bitmap_ok_def)
  have index: "bm_off b dx dy + k * ?st + j = bm_off b (dx + int j) (dy + int k)" for k j
    using reg(1,2) by (simp add: bm_off_def nat_add_distrib add_mult_distrib)
  have same: "x = dx + int j \<and> y = dy + int k"
    if "in_bounds b x y" "k < nat h" "j < nat w" "bm_off b x y = bm_off b dx dy + k * ?st + j" for x y k j
  proof -
    have "nat x < ?st" "nat (dx + int j) < ?st" using that(1,3) reg st by (auto simp: in_bounds_def)
    from row_col_inject [OF this, of "nat y" "nat (dy + int k)"] that reg show ?thesis
      unfolding index by (auto simp: bm_off_def in_bounds_def)
  qed
  have lt: "bm_off b x y < length (bm_slice b)" if "in_bounds b x y" for x y
    using region_in_slice [OF ok, of x y 1 1] that by (simp add: in_bounds_def)
  have px: "ys ! bm_off b x y = (if dx \<le> x \<and> x < dx + w \<and> dy \<le> y \<and> y < dy + h
      then v (nat (y - dy)) (nat (x - dx)) (bm_px b x y) else bm_px b x y)" if xy: "in_bounds b x y" for x y
  proof (cases "dx \<le> x \<and> x < dx + w \<and> dy \<le> y \<and> y < dy + h")
    case True
    then have "bm_off b x y = bm_off b dx dy + nat (y - dy) * ?st + nat (x - dx)" unfolding index by simp
    with True rows show ?thesis by (simp add: rows_spec_def bm_px_def)
  next
    case False
    have "bm_off b x y \<noteq> bm_off b dx dy + k * ?st + j" if "k < nat h" "j < nat w" for k j
      using same [OF xy that] False that by auto
    then have "ys ! bm_off b x y = bm_px b x y" using rows lt [OF xy] by (simp add: rows_spec_def bm_px_def)
    then show ?thesis by (simp only: False if_False)
  qed
  have out: "ys ! i = bm_slice b ! i" if "i < length (bm_slice b)" "\<forall>x y. in_bounds b x y \<longrightarrow> i \<noteq> bm_off b x y" for i
  proof -
    have "i \<noteq> bm_off b dx dy + k * ?st + j" if "k < nat h" "j < nat w" for k j
    proof -
      have "in_bounds b (dx + int j) (dy + int k)" using reg that unfolding in_bounds_def by linarith
      with \<open>\<forall>x y. in_bounds b x y \<longrightarrow> i \<noteq> bm_off b x y\<close> show ?thesis unfolding index by blast
    qed
    with that rows show ?thesis by (simp add: rows_spec_def)
  qed
  show ?thesis using px out rows by (simp add: paints_def rows_spec_def bm_px_def bm_off_def)
qed

lemma cursor_exact:
  assumes "bitmap_ok b" "0 \<le> dx" "0 \<le> dy" "dx < sz_width (bm_size b)" "dy < sz_height (bm_size b)"
  shows "usize_add (as_usize dx) (usize_mul (as_usize dy) (bm_stride b)) = bm_off b dx dy"
proof -
  have "bm_off b dx dy < length (bm_slice b)" using region_in_slice [OF assms(1-3), of 1 1] assms by simp
  moreover have "length (bm_slice b) < 2 ^ 63" "dx < 2 ^ 31" "dy < 2 ^ 31" using assms by (auto simp: bitmap_ok_def)
  ultimately show ?thesis using assms(2,3)
    by (simp add: bm_off_def as_usize_nonneg usize_mul_exact usize_add_exact)
qed

lemma count_exact:
  assumes "bitmap_ok b" "0 \<le> dx" "0 < w" "0 < h" "dx + w \<le> sz_width (bm_size b)" "h \<le> sz_height (bm_size b)"
    "bm_stride b = nat w"
  shows "dx = 0" "w = sz_width (bm_size b)" "usize_mul (nat w) (nat h) = nat w * nat h"
    "(nat h - 1) * nat w + nat w = nat w * nat h"
proof -
  show "dx = 0" "w = sz_width (bm_size b)" using assms by (auto simp: bitmap_ok_def)
  have "nat w < 2 ^ 31" "nat h < 2 ^ 31" using assms by (auto simp: bitmap_ok_def nat_less_iff)
  then have "nat w * nat h < 2 ^ 31 * 2 ^ 31" by (intro mult_strict_mono) auto
  then show "usize_mul (nat w) (nat h) = nat w * nat h" by (simp add: usize_mul_exact)
  show "(nat h - 1) * nat w + nat w = nat w * nat h" using assms(4) by (cases "nat h") auto
qed


section \<open>Clipping\<close>

text \<open>One axis of \<open>clip_rect\<close> and of \<open>adjust_blt_coords\<close>.\<close>

definition clip_axis :: "int \<Rightarrow> int \<Rightarrow> int \<Rightarrow> int \<times> int" where
  "clip_axis n d w =
     (let (w, d) = (if d < 0 then (isize_add w d, 0) else (w, d)) in
      (d, if n \<le> isize_add d w then isize_sub n d else w))"

definition blt_axis :: "int \<Rightarrow> int \<Rightarrow> int \<Rightarrow> int \<Rightarrow> int \<Rightarrow> int \<times> int \<times> int" where
  "blt_axis dn sn d s w =
     (let (d, w, s) = (if s < 0 then (isize_sub d s, isize_add w s, 0) else (d, w, s));
          (s, w, d) = (if d < 0 then (isize_sub s d, isize_add w d, 0) else (s, w, d));
          w = (if sn < isize_add s w then isize_sub sn s else w) in
      (d, s, if dn \<le> isize_add d w then isize_sub dn d else w))"

lemma clip_rect_axes:
  "clip_rect s r =
     (case clip_axis (sz_width s) (min_x r) (sz_width (r_size r)) of (dx, w) \<Rightarrow>
      case clip_axis (sz_height s) (min_y r) (sz_height (r_size r)) of (dy, h) \<Rightarrow> (dx, dy, w, h))"
  by (simp add: clip_rect_def clip_axis_def Let_def)

lemma adjust_axes:
  "adjust_blt_coords dest src p r =
     (case blt_axis (sz_width dest) (sz_width src) (pt_x p) (min_x r) (sz_width (r_size r)) of (dx, sx, w) \<Rightarrow>
      case blt_axis (sz_height dest) (sz_height src) (pt_y p) (min_y r) (sz_height (r_size r)) of (dy, sy, h) \<Rightarrow>
      (dx, dy, sx, sy, w, h))"
  by (simp add: adjust_blt_coords_def blt_axis_def Let_def)

lemma clip_axis_spec:
  assumes "clip_axis n d w = (d', w')" "0 \<le> n" "small n" "small d" "small w"
  shows "0 < w' \<Longrightarrow> 0 \<le> d' \<and> d' + w' \<le> n \<and> w' < 2 ^ 63"
    and "0 \<le> x \<Longrightarrow> x < n \<Longrightarrow> d' \<le> x \<and> x < d' + w' \<longleftrightarrow> d \<le> x \<and> x < d + w"
  using assms by (auto simp: clip_axis_def small_iff isize_simps split: if_splits)

lemma blt_axis_spec:
  assumes "blt_axis dn sn d s w = (d', s', w')" "0 \<le> dn" "0 \<le> sn" "small dn" "small sn" "small d" "small s" "small w"
  shows "0 < w' \<Longrightarrow> 0 \<le> d' \<and> d' + w' \<le> dn \<and> 0 \<le> s' \<and> s' + w' \<le> sn \<and> s' - d' = s - d \<and> w' < 2 ^ 63"
    and "0 \<le> x \<Longrightarrow> x < dn \<Longrightarrow>
      d' \<le> x \<and> x < d' + w' \<longleftrightarrow> s \<le> x - d + s \<and> x - d + s < s + w \<and> 0 \<le> x - d + s \<and> x - d + s < sn"
  using assms by (auto simp: blt_axis_def Let_def small_iff isize_simps split: if_splits)

text \<open>The rectangle as it is written, and coordinates that do not overflow.\<close>

definition in_rect :: "rect \<Rightarrow> int \<Rightarrow> int \<Rightarrow> bool" where
  "in_rect r x y \<longleftrightarrow> min_x r \<le> x \<and> x < min_x r + sz_width (r_size r) \<and> min_y r \<le> y \<and> y < min_y r + sz_height (r_size r)"

definition rect_small :: "rect \<Rightarrow> bool" where
  "rect_small r \<longleftrightarrow> small (min_x r) \<and> small (min_y r) \<and> small (sz_width (r_size r)) \<and> small (sz_height (r_size r))"

lemma bitmap_ok_small:
  "bitmap_ok b \<Longrightarrow> 0 \<le> sz_width (bm_size b) \<and> small (sz_width (bm_size b)) \<and> 0 \<le> sz_height (bm_size b) \<and> small (sz_height (bm_size b))"
  by (simp add: bitmap_ok_def small_iff)

lemma clip_rect_spec:
  assumes "bitmap_ok b" "rect_small r" "clip_rect (bm_size b) r = (dx, dy, w, h)"
  shows "0 < w \<Longrightarrow> 0 < h \<Longrightarrow> 0 \<le> dx \<and> 0 \<le> dy \<and> dx + w \<le> sz_width (bm_size b) \<and> dy + h \<le> sz_height (bm_size b)"
    and "in_bounds b x y \<Longrightarrow> dx \<le> x \<and> x < dx + w \<and> dy \<le> y \<and> y < dy + h \<longleftrightarrow> in_rect r x y"
proof -
  from assms(3) have a: "clip_axis (sz_width (bm_size b)) (min_x r) (sz_width (r_size r)) = (dx, w)"
    "clip_axis (sz_height (bm_size b)) (min_y r) (sz_height (r_size r)) = (dy, h)"
    by (auto simp: clip_rect_axes split: prod.splits)
  note x = clip_axis_spec [OF a(1)] and y = clip_axis_spec [OF a(2)] and s = bitmap_ok_small [OF assms(1)]
  show "0 < w \<Longrightarrow> 0 < h \<Longrightarrow> 0 \<le> dx \<and> 0 \<le> dy \<and> dx + w \<le> sz_width (bm_size b) \<and> dy + h \<le> sz_height (bm_size b)"
    using x(1) y(1) s assms(2) by (simp add: rect_small_def)
  show "in_bounds b x y \<Longrightarrow> dx \<le> x \<and> x < dx + w \<and> dy \<le> y \<and> y < dy + h \<longleftrightarrow> in_rect r x y"
    using x(2) [of x] y(2) [of y] s assms(2) by (simp add: rect_small_def in_bounds_def in_rect_def) blast
qed

lemma adjust_spec:
  assumes "bitmap_ok b" "bitmap_ok src" "rect_small r" "small (pt_x p)" "small (pt_y p)"
    "adjust_blt_coords (bm_size b) (bm_size src) p r = (dx, dy, sx, sy, w, h)"
  defines "X x \<equiv> x - pt_x p + min_x r" and "Y y \<equiv> y - pt_y p + min_y r"
  shows "0 < w \<Longrightarrow> 0 < h \<Longrightarrow> 0 \<le> dx \<and> 0 \<le> dy \<and> dx + w \<le> sz_width (bm_size b) \<and> dy + h \<le> sz_height (bm_size b) \<and>
      0 \<le> sx \<and> 0 \<le> sy \<and> sx + w \<le> sz_width (bm_size src) \<and> sy + h \<le> sz_height (bm_size src) \<and>
      sx - dx = min_x r - pt_x p \<and> sy - dy = min_y r - pt_y p"
    and "in_bounds b x y \<Longrightarrow>
      dx \<le> x \<and> x < dx + w \<and> dy \<le> y \<and> y < dy + h \<longleftrightarrow> in_rect r (X x) (Y y) \<and> in_bounds src (X x) (Y y)"
proof -
  from assms(6) have a: "blt_axis (sz_width (bm_size b)) (sz_width (bm_size src)) (pt_x p) (min_x r) (sz_width (r_size r)) = (dx, sx, w)"
    "blt_axis (sz_height (bm_size b)) (sz_height (bm_size src)) (pt_y p) (min_y r) (sz_height (r_size r)) = (dy, sy, h)"
    by (auto simp: adjust_axes split: prod.splits)
  note x = blt_axis_spec [OF a(1)] and y = blt_axis_spec [OF a(2)]
    and s = bitmap_ok_small [OF assms(1)] bitmap_ok_small [OF assms(2)]
  show "0 < w \<Longrightarrow> 0 < h \<Longrightarrow> 0 \<le> dx \<and> 0 \<le> dy \<and> dx + w \<le> sz_width (bm_size b) \<and> dy + h \<le> sz_height (bm_size b) \<and>
      0 \<le> sx \<and> 0 \<le> sy \<and> sx + w \<le> sz_width (bm_size src) \<and> sy + h \<le> sz_height (bm_size src) \<and>
      sx - dx = min_x r - pt_x p \<and> sy - dy = min_y r - pt_y p"
    using x(1) y(1) s assms(3,4,5) by (simp add: rect_small_def)
  show "in_bounds b x y \<Longrightarrow>
      dx \<le> x \<and> x < dx + w \<and> dy \<le> y \<and> y < dy + h \<longleftrightarrow> in_rect r (X x) (Y y) \<and> in_bounds src (X x) (Y y)"
    using x(2) [of x] y(2) [of y] s assms(3,4,5)
    by (simp add: rect_small_def in_bounds_def in_rect_def X_def Y_def) blast
qed


section \<open>The operations paint\<close>

interpretation vline: row_loop "\<lambda>n d s. vline_loop n d st c" "\<lambda>d s xs. if d < length xs then Ok (xs[d := c]) else Panic"
    1 st 0 slen "\<lambda>_ _. c"
  for st slen :: nat and c :: 'a
  by unfold_locales (auto simp: row_spec_def)

text \<open>What holds of a region inside the bounds: its cursor, its size and its last element do not overflow.\<close>

definition bm_region :: "'a bitmap \<Rightarrow> int \<Rightarrow> int \<Rightarrow> int \<Rightarrow> int \<Rightarrow> bool" where
  "bm_region b dx dy w h \<longleftrightarrow>
     0 \<le> dx \<and> 0 \<le> dy \<and> 0 < w \<and> 0 < h \<and> dx + w \<le> sz_width (bm_size b) \<and> dy + h \<le> sz_height (bm_size b)"

lemma regionD:
  assumes "bitmap_ok b" "bm_region b dx dy w h"
  shows "length (bm_slice b) < 2 ^ 63" "as_usize w = nat w" "as_usize h = nat h" "nat w \<le> bm_stride b" "nat w < 2 ^ 63"
    and "usize_add (as_usize dx) (usize_mul (as_usize dy) (bm_stride b)) = bm_off b dx dy"
    and "bm_off b dx dy + (nat h - 1) * bm_stride b + nat w \<le> length (bm_slice b)"
    and "bm_stride b = nat w \<Longrightarrow> usize_mul (nat w) (nat h) = nat w * nat h \<and> (nat h - 1) * nat w + nat w = nat w * nat h"
proof -
  show "nat w \<le> bm_stride b" using assms unfolding bm_region_def bitmap_ok_def by linarith
qed (use assms region_in_slice [OF assms(1), of dx dy w h] count_exact(3,4) [OF assms(1), of dx w h]
    cursor_exact [OF assms(1), of dx dy] in \<open>auto simp: bm_region_def bitmap_ok_def as_usize_nonneg\<close>)

lemma fill_region:
  assumes ok: "bitmap_ok b" "bm_region b dx dy w h"
  shows "\<exists>ys. (if bm_stride b = nat w then memset_colors (bm_slice b) (bm_off b dx dy) (usize_mul (nat w) (nat h)) c
      else fill_rows (nat h) (bm_off b dx dy) (nat w) (bm_stride b) c (bm_slice b)) = (Ok ys :: ('e, 'a list) outcome) \<and>
    rows_spec (bm_off b dx dy) (bm_stride b) (nat w) (nat h) (\<lambda>_ _ _. c) (bm_slice b) ys"
proof (cases "bm_stride b = nat w")
  case True
  with regionD(7,8) [OF ok] have "bm_off b dx dy + nat w * nat h \<le> length (bm_slice b)" by simp
  from memset_row [OF this regionD(1) [OF ok]] obtain ys where
    ys: "memset_colors (bm_slice b) (bm_off b dx dy) (nat w * nat h) c = (Ok ys :: ('e, 'a list) outcome)"
    "row_spec (bm_off b dx dy) (nat w * nat h) (\<lambda>_ _. c) (bm_slice b) ys" by blast
  from rows_spec_flat [OF ys(2)] ys(1) True regionD(8) [OF ok] show ?thesis by simp
next
  case False
  with fill.loop_rows [OF regionD(4,1,5) [OF ok], of "nat h" "bm_off b dx dy" 0 c] regionD(7) [OF ok] show ?thesis by simp
qed

lemma fill_rect_paints:
  assumes "bitmap_ok b" "rect_small r"
  shows "\<exists>b'. (fill_rect b r c :: ('e, 'a bitmap) outcome) = Ok b' \<and> paints b (in_rect r) (\<lambda>_ _ _. c) b'"
proof -
  obtain dx dy w h where clip: "clip_rect (bm_size b) r = (dx, dy, w, h)" by (metis prod_cases4)
  note spec = clip_rect_spec [OF assms clip]
  show ?thesis
  proof (cases "w \<le> 0 \<or> h \<le> 0")
    case True
    then have "fill_rect b r c = (Ok b :: ('e, 'a bitmap) outcome)" using clip by (simp add: fill_rect_def)
    moreover have "paints b (in_rect r) (\<lambda>_ _ _. c) b" using spec(2) True by (intro paints_refl) fastforce
    ultimately show ?thesis by blast
  next
    case False
    then have reg: "bm_region b dx dy w h" using spec(1) by (auto simp: bm_region_def)
    obtain ys where ys: "(if bm_stride b = nat w then memset_colors (bm_slice b) (bm_off b dx dy) (usize_mul (nat w) (nat h)) c
         else fill_rows (nat h) (bm_off b dx dy) (nat w) (bm_stride b) c (bm_slice b)) = (Ok ys :: ('e, 'a list) outcome)"
       "rows_spec (bm_off b dx dy) (bm_stride b) (nat w) (nat h) (\<lambda>_ _ _. c) (bm_slice b) ys"
      using fill_region [OF assms(1) reg] by blast
    have "fill_rect b r c = (Ok (b\<lparr>bm_slice := ys\<rparr>) :: ('e, 'a bitmap) outcome)"
      unfolding fill_rect_def clip prod.case if_not_P [OF False] Let_def regionD(2,3,6) [OF assms(1) reg] ys(1) by simp
    moreover have "paints b (in_rect r) (\<lambda>_ _ _. c) (b\<lparr>bm_slice := ys\<rparr>)"
      by (rule paints_cong [OF rows_paint [OF assms(1) _ _ _ _ _ _ ys(2)] spec(2)]) (use reg in \<open>simp_all add: bm_region_def\<close>)
    ultimately show ?thesis by blast
  qed
qed

lemma copy_region:
  assumes ok: "bitmap_ok b" "bm_region b dx dy w h" and oks: "bitmap_ok src" "bm_region src sx sy w h"
  shows "\<exists>ys. (if bm_stride b = nat w \<and> bm_stride src = nat w
      then copy_slice (bm_slice b) (bm_off b dx dy) (bm_slice src) (bm_off src sx sy) (usize_mul (nat w) (nat h))
      else copy_rows (nat h) (nat w) (bm_off b dx dy) (bm_stride b) (bm_off src sx sy) (bm_stride src) (bm_slice src) (bm_slice b))
        = (Ok ys :: ('e, 'a list) outcome) \<and>
    rows_spec (bm_off b dx dy) (bm_stride b) (nat w) (nat h)
      (\<lambda>k j _. bm_slice src ! (bm_off src sx sy + k * bm_stride src + j)) (bm_slice b) ys"
proof (cases "bm_stride b = nat w \<and> bm_stride src = nat w")
  case True
  with regionD(7,8) [OF ok] regionD(7) [OF oks]
  have "bm_off b dx dy + nat w * nat h \<le> length (bm_slice b)" "bm_off src sx sy + nat w * nat h \<le> length (bm_slice src)" by simp_all
  from copy_row [OF this] obtain ys where
    ys: "copy_slice (bm_slice b) (bm_off b dx dy) (bm_slice src) (bm_off src sx sy) (nat w * nat h) = (Ok ys :: ('e, 'a list) outcome)"
    "row_spec (bm_off b dx dy) (nat w * nat h) (\<lambda>j _. bm_slice src ! (bm_off src sx sy + j)) (bm_slice b) ys" by blast
  from rows_spec_flat [OF ys(2)] ys(1) True regionD(8) [OF ok] show ?thesis by (simp add: add.assoc)
next
  case False
  show ?thesis unfolding if_not_P [OF False]
    by (rule copying.loop_rows) (use regionD [OF ok] regionD [OF oks] in simp_all)
qed

lemma convert_region:
  fixes b :: "'a bitmap" and src :: "'b bitmap"
  assumes ok: "bitmap_ok b" "bm_region b dx dy w h" and oks: "bitmap_ok src" "bm_region src sx sy w h"
  shows "\<exists>ys. (if usize_sub (bm_stride b) (nat w) = 0 \<and> usize_sub (bm_stride src) (nat w) = 0
      then convert_pixels f (usize_mul (nat h) (nat w)) (bm_off b dx dy) (bm_off src sx sy) (bm_slice src) (bm_slice b)
      else convert_rows f (nat h) (nat w) (bm_off b dx dy) (usize_sub (bm_stride b) (nat w))
        (bm_off src sx sy) (usize_sub (bm_stride src) (nat w)) (bm_slice src) (bm_slice b)) = (Ok ys :: ('e, 'a list) outcome) \<and>
    rows_spec (bm_off b dx dy) (bm_stride b) (nat w) (nat h)
      (\<lambda>k j old. case f (bm_slice src ! (bm_off src sx sy + k * bm_stride src + j)) of None \<Rightarrow> old | Some c \<Rightarrow> c) (bm_slice b) ys"
proof -
  have sub: "usize_sub (bm_stride b) (nat w) = bm_stride b - nat w" "usize_sub (bm_stride src) (nat w) = bm_stride src - nat w"
    "usize_add (nat w) (bm_stride b - nat w) = bm_stride b" "usize_add (nat w) (bm_stride src - nat w) = bm_stride src"
    using regionD(4) [OF ok] regionD(4) [OF oks] ok(1) oks(1) by (auto simp: usize_sub_exact usize_add_def bitmap_ok_def)
  show ?thesis
  proof (cases "bm_stride b = nat w \<and> bm_stride src = nat w")
    case True
    with regionD(7,8) [OF ok] regionD(7) [OF oks]
    have "bm_off b dx dy + nat w * nat h \<le> length (bm_slice b)" "bm_off src sx sy + nat w * nat h \<le> length (bm_slice src)" by simp_all
    from convert_row [OF this regionD(1) [OF ok] regionD(1) [OF oks]] obtain ys where
      ys: "convert_pixels f (nat w * nat h) (bm_off b dx dy) (bm_off src sx sy) (bm_slice src) (bm_slice b) = (Ok ys :: ('e, 'a list) outcome)"
      "row_spec (bm_off b dx dy) (nat w * nat h)
        (\<lambda>j old. case f (bm_slice src ! (bm_off src sx sy + j)) of None \<Rightarrow> old | Some c \<Rightarrow> c) (bm_slice b) ys" by blast
    have "usize_mul (nat h) (nat w) = nat w * nat h" using regionD(8) [OF ok] True by (simp add: usize_mul_def mult.commute)
    with rows_spec_flat [OF ys(2)] ys(1) True show ?thesis by (simp add: add.assoc usize_sub_exact)
  next
    case False
    then have ne: "\<not> (bm_stride b - nat w = 0 \<and> bm_stride src - nat w = 0)" using regionD(4) [OF ok] regionD(4) [OF oks] by auto
    show ?thesis unfolding sub if_not_P [OF ne]
      by (rule converting.loop_rows [where w = "nat w" and dd = "bm_stride b - nat w" and sd = "bm_stride src - nat w", unfolded sub])
        (use regionD [OF ok] regionD [OF oks] in simp_all)
  qed
qed


text \<open>
  The point of the source that \<open>blt\<close> with the destination \<open>p\<close> and the source rectangle \<open>r\<close> puts at
  \<open>(x, y)\<close>, and the points that have one.
\<close>

definition blt_px :: "'b bitmap \<Rightarrow> point \<Rightarrow> rect \<Rightarrow> int \<Rightarrow> int \<Rightarrow> 'b" where
  "blt_px src p r x y = bm_px src (x - pt_x p + min_x r) (y - pt_y p + min_y r)"

definition blt_area :: "'b bitmap \<Rightarrow> point \<Rightarrow> rect \<Rightarrow> int \<Rightarrow> int \<Rightarrow> bool" where
  "blt_area src p r x y \<longleftrightarrow>
     in_rect r (x - pt_x p + min_x r) (y - pt_y p + min_y r) \<and> in_bounds src (x - pt_x p + min_x r) (y - pt_y p + min_y r)"

lemma blt_rows_paint:
  assumes ok: "bitmap_ok b" "bitmap_ok src" "rect_small r" "small (pt_x p)" "small (pt_y p)"
    and adj: "adjust_blt_coords (bm_size b) (bm_size src) p r = (dx, dy, sx, sy, w, h)" and pos: "0 < w" "0 < h"
    and rows: "rows_spec (bm_off b dx dy) (bm_stride b) (nat w) (nat h)
      (\<lambda>k j. g (bm_slice src ! (bm_off src sx sy + k * bm_stride src + j))) (bm_slice b) ys"
  shows "bm_region b dx dy w h" "bm_region src sx sy w h"
    "paints b (blt_area src p r) (\<lambda>x y. g (blt_px src p r x y)) (b\<lparr>bm_slice := ys\<rparr>)"
proof -
  note spec = adjust_spec [OF ok adj]
  from spec(1) [OF pos] pos show reg: "bm_region b dx dy w h" "bm_region src sx sy w h" by (auto simp: bm_region_def)
  have "paints b (\<lambda>x y. dx \<le> x \<and> x < dx + w \<and> dy \<le> y \<and> y < dy + h)
      (\<lambda>x y. g (bm_slice src ! (bm_off src sx sy + nat (y - dy) * bm_stride src + nat (x - dx)))) (b\<lparr>bm_slice := ys\<rparr>)"
    by (rule rows_paint [OF ok(1) _ _ _ _ _ _ rows]) (use reg in \<open>auto simp: bm_region_def\<close>)
  then show "paints b (blt_area src p r) (\<lambda>x y. g (blt_px src p r x y)) (b\<lparr>bm_slice := ys\<rparr>)"
  proof (rule paints_cong)
    fix x y old
    assume "dx \<le> x \<and> x < dx + w \<and> dy \<le> y \<and> y < dy + h"
    then have "bm_off src sx sy + nat (y - dy) * bm_stride src + nat (x - dx) = bm_off src (sx + (x - dx)) (sy + (y - dy))"
      using reg(2) by (simp add: bm_off_def bm_region_def nat_add_distrib add_mult_distrib)
    also have "\<dots> = bm_off src (x - pt_x p + min_x r) (y - pt_y p + min_y r)"
    proof -
      have "sx + (x - dx) = x - pt_x p + min_x r" "sy + (y - dy) = y - pt_y p + min_y r" using spec(1) [OF pos] by linarith+
      then show ?thesis by (simp only:)
    qed
    finally show "g (bm_slice src ! (bm_off src sx sy + nat (y - dy) * bm_stride src + nat (x - dx))) old = g (blt_px src p r x y) old"
      by (simp add: blt_px_def bm_px_def)
  qed (use spec(2) in \<open>simp add: blt_area_def\<close>)
qed

lemma blt_nothing:
  assumes ok: "bitmap_ok b" "bitmap_ok src" "rect_small r" "small (pt_x p)" "small (pt_y p)"
    and adj: "adjust_blt_coords (bm_size b) (bm_size src) p r = (dx, dy, sx, sy, w, h)" and "w \<le> 0 \<or> h \<le> 0"
  shows "paints b (blt_area src p r) g b"
  using adjust_spec(2) [OF ok adj] assms(7) unfolding blt_area_def by (intro paints_refl) fastforce

lemma blt_regions:
  assumes ok: "bitmap_ok b" "bitmap_ok src" "rect_small r" "small (pt_x p)" "small (pt_y p)"
    and adj: "adjust_blt_coords (bm_size b) (bm_size src) p r = (dx, dy, sx, sy, w, h)" and pos: "0 < w" "0 < h"
  shows "bm_region b dx dy w h" "bm_region src sx sy w h"
  using adjust_spec(1) [OF ok adj pos] pos by (auto simp: bm_region_def)

lemma blt_paints:
  assumes ok: "bitmap_ok b" "bitmap_ok src" "rect_small r" "small (pt_x p)" "small (pt_y p)"
  shows "\<exists>b'. (blt b src p r :: ('e, 'a bitmap) outcome) = Ok b' \<and> paints b (blt_area src p r) (\<lambda>x y _. blt_px src p r x y) b'"
proof -
  obtain dx dy sx sy w h where adj: "adjust_blt_coords (bm_size b) (bm_size src) p r = (dx, dy, sx, sy, w, h)" by (metis prod_cases6)
  show ?thesis
  proof (cases "w \<le> 0 \<or> h \<le> 0")
    case True
    then have "blt b src p r = (Ok b :: ('e, 'a bitmap) outcome)" using adj by (simp add: blt_def)
    with blt_nothing [OF ok adj True] show ?thesis by blast
  next
    case False
    then have pos: "0 < w" "0 < h" by auto
    note reg = blt_regions [OF ok adj pos]
    note d = regionD [OF ok(1) reg(1)] and s = regionD [OF ok(2) reg(2)]
    from copy_region [OF ok(1) reg(1) ok(2) reg(2)] obtain ys where ys:
      "(if bm_stride b = nat w \<and> bm_stride src = nat w
       then copy_slice (bm_slice b) (bm_off b dx dy) (bm_slice src) (bm_off src sx sy) (usize_mul (nat w) (nat h))
       else copy_rows (nat h) (nat w) (bm_off b dx dy) (bm_stride b) (bm_off src sx sy) (bm_stride src) (bm_slice src) (bm_slice b))
         = (Ok ys :: ('e, 'a list) outcome)"
      "rows_spec (bm_off b dx dy) (bm_stride b) (nat w) (nat h)
        (\<lambda>k j _. bm_slice src ! (bm_off src sx sy + k * bm_stride src + j)) (bm_slice b) ys" by blast
    have "blt b src p r = (Ok (b\<lparr>bm_slice := ys\<rparr>) :: ('e, 'a bitmap) outcome)"
      unfolding blt_def adj prod.case if_not_P [OF False] Let_def d(2,3,6) s(6) ys(1) by simp
    with blt_rows_paint(3) [OF ok adj pos, of "\<lambda>c _. c", OF ys(2)] show ?thesis by blast
  qed
qed

lemma blt_convert_opt_paints:
  fixes b :: "'a bitmap" and src :: "'b bitmap"
  assumes ok: "bitmap_ok b" "bitmap_ok src" "rect_small r" "small (pt_x p)" "small (pt_y p)"
  shows "\<exists>b'. (blt_convert_opt f b src p r :: ('e, 'a bitmap) outcome) = Ok b' \<and>
    paints b (blt_area src p r) (\<lambda>x y old. case f (blt_px src p r x y) of None \<Rightarrow> old | Some c \<Rightarrow> c) b'"
proof -
  obtain dx dy sx sy w h where adj: "adjust_blt_coords (bm_size b) (bm_size src) p r = (dx, dy, sx, sy, w, h)" by (metis prod_cases6)
  show ?thesis
  proof (cases "w \<le> 0 \<or> h \<le> 0")
    case True
    then have "blt_convert_opt f b src p r = (Ok b :: ('e, 'a bitmap) outcome)" using adj by (simp add: blt_convert_opt_def)
    with blt_nothing [OF ok adj True] show ?thesis by blast
  next
    case False
    then have pos: "0 < w" "0 < h" by auto
    note reg = blt_regions [OF ok adj pos]
    note d = regionD [OF ok(1) reg(1)] and s = regionD [OF ok(2) reg(2)]
    from convert_region [OF ok(1) reg(1) ok(2) reg(2), of f] obtain ys where ys:
      "(if usize_sub (bm_stride b) (nat w) = 0 \<and> usize_sub (bm_stride src) (nat w) = 0
      then convert_pixels f (usize_mul (nat h) (nat w)) (bm_off b dx dy) (bm_off src sx sy) (bm_slice src) (bm_slice b)
      else convert_rows f (nat h) (nat w) (bm_off b dx dy) (usize_sub (bm_stride b) (nat w))
        (bm_off src sx sy) (usize_sub (bm_stride src) (nat w)) (bm_slice src) (bm_slice b)) = (Ok ys :: ('e, 'a list) outcome)"
      "rows_spec (bm_off b dx dy) (bm_stride b) (nat w) (nat h)
        (\<lambda>k j old. case f (bm_slice src ! (bm_off src sx sy + k * bm_stride src + j)) of None \<Rightarrow> old | Some c \<Rightarrow> c) (bm_slice b) ys"
      by blast
    have "blt_convert_opt f b src p r = (Ok (b\<lparr>bm_slice := ys\<rparr>) :: ('e, 'a bitmap) outcome)"
      unfolding blt_convert_opt_def adj prod.case if_not_P [OF False] Let_def d(2,3,6) s(6) ys(1) by simp
    with blt_rows_paint(3) [OF ok adj pos, of "\<lambda>c old. case f c of None \<Rightarrow> old | Some c \<Rightarrow> c", OF ys(2)] show ?thesis by blast
  qed
qed


lemma draw_hline_paints:
  assumes ok: "bitmap_ok b" and "small (pt_x p)" "small (pt_y p)" "small width"
  shows "\<exists>b'. (draw_hline b p width c :: ('e, 'a bitmap) outcome) = Ok b' \<and>
    paints b (\<lambda>x y. y = pt_y p \<and> pt_x p \<le> x \<and> x < pt_x p + width) (\<lambda>_ _ _. c) b'"
proof -
  let ?dy = "pt_y p"
  obtain dx w where clip: "clip_axis (sz_width (bm_size b)) (pt_x p) width = (dx, w)" by fastforce
  note spec = clip_axis_spec [OF clip]
  have hline: "draw_hline b p width c = (if ?dy < 0 \<or> sz_height (bm_size b) \<le> ?dy then Ok b
      else if w \<le> 0 then Ok b else and_then (memset_colors (bm_slice b)
        (usize_add (as_usize dx) (usize_mul (as_usize ?dy) (bm_stride b))) (as_usize w) c) (\<lambda>xs. Ok (b\<lparr>bm_slice := xs\<rparr>)) :: ('e, 'a bitmap) outcome)"
    using clip by (auto simp: draw_hline_def clip_axis_def Let_def split: if_splits)
  show ?thesis
  proof (cases "?dy < 0 \<or> sz_height (bm_size b) \<le> ?dy \<or> w \<le> 0")
    case True
    have "paints b (\<lambda>x y. y = ?dy \<and> pt_x p \<le> x \<and> x < pt_x p + width) (\<lambda>_ _ _. c) b"
      using True spec(2) assms bitmap_ok_small [OF ok] by (intro paints_refl) (fastforce simp: in_bounds_def)
    then show ?thesis using True hline by auto
  next
    case False
    have reg: "bm_region b dx ?dy w 1" using False spec(1) assms bitmap_ok_small [OF ok] by (auto simp: bm_region_def)
    note d = regionD [OF ok reg]
    from memset_row [of "bm_off b dx ?dy" "nat w" "bm_slice b" c, OF _ d(1)] d(7) obtain ys where
      ys: "memset_colors (bm_slice b) (bm_off b dx ?dy) (nat w) c = (Ok ys :: ('e, 'a list) outcome)"
      "row_spec (bm_off b dx ?dy) (nat w) (\<lambda>_ _. c) (bm_slice b) ys" by auto
    have "rows_spec (bm_off b dx ?dy) (bm_stride b) (nat w) (nat 1) (\<lambda>_ _ _. c) (bm_slice b) ys"
      using rows_spec_Suc [of "bm_off b dx ?dy" "nat w" "\<lambda>_ _ _. c" "bm_slice b" ys "bm_stride b" 0 ys] ys(2) d(4,7) by simp
    from rows_paint [OF ok _ _ _ _ _ _ this] reg
    have "paints b (\<lambda>x y. dx \<le> x \<and> x < dx + w \<and> ?dy \<le> y \<and> y < ?dy + 1) (\<lambda>_ _ _. c) (b\<lparr>bm_slice := ys\<rparr>)"
      by (simp add: bm_region_def)
    then have "paints b (\<lambda>x y. y = ?dy \<and> pt_x p \<le> x \<and> x < pt_x p + width) (\<lambda>_ _ _. c) (b\<lparr>bm_slice := ys\<rparr>)"
      by (rule paints_cong) (use spec(2) assms bitmap_ok_small [OF ok] in \<open>auto simp: in_bounds_def\<close>)
    then show ?thesis using False hline ys(1) d(2,6) by auto
  qed
qed

text \<open>A vertical line that reaches the bottom of the bitmap is one pixel short.\<close>

lemma draw_vline_paints:
  assumes ok: "bitmap_ok b" and "small (pt_x p)" "small (pt_y p)" "small height"
  shows "\<exists>b'. (draw_vline b p height c :: ('e, 'a bitmap) outcome) = Ok b' \<and>
    paints b (\<lambda>x y. x = pt_x p \<and> pt_y p \<le> y \<and> y < pt_y p + height \<and>
        (pt_y p + height < sz_height (bm_size b) \<or> y < sz_height (bm_size b) - 1)) (\<lambda>_ _ _. c) b'"
    (is "\<exists>b'. _ \<and> paints b ?R _ b'")
proof -
  let ?dx = "pt_x p" and ?H = "sz_height (bm_size b)"
  define dy where "dy = max 0 (pt_y p)"
  define h where "h = (if pt_y p + height < ?H then (if pt_y p < 0 then height + pt_y p else height) else ?H - dy - 1)"
  note small = assms(2-4) bitmap_ok_small [OF ok]
  have vline: "draw_vline b p height c = (if ?dx < 0 \<or> sz_width (bm_size b) \<le> ?dx then Ok b
      else if h \<le> 0 then Ok b else and_then (vline_loop (nat h) (usize_add (as_usize ?dx) (usize_mul (as_usize dy) (bm_stride b)))
        (bm_stride b) c (bm_slice b)) (\<lambda>xs. Ok (b\<lparr>bm_slice := xs\<rparr>)) :: ('e, 'a bitmap) outcome)"
    using small by (auto simp: draw_vline_def Let_def dy_def h_def max_def isize_simps small_iff)
  have eq: "?R x y \<longleftrightarrow> ?dx \<le> x \<and> x < ?dx + 1 \<and> dy \<le> y \<and> y < dy + h" if "in_bounds b x y" for x y
    using that by (auto simp: in_bounds_def dy_def h_def)
  show ?thesis
  proof (cases "?dx < 0 \<or> sz_width (bm_size b) \<le> ?dx \<or> h \<le> 0")
    case True
    have "paints b ?R (\<lambda>_ _ _. c) b" using True by (intro paints_refl) (auto simp: eq, simp_all add: in_bounds_def)
    then show ?thesis using True vline by auto
  next
    case False
    have reg: "bm_region b ?dx dy 1 h" using False by (auto simp: bm_region_def dy_def h_def)
    note d = regionD [OF ok reg]
    have "\<exists>ys. (vline_loop (nat h) (bm_off b ?dx dy) (bm_stride b) c (bm_slice b) :: ('e, 'a list) outcome) = Ok ys \<and>
        rows_spec (bm_off b ?dx dy) (bm_stride b) 1 (nat h) (\<lambda>_ _ _. c) (bm_slice b) ys"
      by (rule vline.loop_rows [where slen = 1 and s = 0]) (use d in simp_all)
    then obtain ys where ys: "vline_loop (nat h) (bm_off b ?dx dy) (bm_stride b) c (bm_slice b) = (Ok ys :: ('e, 'a list) outcome)"
      "rows_spec (bm_off b ?dx dy) (bm_stride b) (nat 1) (nat h) (\<lambda>_ _ _. c) (bm_slice b) ys" by auto
    from rows_paint [OF ok _ _ _ _ _ _ ys(2)] reg
    have "paints b (\<lambda>x y. ?dx \<le> x \<and> x < ?dx + 1 \<and> dy \<le> y \<and> y < dy + h) (\<lambda>_ _ _. c) (b\<lparr>bm_slice := ys\<rparr>)"
      by (simp add: bm_region_def)
    then have "paints b ?R (\<lambda>_ _ _. c) (b\<lparr>bm_slice := ys\<rparr>)" by (rule paints_cong) (use eq in auto)
    then show ?thesis using False vline ys(1) d(6) by auto
  qed
qed


lemma in_bounds_contains:
  assumes "bitmap_ok b"
  shows "contains_point (bm_bounds b) p \<longleftrightarrow> in_bounds b (pt_x p) (pt_y p)"
proof -
  have "rect_ok (bm_bounds b)" "rect_area (bm_bounds b) = {(x, y). in_bounds b x y}"
    using assms by (auto simp: bm_bounds_def size_bounds_def rect_new_ok bitmap_ok_def small_iff in_bounds_def)
  then show ?thesis by (simp add: contains_point_area)
qed

lemma set_pixel_paints:
  assumes ok: "bitmap_ok b"
  shows "\<exists>b'. (set_pixel b p c :: ('e, 'a bitmap) outcome) = Ok b' \<and> paints b (\<lambda>x y. x = pt_x p \<and> y = pt_y p) (\<lambda>_ _ _. c) b'"
proof (cases "in_bounds b (pt_x p) (pt_y p)")
  case True
  have reg: "bm_region b (pt_x p) (pt_y p) 1 1" using True by (auto simp: bm_region_def in_bounds_def)
  let ?i = "bm_off b (pt_x p) (pt_y p)"
  note d = regionD [OF ok reg]
  have "rows_spec ?i (bm_stride b) (nat 1) (nat 1) (\<lambda>_ _ _. c) (bm_slice b) ((bm_slice b)[?i := c])"
    using d(7) by (auto simp: rows_spec_def)
  from rows_paint [OF ok _ _ _ _ _ _ this] reg
  have "paints b (\<lambda>x y. pt_x p \<le> x \<and> x < pt_x p + 1 \<and> pt_y p \<le> y \<and> y < pt_y p + 1) (\<lambda>_ _ _. c) (b\<lparr>bm_slice := (bm_slice b)[?i := c]\<rparr>)"
    by (simp add: bm_region_def)
  then have "paints b (\<lambda>x y. x = pt_x p \<and> y = pt_y p) (\<lambda>_ _ _. c) (b\<lparr>bm_slice := (bm_slice b)[?i := c]\<rparr>)"
    by (rule paints_cong) auto
  then show ?thesis
    using True d(6,7) by (auto simp: set_pixel_def in_bounds_contains [OF ok] set_pixel_unchecked_def pixel_index_def slice_set_unchecked_def)
next
  case False
  then have "paints b (\<lambda>x y. x = pt_x p \<and> y = pt_y p) (\<lambda>_ _ _. c) b" by (auto intro: paints_refl)
  then show ?thesis using False by (auto simp: set_pixel_def in_bounds_contains [OF ok])
qed

lemma get_pixel_reads:
  assumes "bitmap_ok b"
  shows "get_pixel b p = Ok (if in_bounds b (pt_x p) (pt_y p) then Some (bm_px b (pt_x p) (pt_y p)) else None)"
proof (cases "in_bounds b (pt_x p) (pt_y p)")
  case True
  have reg: "bm_region b (pt_x p) (pt_y p) 1 1" using True by (auto simp: bm_region_def in_bounds_def)
  with True regionD(6,7) [OF assms reg] show ?thesis
    by (simp add: get_pixel_def in_bounds_contains [OF assms] get_pixel_unchecked_def pixel_index_def slice_get_unchecked_def bm_px_def)
qed (simp add: get_pixel_def in_bounds_contains [OF assms])

lemma set_pixels_paint:
  assumes "bitmap_ok b"
  shows "\<exists>b'. (set_pixels b ps c :: ('e, 'a bitmap) outcome) = Ok b' \<and>
    paints b (\<lambda>x y. \<lparr>pt_x = x, pt_y = y\<rparr> \<in> set ps) (\<lambda>_ _ _. c) b'"
  using assms
proof (induction ps arbitrary: b)
  case Nil
  then show ?case by (auto intro: paints_refl)
next
  case (Cons p ps)
  from set_pixel_paints [OF Cons.prems] obtain b1 where b1: "set_pixel b p c = (Ok b1 :: ('e, 'a bitmap) outcome)"
    "paints b (\<lambda>x y. x = pt_x p \<and> y = pt_y p) (\<lambda>_ _ _. c) b1" by blast
  from Cons.IH [OF paints_ok [OF b1(2) Cons.prems]] obtain b2 where b2: "set_pixels b1 ps c = (Ok b2 :: ('e, 'a bitmap) outcome)"
    "paints b1 (\<lambda>x y. \<lparr>pt_x = x, pt_y = y\<rparr> \<in> set ps) (\<lambda>_ _ _. c) b2" by blast
  have "paints b (\<lambda>x y. \<lparr>pt_x = x, pt_y = y\<rparr> \<in> set (p # ps)) (\<lambda>_ _ _. c) b2"
    by (rule paints_cong [OF paints_trans [OF b1(2) b2(2)]]) (cases p, auto)
  then show ?case using b1(1) b2(1) by auto
qed


lemma draw_line_paints:
  assumes ok: "bitmap_ok b" and "small (pt_x p)" "small (pt_y p)" "small (pt_x q)" "small (pt_y q)"
    and "pt_x p \<noteq> pt_x q" "pt_y p \<noteq> pt_y q"
  shows "\<exists>ps b'. line_to p q = Some ps \<and> draw_line b p q c = Some (Ok b') \<and>
    paints b (\<lambda>x y. \<lparr>pt_x = x, pt_y = y\<rparr> \<in> set ps) (\<lambda>_ _ _. c) b'"
proof -
  obtain ps where "line_to p q = Some ps" using line_to_path [OF assms(2-5)] by blast
  with assms(6,7) set_pixels_paint [OF ok, of ps c] show ?thesis by (auto simp: draw_line_def)
qed


section \<open>The iterator over the pixels\<close>

text \<open>The first \<open>n\<close> items of the iterator.\<close>

fun all_pixels_collect :: "'a bitmap \<Rightarrow> nat \<Rightarrow> nat \<times> nat \<Rightarrow> ('e, 'a list) outcome" where
  "all_pixels_collect b 0 pos = Ok []"
| "all_pixels_collect b (Suc n) pos =
     and_then (all_pixels_next b pos) (\<lambda>r. case r of
       None \<Rightarrow> Ok []
     | Some (c, pos') \<Rightarrow> and_then (all_pixels_collect b n pos') (\<lambda>cs. Ok (c # cs)))"

text \<open>The position before item \<open>k\<close>: the end of a row is only left when the next item is asked for.\<close>

definition pixels_pos :: "nat \<Rightarrow> nat \<Rightarrow> nat \<times> nat" where
  "pixels_pos w k = (if k = 0 then (0, 0) else ((k - 1) mod w + 1, (k - 1) div w))"

lemma pixel_index_nat:
  assumes "x < 2 ^ 31" "y < 2 ^ 31" "bm_stride b < 2 ^ 31"
  shows "pixel_index b (point_new (as_isize x) (as_isize y)) = x + y * bm_stride b"
proof -
  have "y * bm_stride b < 2 ^ 31 * 2 ^ 31" using assms by (intro mult_strict_mono) auto
  moreover have "as_usize (as_isize x) = x" "as_usize (as_isize y) = y" using assms by (simp_all add: as_isize_exact as_usize_nonneg)
  ultimately show ?thesis using assms
    by (simp add: pixel_index_def point_new_def usize_mul_exact usize_add_exact)
qed

lemma all_pixels_step:
  assumes ok: "bitmap_ok b" and "k < bm_width b * bm_height b" "bm_stride b = bm_width b"
  shows "all_pixels_next b (pixels_pos (bm_width b) k) =
    (Ok (Some (bm_slice b ! k, pixels_pos (bm_width b) (Suc k))) :: ('e, ('a \<times> nat \<times> nat) option) outcome)"
proof -
  let ?w = "bm_width b" and ?h = "bm_height b"
  have "?w \<noteq> 0" "?h \<noteq> 0" using assms(2) by (auto intro: Nat.gr0I)
  moreover have "?w = nat (sz_width (bm_size b))" "?h = nat (sz_height (bm_size b))" "?w < 2 ^ 31" "?h < 2 ^ 31"
    using ok by (auto simp: bm_width_def bm_height_def bitmap_ok_def as_usize_nonneg nat_less_iff)
  ultimately have dims: "?w = nat (sz_width (bm_size b))" "?h = nat (sz_height (bm_size b))"
    "?w < 2 ^ 31" "?h < 2 ^ 31" "0 < ?w" "0 < ?h" by auto
  have kd: "k mod ?w < ?w" "k div ?w < ?h" "k = k mod ?w + k div ?w * ?w"
    using dims assms(2) by (auto simp: less_mult_imp_div_less mult.commute)
  have next_pos: "(let (x, y) = pixels_pos ?w k in if ?w \<le> x then (0, usize_add y 1) else (x, y)) = (k mod ?w, k div ?w)"
  proof (cases k)
    case (Suc j)
    have "j div ?w + 1 < 2 ^ 64" using kd(2) dims(4) Suc by (auto simp: div_Suc split: if_splits)
    moreover have "j mod ?w < ?w" using dims(5) by simp
    ultimately show ?thesis using Suc by (auto simp: pixels_pos_def mod_Suc div_Suc usize_add_def simp del: mod_less_divisor)
  qed (use dims in \<open>simp add: pixels_pos_def\<close>)
  have row: "snd (pixels_pos ?w k) < ?h"
    using kd(2) dims(6) by (cases k) (auto simp: pixels_pos_def div_Suc split: if_splits)
  have "(nat (int ?h) - 1) * ?w + ?w = ?w * ?h" using dims(6) by (cases ?h) auto
  then have "k < length (bm_slice b)" using ok assms(2,3) dims by (auto simp: bitmap_ok_def)
  moreover have "k mod ?w < 2 ^ 31" "k div ?w < 2 ^ 31" "bm_stride b < 2 ^ 31"
    using kd(1,2) dims(3,4) assms(3) by linarith+
  then have "pixel_index b (point_new (as_isize (k mod ?w)) (as_isize (k div ?w))) = k"
    using kd(3) assms(3) by (simp only: pixel_index_nat)
  moreover have "usize_add (k mod ?w) 1 = k mod ?w + 1" using kd(1) dims(3) by (simp add: usize_add_def)
  moreover obtain x y where xy: "pixels_pos ?w k = (x, y)" by fastforce
  with row next_pos have "y < ?h" "(if ?w \<le> x then (0, usize_add y 1) else (x, y)) = (k mod ?w, k div ?w)" by auto
  moreover have "pixels_pos ?w (Suc k) = (k mod ?w + 1, k div ?w)" by (simp add: pixels_pos_def)
  ultimately show ?thesis unfolding all_pixels_next_def xy prod.case
    by (simp only: if_True Let_def prod.case get_pixel_unchecked_def slice_get_unchecked_def) simp
qed

lemma all_pixels_collect_slice:
  assumes "bitmap_ok b" "bm_stride b = bm_width b" "k + n \<le> bm_width b * bm_height b"
  shows "all_pixels_collect b (n + m) (pixels_pos (bm_width b) k) =
    (and_then (all_pixels_collect b m (pixels_pos (bm_width b) (k + n)))
      (\<lambda>cs. Ok (map (\<lambda>i. bm_slice b ! i) [k ..< k + n] @ cs)) :: ('e, 'a list) outcome)"
  using assms(3)
proof (induction n arbitrary: k)
  case 0
  then show ?case by (cases "all_pixels_collect b m (pixels_pos (bm_width b) k) :: ('e, 'a list) outcome") auto
next
  case (Suc n)
  have step: "all_pixels_next b (pixels_pos (bm_width b) k) =
    (Ok (Some (bm_slice b ! k, pixels_pos (bm_width b) (Suc k))) :: ('e, ('a \<times> nat \<times> nat) option) outcome)"
    using Suc.prems by (intro all_pixels_step assms) simp
  have upt: "[k ..< k + Suc n] = k # [Suc k ..< Suc (k + n)]" by (simp add: upt_conv_Cons)
  show ?case using Suc.IH [of "Suc k"] Suc.prems unfolding upt
    by (cases "all_pixels_collect b m (pixels_pos (bm_width b) (Suc (k + n))) :: ('e, 'a list) outcome")
      (simp_all add: step del: upt_Suc)
qed

text \<open>After the last pixel the iterator asks for one more, in the row below the last.\<close>

lemma all_pixels_past_end:
  assumes ok: "bitmap_ok b" and "0 < bm_width b" "0 < bm_height b" "bm_stride b = bm_width b"
    and "length (bm_slice b) = bm_width b * bm_height b"
  shows "all_pixels_next b (pixels_pos (bm_width b) (bm_width b * bm_height b)) = UB OutOfRange"
proof -
  let ?w = "bm_width b" and ?h = "bm_height b"
  have dims: "?w < 2 ^ 31" "?h < 2 ^ 31"
    using ok by (auto simp: bm_width_def bm_height_def bitmap_ok_def as_usize_nonneg nat_less_iff)
  obtain v where v: "?h = Suc v" using assms(3) by (cases ?h) auto
  have e: "?w * ?h - 1 = (?w - 1) + v * ?w" using assms(2) v by (simp add: algebra_simps)
  have m: "(?w * ?h - 1) mod ?w = ?w - 1" "(?w * ?h - 1) div ?w = v"
    unfolding e mod_mult_self1 using assms(2) div_mult_self1 [of ?w "?w - 1" v] by simp_all
  have pos: "pixels_pos ?w (?w * ?h) = (?w, v)" using assms(2,3) unfolding pixels_pos_def m by simp
  have "pixel_index b (point_new (as_isize 0) (as_isize ?h)) = ?h * ?w"
    using dims assms(4) by (subst pixel_index_nat) simp_all
  moreover have "usize_add v 1 = Suc v" using dims v by (simp add: usize_add_def)
  ultimately show ?thesis using assms(5) v unfolding all_pixels_next_def pos prod.case
    by (simp add: get_pixel_unchecked_def slice_get_unchecked_def mult.commute Let_def)
qed


section \<open>Copying inside a bitmap, and views\<close>

text \<open>
  \<open>copy\<close> moves a region inside one bitmap with a copy that must not overlap: scrolling a row by less
  than the width of the region is undefined behaviour.
\<close>

lemma bm_copy_overlap:
  "bm_copy (bm_new (size_new 4 1) c) (point_new 1 0) (rect_new 0 0 2 1) = UB Overlap"
  by (simp add: bm_copy_def adjust_blt_coords_def bm_new_def bm_from_slice_def size_new_def point_new_def rect_new_def
      min_x_def min_y_def isize_abs_def isize_simps Let_def usize_add_def usize_mul_def as_usize_def copy_within_def)

text \<open>A view is well-formed, and its pixels are those of the rectangle.\<close>

lemma bm_view_ok:
  assumes ok: "bitmap_ok b" and r: "rect_ok r" and view: "(bm_view b r :: ('e, (nat \<times> 'a bitmap) option) outcome) \<noteq> Ok None"
  shows "\<exists>off v. bm_view b r = (Ok (Some (off, v)) :: ('e, (nat \<times> 'a bitmap) option) outcome) \<and> bitmap_ok v \<and>
    (\<forall>x y. in_bounds v x y \<longrightarrow> bm_px v x y = bm_px b (min_x r + x) (min_y r + y))"
proof -
  let ?w = "sz_width (r_size r)" and ?h = "sz_height (r_size r)" and ?x = "min_x r" and ?y = "min_y r" and ?st = "bm_stride b"
  have dims: "as_isize (bm_width b) = sz_width (bm_size b)" "as_isize (bm_height b) = sz_height (bm_size b)"
    using ok by (auto simp: bm_width_def bm_height_def bitmap_ok_def isize_simps)
  from view obtain c where c: "coords_from_rect r = Some c" by (cases "coords_from_rect r") (auto simp: bm_view_def)
  note cs = coords_from_rect_Some [OF r c]
  have inside: "\<not> (c_left c < 0 \<or> sz_width (bm_size b) \<le> c_left c \<or> sz_width (bm_size b) < c_right c \<or>
      c_top c < 0 \<or> sz_height (bm_size b) \<le> c_top c \<or> sz_height (bm_size b) < c_bottom c)"
    using view by (auto simp: bm_view_def c dims Let_def)
  have reg: "bm_region b ?x ?y ?w ?h" using inside cs by (auto simp: bm_region_def min_x_def min_y_def)
  note d = regionD [OF ok reg]
  define m where "m = (nat ?h - 1) * ?st + nat ?w"
  have len: "bm_off b ?x ?y + m \<le> length (bm_slice b)" using d(7) by (simp add: m_def)
  have "m < 2 ^ 63" using len d(1) by simp
  then have new_len: "usize_add (usize_mul (usize_sub (as_usize ?h) 1) ?st) (as_usize ?w) = m"
    using cs(5,6) d(2,3) by (simp add: m_def usize_sub_exact usize_mul_exact usize_add_exact nat_le_iff Suc_le_eq)
  let ?v = "\<lparr>bm_slice = take m (drop (bm_off b ?x ?y) (bm_slice b)), bm_size = r_size r, bm_stride = ?st\<rparr>"
  have "bm_view b r = (Ok (Some (bm_off b ?x ?y, ?v)) :: ('e, (nat \<times> 'a bitmap) option) outcome)"
    using len unfolding bm_view_def c option.case dims Let_def if_not_P [OF inside] d(6) new_len by simp
  moreover have "length (bm_slice ?v) = m" using len by simp
  then have okv: "bitmap_ok ?v" using ok reg d(4) \<open>m < 2 ^ 63\<close> by (simp add: bitmap_ok_def bm_region_def m_def)
  moreover have "bm_px ?v x y = bm_px b (?x + x) (?y + y)" if "in_bounds ?v x y" for x y
  proof -
    have "bm_off ?v x y < m" using region_in_slice [OF okv, of x y 1 1] that len by (simp add: in_bounds_def)
    moreover have "bm_off b ?x ?y + bm_off ?v x y = bm_off b (?x + x) (?y + y)"
      using reg that by (simp add: bm_off_def bm_region_def in_bounds_def nat_add_distrib add_mult_distrib)
    ultimately show ?thesis using len by (simp add: bm_px_def)
  qed
  ultimately show ?thesis by blast
qed


section \<open>The properties\<close>

text \<open>
  Filling a rectangle.  On a well-formed bitmap and for every rectangle, also one that is partly or
  wholly outside or has a negative size, \<open>fill_rect\<close> returns without an access outside the slice, and
  exactly the pixels of the rectangle that are in the bounds have the new colour; padding and other
  pixels are as before.
\<close>

theorem fill_rect_spec:
  assumes "bitmap_ok b" "rect_small r"
  shows "\<exists>b'. fill_rect b r c = Ok b' \<and> bitmap_ok b' \<and> paints b (in_rect r) (\<lambda>_ _ _. c) b'"
  using fill_rect_paints [OF assms, of c] paints_ok assms(1) by blast

definition bm_2x2 :: "nat bitmap" where
  "bm_2x2 = bm_new (size_new 2 2) 7"

lemma bm_2x2_simps [simp]:
  "bm_size bm_2x2 = \<lparr>sz_width = 2, sz_height = 2\<rparr>" "bm_stride bm_2x2 = 2" "bm_slice bm_2x2 = replicate 4 7"
  by (simp_all add: bm_2x2_def bm_new_def bm_from_slice_def size_new_def as_usize_def usize_mul_def)

lemma bm_2x2_px [simp]: "bm_px bm_2x2 0 0 = 7" "bm_px bm_2x2 1 1 = 7"
  by (simp_all add: bm_px_def bm_off_def)

lemma bm_2x2_ok: "bitmap_ok bm_2x2"
  by (simp add: bitmap_ok_def)

theorem fill_rect_spec_witness:
  "\<exists>b'. (fill_rect bm_2x2 (rect_new (- 1) 1 2 5) 9 :: (unit, nat bitmap) outcome) = Ok b' \<and> bm_px b' 0 1 = 9 \<and> bm_px b' 1 1 = 7"
proof -
  have "rect_small (rect_new (- 1) 1 2 5)"
    by (simp add: rect_small_def min_x_def min_y_def rect_new_def isize_abs_def isize_simps small_iff)
  from fill_rect_spec [OF bm_2x2_ok this, of 9] obtain b' where
    b': "(fill_rect bm_2x2 (rect_new (- 1) 1 2 5) 9 :: (unit, nat bitmap) outcome) = Ok b'" "paints bm_2x2 (in_rect (rect_new (- 1) 1 2 5)) (\<lambda>_ _ _. 9) b'" by blast
  have "bm_px b' 0 1 = 9" "bm_px b' 1 1 = 7" using paints_px [OF b'(2), of 0 1] paints_px [OF b'(2), of 1 1]
    by (simp_all add: in_bounds_def in_rect_def min_x_def min_y_def rect_new_def isize_abs_def isize_simps)
  with b'(1) show ?thesis by blast
qed

text \<open>
  C9: block transfer.  \<open>blt\<close> and \<open>blt_convert_opt\<close> between two well-formed bitmaps return for every
  destination point and source rectangle; every pixel whose source point is in the rectangle and in
  the source becomes that source pixel (or its conversion, where there is one), and nothing else
  changes.  Neither the reads nor the writes leave the two slices.
\<close>

theorem blt_spec:
  fixes b :: "'a bitmap"
  assumes "bitmap_ok b" "bitmap_ok src" "bitmap_ok src'" "rect_small r" "small (pt_x p)" "small (pt_y p)"
  shows "(\<exists>b'. blt b src p r = Ok b' \<and> bitmap_ok b' \<and> paints b (blt_area src p r) (\<lambda>x y _. blt_px src p r x y) b') \<and>
    (\<exists>b'. blt_convert_opt f b src' p r = Ok b' \<and> bitmap_ok b' \<and>
       paints b (blt_area src' p r) (\<lambda>x y old. case f (blt_px src' p r x y) of None \<Rightarrow> old | Some c \<Rightarrow> c) b')"
  using blt_paints [OF assms(1,2,4-6)] blt_convert_opt_paints [OF assms(1,3,4-6), of f] paints_ok assms(1) by blast

theorem blt_spec_witness:
  "\<exists>b'. (blt bm_2x2 bm_2x2 (point_new 1 (- 1)) (rect_new 0 0 3 3) :: (unit, nat bitmap) outcome) = Ok b' \<and> bm_px b' 1 0 = 7 \<and> bm_px b' 0 0 = 7"
proof -
  let ?p = "point_new 1 (- 1)" and ?r = "rect_new 0 0 3 3"
  have r: "rect_small ?r" "small (pt_x ?p)" "small (pt_y ?p)"
    by (simp_all add: rect_small_def min_x_def min_y_def rect_new_def isize_abs_def isize_simps small_iff point_new_def)
  from blt_spec [OF bm_2x2_ok bm_2x2_ok bm_2x2_ok r, of Some] obtain b' where
    b': "(blt bm_2x2 bm_2x2 ?p ?r :: (unit, nat bitmap) outcome) = Ok b'" "paints bm_2x2 (blt_area bm_2x2 ?p ?r) (\<lambda>x y _. blt_px bm_2x2 ?p ?r x y) b'"
    by blast
  have "bm_px bm_2x2 0 1 = 7" by (simp add: bm_px_def bm_off_def)
  then have "bm_px b' 1 0 = 7" "bm_px b' 0 0 = 7" using paints_px [OF b'(2), of 1 0] paints_px [OF b'(2), of 0 0]
    by (simp_all add: in_bounds_def in_rect_def blt_area_def blt_px_def min_x_def min_y_def rect_new_def isize_abs_def
        isize_simps point_new_def)
  with b'(1) show ?thesis by blast
qed

text \<open>
  The last row of a vertical line.  A line that ends in the last row of the bitmap, or below it, is
  drawn without its pixel in the last row, which \<open>draw_hline\<close> draws at the right edge.
\<close>

theorem draw_vline_misses_last_row:
  fixes b :: "'a bitmap"
  assumes "bitmap_ok b" "small (pt_x p)" "small (pt_y p)" "small n"
    and "in_bounds b (pt_x p) (sz_height (bm_size b) - 1)" "0 \<le> pt_y p" "pt_y p < sz_height (bm_size b) - 1" "sz_height (bm_size b) \<le> pt_y p + n"
  shows "\<exists>b'. (draw_vline b p n c :: ('e, 'a bitmap) outcome) = Ok b' \<and>
    bm_px b' (pt_x p) (sz_height (bm_size b) - 1) = bm_px b (pt_x p) (sz_height (bm_size b) - 1) \<and>
    bm_px b' (pt_x p) (sz_height (bm_size b) - 2) = c"
proof -
  from draw_vline_paints [OF assms(1-4), of c] obtain b' where b': "(draw_vline b p n c :: ('e, 'a bitmap) outcome) = Ok b'"
    "paints b (\<lambda>x y. x = pt_x p \<and> pt_y p \<le> y \<and> y < pt_y p + n \<and>
        (pt_y p + n < sz_height (bm_size b) \<or> y < sz_height (bm_size b) - 1)) (\<lambda>_ _ _. c) b'" by blast
  from assms(5-7) have "in_bounds b (pt_x p) (sz_height (bm_size b) - 2)" by (auto simp: in_bounds_def)
  with b'(1) paints_px [OF b'(2) assms(5)] paints_px [OF b'(2), of "pt_x p" "sz_height (bm_size b) - 2"] assms(5-8)
  show ?thesis by auto
qed

theorem draw_vline_misses_last_row_witness:
  "\<exists>b'. draw_vline bm_2x2 (point_new 1 0) 2 9 = Ok b' \<and> bm_px b' 1 1 = 7 \<and> bm_px b' 1 0 = 9"
  using draw_vline_misses_last_row [OF bm_2x2_ok, of "point_new 1 0" 2 9]
  by (simp add: point_new_def small_iff in_bounds_def)

text \<open>
  The iterator over the pixels ends with a read outside the bitmap.  On an owned bitmap the first
  \<open>width * height\<close> items are its pixels in order; the next call does not return \<open>None\<close> but reads the
  element after the end of the slice.
\<close>

theorem all_pixels_reads_past_end:
  fixes b :: "'a bitmap"
  assumes "bitmap_ok b" "0 < bm_width b" "0 < bm_height b" "bm_stride b = bm_width b"
    and "length (bm_slice b) = bm_width b * bm_height b"
  shows "all_pixels_collect b (length (bm_slice b)) (0, 0) = (Ok (bm_slice b) :: ('e, 'a list) outcome) \<and>
    all_pixels_collect b (length (bm_slice b) + 1) (0, 0) = (UB OutOfRange :: ('e, 'a list) outcome)"
proof -
  have start: "pixels_pos (bm_width b) 0 = (0, 0)" by (simp add: pixels_pos_def)
  have "all_pixels_collect b 1 (pixels_pos (bm_width b) (0 + length (bm_slice b))) = (UB OutOfRange :: ('e, 'a list) outcome)"
    using assms(5) by (simp add: all_pixels_past_end [OF assms])
  moreover have "0 + length (bm_slice b) \<le> bm_width b * bm_height b" using assms(5) by simp
  note all = all_pixels_collect_slice [where 'e = 'e, OF assms(1,4) this]
  ultimately show ?thesis using all [of 0] all [of 1] by (simp add: start map_nth del: all_pixels_collect.simps(2))
qed

theorem all_pixels_reads_past_end_witness:
  "all_pixels_collect bm_2x2 4 (0, 0) = (Ok (replicate 4 7) :: (unit, nat list) outcome) \<and>
   all_pixels_collect bm_2x2 5 (0, 0) = (UB OutOfRange :: (unit, nat list) outcome)"
proof -
  have "bm_width bm_2x2 = 2" "bm_height bm_2x2 = 2" by (simp_all add: bm_width_def bm_height_def as_usize_def)
  then have "0 < bm_width bm_2x2" "0 < bm_height bm_2x2" "bm_stride bm_2x2 = bm_width bm_2x2"
    "length (bm_slice bm_2x2) = bm_width bm_2x2 * bm_height bm_2x2" by simp_all
  from all_pixels_reads_past_end [where 'e = unit, OF bm_2x2_ok this] show ?thesis by (simp del: all_pixels_collect.simps replicate.simps)
qed

end
