(* ===== verification/Color.thy ===== *)
theory Color
  imports Prelude
begin

text \<open>
  The colours of src/lib/meggl/src/color.rs: indexed colours with their palette, 32-bit colours and their
  components, opacity, the generic and the packed colour, 15- and 16-bit colours, pairs of 4-bit colours,
  and the octets of monochrome bitmaps.  A newtype of the source is the word it wraps.  The conversions
  from and to floating-point numbers are not modelled.
\<close>

section \<open>Opacity\<close>

type_synonym alpha8 = u8

definition alpha_opaque :: alpha8 where "alpha_opaque = 0xFF"

definition alpha_is_transparent :: "alpha8 \<Rightarrow> bool" where "alpha_is_transparent a \<longleftrightarrow> a = 0"

definition alpha_is_opaque :: "alpha8 \<Rightarrow> bool" where "alpha_is_opaque a \<longleftrightarrow> a = alpha_opaque"

definition saturating_add :: "alpha8 \<Rightarrow> alpha8 \<Rightarrow> alpha8" where
  "saturating_add a b = (if 2 ^ 8 \<le> unat a + unat b then 0xFF else a + b)"

definition saturating_sub :: "alpha8 \<Rightarrow> alpha8 \<Rightarrow> alpha8" where
  "saturating_sub a b = (if unat a < unat b then 0 else a - b)"


section \<open>True colours and their components\<close>

type_synonym argb8888 = u32

record color_components =
  cc_b :: u8
  cc_g :: u8
  cc_r :: u8
  cc_a :: alpha8

text \<open>\<open>transmute\<close> between the structure and the word, on a little-endian target.\<close>

definition components :: "argb8888 \<Rightarrow> color_components" where
  "components v = \<lparr>cc_b = ucast v, cc_g = ucast (drop_bit 8 v), cc_r = ucast (drop_bit 16 v), cc_a = ucast (drop_bit 24 v)\<rparr>"

definition into_true_color :: "color_components \<Rightarrow> argb8888" where
  "into_true_color c =
     ucast (cc_b c) OR push_bit 8 (ucast (cc_g c)) OR push_bit 16 (ucast (cc_r c)) OR push_bit 24 (ucast (cc_a c))"

definition cc_from_rgb :: "u8 \<Rightarrow> u8 \<Rightarrow> u8 \<Rightarrow> color_components" where
  "cc_from_rgb r g b = \<lparr>cc_b = b, cc_g = g, cc_r = r, cc_a = alpha_opaque\<rparr>"

definition cc_from_rgba :: "u8 \<Rightarrow> u8 \<Rightarrow> u8 \<Rightarrow> alpha8 \<Rightarrow> color_components" where
  "cc_from_rgba r g b a = \<lparr>cc_b = b, cc_g = g, cc_r = r, cc_a = a\<rparr>"

definition cc_is_opaque :: "color_components \<Rightarrow> bool" where "cc_is_opaque c = alpha_is_opaque (cc_a c)"

definition cc_is_transparent :: "color_components \<Rightarrow> bool" where "cc_is_transparent c = alpha_is_transparent (cc_a c)"

definition cc_blending :: "color_components \<Rightarrow> color_components \<Rightarrow> (u8 \<Rightarrow> u8 \<Rightarrow> u8) \<Rightarrow> (alpha8 \<Rightarrow> alpha8 \<Rightarrow> alpha8) \<Rightarrow> color_components" where
  "cc_blending l r f_rgb f_a =
     \<lparr>cc_b = f_rgb (cc_b l) (cc_b r), cc_g = f_rgb (cc_g l) (cc_g r), cc_r = f_rgb (cc_r l) (cc_r r), cc_a = f_a (cc_a l) (cc_a r)\<rparr>"

definition argb_transparent :: argb8888 where "argb_transparent = 0"

definition argb_from_rgb :: "u32 \<Rightarrow> argb8888" where "argb_from_rgb rgb = rgb OR 0xFF000000"

definition argb_from_argb :: "u32 \<Rightarrow> argb8888" where "argb_from_argb v = v"

definition argb_from_gray :: "u8 \<Rightarrow> alpha8 \<Rightarrow> argb8888" where
  "argb_from_gray white alpha = ucast white * 0x00010101 + ucast alpha * 0x01000000"

definition argb_rgb :: "argb8888 \<Rightarrow> u32" where "argb_rgb v = v AND 0x00FFFFFF"

definition argb_opacity :: "argb8888 \<Rightarrow> alpha8" where "argb_opacity v = ucast (drop_bit 24 v)"

definition argb_is_transparent :: "argb8888 \<Rightarrow> bool" where "argb_is_transparent v = alpha_is_transparent (argb_opacity v)"

definition argb_is_opaque :: "argb8888 \<Rightarrow> bool" where "argb_is_opaque v = alpha_is_opaque (argb_opacity v)"

definition argb_brightness :: "argb8888 \<Rightarrow> u8 option" where
  "argb_brightness v =
     (let cc = components v in
      if cc_is_transparent cc then None
      else Some (of_nat (drop_bit 16 (unat (cc_r cc) * 19589 + unat (cc_g cc) * 38444 + unat (cc_b cc) * 7502 + 32767))))"

definition with_opacity :: "argb8888 \<Rightarrow> alpha8 \<Rightarrow> argb8888" where
  "with_opacity v alpha = into_true_color ((components v)\<lparr>cc_a := alpha\<rparr>)"

definition argb_blending :: "argb8888 \<Rightarrow> argb8888 \<Rightarrow> (u8 \<Rightarrow> u8 \<Rightarrow> u8) \<Rightarrow> (alpha8 \<Rightarrow> alpha8 \<Rightarrow> alpha8) \<Rightarrow> argb8888" where
  "argb_blending l r f_rgb f_a = into_true_color (cc_blending (components l) (components r) f_rgb f_a)"

definition shadowed :: "argb8888 \<Rightarrow> u8 \<Rightarrow> argb8888" where
  "shadowed v s =
     (let shadow = 256 - ucast s :: u32;
          r = ((v AND 0x00FF0000) * shadow) div 256 AND 0x00FF0000;
          g = ((v AND 0x0000FF00) * shadow) div 256 AND 0x0000FF00;
          b = ((v AND 0x000000FF) * shadow) div 256 AND 0x000000FF in
      (v AND 0xFF000000) OR r OR g OR b)"

definition blend_draw :: "argb8888 \<Rightarrow> argb8888 \<Rightarrow> argb8888" where
  "blend_draw lhs rhs =
     (if argb_is_opaque rhs then rhs
      else if argb_is_transparent rhs then lhs
      else
        let r = components rhs; l = components lhs;
            alpha_r = unat (cc_a r);
            alpha_l = unat (cc_a l) * (256 - alpha_r) div 256;
            alpha_s = alpha_r + alpha_l in
        if 0 < alpha_s then
          into_true_color (cc_blending l r
            (\<lambda>l r. of_nat ((unat l * alpha_l + unat r * alpha_r) div alpha_s)) (\<lambda>_ _. of_nat alpha_s))
        else argb_transparent)"


section \<open>Indexed colours\<close>

type_synonym indexed_color = u8

definition ic_key_color :: indexed_color where "ic_key_color = 0xFF"

definition COLOR_PALETTE :: "u32 list" where
  "COLOR_PALETTE = [
    0xFF000000, 0xFF0000AA, 0xFF00AA00, 0xFF00AAAA, 0xFFAA0000, 0xFFAA00AA, 0xFFAA5500, 0xFFAAAAAA,
    0xFF555555, 0xFF5555FF, 0xFF55FF55, 0xFF55FFFF, 0xFFFF5555, 0xFFFF55FF, 0xFFFFFF55, 0xFFFFFFFF,
    0xFF000000, 0xFF330000, 0xFF660000, 0xFF990000, 0xFFCC0000, 0xFFFF0000, 0xFF003300, 0xFF333300,
    0xFF663300, 0xFF993300, 0xFFCC3300, 0xFFFF3300, 0xFF006600, 0xFF336600, 0xFF666600, 0xFF996600,
    0xFFCC6600, 0xFFFF6600, 0xFF009900, 0xFF339900, 0xFF669900, 0xFF999900, 0xFFCC9900, 0xFFFF9900,
    0xFF00CC00, 0xFF33CC00, 0xFF66CC00, 0xFF99CC00, 0xFFCCCC00, 0xFFFFCC00, 0xFF00FF00, 0xFF33FF00,
    0xFF66FF00, 0xFF99FF00, 0xFFCCFF00, 0xFFFFFF00, 0xFF000033, 0xFF330033, 0xFF660033, 0xFF990033,
    0xFFCC0033, 0xFFFF0033, 0xFF003333, 0xFF333333, 0xFF663333, 0xFF993333, 0xFFCC3333, 0xFFFF3333,
    0xFF006633, 0xFF336633, 0xFF666633, 0xFF996633, 0xFFCC6633, 0xFFFF6633, 0xFF009933, 0xFF339933,
    0xFF669933, 0xFF999933, 0xFFCC9933, 0xFFFF9933, 0xFF00CC33, 0xFF33CC33, 0xFF66CC33, 0xFF99CC33,
    0xFFCCCC33, 0xFFFFCC33, 0xFF00FF33, 0xFF33FF33, 0xFF66FF33, 0xFF99FF33, 0xFFCCFF33, 0xFFFFFF33,
    0xFF000066, 0xFF330066, 0xFF660066, 0xFF990066, 0xFFCC0066, 0xFFFF0066, 0xFF003366, 0xFF333366,
    0xFF663366, 0xFF993366, 0xFFCC3366, 0xFFFF3366, 0xFF006666, 0xFF336666, 0xFF666666, 0xFF996666,
    0xFFCC6666, 0xFFFF6666, 0xFF009966, 0xFF339966, 0xFF669966, 0xFF999966, 0xFFCC9966, 0xFFFF9966,
    0xFF00CC66, 0xFF33CC66, 0xFF66CC66, 0xFF99CC66, 0xFFCCCC66, 0xFFFFCC66, 0xFF00FF66, 0xFF33FF66,
    0xFF66FF66, 0xFF99FF66, 0xFFCCFF66, 0xFFFFFF66, 0xFF000099, 0xFF330099, 0xFF660099, 0xFF990099,
    0xFFCC0099, 0xFFFF0099, 0xFF003399, 0xFF333399, 0xFF663399, 0xFF993399, 0xFFCC3399, 0xFFFF3399,
    0xFF006699, 0xFF336699, 0xFF666699, 0xFF996699, 0xFFCC6699, 0xFFFF6699, 0xFF009999, 0xFF339999,
    0xFF669999, 0xFF999999, 0xFFCC9999, 0xFFFF9999, 0xFF00CC99, 0xFF33CC99, 0xFF66CC99, 0xFF99CC99,
    0xFFCCCC99, 0xFFFFCC99, 0xFF00FF99, 0xFF33FF99, 0xFF66FF99, 0xFF99FF99, 0xFFCCFF99, 0xFFFFFF99,
    0xFF0000CC, 0xFF3300CC, 0xFF6600CC, 0xFF9900CC, 0xFFCC00CC, 0xFFFF00CC, 0xFF0033CC, 0xFF3333CC,
    0xFF6633CC, 0xFF9933CC, 0xFFCC33CC, 0xFFFF33CC, 0xFF0066CC, 0xFF3366CC, 0xFF6666CC, 0xFF9966CC,
    0xFFCC66CC, 0xFFFF66CC, 0xFF0099CC, 0xFF3399CC, 0xFF6699CC, 0xFF9999CC, 0xFFCC99CC, 0xFFFF99CC,
    0xFF00CCCC, 0xFF33CCCC, 0xFF66CCCC, 0xFF99CCCC, 0xFFCCCCCC, 0xFFFFCCCC, 0xFF00FFCC, 0xFF33FFCC,
    0xFF66FFCC, 0xFF99FFCC, 0xFFCCFFCC, 0xFFFFFFCC, 0xFF0000FF, 0xFF3300FF, 0xFF6600FF, 0xFF9900FF,
    0xFFCC00FF, 0xFFFF00FF, 0xFF0033FF, 0xFF3333FF, 0xFF6633FF, 0xFF9933FF, 0xFFCC33FF, 0xFFFF33FF,
    0xFF0066FF, 0xFF3366FF, 0xFF6666FF, 0xFF9966FF, 0xFFCC66FF, 0xFFFF66FF, 0xFF0099FF, 0xFF3399FF,
    0xFF6699FF, 0xFF9999FF, 0xFFCC99FF, 0xFFFF99FF, 0xFF00CCFF, 0xFF33CCFF, 0xFF66CCFF, 0xFF99CCFF,
    0xFFCCCCFF, 0xFFFFCCFF, 0xFF00FFFF, 0xFF33FFFF, 0xFF66FFFF, 0xFF99FFFF, 0xFFCCFFFF, 0xFFFFFFFF, 0, 0, 0,
    0, 0, 0, 0, 0, 0, 0, 0, 0, 0, 0, 0, 0, 0, 0, 0, 0, 0, 0, 0, 0]"

definition ic_from_rgb :: "u32 \<Rightarrow> indexed_color" where
  "ic_from_rgb rgb =
     (let b = ucast (((rgb AND 0xFF) + 25) div 51) :: u8;
          g = ucast (((drop_bit 8 rgb AND 0xFF) + 25) div 51) :: u8;
          r = ucast (((drop_bit 16 rgb AND 0xFF) + 25) div 51) :: u8 in
      16 + r + g * 6 + b * 36)"

definition ic_as_argb :: "indexed_color \<Rightarrow> u32" where
  "ic_as_argb c = COLOR_PALETTE ! unat c"

definition ic_as_rgb :: "indexed_color \<Rightarrow> u32" where
  "ic_as_rgb c = COLOR_PALETTE ! unat c AND 0xFFFFFF"

definition ic_as_true_color :: "indexed_color \<Rightarrow> argb8888" where
  "ic_as_true_color c = argb_from_argb (ic_as_argb c)"

definition ic_brightness :: "indexed_color \<Rightarrow> u8 option" where
  "ic_brightness c = argb_brightness (ic_as_true_color c)"

definition ic_from_argb :: "argb8888 \<Rightarrow> indexed_color" where
  "ic_from_argb v = ic_from_rgb (argb_rgb v)"


section \<open>Colours in the order RGBA\<close>

type_synonym rgba8888 = u32

record color_components_rgba =
  ra_r :: u8
  ra_g :: u8
  ra_b :: u8
  ra_a :: alpha8

definition rgba_components :: "rgba8888 \<Rightarrow> color_components_rgba" where
  "rgba_components v = \<lparr>ra_r = ucast v, ra_g = ucast (drop_bit 8 v), ra_b = ucast (drop_bit 16 v), ra_a = ucast (drop_bit 24 v)\<rparr>"

definition into_rgba :: "color_components_rgba \<Rightarrow> rgba8888" where
  "into_rgba c =
     ucast (ra_r c) OR push_bit 8 (ucast (ra_g c)) OR push_bit 16 (ucast (ra_b c)) OR push_bit 24 (ucast (ra_a c))"

definition ra_from_rgb :: "u8 \<Rightarrow> u8 \<Rightarrow> u8 \<Rightarrow> color_components_rgba" where
  "ra_from_rgb r g b = \<lparr>ra_r = r, ra_g = g, ra_b = b, ra_a = alpha_opaque\<rparr>"

definition cc_of_rgba :: "color_components_rgba \<Rightarrow> color_components" where
  "cc_of_rgba v = \<lparr>cc_b = ra_b v, cc_g = ra_g v, cc_r = ra_r v, cc_a = ra_a v\<rparr>"

definition rgba_of_cc :: "color_components \<Rightarrow> color_components_rgba" where
  "rgba_of_cc v = \<lparr>ra_r = cc_r v, ra_g = cc_g v, ra_b = cc_b v, ra_a = cc_a v\<rparr>"

definition rgba_from_argb :: "argb8888 \<Rightarrow> rgba8888" where
  "rgba_from_argb v = into_rgba (rgba_of_cc (components v))"

definition argb_from_rgba :: "rgba8888 \<Rightarrow> argb8888" where
  "argb_from_rgba v = into_true_color (cc_of_rgba (rgba_components v))"


section \<open>Generic and packed colours\<close>

datatype color = Transparent | Indexed indexed_color | Argb32 argb8888

definition color_is_transparent :: "color \<Rightarrow> bool" where
  "color_is_transparent c = (case c of
      Transparent \<Rightarrow> True | Indexed i \<Rightarrow> i = ic_key_color | Argb32 v \<Rightarrow> argb_is_transparent v)"

definition color_is_opaque :: "color \<Rightarrow> bool" where
  "color_is_opaque c = (case c of
      Transparent \<Rightarrow> False | Indexed i \<Rightarrow> i \<noteq> ic_key_color | Argb32 v \<Rightarrow> argb_is_opaque v)"

definition color_from_rgb :: "u32 \<Rightarrow> color" where "color_from_rgb rgb = Argb32 (argb_from_rgb rgb)"

definition color_from_argb :: "u32 \<Rightarrow> color" where "color_from_argb v = Argb32 (argb_from_argb v)"

definition color_into_indexed :: "color \<Rightarrow> indexed_color" where
  "color_into_indexed c = (case c of
      Transparent \<Rightarrow> ic_key_color | Indexed i \<Rightarrow> i | Argb32 v \<Rightarrow> ic_from_rgb (argb_rgb v))"

definition color_into_true_color :: "color \<Rightarrow> argb8888" where
  "color_into_true_color c = (case c of
      Transparent \<Rightarrow> argb_transparent | Indexed i \<Rightarrow> ic_as_true_color i | Argb32 v \<Rightarrow> v)"

definition color_brightness :: "color \<Rightarrow> u8 option" where
  "color_brightness c = (case c of
      Transparent \<Rightarrow> None | Indexed i \<Rightarrow> ic_brightness i | Argb32 v \<Rightarrow> argb_brightness v)"

type_synonym packed_color = u32

definition INDEX_COLOR_MIN :: u32 where "INDEX_COLOR_MIN = 0"

definition INDEX_COLOR_MAX :: u32 where "INDEX_COLOR_MAX = INDEX_COLOR_MIN + 0xFF"

definition packed_transparent :: packed_color where "packed_transparent = INDEX_COLOR_MAX + 1"

definition packed_is_transparent :: "packed_color \<Rightarrow> bool" where
  "packed_is_transparent p \<longleftrightarrow> p = packed_transparent"

definition packed_from_true_color :: "argb8888 \<Rightarrow> packed_color" where
  "packed_from_true_color v = (if argb_is_transparent v then packed_transparent else v)"

definition packed_from_indexed :: "indexed_color \<Rightarrow> packed_color" where
  "packed_from_indexed i = (if i = ic_key_color then packed_transparent else INDEX_COLOR_MIN + ucast i)"

definition packed_from_color :: "color \<Rightarrow> packed_color" where
  "packed_from_color c = (case c of
      Transparent \<Rightarrow> packed_transparent | Indexed i \<Rightarrow> packed_from_indexed i | Argb32 v \<Rightarrow> packed_from_true_color v)"

definition as_color :: "packed_color \<Rightarrow> color" where
  "as_color p =
     (if p = packed_transparent then Transparent
      else if INDEX_COLOR_MIN \<le> p \<and> p \<le> INDEX_COLOR_MAX then Indexed (ucast (p - INDEX_COLOR_MIN))
      else color_from_argb p)"

definition packed_is_opaque :: "packed_color \<Rightarrow> bool" where
  "packed_is_opaque p = (case as_color p of
      Transparent \<Rightarrow> False | Indexed _ \<Rightarrow> True | Argb32 v \<Rightarrow> argb_is_opaque v)"

definition packed_from_argb :: "u32 \<Rightarrow> packed_color" where
  "packed_from_argb v = packed_from_true_color (argb_from_argb v)"

definition packed_from_safe_rgb :: "u32 \<Rightarrow> packed_color" where
  "packed_from_safe_rgb rgb = packed_from_indexed (ic_from_rgb rgb)"

definition packed_into_true_color :: "packed_color \<Rightarrow> argb8888" where
  "packed_into_true_color p = color_into_true_color (as_color p)"

definition packed_into_indexed :: "packed_color \<Rightarrow> indexed_color" where
  "packed_into_indexed p = color_into_indexed (as_color p)"


section \<open>15- and 16-bit colours\<close>

definition c5c8 :: "u8 \<Rightarrow> u8" where "c5c8 c = push_bit 3 c OR drop_bit 2 c"

definition c6c8 :: "u8 \<Rightarrow> u8" where "c6c8 c = push_bit 2 c OR drop_bit 4 c"

definition rgb555_components :: "u16 \<Rightarrow> u8 \<times> u8 \<times> u8" where
  "rgb555_components v = (ucast (drop_bit 10 v AND 0x1F), ucast (drop_bit 5 v AND 0x1F), ucast (v AND 0x1F))"

definition rgb555_from_components :: "u8 \<Rightarrow> u8 \<Rightarrow> u8 \<Rightarrow> u16" where
  "rgb555_from_components r g b = push_bit 10 (ucast r) OR push_bit 5 (ucast g) OR ucast b"

definition rgb555_as_true_color :: "u16 \<Rightarrow> argb8888" where
  "rgb555_as_true_color v = (case rgb555_components v of (r, g, b) \<Rightarrow>
     into_true_color \<lparr>cc_b = c5c8 b, cc_g = c5c8 g, cc_r = c5c8 r, cc_a = alpha_opaque\<rparr>)"

definition rgb555_from_true_color :: "argb8888 \<Rightarrow> u16" where
  "rgb555_from_true_color v =
     (let c = components v in
      ucast (drop_bit 3 (cc_b c)) OR push_bit 5 (ucast (drop_bit 3 (cc_g c))) OR push_bit 10 (ucast (drop_bit 3 (cc_r c))))"

definition rgb565_components :: "u16 \<Rightarrow> u8 \<times> u8 \<times> u8" where
  "rgb565_components v = (ucast (drop_bit 11 v AND 0x1F), ucast (drop_bit 5 v AND 0x3F), ucast (v AND 0x1F))"

definition rgb565_from_components :: "u8 \<Rightarrow> u8 \<Rightarrow> u8 \<Rightarrow> u16" where
  "rgb565_from_components r g b = push_bit 11 (ucast r) OR push_bit 5 (ucast g) OR ucast b"

definition rgb565_as_true_color :: "u16 \<Rightarrow> argb8888" where
  "rgb565_as_true_color v = (case rgb565_components v of (r, g, b) \<Rightarrow>
     into_true_color \<lparr>cc_b = c5c8 b, cc_g = c6c8 g, cc_r = c5c8 r, cc_a = alpha_opaque\<rparr>)"

definition rgb565_from_true_color :: "argb8888 \<Rightarrow> u16" where
  "rgb565_from_true_color v =
     (let c = components v in
      ucast (drop_bit 3 (cc_b c)) OR push_bit 5 (ucast (drop_bit 2 (cc_g c))) OR push_bit 11 (ucast (drop_bit 3 (cc_r c))))"


section \<open>Pairs of 4-bit colours and octets\<close>

datatype indexed_color4 = Color0000 | Color0001 | Color0010 | Color0011 | Color0100 | Color0101 | Color0110 | Color0111
  | Color1000 | Color1001 | Color1010 | Color1011 | Color1100 | Color1101 | Color1110 | Color1111

definition ic4_all :: "indexed_color4 list" where
  "ic4_all = [Color0000, Color0001, Color0010, Color0011, Color0100, Color0101, Color0110, Color0111,
     Color1000, Color1001, Color1010, Color1011, Color1100, Color1101, Color1110, Color1111]"

text \<open>The number of a constructor, and \<open>transmute\<close> of a number below 16.\<close>

fun ic4_into_u8 :: "indexed_color4 \<Rightarrow> u8" where
  "ic4_into_u8 Color0000 = 0"
| "ic4_into_u8 Color0001 = 1"
| "ic4_into_u8 Color0010 = 2"
| "ic4_into_u8 Color0011 = 3"
| "ic4_into_u8 Color0100 = 4"
| "ic4_into_u8 Color0101 = 5"
| "ic4_into_u8 Color0110 = 6"
| "ic4_into_u8 Color0111 = 7"
| "ic4_into_u8 Color1000 = 8"
| "ic4_into_u8 Color1001 = 9"
| "ic4_into_u8 Color1010 = 10"
| "ic4_into_u8 Color1011 = 11"
| "ic4_into_u8 Color1100 = 12"
| "ic4_into_u8 Color1101 = 13"
| "ic4_into_u8 Color1110 = 14"
| "ic4_into_u8 Color1111 = 15"

definition ic4_from_u8 :: "u8 \<Rightarrow> indexed_color4" where
  "ic4_from_u8 v = ic4_all ! unat (v AND 15)"

type_synonym pair44 = u8

definition into_pair :: "pair44 \<Rightarrow> indexed_color4 \<times> indexed_color4" where
  "into_pair v = (ic4_from_u8 (drop_bit 4 v), ic4_from_u8 (v AND 15))"

definition from_pair :: "indexed_color4 \<times> indexed_color4 \<Rightarrow> pair44" where
  "from_pair p = push_bit 4 (ic4_into_u8 (fst p)) + ic4_into_u8 (snd p)"

definition replace_lhs :: "pair44 \<Rightarrow> indexed_color4 \<Rightarrow> pair44" where
  "replace_lhs v l = from_pair (l, snd (into_pair v))"

definition replace_rhs :: "pair44 \<Rightarrow> indexed_color4 \<Rightarrow> pair44" where
  "replace_rhs v r = from_pair (fst (into_pair v), r)"

datatype monochrome = Zero | One

definition mono_new :: "u8 \<Rightarrow> monochrome" where "mono_new v = (if v = 0 then Zero else One)"

definition mono_into_bool :: "monochrome \<Rightarrow> bool" where "mono_into_bool m = (case m of Zero \<Rightarrow> False | One \<Rightarrow> True)"

definition mono_from_bool :: "bool \<Rightarrow> monochrome" where "mono_from_bool b = (if b then One else Zero)"

type_synonym octet = u8

text \<open>A shift of a byte masks its count.\<close>

definition octet_mask :: "nat \<Rightarrow> u8" where "octet_mask n = drop_bit (n mod 8) 0x80"

definition octet_get :: "octet \<Rightarrow> nat \<Rightarrow> monochrome" where
  "octet_get v n = mono_new (v AND octet_mask n)"

definition octet_set :: "octet \<Rightarrow> nat \<Rightarrow> monochrome \<Rightarrow> octet" where
  "octet_set v n m = (if mono_into_bool m then v OR octet_mask n else v AND NOT (octet_mask n))"

text \<open>\<open>from_array\<close> adds the bits of the first eight elements; the sum of no bits is the default.\<close>

definition octet_from_array :: "monochrome list \<Rightarrow> octet" where
  "octet_from_array ms = sum_list (map (\<lambda>(n, m). octet_mask n) (filter (\<lambda>(n, m). mono_into_bool m) (enumerate 0 (take 8 ms))))"

definition octet_into_array :: "octet \<Rightarrow> monochrome list" where
  "octet_into_array v = map (\<lambda>n. mono_new (v AND octet_mask n)) [0..<8]"

end
