(* ===== verification/ColorSafety.thy ===== *)
theory ColorSafety
  imports Color
begin

text \<open>
  What the conversions of colours keep: the round trips between the formats, the quantisation of the
  palette, and the range and the meaning of blending and shadows.
\<close>

section \<open>Words of four bytes\<close>

lemma components_into [simp]: "components (into_true_color c) = c"
  by (cases c) (auto simp: components_def into_true_color_def bit_eq_iff bit_simps dest: bit_imp_le_length)

lemma into_components [simp]: "into_true_color (components v) = v"
proof (rule bit_word_eqI)
  fix n assume "n < LENGTH(32)"
  then have "n < 8 \<or> 8 \<le> n \<and> n < 16 \<or> 16 \<le> n \<and> n < 24 \<or> 24 \<le> n \<and> n < 32" by auto
  then show "bit (into_true_color (components v)) n \<longleftrightarrow> bit v n"
    by (auto simp: components_def into_true_color_def bit_simps)
qed

lemma rgba_into [simp]: "rgba_components (into_rgba c) = c"
  by (cases c) (auto simp: rgba_components_def into_rgba_def bit_eq_iff bit_simps dest: bit_imp_le_length)

lemma argb_rgba [simp]: "argb_from_rgba (rgba_from_argb v) = v"
proof -
  have "cc_of_rgba (rgba_of_cc c) = c" for c by (simp add: cc_of_rgba_def rgba_of_cc_def)
  then show ?thesis by (simp add: argb_from_rgba_def rgba_from_argb_def)
qed

lemma mask_numerals: "0x1F = (mask 5 :: 'a::len word)" "0x3F = (mask 6 :: 'a word)" "15 = (mask 4 :: 'a word)"
  by (simp_all add: mask_eq_exp_minus_1)

lemma bit_shifted: "bit v n \<Longrightarrow> \<not> bit v (k + (n - k)) \<Longrightarrow> n < k" for k n :: nat
  by (metis le_add_diff_inverse not_le)

lemma c5c8_drop: "drop_bit 3 (c5c8 (ucast (x AND 0x1F :: u16))) = ucast (x AND 0x1F)"
  unfolding mask_numerals
  by (rule bit_word_eqI) (auto simp: c5c8_def bit_simps)

lemma c6c8_drop: "drop_bit 2 (c6c8 (ucast (x AND 0x3F :: u16))) = ucast (x AND 0x3F)"
  unfolding mask_numerals
  by (rule bit_word_eqI) (auto simp: c6c8_def bit_simps)

lemma rgb565_true [simp]: "rgb565_from_true_color (rgb565_as_true_color v) = v"
proof -
  have "ucast (ucast (v AND 0x1F) :: u8) OR push_bit 5 (ucast (ucast (drop_bit 5 v AND 0x3F) :: u8)) OR
    push_bit 11 (ucast (ucast (drop_bit 11 v AND 0x1F) :: u8)) = v"
    unfolding mask_numerals by (rule bit_word_eqI) (auto simp: bit_simps dest: bit_shifted)
  then show ?thesis
    by (simp add: rgb565_from_true_color_def rgb565_as_true_color_def rgb565_components_def c5c8_drop c6c8_drop Let_def)
qed

lemma rgb555_true [simp]: "rgb555_from_true_color (rgb555_as_true_color v) = take_bit 15 v"
proof -
  have "ucast (ucast (v AND 0x1F) :: u8) OR push_bit 5 (ucast (ucast (drop_bit 5 v AND 0x1F) :: u8)) OR
    push_bit 10 (ucast (ucast (drop_bit 10 v AND 0x1F) :: u8)) = take_bit 15 v"
    unfolding mask_numerals by (rule bit_word_eqI) (auto simp: bit_simps dest: bit_shifted)
  then show ?thesis
    by (simp add: rgb555_from_true_color_def rgb555_as_true_color_def rgb555_components_def c5c8_drop Let_def)
qed

lemma rgb_components [simp]:
  "rgb565_from_components (fst (rgb565_components v)) (fst (snd (rgb565_components v))) (snd (snd (rgb565_components v))) = v"
  unfolding rgb565_from_components_def rgb565_components_def mask_numerals
  by (rule bit_word_eqI) (auto simp: bit_simps dest: bit_shifted)

section \<open>Packed colours\<close>

lemma argb_opacity_le: "argb_opacity v \<noteq> 0 \<Longrightarrow> 0x01000000 \<le> v"
proof (rule ccontr)
  assume a: "argb_opacity v \<noteq> 0" "\<not> 0x01000000 \<le> v"
  then have "unat v < 2 ^ 24" by (simp add: word_le_nat_alt)
  then have "take_bit 32 (unat v) < 2 ^ 24" using take_bit_nat_less_eq_self [of 32 "unat v"] by linarith
  then have "drop_bit 24 v = 0" by (simp only: word_unat_eq_iff unsigned_drop_bit_eq unsigned_0) (simp add: drop_bit_eq_div)
  with a(1) show False by (simp add: argb_opacity_def)
qed

lemma as_color_packed [simp]: "as_color (packed_from_color c) = (if color_is_transparent c then Transparent else c)"
proof (cases c)
  case (Indexed i)
  have "unat i < 256" using unsigned_less [of i] by simp
  moreover have "ucast (ucast i :: u32) = i" by (rule bit_word_eqI) (simp add: bit_simps)
  ultimately have "ucast i \<le> (0xFF :: u32)" "ucast i \<noteq> (0x100 :: u32)" "ucast (ucast i :: u32) = i"
    by (simp_all add: word_le_nat_alt word_unat_eq_iff unsigned_ucast_eq take_bit_nat_eq_self)
  then show ?thesis using Indexed
    by (auto simp: packed_from_color_def packed_from_indexed_def as_color_def color_is_transparent_def packed_transparent_def
        INDEX_COLOR_MAX_def INDEX_COLOR_MIN_def)
next
  case (Argb32 v)
  have "v \<noteq> 0x100 \<and> \<not> v \<le> 0xFF" if "argb_opacity v \<noteq> 0"
    using argb_opacity_le [OF that] by (auto simp: word_le_nat_alt)
  with Argb32 show ?thesis
    by (auto simp: packed_from_color_def packed_from_true_color_def as_color_def color_is_transparent_def packed_transparent_def
        INDEX_COLOR_MAX_def INDEX_COLOR_MIN_def argb_is_transparent_def alpha_is_transparent_def color_from_argb_def argb_from_argb_def)
qed (simp add: packed_from_color_def as_color_def color_is_transparent_def)

section \<open>Pairs and octets\<close>

lemma ic4_u8 [simp]: "ic4_from_u8 (ic4_into_u8 c) = c"
  by (cases c) (simp_all add: ic4_from_u8_def ic4_all_def)

lemma ic4_range: "unat (ic4_into_u8 c) < 16"
  by (cases c) simp_all

lemma into_from_pair [simp]: "into_pair (from_pair p) = p"
proof -
  obtain l r where p: "p = (l, r)" by (cases p)
  show ?thesis by (cases l; cases r) (simp_all add: p into_pair_def from_pair_def ic4_from_u8_def ic4_all_def)
qed

lemma octet_mask_bit: "bit (octet_mask k) n \<longleftrightarrow> n = 7 - k mod 8"
proof -
  have "(0x80 :: u8) = 2 ^ 7" by simp
  then have "bit (octet_mask k) n \<longleftrightarrow> bit (2 ^ 7 :: u8) (k mod 8 + n)" by (simp only: octet_mask_def bit_drop_bit_eq o_def)
  also have "\<dots> \<longleftrightarrow> k mod 8 + n = 7" by (simp only: bit_exp_iff) (auto simp: possible_bit_word)
  also have "\<dots> \<longleftrightarrow> n = 7 - k mod 8" by auto
  finally show ?thesis .
qed

lemma octet_get_bit: "octet_get v k = mono_from_bool (bit v (7 - k mod 8))"
proof -
  have "v AND octet_mask k = (if bit v (7 - k mod 8) then octet_mask k else 0)"
    by (rule bit_word_eqI) (auto simp: bit_and_iff octet_mask_bit)
  moreover have "octet_mask k \<noteq> 0" using octet_mask_bit [of k "7 - k mod 8"] by auto
  ultimately show ?thesis by (simp add: octet_get_def mono_new_def mono_from_bool_def)
qed

lemma mono_bool [simp]: "mono_from_bool (mono_into_bool m) = m" "mono_into_bool (mono_from_bool b) = b"
  by (cases m) (simp_all add: mono_from_bool_def mono_into_bool_def)

lemma octet_get_set: "k < 8 \<Longrightarrow> j < 8 \<Longrightarrow> octet_get (octet_set v k m) j = (if j = k then m else octet_get v j)"
  by (cases m) (auto simp: octet_get_bit octet_set_def bit_simps octet_mask_bit mono_from_bool_def mono_into_bool_def)


section \<open>Blending\<close>

definition between :: "u8 \<Rightarrow> u8 \<Rightarrow> u8 \<Rightarrow> bool" where
  "between a b c \<longleftrightarrow> min a b \<le> c \<and> c \<le> max a b"

lemma between_ends [simp]: "between a b a" "between a b b"
  by (auto simp: between_def)

lemma unat_u8_less: "unat (a :: u8) < 256"
  using unsigned_less [of a] by simp

lemma u8_of_nat_between:
  assumes "min (unat a) (unat b) \<le> n" "n \<le> max (unat a) (unat b)"
  shows "between a b (of_nat n)" "n < 256"
proof -
  show "n < 256" using assms unat_u8_less [of a] unat_u8_less [of b] by linarith
  then have "unat (of_nat n :: u8) = n" by (simp add: unsigned_of_nat take_bit_nat_eq_self)
  then show "between a b (of_nat n)" using assms by (auto simp: between_def word_le_nat_alt min_def max_def split: if_splits)
qed

lemma weighted_mean_between:
  fixes x y p q :: nat
  assumes "0 < p + q"
  shows "min x y \<le> (x * p + y * q) div (p + q)" "(x * p + y * q) div (p + q) \<le> max x y"
proof -
  have "min x y * (p + q) \<le> x * p + y * q" "x * p + y * q \<le> max x y * (p + q)"
    by (simp_all add: distrib_left add_mono)
  then show "min x y \<le> (x * p + y * q) div (p + q)" "(x * p + y * q) div (p + q) \<le> max x y"
    using assms div_le_mono [of _ "max x y * (p + q)" "p + q"] by (simp_all add: less_eq_div_iff_mult_less_eq)
qed

lemma alpha_sum_less:
  fixes a b :: nat
  assumes "a < 256" "b < 256"
  shows "b + a * (256 - b) div 256 < 256"
proof -
  have "a * (256 - b) < 256 * (256 - b)" using assms by simp
  then have "a * (256 - b) div 256 < 256 - b" by (simp add: div_less_iff_less_mult mult.commute)
  then show ?thesis by linarith
qed

lemma opacity_components: "argb_opacity v = cc_a (components v)"
  by (simp add: argb_opacity_def components_def)

lemma blend_draw_components:
  fixes lhs rhs
  defines "l \<equiv> components lhs" and "r \<equiv> components rhs" and "c \<equiv> components (blend_draw lhs rhs)"
  shows "unat (cc_a c) = unat (cc_a r) + unat (cc_a l) * (256 - unat (cc_a r)) div 256"
    and "between (cc_b l) (cc_b r) (cc_b c)" "between (cc_g l) (cc_g r) (cc_g c)" "between (cc_r l) (cc_r r) (cc_r c)"
proof -
  let ?ar = "unat (cc_a r)" let ?al = "unat (cc_a l) * (256 - ?ar) div 256"
  have s: "?ar + ?al < 256" by (rule alpha_sum_less) (rule unat_u8_less)+
  have "unat (cc_a c) = ?ar + ?al \<and> between (cc_b l) (cc_b r) (cc_b c) \<and> between (cc_g l) (cc_g r) (cc_g c) \<and> between (cc_r l) (cc_r r) (cc_r c)"
  proof (cases "argb_is_opaque rhs \<or> argb_is_transparent rhs")
    case True
    have "unat (cc_a l) div 256 = 0" using unat_u8_less [of "cc_a l"] by simp
    with True show ?thesis
      by (auto simp: c_def blend_draw_def l_def r_def argb_is_opaque_def argb_is_transparent_def opacity_components
          alpha_is_opaque_def alpha_is_transparent_def alpha_opaque_def)
  next
    case False
    then have "0 < ?ar + ?al"
      by (auto simp: r_def argb_is_transparent_def opacity_components alpha_is_transparent_def word_unat_eq_iff)
    then have mid: "between x y (of_nat ((unat x * ?al + unat y * ?ar) div (?ar + ?al)))" for x y
      using weighted_mean_between [of ?al ?ar "unat x" "unat y"] by (intro u8_of_nat_between(1)) (simp_all add: add.commute)
    define n where "n = ?ar + ?al"
    have "c = cc_blending l r (\<lambda>l r. of_nat ((unat l * ?al + unat r * ?ar) div (?ar + ?al))) (\<lambda>_ _. of_nat n)"
      using False \<open>0 < ?ar + ?al\<close> by (simp add: n_def c_def blend_draw_def l_def r_def Let_def)
    moreover have "unat (of_nat n :: u8) = n" using s by (simp add: n_def [symmetric] unsigned_of_nat take_bit_nat_eq_self)
    ultimately show ?thesis using mid by (simp add: cc_blending_def n_def [symmetric])
  qed
  then show "unat (cc_a c) = ?ar + ?al" "between (cc_b l) (cc_b r) (cc_b c)" "between (cc_g l) (cc_g r) (cc_g c)" "between (cc_r l) (cc_r r) (cc_r c)"
    by blast+
qed

section \<open>Shadows\<close>

lemma byte_masks:
  "0x000000FF = (mask 8 :: u32)" "0x0000FF00 = push_bit 8 (mask 8 :: u32)" "0x00FF0000 = push_bit 16 (mask 8 :: u32)"
  "0xFF000000 = push_bit 24 (mask 8 :: u32)"
  by (simp_all add: mask_eq_exp_minus_1)

lemma components_merge:
  "components ((A AND 0xFF000000) OR (R AND 0x00FF0000) OR (G AND 0x0000FF00) OR (B AND 0x000000FF)) =
    \<lparr>cc_b = ucast B, cc_g = ucast (drop_bit 8 G), cc_r = ucast (drop_bit 16 R), cc_a = ucast (drop_bit 24 A)\<rparr>"
  unfolding byte_masks by (auto simp: components_def bit_eq_iff bit_simps)

lemma byte_of_word: "v AND push_bit k (mask 8) = of_nat (unat (ucast (drop_bit k v) :: u8) * 2 ^ k)" for v :: u32
proof -
  have "v AND push_bit k (mask 8) = push_bit k (ucast (ucast (drop_bit k v) :: u8))"
    by (rule bit_word_eqI) (auto simp: bit_simps)
  also have "\<dots> = of_nat (unat (ucast (drop_bit k v) :: u8) * 2 ^ k)"
    by (simp add: push_bit_eq_mult)
  finally show ?thesis .
qed

lemma unat_drop_bit: "unat (drop_bit k w) = unat w div 2 ^ k" for w :: u32
proof -
  have "unat w < 2 ^ 32" using unsigned_less [of w] by simp
  then have "take_bit 32 (unat w) = unat w" by (simp only: take_bit_nat_eq_self)
  then show ?thesis by (simp only: unsigned_drop_bit_eq) (simp add: drop_bit_eq_div)
qed

lemma shadow_channel:
  fixes v :: u32 and s :: u8
  assumes "k \<le> 16"
  shows "ucast (drop_bit k (((v AND push_bit k (mask 8)) * (256 - ucast s)) div 256)) =
    (of_nat (unat (ucast (drop_bit k v) :: u8) * (256 - unat s) div 256) :: u8)"
proof -
  define c where "c = unat (ucast (drop_bit k v) :: u8)"
  define sh where "sh = 256 - unat s"
  have "(256 - ucast s :: u32) = of_nat sh" using unat_u8_less [of s] by (simp add: sh_def of_nat_diff)
  then have "(v AND push_bit k (mask 8)) * (256 - ucast s) = of_nat (c * 2 ^ k * sh)" by (simp add: byte_of_word c_def)
  moreover have "c * 2 ^ k * sh \<le> 255 * 2 ^ 16 * 256"
  proof (intro mult_le_mono)
    show "(2 :: nat) ^ k \<le> 2 ^ 16" using assms by (rule power_increasing) simp
  qed (use unat_u8_less [of "ucast (drop_bit k v)"] in \<open>simp_all add: c_def sh_def\<close>)
  moreover have "unat (of_nat m :: u32) = m" if "m \<le> 255 * 2 ^ 16 * 256" for m
    using that by (simp add: unsigned_of_nat take_bit_nat_eq_self)
  ultimately have X: "unat ((v AND push_bit k (mask 8)) * (256 - ucast s)) = c * 2 ^ k * sh" by metis
  have "unat (drop_bit k (((v AND push_bit k (mask 8)) * (256 - ucast s)) div 256)) = c * 2 ^ k * sh div 256 div 2 ^ k"
    by (simp add: unat_drop_bit unat_div_distrib X)
  also have "\<dots> = c * sh div 256"
    by (simp add: div_mult2_eq [symmetric] mult.commute mult.left_commute)
  finally show ?thesis by (metis c_def sh_def of_nat_unat)
qed

lemma shadowed_components:
  "components (shadowed v s) = (let c = components v; f = \<lambda>x. of_nat (unat x * (256 - unat s) div 256) in
     \<lparr>cc_b = f (cc_b c), cc_g = f (cc_g c), cc_r = f (cc_r c), cc_a = cc_a c\<rparr>)"
  using shadow_channel [of 0 v s] shadow_channel [of 8 v s] shadow_channel [of 16 v s]
  by (simp add: shadowed_def Let_def components_merge byte_masks [symmetric]) (simp add: components_def)

section \<open>The palette\<close>

definition cube_color :: "nat \<Rightarrow> u32" where
  "cube_color n = 0xFF000000 + of_nat (51 * (n mod 6)) * 2 ^ 16 + of_nat (51 * (n div 6 mod 6)) * 2 ^ 8 + of_nat (51 * (n div 36))"

lemma palette_cube: "take 216 (drop 16 COLOR_PALETTE) = map cube_color [0..<216]"
  by code_simp

lemma palette_length: "length COLOR_PALETTE = 256"
  by (simp add: COLOR_PALETTE_def)

lemma palette_nth: "n < 216 \<Longrightarrow> COLOR_PALETTE ! (16 + n) = cube_color n"
  using arg_cong [OF palette_cube, of "\<lambda>xs. xs ! n"] by (simp add: palette_length)

lemma into_true_color_sum:
  "into_true_color c = ucast (cc_a c) * 2 ^ 24 + ucast (cc_r c) * 2 ^ 16 + ucast (cc_g c) * 2 ^ 8 + ucast (cc_b c)"
proof -
  have "into_true_color c = push_bit 24 (ucast (cc_a c)) + push_bit 16 (ucast (cc_r c)) + push_bit 8 (ucast (cc_g c)) + ucast (cc_b c)"
    by (subst disjunctive_add; (subst disjunctive_add)?; (subst disjunctive_add)?)
      (auto simp: bit_simps into_true_color_def or.assoc or.commute or.left_commute dest: bit_imp_le_length)
  then show ?thesis by (simp add: push_bit_eq_mult)
qed

text \<open>The level of a channel in the cube: the nearest multiple of 51.\<close>

definition cube_level :: "u8 \<Rightarrow> nat" where
  "cube_level x = (unat x + 25) div 51"

lemma cube_level_near: "cube_level x < 6" "\<bar>int (51 * cube_level x) - int (unat x)\<bar> \<le> 25"
proof -
  show "cube_level x < 6" using unat_u8_less [of x] by (simp add: cube_level_def div_less_iff_less_mult)
  have "51 * cube_level x \<le> unat x + 25" "unat x + 25 < 51 * cube_level x + 51"
    using div_times_less_eq_dividend [of "unat x + 25" 51] dividend_less_div_times [of 51 "unat x + 25"] by (simp_all add: cube_level_def)
  then show "\<bar>int (51 * cube_level x) - int (unat x)\<bar> \<le> 25" by linarith
qed

lemma channel_level: "ucast ((of_nat (unat x + 25)) div (51 :: u32)) = (of_nat (cube_level x) :: u8)"
proof -
  have "unat (of_nat (unat x + 25) :: u32) = unat x + 25"
    using unat_u8_less [of x] by (simp only: unsigned_of_nat) (simp add: take_bit_nat_eq_self)
  then have "unat (of_nat (unat x + 25) div (51 :: u32)) = cube_level x" by (simp add: unat_div_distrib cube_level_def)
  then show ?thesis by (metis of_nat_unat)
qed

lemma ic_from_rgb_index:
  "unat (ic_from_rgb v) = 16 + (cube_level (cc_r (components v)) + 6 * cube_level (cc_g (components v)) + 36 * cube_level (cc_b (components v)))"
  (is "_ = 16 + (?r + 6 * ?g + 36 * ?b)")
proof -
  have "v AND 0xFF = of_nat (unat (cc_b (components v)))" "drop_bit 8 v AND 0xFF = of_nat (unat (cc_g (components v)))"
    "drop_bit 16 v AND 0xFF = of_nat (unat (cc_r (components v)))"
    using byte_of_word [of v 0] byte_of_word [of "drop_bit 8 v" 0] byte_of_word [of "drop_bit 16 v" 0]
    by (simp_all add: byte_masks components_def)
  then have "ic_from_rgb v = of_nat (16 + (?r + 6 * ?g + 36 * ?b))"
    using channel_level by (simp add: ic_from_rgb_def Let_def)
  moreover have "16 + (?r + 6 * ?g + 36 * ?b) < 256"
    using cube_level_near(1) [of "cc_r (components v)"] cube_level_near(1) [of "cc_g (components v)"] cube_level_near(1) [of "cc_b (components v)"] by linarith
  moreover have "unat (of_nat n :: u8) = n" if "n < 256" for n using that by (simp add: unsigned_of_nat take_bit_nat_eq_self)
  ultimately show ?thesis by metis
qed

lemma unat_51: "x < 6 \<Longrightarrow> unat (of_nat (51 * x) :: u8) = 51 * x"
  by (simp only: unsigned_of_nat) (simp add: take_bit_nat_eq_self)

lemma cube_digits:
  fixes r g b :: nat
  assumes "r < 6" "g < 6"
  shows "(r + 6 * g + 36 * b) mod 6 = r" "(r + 6 * g + 36 * b) div 6 mod 6 = g" "(r + 6 * g + 36 * b) div 36 = b"
proof -
  have e: "r + 6 * g + 36 * b = r + 6 * (g + 6 * b)" by simp
  show "(r + 6 * g + 36 * b) mod 6 = r" using assms unfolding e mod_mult_self2 by simp
  have d: "(r + 6 * (g + 6 * b)) div 6 = g + 6 * b" using assms by simp
  show "(r + 6 * g + 36 * b) div 6 mod 6 = g" using assms unfolding e d by simp
  have "(r + 6 * (g + 6 * b)) div (6 * 6) = (g + 6 * b) div 6" unfolding div_mult2_eq d ..
  then show "(r + 6 * g + 36 * b) div 36 = b" using assms unfolding e by simp
qed

lemma components_cube:
  assumes "r < 6" "g < 6" "b < 6"
  shows "components (cube_color (r + 6 * g + 36 * b)) = cc_from_rgb (of_nat (51 * r)) (of_nat (51 * g)) (of_nat (51 * b))"
proof -
  have u: "ucast (of_nat (51 * x) :: u8) = (of_nat (51 * x) :: u32)" if "x < 6" for x
    using arg_cong [OF unat_51 [OF that], of "of_nat :: nat \<Rightarrow> u32"] by (simp only: of_nat_unat)
  have "into_true_color (cc_from_rgb (of_nat (51 * r)) (of_nat (51 * g)) (of_nat (51 * b))) = cube_color (r + 6 * g + 36 * b)"
    unfolding cube_color_def cube_digits [OF assms(1,2)] into_true_color_sum cc_from_rgb_def color_components.simps u [OF assms(1)] u [OF assms(2)] u [OF assms(3)]
    by (simp add: alpha_opaque_def)
  then show ?thesis by (metis components_into)
qed

lemma components_quantised:
  "components (ic_as_true_color (ic_from_rgb v)) = (let c = components v in
     cc_from_rgb (of_nat (51 * cube_level (cc_r c))) (of_nat (51 * cube_level (cc_g c))) (of_nat (51 * cube_level (cc_b c))))"
proof -
  let ?c = "components v"
  have "cube_level (cc_r ?c) + 6 * cube_level (cc_g ?c) + 36 * cube_level (cc_b ?c) < 216"
    using cube_level_near(1) [of "cc_r ?c"] cube_level_near(1) [of "cc_g ?c"] cube_level_near(1) [of "cc_b ?c"] by linarith
  then show ?thesis
    by (simp add: ic_as_true_color_def argb_from_argb_def ic_as_argb_def ic_from_rgb_index palette_nth components_cube cube_level_near Let_def)
qed

lemma components_low:
  "cc_b (components (v AND 0xFFFFFF)) = cc_b (components v)" "cc_g (components (v AND 0xFFFFFF)) = cc_g (components v)"
  "cc_r (components (v AND 0xFFFFFF)) = cc_r (components v)"
proof -
  have m: "(0xFFFFFF :: u32) = mask 24" by (simp add: mask_eq_exp_minus_1)
  show "cc_b (components (v AND 0xFFFFFF)) = cc_b (components v)" "cc_g (components (v AND 0xFFFFFF)) = cc_g (components v)"
    "cc_r (components (v AND 0xFFFFFF)) = cc_r (components v)"
    unfolding m by (auto simp: components_def bit_eq_iff bit_simps)
qed

lemma cube_index_roundtrip:
  assumes "16 \<le> unat i" "unat i < 232"
  shows "ic_from_rgb (ic_as_rgb i) = i"
proof -
  define n where "n = unat i - 16"
  have i: "unat i = 16 + n" "n < 216" using assms by (simp_all add: n_def)
  define r g b where "r = n mod 6" and "g = n div 6 mod 6" and "b = n div 36"
  have "n div 36 = n div 6 div 6" by (simp add: div_mult2_eq [symmetric])
  then have n: "n = r + 6 * g + 36 * b" and rgb: "r < 6" "g < 6" "b < 6"
    using i(2) mod_mult_div_eq [of n 6] mod_mult_div_eq [of "n div 6" 6] unfolding r_def g_def b_def
    by (linarith, simp_all add: div_less_iff_less_mult)
  have "ic_as_rgb i = cube_color (r + 6 * g + 36 * b) AND 0xFFFFFF" by (simp only: ic_as_rgb_def i(1) palette_nth i(2) n [symmetric])
  moreover have "cube_level (of_nat (51 * x)) = x" if "x < 6" for x using that by (simp only: cube_level_def unat_51)
  ultimately have "unat (ic_from_rgb (ic_as_rgb i)) = 16 + (r + 6 * g + 36 * b)"
    using rgb by (simp only: ic_from_rgb_index components_low components_cube cc_from_rgb_def color_components.simps)
  then show ?thesis using i n by (simp add: word_unat_eq_iff)
qed


section \<open>Properties\<close>

lemma octet_array [simp]: "octet_from_array (octet_into_array v) = v"
proof -
  have "list_all (\<lambda>n. octet_from_array (octet_into_array (of_nat n)) = (of_nat n :: u8)) [0..<256]" by code_simp
  then have "n < 256 \<Longrightarrow> octet_from_array (octet_into_array (of_nat n)) = (of_nat n :: u8)" for n by (simp add: list_all_iff)
  from this [of "unat v"] show ?thesis using unat_u8_less [of v] by simp
qed

text \<open>
  Conversions that lose nothing.  A colour is the word of its components; the order RGBA and back, a
  16-bit colour to 32 bits and back, a 15-bit colour up to its unused bit, a pair of 4-bit colours, an octet
  and its array are restored; and a generic colour that was packed is the same colour, where every transparent one
  is \<open>Transparent\<close>.
\<close>

theorem color_roundtrips:
  "into_true_color (components v) = v \<and> argb_from_rgba (rgba_from_argb v) = v \<and>
   rgb565_from_true_color (rgb565_as_true_color w) = w \<and> rgb555_from_true_color (rgb555_as_true_color w) = take_bit 15 w \<and>
   into_pair (from_pair p) = p \<and> octet_from_array (octet_into_array x) = x \<and>
   as_color (packed_from_color c) = (if color_is_transparent c then Transparent else c)"
  by simp

text \<open>
  The palette.  The indexed colour of an RGB value is within 25 of it in every channel, and it is opaque; the
  indices of the colour cube are restored by the conversion to RGB and back.
\<close>

theorem indexed_nearest:
  fixes rgb :: u32
  assumes "16 \<le> unat i" "unat i < 232"
  shows "(let c = components rgb; q = components (ic_as_true_color (ic_from_rgb rgb)) in
      \<bar>int (unat (cc_r q)) - int (unat (cc_r c))\<bar> \<le> 25 \<and> \<bar>int (unat (cc_g q)) - int (unat (cc_g c))\<bar> \<le> 25 \<and>
      \<bar>int (unat (cc_b q)) - int (unat (cc_b c))\<bar> \<le> 25 \<and> cc_is_opaque q) \<and>
    ic_from_rgb (ic_as_rgb i) = i"
proof -
  have d: "\<bar>int (unat (of_nat (51 * cube_level x) :: u8)) - int (unat x)\<bar> \<le> 25" for x
    using cube_level_near(2) [of x] by (simp only: unat_51 [OF cube_level_near(1)])
  show ?thesis using d cube_index_roundtrip [OF assms]
    by (simp only: Let_def components_quantised cc_from_rgb_def color_components.simps cc_is_opaque_def alpha_is_opaque_def)
qed

theorem indexed_nearest_witness: "ic_from_rgb (ic_as_rgb 231) = 231"
  using indexed_nearest [of 231 0] by simp

text \<open>
  Blending never leaves the range of a byte.  The opacity of \<open>blend_draw\<close> is that of the upper colour
  plus what it lets through of the lower one, without wrap-around; every channel lies between the channels
  of the two colours.  A shadow scales the three channels exactly and keeps the opacity.
\<close>

theorem blend_and_shadow:
  "(let l = components lhs; r = components rhs; c = components (blend_draw lhs rhs) in
      unat (cc_a c) = unat (cc_a r) + unat (cc_a l) * (256 - unat (cc_a r)) div 256 \<and>
      between (cc_r l) (cc_r r) (cc_r c) \<and> between (cc_g l) (cc_g r) (cc_g c) \<and> between (cc_b l) (cc_b r) (cc_b c)) \<and>
   components (shadowed v s) = (let c = components v; f = \<lambda>x. of_nat (unat x * (256 - unat s) div 256) in
      \<lparr>cc_b = f (cc_b c), cc_g = f (cc_g c), cc_r = f (cc_r c), cc_a = cc_a c\<rparr>)"
  using blend_draw_components [of lhs rhs] shadowed_components [of v s] by (simp add: Let_def)

end
