(* ===== verification/Blend.thy ===== *)
theory Blend
  imports BitmapPaint ColorSafety
begin

text \<open>
  The operations of src/lib/meggl/src/bitmap.rs that depend on the kind of pixel: \<open>blt_with_key\<close> and
  \<open>_memset_colors8\<close> for indexed bitmaps; \<open>blend_rect\<close>, \<open>blt_blend\<close>, \<open>blt_cw\<close>, \<open>blt_transparent\<close> and the
  conversions from bytes for bitmaps of 32 bits; the accessors of bitmaps with one and four bits per pixel.
\<close>

section \<open>Filling a rectangle with a translucent colour\<close>

fun process_pixels :: "('a \<Rightarrow> 'a) \<Rightarrow> nat \<Rightarrow> nat \<Rightarrow> 'a list \<Rightarrow> ('e, 'a list) outcome" where
  "process_pixels f 0 cursor xs = Ok xs"
| "process_pixels f (Suc n) cursor xs =
     and_then (slice_get_unchecked xs cursor) (\<lambda>c.
     and_then (slice_set_unchecked xs cursor (f c)) (process_pixels f n (usize_add cursor 1)))"

fun process_rows :: "('a \<Rightarrow> 'a) \<Rightarrow> nat \<Rightarrow> nat \<Rightarrow> nat \<Rightarrow> nat \<Rightarrow> 'a list \<Rightarrow> ('e, 'a list) outcome" where
  "process_rows f 0 width cursor stride xs = Ok xs"
| "process_rows f (Suc n) width cursor stride xs =
     and_then (process_pixels f width cursor xs) (process_rows f n width (usize_add (usize_add cursor width) stride) stride)"

text \<open>The colour of a pixel after \<open>blend_rect\<close> with a colour that is neither opaque nor transparent.\<close>

definition blend_over :: "argb8888 \<Rightarrow> argb8888 \<Rightarrow> argb8888" where
  "blend_over color old =
     (let rhs = components color; alpha = unat (cc_a rhs); alpha_n = 255 - alpha in
      into_true_color (cc_blending (components old) rhs
        (\<lambda>l r. of_nat ((unat l * alpha_n + unat r * alpha) div 255)) saturating_add))"

definition blend_rect :: "argb8888 bitmap \<Rightarrow> rect \<Rightarrow> argb8888 \<Rightarrow> ('e, argb8888 bitmap) outcome" where
  "blend_rect b r color =
     (if cc_is_opaque (components color) then fill_rect b r color
      else if cc_is_transparent (components color) then Ok b
      else
        case clip_rect (bm_size b) r of (dx, dy, width, height) \<Rightarrow>
        if width \<le> 0 \<or> height \<le> 0 then Ok b
        else
          let cursor = usize_add (as_usize dx) (usize_mul (as_usize dy) (bm_stride b));
              stride = usize_sub (bm_stride b) (as_usize width) in
          and_then (process_rows (blend_over color) (nat height) (nat width) cursor stride (bm_slice b))
            (\<lambda>xs. Ok (b\<lparr>bm_slice := xs\<rparr>)))"


section \<open>Transfers\<close>

text \<open>\<open>_memcpy_blend32\<close>: both ranges are taken unchecked.\<close>

definition memcpy_blend32 :: "argb8888 list \<Rightarrow> nat \<Rightarrow> argb8888 list \<Rightarrow> nat \<Rightarrow> nat \<Rightarrow> ('e, argb8888 list) outcome" where
  "memcpy_blend32 dest d src s count =
     (let d' = usize_add d count; s' = usize_add s count in
      if d \<le> d' \<and> d' \<le> length dest \<and> s \<le> s' \<and> s' \<le> length src
      then Ok (take d dest @ map2 blend_draw (take (d' - d) (drop d dest)) (take (s' - s) (drop s src)) @ drop d' dest)
      else UB OutOfRange)"

fun blend_rows :: "nat \<Rightarrow> nat \<Rightarrow> nat \<Rightarrow> nat \<Rightarrow> nat \<Rightarrow> nat \<Rightarrow> argb8888 list \<Rightarrow> argb8888 list \<Rightarrow> ('e, argb8888 list) outcome" where
  "blend_rows 0 width d ds s ss src dst = Ok dst"
| "blend_rows (Suc n) width d ds s ss src dst =
     and_then (memcpy_blend32 dst d src s width) (blend_rows n width (usize_add d ds) ds (usize_add s ss) ss src)"

text \<open>Both branches on the opacity do the same (a \<open>TODO\<close> of the source).\<close>

definition blt_blend :: "argb8888 bitmap \<Rightarrow> argb8888 bitmap \<Rightarrow> point \<Rightarrow> rect \<Rightarrow> alpha8 \<Rightarrow> ('e, argb8888 bitmap) outcome" where
  "blt_blend b src p r opacity =
     (case adjust_blt_coords (bm_size b) (bm_size src) p r of (dx, dy, sx, sy, width, height) \<Rightarrow>
      if alpha_is_transparent opacity \<or> width \<le> 0 \<or> height \<le> 0 then Ok b
      else
        let width = as_usize width; height = as_usize height; ds = bm_stride b; ss = bm_stride src;
            d = usize_add (as_usize dx) (usize_mul (as_usize dy) ds);
            s = usize_add (as_usize sx) (usize_mul (as_usize sy) ss) in
        and_then (blend_rows height width d ds s ss (bm_slice src) (bm_slice b)) (\<lambda>xs. Ok (b\<lparr>bm_slice := xs\<rparr>)))"

text \<open>\<open>blt_with_key\<close> indexes both slices with a check.\<close>

fun key_pixels :: "nat list \<Rightarrow> indexed_color \<Rightarrow> nat \<Rightarrow> nat \<Rightarrow> indexed_color list \<Rightarrow> indexed_color list \<Rightarrow> ('e, indexed_color list) outcome" where
  "key_pixels [] key d s src dst = Ok dst"
| "key_pixels (i # is) key d s src dst =
     (if usize_add s i < length src then
        let c = src ! usize_add s i in
        if c \<noteq> key then
          (if usize_add d i < length dst then key_pixels is key d s src (dst[usize_add d i := c]) else Panic)
        else key_pixels is key d s src dst
      else Panic)"

fun key_rows :: "nat \<Rightarrow> indexed_color \<Rightarrow> nat \<Rightarrow> nat \<Rightarrow> nat \<Rightarrow> nat \<Rightarrow> nat \<Rightarrow> indexed_color list \<Rightarrow> indexed_color list \<Rightarrow> ('e, indexed_color list) outcome" where
  "key_rows 0 key width d ds s ss src dst = Ok dst"
| "key_rows (Suc n) key width d ds s ss src dst =
     and_then (key_pixels [0..<width] key d s src dst) (key_rows n key width (usize_add d ds) ds (usize_add s ss) ss src)"

definition blt_with_key :: "indexed_color bitmap \<Rightarrow> indexed_color bitmap \<Rightarrow> point \<Rightarrow> rect \<Rightarrow> indexed_color \<Rightarrow> ('e, indexed_color bitmap) outcome" where
  "blt_with_key b src p r key =
     (case adjust_blt_coords (bm_size b) (bm_size src) p r of (dx, dy, sx, sy, width, height) \<Rightarrow>
      if width \<le> 0 \<or> height \<le> 0 then Ok b
      else
        let width = as_usize width; height = as_usize height; ds = bm_stride b; ss = bm_stride src;
            d = usize_add (as_usize dx) (usize_mul (as_usize dy) ds);
            s = usize_add (as_usize sx) (usize_mul (as_usize sy) ss) in
        and_then (key_rows height key width d ds s ss (bm_slice src) (bm_slice b)) (\<lambda>xs. Ok (b\<lparr>bm_slice := xs\<rparr>)))"

definition blt32 :: "indexed_color bitmap \<Rightarrow> argb8888 bitmap \<Rightarrow> point \<Rightarrow> rect \<Rightarrow> ('e, indexed_color bitmap) outcome" where
  "blt32 b src p r = blt_convert (\<lambda>c. ic_from_rgb (argb_rgb c)) b src p r"

definition blt8 :: "argb8888 bitmap \<Rightarrow> indexed_color bitmap \<Rightarrow> point \<Rightarrow> rect \<Rightarrow> u32 list \<Rightarrow> ('e, argb8888 bitmap) outcome" where
  "blt8 b src p r palette = blt_convert (\<lambda>c. argb_from_argb (palette ! unat c)) b src p r"

text \<open>The two kinds of source of \<open>blt_transparent\<close>.\<close>

datatype bitmap_ref = RefIndexed "indexed_color bitmap" | RefArgb32 "argb8888 bitmap"

definition blt_transparent :: "argb8888 bitmap \<Rightarrow> bitmap_ref \<Rightarrow> point \<Rightarrow> rect \<Rightarrow> indexed_color \<Rightarrow> ('e, argb8888 bitmap) outcome" where
  "blt_transparent b src p r key = (case src of
      RefIndexed src \<Rightarrow> blt_convert_opt (\<lambda>c. if c = key then None else Some (ic_as_true_color c)) b src p r
    | RefArgb32 src \<Rightarrow> blt_blend b src p r alpha_opaque)"

text \<open>\<open>blt_cw\<close> turns the source clockwise; a row of the destination is a column of the source, read upwards.\<close>

fun turn_pixels :: "nat \<Rightarrow> nat \<Rightarrow> nat \<Rightarrow> nat \<Rightarrow> 'a list \<Rightarrow> 'a list \<Rightarrow> ('e, 'a list) outcome" where
  "turn_pixels 0 p q ss src dst = Ok dst"
| "turn_pixels (Suc n) p q ss src dst =
     (if q < length src \<and> p < length dst then turn_pixels n (usize_add p 1) (usize_sub q ss) ss src (dst[p := src ! q]) else Panic)"

fun turn_columns :: "nat list \<Rightarrow> nat \<Rightarrow> nat \<Rightarrow> nat \<Rightarrow> nat \<Rightarrow> nat \<Rightarrow> 'a list \<Rightarrow> 'a list \<Rightarrow> ('e, 'a list) outcome" where
  "turn_columns [] height p stride_p q0 ss src dst = Ok dst"
| "turn_columns (x # xs) height p stride_p q0 ss src dst =
     and_then (turn_pixels height p (usize_add q0 x) ss src dst)
       (turn_columns xs height (usize_add (usize_add p height) stride_p) stride_p q0 ss src)"

definition blt_cw :: "argb8888 bitmap \<Rightarrow> argb8888 bitmap \<Rightarrow> point \<Rightarrow> rect \<Rightarrow> ('e, argb8888 bitmap) outcome" where
  "blt_cw b src pt r =
     (let self_size = size_new (as_isize (bm_height b)) (as_isize (bm_width b)) in
      case adjust_blt_coords self_size (bm_size src) pt r of (dx, dy, sx, sy, width, height) \<Rightarrow>
      if width \<le> 0 \<or> height \<le> 0 then Ok b
      else
        let width = as_usize width; height = as_usize height; ds = bm_stride b; ss = bm_stride src;
            temp = dx; dx = isize_sub (sz_height self_size) dy; dy = temp;
            p = usize_sub (usize_add (as_usize dx) (usize_mul (as_usize dy) ds)) height;
            q0 = usize_add (as_usize sx) (usize_mul (usize_sub (usize_add (as_usize sy) height) 1) ss) in
        and_then (turn_columns [0..<width] height p (usize_sub ds height) q0 ss (bm_slice src) (bm_slice b))
          (\<lambda>xs. Ok (b\<lparr>bm_slice := xs\<rparr>)))"


section \<open>Bytes\<close>

text \<open>
  \<open>_memset_colors8\<close> on a slice whose first element has the address \<open>base\<close>: single bytes first, then
  words of 16 bytes when more than 16 bytes are left, then the rest.  A word must have the address
  alignment \<open>al\<close> of \<open>u128\<close>.
\<close>

definition memset_colors8 :: "nat \<Rightarrow> nat \<Rightarrow> 'a list \<Rightarrow> nat \<Rightarrow> nat \<Rightarrow> 'a \<Rightarrow> ('e, 'a list) outcome" where
  "memset_colors8 al base xs cursor n c =
     (if length xs \<le> cursor \<or> length xs < cursor + n then UB OutOfRange
      else
        let ptr = base + cursor; prologue = min (ptr mod 16) n; remain = n - prologue in
        if 16 < remain \<and> (ptr + prologue) mod al \<noteq> 0 then UB Misaligned
        else Ok (take cursor xs @ replicate n c @ drop (cursor + n) xs))"

text \<open>
  The macro gives indexed bitmaps the same \<open>fill_rect\<close> and \<open>draw_hline\<close> as the others, over
  \<open>_memset_colors8\<close>.
\<close>

fun fill_rows8 :: "nat \<Rightarrow> nat \<Rightarrow> nat \<Rightarrow> nat \<Rightarrow> nat \<Rightarrow> nat \<Rightarrow> 'a \<Rightarrow> 'a list \<Rightarrow> ('e, 'a list) outcome" where
  "fill_rows8 al base 0 cursor width stride c xs = Ok xs"
| "fill_rows8 al base (Suc n) cursor width stride c xs =
     and_then (memset_colors8 al base xs cursor width c) (fill_rows8 al base n (usize_add cursor stride) width stride c)"

definition fill_rect8 :: "nat \<Rightarrow> nat \<Rightarrow> 'a bitmap \<Rightarrow> rect \<Rightarrow> 'a \<Rightarrow> ('e, 'a bitmap) outcome" where
  "fill_rect8 al base b r c =
     (case clip_rect (bm_size b) r of (dx, dy, width, height) \<Rightarrow>
      if width \<le> 0 \<or> height \<le> 0 then Ok b
      else
        let width = as_usize width; height = as_usize height; stride = bm_stride b;
            cursor = usize_add (as_usize dx) (usize_mul (as_usize dy) stride) in
        and_then
          (if stride = width then memset_colors8 al base (bm_slice b) cursor (usize_mul width height) c
           else fill_rows8 al base height cursor width stride c (bm_slice b))
          (\<lambda>xs. Ok (b\<lparr>bm_slice := xs\<rparr>)))"

definition draw_hline8 :: "nat \<Rightarrow> nat \<Rightarrow> 'a bitmap \<Rightarrow> point \<Rightarrow> int \<Rightarrow> 'a \<Rightarrow> ('e, 'a bitmap) outcome" where
  "draw_hline8 al base b p width c =
     (let dx = pt_x p; dy = pt_y p in
      if dy < 0 \<or> sz_height (bm_size b) \<le> dy then Ok b
      else
        let (w, dx) = (if dx < 0 then (isize_add width dx, 0) else (width, dx));
            right = isize_add dx w;
            w = (if sz_width (bm_size b) \<le> right then isize_sub (sz_width (bm_size b)) dx else w) in
        if w \<le> 0 then Ok b
        else and_then (memset_colors8 al base (bm_slice b) (usize_add (as_usize dx) (usize_mul (as_usize dy) (bm_stride b)))
               (as_usize w) c) (\<lambda>xs. Ok (b\<lparr>bm_slice := xs\<rparr>)))"

fun rgba_chunks :: "u8 list \<Rightarrow> argb8888 list" where
  "rgba_chunks (r # g # b # a # rest) = into_true_color (cc_from_rgba r g b a) # rgba_chunks rest"
| "rgba_chunks _ = []"

definition from_bytes_rgba :: "u8 list \<Rightarrow> size2 \<Rightarrow> argb8888 bitmap option" where
  "from_bytes_rgba bytes sz =
     (let count = usize_mul (as_usize (sz_width sz)) (as_usize (sz_height sz)) in
      if length bytes < usize_mul count 4 then None
      else Some (bm_from_slice (take count (rgba_chunks bytes)) sz None))"

fun rgb_chunks :: "u8 list \<Rightarrow> argb8888 list" where
  "rgb_chunks (r # g # b # rest) = into_true_color (cc_from_rgba r g b alpha_opaque) # rgb_chunks rest"
| "rgb_chunks _ = []"

definition from_bytes_rgb :: "u8 list \<Rightarrow> size2 \<Rightarrow> argb8888 bitmap option" where
  "from_bytes_rgb bytes sz =
     (let count = usize_mul (as_usize (sz_width sz)) (as_usize (sz_height sz)) in
      if length bytes < usize_mul count 3 then None
      else Some (bm_from_slice (take count (rgb_chunks bytes)) sz None))"

text \<open>The accessors of monochrome bitmaps and of pairs of 4-bit colours; the stride counts octets or pairs.\<close>

definition mono_index :: "octet bitmap \<Rightarrow> point \<Rightarrow> nat" where
  "mono_index b p = usize_add (as_usize (pt_x p) div 8) (usize_mul (bm_stride b) (as_usize (pt_y p)))"

definition mono_get_pixel_unchecked :: "octet bitmap \<Rightarrow> point \<Rightarrow> ('e, monochrome) outcome" where
  "mono_get_pixel_unchecked b p =
     and_then (slice_get_unchecked (bm_slice b) (mono_index b p)) (\<lambda>v. Ok (octet_get v (as_usize (pt_x p) mod 8)))"

definition mono_set_pixel_unchecked :: "octet bitmap \<Rightarrow> point \<Rightarrow> monochrome \<Rightarrow> ('e, octet bitmap) outcome" where
  "mono_set_pixel_unchecked b p m =
     and_then (slice_get_unchecked (bm_slice b) (mono_index b p)) (\<lambda>v.
     Ok (b\<lparr>bm_slice := (bm_slice b)[mono_index b p := octet_set v (as_usize (pt_x p) mod 8) m]\<rparr>))"

definition pair_get_pixel_unchecked :: "pair44 bitmap \<Rightarrow> point \<Rightarrow> ('e, indexed_color4) outcome" where
  "pair_get_pixel_unchecked b p =
     (let x = as_usize (pt_x p); y = as_usize (pt_y p) in
      and_then (slice_get_unchecked (bm_slice b) (usize_add (usize_mul y (bm_stride b)) (x div 2))) (\<lambda>v.
      Ok (if x mod 2 = 0 then fst (into_pair v) else snd (into_pair v))))"

end
