(* ===== verification/BlendSafety.thy ===== *)
theory BlendSafety
  imports Blend
begin

text \<open>
  What the operations that depend on the kind of pixel paint.  The transfers are row loops and share
  their shape (\<open>transfer_paints\<close>); \<open>blt_cw\<close> paints the turned screen; a colour that is blended over
  another stays between the two.
\<close>

section \<open>Rows\<close>

lemma process_row:
  assumes "d + n \<le> length xs" "length xs < 2 ^ 63"
  shows "\<exists>ys. (process_pixels f n d xs :: ('e, 'a list) outcome) = Ok ys \<and> row_spec d n (\<lambda>_. f) xs ys"
  using assms
proof (induction n arbitrary: d xs)
  case 0
  then show ?case by (simp add: row_spec_def)
next
  case (Suc n)
  have "usize_add d 1 = Suc d" using Suc.prems by (simp add: usize_add_def)
  then have step: "(process_pixels f (Suc n) d xs :: ('e, 'a list) outcome) = process_pixels f n (Suc d) (xs[d := f (xs ! d)])"
    using Suc.prems by (simp add: slice_get_unchecked_def slice_set_unchecked_def)
  have "Suc d + n \<le> length (xs[d := f (xs ! d)])" "length (xs[d := f (xs ! d)]) < 2 ^ 63" using Suc.prems by simp_all
  from Suc.IH [OF this] obtain ys where ys: "(process_pixels f n (Suc d) (xs[d := f (xs ! d)]) :: ('e, 'a list) outcome) = Ok ys"
    "row_spec (Suc d) n (\<lambda>_. f) (xs[d := f (xs ! d)]) ys" by blast
  have "row_spec d (Suc n) (\<lambda>_. f) xs ys" by (rule row_spec_Suc [OF ys(2)]) (use Suc.prems in auto)
  then show ?case unfolding step ys(1) by blast
qed

lemma blend_row:
  assumes "d + n \<le> length dst" "s + n \<le> length src" "length dst < 2 ^ 63" "length src < 2 ^ 63"
  shows "\<exists>ys. memcpy_blend32 dst d src s n = Ok ys \<and> row_spec d n (\<lambda>j old. blend_draw old (src ! (s + j))) dst ys"
proof -
  have "usize_add d n = d + n" "usize_add s n = s + n" using assms by (simp_all add: usize_add_exact)
  then show ?thesis using assms by (auto simp: memcpy_blend32_def Let_def row_spec_def nth_append min_def)
qed

lemma key_pixels_convert:
  assumes "d + k + n \<le> length dst" "s + k + n \<le> length src" "length dst < 2 ^ 63" "length src < 2 ^ 63"
  shows "(key_pixels [k..<k + n] key d s src dst :: ('e, indexed_color list) outcome) =
    convert_pixels (\<lambda>c. if c = key then None else Some c) n (d + k) (s + k) src dst"
  using assms
proof (induction n arbitrary: k dst)
  case (Suc n)
  have "usize_add s k = s + k" "usize_add d k = d + k" "usize_add (d + k) 1 = d + Suc k" "usize_add (s + k) 1 = s + Suc k"
    using Suc.prems by (simp_all add: usize_add_def)
  moreover have "[k..<k + Suc n] = k # [Suc k..<Suc k + n]" by (simp add: upt_conv_Cons)
  ultimately show ?case using Suc.IH [of "Suc k"] Suc.prems
    by (simp add: slice_get_unchecked_def slice_set_unchecked_def Let_def)
qed simp

lemma key_row:
  assumes "d + n \<le> length dst" "s + n \<le> length src" "length dst < 2 ^ 63" "length src < 2 ^ 63"
  shows "\<exists>ys. (key_pixels [0..<n] key d s src dst :: ('e, indexed_color list) outcome) = Ok ys \<and>
    row_spec d n (\<lambda>j old. if src ! (s + j) = key then old else src ! (s + j)) dst ys"
proof -
  from convert_row [OF assms, of "\<lambda>c. if c = key then None else Some c"] obtain ys where
    ys: "(convert_pixels (\<lambda>c. if c = key then None else Some c) n d s src dst :: ('e, indexed_color list) outcome) = Ok ys"
    and "row_spec d n (\<lambda>j old. case if src ! (s + j) = key then None else Some (src ! (s + j)) of None \<Rightarrow> old | Some c \<Rightarrow> c) dst ys"
    by blast
  then have "row_spec d n (\<lambda>j old. if src ! (s + j) = key then old else src ! (s + j)) dst ys" by (simp add: if_distrib cong: if_cong)
  moreover have "(key_pixels [0..<n] key d s src dst :: ('e, indexed_color list) outcome) = Ok ys"
    using key_pixels_convert [where 'e = 'e, of d 0 n dst s src key] assms ys by simp
  ultimately show ?thesis by blast
qed

interpretation processing: row_loop "\<lambda>n d s. process_rows f n w d dd" "\<lambda>d s. process_pixels f w d" w "usize_add w dd" 0 slen "\<lambda>_. f"
  for w dd slen :: nat and f :: "'a \<Rightarrow> 'a"
  by unfold_locales (simp_all add: process_row usize_add_def mod_simps add.assoc)

interpretation blending: row_loop "\<lambda>n d s. blend_rows n w d ds s ss src" "\<lambda>d s dst. memcpy_blend32 dst d src s w" w ds ss
    "length src" "\<lambda>i old. blend_draw old (src ! i)"
  for w ds ss :: nat and src :: "argb8888 list"
  by unfold_locales (auto simp: blend_row)

interpretation keyed: row_loop "\<lambda>n d s. key_rows n key w d ds s ss src" "\<lambda>d s. key_pixels [0..<w] key d s src" w ds ss
    "length src" "\<lambda>i old. if src ! i = key then old else src ! i"
  for w ds ss :: nat and key :: indexed_color and src :: "indexed_color list"
  by unfold_locales (simp_all add: key_row)

section \<open>Pixels\<close>

text \<open>The shape that the transfers share: adjusted coordinates, then a loop over rows.\<close>

lemma transfer_paints:
  fixes b :: "'a bitmap" and src :: "'b bitmap"
  assumes ok: "bitmap_ok b" "bitmap_ok src" "rect_small r" "small (pt_x p)" "small (pt_y p)"
    and loop: "\<And>w h d s. nat w \<le> bm_stride b \<Longrightarrow> d + (nat h - 1) * bm_stride b + nat w \<le> length (bm_slice b) \<Longrightarrow>
      s + (nat h - 1) * bm_stride src + nat w \<le> length (bm_slice src) \<Longrightarrow>
      \<exists>ys. L (nat w) (nat h) d s = (Ok ys :: ('e, 'a list) outcome) \<and>
        rows_spec d (bm_stride b) (nat w) (nat h) (\<lambda>k j. g (bm_slice src ! (s + k * bm_stride src + j))) (bm_slice b) ys"
  shows "\<exists>b'. (case adjust_blt_coords (bm_size b) (bm_size src) p r of (dx, dy, sx, sy, width, height) \<Rightarrow>
      if width \<le> 0 \<or> height \<le> 0 then Ok b
      else and_then (L (as_usize width) (as_usize height) (usize_add (as_usize dx) (usize_mul (as_usize dy) (bm_stride b)))
          (usize_add (as_usize sx) (usize_mul (as_usize sy) (bm_stride src)))) (\<lambda>xs. Ok (b\<lparr>bm_slice := xs\<rparr>))) = (Ok b' :: ('e, 'a bitmap) outcome) \<and>
    bitmap_ok b' \<and> paints b (blt_area src p r) (\<lambda>x y. g (blt_px src p r x y)) b'"
proof -
  obtain dx dy sx sy w h where adj: "adjust_blt_coords (bm_size b) (bm_size src) p r = (dx, dy, sx, sy, w, h)" by (metis prod_cases6)
  show ?thesis
  proof (cases "w \<le> 0 \<or> h \<le> 0")
    case True
    with blt_nothing [OF ok adj True] ok(1) show ?thesis by (simp add: adj)
  next
    case False
    then have pos: "0 < w" "0 < h" by auto
    note reg = blt_regions [OF ok adj pos]
    note d = regionD [OF ok(1) reg(1)] and s = regionD [OF ok(2) reg(2)]
    from loop [OF d(4,7) s(7)] obtain ys where ys: "L (nat w) (nat h) (bm_off b dx dy) (bm_off src sx sy) = (Ok ys :: ('e, 'a list) outcome)"
      "rows_spec (bm_off b dx dy) (bm_stride b) (nat w) (nat h)
        (\<lambda>k j. g (bm_slice src ! (bm_off src sx sy + k * bm_stride src + j))) (bm_slice b) ys" by blast
    note p = blt_rows_paint(3) [OF ok adj pos ys(2)]
    show ?thesis unfolding adj prod.case if_not_P [OF False] d(2,3,6) s(6) ys(1) using p paints_ok [OF p ok(1)] by auto
  qed
qed

lemma blt_blend_paints:
  assumes ok: "bitmap_ok b" "bitmap_ok src" "rect_small r" "small (pt_x p)" "small (pt_y p)" and "opacity \<noteq> 0"
  shows "\<exists>b'. (blt_blend b src p r opacity :: ('e, argb8888 bitmap) outcome) = Ok b' \<and> bitmap_ok b' \<and>
    paints b (blt_area src p r) (\<lambda>x y old. blend_draw old (blt_px src p r x y)) b'"
proof -
  have len: "length (bm_slice b) < 2 ^ 63" "length (bm_slice src) < 2 ^ 63" using ok by (simp_all add: bitmap_ok_def)
  show ?thesis
    using transfer_paints [OF ok, of "\<lambda>w h d s. blend_rows h w d (bm_stride b) s (bm_stride src) (bm_slice src) (bm_slice b) :: ('e, argb8888 list) outcome"
        "\<lambda>c old. blend_draw old c", OF blending.loop_rows] len assms(6)
    unfolding blt_blend_def Let_def by (simp add: alpha_is_transparent_def)
qed

lemma blt_with_key_paints:
  assumes ok: "bitmap_ok b" "bitmap_ok src" "rect_small r" "small (pt_x p)" "small (pt_y p)"
  shows "\<exists>b'. (blt_with_key b src p r key :: ('e, indexed_color bitmap) outcome) = Ok b' \<and> bitmap_ok b' \<and>
    paints b (blt_area src p r) (\<lambda>x y old. if blt_px src p r x y = key then old else blt_px src p r x y) b'"
proof -
  have len: "length (bm_slice b) < 2 ^ 63" "length (bm_slice src) < 2 ^ 63" using ok by (simp_all add: bitmap_ok_def)
  show ?thesis
    using transfer_paints [OF ok, of "\<lambda>w h d s. key_rows h key w d (bm_stride b) s (bm_stride src) (bm_slice src) (bm_slice b) :: ('e, indexed_color list) outcome"
        "\<lambda>c old. if c = key then old else c", OF keyed.loop_rows] len
    unfolding blt_with_key_def Let_def by simp
qed

definition blend_rect_px :: "argb8888 \<Rightarrow> argb8888 \<Rightarrow> argb8888" where
  "blend_rect_px color old =
     (if argb_is_opaque color then color else if argb_is_transparent color then old else blend_over color old)"

lemma blend_rect_paints:
  assumes "bitmap_ok b" "rect_small r"
  shows "\<exists>b'. (blend_rect b r color :: ('e, argb8888 bitmap) outcome) = Ok b' \<and> paints b (in_rect r) (\<lambda>_ _. blend_rect_px color) b'"
proof -
  have a: "cc_is_opaque (components color) = argb_is_opaque color" "cc_is_transparent (components color) = argb_is_transparent color"
    by (simp_all add: cc_is_opaque_def cc_is_transparent_def argb_is_opaque_def argb_is_transparent_def opacity_components)
  obtain dx dy w h where clip: "clip_rect (bm_size b) r = (dx, dy, w, h)" by (metis prod_cases4)
  note spec = clip_rect_spec [OF assms clip]
  consider "argb_is_opaque color" | "\<not> argb_is_opaque color" "argb_is_transparent color"
    | "\<not> argb_is_opaque color" "\<not> argb_is_transparent color" "w \<le> 0 \<or> h \<le> 0"
    | "\<not> argb_is_opaque color" "\<not> argb_is_transparent color" "0 < w" "0 < h" by fastforce
  then show ?thesis
  proof cases
    case 1
    then have "blend_rect_px color = (\<lambda>_. color)" by (simp add: fun_eq_iff blend_rect_px_def)
    with 1 show ?thesis using fill_rect_paints [OF assms, of color] by (simp add: blend_rect_def a)
  next
    case 2
    then show ?thesis by (auto simp: blend_rect_def a blend_rect_px_def paints_def)
  next
    case 3
    then have "paints b (in_rect r) g b" for g using spec(2) by (intro paints_refl) fastforce
    with 3 show ?thesis by (simp add: blend_rect_def a clip)
  next
    case 4
    then have reg: "bm_region b dx dy w h" using spec(1) by (auto simp: bm_region_def)
    note d = regionD [OF assms(1) reg]
    have sub: "usize_sub (bm_stride b) (nat w) = bm_stride b - nat w" "usize_add (nat w) (bm_stride b - nat w) = bm_stride b"
      using d(4) assms(1) by (auto simp: usize_sub_exact usize_add_def bitmap_ok_def)
    have "\<exists>ys. (process_rows (blend_over color) (nat h) (nat w) (bm_off b dx dy) (bm_stride b - nat w) (bm_slice b) :: ('e, argb8888 list) outcome) = Ok ys \<and>
      rows_spec (bm_off b dx dy) (bm_stride b) (nat w) (nat h) (\<lambda>_ _. blend_over color) (bm_slice b) ys"
      by (rule processing.loop_rows [where w = "nat w" and dd = "bm_stride b - nat w" and f = "blend_over color" and slen = "nat w" and s = 0, unfolded sub])
        (use d in simp_all)
    then obtain ys where ys: "process_rows (blend_over color) (nat h) (nat w) (bm_off b dx dy) (bm_stride b - nat w) (bm_slice b) = (Ok ys :: ('e, argb8888 list) outcome)"
      "rows_spec (bm_off b dx dy) (bm_stride b) (nat w) (nat h) (\<lambda>_ _. blend_over color) (bm_slice b) ys" by blast
    have "blend_rect b r color = (Ok (b\<lparr>bm_slice := ys\<rparr>) :: ('e, argb8888 bitmap) outcome)"
      using 4 by (simp add: blend_rect_def a clip Let_def d sub ys(1))
    moreover have "paints b (in_rect r) (\<lambda>_ _. blend_rect_px color) (b\<lparr>bm_slice := ys\<rparr>)"
      by (rule paints_cong [OF rows_paint [OF assms(1) _ _ _ _ _ _ ys(2)]])
        (use 4 reg spec(2) in \<open>auto simp: bm_region_def blend_rect_px_def\<close>)
    ultimately show ?thesis by blast
  qed
qed


section \<open>Turning\<close>

lemma turn_row:
  assumes "p + n \<le> length dst" "length dst < 2 ^ 63" "q < length src" "(n - 1) * ss \<le> q"
  shows "\<exists>ys. (turn_pixels n p q ss src dst :: ('e, 'a list) outcome) = Ok ys \<and> row_spec p n (\<lambda>j _. src ! (q - j * ss)) dst ys"
  using assms
proof (induction n arbitrary: p q dst)
  case 0
  then show ?case by (simp add: row_spec_def)
next
  case (Suc n)
  have p1: "usize_add p 1 = Suc p" using Suc.prems by (simp add: usize_add_def)
  show ?case
  proof (cases "n = 0")
    case True
    then show ?thesis using Suc.prems by (auto simp: row_spec_def nth_list_update)
  next
    case False
    then have "ss + (n - 1) * ss = n * ss" by (cases n) simp_all
    then have ss: "ss \<le> q" "(n - 1) * ss \<le> q - ss" using Suc.prems(4) by simp_all
    have "\<exists>ys. (turn_pixels n (Suc p) (q - ss) ss src (dst[p := src ! q]) :: ('e, 'a list) outcome) = Ok ys \<and>
      row_spec (Suc p) n (\<lambda>j _. src ! (q - ss - j * ss)) (dst[p := src ! q]) ys"
      by (rule Suc.IH) (use Suc.prems ss in auto)
    then obtain ys where ys: "(turn_pixels n (Suc p) (q - ss) ss src (dst[p := src ! q]) :: ('e, 'a list) outcome) = Ok ys"
      "row_spec (Suc p) n (\<lambda>j _. src ! (q - Suc j * ss)) (dst[p := src ! q]) ys" by (auto simp: diff_diff_left)
    have "row_spec p (Suc n) (\<lambda>j _. src ! (q - j * ss)) dst ys" by (rule row_spec_Suc [OF ys(2)]) (use Suc.prems in auto)
    moreover have "(turn_pixels (Suc n) p q ss src dst :: ('e, 'a list) outcome) = Ok ys"
      using Suc.prems p1 ss(1) ys(1) by (simp add: usize_sub_exact)
    ultimately show ?thesis by blast
  qed
qed

lemma turn_columns_rows:
  assumes "usize_add h sp = st" "h \<le> st" "st < 2 ^ 63" "length dst < 2 ^ 63" "length src < 2 ^ 63"
    and "0 < n \<Longrightarrow> p + (n - 1) * st + h \<le> length dst" "0 < n \<Longrightarrow> q0 + x + n \<le> length src" "(h - 1) * ss \<le> q0"
  shows "\<exists>ys. (turn_columns [x..<x + n] h p sp q0 ss src dst :: ('e, 'a list) outcome) = Ok ys \<and>
    rows_spec p st h n (\<lambda>k j _. src ! (q0 + x + k - j * ss)) dst ys"
  using assms(4,6,7)
proof (induction n arbitrary: p x dst)
  case 0
  then show ?case by simp
next
  case (Suc n)
  have q: "usize_add q0 x = q0 + x" "usize_add (usize_add p h) sp = usize_add p st"
    using Suc.prems(3) assms(5) assms(1) by (auto simp: usize_add_def mod_simps add.assoc)
  have "\<exists>ys. (turn_pixels h p (q0 + x) ss src dst :: ('e, 'a list) outcome) = Ok ys \<and> row_spec p h (\<lambda>j _. src ! (q0 + x - j * ss)) dst ys"
    by (rule turn_row) (use Suc.prems assms(8) in auto)
  then obtain ys where ys: "(turn_pixels h p (q0 + x) ss src dst :: ('e, 'a list) outcome) = Ok ys"
    "row_spec p h (\<lambda>j _. src ! (q0 + x - j * ss)) dst ys" by blast
  note len = row_specD(1) [OF ys(2)]
  have step: "turn_columns [x..<x + Suc n] h p sp q0 ss src dst = (turn_columns [Suc x..<Suc x + n] h (usize_add p st) sp q0 ss src ys :: ('e, 'a list) outcome)"
  proof -
    have "[x..<x + Suc n] = x # [Suc x..<Suc x + n]" by (simp add: upt_conv_Cons)
    then show ?thesis using ys(1) q by (simp only: turn_columns.simps and_then.simps)
  qed
  show ?case
  proof (cases "n = 0")
    case True
    have "rows_spec p st h (Suc 0) (\<lambda>k j _. src ! (q0 + x + k - j * ss)) dst ys"
      by (rule rows_spec_Suc [of _ _ _ _ ys]) (use ys assms(2) Suc.prems True in simp_all)
    then show ?thesis unfolding step using True by simp
  next
    case False
    then have split: "(n - 1) * st + st = n * st" by (cases n) simp_all
    have p: "usize_add p st = p + st" using Suc.prems split False by (auto intro!: usize_add_exact)
    have "\<exists>zs. (turn_columns [Suc x..<Suc x + n] h (p + st) sp q0 ss src ys :: ('e, 'a list) outcome) = Ok zs \<and>
        rows_spec (p + st) st h n (\<lambda>k j _. src ! (q0 + Suc x + k - j * ss)) ys zs"
      by (rule Suc.IH) (use Suc.prems split len False in auto)
    then obtain zs where zs: "(turn_columns [Suc x..<Suc x + n] h (p + st) sp q0 ss src ys :: ('e, 'a list) outcome) = Ok zs"
      "rows_spec (p + st) st h n (\<lambda>k j _. src ! (q0 + Suc x + k - j * ss)) ys zs" by blast
    have "rows_spec p st h (Suc n) (\<lambda>k j _. src ! (q0 + x + k - j * ss)) dst zs"
      by (rule rows_spec_Suc [of _ _ _ _ ys]) (use ys zs assms(2) Suc.prems in simp_all)
    then show ?thesis unfolding step p zs(1) by blast
  qed
qed

text \<open>
  The turned screen: the point \<open>(x, y)\<close> of the bitmap is the point \<open>(y, W - 1 - x)\<close> of the screen that the
  source is drawn on.
\<close>

lemma blt_cw_paints:
  assumes ok: "bitmap_ok b" "bitmap_ok src" "rect_small r" "small (pt_x p)" "small (pt_y p)"
  defines "V x \<equiv> sz_width (bm_size b) - 1 - x"
  shows "\<exists>b'. (blt_cw b src p r :: ('e, argb8888 bitmap) outcome) = Ok b' \<and> bitmap_ok b' \<and>
    paints b (\<lambda>x y. blt_area src p r y (V x)) (\<lambda>x y _. blt_px src p r y (V x)) b'"
proof -
  let ?W = "sz_width (bm_size b)" and ?H = "sz_height (bm_size b)"
  define bs :: "argb8888 bitmap" where "bs = \<lparr>bm_slice = replicate (nat ?H * nat ?W) 0, bm_size = size_new ?H ?W, bm_stride = nat ?H\<rparr>"
  have WH: "0 \<le> ?W" "0 \<le> ?H" "?W < 2 ^ 31" "?H < 2 ^ 31" using ok(1) by (simp_all add: bitmap_ok_def)
  have "nat ?H * nat ?W \<le> 2 ^ 31 * 2 ^ 31" using WH by (intro mult_le_mono) auto
  moreover have "(nat ?W - 1) * nat ?H + nat ?H \<le> nat ?H * nat ?W" if "0 < ?W"
    using that by (cases "nat ?W") (simp_all add: mult.commute)
  ultimately have bs: "bitmap_ok bs" using WH by (auto simp: bs_def bitmap_ok_def size_new_def)
  have size: "size_new (as_isize (bm_height b)) (as_isize (bm_width b)) = bm_size bs"
    using WH by (simp add: bs_def bm_height_def bm_width_def isize_simps)
  have szs: "sz_width (bm_size bs) = ?H" "sz_height (bm_size bs) = ?W" by (simp_all add: bs_def size_new_def)
  obtain dx dy sx sy w h where adj: "adjust_blt_coords (bm_size bs) (bm_size src) p r = (dx, dy, sx, sy, w, h)" by (metis prod_cases6)
  note spec = adjust_spec [OF bs ok(2-5) adj]
  have area: "blt_area src p r y (V x) \<longleftrightarrow> dx \<le> y \<and> y < dx + w \<and> dy \<le> V x \<and> V x < dy + h" if "in_bounds b x y" for x y
    using spec(2) [of y "V x"] that unfolding in_bounds_def [of bs] szs blt_area_def by (auto simp: in_bounds_def V_def)
  show ?thesis
  proof (cases "w \<le> 0 \<or> h \<le> 0")
    case True
    have "paints b (\<lambda>x y. blt_area src p r y (V x)) g b" for g using area True by (intro paints_refl) fastforce
    with True ok(1) show ?thesis by (simp add: blt_cw_def size adj Let_def)
  next
    case False
    then have pos: "0 < w" "0 < h" by auto
    note s1 = spec(1) [OF pos, unfolded szs]
    let ?x0 = "?W - dy - h"
    have reg: "bm_region b ?x0 dx h w" and regs: "bm_region src sx sy w h" using s1 pos by (auto simp: bm_region_def)
    note d = regionD [OF ok(1) reg] and s = regionD [OF ok(2) regs]
    have src1: "bm_region src sx (sy + h - 1) w 1" using regs by (auto simp: bm_region_def)
    note q = regionD [OF ok(2) src1]
    have P: "usize_sub (usize_add (as_usize (isize_sub ?W dy)) (usize_mul (as_usize dx) (bm_stride b))) (nat h) = bm_off b ?x0 dx"
    proof -
      have "nat dx * bm_stride b \<le> 2 ^ 31 * 2 ^ 31" using s1 ok(1) pos WH by (intro mult_le_mono) (auto simp: bitmap_ok_def)
      moreover have "nat dy + nat h \<le> nat ?W" using s1 pos by linarith
      ultimately show ?thesis using s1 pos WH
        by (simp add: isize_simps as_usize_nonneg usize_mul_exact usize_add_exact usize_sub_exact bm_off_def nat_diff_distrib)
    qed
    have Q: "usize_add (as_usize sx) (usize_mul (usize_sub (usize_add (as_usize sy) (nat h)) 1) (bm_stride src)) = bm_off src sx (sy + h - 1)"
    proof -
      have "sy + h \<le> 2 ^ 31" "0 \<le> sy" using s1 ok(2) by (auto simp: bitmap_ok_def)
      then have "usize_sub (usize_add (as_usize sy) (nat h)) 1 = as_usize (sy + h - 1)"
        using pos by (simp add: as_usize_nonneg usize_add_exact usize_sub_exact nat_add_distrib nat_diff_distrib)
      then show ?thesis using q(6) by simp
    qed
    have sub: "usize_sub (bm_stride b) (nat h) = bm_stride b - nat h" "usize_add (nat h) (bm_stride b - nat h) = bm_stride b"
      using d(4) ok(1) by (auto simp: usize_sub_exact usize_add_def bitmap_ok_def)
    have ss: "(nat h - 1) * bm_stride src \<le> bm_off src sx (sy + h - 1)"
      using s1 pos by (auto simp: bm_off_def intro!: trans_le_add2 mult_right_mono)
    have "\<exists>ys. (turn_columns [0..<0 + nat w] (nat h) (bm_off b ?x0 dx) (bm_stride b - nat h) (bm_off src sx (sy + h - 1)) (bm_stride src)
        (bm_slice src) (bm_slice b) :: ('e, argb8888 list) outcome) = Ok ys \<and>
      rows_spec (bm_off b ?x0 dx) (bm_stride b) (nat h) (nat w)
        (\<lambda>k j _. bm_slice src ! (bm_off src sx (sy + h - 1) + 0 + k - j * bm_stride src)) (bm_slice b) ys"
    proof (rule turn_columns_rows [OF sub(2) d(4) _ d(1) s(1) _ _ ss])
      show "bm_stride b < 2 ^ 63" using ok(1) by (simp add: bitmap_ok_def)
      show "bm_off b ?x0 dx + (nat w - 1) * bm_stride b + nat h \<le> length (bm_slice b)" by (rule d(7))
      show "bm_off src sx (sy + h - 1) + 0 + nat w \<le> length (bm_slice src)" using q(7) by simp
    qed
    then obtain ys where ys: "(turn_columns [0..<nat w] (nat h) (bm_off b ?x0 dx) (bm_stride b - nat h) (bm_off src sx (sy + h - 1)) (bm_stride src)
        (bm_slice src) (bm_slice b) :: ('e, argb8888 list) outcome) = Ok ys"
      "rows_spec (bm_off b ?x0 dx) (bm_stride b) (nat h) (nat w)
        (\<lambda>k j _. bm_slice src ! (bm_off src sx (sy + h - 1) + k - j * bm_stride src)) (bm_slice b) ys" by auto
    have "paints b (\<lambda>x y. blt_area src p r y (V x)) (\<lambda>x y _. blt_px src p r y (V x)) (b\<lparr>bm_slice := ys\<rparr>)"
    proof (rule paints_cong [OF rows_paint [OF ok(1) _ _ _ _ _ _ ys(2)]])
      fix x y
      assume "in_bounds b x y"
      from area [OF this] show "?x0 \<le> x \<and> x < ?x0 + h \<and> dx \<le> y \<and> y < dx + w \<longleftrightarrow> blt_area src p r y (V x)" by (auto simp: V_def)
    next
      fix x y old
      assume xy: "?x0 \<le> x \<and> x < ?x0 + h \<and> dx \<le> y \<and> y < dx + w"
      have "sx + (y - dx) = y - pt_x p + min_x r" "sy + (V x - dy) = V x - pt_y p + min_y r" using s1 by linarith+
      moreover have "bm_off src sx (sy + h - 1) + nat (y - dx) - nat (x - ?x0) * bm_stride src = bm_off src (sx + (y - dx)) (sy + (V x - dy))"
      proof -
        have "nat (sy + h - 1) = nat (sy + (V x - dy)) + nat (x - ?x0)" using xy s1 by (simp add: V_def nat_add_distrib [symmetric])
        moreover have "nat (sx + (y - dx)) = nat sx + nat (y - dx)" using xy s1 by (simp add: nat_add_distrib)
        ultimately show ?thesis by (simp add: bm_off_def add_mult_distrib)
      qed
      ultimately show "bm_slice src ! (bm_off src sx (sy + h - 1) + nat (y - dx) - nat (x - ?x0) * bm_stride src) = blt_px src p r y (V x)"
        by (simp only: blt_px_def bm_px_def)
    qed (use reg in \<open>auto simp: bm_region_def\<close>)
    moreover have "blt_cw b src p r = (Ok (b\<lparr>bm_slice := ys\<rparr>) :: ('e, argb8888 bitmap) outcome)"
      unfolding blt_cw_def size Let_def adj prod.case if_not_P [OF False] szs d(2,3) P Q sub(1) ys(1) by simp
    ultimately show ?thesis using paints_ok ok(1) by blast
  qed
qed


section \<open>Properties\<close>

lemma blend_over_components:
  "between (cc_b (components old)) (cc_b (components color)) (cc_b (components (blend_over color old)))"
  "between (cc_g (components old)) (cc_g (components color)) (cc_g (components (blend_over color old)))"
  "between (cc_r (components old)) (cc_r (components color)) (cc_r (components (blend_over color old)))"
  "cc_a (components old) \<le> cc_a (components (blend_over color old))"
proof -
  let ?a = "unat (cc_a (components color))"
  have "255 - ?a + ?a = 255" using unat_u8_less [of "cc_a (components color)"] by simp
  then have mid: "between x y (of_nat ((unat x * (255 - ?a) + unat y * ?a) div 255))" for x y
    using weighted_mean_between [of "255 - ?a" ?a "unat x" "unat y"] by (intro u8_of_nat_between(1)) simp_all
  show "between (cc_b (components old)) (cc_b (components color)) (cc_b (components (blend_over color old)))"
    "between (cc_g (components old)) (cc_g (components color)) (cc_g (components (blend_over color old)))"
    "between (cc_r (components old)) (cc_r (components color)) (cc_r (components (blend_over color old)))"
    using mid by (simp_all add: blend_over_def Let_def cc_blending_def)
  have "x \<le> saturating_add x y" for x y :: alpha8
  proof (cases "2 ^ 8 \<le> unat x + unat y")
    case True
    then show ?thesis using unat_u8_less [of x] by (simp add: saturating_add_def word_le_nat_alt)
  next
    case False
    then have "unat (x + y) = unat x + unat y" by (simp add: unat_word_ariths)
    with False show ?thesis by (simp add: saturating_add_def word_le_nat_alt)
  qed
  then show "cc_a (components old) \<le> cc_a (components (blend_over color old))"
    by (simp add: blend_over_def Let_def cc_blending_def)
qed

text \<open>
  C12: painting with translucent colours.  On well-formed bitmaps \<open>blend_rect\<close>, \<open>blt_blend\<close> and
  \<open>blt_with_key\<close> never leave a slice.  \<open>blend_rect\<close> changes exactly the pixels of the rectangle, to the
  colour when it is opaque and otherwise to a mixture that lies between the two; \<open>blt_blend\<close> draws every
  source pixel over the old one; \<open>blt_with_key\<close> copies every source pixel but those of the key colour.
\<close>

theorem blend_spec:
  assumes "bitmap_ok b" "bitmap_ok src" "bitmap_ok b8" "bitmap_ok src8" "rect_small r" "small (pt_x p)" "small (pt_y p)" "opacity \<noteq> 0"
  shows "(\<exists>b'. blend_rect b r color = Ok b' \<and> bitmap_ok b' \<and> paints b (in_rect r) (\<lambda>_ _. blend_rect_px color) b') \<and>
    (\<exists>b'. blt_blend b src p r opacity = Ok b' \<and> bitmap_ok b' \<and>
       paints b (blt_area src p r) (\<lambda>x y old. blend_draw old (blt_px src p r x y)) b') \<and>
    (\<exists>b'. blt_with_key b8 src8 p r key = Ok b' \<and> bitmap_ok b' \<and>
       paints b8 (blt_area src8 p r) (\<lambda>x y old. if blt_px src8 p r x y = key then old else blt_px src8 p r x y) b') \<and>
    between (cc_r (components old)) (cc_r (components color)) (cc_r (components (blend_rect_px color old))) \<and>
    between (cc_g (components old)) (cc_g (components color)) (cc_g (components (blend_rect_px color old))) \<and>
    between (cc_b (components old)) (cc_b (components color)) (cc_b (components (blend_rect_px color old)))"
  using blend_rect_paints [OF assms(1,5), of color] paints_ok [OF _ assms(1)] blt_blend_paints [OF assms(1,2,5-8)]
    blt_with_key_paints [OF assms(3,4,5-7), of key] blend_over_components [of old color]
  by (intro conjI) (auto simp: blend_rect_px_def)

theorem blend_spec_witness:
  "\<exists>b'. (blend_rect (bm_new (size_new 2 2) 0xFF000000) (rect_new 0 0 1 5) 0x80FFFFFF :: (unit, argb8888 bitmap) outcome) = Ok b' \<and>
     bm_px b' 0 1 = 0xFF808080 \<and> bm_px b' 1 1 = 0xFF000000"
proof -
  let ?b = "bm_new (size_new 2 2) 0xFF000000 :: argb8888 bitmap" and ?r = "rect_new 0 0 1 5" and ?p = "point_new 0 0"
  have b: "bm_size ?b = \<lparr>sz_width = 2, sz_height = 2\<rparr>" "bm_stride ?b = 2" "bm_slice ?b = replicate 4 0xFF000000"
    by (simp_all add: bm_new_def bm_from_slice_def size_new_def as_usize_def usize_mul_def)
  have ok: "bitmap_ok ?b" by (simp add: bitmap_ok_def b)
  have r: "rect_small ?r" "small (pt_x ?p)" "small (pt_y ?p)"
    by (simp_all add: rect_small_def min_x_def min_y_def rect_new_def isize_abs_def isize_simps small_iff point_new_def)
  have "bitmap_ok (bm_new (size_new 2 2) 0 :: indexed_color bitmap)"
    by (simp add: bitmap_ok_def bm_new_def bm_from_slice_def size_new_def as_usize_def usize_mul_def)
  from blend_spec [where 'a = unit and 'b = unit and 'c = unit, OF ok ok this this r, of 1 "0x80FFFFFF"] obtain b' where
    b': "(blend_rect ?b ?r 0x80FFFFFF :: (unit, argb8888 bitmap) outcome) = Ok b'"
      "paints ?b (in_rect ?r) (\<lambda>_ _. blend_rect_px 0x80FFFFFF) b'" by auto
  have px: "bm_px ?b 0 1 = 0xFF000000" "bm_px ?b 1 1 = 0xFF000000" by (simp_all add: bm_px_def bm_off_def b)
  have "components 0x80FFFFFF = \<lparr>cc_b = 0xFF, cc_g = 0xFF, cc_r = 0xFF, cc_a = 0x80\<rparr>" "components 0xFF000000 = \<lparr>cc_b = 0, cc_g = 0, cc_r = 0, cc_a = 0xFF\<rparr>"
    by (simp_all add: components_def)
  then have "blend_rect_px 0x80FFFFFF 0xFF000000 = 0xFF808080"
    by (simp add: blend_rect_px_def argb_is_opaque_def argb_is_transparent_def opacity_components alpha_is_opaque_def alpha_is_transparent_def
        alpha_opaque_def blend_over_def cc_blending_def into_true_color_def saturating_add_def Let_def)
  then have "bm_px b' 0 1 = 0xFF808080" "bm_px b' 1 1 = 0xFF000000" using paints_px [OF b'(2), of 0 1] paints_px [OF b'(2), of 1 1] px
    by (simp_all add: in_bounds_def b in_rect_def min_x_def min_y_def rect_new_def isize_abs_def isize_simps)
  with b'(1) show ?thesis by blast
qed

text \<open>
  Filling an indexed bitmap.  The first bytes of \<open>_memset_colors8\<close> are as many as the address is
  past a boundary of 16, where as many as are missing to the next boundary are needed: at any address that is not a
  multiple of 4, more than 16 further bytes are written through a misaligned pointer.
\<close>

lemma memset_colors8_misaligned:
  assumes "al = 8 \<or> al = 16" "(base + cursor) mod 4 \<noteq> 0" "cursor + n \<le> length xs" "(base + cursor) mod 16 + 16 < n"
  shows "memset_colors8 al base xs cursor n c = UB Misaligned"
proof -
  have "(q + q mod 16) mod al \<noteq> 0" if "q mod 4 \<noteq> 0" for q using assms(1)
  proof
    assume "al = 8"
    then show ?thesis using that by presburger
  next
    assume "al = 16"
    then show ?thesis using that by presburger
  qed
  from this [OF assms(2)] show ?thesis using assms(3,4) by (auto simp: memset_colors8_def Let_def min_def)
qed

text \<open>
  At a multiple of 8, or when at most 16 bytes are filled, the bytes are those of the other fills: the
  first bytes reach the next multiple of 16, or no word is written.
\<close>

lemma memset8_eq:
  assumes "al dvd 16" "(base + cursor) mod 8 = 0 \<or> n \<le> 16" "0 < n" "cursor + n \<le> length xs" "length xs < 2 ^ 63"
  shows "memset_colors8 al base xs cursor n c = (memset_colors xs cursor n c :: ('e, 'a list) outcome)"
proof -
  let ?p = "base + cursor"
  have "\<not> (16 < n - min (?p mod 16) n \<and> (?p + min (?p mod 16) n) mod al \<noteq> 0)"
  proof
    assume bad: "16 < n - min (?p mod 16) n \<and> (?p + min (?p mod 16) n) mod al \<noteq> 0"
    then have n: "16 < n" by linarith
    with assms(2) have p8: "?p mod 8 = 0" by linarith
    have m: "min (?p mod 16) n = ?p mod 16" using n by (simp add: less_imp_le [OF less_trans [of "?p mod 16" 16 n]])
    have "(q + q mod 16) mod 16 = 0" if "q mod 8 = 0" for q :: nat using that by presburger
    from this [OF p8] have "(?p + min (?p mod 16) n) mod 16 = 0" unfolding m .
    with bad assms(1) show False by (metis dvd_eq_mod_eq_0 dvd_trans)
  qed
  moreover have "usize_add cursor n = cursor + n" using assms(4,5) by (simp add: usize_add_exact)
  ultimately show ?thesis using assms(3,4) unfolding memset_colors8_def memset_colors_def Let_def by simp
qed

lemma fill_rows8_eq:
  assumes "al dvd 16" "(base + cursor) mod 8 = 0 \<and> stride mod 8 = 0 \<or> width \<le> 16" "0 < width"
    and "cursor + (n - 1) * stride + width \<le> length xs" "length xs < 2 ^ 63"
  shows "fill_rows8 al base n cursor width stride c xs = (fill_rows n cursor width stride c xs :: ('e, 'a list) outcome)"
  using assms(2,4,5)
proof (induction n arbitrary: cursor xs)
  case (Suc n)
  then have fits: "cursor + width \<le> length xs" by simp
  then obtain ys where ys: "(memset_colors xs cursor width c :: ('e, 'a list) outcome) = Ok ys" "length ys = length xs"
    using memset_row [OF fits Suc.prems(3), of c] by (auto simp: row_spec_def)
  have eq: "memset_colors8 al base xs cursor width c = (memset_colors xs cursor width c :: ('e, 'a list) outcome)"
    by (rule memset8_eq) (use assms(1,3) Suc.prems fits in auto)
  show ?case
  proof (cases n)
    case 0
    then show ?thesis by (cases "memset_colors xs cursor width c :: ('e, 'a list) outcome") (simp_all add: eq)
  next
    case (Suc k)
    then have room: "cursor + stride + (n - 1) * stride + width \<le> length xs" using Suc.prems(2) by simp
    then have "cursor + stride < 2 ^ 64" using Suc.prems(3) by simp
    then have add: "usize_add cursor stride = cursor + stride" by (simp add: usize_add_exact)
    have "(base + (cursor + stride)) mod 8 = 0 \<and> stride mod 8 = 0 \<or> width \<le> 16"
      using Suc.prems(1) by presburger
    from Suc.IH [OF this, of ys] room Suc.prems(3) ys(2) show ?thesis by (simp add: eq ys(1) add)
  qed
qed simp

text \<open>
  When a rectangle of an indexed bitmap can be filled: the slice, the rows and the visible left edge lie at
  multiples of 8, or the rectangle is narrow.
\<close>

definition fill_aligned :: "nat \<Rightarrow> 'a bitmap \<Rightarrow> rect \<Rightarrow> bool" where
  "fill_aligned base b r \<longleftrightarrow>
     base mod 8 = 0 \<and> bm_stride b mod 8 = 0 \<and> max 0 (min_x r) mod 8 = 0 \<or> sz_width (r_size r) \<le> 16 \<and> 16 < bm_stride b"

definition hline_aligned :: "nat \<Rightarrow> 'a bitmap \<Rightarrow> point \<Rightarrow> int \<Rightarrow> bool" where
  "hline_aligned base b p width \<longleftrightarrow>
     base mod 8 = 0 \<and> bm_stride b mod 8 = 0 \<and> max 0 (pt_x p) mod 8 = 0 \<or> width \<le> 16"

lemma clip_axis_left:
  assumes "clip_axis n d w = (d', w')" "0 \<le> n" "small n" "small d" "small w" "0 < w'"
  shows "d' = max 0 d" "w' \<le> w"
  using assms by (auto simp: clip_axis_def small_iff isize_simps split: if_splits)

lemma bm_off_aligned:
  assumes "base mod 8 = 0" "bm_stride b mod 8 = 0" "dx mod 8 = 0" "0 \<le> dx"
  shows "(base + bm_off b dx dy) mod 8 = 0"
proof -
  have "nat dx mod 8 = 0" using nat_mod_distrib [of dx 8] assms(3,4) by simp
  moreover have "(nat dy * bm_stride b) mod 8 = 0" using assms(2) by (metis dvd_eq_mod_eq_0 dvd_mult)
  ultimately show ?thesis using assms(1) by (simp add: bm_off_def dvd_eq_mod_eq_0 [symmetric])
qed

lemma fill_rect8_eq:
  assumes "bitmap_ok b" "rect_small r" "al dvd 16" "fill_aligned base b r"
  shows "fill_rect8 al base b r c = (fill_rect b r c :: ('e, 'a bitmap) outcome)"
proof -
  obtain dx dy w h where clip: "clip_rect (bm_size b) r = (dx, dy, w, h)" by (metis prod_cases4)
  note spec = clip_rect_spec(1) [OF assms(1,2) clip]
  show ?thesis
  proof (cases "w \<le> 0 \<or> h \<le> 0")
    case False
    then have reg: "bm_region b dx dy w h" using spec by (auto simp: bm_region_def)
    note d = regionD [OF assms(1) reg]
    from clip have a: "clip_axis (sz_width (bm_size b)) (min_x r) (sz_width (r_size r)) = (dx, w)"
      by (auto simp: clip_rect_axes split: prod.splits)
    have dx: "dx = max 0 (min_x r)" "w \<le> sz_width (r_size r)"
      using clip_axis_left [OF a] bitmap_ok_small [OF assms(1)] assms(2) False by (simp_all add: rect_small_def)
    have al: "(base + bm_off b dx dy) mod 8 = 0 \<and> bm_stride b mod 8 = 0 \<or> nat w \<le> 16 \<and> bm_stride b \<noteq> nat w"
      using assms(4) dx bm_off_aligned [of base b dx dy] by (auto simp: fill_aligned_def)
    have "bm_stride b = nat w \<Longrightarrow> memset_colors8 al base (bm_slice b) (bm_off b dx dy) (nat w * nat h) c =
        (memset_colors (bm_slice b) (bm_off b dx dy) (nat w * nat h) c :: ('e, 'a list) outcome)"
      using al d(1,7,8) False by (intro memset8_eq [OF assms(3)]) auto
    moreover have "bm_stride b \<noteq> nat w \<Longrightarrow> fill_rows8 al base (nat h) (bm_off b dx dy) (nat w) (bm_stride b) c (bm_slice b) =
        (fill_rows (nat h) (bm_off b dx dy) (nat w) (bm_stride b) c (bm_slice b) :: ('e, 'a list) outcome)"
      using al d(1,7) False by (intro fill_rows8_eq [OF assms(3)]) auto
    ultimately show ?thesis
      unfolding fill_rect8_def fill_rect_def clip prod.case if_not_P [OF False] Let_def d(2,3,6) using d(8) by auto
  qed (simp add: fill_rect8_def fill_rect_def clip)
qed

lemma draw_hline8_eq:
  assumes "bitmap_ok b" "small (pt_x p)" "small (pt_y p)" "small width" "al dvd 16" "hline_aligned base b p width"
  shows "draw_hline8 al base b p width c = (draw_hline b p width c :: ('e, 'a bitmap) outcome)"
proof -
  let ?dy = "pt_y p"
  obtain dx w where clip: "clip_axis (sz_width (bm_size b)) (pt_x p) width = (dx, w)" by fastforce
  note spec = clip_axis_spec(1) [OF clip] and left = clip_axis_left [OF clip]
  let ?line = "\<lambda>memset. if ?dy < 0 \<or> sz_height (bm_size b) \<le> ?dy then Ok b
      else if w \<le> 0 then Ok b else and_then (memset
        (usize_add (as_usize dx) (usize_mul (as_usize ?dy) (bm_stride b))) (as_usize w)) (\<lambda>xs. Ok (b\<lparr>bm_slice := xs\<rparr>)) :: ('e, 'a bitmap) outcome"
  have "draw_hline b p width c = ?line (\<lambda>i n. memset_colors (bm_slice b) i n c)"
    "draw_hline8 al base b p width c = ?line (\<lambda>i n. memset_colors8 al base (bm_slice b) i n c)"
    using clip by (auto simp: draw_hline_def draw_hline8_def clip_axis_def Let_def split: if_splits)
  moreover have "memset_colors8 al base (bm_slice b) (usize_add (as_usize dx) (usize_mul (as_usize ?dy) (bm_stride b))) (as_usize w) c =
      (memset_colors (bm_slice b) (usize_add (as_usize dx) (usize_mul (as_usize ?dy) (bm_stride b))) (as_usize w) c :: ('e, 'a list) outcome)"
    if pos: "0 \<le> ?dy" "?dy < sz_height (bm_size b)" "0 < w"
  proof -
    have reg: "bm_region b dx ?dy w 1" using pos spec assms bitmap_ok_small [OF assms(1)] by (auto simp: bm_region_def)
    note d = regionD [OF assms(1) reg]
    have "dx = max 0 (pt_x p)" "w \<le> width" using left pos(3) bitmap_ok_small [OF assms(1)] assms(2,4) by simp_all
    then have "(base + bm_off b dx ?dy) mod 8 = 0 \<or> nat w \<le> 16"
      using assms(6) bm_off_aligned [of base b dx ?dy] by (auto simp: hline_aligned_def)
    then show ?thesis unfolding d(2,6) using d(1,7) pos(3) by (intro memset8_eq [OF assms(5)]) auto
  qed
  ultimately show ?thesis by simp
qed

lemma mono_pixel_set_get:
  assumes "mono_set_pixel_unchecked b p m = (Ok b' :: ('e, octet bitmap) outcome)"
  shows "mono_get_pixel_unchecked b' p = (Ok m :: ('e, monochrome) outcome)"
    and "bm_size b' = bm_size b \<and> bm_stride b' = bm_stride b \<and> length (bm_slice b') = length (bm_slice b)"
proof -
  let ?i = "mono_index b p"
  from assms have i: "?i < length (bm_slice b)" and b': "b' = b\<lparr>bm_slice := (bm_slice b)[?i := octet_set (bm_slice b ! ?i) (as_usize (pt_x p) mod 8) m]\<rparr>"
    by (auto simp: mono_set_pixel_unchecked_def slice_get_unchecked_def split: if_splits)
  then show "mono_get_pixel_unchecked b' p = (Ok m :: ('e, monochrome) outcome)"
    "bm_size b' = bm_size b \<and> bm_stride b' = bm_stride b \<and> length (bm_slice b') = length (bm_slice b)"
    by (simp_all add: mono_get_pixel_unchecked_def slice_get_unchecked_def mono_index_def octet_get_set)
qed

end
