(* ===== verification/Glyph.thy ===== *)
theory Glyph
  imports BlendSafety
begin

text \<open>
  Glyphs and rounded shapes of src/lib/meggl/src/bitmap.rs (\<open>DrawGlyph\<close>, \<open>DrawRect\<close>).  A glyph is a bitmap of
  octets, one bit per pixel, that is read without a check of its length.
\<close>

section \<open>Glyphs\<close>

text \<open>The bits \<open>js\<close> of one octet; \<open>pt\<close> is the point of a bit.\<close>

fun glyph_bits :: "nat list \<Rightarrow> u8 \<Rightarrow> (nat \<Rightarrow> point) \<Rightarrow> 'a \<Rightarrow> 'a bitmap \<Rightarrow> ('e, 'a bitmap) outcome" where
  "glyph_bits [] data pt c b = Ok b"
| "glyph_bits (j # js) data pt c b =
     and_then (if data AND octet_mask j \<noteq> 0 then set_pixel b (pt j) c else Ok b) (glyph_bits js data pt c)"

fun glyph_bytes :: "nat list \<Rightarrow> u8 list \<Rightarrow> nat \<Rightarrow> (nat \<Rightarrow> point) \<Rightarrow> 'a \<Rightarrow> 'a bitmap \<Rightarrow> ('e, 'a bitmap) outcome" where
  "glyph_bytes [] glyph cursor pt c b = Ok b"
| "glyph_bytes (i # is) glyph cursor pt c b =
     and_then (slice_get_unchecked glyph (usize_add cursor i)) (\<lambda>data.
     and_then (glyph_bits [0..<8] data (\<lambda>j. pt (i * 8 + j)) c b) (glyph_bytes is glyph cursor pt c))"

text \<open>A row of \<open>width\<close> pixels: whole octets, then the rest of the last one.\<close>

definition glyph_row :: "u8 list \<Rightarrow> nat \<Rightarrow> nat \<Rightarrow> (nat \<Rightarrow> point) \<Rightarrow> 'a \<Rightarrow> 'a bitmap \<Rightarrow> ('e, 'a bitmap) outcome" where
  "glyph_row glyph width cursor pt c b =
     (let w8 = width div 8; w7 = width mod 8 in
      and_then (glyph_bytes [0..<w8] glyph cursor pt c b) (\<lambda>b.
      if 0 < w7 then
        and_then (slice_get_unchecked glyph (usize_add cursor w8)) (\<lambda>data. glyph_bits [0..<w7] data (\<lambda>j. pt (j + w8 * 8)) c b)
      else Ok b))"

fun glyph_rows :: "nat list \<Rightarrow> u8 list \<Rightarrow> nat \<Rightarrow> nat \<Rightarrow> nat \<Rightarrow> (nat \<Rightarrow> nat \<Rightarrow> point) \<Rightarrow> 'a \<Rightarrow> 'a bitmap \<Rightarrow> ('e, 'a bitmap) outcome" where
  "glyph_rows [] glyph width cursor stride pt c b = Ok b"
| "glyph_rows (y # ys) glyph width cursor stride pt c b =
     and_then (glyph_row glyph width cursor (pt y) c b) (glyph_rows ys glyph width (usize_add cursor stride) stride pt c)"

text \<open>The part of a rectangle that \<open>draw_glyph\<close> and \<open>draw_glyph_cw\<close> draw: cut off at the right and at the bottom.\<close>

definition glyph_coords :: "'a bitmap \<Rightarrow> rect \<Rightarrow> coordinates option" where
  "glyph_coords b r =
     (case coords_from_rect r of
        None \<Rightarrow> None
      | Some coords \<Rightarrow>
          let width = as_isize (bm_width b); height = as_isize (bm_height b);
              coords = (if width < c_right coords then coords\<lparr>c_right := width\<rparr> else coords);
              coords = (if height < c_bottom coords then coords\<lparr>c_bottom := height\<rparr> else coords) in
          if c_left coords < 0 \<or> width \<le> c_left coords \<or> c_top coords < 0 \<or> height \<le> c_top coords then None else Some coords)"

definition draw_glyph :: "'a bitmap \<Rightarrow> u8 list \<Rightarrow> size2 \<Rightarrow> point \<Rightarrow> 'a \<Rightarrow> ('e, 'a bitmap) outcome" where
  "draw_glyph b glyph sz origin c =
     (let stride = usize_add (as_usize (sz_width sz)) 7 div 8 in
      case glyph_coords b (rect_from_pair origin sz) of
        None \<Rightarrow> Ok b
      | Some coords \<Rightarrow>
          let new_rect = rect_from_coordinates coords;
              width = as_usize (sz_width (r_size new_rect)); height = sz_height (r_size new_rect) in
          glyph_rows [0..<nat height] glyph width 0 stride
            (\<lambda>y x. point_new (isize_add (pt_x origin) (as_isize x)) (isize_add (pt_y origin) (int y))) c b)"

text \<open>The glyph turned clockwise, on a bitmap that is turned as well.\<close>

definition draw_glyph_cw :: "'a bitmap \<Rightarrow> u8 list \<Rightarrow> size2 \<Rightarrow> point \<Rightarrow> 'a \<Rightarrow> ('e, 'a bitmap) outcome" where
  "draw_glyph_cw b glyph sz origin c =
     (let stride = usize_add (as_usize (sz_width sz)) 7 div 8 in
      case glyph_coords b (rect_new (isize_sub (isize_sub (as_isize (bm_width b)) (pt_y origin)) (sz_height sz)) (pt_x origin) (sz_height sz) (sz_width sz)) of
        None \<Rightarrow> Ok b
      | Some coords \<Rightarrow>
          let new_rect = rect_from_coordinates coords;
              width = as_usize (sz_height (r_size new_rect)); height = sz_width (r_size new_rect) in
          glyph_rows [0..<nat height] glyph width 0 stride
            (\<lambda>i k. point_new (isize_sub (c_right coords) (int i)) (isize_add (c_top coords) (as_isize k))) c b)"


section \<open>Rounded shapes\<close>

text \<open>The radius that both shapes use: at most half the width and the height.\<close>

definition clip_radius :: "rect \<Rightarrow> int \<Rightarrow> int" where
  "clip_radius r radius =
     (let width = sz_width (r_size r); height = sz_height (r_size r);
          radius = (if width < isize_mul radius 2 then width sdiv 2 else radius) in
      if height < isize_mul radius 2 then height sdiv 2 else radius)"

text \<open>A step of the circle: the next \<open>cx\<close>, \<open>cy\<close> and \<open>f\<close>.\<close>

definition circle_step :: "int \<Rightarrow> int \<Rightarrow> int \<Rightarrow> int \<times> int \<times> int" where
  "circle_step cx cy f =
     (let (cx, f) = (if 0 \<le> f then (isize_sub cx 1, isize_sub f (isize_mul 4 (isize_sub cx 1))) else (cx, f));
          cy = isize_add cy 1 in
      (cx, cy, isize_add f (isize_add (isize_mul 4 cy) 2)))"

text \<open>Two lines for an offset from the corners, above and below.\<close>

definition round_lines :: "rect \<Rightarrow> int \<Rightarrow> int \<Rightarrow> 'a \<Rightarrow> 'a bitmap \<Rightarrow> ('e, 'a bitmap) outcome" where
  "round_lines r bx by' c b =
     (let width = sz_width (r_size r); dx = min_x r; dy = min_y r; qh = isize_sub (sz_height (r_size r)) 1;
          dw = isize_sub width (isize_mul bx 2) in
      and_then (draw_hline b (point_new (isize_add dx bx) (isize_add dy by')) dw c) (\<lambda>b.
      draw_hline b (point_new (isize_add dx bx) (isize_sub (isize_add dy qh) by')) dw c))"

partial_function (option) fill_round_loop :: "rect \<Rightarrow> int \<Rightarrow> 'a \<Rightarrow> int \<Rightarrow> int \<Rightarrow> int \<Rightarrow> 'a bitmap \<Rightarrow> ('e, 'a bitmap) outcome option" where
  "fill_round_loop r radius c cx cy f b =
     (if cy \<le> cx then
        (case and_then (round_lines r (isize_sub radius cy) (isize_sub radius cx) c b) (round_lines r (isize_sub radius cx) (isize_sub radius cy) c) of
           Ok b \<Rightarrow> (case circle_step cx cy f of (cx, cy, f) \<Rightarrow> fill_round_loop r radius c cx cy f b)
         | e \<Rightarrow> Some e)
      else Some (Ok b))"

definition fill_round_rect :: "'a bitmap \<Rightarrow> rect \<Rightarrow> int \<Rightarrow> 'a \<Rightarrow> ('e, 'a bitmap) outcome option" where
  "fill_round_rect b r radius c =
     (let width = sz_width (r_size r); height = sz_height (r_size r); radius = clip_radius r radius;
          lh = isize_sub height (isize_mul radius 2) in
      case (if 0 < lh then fill_rect b (rect_new (min_x r) (isize_add (min_y r) radius) width lh) c else Ok b) of
        Ok b \<Rightarrow> fill_round_loop r radius c radius 0 (isize_add (isize_mul (- 2) radius) 3) b
      | e \<Rightarrow> Some e)"

text \<open>Four points for an offset from the corners.\<close>

definition round_points :: "rect \<Rightarrow> int \<Rightarrow> int \<Rightarrow> point list" where
  "round_points r bx by' =
     (let width = sz_width (r_size r); dx = min_x r; dy = min_y r; qh = isize_sub (sz_height (r_size r)) 1;
          dw = isize_sub (isize_sub width (isize_mul bx 2)) 1;
          x1 = isize_add dx bx; x2 = isize_add (isize_add dx bx) dw; y1 = isize_add dy by'; y2 = isize_sub (isize_add dy qh) by' in
      [point_new x1 y1, point_new x1 y2, point_new x2 y1, point_new x2 y2])"

partial_function (option) draw_round_loop :: "rect \<Rightarrow> int \<Rightarrow> 'a \<Rightarrow> int \<Rightarrow> int \<Rightarrow> int \<Rightarrow> 'a bitmap \<Rightarrow> ('e, 'a bitmap) outcome option" where
  "draw_round_loop r radius c cx cy f b =
     (if cy \<le> cx then
        (case set_pixels b (round_points r (isize_sub radius cy) (isize_sub radius cx) @ round_points r (isize_sub radius cx) (isize_sub radius cy)) c of
           Ok b \<Rightarrow> (case circle_step cx cy f of (cx, cy, f) \<Rightarrow> draw_round_loop r radius c cx cy f b)
         | e \<Rightarrow> Some e)
      else Some (Ok b))"

definition draw_round_rect :: "'a bitmap \<Rightarrow> rect \<Rightarrow> int \<Rightarrow> 'a \<Rightarrow> ('e, 'a bitmap) outcome option" where
  "draw_round_rect b r radius c =
     (let width = sz_width (r_size r); height = sz_height (r_size r); dx = min_x r; dy = min_y r; radius = clip_radius r radius;
          lh = isize_sub height (isize_mul radius 2); lw = isize_sub width (isize_mul radius 2) in
      case and_then
          (if 0 < lh then
             and_then (draw_vline b (point_new dx (isize_add dy radius)) lh c) (\<lambda>b.
             draw_vline b (point_new (isize_sub (isize_add dx width) 1) (isize_add dy radius)) lh c)
           else Ok b) (\<lambda>b.
          if 0 < lw then
            and_then (draw_hline b (point_new (isize_add dx radius) dy) lw c) (\<lambda>b.
            draw_hline b (point_new (isize_add dx radius) (isize_sub (isize_add dy height) 1)) lw c)
          else Ok b) of
        Ok b \<Rightarrow> draw_round_loop r radius c radius 0 (isize_add (isize_mul (- 2) radius) 3) b
      | e \<Rightarrow> Some e)"

definition circle_rect :: "point \<Rightarrow> int \<Rightarrow> rect" where
  "circle_rect origin radius = rect_from_pair (point_sub_isize origin radius) (size_new (isize_mul radius 2) (isize_mul radius 2))"

definition draw_circle :: "'a bitmap \<Rightarrow> point \<Rightarrow> int \<Rightarrow> 'a \<Rightarrow> ('e, 'a bitmap) outcome option" where
  "draw_circle b origin radius c = draw_round_rect b (circle_rect origin radius) radius c"

definition fill_circle :: "'a bitmap \<Rightarrow> point \<Rightarrow> int \<Rightarrow> 'a \<Rightarrow> ('e, 'a bitmap) outcome option" where
  "fill_circle b origin radius c = fill_round_rect b (circle_rect origin radius) radius c"

end
