(* ===== verification/GlyphSafety.thy ===== *)
theory GlyphSafety
  imports Glyph
begin

text \<open>
  What glyphs and rounded shapes paint.  A glyph is drawn by setting the pixels of its bits, so the
  lemmas on \<open>set_pixels\<close> apply; the loop of the rounded shapes terminates and stays in the rectangle.
\<close>

section \<open>Glyphs\<close>

lemma set_pixels_append: "set_pixels b (ps @ qs) c = and_then (set_pixels b ps c) (\<lambda>b. set_pixels b qs c)"
  by (induction ps arbitrary: b) (auto simp: and_then_assoc)

lemma glyph_bits_pixels: "glyph_bits js data pt c = (\<lambda>b. set_pixels b (map pt (filter (\<lambda>j. data AND octet_mask j \<noteq> 0) js)) c)"
  by (induction js) (rule ext, simp)+

lemma upt_shift: "[k..<k + n] = map ((+) k) [0..<n]"
  by (intro nth_equalityI) simp_all

text \<open>The bit of a pixel of a glyph whose rows are \<open>stride\<close> octets apart.\<close>

definition glyph_bit :: "u8 list \<Rightarrow> nat \<Rightarrow> nat \<Rightarrow> bool" where
  "glyph_bit glyph cursor x \<longleftrightarrow> glyph ! (cursor + x div 8) AND octet_mask (x mod 8) \<noteq> 0"

lemma glyph_bytes_pixels:
  assumes "cursor + k + n \<le> length glyph" "length glyph < 2 ^ 63"
  shows "glyph_bytes [k..<k + n] glyph cursor pt c =
    (\<lambda>b. set_pixels b (map pt (filter (glyph_bit glyph cursor) [k * 8..<(k + n) * 8])) c)"
  using assms(1)
proof (induction n arbitrary: k)
  case (Suc n)
  have "[k..<k + Suc n] = k # [Suc k..<Suc k + n]" by (simp add: upt_conv_Cons)
  moreover have "usize_add cursor k = cursor + k" "cursor + k < length glyph" using Suc.prems assms(2) by (simp_all add: usize_add_def)
  moreover have "[k * 8..<(k + Suc n) * 8] = map (\<lambda>j. k * 8 + j) [0..<8] @ [Suc k * 8..<(Suc k + n) * 8]"
    using upt_add_eq_append [of "k * 8" "Suc k * 8" "n * 8"] upt_shift [of "k * 8" 8] by (simp add: algebra_simps)
  moreover have "filter (glyph_bit glyph cursor) (map (\<lambda>j. k * 8 + j) [0..<8]) = map (\<lambda>j. k * 8 + j) (filter (\<lambda>j. glyph ! (cursor + k) AND octet_mask j \<noteq> 0) [0..<8])"
    by (simp add: filter_map o_def) (intro arg_cong [of _ _ "map _"] filter_cong, auto simp: glyph_bit_def)
  ultimately show ?case using Suc.IH [of "Suc k"] Suc.prems
    by (intro ext) (simp add: slice_get_unchecked_def glyph_bits_pixels set_pixels_append o_def del: upt_Suc)
qed (simp add: fun_eq_iff)

lemma glyph_row_pixels:
  assumes "cursor + (w + 7) div 8 \<le> length glyph" "length glyph < 2 ^ 63"
  shows "(glyph_row glyph w cursor pt c b :: ('e, 'a bitmap) outcome) = set_pixels b (map pt (filter (glyph_bit glyph cursor) [0..<w])) c"
proof -
  let ?w8 = "w div 8" and ?w7 = "w mod 8"
  have "cursor + ?w8 \<le> length glyph" using assms by linarith
  then have bytes: "(glyph_bytes [0..<?w8] glyph cursor pt c b :: ('e, 'a bitmap) outcome) = set_pixels b (map pt (filter (glyph_bit glyph cursor) [0..<?w8 * 8])) c"
    using assms by (simp add: glyph_bytes_pixels [of cursor 0 ?w8 glyph, simplified])
  have upt: "[0..<w] = [0..<?w8 * 8] @ map (\<lambda>j. j + ?w8 * 8) [0..<?w7]"
    using upt_add_eq_append [of 0 "?w8 * 8" ?w7] by (simp add: map_add_upt)
  show ?thesis
  proof (cases "?w7 = 0")
    case True
    then show ?thesis using bytes upt by (simp add: glyph_row_def Let_def)
  next
    case False
    then have "(w + 7) div 8 = ?w8 + 1" by presburger
    then have i: "cursor + ?w8 < length glyph" "usize_add cursor ?w8 = cursor + ?w8" using assms by (simp_all add: usize_add_def)
    have "filter (glyph_bit glyph cursor) (map (\<lambda>j. j + ?w8 * 8) [0..<?w7]) = map (\<lambda>j. j + ?w8 * 8) (filter (\<lambda>j. glyph ! (cursor + ?w8) AND octet_mask j \<noteq> 0) [0..<?w7])"
      by (simp add: filter_map o_def) (intro arg_cong [of _ _ "map _"] filter_cong, auto simp: glyph_bit_def)
    then show ?thesis using False bytes i
      by (simp add: glyph_row_def Let_def upt set_pixels_append slice_get_unchecked_def glyph_bits_pixels o_def)
  qed
qed

lemma glyph_rows_pixels:
  assumes "length glyph < 2 ^ 63" "0 < n \<Longrightarrow> cursor + (n - 1) * stride + (w + 7) div 8 \<le> length glyph"
  shows "(glyph_rows [k..<k + n] glyph w cursor stride pt c :: 'a bitmap \<Rightarrow> ('e, 'a bitmap) outcome) =
    (\<lambda>b. set_pixels b (concat (map (\<lambda>i. map (pt (k + i)) (filter (glyph_bit glyph (cursor + i * stride)) [0..<w])) [0..<n])) c)"
  using assms(2)
proof (induction n arbitrary: k cursor)
  case (Suc n)
  have upt: "[k..<k + Suc n] = k # [Suc k..<Suc k + n]" "[0..<Suc n] = 0 # map Suc [0..<n]"
    by (simp_all add: upt_conv_Cons map_Suc_upt del: upt_Suc)
  have row: "(glyph_row glyph w cursor (pt k) c b :: ('e, 'a bitmap) outcome) = set_pixels b (map (pt k) (filter (glyph_bit glyph cursor) [0..<w])) c" for b
    using glyph_row_pixels [where 'e = 'e, OF _ assms(1), of cursor w "pt k" c b] Suc.prems by simp
  have rest: "glyph_rows [Suc k..<Suc k + n] glyph w (usize_add cursor stride) stride pt c = (\<lambda>b :: 'a bitmap. set_pixels b (concat (map (\<lambda>i. map (pt (Suc k + i)) (filter (glyph_bit glyph (cursor + stride + i * stride)) [0..<w])) [0..<n])) c :: ('e, 'a bitmap) outcome)"
  proof (cases "n = 0")
    case False
    then have split: "(n - 1) * stride + stride = n * stride" by (cases n) simp_all
    have "usize_add cursor stride = cursor + stride" using Suc.prems split assms(1) False by (intro usize_add_exact) auto
    moreover have "cursor + stride + (n - 1) * stride + (w + 7) div 8 \<le> length glyph" using Suc.prems split by auto
    ultimately show ?thesis using Suc.IH [of "cursor + stride" "Suc k"] by simp
  qed (simp add: fun_eq_iff)
  show ?case unfolding upt by (intro ext) (simp add: row rest [unfolded add_Suc] set_pixels_append o_def add.assoc del: upt_Suc)
qed (simp add: fun_eq_iff)

lemma glyph_rows_paint:
  assumes "bitmap_ok b" "length glyph < 2 ^ 63" "0 < n \<Longrightarrow> (n - 1) * stride + (w + 7) div 8 \<le> length glyph"
  shows "\<exists>b'. (glyph_rows [0..<n] glyph w 0 stride pt c b :: ('e, 'a bitmap) outcome) = Ok b' \<and>
    paints b (\<lambda>x y. \<exists>i<n. \<exists>j<w. glyph_bit glyph (i * stride) j \<and> pt i j = \<lparr>pt_x = x, pt_y = y\<rparr>) (\<lambda>_ _ _. c) b'"
proof -
  let ?ps = "concat (map (\<lambda>i. map (pt i) (filter (glyph_bit glyph (i * stride)) [0..<w])) [0..<n])"
  from set_pixels_paint [OF assms(1), of ?ps c] obtain b' where b': "(set_pixels b ?ps c :: ('e, 'a bitmap) outcome) = Ok b'"
    "paints b (\<lambda>x y. \<lparr>pt_x = x, pt_y = y\<rparr> \<in> set ?ps) (\<lambda>_ _ _. c) b'" by blast
  have mem: "p \<in> set ?ps \<longleftrightarrow> (\<exists>i<n. \<exists>j<w. glyph_bit glyph (i * stride) j \<and> pt i j = p)" for p by auto
  have "(glyph_rows [0..<n] glyph w 0 stride pt c b :: ('e, 'a bitmap) outcome) = Ok b'"
    using glyph_rows_pixels [where 'e = 'e, OF assms(2), of n 0 stride w 0 pt c] assms(3) b'(1) by simp
  moreover have "paints b (\<lambda>x y. \<exists>i<n. \<exists>j<w. glyph_bit glyph (i * stride) j \<and> pt i j = \<lparr>pt_x = x, pt_y = y\<rparr>) (\<lambda>_ _ _. c) b'"
    by (rule paints_cong [OF b'(2)]) (simp_all only: mem)
  ultimately show ?thesis by blast
qed

lemma as_isize_nat: "0 \<le> i \<Longrightarrow> i < 2 ^ 63 \<Longrightarrow> as_isize (nat i) = i"
  by (simp add: as_isize_exact nat_less_iff)

lemma bitmap_dims:
  assumes "bitmap_ok b"
  shows "as_isize (bm_width b) = sz_width (bm_size b)" "as_isize (bm_height b) = sz_height (bm_size b)"
  using assms by (simp_all add: bitmap_ok_def bm_width_def bm_height_def as_usize_nonneg as_isize_nat)

lemma glyph_coords_spec:
  assumes "bitmap_ok b" "small x" "small y" "small w" "small h" "0 \<le> w" "0 \<le> h"
  shows "glyph_coords b (rect_new x y w h) =
    (if w = 0 \<or> h = 0 \<or> \<not> in_bounds b x y then None
     else Some \<lparr>c_left = x, c_top = y, c_right = min (x + w) (sz_width (bm_size b)), c_bottom = min (y + h) (sz_height (bm_size b))\<rparr>)"
  using assms(2-) bitmap_dims [OF assms(1)] bitmap_ok_small [OF assms(1)]
  by (auto simp: glyph_coords_def coords_from_rect_def rect_new_def from_rect_unchecked_def isize_abs_def in_bounds_def Let_def
      small_iff isize_simps min_def)

text \<open>The pixels of a glyph that is drawn at a point.\<close>

definition in_glyph :: "u8 list \<Rightarrow> size2 \<Rightarrow> int \<Rightarrow> int \<Rightarrow> bool" where
  "in_glyph glyph sz x y \<longleftrightarrow> 0 \<le> x \<and> x < sz_width sz \<and> 0 \<le> y \<and> y < sz_height sz \<and>
     glyph_bit glyph (nat y * ((nat (sz_width sz) + 7) div 8)) (nat x)"

definition glyph_ok :: "u8 list \<Rightarrow> size2 \<Rightarrow> bool" where
  "glyph_ok glyph sz \<longleftrightarrow> 0 \<le> sz_width sz \<and> small (sz_width sz) \<and> 0 \<le> sz_height sz \<and> small (sz_height sz) \<and>
     length glyph < 2 ^ 63 \<and> nat (sz_height sz) * ((nat (sz_width sz) + 7) div 8) \<le> length glyph"

lemma glyph_stride: "glyph_ok glyph sz \<Longrightarrow> usize_add (as_usize (sz_width sz)) 7 div 8 = (nat (sz_width sz) + 7) div 8"
  by (subst usize_add_exact) (auto simp: glyph_ok_def small_iff as_usize_nonneg)

lemma glyph_clipped_rows:
  assumes "glyph_ok glyph sz" "w \<le> nat (sz_width sz)" "n \<le> nat (sz_height sz)" "0 < n"
  shows "(n - 1) * ((nat (sz_width sz) + 7) div 8) + (w + 7) div 8 \<le> length glyph"
proof -
  let ?s = "(nat (sz_width sz) + 7) div 8"
  have "(n - 1) * ?s + (w + 7) div 8 \<le> (n - 1) * ?s + ?s" using assms(2) by (intro add_mono div_le_mono) simp_all
  also have "\<dots> = n * ?s" using assms(4) by (cases n) simp_all
  also have "\<dots> \<le> nat (sz_height sz) * ?s" using assms(3) by simp
  finally show ?thesis using assms(1) by (simp add: glyph_ok_def)
qed

lemma glyph_ok_paint:
  assumes "bitmap_ok b" "glyph_ok glyph sz" "w \<le> nat (sz_width sz)" "n \<le> nat (sz_height sz)"
  shows "\<exists>b'. (glyph_rows [0..<n] glyph w 0 ((nat (sz_width sz) + 7) div 8) pt c b :: ('e, 'a bitmap) outcome) = Ok b' \<and>
    paints b (\<lambda>x y. \<exists>i<n. \<exists>j<w. glyph_bit glyph (i * ((nat (sz_width sz) + 7) div 8)) j \<and> pt i j = \<lparr>pt_x = x, pt_y = y\<rparr>) (\<lambda>_ _ _. c) b'"
  by (rule glyph_rows_paint [OF assms(1) _ glyph_clipped_rows [OF assms(2-4)]]) (use assms(2) in \<open>simp_all add: glyph_ok_def\<close>)

lemma draw_glyph_paints:
  assumes ok: "bitmap_ok b" "glyph_ok glyph sz" "small (pt_x p)" "small (pt_y p)"
  shows "\<exists>b'. (draw_glyph b glyph sz p c :: ('e, 'a bitmap) outcome) = Ok b' \<and>
    paints b (\<lambda>x y. in_bounds b (pt_x p) (pt_y p) \<and> in_glyph glyph sz (x - pt_x p) (y - pt_y p)) (\<lambda>_ _ _. c) b'"
proof -
  let ?W = "sz_width sz" and ?H = "sz_height sz"
  have g: "0 \<le> ?W" "small ?W" "0 \<le> ?H" "small ?H" using ok(2) by (simp_all add: glyph_ok_def)
  note coords = glyph_coords_spec [OF ok(1,3,4) g(2,4,1,3)]
  show ?thesis
  proof (cases "?W = 0 \<or> ?H = 0 \<or> \<not> in_bounds b (pt_x p) (pt_y p)")
    case True
    then have "draw_glyph b glyph sz p c = (Ok b :: ('e, 'a bitmap) outcome)"
      by (simp add: draw_glyph_def rect_from_pair_def coords)
    moreover have "paints b (\<lambda>x y. in_bounds b (pt_x p) (pt_y p) \<and> in_glyph glyph sz (x - pt_x p) (y - pt_y p)) (\<lambda>_ _ _. c) b"
      using True by (intro paints_refl) (auto simp: in_glyph_def)
    ultimately show ?thesis by blast
  next
    case False
    let ?w = "min (pt_x p + ?W) (sz_width (bm_size b)) - pt_x p" and ?h = "min (pt_y p + ?H) (sz_height (bm_size b)) - pt_y p"
    let ?pt = "\<lambda>y x. point_new (isize_add (pt_x p) (as_isize x)) (isize_add (pt_y p) (int y))"
    have inb: "0 \<le> pt_x p" "pt_x p < sz_width (bm_size b)" "0 \<le> pt_y p" "pt_y p < sz_height (bm_size b)"
      using False by (simp_all add: in_bounds_def)
    have draw: "draw_glyph b glyph sz p c = glyph_rows [0..<nat ?h] glyph (nat ?w) 0 ((nat ?W + 7) div 8) ?pt c b"
      unfolding draw_glyph_def Let_def rect_from_pair_def coords if_not_P [OF False] glyph_stride [OF ok(2)]
      using g inb bitmap_ok_small [OF ok(1)] by (simp add: rect_from_coordinates_def coords_size_def size_new_def small_iff isize_simps)
    have "nat ?w \<le> nat ?W" "nat ?h \<le> nat ?H" by (auto simp: min_def)
    from glyph_ok_paint [where 'e = 'e, OF ok(1,2) this, of ?pt c] obtain b' where
      b': "(glyph_rows [0..<nat ?h] glyph (nat ?w) 0 ((nat ?W + 7) div 8) ?pt c b :: ('e, 'a bitmap) outcome) = Ok b'"
      "paints b (\<lambda>x y. \<exists>i<nat ?h. \<exists>j<nat ?w. glyph_bit glyph (i * ((nat ?W + 7) div 8)) j \<and> ?pt i j = \<lparr>pt_x = x, pt_y = y\<rparr>) (\<lambda>_ _ _. c) b'"
      by blast
    have pt: "?pt i j = \<lparr>pt_x = x, pt_y = y\<rparr> \<longleftrightarrow> x = pt_x p + int j \<and> y = pt_y p + int i" if "i < nat ?h" "j < nat ?w" for i j x y
      using that inb g bitmap_ok_small [OF ok(1)] by (auto simp: point_new_def small_iff isize_simps)
    have "paints b (\<lambda>x y. in_bounds b (pt_x p) (pt_y p) \<and> in_glyph glyph sz (x - pt_x p) (y - pt_y p)) (\<lambda>_ _ _. c) b'"
    proof (rule paints_cong [OF b'(2)])
      fix x y assume xy: "in_bounds b x y"
      show "(\<exists>i<nat ?h. \<exists>j<nat ?w. glyph_bit glyph (i * ((nat ?W + 7) div 8)) j \<and> ?pt i j = \<lparr>pt_x = x, pt_y = y\<rparr>) \<longleftrightarrow>
        in_bounds b (pt_x p) (pt_y p) \<and> in_glyph glyph sz (x - pt_x p) (y - pt_y p)" (is "?L \<longleftrightarrow> ?R")
      proof
        assume ?L
        then show ?R using pt False by (fastforce simp: in_glyph_def)
      next
        assume ?R
        with xy pt [of "nat (y - pt_y p)" "nat (x - pt_x p)" x y] show ?L
          by (intro exI [of _ "nat (y - pt_y p)"] conjI exI [of _ "nat (x - pt_x p)"]) (auto simp: in_glyph_def in_bounds_def)
      qed
    qed simp
    then show ?thesis unfolding draw using b'(1) by blast
  qed
qed

text \<open>
  The glyph that is turned clockwise is one column to the right of the place of the turned rectangle: the
  column of row \<open>i\<close> is \<open>right - i\<close>, where \<open>right\<close> is the first column after the rectangle.
\<close>

lemma draw_glyph_cw_paints:
  assumes ok: "bitmap_ok b" "glyph_ok glyph sz" "small (pt_x p)" "small (pt_y p)" "0 \<le> pt_y p"
    and inb: "in_bounds b (sz_width (bm_size b) - pt_y p - sz_height sz) (pt_x p)"
  shows "\<exists>b'. (draw_glyph_cw b glyph sz p c :: ('e, 'a bitmap) outcome) = Ok b' \<and>
    paints b (\<lambda>x y. in_glyph glyph sz (y - pt_x p) (sz_width (bm_size b) - pt_y p - x)) (\<lambda>_ _ _. c) b'"
proof -
  let ?W = "sz_width sz" and ?H = "sz_height sz" and ?R = "sz_width (bm_size b) - pt_y p"
  let ?s = "(nat ?W + 7) div 8"
  have g: "0 \<le> ?W" "small ?W" "0 \<le> ?H" "small ?H" using ok(2) by (simp_all add: glyph_ok_def)
  have i: "0 \<le> ?R - ?H" "0 \<le> pt_x p" "pt_x p < sz_height (bm_size b)" using inb by (simp_all add: in_bounds_def)
  have left: "isize_sub (isize_sub (as_isize (bm_width b)) (pt_y p)) ?H = ?R - ?H" "small (?R - ?H)"
    using ok(4,5) g i bitmap_ok_small [OF ok(1)] by (simp_all add: bitmap_dims [OF ok(1)] small_iff isize_simps)
  note coords = glyph_coords_spec [OF ok(1) left(2) ok(3) g(4,2,3,1)]
  show ?thesis
  proof (cases "?H = 0 \<or> ?W = 0")
    case True
    then have "draw_glyph_cw b glyph sz p c = (Ok b :: ('e, 'a bitmap) outcome)" by (auto simp: draw_glyph_cw_def left(1) coords)
    moreover have "paints b (\<lambda>x y. in_glyph glyph sz (y - pt_x p) (?R - x)) (\<lambda>_ _ _. c) b"
      using True by (intro paints_refl) (auto simp: in_glyph_def)
    ultimately show ?thesis by blast
  next
    case False
    let ?w = "min (pt_x p + ?W) (sz_height (bm_size b)) - pt_x p"
    let ?pt = "\<lambda>i k. point_new (isize_sub ?R (int i)) (isize_add (pt_x p) (as_isize k))"
    have cond: "\<not> (?H = 0 \<or> ?W = 0 \<or> \<not> in_bounds b (?R - ?H) (pt_x p))" using False inb by simp
    have draw: "draw_glyph_cw b glyph sz p c = glyph_rows [0..<nat ?H] glyph (nat ?w) 0 ?s ?pt c b"
      unfolding draw_glyph_cw_def Let_def left(1) coords if_not_P [OF cond] glyph_stride [OF ok(2)]
      using g i ok(4,5) bitmap_ok_small [OF ok(1)]
      by (simp add: rect_from_coordinates_def coords_size_def size_new_def small_iff isize_simps)
    have "nat ?w \<le> nat ?W" by (auto simp: min_def)
    from glyph_ok_paint [where 'e = 'e, OF ok(1,2) this order_refl, of ?pt c] obtain b' where
      b': "(glyph_rows [0..<nat ?H] glyph (nat ?w) 0 ?s ?pt c b :: ('e, 'a bitmap) outcome) = Ok b'"
      "paints b (\<lambda>x y. \<exists>i<nat ?H. \<exists>j<nat ?w. glyph_bit glyph (i * ?s) j \<and> ?pt i j = \<lparr>pt_x = x, pt_y = y\<rparr>) (\<lambda>_ _ _. c) b'"
      by blast
    have pt: "?pt i j = \<lparr>pt_x = x, pt_y = y\<rparr> \<longleftrightarrow> x = ?R - int i \<and> y = pt_x p + int j" if "i < nat ?H" "j < nat ?w" for i j x y
      using that i ok(4,5) g bitmap_ok_small [OF ok(1)] by (auto simp: point_new_def small_iff isize_simps)
    have "paints b (\<lambda>x y. in_glyph glyph sz (y - pt_x p) (?R - x)) (\<lambda>_ _ _. c) b'"
    proof (rule paints_cong [OF b'(2)])
      fix x y assume xy: "in_bounds b x y"
      show "(\<exists>i<nat ?H. \<exists>j<nat ?w. glyph_bit glyph (i * ?s) j \<and> ?pt i j = \<lparr>pt_x = x, pt_y = y\<rparr>) \<longleftrightarrow>
        in_glyph glyph sz (y - pt_x p) (?R - x)" (is "?L \<longleftrightarrow> ?G")
      proof
        assume ?L
        then show ?G using pt by (fastforce simp: in_glyph_def)
      next
        assume ?G
        with xy pt [of "nat (?R - x)" "nat (y - pt_x p)" x y] show ?L
          by (intro exI [of _ "nat (?R - x)"] conjI exI [of _ "nat (y - pt_x p)"]) (auto simp: in_glyph_def in_bounds_def)
      qed
    qed simp
    then show ?thesis unfolding draw using b'(1) by blast
  qed
qed

section \<open>The properties\<close>

text \<open>
  Drawing a glyph.  When the glyph has all the octets of its size, \<open>draw_glyph\<close> reads none
  past the end and paints exactly the pixels in the bounds whose bit is set, where the origin is in the
  bounds; for an origin outside it paints nothing.
\<close>

theorem draw_glyph_spec:
  assumes "bitmap_ok b" "glyph_ok glyph sz" "small (pt_x p)" "small (pt_y p)"
  shows "\<exists>b'. draw_glyph b glyph sz p c = Ok b' \<and> bitmap_ok b' \<and>
    paints b (\<lambda>x y. in_bounds b (pt_x p) (pt_y p) \<and> in_glyph glyph sz (x - pt_x p) (y - pt_y p)) (\<lambda>_ _ _. c) b'"
  using draw_glyph_paints [OF assms, of c] paints_ok assms(1) by blast

theorem draw_glyph_spec_witness:
  "\<exists>b'. (draw_glyph bm_2x2 [0x40, 0x80] (size_new 2 2) (point_new 0 1) 9 :: (unit, nat bitmap) outcome) = Ok b' \<and>
    bm_px b' 1 1 = 9 \<and> bm_px b' 0 0 = 7"
proof -
  let ?g = "[0x40, 0x80] :: u8 list" and ?s = "size_new 2 2" and ?p = "point_new 0 1"
  have ok: "glyph_ok ?g ?s" "small (pt_x ?p)" "small (pt_y ?p)" by (simp_all add: glyph_ok_def size_new_def point_new_def small_iff)
  from draw_glyph_spec [OF bm_2x2_ok ok, of 9] obtain b' where
    b': "(draw_glyph bm_2x2 ?g ?s ?p 9 :: (unit, nat bitmap) outcome) = Ok b'"
    "paints bm_2x2 (\<lambda>x y. in_bounds bm_2x2 (pt_x ?p) (pt_y ?p) \<and> in_glyph ?g ?s (x - pt_x ?p) (y - pt_y ?p)) (\<lambda>_ _ _. 9) b'" by blast
  have "glyph_bit ?g 0 1" by (simp add: glyph_bit_def octet_mask_def)
  then have "bm_px b' 1 1 = 9" "bm_px b' 0 0 = 7" using paints_px [OF b'(2), of 1 1] paints_px [OF b'(2), of 0 0]
    by (simp_all add: in_bounds_def in_glyph_def point_new_def size_new_def)
  with b'(1) show ?thesis by blast
qed

text \<open>
  A glyph of one pixel in the corner of a turned screen is not drawn at all: its column is the
  width of the bitmap.
\<close>

lemma draw_glyph_cw_loses_pixel:
  "\<exists>b'. (draw_glyph_cw bm_2x2 [0x80] (size_new 1 1) (point_new 0 0) 9 :: (unit, nat bitmap) outcome) = Ok b' \<and>
    paints bm_2x2 (\<lambda>_ _. False) (\<lambda>_ _ _. 9) b'"
proof -
  let ?g = "[0x80] :: u8 list" and ?s = "size_new 1 1" and ?p = "point_new 0 0"
  have ok: "glyph_ok ?g ?s" "small (pt_x ?p)" "small (pt_y ?p)" "0 \<le> pt_y ?p"
    "in_bounds bm_2x2 (sz_width (bm_size bm_2x2) - pt_y ?p - sz_height ?s) (pt_x ?p)"
    by (simp_all add: glyph_ok_def size_new_def point_new_def small_iff in_bounds_def)
  from draw_glyph_cw_paints [OF bm_2x2_ok ok, of 9] obtain b' where
    b': "(draw_glyph_cw bm_2x2 ?g ?s ?p 9 :: (unit, nat bitmap) outcome) = Ok b'"
    "paints bm_2x2 (\<lambda>x y. in_glyph ?g ?s (y - pt_x ?p) (sz_width (bm_size bm_2x2) - pt_y ?p - x)) (\<lambda>_ _ _. 9) b'" by blast
  have "paints bm_2x2 (\<lambda>_ _. False) (\<lambda>_ _ _. 9) b'"
    by (rule paints_cong [OF b'(2)]) (auto simp: in_glyph_def in_bounds_def size_new_def point_new_def)
  with b'(1) show ?thesis by blast
qed

end
