(* ===== verification/RoundSafety.thy ===== *)
theory RoundSafety
  imports GlyphSafety
begin

text \<open>
  Rounded rectangles and circles terminate and stay inside the rectangle.  Both loops walk an eighth of a
  circle with the same step, so they are two instances of the locale \<open>round_loop\<close>.
\<close>

section \<open>Painting inside a region\<close>

definition paints_within :: "'a bitmap \<Rightarrow> (int \<Rightarrow> int \<Rightarrow> bool) \<Rightarrow> 'a \<Rightarrow> 'a bitmap \<Rightarrow> bool" where
  "paints_within b R c b' \<longleftrightarrow> (\<exists>S. paints b S (\<lambda>_ _ _. c) b' \<and> (\<forall>x y. S x y \<longrightarrow> R x y))"

lemma paints_withinI: "paints b S (\<lambda>_ _ _. c) b' \<Longrightarrow> (\<And>x y. S x y \<Longrightarrow> R x y) \<Longrightarrow> paints_within b R c b'"
  by (auto simp: paints_within_def)

lemma paints_within_refl: "paints_within b R c b"
  by (rule paints_withinI [of _ "\<lambda>_ _. False"]) (simp_all add: paints_refl)

lemma paints_within_trans:
  assumes "paints_within b R c b1" "paints_within b1 R c b2"
  shows "paints_within b R c b2"
proof -
  from assms obtain S S' where S: "paints b S (\<lambda>_ _ _. c) b1" "\<forall>x y. S x y \<longrightarrow> R x y"
    "paints b1 S' (\<lambda>_ _ _. c) b2" "\<forall>x y. S' x y \<longrightarrow> R x y" unfolding paints_within_def by blast
  show ?thesis by (rule paints_withinI [OF paints_trans [OF S(1,3)]]) (use S(2,4) in auto)
qed

lemma paints_within_ok: "paints_within b R c b' \<Longrightarrow> bitmap_ok b \<Longrightarrow> bitmap_ok b'"
  by (auto simp: paints_within_def dest: paints_ok)

text \<open>Two operations one after the other.\<close>

lemma within_and_then:
  assumes "bitmap_ok b" "\<exists>b'. f b = (Ok b' :: ('e, 'a bitmap) outcome) \<and> paints_within b R c b'"
    and "\<And>b. bitmap_ok b \<Longrightarrow> \<exists>b'. g b = (Ok b' :: ('e, 'a bitmap) outcome) \<and> paints_within b R c b'"
  shows "\<exists>b'. and_then (f b) g = Ok b' \<and> paints_within b R c b'"
proof -
  from assms(2) obtain b1 where b1: "f b = Ok b1" "paints_within b R c b1" by blast
  from assms(3) [OF paints_within_ok [OF b1(2) assms(1)]] obtain b2 where "g b1 = Ok b2" "paints_within b1 R c b2" by blast
  then show ?thesis using b1 paints_within_trans [OF b1(2), of b2] by simp
qed

section \<open>The loop\<close>

locale round_loop =
  fixes loop :: "int \<Rightarrow> int \<Rightarrow> int \<Rightarrow> 'a bitmap \<Rightarrow> ('e, 'a bitmap) outcome option"
    and body :: "int \<Rightarrow> int \<Rightarrow> 'a bitmap \<Rightarrow> ('e, 'a bitmap) outcome"
    and ok :: bool and radius :: int and R :: "int \<Rightarrow> int \<Rightarrow> bool" and c :: 'a
  assumes loop: "loop cx cy f b =
      (if cy \<le> cx then
         (case body cx cy b of Ok b \<Rightarrow> (case circle_step cx cy f of (cx, cy, f) \<Rightarrow> loop cx cy f b) | e \<Rightarrow> Some e)
       else Some (Ok b))"
    and body: "ok \<Longrightarrow> bitmap_ok b \<Longrightarrow> 0 \<le> cy \<Longrightarrow> cy \<le> cx \<Longrightarrow> cx \<le> radius \<Longrightarrow> \<exists>b'. body cx cy b = Ok b' \<and> paints_within b R c b'"
    and radius: "ok \<Longrightarrow> small radius"
begin

lemma step_in_range:
  assumes ok "0 \<le> cy" "cy \<le> cx" "cx \<le> radius" "circle_step cx cy f = (cx', cy', f')"
  shows "cy' = cy + 1" "cx' = cx \<or> cx' = cx - 1"
  using assms radius by (auto simp: circle_step_def Let_def small_iff isize_simps split: if_splits)

lemma loop_within:
  assumes ok "bitmap_ok b" "0 \<le> cy" "cx \<le> radius"
  shows "\<exists>b'. loop cx cy f b = Some (Ok b') \<and> paints_within b R c b'"
  using assms(2-)
proof (induction "nat (cx - cy + 1)" arbitrary: cx cy f b rule: less_induct)
  case less
  show ?case
  proof (cases "cy \<le> cx")
    case True
    from body [OF assms(1) less.prems(1,2) True less.prems(3)] obtain b1 where b1: "body cx cy b = Ok b1" "paints_within b R c b1" by blast
    obtain cx' cy' f' where step: "circle_step cx cy f = (cx', cy', f')" by (metis prod_cases3)
    note s = step_in_range [OF assms(1) less.prems(2) True less.prems(3) step]
    have "\<exists>b'. loop cx' cy' f' b1 = Some (Ok b') \<and> paints_within b1 R c b'"
      by (rule less.hyps) (use s less.prems True paints_within_ok [OF b1(2)] in auto)
    then obtain b2 where b2: "loop cx' cy' f' b1 = Some (Ok b2)" "paints_within b1 R c b2" by blast
    show ?thesis using b2(1) paints_within_trans [OF b1(2) b2(2)] by (subst loop) (simp add: True b1(1) step)
  next
    case False
    then show ?thesis by (subst loop) (simp add: paints_within_refl)
  qed
qed

end

text \<open>A rectangle that is not empty, and a radius of at most half its sides.\<close>

definition round_ok :: "rect \<Rightarrow> int \<Rightarrow> bool" where
  "round_ok r radius \<longleftrightarrow> rect_small r \<and> small (min_x r + sz_width (r_size r)) \<and> small (min_y r + sz_height (r_size r)) \<and> 0 < sz_width (r_size r) \<and> 0 < sz_height (r_size r) \<and>
     0 \<le> radius \<and> 2 * radius \<le> sz_width (r_size r) \<and> 2 * radius \<le> sz_height (r_size r)"

lemma clip_radius_ok:
  assumes "rect_small r" "small (min_x r + sz_width (r_size r))" "small (min_y r + sz_height (r_size r))" "0 < sz_width (r_size r)" "0 < sz_height (r_size r)" "0 \<le> radius" "small radius"
  shows "round_ok r (clip_radius r radius)"
proof -
  have "x sdiv 2 = x div 2" if "0 < x" for x :: int using that by (simp add: signed_divide_int_def)
  with assms show ?thesis
    by (auto simp: round_ok_def clip_radius_def rect_small_def small_iff Let_def isize_mul_exact)
qed

text \<open>Coordinates between the edges of the rectangle.\<close>

lemma round_small:
  assumes "round_ok r radius" "min_x r \<le> x" "x \<le> min_x r + sz_width (r_size r)" "min_y r \<le> y" "y \<le> min_y r + sz_height (r_size r)"
  shows "small x" "small y"
  using assms by (auto simp: round_ok_def rect_small_def small_iff)

lemma hline_within:
  assumes "round_ok r radius" "bitmap_ok b" "min_x r \<le> x" "x + w \<le> min_x r + sz_width (r_size r)" "0 \<le> w"
    "min_y r \<le> y" "y < min_y r + sz_height (r_size r)"
  shows "\<exists>b'. (draw_hline b (point_new x y) w c :: ('e, 'a bitmap) outcome) = Ok b' \<and> paints_within b (in_rect r) c b'"
proof -
  have "small x" "small y" using assms round_small [OF assms(1), of x y] by simp_all
  moreover have "small w" using assms by (simp add: round_ok_def rect_small_def small_iff)
  ultimately obtain b' where "(draw_hline b (point_new x y) w c :: ('e, 'a bitmap) outcome) = Ok b'"
    "paints b (\<lambda>x' y'. y' = y \<and> x \<le> x' \<and> x' < x + w) (\<lambda>_ _ _. c) b'"
    using draw_hline_paints [OF assms(2), of "point_new x y" w c] by (auto simp: point_new_def)
  then show ?thesis using assms by (auto simp: in_rect_def intro!: paints_withinI)
qed

lemma vline_within:
  assumes "round_ok r radius" "bitmap_ok b" "min_y r \<le> y" "y + h \<le> min_y r + sz_height (r_size r)" "0 \<le> h"
    "min_x r \<le> x" "x < min_x r + sz_width (r_size r)"
  shows "\<exists>b'. (draw_vline b (point_new x y) h c :: ('e, 'a bitmap) outcome) = Ok b' \<and> paints_within b (in_rect r) c b'"
proof -
  have "small x" "small y" using assms round_small [OF assms(1), of x y] by simp_all
  moreover have "small h" using assms by (simp add: round_ok_def rect_small_def small_iff)
  ultimately obtain b' where "(draw_vline b (point_new x y) h c :: ('e, 'a bitmap) outcome) = Ok b'"
    "paints b (\<lambda>x' y'. x' = x \<and> y \<le> y' \<and> y' < y + h \<and> (y + h < sz_height (bm_size b) \<or> y' < sz_height (bm_size b) - 1)) (\<lambda>_ _ _. c) b'"
    using draw_vline_paints [OF assms(2), of "point_new x y" h c] by (auto simp: point_new_def)
  then show ?thesis using assms by (auto simp: in_rect_def intro!: paints_withinI)
qed

lemma round_lines_within:
  assumes "round_ok r radius" "bitmap_ok b" "0 \<le> bx" "bx \<le> radius" "0 \<le> by'" "by' \<le> radius"
  shows "\<exists>b'. (round_lines r bx by' c b :: ('e, 'a bitmap) outcome) = Ok b' \<and> paints_within b (in_rect r) c b'"
proof -
  let ?w = "sz_width (r_size r)" and ?h = "sz_height (r_size r)"
  note b = assms(1) [unfolded round_ok_def rect_small_def small_iff]
  have e: "isize_sub ?w (isize_mul bx 2) = ?w - 2 * bx" "isize_add (min_x r) bx = min_x r + bx" "isize_add (min_y r) by' = min_y r + by'"
    "isize_sub (isize_add (min_y r) (isize_sub ?h 1)) by' = min_y r + ?h - 1 - by'"
    using b assms(3-) by (simp_all add: isize_mul_exact isize_simps)
  show ?thesis unfolding round_lines_def Let_def e
    by (rule within_and_then [OF assms(2)]; rule hline_within [OF assms(1)]) (use b assms(2-) in auto)
qed

lemma round_points_within:
  assumes "round_ok r radius" "0 \<le> bx" "bx \<le> radius" "0 \<le> by'" "by' \<le> radius" "p \<in> set (round_points r bx by')"
  shows "in_rect r (pt_x p) (pt_y p)"
proof -
  let ?w = "sz_width (r_size r)" and ?h = "sz_height (r_size r)"
  note b = assms(1) [unfolded round_ok_def rect_small_def small_iff]
  have e: "isize_sub (isize_sub ?w (isize_mul bx 2)) 1 = ?w - 2 * bx - 1" "isize_add (min_x r) bx = min_x r + bx"
    "isize_add (min_y r) by' = min_y r + by'" "isize_sub (isize_add (min_y r) (isize_sub ?h 1)) by' = min_y r + ?h - 1 - by'"
    "isize_add (min_x r + bx) (?w - 2 * bx - 1) = min_x r + ?w - bx - 1"
    using b assms(2-5) by (simp_all add: isize_mul_exact isize_simps)
  show ?thesis using b assms(2-) unfolding round_points_def Let_def e by (auto simp: in_rect_def point_new_def)
qed

interpretation fill_round: round_loop "fill_round_loop r radius c"
    "\<lambda>cx cy b. and_then (round_lines r (isize_sub radius cy) (isize_sub radius cx) c b) (round_lines r (isize_sub radius cx) (isize_sub radius cy) c)"
    "round_ok r radius" radius "in_rect r" c
  for r :: rect and radius :: int and c :: 'a
proof (unfold_locales, goal_cases)
  case (2 b cy cx)
  then have "isize_sub radius cx = radius - cx" "isize_sub radius cy = radius - cy"
    by (auto simp: round_ok_def rect_small_def small_iff isize_simps)
  with 2 show ?case by (auto intro!: within_and_then round_lines_within [of r radius])
qed (auto simp: fill_round_loop.simps round_ok_def rect_small_def small_iff split: outcome.splits prod.splits)

interpretation draw_round: round_loop "draw_round_loop r radius c :: int \<Rightarrow> int \<Rightarrow> int \<Rightarrow> 'a bitmap \<Rightarrow> ('e, 'a bitmap) outcome option"
    "\<lambda>cx cy b. set_pixels b (round_points r (isize_sub radius cy) (isize_sub radius cx) @ round_points r (isize_sub radius cx) (isize_sub radius cy)) c"
    "round_ok r radius" radius "in_rect r" c
  for r :: rect and radius :: int and c :: 'a
proof (unfold_locales, goal_cases)
  case (2 b cy cx)
  let ?ps = "round_points r (isize_sub radius cy) (isize_sub radius cx) @ round_points r (isize_sub radius cx) (isize_sub radius cy)"
  have s: "isize_sub radius cx = radius - cx" "isize_sub radius cy = radius - cy"
    using 2 by (auto simp: round_ok_def rect_small_def small_iff isize_simps)
  have "in_rect r (pt_x p) (pt_y p)" if "p \<in> set ?ps" for p
    using that 2 unfolding s by (auto dest: round_points_within [OF 2(1), rotated -1])
  then have within: "\<lparr>pt_x = x, pt_y = y\<rparr> \<in> set ?ps \<Longrightarrow> in_rect r x y" for x y by fastforce
  from set_pixels_paint [OF 2(2), of ?ps c] obtain b' where b': "set_pixels b ?ps c = (Ok b' :: ('e, 'a bitmap) outcome)"
    "paints b (\<lambda>x y. \<lparr>pt_x = x, pt_y = y\<rparr> \<in> set ?ps) (\<lambda>_ _ _. c) b'" by blast
  have "paints_within b (in_rect r) c b'" by (rule paints_withinI [OF b'(2)]) (rule within)
  with b'(1) show ?case by blast
qed (auto simp: draw_round_loop.simps round_ok_def rect_small_def small_iff split: outcome.splits prod.splits)

section \<open>Rounded rectangles\<close>

text \<open>The rows between the corners.\<close>

definition in_middle :: "rect \<Rightarrow> int \<Rightarrow> int \<Rightarrow> int \<Rightarrow> bool" where
  "in_middle r radius x y \<longleftrightarrow> in_rect r x y \<and> min_y r + radius \<le> y \<and> y < min_y r + sz_height (r_size r) - radius"

lemma fill_round_rect_paints:
  assumes "bitmap_ok b" "round_ok r (clip_radius r radius)"
  shows "\<exists>b' S. (fill_round_rect b r radius c :: ('e, 'a bitmap) outcome option) = Some (Ok b') \<and> paints b S (\<lambda>_ _ _. c) b' \<and>
    (\<forall>x y. S x y \<longrightarrow> in_rect r x y) \<and> (\<forall>x y. in_middle r (clip_radius r radius) x y \<longrightarrow> S x y)"
proof -
  let ?rad = "clip_radius r radius" and ?h = "sz_height (r_size r)"
  let ?mid = "rect_new (min_x r) (isize_add (min_y r) ?rad) (sz_width (r_size r)) (isize_sub ?h (isize_mul ?rad 2))"
  note b = assms(2) [unfolded round_ok_def rect_small_def small_iff]
  have e: "isize_sub ?h (isize_mul ?rad 2) = ?h - 2 * ?rad" "isize_add (min_y r) ?rad = min_y r + ?rad" using b by (simp_all add: isize_mul_exact isize_simps)
  have mid: "rect_small ?mid" "in_rect ?mid x y \<longleftrightarrow> in_middle r ?rad x y" for x y
    using b unfolding e by (auto simp: rect_small_def rect_new_def min_x_def min_y_def small_iff isize_abs_def in_rect_def in_middle_def)
  have "\<exists>b1. ((if 0 < ?h - 2 * ?rad then fill_rect b ?mid c else Ok b) :: ('e, 'a bitmap) outcome) = Ok b1 \<and>
    paints b (in_middle r ?rad) (\<lambda>_ _ _. c) b1"
  proof (cases "0 < ?h - 2 * ?rad")
    case True
    with fill_rect_paints [OF assms(1) mid(1), of c] show ?thesis unfolding mid(2) [abs_def] by simp
  next
    case False
    then have "paints b (in_middle r ?rad) (\<lambda>_ _ _. c) b" by (intro paints_refl) (auto simp: in_middle_def)
    with False show ?thesis by auto
  qed
  then obtain b1 where b1: "((if 0 < ?h - 2 * ?rad then fill_rect b ?mid c else Ok b) :: ('e, 'a bitmap) outcome) = Ok b1"
    "paints b (in_middle r ?rad) (\<lambda>_ _ _. c) b1" by blast
  from fill_round.loop_within [OF assms(2) paints_ok [OF b1(2) assms(1)] order_refl order_refl] obtain b2 where
    b2: "(fill_round_loop r ?rad c ?rad 0 (isize_add (isize_mul (- 2) ?rad) 3) b1 :: ('e, 'a bitmap) outcome option) = Some (Ok b2)"
    "paints_within b1 (in_rect r) c b2" by blast
  from b2(2) obtain S where S: "paints b1 S (\<lambda>_ _ _. c) b2" "\<And>x y. S x y \<Longrightarrow> in_rect r x y" by (auto simp: paints_within_def)
  have "fill_round_rect b r radius c = (Some (Ok b2) :: ('e, 'a bitmap) outcome option)"
    using b1(1) b2(1) by (simp add: fill_round_rect_def Let_def e)
  with paints_trans [OF b1(2) S(1)] S(2) show ?thesis by (intro exI conjI) (auto simp: in_middle_def)
qed

lemma draw_round_rect_paints:
  assumes "bitmap_ok b" "round_ok r (clip_radius r radius)"
  shows "\<exists>b'. (draw_round_rect b r radius c :: ('e, 'a bitmap) outcome option) = Some (Ok b') \<and> paints_within b (in_rect r) c b'"
proof -
  let ?rad = "clip_radius r radius" and ?w = "sz_width (r_size r)" and ?h = "sz_height (r_size r)"
  note b = assms(2) [unfolded round_ok_def rect_small_def small_iff]
  have e: "isize_sub ?h (isize_mul ?rad 2) = ?h - 2 * ?rad" "isize_sub ?w (isize_mul ?rad 2) = ?w - 2 * ?rad"
    "isize_add (min_y r) ?rad = min_y r + ?rad" "isize_add (min_x r) ?rad = min_x r + ?rad"
    "isize_sub (isize_add (min_x r) ?w) 1 = min_x r + ?w - 1" "isize_sub (isize_add (min_y r) ?h) 1 = min_y r + ?h - 1"
    using b by (simp_all add: isize_mul_exact isize_simps)
  note hv = hline_within [OF assms(2), where 'e = 'e] vline_within [OF assms(2), where 'e = 'e]
  have "\<exists>b1. (and_then (if 0 < ?h - 2 * ?rad then and_then (draw_vline b (point_new (min_x r) (min_y r + ?rad)) (?h - 2 * ?rad) c)
        (\<lambda>b. draw_vline b (point_new (min_x r + ?w - 1) (min_y r + ?rad)) (?h - 2 * ?rad) c) else Ok b)
      (\<lambda>b. if 0 < ?w - 2 * ?rad then and_then (draw_hline b (point_new (min_x r + ?rad) (min_y r)) (?w - 2 * ?rad) c)
        (\<lambda>b. draw_hline b (point_new (min_x r + ?rad) (min_y r + ?h - 1)) (?w - 2 * ?rad) c) else Ok b) :: ('e, 'a bitmap) outcome) = Ok b1 \<and>
    paints_within b (in_rect r) c b1"
    using b assms(1) by (intro within_and_then) (auto intro!: within_and_then hv simp: paints_within_refl)
  then obtain b1 where b1: "(and_then (if 0 < ?h - 2 * ?rad then and_then (draw_vline b (point_new (min_x r) (min_y r + ?rad)) (?h - 2 * ?rad) c)
        (\<lambda>b. draw_vline b (point_new (min_x r + ?w - 1) (min_y r + ?rad)) (?h - 2 * ?rad) c) else Ok b)
      (\<lambda>b. if 0 < ?w - 2 * ?rad then and_then (draw_hline b (point_new (min_x r + ?rad) (min_y r)) (?w - 2 * ?rad) c)
        (\<lambda>b. draw_hline b (point_new (min_x r + ?rad) (min_y r + ?h - 1)) (?w - 2 * ?rad) c) else Ok b) :: ('e, 'a bitmap) outcome) = Ok b1"
    "paints_within b (in_rect r) c b1" by blast
  from draw_round.loop_within [OF assms(2) paints_within_ok [OF b1(2) assms(1)] order_refl order_refl] obtain b2 where
    b2: "(draw_round_loop r ?rad c ?rad 0 (isize_add (isize_mul (- 2) ?rad) 3) b1 :: ('e, 'a bitmap) outcome option) = Some (Ok b2)"
    "paints_within b1 (in_rect r) c b2" by blast
  have "draw_round_rect b r radius c = (Some (Ok b2) :: ('e, 'a bitmap) outcome option)"
    unfolding draw_round_rect_def Let_def e b1(1) outcome.case by (rule b2(1))
  then show ?thesis using paints_within_trans [OF b1(2) b2(2)] by blast
qed

section \<open>The properties\<close>

text \<open>
  C13: rounded rectangles end and stay inside.  On a bitmap of 16 or 32 bits per pixel, for a rectangle that
  is not empty and every radius that is not negative, the loops of \<open>fill_round_rect\<close> and \<open>draw_round_rect\<close> end, and only pixels of the
  rectangle change; \<open>fill_round_rect\<close> fills all the rows between the corners.
\<close>

theorem round_rect_ends_inside:
  fixes b :: "'a bitmap"
  assumes "bitmap_ok b" "rect_small r" "small (min_x r + sz_width (r_size r))" "small (min_y r + sz_height (r_size r))"
    "0 < sz_width (r_size r)" "0 < sz_height (r_size r)" "0 \<le> radius" "small radius"
  shows "(\<exists>b' S. fill_round_rect b r radius c = Some (Ok b') \<and> paints b S (\<lambda>_ _ _. c) b' \<and>
      (\<forall>x y. S x y \<longrightarrow> in_rect r x y) \<and> (\<forall>x y. in_middle r (clip_radius r radius) x y \<longrightarrow> S x y)) \<and>
    (\<exists>b' S. draw_round_rect b r radius c = Some (Ok b') \<and> paints b S (\<lambda>_ _ _. c) b' \<and> (\<forall>x y. S x y \<longrightarrow> in_rect r x y))"
proof -
  note ok = clip_radius_ok [OF assms(2-)]
  show ?thesis using fill_round_rect_paints [OF assms(1) ok, of c] draw_round_rect_paints [OF assms(1) ok, of c]
    unfolding paints_within_def by blast
qed

theorem round_rect_ends_inside_witness:
  "\<exists>b'. (fill_round_rect bm_2x2 (rect_new 0 0 1 2) 0 9 :: (unit, nat bitmap) outcome option) = Some (Ok b') \<and>
    bm_px b' 0 1 = 9 \<and> bm_px b' 1 1 = 7"
proof -
  let ?r = "rect_new 0 0 1 2"
  have r: "min_x ?r = 0" "min_y ?r = 0" "sz_width (r_size ?r) = 1" "sz_height (r_size ?r) = 2"
    by (simp_all add: rect_new_def min_x_def min_y_def isize_abs_def)
  have "clip_radius ?r 0 = 0" by (simp add: clip_radius_def r isize_mul_exact)
  then have mid: "in_middle ?r (clip_radius ?r 0) 0 1" by (simp add: in_middle_def in_rect_def r)
  have hyps: "rect_small ?r" "small (min_x ?r + sz_width (r_size ?r))" "small (min_y ?r + sz_height (r_size ?r))"
    "0 < sz_width (r_size ?r)" "0 < sz_height (r_size ?r)" "0 \<le> (0::int)" "small 0" by (simp_all add: rect_small_def r small_iff)
  from round_rect_ends_inside [OF bm_2x2_ok hyps, of 9, THEN conjunct1] obtain b' S where
    b': "(fill_round_rect bm_2x2 ?r 0 9 :: (unit, nat bitmap) outcome option) = Some (Ok b')" "paints bm_2x2 S (\<lambda>_ _ _. 9) b'"
    "\<forall>x y. S x y \<longrightarrow> in_rect ?r x y" "\<forall>x y. in_middle ?r (clip_radius ?r 0) x y \<longrightarrow> S x y"
    by blast
  have "bm_px bm_2x2 0 1 = 7" by (simp add: bm_px_def bm_off_def)
  then have "bm_px b' 0 1 = 9" "bm_px b' 1 1 = 7"
    using paints_px [OF b'(2), of 0 1] paints_px [OF b'(2), of 1 1] b'(3,4) mid by (auto simp: in_bounds_def in_rect_def r)
  with b'(1) show ?thesis by blast
qed

text \<open>A rectangle without rows is not empty for \<open>fill_round_rect\<close>: it paints the row of its origin and the row above.\<close>

lemma fill_round_rect_of_nothing:
  "(fill_round_rect bm_2x2 (rect_new 0 1 2 0) 0 9 :: (unit, nat bitmap) outcome option) = Some (Ok (bm_2x2\<lparr>bm_slice := [9, 9, 9, 9]\<rparr>))"
proof -
  let ?r = "rect_new 0 1 2 0"
  have r: "min_x ?r = 0" "min_y ?r = 1" "sz_width (r_size ?r) = 2" "sz_height (r_size ?r) = 0"
    by (simp_all add: rect_new_def min_x_def min_y_def isize_abs_def)
  have rad: "clip_radius ?r 0 = 0" by (simp add: clip_radius_def r isize_mul_exact)
  have lists: "bm_slice bm_2x2 = [7, 7, 7, 7]" "replicate 2 (9::nat) = [9, 9]" by (simp_all add: numeral_eq_Suc)
  have lines: "round_lines ?r 0 0 9 (bm_2x2\<lparr>bm_slice := [u, v, w, x]\<rparr>) = (Ok (bm_2x2\<lparr>bm_slice := [9, 9, 9, 9]\<rparr>) :: (unit, nat bitmap) outcome)"
    for u v w x
    by (simp add: round_lines_def Let_def r isize_mul_exact isize_simps draw_hline_def point_new_def memset_colors_def usize_mul_def
        usize_add_def lists(2))
  have "bm_2x2 = bm_2x2\<lparr>bm_slice := [7, 7, 7, 7]\<rparr>" using lists(1) by simp
  then have first: "round_lines ?r 0 0 9 bm_2x2 = (Ok (bm_2x2\<lparr>bm_slice := [9, 9, 9, 9]\<rparr>) :: (unit, nat bitmap) outcome)" by (metis lines)
  have "circle_step 0 0 3 = (- 1, 1, 13)" by (simp add: circle_step_def isize_mul_exact isize_simps)
  then show ?thesis
    by (simp add: fill_round_rect_def Let_def r rad fill_round_loop.simps isize_mul_exact isize_simps first lines)
qed

end
