(* ===== verification/AnyBitmap.thy ===== *)
theory AnyBitmap
  imports RoundSafety
begin

text \<open>
  Bitmaps whose kind is known at run time (src/lib/meggl/src/bitmap.rs: \<open>BitmapRef\<close>, \<open>BitmapRefMut\<close>,
  \<open>OwnedBitmap\<close>).  Each operation takes generic colours and passes them, converted, to the bitmap that is
  inside.  The three types hold the same data, so \<open>bitmap_ref\<close> models all of them, and the casts
  between them (\<open>as_const\<close>, \<open>into_bitmap\<close>, \<open>as_mut\<close>) are the identity.  The fills of an
  indexed bitmap depend on where it is: \<open>al\<close> is the alignment of \<open>u128\<close> and \<open>base\<close> the address of the
  slice.
\<close>

section \<open>Operations\<close>

definition ref_size :: "bitmap_ref \<Rightarrow> size2" where
  "ref_size b = (case b of RefIndexed v \<Rightarrow> bm_size v | RefArgb32 v \<Rightarrow> bm_size v)"

definition ref_get_pixel_unchecked :: "bitmap_ref \<Rightarrow> point \<Rightarrow> ('e, color) outcome" where
  "ref_get_pixel_unchecked b p = (case b of
      RefIndexed v \<Rightarrow> and_then (get_pixel_unchecked v p) (\<lambda>c. Ok (Indexed c))
    | RefArgb32 v \<Rightarrow> and_then (get_pixel_unchecked v p) (\<lambda>c. Ok (Argb32 c)))"

definition ref_set_pixel_unchecked :: "bitmap_ref \<Rightarrow> point \<Rightarrow> color \<Rightarrow> ('e, bitmap_ref) outcome" where
  "ref_set_pixel_unchecked b p c = (case b of
      RefIndexed v \<Rightarrow> and_then (set_pixel_unchecked v p (color_into_indexed c)) (\<lambda>v. Ok (RefIndexed v))
    | RefArgb32 v \<Rightarrow> and_then (set_pixel_unchecked v p (color_into_true_color c)) (\<lambda>v. Ok (RefArgb32 v)))"

definition ref_draw_glyph :: "bitmap_ref \<Rightarrow> u8 list \<Rightarrow> size2 \<Rightarrow> point \<Rightarrow> color \<Rightarrow> ('e, bitmap_ref) outcome" where
  "ref_draw_glyph b glyph sz p c = (case b of
      RefIndexed v \<Rightarrow> and_then (draw_glyph v glyph sz p (color_into_indexed c)) (\<lambda>v. Ok (RefIndexed v))
    | RefArgb32 v \<Rightarrow> and_then (draw_glyph v glyph sz p (color_into_true_color c)) (\<lambda>v. Ok (RefArgb32 v)))"

definition ref_draw_glyph_cw :: "bitmap_ref \<Rightarrow> u8 list \<Rightarrow> size2 \<Rightarrow> point \<Rightarrow> color \<Rightarrow> ('e, bitmap_ref) outcome" where
  "ref_draw_glyph_cw b glyph sz p c = (case b of
      RefIndexed v \<Rightarrow> and_then (draw_glyph_cw v glyph sz p (color_into_indexed c)) (\<lambda>v. Ok (RefIndexed v))
    | RefArgb32 v \<Rightarrow> and_then (draw_glyph_cw v glyph sz p (color_into_true_color c)) (\<lambda>v. Ok (RefArgb32 v)))"

definition ref_fill_rect :: "nat \<Rightarrow> nat \<Rightarrow> bitmap_ref \<Rightarrow> rect \<Rightarrow> color \<Rightarrow> ('e, bitmap_ref) outcome" where
  "ref_fill_rect al base b r c = (case b of
      RefIndexed v \<Rightarrow> and_then (fill_rect8 al base v r (color_into_indexed c)) (\<lambda>v. Ok (RefIndexed v))
    | RefArgb32 v \<Rightarrow> and_then (fill_rect v r (color_into_true_color c)) (\<lambda>v. Ok (RefArgb32 v)))"

definition ref_draw_hline :: "nat \<Rightarrow> nat \<Rightarrow> bitmap_ref \<Rightarrow> point \<Rightarrow> int \<Rightarrow> color \<Rightarrow> ('e, bitmap_ref) outcome" where
  "ref_draw_hline al base b p width c = (case b of
      RefIndexed v \<Rightarrow> and_then (draw_hline8 al base v p width (color_into_indexed c)) (\<lambda>v. Ok (RefIndexed v))
    | RefArgb32 v \<Rightarrow> and_then (draw_hline v p width (color_into_true_color c)) (\<lambda>v. Ok (RefArgb32 v)))"

definition ref_draw_vline :: "bitmap_ref \<Rightarrow> point \<Rightarrow> int \<Rightarrow> color \<Rightarrow> ('e, bitmap_ref) outcome" where
  "ref_draw_vline b p height c = (case b of
      RefIndexed v \<Rightarrow> and_then (draw_vline v p height (color_into_indexed c)) (\<lambda>v. Ok (RefIndexed v))
    | RefArgb32 v \<Rightarrow> and_then (draw_vline v p height (color_into_true_color c)) (\<lambda>v. Ok (RefArgb32 v)))"

text \<open>A view is the position of its first pixel in the slice, with the bitmap that starts there.\<close>

definition ref_view :: "bitmap_ref \<Rightarrow> rect \<Rightarrow> ('e, (nat \<times> bitmap_ref) option) outcome" where
  "ref_view b r = (case b of
      RefIndexed v \<Rightarrow> and_then (bm_view v r) (\<lambda>o'. Ok (map_option (apsnd RefIndexed) o'))
    | RefArgb32 v \<Rightarrow> and_then (bm_view v r) (\<lambda>o'. Ok (map_option (apsnd RefArgb32) o')))"

definition ref_copy :: "bitmap_ref \<Rightarrow> point \<Rightarrow> rect \<Rightarrow> ('e, bitmap_ref) outcome" where
  "ref_copy b p r = (case b of
      RefIndexed v \<Rightarrow> and_then (bm_copy v p r) (\<lambda>v. Ok (RefIndexed v))
    | RefArgb32 v \<Rightarrow> and_then (bm_copy v p r) (\<lambda>v. Ok (RefArgb32 v)))"

definition ref_blt_transparent :: "bitmap_ref \<Rightarrow> bitmap_ref \<Rightarrow> point \<Rightarrow> rect \<Rightarrow> indexed_color \<Rightarrow> ('e, bitmap_ref) outcome" where
  "ref_blt_transparent b src p r key = (case b of
      RefIndexed v \<Rightarrow> and_then (case src of
          RefIndexed s \<Rightarrow> blt_with_key v s p r key
        | RefArgb32 s \<Rightarrow> blt_convert_opt (\<lambda>c. if argb_is_transparent c then None else Some (ic_from_argb c)) v s p r) (\<lambda>v. Ok (RefIndexed v))
    | RefArgb32 v \<Rightarrow> and_then (blt_transparent v src p r key) (\<lambda>v. Ok (RefArgb32 v)))"

definition map_indexed :: "bitmap_ref \<Rightarrow> (indexed_color bitmap \<Rightarrow> 'r \<times> indexed_color bitmap) \<Rightarrow> 'r option \<times> bitmap_ref" where
  "map_indexed b f = (case b of
      RefIndexed v \<Rightarrow> (case f v of (x, v) \<Rightarrow> (Some x, RefIndexed v))
    | RefArgb32 v \<Rightarrow> (None, b))"

definition map_argb32 :: "bitmap_ref \<Rightarrow> (argb8888 bitmap \<Rightarrow> 'r \<times> argb8888 bitmap) \<Rightarrow> 'r option \<times> bitmap_ref" where
  "map_argb32 b f = (case b of
      RefIndexed v \<Rightarrow> (None, b)
    | RefArgb32 v \<Rightarrow> (case f v of (x, v) \<Rightarrow> (Some x, RefArgb32 v)))"

definition color_mode :: "bitmap_ref \<Rightarrow> nat" where
  "color_mode b = (case b of RefIndexed _ \<Rightarrow> 8 | RefArgb32 _ \<Rightarrow> 32)"

definition ref_blt :: "bitmap_ref \<Rightarrow> bitmap_ref \<Rightarrow> point \<Rightarrow> rect \<Rightarrow> ('e, bitmap_ref) outcome" where
  "ref_blt b src p r = (case b of
      RefIndexed v \<Rightarrow> and_then (case src of
          RefIndexed s \<Rightarrow> blt v s p r
        | RefArgb32 s \<Rightarrow> blt32 v s p r) (\<lambda>v. Ok (RefIndexed v))
    | RefArgb32 v \<Rightarrow> and_then (case src of
          RefIndexed s \<Rightarrow> blt8 v s p r COLOR_PALETTE
        | RefArgb32 s \<Rightarrow> blt v s p r) (\<lambda>v. Ok (RefArgb32 v)))"

definition owned_new :: "bitmap_ref \<Rightarrow> size2 \<Rightarrow> color \<Rightarrow> bitmap_ref" where
  "owned_new template sz bg = (case template of
      RefIndexed _ \<Rightarrow> RefIndexed (bm_new sz (color_into_indexed bg))
    | RefArgb32 _ \<Rightarrow> RefArgb32 (bm_new sz (color_into_true_color bg)))"

definition same_format :: "bitmap_ref \<Rightarrow> size2 \<Rightarrow> color \<Rightarrow> bitmap_ref" where
  "same_format b sz bg = (case b of
      RefIndexed _ \<Rightarrow> RefIndexed (bm_new sz (color_into_indexed bg))
    | RefArgb32 _ \<Rightarrow> RefArgb32 (bm_new sz (color_into_true_color bg)))"


section \<open>One specification for both kinds\<close>

text \<open>A pixel as a generic colour, and a colour as the bitmap stores it.\<close>

definition ref_px :: "bitmap_ref \<Rightarrow> int \<Rightarrow> int \<Rightarrow> color" where
  "ref_px b x y = (case b of RefIndexed v \<Rightarrow> Indexed (bm_px v x y) | RefArgb32 v \<Rightarrow> Argb32 (bm_px v x y))"

definition as_kind :: "bitmap_ref \<Rightarrow> color \<Rightarrow> color" where
  "as_kind b c = (case b of RefIndexed _ \<Rightarrow> Indexed (color_into_indexed c) | RefArgb32 _ \<Rightarrow> Argb32 (color_into_true_color c))"

definition ref_ok :: "bitmap_ref \<Rightarrow> bool" where
  "ref_ok b = (case b of RefIndexed v \<Rightarrow> bitmap_ok v | RefArgb32 v \<Rightarrow> bitmap_ok v)"

definition ref_in_bounds :: "bitmap_ref \<Rightarrow> int \<Rightarrow> int \<Rightarrow> bool" where
  "ref_in_bounds b x y \<longleftrightarrow> 0 \<le> x \<and> x < sz_width (ref_size b) \<and> 0 \<le> y \<and> y < sz_height (ref_size b)"

text \<open>The kind and the size stay, and exactly the pixels of a region change.\<close>

definition ref_paints :: "bitmap_ref \<Rightarrow> (int \<Rightarrow> int \<Rightarrow> bool) \<Rightarrow> (int \<Rightarrow> int \<Rightarrow> color) \<Rightarrow> bitmap_ref \<Rightarrow> bool" where
  "ref_paints b R g b' \<longleftrightarrow> ref_ok b' \<and> color_mode b' = color_mode b \<and> ref_size b' = ref_size b \<and>
     (\<forall>x y. ref_in_bounds b x y \<longrightarrow> ref_px b' x y = (if R x y then g x y else ref_px b x y))"

lemma ref_paints_indexed:
  assumes "paints v R (\<lambda>x y old. f x y) v'" "bitmap_ok v" "\<And>x y. g x y = Indexed (f x y)"
  shows "ref_paints (RefIndexed v) R g (RefIndexed v')"
  using assms paints_ok [OF assms(1,2)] paints_px [OF assms(1)]
  by (auto simp: ref_paints_def ref_ok_def color_mode_def ref_size_def ref_in_bounds_def ref_px_def in_bounds_def paints_def)

lemma ref_paints_argb32:
  assumes "paints v R (\<lambda>x y old. f x y) v'" "bitmap_ok v" "\<And>x y. g x y = Argb32 (f x y)"
  shows "ref_paints (RefArgb32 v) R g (RefArgb32 v')"
  using assms paints_ok [OF assms(1,2)] paints_px [OF assms(1)]
  by (auto simp: ref_paints_def ref_ok_def color_mode_def ref_size_def ref_in_bounds_def ref_px_def in_bounds_def paints_def)

text \<open>An operation that both kinds of bitmap have, with the colour converted.\<close>

lemma ref_op_paints:
  assumes "ref_ok b"
    and "\<And>v :: indexed_color bitmap. b = RefIndexed v \<Longrightarrow> bitmap_ok v \<Longrightarrow> \<exists>v'. (op8 v (color_into_indexed c) :: ('e, indexed_color bitmap) outcome) = Ok v' \<and> paints v (R (bm_size v)) (\<lambda>_ _ _. color_into_indexed c) v'"
    and "\<And>v :: argb8888 bitmap. b = RefArgb32 v \<Longrightarrow> bitmap_ok v \<Longrightarrow> \<exists>v'. (op32 v (color_into_true_color c) :: ('e, argb8888 bitmap) outcome) = Ok v' \<and> paints v (R (bm_size v)) (\<lambda>_ _ _. color_into_true_color c) v'"
  shows "\<exists>b'. (case b of RefIndexed v \<Rightarrow> and_then (op8 v (color_into_indexed c)) (\<lambda>v. Ok (RefIndexed v))
      | RefArgb32 v \<Rightarrow> and_then (op32 v (color_into_true_color c)) (\<lambda>v. Ok (RefArgb32 v))) = (Ok b' :: ('e, bitmap_ref) outcome) \<and>
    ref_paints b (R (ref_size b)) (\<lambda>_ _. as_kind b c) b'"
proof (cases b)
  case (RefIndexed v)
  with assms(1) have ok: "bitmap_ok v" by (simp add: ref_ok_def)
  from assms(2) [OF RefIndexed this] obtain v' where "(op8 v (color_into_indexed c) :: ('e, indexed_color bitmap) outcome) = Ok v'" "paints v (R (bm_size v)) (\<lambda>_ _ _. color_into_indexed c) v'" by blast
  with ok show ?thesis using RefIndexed by (auto simp: ref_size_def as_kind_def intro!: ref_paints_indexed)
next
  case (RefArgb32 v)
  with assms(1) have ok: "bitmap_ok v" by (simp add: ref_ok_def)
  from assms(3) [OF RefArgb32 this] obtain v' where "(op32 v (color_into_true_color c) :: ('e, argb8888 bitmap) outcome) = Ok v'" "paints v (R (bm_size v)) (\<lambda>_ _ _. color_into_true_color c) v'" by blast
  with ok show ?thesis using RefArgb32 by (auto simp: ref_size_def as_kind_def intro!: ref_paints_argb32)
qed

text \<open>Where the words of \<open>_memset_colors8\<close> are aligned; only indexed bitmaps are filled by words.\<close>

definition ref_fill_aligned :: "nat \<Rightarrow> bitmap_ref \<Rightarrow> rect \<Rightarrow> bool" where
  "ref_fill_aligned base b r = (case b of RefIndexed v \<Rightarrow> fill_aligned base v r | RefArgb32 _ \<Rightarrow> True)"

definition ref_hline_aligned :: "nat \<Rightarrow> bitmap_ref \<Rightarrow> point \<Rightarrow> int \<Rightarrow> bool" where
  "ref_hline_aligned base b p width = (case b of RefIndexed v \<Rightarrow> hline_aligned base v p width | RefArgb32 _ \<Rightarrow> True)"

lemma ref_fill_rect_paints:
  assumes "ref_ok b" "rect_small r" "al dvd 16" "ref_fill_aligned base b r"
  shows "\<exists>b'. ref_fill_rect al base b r c = Ok b' \<and> ref_paints b (in_rect r) (\<lambda>_ _. as_kind b c) b'"
  unfolding ref_fill_rect_def
  by (rule ref_op_paints [where R = "\<lambda>_. in_rect r" and ?op8.0 = "\<lambda>v. fill_rect8 al base v r" and ?op32.0 = "\<lambda>v. fill_rect v r", OF assms(1)])
    (use assms(2-4) in \<open>auto simp: ref_fill_aligned_def fill_rect8_eq intro!: fill_rect_paints\<close>)

lemma ref_draw_hline_paints:
  assumes "ref_ok b" "small (pt_x p)" "small (pt_y p)" "small width" "al dvd 16" "ref_hline_aligned base b p width"
  shows "\<exists>b'. ref_draw_hline al base b p width c = Ok b' \<and> ref_paints b (\<lambda>x y. y = pt_y p \<and> pt_x p \<le> x \<and> x < pt_x p + width) (\<lambda>_ _. as_kind b c) b'"
  unfolding ref_draw_hline_def
  by (rule ref_op_paints [where R = "\<lambda>_ x y. y = pt_y p \<and> pt_x p \<le> x \<and> x < pt_x p + width"
        and ?op8.0 = "\<lambda>v. draw_hline8 al base v p width" and ?op32.0 = "\<lambda>v. draw_hline v p width", OF assms(1)])
    (use assms(2-6) in \<open>auto simp: ref_hline_aligned_def draw_hline8_eq intro!: draw_hline_paints\<close>)

lemma ref_draw_glyph_paints:
  assumes "ref_ok b" "glyph_ok glyph sz" "small (pt_x p)" "small (pt_y p)"
  shows "\<exists>b'. ref_draw_glyph b glyph sz p c = Ok b' \<and>
    ref_paints b (\<lambda>x y. ref_in_bounds b (pt_x p) (pt_y p) \<and> in_glyph glyph sz (x - pt_x p) (y - pt_y p)) (\<lambda>_ _. as_kind b c) b'"
  unfolding ref_draw_glyph_def ref_in_bounds_def
  by (rule ref_op_paints [where R = "\<lambda>s x y. (0 \<le> pt_x p \<and> pt_x p < sz_width s \<and> 0 \<le> pt_y p \<and> pt_y p < sz_height s) \<and> in_glyph glyph sz (x - pt_x p) (y - pt_y p)"
        and ?op8.0 = "\<lambda>v. draw_glyph v glyph sz p" and ?op32.0 = "\<lambda>v. draw_glyph v glyph sz p", OF assms(1)])
    (erule draw_glyph_paints [OF _ assms(2-4), unfolded in_bounds_def])+

text \<open>The conversions that the transfers use are the conversions of single colours.\<close>

lemma blt32_paints:
  assumes "bitmap_ok b" "bitmap_ok src" "rect_small r" "small (pt_x p)" "small (pt_y p)"
  shows "\<exists>b'. (blt32 b src p r :: ('e, indexed_color bitmap) outcome) = Ok b' \<and>
    paints b (blt_area src p r) (\<lambda>x y _. color_into_indexed (Argb32 (blt_px src p r x y))) b'"
  using blt_convert_opt_paints [OF assms, of "\<lambda>c. Some (ic_from_rgb (argb_rgb c))"]
  by (simp add: blt32_def blt_convert_def color_into_indexed_def)

lemma blt8_paints:
  assumes "bitmap_ok b" "bitmap_ok src" "rect_small r" "small (pt_x p)" "small (pt_y p)"
  shows "\<exists>b'. (blt8 b src p r COLOR_PALETTE :: ('e, argb8888 bitmap) outcome) = Ok b' \<and>
    paints b (blt_area src p r) (\<lambda>x y _. color_into_true_color (Indexed (blt_px src p r x y))) b'"
  using blt_convert_opt_paints [OF assms, of "\<lambda>c. Some (argb_from_argb (COLOR_PALETTE ! unat c))"]
  by (simp add: blt8_def blt_convert_def color_into_true_color_def ic_as_true_color_def ic_as_argb_def)

text \<open>The source pixel of a pixel, and the pixels that have one.\<close>

definition ref_blt_px :: "bitmap_ref \<Rightarrow> point \<Rightarrow> rect \<Rightarrow> int \<Rightarrow> int \<Rightarrow> color" where
  "ref_blt_px src p r x y = ref_px src (x - pt_x p + min_x r) (y - pt_y p + min_y r)"

definition ref_blt_area :: "bitmap_ref \<Rightarrow> point \<Rightarrow> rect \<Rightarrow> int \<Rightarrow> int \<Rightarrow> bool" where
  "ref_blt_area src p r x y \<longleftrightarrow> in_rect r (x - pt_x p + min_x r) (y - pt_y p + min_y r) \<and> ref_in_bounds src (x - pt_x p + min_x r) (y - pt_y p + min_y r)"

lemma ref_blt_area_indexed: "ref_blt_area (RefIndexed s) p r = blt_area s p r"
  by (intro ext) (simp add: ref_blt_area_def blt_area_def ref_in_bounds_def in_bounds_def ref_size_def)

lemma ref_blt_area_argb32: "ref_blt_area (RefArgb32 s) p r = blt_area s p r"
  by (intro ext) (simp add: ref_blt_area_def blt_area_def ref_in_bounds_def in_bounds_def ref_size_def)

lemmas ref_blt_simps = as_kind_def ref_blt_px_def ref_px_def blt_px_def color_into_indexed_def color_into_true_color_def

lemma ref_blt_paints:
  assumes "ref_ok b" "ref_ok src" "rect_small r" "small (pt_x p)" "small (pt_y p)"
  shows "\<exists>b'. (ref_blt b src p r :: ('e, bitmap_ref) outcome) = Ok b' \<and> ref_paints b (ref_blt_area src p r) (\<lambda>x y. as_kind b (ref_blt_px src p r x y)) b'"
proof (cases b)
  case (RefIndexed v)
  with assms(1) have ok: "bitmap_ok v" by (simp add: ref_ok_def)
  show ?thesis
  proof (cases src)
    case (RefIndexed s)
    with assms(2) have "bitmap_ok s" by (simp add: ref_ok_def)
    from blt_paints [OF ok this assms(3-)] obtain v' where v': "blt v s p r = (Ok v' :: ('e, indexed_color bitmap) outcome)"
      "paints v (blt_area s p r) (\<lambda>x y _. blt_px s p r x y) v'" by blast
    have "ref_paints b (ref_blt_area src p r) (\<lambda>x y. as_kind b (ref_blt_px src p r x y)) (RefIndexed v')"
      unfolding \<open>b = RefIndexed v\<close> RefIndexed ref_blt_area_indexed by (rule ref_paints_indexed [OF v'(2) ok]) (simp add: ref_blt_simps)
    with v'(1) show ?thesis by (simp add: ref_blt_def \<open>b = RefIndexed v\<close> RefIndexed)
  next
    case (RefArgb32 s)
    with assms(2) have "bitmap_ok s" by (simp add: ref_ok_def)
    from blt32_paints [OF ok this assms(3-)] obtain v' where v': "blt32 v s p r = (Ok v' :: ('e, indexed_color bitmap) outcome)"
      "paints v (blt_area s p r) (\<lambda>x y _. color_into_indexed (Argb32 (blt_px s p r x y))) v'" by blast
    have "ref_paints b (ref_blt_area src p r) (\<lambda>x y. as_kind b (ref_blt_px src p r x y)) (RefIndexed v')"
      unfolding \<open>b = RefIndexed v\<close> RefArgb32 ref_blt_area_argb32 by (rule ref_paints_indexed [OF v'(2) ok]) (simp add: ref_blt_simps)
    with v'(1) show ?thesis by (simp add: ref_blt_def \<open>b = RefIndexed v\<close> RefArgb32)
  qed
next
  case (RefArgb32 v)
  with assms(1) have ok: "bitmap_ok v" by (simp add: ref_ok_def)
  show ?thesis
  proof (cases src)
    case (RefIndexed s)
    with assms(2) have "bitmap_ok s" by (simp add: ref_ok_def)
    from blt8_paints [OF ok this assms(3-)] obtain v' where v': "blt8 v s p r COLOR_PALETTE = (Ok v' :: ('e, argb8888 bitmap) outcome)"
      "paints v (blt_area s p r) (\<lambda>x y _. color_into_true_color (Indexed (blt_px s p r x y))) v'" by blast
    have "ref_paints b (ref_blt_area src p r) (\<lambda>x y. as_kind b (ref_blt_px src p r x y)) (RefArgb32 v')"
      unfolding \<open>b = RefArgb32 v\<close> RefIndexed ref_blt_area_indexed by (rule ref_paints_argb32 [OF v'(2) ok]) (simp add: ref_blt_simps)
    with v'(1) show ?thesis by (simp add: ref_blt_def \<open>b = RefArgb32 v\<close> RefIndexed)
  next
    case (RefArgb32 s)
    with assms(2) have "bitmap_ok s" by (simp add: ref_ok_def)
    from blt_paints [OF ok this assms(3-)] obtain v' where v': "blt v s p r = (Ok v' :: ('e, argb8888 bitmap) outcome)"
      "paints v (blt_area s p r) (\<lambda>x y _. blt_px s p r x y) v'" by blast
    have "ref_paints b (ref_blt_area src p r) (\<lambda>x y. as_kind b (ref_blt_px src p r x y)) (RefArgb32 v')"
      unfolding \<open>b = RefArgb32 v\<close> RefArgb32 ref_blt_area_argb32 by (rule ref_paints_argb32 [OF v'(2) ok]) (simp add: ref_blt_simps)
    with v'(1) show ?thesis by (simp add: ref_blt_def \<open>b = RefArgb32 v\<close> RefArgb32)
  qed
qed


section \<open>The properties\<close>


text \<open>Outside the covered addresses: 32 pixels in a row, filled from an odd address.\<close>

lemma ref_fill_rect_misaligned:
  "(ref_fill_rect 16 1 (RefIndexed (bm_new (size_new 32 1) 0)) (rect_new 0 0 32 1) c :: (unit, bitmap_ref) outcome) = UB Misaligned"
proof -
  have "clip_rect (bm_size (bm_new (size_new 32 1) (0 :: indexed_color))) (rect_new 0 0 32 1) = (0, 0, 32, 1)"
    by (simp add: clip_rect_def bm_new_def bm_from_slice_def size_new_def rect_new_def min_x_def min_y_def isize_abs_def isize_add_def isize_sub_def
        isize_wrap_def Let_def)
  then show ?thesis
    by (simp add: ref_fill_rect_def fill_rect8_def memset_colors8_def bm_new_def bm_from_slice_def size_new_def as_usize_def usize_mul_def
        usize_add_def Let_def)
qed

lemma bm_new_2x2: "bm_new (size_new 2 2) c = \<lparr>bm_slice = replicate 4 c, bm_size = \<lparr>sz_width = 2, sz_height = 2\<rparr>, bm_stride = 2\<rparr>"
  by (simp add: bm_new_def bm_from_slice_def size_new_def as_usize_def usize_mul_def)


end
