(* ===== verification/OpBitmap.thy ===== *)
theory OpBitmap
  imports AnyBitmap
begin

text \<open>
  Operational bitmaps (src/lib/meggl/src/bitmap.rs, \<open>OperationalBitmap\<close>): octets that are the opacity of a
  picture or the depth of a shadow.  \<open>blur\<close> and the transfers visit pixels one by one with unchecked
  accesses; such a loop is a list of visits.  The anti-aliased lines are not modelled.
\<close>

section \<open>The bitmap\<close>

text \<open>The vector with its capacity; the stride is the width.\<close>

record op_bitmap =
  ob_size :: size2
  ob_vec :: "u8 list"
  ob_capacity :: nat

definition ob_new :: "size2 \<Rightarrow> op_bitmap" where
  "ob_new sz = \<lparr>ob_size = sz, ob_vec = [], ob_capacity = 0\<rparr>"

definition ob_from_slice :: "u8 list \<Rightarrow> size2 \<Rightarrow> op_bitmap" where
  "ob_from_slice xs sz = \<lparr>ob_size = sz, ob_vec = xs, ob_capacity = length xs\<rparr>"

definition ob_from_vec :: "u8 list \<Rightarrow> nat \<Rightarrow> size2 \<Rightarrow> op_bitmap" where
  "ob_from_vec xs capacity sz = \<lparr>ob_size = sz, ob_vec = xs, ob_capacity = capacity\<rparr>"

definition ob_bitmap :: "op_bitmap \<Rightarrow> u8 bitmap" where
  "ob_bitmap o' = \<lparr>bm_slice = ob_vec o', bm_size = ob_size o', bm_stride = as_usize (sz_width (ob_size o'))\<rparr>"

text \<open>All the items of the iterator; \<open>None\<close> is an iterator that never ends.\<close>

partial_function (option) all_pixels_items :: "'a bitmap \<Rightarrow> nat \<times> nat \<Rightarrow> ('e, 'a list) outcome option" where
  "all_pixels_items b pos =
     (case all_pixels_next b pos of
        Ok None \<Rightarrow> Some (Ok [])
      | Ok (Some (c, pos)) \<Rightarrow> Option.bind (all_pixels_items b pos) (\<lambda>rest. Some (and_then rest (\<lambda>cs. Ok (c # cs))))
      | Err e \<Rightarrow> Some (Err e) | Panic \<Rightarrow> Some Panic | UB u \<Rightarrow> Some (UB u))"

definition from_pixels :: "'a bitmap \<Rightarrow> ('a \<Rightarrow> u8) \<Rightarrow> ('e, op_bitmap) outcome option" where
  "from_pixels data k =
     map_option (\<lambda>r. and_then r (\<lambda>cs. Ok (ob_from_slice (map k cs) (bm_size data)))) (all_pixels_items data (0, 0))"

text \<open>\<open>Vec::resize\<close>, and \<open>fill\<close>, which asks for the capacity; \<open>new_cap\<close> is the capacity after the vector grew.\<close>

definition vec_resize_to :: "'a list \<Rightarrow> nat \<Rightarrow> 'a \<Rightarrow> 'a list" where
  "vec_resize_to xs n v = take n xs @ replicate (n - length xs) v"

definition ob_fill :: "nat \<Rightarrow> op_bitmap \<Rightarrow> u8 \<Rightarrow> op_bitmap" where
  "ob_fill new_cap o' color =
     (let count = usize_mul (as_usize (sz_width (ob_size o'))) (as_usize (sz_height (ob_size o'))) in
      if count \<le> ob_capacity o' then o'\<lparr>ob_vec := replicate (length (ob_vec o')) color\<rparr>
      else o'\<lparr>ob_vec := vec_resize_to (ob_vec o') count color, ob_capacity := new_cap\<rparr>)"

definition ob_reset :: "nat \<Rightarrow> op_bitmap \<Rightarrow> op_bitmap" where
  "ob_reset new_cap o' = ob_fill new_cap o' 0"

text \<open>\<open>draw_line\<close> calls the kernel for every point of the line, in order.\<close>

definition ob_draw_line :: "op_bitmap \<Rightarrow> point \<Rightarrow> point \<Rightarrow> (op_bitmap \<Rightarrow> point \<Rightarrow> op_bitmap) \<Rightarrow> op_bitmap option" where
  "ob_draw_line o' c1 c2 k = map_option (foldl k o') (line_to c1 c2)"


section \<open>Blur\<close>

fun sum_pixels :: "u8 bitmap \<Rightarrow> point list \<Rightarrow> nat \<Rightarrow> ('e, nat) outcome" where
  "sum_pixels b [] acc = Ok acc"
| "sum_pixels b (p # ps) acc = and_then (get_pixel_unchecked b p) (\<lambda>v. sum_pixels b ps (usize_add acc (unat v)))"

text \<open>A visit: the pixel that is set, the pixels that are summed up, and what becomes of the mean.\<close>

definition blur_visit :: "nat \<Rightarrow> (nat \<Rightarrow> u8) \<Rightarrow> point \<times> point list \<Rightarrow> u8 bitmap \<Rightarrow> ('e, u8 bitmap) outcome" where
  "blur_visit len f v b = (case v of (p, ps) \<Rightarrow>
     and_then (sum_pixels b ps 0) (\<lambda>acc. if len = 0 then Panic else set_pixel_unchecked b p (f (acc div len))))"

fun visits :: "('v \<Rightarrow> 'b \<Rightarrow> ('e, 'b) outcome) \<Rightarrow> 'v list \<Rightarrow> 'b \<Rightarrow> ('e, 'b) outcome" where
  "visits step [] b = Ok b"
| "visits step (v # vs) b = and_then (step v b) (visits step vs)"

text \<open>The two loops over columns, downwards from the last row, and the two loops in every row.\<close>

definition column_visits :: "int \<Rightarrow> int \<Rightarrow> int \<Rightarrow> (point \<times> point list) list" where
  "column_visits len width height =
     [(point_new x y, map (\<lambda>r. point_new x (isize_sub y r)) [0..len - 1]). y \<leftarrow> rev [len..height - 1], x \<leftarrow> [0..width - 1]] @
     [(point_new x y, map (\<lambda>r. point_new x (isize_sub y r)) [0..y - 1]). y \<leftarrow> rev [0..len - 1], x \<leftarrow> [0..width - 1]]"

definition row_visits :: "int \<Rightarrow> int \<Rightarrow> int \<Rightarrow> (point \<times> point list) list" where
  "row_visits len width height = concat (map (\<lambda>y.
     [(point_new x y, map (\<lambda>r. point_new (isize_sub x r) y) [0..len - 1]). x \<leftarrow> rev [len..width - 1]] @
     [(point_new x y, map (\<lambda>r. point_new (isize_sub x r) y) [0..x - 1]). x \<leftarrow> rev [0..len - 1]]) [0..height - 1])"

definition blur_bitmap :: "u8 bitmap \<Rightarrow> int \<Rightarrow> nat \<Rightarrow> ('e, u8 bitmap) outcome" where
  "blur_bitmap b radius level =
     (let bounds = bm_bounds b; length' = isize_add (isize_mul radius 2) 1;
          width = sz_width (r_size bounds); height = sz_height (r_size bounds) in
      and_then (visits (blur_visit (as_usize length') (\<lambda>m. of_nat m)) (column_visits length' width height) b) (\<lambda>b.
      visits (blur_visit (as_usize length') (\<lambda>m. of_nat (min 255 (usize_mul m level div 256)))) (row_visits length' width height) b))"

definition blur :: "op_bitmap \<Rightarrow> int \<Rightarrow> nat \<Rightarrow> ('e, op_bitmap) outcome" where
  "blur o' radius level = and_then (blur_bitmap (ob_bitmap o') radius level) (\<lambda>b. Ok (o'\<lparr>ob_vec := bm_slice b\<rparr>))"


section \<open>Transfers\<close>

text \<open>The pairs of points of a transfer, in the order of the loops: where, and from where.\<close>

definition transfer_visits :: "int \<Rightarrow> int \<Rightarrow> int \<Rightarrow> int \<Rightarrow> int \<Rightarrow> int \<Rightarrow> (point \<times> point) list" where
  "transfer_visits dx dy sx sy width height =
     [(point_new (isize_add dx x) (isize_add dy y), point_new (isize_add sx x) (isize_add sy y)). y \<leftarrow> [0..height - 1], x \<leftarrow> [0..width - 1]]"

definition transfer_visit :: "'b bitmap \<Rightarrow> ('b \<Rightarrow> 'a \<Rightarrow> 'a) \<Rightarrow> point \<times> point \<Rightarrow> 'a bitmap \<Rightarrow> ('e, 'a bitmap) outcome" where
  "transfer_visit src k v b = (case v of (dp, sp) \<Rightarrow>
     and_then (get_pixel_unchecked src sp) (\<lambda>s. and_then (get_pixel_unchecked b dp) (\<lambda>d. set_pixel_unchecked b dp (k s d))))"

definition transfer :: "'b bitmap \<Rightarrow> 'a bitmap \<Rightarrow> point \<Rightarrow> rect \<Rightarrow> ('b \<Rightarrow> 'a \<Rightarrow> 'a) \<Rightarrow> ('e, 'a bitmap) outcome" where
  "transfer src dest p r k =
     (case adjust_blt_coords (bm_size dest) (bm_size src) p r of (dx, dy, sx, sy, width, height) \<Rightarrow>
      if width \<le> 0 \<or> height \<le> 0 then Ok dest
      else visits (transfer_visit src k) (transfer_visits dx dy sx sy width height) dest)"

definition blt_to :: "op_bitmap \<Rightarrow> 'a bitmap \<Rightarrow> point \<Rightarrow> rect \<Rightarrow> (u8 \<Rightarrow> 'a \<Rightarrow> 'a) \<Rightarrow> ('e, 'a bitmap) outcome" where
  "blt_to o' dest p r k = transfer (ob_bitmap o') dest p r k"

definition blt_shadow :: "op_bitmap \<Rightarrow> argb8888 bitmap \<Rightarrow> point \<Rightarrow> rect \<Rightarrow> ('e, argb8888 bitmap) outcome" where
  "blt_shadow o' dest p r = blt_to o' dest p r (\<lambda>a b. shadowed b a)"

definition blt_from :: "op_bitmap \<Rightarrow> 'b bitmap \<Rightarrow> point \<Rightarrow> rect \<Rightarrow> ('b \<Rightarrow> u8 \<Rightarrow> u8) \<Rightarrow> ('e, op_bitmap) outcome" where
  "blt_from o' src p r k = and_then (transfer src (ob_bitmap o') p r k) (\<lambda>b. Ok (o'\<lparr>ob_vec := bm_slice b\<rparr>))"

definition draw_to :: "op_bitmap \<Rightarrow> bitmap_ref \<Rightarrow> point \<Rightarrow> rect \<Rightarrow> color \<Rightarrow> ('e, bitmap_ref) outcome" where
  "draw_to o' dest p r c = (case dest of
      RefIndexed _ \<Rightarrow> Ok dest
    | RefArgb32 b \<Rightarrow>
        let color' = color_into_true_color c in
        and_then (blt_to o' b p r (\<lambda>a b. blend_draw b (into_true_color ((components color')\<lparr>cc_a := a\<rparr>)))) (\<lambda>b. Ok (RefArgb32 b)))"

end
