(* ===== verification/OpBitmapSafety.thy ===== *)
theory OpBitmapSafety
  imports OpBitmap
begin

text \<open>
  What the loops of operational bitmaps do.  The locale \<open>point_loop\<close> is the contract of a loop that visits
  pixels in an order in which no visit reads what an earlier one wrote; \<open>blur\<close> and the transfers are
  its instances, so the blur in place is the blur of the old picture.
\<close>

section \<open>Loops over pixels\<close>

locale point_loop =
  fixes step :: "'v \<Rightarrow> 'a bitmap \<Rightarrow> ('e, 'a bitmap) outcome"
    and at :: "'v \<Rightarrow> int \<times> int"
    and deps :: "'v \<Rightarrow> (int \<times> int) set"
    and new :: "'v \<Rightarrow> (int \<Rightarrow> int \<Rightarrow> 'a) \<Rightarrow> 'a"
    and good :: "size2 \<Rightarrow> 'v \<Rightarrow> bool"
  assumes step: "bitmap_ok b \<Longrightarrow> good (bm_size b) v \<Longrightarrow>
      \<exists>b'. step v b = Ok b' \<and> paints b (\<lambda>x y. (x, y) = at v) (\<lambda>_ _ _. new v (bm_px b)) b'"
    and deps_in: "good (bm_size b) v \<Longrightarrow> (x, y) \<in> deps v \<Longrightarrow> in_bounds b x y"
    and new: "(\<And>x y. (x, y) \<in> deps v \<Longrightarrow> f x y = g x y) \<Longrightarrow> new v f = new v g"
begin

lemma visits_paint:
  assumes "bitmap_ok b" "\<And>v. v \<in> set vs \<Longrightarrow> good (bm_size b) v"
    and "sorted_wrt (\<lambda>v w. at v \<noteq> at w \<and> at v \<notin> deps w) vs"
    and "\<And>v x y. v \<in> set vs \<Longrightarrow> at v = (x, y) \<Longrightarrow> g x y (bm_px b x y) = new v (bm_px b)"
  shows "\<exists>b'. visits step vs b = Ok b' \<and> paints b (\<lambda>x y. (x, y) \<in> at ` set vs) g b'"
  using assms
proof (induction vs arbitrary: b g)
  case Nil
  then show ?case by (simp add: paints_refl)
next
  case (Cons v vs)
  from step [OF Cons.prems(1) Cons.prems(2)] obtain b1 where
    b1: "step v b = Ok b1" "paints b (\<lambda>x y. (x, y) = at v) (\<lambda>_ _ _. new v (bm_px b)) b1" by auto
  have size: "bm_size b1 = bm_size b" using b1(2) by (simp add: paints_def)
  then have inb: "in_bounds b1 x y \<longleftrightarrow> in_bounds b x y" for x y by (simp add: in_bounds_def)
  have same: "bm_px b1 x y = bm_px b x y" if "w \<in> set vs" "(x, y) \<in> deps w \<or> (x, y) = at w" "in_bounds b x y" for w x y
    using that Cons.prems(3) paints_px [OF b1(2) that(3)] by auto
  have new_eq: "new w (bm_px b1) = new w (bm_px b)" if "w \<in> set vs" for w
    using that same deps_in [of b w] Cons.prems(2) by (intro new) auto
  let ?g = "\<lambda>x y old. if (x, y) \<in> at ` set vs then g x y (bm_px b x y) else old"
  have "\<exists>b'. visits step vs b1 = Ok b' \<and> paints b1 (\<lambda>x y. (x, y) \<in> at ` set vs) ?g b'"
  proof (rule Cons.IH)
    show "?g x y (bm_px b1 x y) = new w (bm_px b1)" if "w \<in> set vs" "at w = (x, y)" for w x y
      using that new_eq [OF that(1)] Cons.prems(4) [of w x y] by (auto simp: image_iff)
  qed (use Cons.prems b1(2) size in \<open>auto intro: paints_ok\<close>)
  then obtain b2 where b2: "visits step vs b1 = Ok b2" "paints b1 (\<lambda>x y. (x, y) \<in> at ` set vs) ?g b2" by blast
  have "paints b (\<lambda>x y. (x, y) \<in> at ` set (v # vs)) g b2"
    using b1(2) b2(2) inb Cons.prems(4) [of v] unfolding paints_def bm_off_def by (auto simp: in_bounds_def)
  then show ?case using b1(1) b2(1) by simp
qed

end

text \<open>The unchecked accesses, where they are allowed.\<close>

lemma get_unchecked_in_bounds:
  assumes "bitmap_ok b" "in_bounds b (pt_x p) (pt_y p)"
  shows "get_pixel_unchecked b p = Ok (bm_px b (pt_x p) (pt_y p))"
proof -
  have reg: "bm_region b (pt_x p) (pt_y p) 1 1" using assms(2) by (auto simp: bm_region_def in_bounds_def)
  with regionD(6,7) [OF assms(1) reg] show ?thesis
    by (simp add: get_pixel_unchecked_def pixel_index_def slice_get_unchecked_def bm_px_def)
qed

lemma set_unchecked_in_bounds:
  assumes "bitmap_ok b" "in_bounds b (pt_x p) (pt_y p)"
  shows "\<exists>b'. (set_pixel_unchecked b p c :: ('e, 'a bitmap) outcome) = Ok b' \<and> paints b (\<lambda>x y. x = pt_x p \<and> y = pt_y p) (\<lambda>_ _ _. c) b'"
  using set_pixel_paints [OF assms(1), of p c] assms by (simp add: set_pixel_def in_bounds_contains)

lemma sum_pixels_in_bounds:
  assumes "bitmap_ok b" "\<forall>p\<in>set ps. in_bounds b (pt_x p) (pt_y p)" "acc + 255 * length ps < 2 ^ 64"
  shows "sum_pixels b ps acc = Ok (acc + sum_list (map (\<lambda>p. unat (bm_px b (pt_x p) (pt_y p))) ps))"
  using assms(2,3)
proof (induction ps arbitrary: acc)
  case (Cons p ps)
  let ?v = "unat (bm_px b (pt_x p) (pt_y p))"
  have v: "?v \<le> 255" using unat_u8_less [of "bm_px b (pt_x p) (pt_y p)"] by simp
  then have "usize_add acc ?v = acc + ?v" using Cons.prems(2) by (intro usize_add_exact) simp
  then show ?case using Cons v by (simp add: get_unchecked_in_bounds [OF assms(1)])
qed simp

definition point_good :: "size2 \<Rightarrow> point \<Rightarrow> bool" where
  "point_good sz p \<longleftrightarrow> 0 \<le> pt_x p \<and> pt_x p < sz_width sz \<and> 0 \<le> pt_y p \<and> pt_y p < sz_height sz"

lemma point_good_in_bounds: "point_good (bm_size b) p \<longleftrightarrow> in_bounds b (pt_x p) (pt_y p)"
  by (simp add: point_good_def in_bounds_def)

definition blur_good :: "size2 \<Rightarrow> point \<times> point list \<Rightarrow> bool" where
  "blur_good sz v \<longleftrightarrow> point_good sz (fst v) \<and> (\<forall>p\<in>set (snd v). point_good sz p) \<and> length (snd v) < 2 ^ 32"

text \<open>The mean of some pixels of a picture.\<close>

definition pixel_sum :: "(int \<Rightarrow> int \<Rightarrow> u8) \<Rightarrow> point list \<Rightarrow> nat" where
  "pixel_sum f ps = sum_list (map (\<lambda>p. unat (f (pt_x p) (pt_y p))) ps)"

interpretation blurring: point_loop "blur_visit (Suc n) F :: _ \<Rightarrow> _ \<Rightarrow> ('e, u8 bitmap) outcome" "\<lambda>v. (pt_x (fst v), pt_y (fst v))" "\<lambda>v. (\<lambda>p. (pt_x p, pt_y p)) ` set (snd v)"
    "\<lambda>v f. F (pixel_sum f (snd v) div Suc n)" blur_good
  for n :: nat and F :: "nat \<Rightarrow> u8"
proof (unfold_locales, goal_cases)
  case (1 b v)
  then have "(sum_pixels b (snd v) 0 :: ('e, nat) outcome) = Ok (pixel_sum (bm_px b) (snd v))"
    by (subst sum_pixels_in_bounds) (auto simp: blur_good_def point_good_in_bounds pixel_sum_def)
  moreover have "in_bounds b (pt_x (fst v)) (pt_y (fst v))" using 1 by (simp add: blur_good_def point_good_in_bounds)
  ultimately show ?case using set_unchecked_in_bounds [OF 1(1)] by (simp add: blur_visit_def split_beta)
next
  case (2 b v x y)
  then show ?case by (auto simp: blur_good_def point_good_in_bounds)
next
  case (3 v f g)
  then have "pixel_sum f (snd v) = pixel_sum g (snd v)" unfolding pixel_sum_def by (intro arg_cong [where f = sum_list] map_cong) auto
  then show ?case by simp
qed

interpretation transferring: point_loop "transfer_visit src k :: _ \<Rightarrow> _ \<Rightarrow> ('e, 'a bitmap) outcome" "\<lambda>v. (pt_x (fst v), pt_y (fst v))" "\<lambda>v. {(pt_x (fst v), pt_y (fst v))}"
    "\<lambda>v f. k (bm_px src (pt_x (snd v)) (pt_y (snd v))) (f (pt_x (fst v)) (pt_y (fst v)))"
    "\<lambda>sz v. bitmap_ok src \<and> point_good sz (fst v) \<and> point_good (bm_size src) (snd v)"
  for src :: "'b bitmap" and k :: "'b \<Rightarrow> 'a \<Rightarrow> 'a"
proof (unfold_locales, goal_cases)
  case (1 b v)
  then have "(get_pixel_unchecked src (snd v) :: ('e, 'b) outcome) = Ok (bm_px src (pt_x (snd v)) (pt_y (snd v)))"
    "(get_pixel_unchecked b (fst v) :: ('e, 'a) outcome) = Ok (bm_px b (pt_x (fst v)) (pt_y (fst v)))"
    by (simp_all add: get_unchecked_in_bounds point_good_in_bounds)
  moreover have "in_bounds b (pt_x (fst v)) (pt_y (fst v))" using 1 by (simp add: point_good_in_bounds)
  ultimately show ?case using set_unchecked_in_bounds [OF 1(1)] by (simp add: transfer_visit_def split_beta)
qed (auto simp: point_good_in_bounds)


section \<open>Blur is a blur of the old picture\<close>

text \<open>The points that are summed up for a pixel: at most \<open>len\<close>, and the pixel at the border is never one of them.\<close>

definition up_points :: "int \<Rightarrow> int \<Rightarrow> int \<Rightarrow> point list" where
  "up_points len x y = map (\<lambda>r. point_new x (y - r)) [0..min len y - 1]"

definition left_points :: "int \<Rightarrow> int \<Rightarrow> int \<Rightarrow> point list" where
  "left_points len x y = map (\<lambda>r. point_new (x - r) y) [0..min len x - 1]"

text \<open>The reference: first the mean of every column segment, then of every row segment of that.\<close>

definition blur_columns :: "int \<Rightarrow> (int \<Rightarrow> int \<Rightarrow> u8) \<Rightarrow> int \<Rightarrow> int \<Rightarrow> u8" where
  "blur_columns len f x y = of_nat (pixel_sum f (up_points len x y) div nat len)"

definition blur_rows :: "int \<Rightarrow> nat \<Rightarrow> (int \<Rightarrow> int \<Rightarrow> u8) \<Rightarrow> int \<Rightarrow> int \<Rightarrow> u8" where
  "blur_rows len level f x y = of_nat (min 255 (usize_mul (pixel_sum f (left_points len x y) div nat len) level div 256))"

definition column_list :: "int \<Rightarrow> int \<Rightarrow> int \<Rightarrow> (point \<times> point list) list" where
  "column_list len w h = [(point_new x y, up_points len x y). y \<leftarrow> rev [0..h - 1], x \<leftarrow> [0..w - 1]]"

definition row_list :: "int \<Rightarrow> int \<Rightarrow> int \<Rightarrow> (point \<times> point list) list" where
  "row_list len w h = [(point_new x y, left_points len x y). y \<leftarrow> [0..h - 1], x \<leftarrow> rev [0..w - 1]]"

text \<open>The two loops of each pass are one when the picture is at least as large as the filter.\<close>

lemma rev_upto_split: "0 \<le> l \<Longrightarrow> l \<le> h \<Longrightarrow> rev [0..h - 1] = rev [l..h - 1] @ rev [0..l - 1 :: int]"
  using upto_split1 [of 0 l "h - 1"] by (cases "l = h") (auto simp flip: rev_append)

lemma up_points_eq:
  assumes "small y" "small len"
  shows "len \<le> y \<Longrightarrow> map (\<lambda>r. point_new x (isize_sub y r)) [0..len - 1] = up_points len x y"
    and "0 \<le> y \<Longrightarrow> y < len \<Longrightarrow> map (\<lambda>r. point_new x (isize_sub y r)) [0..y - 1] = up_points len x y"
  using assms by (auto simp: up_points_def min_def small_iff isize_simps)

lemma left_points_eq:
  assumes "small x" "small len"
  shows "len \<le> x \<Longrightarrow> map (\<lambda>r. point_new (isize_sub x r) y) [0..len - 1] = left_points len x y"
    and "0 \<le> x \<Longrightarrow> x < len \<Longrightarrow> map (\<lambda>r. point_new (isize_sub x r) y) [0..x - 1] = left_points len x y"
  using assms by (auto simp: left_points_def min_def small_iff isize_simps)

lemma column_visits_eq:
  assumes "0 \<le> len" "len \<le> h" "small h"
  shows "column_visits len w h = column_list len w h"
  unfolding column_visits_def column_list_def rev_upto_split [OF assms(1,2)] map_append concat_append
  using assms up_points_eq [of _ len]
  by (intro arg_cong2 [where f = append] arg_cong [where f = concat] map_cong refl) (auto simp: small_iff)

lemma row_visits_eq:
  assumes "0 \<le> len" "len \<le> w" "small w"
  shows "row_visits len w h = row_list len w h"
  unfolding row_visits_def row_list_def rev_upto_split [OF assms(1,2)] map_append concat_append
  using assms left_points_eq [of _ len]
  by (intro arg_cong2 [where f = append] arg_cong [where f = concat] map_cong refl) (auto simp: small_iff)

text \<open>Orders of nested loops.\<close>

lemma sorted_wrt_grid:
  assumes "sorted_wrt R ys" "sorted_wrt S xs"
    and "\<And>x y x' y'. R y y' \<Longrightarrow> P (f x y) (f x' y')" "\<And>x x' y. S x x' \<Longrightarrow> P (f x y) (f x' y)"
  shows "sorted_wrt P [f x y. y \<leftarrow> ys, x \<leftarrow> xs]"
  using assms(1)
proof (induction ys)
  case (Cons y ys)
  have "sorted_wrt P (map (\<lambda>x. f x y) xs)"
    unfolding sorted_wrt_map by (rule sorted_wrt_mono_rel [OF _ assms(2)]) (rule assms(4))
  with Cons show ?case by (auto simp: sorted_wrt_append assms(3))
qed simp

lemma sorted_wrt_upto: "sorted_wrt (<) [i..j]" "sorted_wrt (>) (rev [i..j])" for i j :: int
  by (simp_all add: sorted_wrt_rev strict_sorted_iff)

lemma column_pass:
  assumes ok: "bitmap_ok b" and len: "0 < len" "len \<le> sz_height (bm_size b)"
  shows "\<exists>b'. (visits (blur_visit (nat len) of_nat) (column_visits len (sz_width (bm_size b)) (sz_height (bm_size b))) b :: ('e, u8 bitmap) outcome) = Ok b' \<and>
    paints b (\<lambda>_ _. True) (\<lambda>x y _. blur_columns len (bm_px b) x y) b'"
proof -
  let ?w = "sz_width (bm_size b)" and ?h = "sz_height (bm_size b)"
  obtain n where n: "nat len = Suc n" using len by (cases "nat len") auto
  note dims = bitmap_ok_small [OF ok]
  have eq: "column_visits len ?w ?h = column_list len ?w ?h" using len dims by (intro column_visits_eq) auto
  have sorted: "sorted_wrt (\<lambda>v w. (pt_x (fst v), pt_y (fst v)) \<noteq> (pt_x (fst w), pt_y (fst w)) \<and>
      (pt_x (fst v), pt_y (fst v)) \<notin> (\<lambda>p. (pt_x p, pt_y p)) ` set (snd w)) (column_list len ?w ?h)"
    unfolding column_list_def
    by (rule sorted_wrt_grid [OF sorted_wrt_upto(2) sorted_wrt_upto(1)]) (auto simp: up_points_def point_new_def)
  have good: "blur_good (bm_size b) v" if "v \<in> set (column_list len ?w ?h)" for v
    using that len dims by (auto simp: column_list_def blur_good_def point_good_def up_points_def point_new_def small_iff)
  have val: "blur_columns len (bm_px b) x y = of_nat (pixel_sum (bm_px b) (snd v) div Suc n)"
    if "v \<in> set (column_list len ?w ?h)" "(pt_x (fst v), pt_y (fst v)) = (x, y)" for v x y
    using that by (auto simp: column_list_def blur_columns_def point_new_def n)
  from blurring.visits_paint [where 'e = 'e, OF ok good sorted, of "\<lambda>x y _. blur_columns len (bm_px b) x y" of_nat n] val obtain b' where
    b': "(visits (blur_visit (Suc n) of_nat) (column_list len ?w ?h) b :: ('e, u8 bitmap) outcome) = Ok b'"
    "paints b (\<lambda>x y. (x, y) \<in> (\<lambda>v. (pt_x (fst v), pt_y (fst v))) ` set (column_list len ?w ?h)) (\<lambda>x y _. blur_columns len (bm_px b) x y) b'"
    by blast
  have "paints b (\<lambda>_ _. True) (\<lambda>x y _. blur_columns len (bm_px b) x y) b'"
    by (rule paints_cong [OF b'(2)]) (force simp: column_list_def in_bounds_def point_new_def image_iff)+
  with b'(1) show ?thesis unfolding eq n by blast
qed

lemma row_pass:
  assumes ok: "bitmap_ok b" and len: "0 < len" "len \<le> sz_width (bm_size b)"
  shows "\<exists>b'. (visits (blur_visit (nat len) (\<lambda>m. of_nat (min 255 (usize_mul m level div 256)))) (row_visits len (sz_width (bm_size b)) (sz_height (bm_size b))) b :: ('e, u8 bitmap) outcome) = Ok b' \<and>
    paints b (\<lambda>_ _. True) (\<lambda>x y _. blur_rows len level (bm_px b) x y) b'"
proof -
  let ?w = "sz_width (bm_size b)" and ?h = "sz_height (bm_size b)" and ?F = "\<lambda>m. of_nat (min 255 (usize_mul m level div 256)) :: u8"
  obtain n where n: "nat len = Suc n" using len by (cases "nat len") auto
  note dims = bitmap_ok_small [OF ok]
  have eq: "row_visits len ?w ?h = row_list len ?w ?h" using len dims by (intro row_visits_eq) auto
  have sorted: "sorted_wrt (\<lambda>v w. (pt_x (fst v), pt_y (fst v)) \<noteq> (pt_x (fst w), pt_y (fst w)) \<and>
      (pt_x (fst v), pt_y (fst v)) \<notin> (\<lambda>p. (pt_x p, pt_y p)) ` set (snd w)) (row_list len ?w ?h)"
    unfolding row_list_def
    by (rule sorted_wrt_grid [OF sorted_wrt_upto(1) sorted_wrt_upto(2)]) (auto simp: left_points_def point_new_def)
  have good: "blur_good (bm_size b) v" if "v \<in> set (row_list len ?w ?h)" for v
    using that len dims by (auto simp: row_list_def blur_good_def point_good_def left_points_def point_new_def small_iff)
  have val: "blur_rows len level (bm_px b) x y = ?F (pixel_sum (bm_px b) (snd v) div Suc n)"
    if "v \<in> set (row_list len ?w ?h)" "(pt_x (fst v), pt_y (fst v)) = (x, y)" for v x y
    using that by (auto simp: row_list_def blur_rows_def point_new_def n)
  from blurring.visits_paint [where 'e = 'e, OF ok good sorted, of "\<lambda>x y _. blur_rows len level (bm_px b) x y" ?F n] val obtain b' where
    b': "(visits (blur_visit (Suc n) ?F) (row_list len ?w ?h) b :: ('e, u8 bitmap) outcome) = Ok b'"
    "paints b (\<lambda>x y. (x, y) \<in> (\<lambda>v. (pt_x (fst v), pt_y (fst v))) ` set (row_list len ?w ?h)) (\<lambda>x y _. blur_rows len level (bm_px b) x y) b'"
    by blast
  have "paints b (\<lambda>_ _. True) (\<lambda>x y _. blur_rows len level (bm_px b) x y) b'"
    by (rule paints_cong [OF b'(2)]) (force simp: row_list_def in_bounds_def point_new_def image_iff)+
  with b'(1) show ?thesis unfolding eq n by blast
qed

lemma bounds_size:
  assumes "bitmap_ok b"
  shows "sz_width (r_size (bm_bounds b)) = sz_width (bm_size b)" "sz_height (r_size (bm_bounds b)) = sz_height (bm_size b)"
  using assms by (simp_all add: bitmap_ok_def bm_bounds_def size_bounds_def rect_new_def isize_abs_def)

lemma blur_length: "0 \<le> radius \<Longrightarrow> small radius \<Longrightarrow> isize_add (isize_mul radius 2) 1 = 2 * radius + 1"
  by (simp add: small_iff isize_mul_exact isize_simps)

lemma blur_rows_cong:
  assumes "\<And>x y. in_bounds b x y \<Longrightarrow> f x y = g x y" "in_bounds b x y"
  shows "blur_rows len level f x y = blur_rows len level g x y"
proof -
  have "pixel_sum f (left_points len x y) = pixel_sum g (left_points len x y)"
    unfolding pixel_sum_def using assms
    by (intro arg_cong [where f = sum_list] map_cong) (auto simp: left_points_def point_new_def in_bounds_def)
  then show ?thesis by (simp add: blur_rows_def)
qed

lemma blur_bitmap_spec:
  assumes ok: "bitmap_ok b" and r: "0 \<le> radius" "2 * radius + 1 \<le> sz_width (bm_size b)" "2 * radius + 1 \<le> sz_height (bm_size b)"
  shows "\<exists>b'. (blur_bitmap b radius level :: ('e, u8 bitmap) outcome) = Ok b' \<and>
    paints b (\<lambda>_ _. True) (\<lambda>x y _. blur_rows (2 * radius + 1) level (blur_columns (2 * radius + 1) (bm_px b)) x y) b'"
proof -
  let ?len = "2 * radius + 1"
  have small: "small radius" "0 < ?len" "?len < 2 ^ 63" using r bitmap_ok_small [OF ok] by (auto simp: small_iff)
  from column_pass [OF ok small(2) r(3)] obtain b1 where
    b1: "(visits (blur_visit (nat ?len) of_nat) (column_visits ?len (sz_width (bm_size b)) (sz_height (bm_size b))) b :: ('e, u8 bitmap) outcome) = Ok b1"
    "paints b (\<lambda>_ _. True) (\<lambda>x y _. blur_columns ?len (bm_px b) x y) b1" by blast
  have size: "bm_size b1 = bm_size b" using b1(2) by (simp add: paints_def)
  from row_pass [OF paints_ok [OF b1(2) ok] small(2)] r(2) obtain b2 where
    b2: "(visits (blur_visit (nat ?len) (\<lambda>m. of_nat (min 255 (usize_mul m level div 256)))) (row_visits ?len (sz_width (bm_size b)) (sz_height (bm_size b))) b1 :: ('e, u8 bitmap) outcome) = Ok b2"
    "paints b1 (\<lambda>_ _. True) (\<lambda>x y _. blur_rows ?len level (bm_px b1) x y) b2" unfolding size by blast
  have "blur_bitmap b radius level = (Ok b2 :: ('e, u8 bitmap) outcome)"
    using b1(1) b2(1) small r by (simp add: blur_bitmap_def Let_def bounds_size [OF ok] blur_length as_usize_nonneg)
  moreover have "blur_rows ?len level (bm_px b1) x y = blur_rows ?len level (blur_columns ?len (bm_px b)) x y" if "in_bounds b x y" for x y
    by (rule blur_rows_cong [OF _ that]) (use paints_px [OF b1(2)] in simp)
  then have "paints b (\<lambda>_ _. True) (\<lambda>x y _. blur_rows ?len level (blur_columns ?len (bm_px b)) x y) b2"
    using b1(2) b2(2) unfolding paints_def bm_off_def by (auto simp: in_bounds_def size)
  ultimately show ?thesis by blast
qed

text \<open>A picture with fewer rows than the filter is written behind its end.\<close>

lemma blur_bitmap_too_small:
  assumes ok: "bitmap_ok b" and r: "0 \<le> radius" "small radius" "sz_height (bm_size b) < 2 * radius + 1" "0 < sz_width (bm_size b)"
    and owned: "bm_stride b = nat (sz_width (bm_size b))" "length (bm_slice b) = nat (sz_height (bm_size b)) * bm_stride b"
  shows "(blur_bitmap b radius level :: ('e, u8 bitmap) outcome) = UB OutOfRange"
proof -
  let ?len = "2 * radius + 1" and ?w = "sz_width (bm_size b)" and ?h = "sz_height (bm_size b)"
  let ?p = "point_new 0 (2 * radius)"
  have dims: "0 \<le> ?h" "?h < 2 ^ 31" "?w < 2 ^ 31" using ok by (simp_all add: bitmap_ok_def)
  have "rev [0..?len - 1] = 2 * radius # rev [0..2 * radius - 1]" "[0..?w - 1] = 0 # [1..?w - 1]" "[?len..?h - 1] = []"
    using r upto_rec2 [of 0 "2 * radius"] upto_rec1 [of 0 "?w - 1"] by simp_all
  then obtain vs where first: "column_visits ?len ?w ?h = (?p, map (\<lambda>r. point_new 0 (isize_sub (2 * radius) r)) [0..2 * radius - 1]) # vs"
    by (simp add: column_visits_def)
  have "nat (2 * radius) * bm_stride b < 2 ^ 33 * 2 ^ 31" using r dims owned(1) by (intro mult_strict_mono) (auto simp: small_iff nat_less_iff)
  then have idx: "pixel_index b ?p = nat (2 * radius) * bm_stride b"
    using r by (simp add: pixel_index_def point_new_def as_usize_nonneg small_iff usize_mul_exact usize_add_exact)
  have "nat ?h * bm_stride b \<le> nat (2 * radius) * bm_stride b" using r by (intro mult_right_mono) auto
  then have out: "get_pixel_unchecked b ?p = (UB OutOfRange :: ('e, u8) outcome)" "set_pixel_unchecked b ?p c = (UB OutOfRange :: ('e, u8 bitmap) outcome)" for c
    unfolding get_pixel_unchecked_def set_pixel_unchecked_def slice_get_unchecked_def slice_set_unchecked_def idx owned(2) not_less [symmetric]
    by simp_all
  have "blur_visit (nat ?len) F (?p, map (\<lambda>r. point_new 0 (isize_sub (2 * radius) r)) [0..2 * radius - 1]) b = (UB OutOfRange :: ('e, u8 bitmap) outcome)" for F
  proof (cases "radius = 0")
    case True
    then show ?thesis using out(2) by (simp add: blur_visit_def)
  next
    case False
    then have "[0..2 * radius - 1] = 0 # [1..2 * radius - 1]" using r upto_rec1 [of 0 "2 * radius - 1"] by simp
    moreover have "isize_sub (2 * radius) 0 = 2 * radius" using r by (simp add: isize_simps small_iff)
    ultimately show ?thesis using out(1) by (simp add: blur_visit_def)
  qed
  then show ?thesis using r by (simp add: blur_bitmap_def Let_def bounds_size [OF ok] blur_length as_usize_nonneg small_iff first)
qed


section \<open>Transfers, filling and conversion\<close>

lemma transfer_visits_eq:
  assumes "small dx" "small dy" "small sx" "small sy" "small w" "small h"
  shows "transfer_visits dx dy sx sy w h = [(point_new (dx + x) (dy + y), point_new (sx + x) (sy + y)). y \<leftarrow> [0..h - 1], x \<leftarrow> [0..w - 1]]"
  unfolding transfer_visits_def using assms
  by (intro arg_cong [where f = concat] map_cong refl) (auto simp: small_iff isize_simps)

lemma pixel_transfer_paints:
  fixes b :: "'a bitmap" and src :: "'b bitmap"
  assumes ok: "bitmap_ok b" "bitmap_ok src" "rect_small r" "small (pt_x p)" "small (pt_y p)"
  shows "\<exists>b'. (transfer src b p r k :: ('e, 'a bitmap) outcome) = Ok b' \<and> paints b (blt_area src p r) (\<lambda>x y. k (blt_px src p r x y)) b'"
proof -
  obtain dx dy sx sy w h where adj: "adjust_blt_coords (bm_size b) (bm_size src) p r = (dx, dy, sx, sy, w, h)" by (metis prod_cases6)
  show ?thesis
  proof (cases "w \<le> 0 \<or> h \<le> 0")
    case True
    with blt_nothing [OF ok adj True] show ?thesis by (simp add: transfer_def adj)
  next
    case False
    then have pos: "0 < w" "0 < h" by auto
    note reg = blt_regions [OF ok adj pos]
    let ?vs = "[(point_new (dx + x) (dy + y), point_new (sx + x) (sy + y)). y \<leftarrow> [0..h - 1], x \<leftarrow> [0..w - 1]]"
    have eq: "transfer_visits dx dy sx sy w h = ?vs"
      using reg bitmap_ok_small [OF ok(1)] bitmap_ok_small [OF ok(2)] by (intro transfer_visits_eq) (auto simp: bm_region_def small_iff)
    have sorted: "sorted_wrt (\<lambda>v w. (pt_x (fst v), pt_y (fst v)) \<noteq> (pt_x (fst w), pt_y (fst w)) \<and>
        (pt_x (fst v), pt_y (fst v)) \<notin> {(pt_x (fst w), pt_y (fst w))}) ?vs"
      by (rule sorted_wrt_grid [OF sorted_wrt_upto(1) sorted_wrt_upto(1)]) (auto simp: point_new_def)
    have good: "bitmap_ok src \<and> point_good (bm_size b) (fst v) \<and> point_good (bm_size src) (snd v)" if "v \<in> set ?vs" for v
      using that reg ok(2) by (auto simp: point_good_def point_new_def bm_region_def)
    note spec = adjust_spec [OF ok adj]
    have val: "k (blt_px src p r x y) (bm_px b x y) = k (bm_px src (pt_x (snd v)) (pt_y (snd v))) (bm_px b (pt_x (fst v)) (pt_y (fst v)))"
      if "v \<in> set ?vs" "(pt_x (fst v), pt_y (fst v)) = (x, y)" for v x y
    proof -
      have "pt_x (snd v) = x - pt_x p + min_x r" "pt_y (snd v) = y - pt_y p + min_y r"
        using that spec(1) [OF pos] by (auto simp: point_new_def)
      with that(2) show ?thesis by (auto simp: blt_px_def)
    qed
    from transferring.visits_paint [where 'e = 'e, OF ok(1) good sorted, of "\<lambda>x y. k (blt_px src p r x y)" k] val obtain b' where
      b': "(visits (transfer_visit src k) ?vs b :: ('e, 'a bitmap) outcome) = Ok b'"
      "paints b (\<lambda>x y. (x, y) \<in> (\<lambda>v. (pt_x (fst v), pt_y (fst v))) ` set ?vs) (\<lambda>x y. k (blt_px src p r x y)) b'" by blast
    have area: "(x, y) \<in> (\<lambda>v. (pt_x (fst v), pt_y (fst v))) ` set ?vs \<longleftrightarrow> dx \<le> x \<and> x < dx + w \<and> dy \<le> y \<and> y < dy + h" for x y
    proof
      assume "dx \<le> x \<and> x < dx + w \<and> dy \<le> y \<and> y < dy + h"
      then have "(point_new (dx + (x - dx)) (dy + (y - dy)), point_new (sx + (x - dx)) (sy + (y - dy))) \<in> set ?vs"
        by (simp only: set_concat set_map image_image) (rule UN_I [of "y - dy"], simp, rule image_eqI [of _ _ "x - dx"], simp_all)
      then show "(x, y) \<in> (\<lambda>v. (pt_x (fst v), pt_y (fst v))) ` set ?vs" by (force simp: point_new_def)
    qed (auto simp: point_new_def)
    have "paints b (blt_area src p r) (\<lambda>x y. k (blt_px src p r x y)) b'"
      by (rule paints_cong [OF b'(2)]) (simp_all only: area blt_area_def spec(2))
    with b'(1) False show ?thesis by (auto simp: transfer_def adj eq)
  qed
qed

text \<open>
  \<open>new\<close> and \<open>fill\<close> together give a full bitmap, and \<open>fill\<close> again keeps it full; a vector that is short but
  has the capacity stays short.
\<close>

definition ob_full :: "op_bitmap \<Rightarrow> bool" where
  "ob_full o' \<longleftrightarrow> length (ob_vec o') = nat (sz_width (ob_size o')) * nat (sz_height (ob_size o')) \<and> length (ob_vec o') \<le> ob_capacity o'"

definition size_ok :: "size2 \<Rightarrow> bool" where
  "size_ok sz \<longleftrightarrow> 0 \<le> sz_width sz \<and> sz_width sz < 2 ^ 31 \<and> 0 \<le> sz_height sz \<and> sz_height sz < 2 ^ 31"

lemma size_ok_count:
  assumes "size_ok sz"
  shows "usize_mul (as_usize (sz_width sz)) (as_usize (sz_height sz)) = nat (sz_width sz) * nat (sz_height sz)"
    "nat (sz_width sz) * nat (sz_height sz) < 2 ^ 62"
proof -
  have "nat (sz_width sz) * nat (sz_height sz) < 2 ^ 31 * 2 ^ 31" using assms by (intro mult_strict_mono) (auto simp: size_ok_def nat_less_iff)
  then show "usize_mul (as_usize (sz_width sz)) (as_usize (sz_height sz)) = nat (sz_width sz) * nat (sz_height sz)"
    "nat (sz_width sz) * nat (sz_height sz) < 2 ^ 62"
    using assms by (simp_all add: size_ok_def as_usize_nonneg usize_mul_exact)
qed

lemma ob_full_ok:
  assumes "ob_full o'" "size_ok (ob_size o')"
  shows "bitmap_ok (ob_bitmap o')"
proof -
  let ?w = "nat (sz_width (ob_size o'))" and ?h = "nat (sz_height (ob_size o'))"
  have "(?h - 1) * ?w + ?w = ?w * ?h" if "0 < ?h" using that by (cases ?h) simp_all
  with assms size_ok_count(2) [OF assms(2)] show ?thesis
    by (auto simp: bitmap_ok_def ob_bitmap_def ob_full_def size_ok_def as_usize_nonneg)
qed

lemma ob_fill_full:
  assumes "size_ok (ob_size o')" "o' = ob_new sz \<or> ob_full o'" "nat (sz_width (ob_size o')) * nat (sz_height (ob_size o')) \<le> new_cap"
  shows "ob_full (ob_fill new_cap o' c) \<and> ob_vec (ob_fill new_cap o' c) = replicate (nat (sz_width (ob_size o')) * nat (sz_height (ob_size o'))) c"
  using assms(2,3) size_ok_count [OF assms(1)]
  by (auto simp: ob_fill_def Let_def ob_full_def ob_new_def vec_resize_to_def split: if_splits)

lemma ob_fill_stays_short: "length (ob_vec (ob_fill new_cap (ob_from_vec [] 4 (size_new 2 2)) c)) = 0"
  by (simp add: ob_fill_def ob_from_vec_def size_new_def Let_def as_usize_def usize_mul_def)

text \<open>\<open>from_pixels\<close> takes all the items of the iterator, so it reads behind every owned bitmap.\<close>

lemma all_pixels_items_past_end:
  assumes ok: "bitmap_ok b" and "0 < bm_width b" "0 < bm_height b" "bm_stride b = bm_width b"
    and "length (bm_slice b) = bm_width b * bm_height b" and "k \<le> bm_width b * bm_height b"
  shows "(all_pixels_items b (pixels_pos (bm_width b) k) :: ('e, 'a list) outcome option) = Some (UB OutOfRange)"
  using assms(6)
proof (induction rule: inc_induct)
  case base
  show ?case by (subst all_pixels_items.simps) (simp add: all_pixels_past_end [OF assms(1-5)])
next
  case (step n)
  have next': "all_pixels_next b (pixels_pos (bm_width b) n) =
    (Ok (Some (bm_slice b ! n, pixels_pos (bm_width b) (Suc n))) :: ('e, ('a \<times> nat \<times> nat) option) outcome)"
    by (rule all_pixels_step [OF ok]) (use step assms in auto)
  show ?case using step by (subst all_pixels_items.simps) (simp add: next')
qed

lemma from_pixels_past_end:
  assumes "bitmap_ok b" "0 < bm_width b" "0 < bm_height b" "bm_stride b = bm_width b" "length (bm_slice b) = bm_width b * bm_height b"
  shows "(from_pixels b k :: ('e, op_bitmap) outcome option) = Some (UB OutOfRange)"
proof -
  have "(all_pixels_items b (0, 0) :: ('e, 'a list) outcome option) = Some (UB OutOfRange)"
    using all_pixels_items_past_end [OF assms, of 0] by (simp add: pixels_pos_def)
  then show ?thesis by (simp add: from_pixels_def)
qed


section \<open>The properties\<close>

text \<open>
  C10: the blur in place.  On a picture that is at least as large as the filter, \<open>blur\<close> overwrites the
  picture while it reads it, but every pixel of the result is what two separate passes over the old picture
  give: first the means of the column segments, then the scaled means of the row segments of
  these.  No access leaves the vector.
\<close>

theorem blur_in_place:
  assumes "bitmap_ok (ob_bitmap o')" "0 \<le> radius" "2 * radius + 1 \<le> sz_width (ob_size o')" "2 * radius + 1 \<le> sz_height (ob_size o')"
  shows "\<exists>o2. (blur o' radius level :: ('e, op_bitmap) outcome) = Ok o2 \<and> ob_size o2 = ob_size o' \<and> bitmap_ok (ob_bitmap o2) \<and>
    (\<forall>x y. 0 \<le> x \<and> x < sz_width (ob_size o') \<and> 0 \<le> y \<and> y < sz_height (ob_size o') \<longrightarrow>
      bm_px (ob_bitmap o2) x y = blur_rows (2 * radius + 1) level (blur_columns (2 * radius + 1) (bm_px (ob_bitmap o'))) x y)"
proof -
  have size: "bm_size (ob_bitmap o') = ob_size o'" by (simp add: ob_bitmap_def)
  from blur_bitmap_spec [OF assms(1,2), of level] assms(3,4) obtain b' where b': "(blur_bitmap (ob_bitmap o') radius level :: ('e, u8 bitmap) outcome) = Ok b'"
    "paints (ob_bitmap o') (\<lambda>_ _. True) (\<lambda>x y _. blur_rows (2 * radius + 1) level (blur_columns (2 * radius + 1) (bm_px (ob_bitmap o'))) x y) b'"
    unfolding size by blast
  have "ob_bitmap (o'\<lparr>ob_vec := bm_slice b'\<rparr>) = b'" using b'(2) by (simp add: ob_bitmap_def paints_def)
  then show ?thesis using b' paints_ok [OF b'(2) assms(1)] paints_px [OF b'(2)]
    by (intro exI [of _ "o'\<lparr>ob_vec := bm_slice b'\<rparr>"]) (auto simp: blur_def in_bounds_def size)
qed

lemma ob_1x1:
  "ob_size (ob_from_slice [9] (size_new 1 1)) = \<lparr>sz_width = 1, sz_height = 1\<rparr>" "bitmap_ok (ob_bitmap (ob_from_slice [9] (size_new 1 1)))"
  "bm_size (ob_bitmap (ob_from_slice [9] (size_new 1 1))) = \<lparr>sz_width = 1, sz_height = 1\<rparr>"
  "bm_stride (ob_bitmap (ob_from_slice [9] (size_new 1 1))) = 1" "bm_slice (ob_bitmap (ob_from_slice [9] (size_new 1 1))) = [9]"
  by (simp_all add: ob_from_slice_def ob_bitmap_def size_new_def bitmap_ok_def as_usize_def)

theorem blur_in_place_witness:
  "\<exists>o2. (blur (ob_from_slice [9] (size_new 1 1)) 0 256 :: (unit, op_bitmap) outcome) = Ok o2 \<and> bm_px (ob_bitmap o2) 0 0 = 0"
proof -
  let ?o = "ob_from_slice [9] (size_new 1 1)"
  have "0 \<le> (0::int)" "2 * 0 + 1 \<le> sz_width (ob_size ?o)" "2 * 0 + 1 \<le> sz_height (ob_size ?o)" by (simp_all add: ob_1x1)
  from blur_in_place [OF ob_1x1(2) this, of 256] obtain o2 where o2: "(blur ?o 0 256 :: (unit, op_bitmap) outcome) = Ok o2"
    "\<forall>x y. 0 \<le> x \<and> x < 1 \<and> 0 \<le> y \<and> y < 1 \<longrightarrow> bm_px (ob_bitmap o2) x y = blur_rows 1 256 (blur_columns 1 (bm_px (ob_bitmap ?o))) x y"
    by (auto simp: ob_1x1)
  have "blur_rows 1 256 f 0 0 = 0" for f by (simp add: blur_rows_def left_points_def pixel_sum_def usize_mul_def)
  with o2 show ?thesis by auto
qed

text \<open>
  The blur of a small picture.  When a picture has columns but fewer rows than the filter, \<open>blur\<close>
  starts with a row below the picture and accesses the vector behind its end.
\<close>

theorem blur_leaves_small_picture:
  assumes "bitmap_ok (ob_bitmap o')" "ob_full o'" "0 \<le> radius" "small radius"
    and "sz_height (ob_size o') < 2 * radius + 1" "0 < sz_width (ob_size o')"
  shows "(blur o' radius level :: ('e, op_bitmap) outcome) = UB OutOfRange"
proof -
  let ?b = "ob_bitmap o'"
  have b: "bm_size ?b = ob_size o'" "bm_slice ?b = ob_vec o'" "bm_stride ?b = as_usize (sz_width (ob_size o'))" by (simp_all add: ob_bitmap_def)
  have "bm_stride ?b = nat (sz_width (bm_size ?b))" using assms(1) unfolding b(3) by (simp add: bitmap_ok_def b as_usize_nonneg)
  moreover from this have "length (bm_slice ?b) = nat (sz_height (bm_size ?b)) * bm_stride ?b" using assms(2) by (simp add: b(1,2) ob_full_def)
  ultimately have "(blur_bitmap ?b radius level :: ('e, u8 bitmap) outcome) = UB OutOfRange" using assms by (intro blur_bitmap_too_small) (simp_all add: b(1))
  then show ?thesis by (simp add: blur_def)
qed

theorem blur_leaves_small_picture_witness:
  "(blur (ob_from_slice [9] (size_new 1 1)) 1 256 :: (unit, op_bitmap) outcome) = UB OutOfRange"
proof -
  have "ob_full (ob_from_slice [9] (size_new 1 1))" by (simp add: ob_full_def ob_from_slice_def size_new_def)
  from blur_leaves_small_picture [OF ob_1x1(2) this, of 1 256] show ?thesis by (simp add: ob_1x1 small_iff)
qed

text \<open>
  Shadows and tinted drawings.  \<open>blt_shadow\<close> and \<open>draw_to\<close> change exactly the pixels that a block
  transfer changes: a shadow darkens each by the depth of the operational bitmap, a drawing puts the colour
  over it with the opacity of the operational bitmap.  A drawing on an indexed bitmap does nothing.
\<close>

theorem op_transfer_spec:
  fixes b :: "argb8888 bitmap"
  assumes "bitmap_ok b" "bitmap_ok (ob_bitmap o')" "rect_small r" "small (pt_x p)" "small (pt_y p)"
  defines "area \<equiv> blt_area (ob_bitmap o') p r" and "depth \<equiv> blt_px (ob_bitmap o') p r"
  shows "(\<exists>b'. blt_shadow o' b p r = Ok b' \<and> paints b area (\<lambda>x y old. shadowed old (depth x y)) b') \<and>
    (\<exists>b'. (draw_to o' (RefArgb32 b) p r c :: ('e, bitmap_ref) outcome) = Ok (RefArgb32 b') \<and>
      paints b area (\<lambda>x y old. blend_draw old (into_true_color ((components (color_into_true_color c))\<lparr>cc_a := depth x y\<rparr>))) b') \<and>
    draw_to o' (RefIndexed b8) p r c = Ok (RefIndexed b8)"
proof -
  from pixel_transfer_paints [OF assms(1-5), of "\<lambda>a b. shadowed b a"] have
    "\<exists>b'. blt_shadow o' b p r = Ok b' \<and> paints b area (\<lambda>x y old. shadowed old (depth x y)) b'"
    unfolding blt_shadow_def blt_to_def area_def depth_def .
  moreover from pixel_transfer_paints [OF assms(1-5), of "\<lambda>a b. blend_draw b (into_true_color ((components (color_into_true_color c))\<lparr>cc_a := a\<rparr>))"]
  obtain b' where "(transfer (ob_bitmap o') b p r (\<lambda>a b. blend_draw b (into_true_color ((components (color_into_true_color c))\<lparr>cc_a := a\<rparr>))) :: ('e, argb8888 bitmap) outcome) = Ok b'"
    "paints b area (\<lambda>x y old. blend_draw old (into_true_color ((components (color_into_true_color c))\<lparr>cc_a := depth x y\<rparr>))) b'"
    unfolding area_def depth_def by blast
  then have "\<exists>b'. (draw_to o' (RefArgb32 b) p r c :: ('e, bitmap_ref) outcome) = Ok (RefArgb32 b') \<and>
      paints b area (\<lambda>x y old. blend_draw old (into_true_color ((components (color_into_true_color c))\<lparr>cc_a := depth x y\<rparr>))) b'"
    by (auto simp: draw_to_def blt_to_def Let_def)
  moreover have "draw_to o' (RefIndexed b8) p r c = Ok (RefIndexed b8)" by (simp add: draw_to_def)
  ultimately show ?thesis by blast
qed

theorem op_transfer_spec_witness:
  "\<exists>b'. (blt_shadow (ob_from_slice [9] (size_new 1 1)) (bm_new (size_new 2 2) 0xFF000000) (point_new 0 0) (rect_new 0 0 1 1) :: (unit, argb8888 bitmap) outcome) = Ok b' \<and>
    bm_px b' 1 1 = 0xFF000000"
proof -
  let ?o = "ob_from_slice [9] (size_new 1 1)" and ?b = "bm_new (size_new 2 2) 0xFF000000 :: argb8888 bitmap" and ?p = "point_new 0 0" and ?r = "rect_new 0 0 1 1"
  have r: "min_x ?r = 0" "min_y ?r = 0" "sz_width (r_size ?r) = 1" "sz_height (r_size ?r) = 1"
    by (simp_all add: rect_new_def min_x_def min_y_def isize_abs_def)
  have hyps: "bitmap_ok ?b" "rect_small ?r" "small (pt_x ?p)" "small (pt_y ?p)"
    by (simp_all add: bm_new_2x2 bitmap_ok_def rect_small_def r small_iff point_new_def)
  from op_transfer_spec [OF hyps(1) ob_1x1(2) hyps(2-4), THEN conjunct1] obtain b' where
    b': "(blt_shadow ?o ?b ?p ?r :: (unit, argb8888 bitmap) outcome) = Ok b'"
    "paints ?b (blt_area (ob_bitmap ?o) ?p ?r) (\<lambda>x y old. shadowed old (blt_px (ob_bitmap ?o) ?p ?r x y)) b'" by blast
  have "bm_px b' 1 1 = 0xFF000000" using paints_px [OF b'(2), of 1 1]
    by (simp add: in_bounds_def blt_area_def in_rect_def r point_new_def bm_new_2x2 bm_px_def bm_off_def)
  with b'(1) show ?thesis by blast
qed

end
