(* ===== verification/Archive.thy ===== *)
theory Archive
  imports Leb128
begin

text \<open>
  The flattened archives of src/lib/mar: the LEB128 writer and reader of leb128.rs, and the header, the
  entries, the writer and the reader of lib.rs.  The kernel's initial file system is such an archive.

  Whether a vector of \<open>n\<close> bytes can be reserved is the parameter \<open>mem\<close> of the writer.  A reader
  that fails may have moved on, so its operations return the result and the reader.  The reader of an
  archive reinterprets the first bytes of the slice as a \<open>Header\<close>; the address of the slice decides
  whether that reference is aligned.
\<close>

section \<open>The writer\<close>

datatype mar_write_error = MarOutOfMemory

datatype mar_read_error = MarInvalidData | MarUnexpectedEof | MarOutOfBounds

text \<open>The writer is its vector.\<close>

type_synonym mar_writer = "u8 list"

definition mar_write_bytes :: "(nat \<Rightarrow> bool) \<Rightarrow> u8 list \<Rightarrow> mar_writer \<Rightarrow> (mar_write_error, mar_writer) outcome" where
  "mar_write_bytes mem bytes w = (if mem (length w + length bytes) then Ok (w @ bytes) else Err MarOutOfMemory)"

fun bit_length :: "nat \<Rightarrow> nat" where
  "bit_length n = (if n = 0 then 0 else Suc (bit_length (n div 2)))"

declare bit_length.simps [simp del]

definition u64_leading_zeros :: "u64 \<Rightarrow> nat" where
  "u64_leading_zeros v = 64 - bit_length (unat v)"

definition u64_leading_ones :: "u64 \<Rightarrow> nat" where
  "u64_leading_ones v = u64_leading_zeros (NOT v)"

text \<open>The arrays \<open>bytes\<close> of \<open>k\<close> digits: all but the last have the continuation bit.\<close>

definition unsigned_digits :: "nat \<Rightarrow> u64 \<Rightarrow> u8 list" where
  "unsigned_digits k v =
     map (\<lambda>i. ucast (drop_bit (7 * i) v OR 0x80)) [0 ..< k - 1] @ [ucast (drop_bit (7 * (k - 1)) v)]"

definition signed_digits :: "nat \<Rightarrow> u64 \<Rightarrow> u8 list" where
  "signed_digits k v =
     map (\<lambda>i. ucast (signed_drop_bit (7 * i) v OR 0x80)) [0 ..< k - 1] @ [ucast (signed_drop_bit (7 * (k - 1)) v AND 0x7F)]"

definition mar_write_unsigned :: "(nat \<Rightarrow> bool) \<Rightarrow> u64 \<Rightarrow> mar_writer \<Rightarrow> (mar_write_error, mar_writer) outcome" where
  "mar_write_unsigned mem v w =
     (let bits = 64 - u64_leading_zeros v in
      if bits \<le> 7 then mar_write_bytes mem (unsigned_digits 1 v) w
      else if bits \<le> 14 then mar_write_bytes mem (unsigned_digits 2 v) w
      else if bits \<le> 21 then mar_write_bytes mem (unsigned_digits 3 v) w
      else if bits \<le> 28 then mar_write_bytes mem (unsigned_digits 4 v) w
      else if bits \<le> 35 then mar_write_bytes mem (unsigned_digits 5 v) w
      else if bits \<le> 42 then mar_write_bytes mem (unsigned_digits 6 v) w
      else if bits \<le> 49 then mar_write_bytes mem (unsigned_digits 7 v) w
      else if bits \<le> 56 then mar_write_bytes mem (unsigned_digits 8 v) w
      else if bits \<le> 63 then mar_write_bytes mem (unsigned_digits 9 v) w
      else mar_write_bytes mem (unsigned_digits 10 v) w)"

text \<open>An \<open>i64\<close> is its bit pattern.\<close>

definition mar_write_signed :: "(nat \<Rightarrow> bool) \<Rightarrow> u64 \<Rightarrow> mar_writer \<Rightarrow> (mar_write_error, mar_writer) outcome" where
  "mar_write_signed mem v w =
     (let bits = 64 - (if sint v < 0 then u64_leading_ones v else u64_leading_zeros v) in
      if bits < 7 then mar_write_bytes mem (signed_digits 1 v) w
      else if bits < 14 then mar_write_bytes mem (signed_digits 2 v) w
      else if bits < 21 then mar_write_bytes mem (signed_digits 3 v) w
      else if bits < 28 then mar_write_bytes mem (signed_digits 4 v) w
      else if bits < 35 then mar_write_bytes mem (signed_digits 5 v) w
      else if bits < 42 then mar_write_bytes mem (signed_digits 6 v) w
      else if bits < 49 then mar_write_bytes mem (signed_digits 7 v) w
      else if bits < 56 then mar_write_bytes mem (signed_digits 8 v) w
      else if bits < 63 then mar_write_bytes mem (signed_digits 9 v) w
      else mar_write_bytes mem (signed_digits 10 v) w)"

definition mar_write_byte :: "(nat \<Rightarrow> bool) \<Rightarrow> u8 \<Rightarrow> mar_writer \<Rightarrow> (mar_write_error, mar_writer) outcome" where
  "mar_write_byte mem b w = mar_write_bytes mem [b] w"

definition mar_write_usize :: "(nat \<Rightarrow> bool) \<Rightarrow> nat \<Rightarrow> mar_writer \<Rightarrow> (mar_write_error, mar_writer) outcome" where
  "mar_write_usize mem n w = mar_write_unsigned mem (of_nat n) w"

definition mar_write_blob :: "(nat \<Rightarrow> bool) \<Rightarrow> u8 list \<Rightarrow> mar_writer \<Rightarrow> (mar_write_error, mar_writer) outcome" where
  "mar_write_blob mem payload w = and_then (mar_write_usize mem (length payload) w) (mar_write_bytes mem payload)"

definition mar_write_tagged_payload :: "(nat \<Rightarrow> bool) \<Rightarrow> u8 \<Rightarrow> u8 list \<Rightarrow> mar_writer \<Rightarrow> (mar_write_error, mar_writer) outcome" where
  "mar_write_tagged_payload mem tag payload w = and_then (mar_write_byte mem tag w) (mar_write_blob mem payload)"

definition mar_write_str :: "(nat \<Rightarrow> bool) \<Rightarrow> u8 list \<Rightarrow> mar_writer \<Rightarrow> (mar_write_error, mar_writer) outcome" where
  "mar_write_str mem s w = and_then (mar_write_usize mem (length s) w) (mar_write_bytes mem s)"


section \<open>The reader\<close>

record mar_reader =
  mar_slice :: "u8 list"
  mar_position :: nat

definition mar_reader_from_slice :: "u8 list \<Rightarrow> mar_reader" where
  "mar_reader_from_slice xs = \<lparr>mar_slice = xs, mar_position = 0\<rparr>"

type_synonym 'a mar_rd = "mar_reader \<Rightarrow> (mar_read_error, 'a) outcome \<times> mar_reader"

text \<open>\<open>and_then\<close> and the operator \<open>?\<close>: an error leaves the reader where it is.\<close>

definition rd_bind :: "'a mar_rd \<Rightarrow> ('a \<Rightarrow> 'b mar_rd) \<Rightarrow> 'b mar_rd" where
  "rd_bind m f r = (case m r of
      (Ok x, r') \<Rightarrow> f x r'
    | (Err e, r') \<Rightarrow> (Err e, r')
    | (Panic, r') \<Rightarrow> (Panic, r')
    | (UB u, r') \<Rightarrow> (UB u, r'))"

definition mar_read_bytes :: "nat \<Rightarrow> u8 list mar_rd" where
  "mar_read_bytes n r =
     (let last = usize_add (mar_position r) n in
      if mar_position r \<le> last \<and> last \<le> length (mar_slice r)
      then (Ok (take n (drop (mar_position r) (mar_slice r))), r\<lparr>mar_position := last\<rparr>)
      else (Err MarUnexpectedEof, r))"

definition mar_reset :: "mar_reader \<Rightarrow> mar_reader" where
  "mar_reset r = r\<lparr>mar_position := 0\<rparr>"

definition mar_set_position :: "nat \<Rightarrow> mar_reader \<Rightarrow> mar_reader" where
  "mar_set_position n r = r\<lparr>mar_position := n\<rparr>"

definition mar_is_eof :: "mar_reader \<Rightarrow> bool" where
  "mar_is_eof r \<longleftrightarrow> length (mar_slice r) \<le> mar_position r"

definition mar_read_byte :: "u8 mar_rd" where
  "mar_read_byte r =
     (if mar_position r < length (mar_slice r)
      then (Ok (mar_slice r ! mar_position r), r\<lparr>mar_position := mar_position r + 1\<rparr>)
      else (Err MarUnexpectedEof, r))"

text \<open>
  The loops: the bytes at the cursor, the cursor, \<open>scale\<close> and \<open>value\<close>.  A shift masks its
  right operand.
\<close>

fun mar_unsigned_loop :: "u8 list \<Rightarrow> nat \<Rightarrow> nat \<Rightarrow> u64 \<Rightarrow> (mar_read_error, u64 \<times> nat) outcome" where
  "mar_unsigned_loop [] cursor scale v = Err MarUnexpectedEof"
| "mar_unsigned_loop (d # ds) cursor scale v =
     (let v = v OR push_bit (scale mod 64) (ucast d AND 0x7F) in
      if d AND 0x80 = 0 then Ok (v, Suc cursor) else mar_unsigned_loop ds (Suc cursor) (scale + 7) v)"

definition mar_read_unsigned :: "u64 mar_rd" where
  "mar_read_unsigned r =
     (case mar_unsigned_loop (drop (mar_position r) (mar_slice r)) (mar_position r) 0 0 of
        Ok (v, cursor) \<Rightarrow> (Ok v, r\<lparr>mar_position := cursor\<rparr>)
      | Err e \<Rightarrow> (Err e, r)
      | Panic \<Rightarrow> (Panic, r)
      | UB u \<Rightarrow> (UB u, r))"

fun mar_signed_loop :: "u8 list \<Rightarrow> nat \<Rightarrow> nat \<Rightarrow> u64 \<Rightarrow> (mar_read_error, u64 \<times> nat) outcome" where
  "mar_signed_loop [] cursor scale v = Err MarUnexpectedEof"
| "mar_signed_loop (d # ds) cursor scale v =
     (let v = v OR push_bit (scale mod 64) (ucast d AND 0x7F) in
      if d AND 0x80 = 0
      then Ok (if d AND 0x40 \<noteq> 0 then v OR push_bit (scale mod 64) 0xFFFFFFFFFFFFFFC0 else v, Suc cursor)
      else mar_signed_loop ds (Suc cursor) (scale + 7) v)"

definition mar_read_signed :: "u64 mar_rd" where
  "mar_read_signed r =
     (case mar_signed_loop (drop (mar_position r) (mar_slice r)) (mar_position r) 0 0 of
        Ok (v, cursor) \<Rightarrow> (Ok v, r\<lparr>mar_position := cursor\<rparr>)
      | Err e \<Rightarrow> (Err e, r)
      | Panic \<Rightarrow> (Panic, r)
      | UB u \<Rightarrow> (UB u, r))"

definition mar_read_blob :: "u8 list mar_rd" where
  "mar_read_blob = rd_bind mar_read_unsigned (\<lambda>n. mar_read_bytes (unat n))"

definition mar_read_str :: "u8 list mar_rd" where
  "mar_read_str = rd_bind mar_read_blob (\<lambda>s r. (if valid_utf8 s then Ok s else Err MarInvalidData, r))"

text \<open>\<open>read\<close> of the unsigned and the signed types of \<open>n\<close> bits.\<close>

definition mar_read_uint :: "nat \<Rightarrow> nat mar_rd" where
  "mar_read_uint n = rd_bind mar_read_unsigned (\<lambda>v r. (if unat v < 2 ^ n then Ok (unat v) else Err MarOutOfBounds, r))"

definition mar_read_sint :: "nat \<Rightarrow> int mar_rd" where
  "mar_read_sint n = rd_bind mar_read_signed (\<lambda>v r.
     (if - (2 ^ (n - 1)) \<le> sint v \<and> sint v < 2 ^ (n - 1) then Ok (sint v) else Err MarOutOfBounds, r))"


section \<open>Archives\<close>

definition mar_magic :: u32 where "mar_magic = 0x0002beef"

definition TAG_END :: u8 where "TAG_END = 1"

definition TAG_NAMESPACE :: u8 where "TAG_NAMESPACE = 2"

definition TAG_FILE :: u8 where "TAG_FILE = 3"

record mar_header =
  hd_magic :: u32
  hd_reserved :: u32
  hd_offset :: u32
  hd_size :: u32

definition header_new :: mar_header where
  "header_new = \<lparr>hd_magic = mar_magic, hd_reserved = 0, hd_offset = 0, hd_size = 0\<rparr>"

definition u32_bytes :: "u32 \<Rightarrow> u8 list" where
  "u32_bytes v = map (\<lambda>i. ucast (drop_bit (8 * i) v)) [0 ..< 4]"

definition u32_from_bytes :: "u8 list \<Rightarrow> u32" where
  "u32_from_bytes bs = ucast (bs ! 0) OR push_bit 8 (ucast (bs ! 1)) OR push_bit 16 (ucast (bs ! 2)) OR push_bit 24 (ucast (bs ! 3))"

definition header_into_bytes :: "mar_header \<Rightarrow> u8 list" where
  "header_into_bytes h = u32_bytes (hd_magic h) @ u32_bytes (hd_reserved h) @ u32_bytes (hd_offset h) @ u32_bytes (hd_size h)"

text \<open>\<open>transmute\<close> of a reference to 16 bytes at \<open>addr\<close>: a \<open>Header\<close> is aligned to four bytes.\<close>

definition header_from_slice :: "nat \<Rightarrow> u8 list \<Rightarrow> (mar_read_error, mar_header) outcome" where
  "header_from_slice addr bs =
     (if addr mod 4 \<noteq> 0 then UB Misaligned
      else
        let h = \<lparr>hd_magic = u32_from_bytes (take 4 bs), hd_reserved = u32_from_bytes (take 4 (drop 4 bs)),
                 hd_offset = u32_from_bytes (take 4 (drop 8 bs)), hd_size = u32_from_bytes (take 4 (drop 12 bs))\<rparr> in
        if hd_magic h = mar_magic then Ok h else Err MarInvalidData)"

text \<open>Names are UTF-8, attributes and contents are bytes.\<close>

datatype mar_entry = MarEnd | MarNamespace "u8 list" "u8 list" | MarFile "u8 list" "u8 list" "u8 list"

fun entry_write_to :: "(nat \<Rightarrow> bool) \<Rightarrow> mar_entry \<Rightarrow> mar_writer \<Rightarrow> (mar_write_error, mar_writer) outcome" where
  "entry_write_to mem MarEnd w = mar_write_tagged_payload mem TAG_END [] w"
| "entry_write_to mem (MarNamespace name xattr) w =
     and_then (and_then (mar_write_str mem name []) (mar_write_blob mem xattr)) (\<lambda>payload.
     mar_write_tagged_payload mem TAG_NAMESPACE payload w)"
| "entry_write_to mem (MarFile name xattr payload) w =
     and_then (and_then (and_then (mar_write_str mem name []) (mar_write_blob mem xattr))
       (mar_write_usize mem (length payload))) (\<lambda>leading.
     let total_size = usize_add (length leading) (length payload) in
     and_then (and_then (and_then (mar_write_byte mem TAG_FILE w) (mar_write_usize mem total_size))
       (mar_write_bytes mem leading)) (mar_write_bytes mem payload))"

definition finalize :: "(nat \<Rightarrow> bool) \<Rightarrow> u8 list \<Rightarrow> mar_writer \<Rightarrow> (mar_write_error, u8 list) outcome" where
  "finalize mem additional w =
     and_then (entry_write_to mem MarEnd w) (\<lambda>w.
     let offset = usize_add 16 (length additional) in
     if 2 ^ 32 \<le> offset then Err MarOutOfMemory
     else if 2 ^ 32 \<le> length w then Err MarOutOfMemory
     else
       let h = header_new\<lparr>hd_offset := of_nat offset, hd_size := of_nat (length w)\<rparr>;
           total_size = offset + length w in
       if 2 ^ 64 \<le> total_size then Err MarOutOfMemory
       else if \<not> mem total_size then Err MarOutOfMemory
       else Ok (header_into_bytes h @ additional @ w))"

definition archive_from_slice :: "nat \<Rightarrow> u8 list \<Rightarrow> (mar_read_error, mar_reader) outcome" where
  "archive_from_slice addr xs =
     and_then (fst (mar_read_bytes 16 (mar_reader_from_slice xs))) (\<lambda>bs.
     and_then (header_from_slice addr bs) (\<lambda>h.
     let offset = unat (hd_offset h); last = offset + unat (hd_size h) in
     if 2 ^ 64 \<le> last then Err MarOutOfBounds
     else if last \<le> length xs then Ok (mar_reader_from_slice (take (last - offset) (drop offset xs)))
     else Err MarInvalidData))"

text \<open>
  \<open>next\<close>: \<open>None\<close> also for a malformed entry (\<open>ok()?\<close>); \<open>unwrap\<close> of the tag panics at the end.
\<close>

definition ok_opt :: "'a mar_rd \<Rightarrow> ('a \<Rightarrow> mar_entry option mar_rd) \<Rightarrow> mar_entry option mar_rd" where
  "ok_opt m f r = (case m r of
      (Ok x, r') \<Rightarrow> f x r'
    | (Err e, r') \<Rightarrow> (Ok None, r')
    | (Panic, r') \<Rightarrow> (Panic, r')
    | (UB u, r') \<Rightarrow> (UB u, r'))"

definition archive_next :: "mar_entry option mar_rd" where
  "archive_next r =
     (case mar_read_byte r of
        (Ok tag, r) \<Rightarrow>
          if tag = TAG_NAMESPACE then
            ok_opt mar_read_blob (\<lambda>blob r.
              (fst (ok_opt mar_read_str (\<lambda>name.
                    ok_opt mar_read_blob (\<lambda>xattr r.
                    (Ok (Some (MarNamespace name xattr)), r))) (mar_reader_from_slice blob)), r)) r
          else if tag = TAG_FILE then
            ok_opt mar_read_blob (\<lambda>blob r.
              (fst (ok_opt mar_read_str (\<lambda>name.
                    ok_opt mar_read_blob (\<lambda>xattr.
                    ok_opt mar_read_blob (\<lambda>content r.
                    (Ok (Some (MarFile name xattr content)), r)))) (mar_reader_from_slice blob)), r)) r
          else if tag = TAG_END then ok_opt mar_read_blob (\<lambda>_ r. (Ok (Some MarEnd), r)) r
          else (Ok None, r)
      | (_, r) \<Rightarrow> (Panic, r))"

text \<open>The client's calls: writing some entries, and the first \<open>n\<close> items of the iterator.\<close>

fun write_entries :: "(nat \<Rightarrow> bool) \<Rightarrow> mar_entry list \<Rightarrow> mar_writer \<Rightarrow> (mar_write_error, mar_writer) outcome" where
  "write_entries mem [] w = Ok w"
| "write_entries mem (e # es) w = and_then (entry_write_to mem e w) (write_entries mem es)"

fun archive_items :: "nat \<Rightarrow> mar_reader \<Rightarrow> (mar_read_error, mar_entry list) outcome" where
  "archive_items 0 r = Ok []"
| "archive_items (Suc n) r =
     (case archive_next r of
        (Ok (Some e), r') \<Rightarrow> and_then (archive_items n r') (\<lambda>es. Ok (e # es))
      | (Ok None, r') \<Rightarrow> Ok []
      | (Err e, r') \<Rightarrow> Err e
      | (Panic, r') \<Rightarrow> Panic
      | (UB u, r') \<Rightarrow> UB u)"

end
