(* ===== verification/ArchiveSafety.thy ===== *)
theory ArchiveSafety
  imports Archive
begin

text \<open>
  The archive library: its tables of LEB128 digits are read back, signed and unsigned, and the table of
  the unsigned digits is the loop of the WebAssembly library; an archive is read back entry by entry;
  and the iterator panics exactly at the end of its bytes.
\<close>

section \<open>Digits\<close>

lemma bit_length_le: "bit_length n \<le> k \<longleftrightarrow> n < 2 ^ k"
proof (induction n arbitrary: k rule: bit_length.induct)
  case (1 n)
  show ?case
  proof (cases "n = 0")
    case False
    with 1 show ?thesis by (cases k) (auto simp: bit_length.simps [of n] div_less_iff_less_mult mult.commute)
  qed (simp add: bit_length.simps)
qed

lemma bit_length_u64: "bit_length (unat (v :: u64)) \<le> 64"
  using unsigned_less [of v, where 'a = nat] by (simp add: bit_length_le)

lemma leading_zeros_bits: "64 - u64_leading_zeros v \<le> k \<longleftrightarrow> unat v < 2 ^ k"
  using bit_length_u64 [of v] bit_length_le [of "unat v" k] by (simp add: u64_leading_zeros_def)

lemma high_bits_zero: "unat (v :: u64) < 2 ^ k \<Longrightarrow> k \<le> n \<Longrightarrow> \<not> bit v n"
proof -
  assume "unat v < 2 ^ k" "k \<le> n"
  then have "take_bit k v = v" by (simp add: word_unat_eq_iff unsigned_take_bit_eq take_bit_nat_eq_self)
  then have "bit v n \<longleftrightarrow> n < k \<and> bit v n" by (metis bit_take_bit_iff)
  with \<open>k \<le> n\<close> show ?thesis by simp
qed

lemma sign_bit: "sint (v :: u64) < 0 \<longleftrightarrow> bit v 63"
  using bit_last_iff [of v] by simp

lemma sign_bits:
  assumes "64 - (if sint v < 0 then u64_leading_ones v else u64_leading_zeros v) < m" "m \<le> Suc n" "n < 64"
  shows "bit (v :: u64) n \<longleftrightarrow> bit v 63"
proof (cases "sint v < 0")
  case True
  then have "unat (NOT v) < 2 ^ (m - 1)" using assms(1) leading_zeros_bits [of "NOT v" "m - 1"] by (auto simp: u64_leading_ones_def)
  from high_bits_zero [OF this, of n] assms(2,3) True show ?thesis by (auto simp: sign_bit bit_not_iff)
next
  case False
  then have "unat v < 2 ^ (m - 1)" using assms(1) leading_zeros_bits [of v "m - 1"] by auto
  from high_bits_zero [OF this, of n] assms(2,3) False show ?thesis by (auto simp: sign_bit)
qed

text \<open>\<open>ds\<close> are the digits of \<open>v\<close> from number \<open>i\<close> on.\<close>

definition leb_digits :: "u64 \<Rightarrow> nat \<Rightarrow> u8 list \<Rightarrow> bool" where
  "leb_digits v i ds \<longleftrightarrow> ds \<noteq> [] \<and> 7 * (i + length ds - 1) < 64 \<and>
     (\<forall>n<length ds. (bit (ds ! n) 7 \<longleftrightarrow> Suc n < length ds) \<and>
        (\<forall>j<7. 7 * (i + n) + j < 64 \<longrightarrow> bit (ds ! n) j = bit v (7 * (i + n) + j)))"

lemma leb_digits_Cons:
  assumes "leb_digits v i (d # ds)"
  shows "7 * i < 64" "j < 7 \<Longrightarrow> 7 * i + j < 64 \<Longrightarrow> bit d j = bit v (7 * i + j)"
    "bit d 7 \<longleftrightarrow> ds \<noteq> []" "ds \<noteq> [] \<Longrightarrow> leb_digits v (Suc i) ds"
proof -
  have digit: "(bit ((d # ds) ! n) 7 \<longleftrightarrow> Suc n < Suc (length ds)) \<and>
      (\<forall>j<7. 7 * (i + n) + j < 64 \<longrightarrow> bit ((d # ds) ! n) j = bit v (7 * (i + n) + j))" if "n < Suc (length ds)" for n
    using assms that by (simp add: leb_digits_def)
  have len: "7 * (i + length ds) < 64" using assms by (simp add: leb_digits_def)
  then show "7 * i < 64" by simp
  show "j < 7 \<Longrightarrow> 7 * i + j < 64 \<Longrightarrow> bit d j = bit v (7 * i + j)" "bit d 7 \<longleftrightarrow> ds \<noteq> []"
    using digit [of 0] by auto
  have "(bit (ds ! n) 7 \<longleftrightarrow> Suc n < length ds) \<and>
      (\<forall>j<7. 7 * (Suc i + n) + j < 64 \<longrightarrow> bit (ds ! n) j = bit v (7 * (Suc i + n) + j))" if "n < length ds" for n
    using digit [of "Suc n"] that by simp
  then show "ds \<noteq> [] \<Longrightarrow> leb_digits v (Suc i) ds" using len by (simp add: leb_digits_def)
qed

lemma flag_bit: "(d :: u8) AND 0x80 = 0 \<longleftrightarrow> \<not> bit d 7" "(d :: u8) AND 0x40 = 0 \<longleftrightarrow> \<not> bit d 6"
  by (simp_all add: bit_iff_and_push_bit_not_eq_0)

lemma bit_or_80: "bit (ucast ((x :: u64) OR 0x80) :: u8) j \<longleftrightarrow> j < 8 \<and> (bit x j \<or> j = 7)"
proof -
  have "bit (0x80 :: u64) j \<longleftrightarrow> j = 7" using bit_exp_iff [of 7 j, where 'a = u64] by auto
  then show ?thesis unfolding bit_ucast_iff bit_or_iff by auto
qed

lemma digit_step:
  assumes "7 * i < 64" "\<And>j. j < 7 \<Longrightarrow> 7 * i + j < 64 \<Longrightarrow> bit d j = bit v (7 * i + j)"
  shows "take_bit (7 * i) v OR push_bit (7 * i mod 64) (ucast (d :: u8) AND 0x7F) = take_bit (7 * Suc i) (v :: u64)"
proof (rule bit_word_eqI)
  fix n
  assume n: "n < LENGTH(64)"
  have m: "ucast d AND 0x7F = take_bit 7 (ucast d :: u64)" by (rule and_7F)
  have "n < 7 * Suc i \<Longrightarrow> \<not> n < 7 * i \<Longrightarrow> bit d (n - 7 * i) = bit v n" using assms(2) [of "n - 7 * i"] n by simp
  moreover have "n - 7 * i < 7 \<Longrightarrow> n - 7 * i < 8" by simp
  ultimately show "bit (take_bit (7 * i) v OR push_bit (7 * i mod 64) (ucast d AND 0x7F)) n = bit (take_bit (7 * Suc i) v) n"
    using assms(1) n by (auto simp: m bit_simps)
qed


lemma unsigned_loop_digits:
  assumes "leb_digits v i ds"
  shows "mar_unsigned_loop (ds @ rest) c (7 * i) (take_bit (7 * i) v) = Ok (take_bit (7 * (i + length ds)) v, c + length ds)"
  using assms
proof (induction ds arbitrary: i c)
  case Nil
  then show ?case by (simp add: leb_digits_def)
next
  case (Cons d ds)
  note d = leb_digits_Cons [OF Cons.prems]
  have step: "take_bit (7 * i) v OR push_bit (7 * i mod 64) (ucast d AND 0x7F) = take_bit (7 * Suc i) v"
    by (rule digit_step) (fact d(1), erule d(2))
  show ?case
  proof (cases "ds = []")
    case True
    with d(3) show ?thesis unfolding append_Cons mar_unsigned_loop.simps Let_def step by (simp add: flag_bit)
  next
    case False
    have "7 * i + 7 = 7 * Suc i" by simp
    with False d(3) Cons.IH [OF d(4) [OF False], of "Suc c"] show ?thesis
      unfolding append_Cons mar_unsigned_loop.simps Let_def step by (simp add: flag_bit del: mult_Suc_right)
  qed
qed

lemma signed_loop_digits:
  assumes "leb_digits v i ds"
  shows "mar_signed_loop (ds @ rest) c (7 * i) (take_bit (7 * i) v) =
    Ok (take_bit (7 * (i + length ds)) v OR (if bit (last ds) 6 then push_bit (7 * (i + length ds - 1)) 0xFFFFFFFFFFFFFFC0 else 0),
      c + length ds)"
  using assms
proof (induction ds arbitrary: i c)
  case Nil
  then show ?case by (simp add: leb_digits_def)
next
  case (Cons d ds)
  note d = leb_digits_Cons [OF Cons.prems]
  have step: "take_bit (7 * i) v OR push_bit (7 * i mod 64) (ucast d AND 0x7F) = take_bit (7 * Suc i) v"
    by (rule digit_step) (fact d(1), erule d(2))
  show ?case
  proof (cases "ds = []")
    case True
    with d(1,3) show ?thesis unfolding append_Cons mar_signed_loop.simps Let_def step by (simp add: flag_bit)
  next
    case False
    have "7 * i + 7 = 7 * Suc i" by simp
    with False d(3) Cons.IH [OF d(4) [OF False], of "Suc c"] show ?thesis
      unfolding append_Cons mar_signed_loop.simps Let_def step by (simp add: flag_bit del: mult_Suc_right)
  qed
qed

lemma unsigned_digits_leb:
  assumes "0 < k" "k \<le> 10" "unat v < 2 ^ (7 * k)"
  shows "leb_digits v 0 (unsigned_digits k v)" "length (unsigned_digits k v) = k" "take_bit (7 * k) v = v"
proof -
  show len: "length (unsigned_digits k v) = k" using assms(1) by (simp add: unsigned_digits_def)
  show "take_bit (7 * k) v = v" using assms(3) by (simp add: word_unat_eq_iff unsigned_take_bit_eq take_bit_nat_eq_self)
  have "(bit (unsigned_digits k v ! n) 7 \<longleftrightarrow> Suc n < k) \<and>
      (\<forall>j<7. 7 * n + j < 64 \<longrightarrow> bit (unsigned_digits k v ! n) j = bit v (7 * n + j))" if "n < k" for n
  proof (cases "n = k - 1")
    case True
    then have "unsigned_digits k v ! n = ucast (drop_bit (7 * n) v)" by (simp add: unsigned_digits_def nth_append)
    moreover have "\<not> bit v (7 * n + 7)" using high_bits_zero [OF assms(3), of "7 * n + 7"] True assms(1) by simp
    ultimately show ?thesis using True assms(1) by (simp add: bit_simps)
  next
    case False
    then have "unsigned_digits k v ! n = ucast (drop_bit (7 * n) v OR 0x80)" using that by (auto simp: unsigned_digits_def nth_append)
    then show ?thesis using False that by (auto simp: bit_or_80 bit_drop_bit_eq)
  qed
  then show "leb_digits v 0 (unsigned_digits k v)" using assms(1,2) len by (auto simp: leb_digits_def)
qed


lemma signed_digits_leb:
  assumes "0 < k" "k \<le> 10" "\<And>n. 7 * k \<le> Suc n \<Longrightarrow> n < 64 \<Longrightarrow> bit v n = bit v 63"
  shows "leb_digits v 0 (signed_digits k v)" "length (signed_digits k v) = k"
    "take_bit (7 * k) v OR (if bit (last (signed_digits k v)) 6 then push_bit (7 * (k - 1)) 0xFFFFFFFFFFFFFFC0 else 0) = v"
proof -
  show len: "length (signed_digits k v) = k" using assms(1) by (simp add: signed_digits_def)
  have "(bit (signed_digits k v ! n) 7 \<longleftrightarrow> Suc n < k) \<and>
      (\<forall>j<7. 7 * n + j < 64 \<longrightarrow> bit (signed_digits k v ! n) j = bit v (7 * n + j))" if "n < k" for n
  proof (cases "n = k - 1")
    case True
    then have "signed_digits k v ! n = ucast (take_bit 7 (signed_drop_bit (7 * n) v))"
      by (simp add: signed_digits_def nth_append and_7F)
    then show ?thesis using True assms(1) by (auto simp: bit_simps)
  next
    case False
    then have "signed_digits k v ! n = ucast (signed_drop_bit (7 * n) v OR 0x80)" using that by (auto simp: signed_digits_def nth_append)
    then show ?thesis using False that by (auto simp: bit_or_80 bit_signed_drop_bit_iff)
  qed
  then show "leb_digits v 0 (signed_digits k v)" using assms(1,2) len by (auto simp: leb_digits_def)
  have "last (signed_digits k v) = ucast (take_bit 7 (signed_drop_bit (7 * (k - 1)) v))" by (simp add: signed_digits_def and_7F)
  moreover have "bit v (if 64 - 7 * (k - 1) \<le> 6 then 63 else 7 * (k - 1) + 6) = bit v 63"
    using assms(1) assms(3) [of "7 * (k - 1) + 6"] by auto
  ultimately have sign: "bit (last (signed_digits k v)) 6 \<longleftrightarrow> bit v 63" by (auto simp: bit_simps split: if_splits)
  have c2: "bit (0xFFFFFFFFFFFFFFC0 :: u64) j \<longleftrightarrow> 6 \<le> j \<and> j < 64" for j
  proof -
    have "(0xFFFFFFFFFFFFFFC0 :: u64) = NOT (mask 6)" by (simp add: mask_eq_exp_minus_1)
    then show ?thesis by (simp only: bit_not_iff bit_mask_iff) auto
  qed
  show "take_bit (7 * k) v OR (if bit (last (signed_digits k v)) 6 then push_bit (7 * (k - 1)) 0xFFFFFFFFFFFFFFC0 else 0) = v"
  proof (rule bit_word_eqI)
    fix n
    assume "n < LENGTH(64)"
    then show "bit (take_bit (7 * k) v OR (if bit (last (signed_digits k v)) 6 then push_bit (7 * (k - 1)) 0xFFFFFFFFFFFFFFC0 else 0)) n = bit v n"
      using assms(1) assms(3) [of n] unfolding sign
      by (cases "n < 7 * k") (auto simp: bit_simps c2 simp del: bit_numeral_word_iff)
  qed
qed

section \<open>The writers\<close>

lemma unsigned_digits_write:
  assumes "0 < k" "unat v < 2 ^ (7 * k)" "k = 1 \<or> 2 ^ (7 * (k - 1)) \<le> unat v"
  shows "unsigned_digits k v = write_unsigned v"
  using assms
proof (induction k arbitrary: v)
  case (Suc k)
  show ?case
  proof (cases "k = 0")
    case True
    with Suc.prems(2) have "drop_bit 7 v = 0" by (simp add: drop_7_eq_0 word_less_nat_alt)
    moreover have "v AND 0x7F = v" using Suc.prems(2) True
      by (simp add: and_7F word_unat_eq_iff unsigned_take_bit_eq take_bit_nat_eq_self)
    ultimately show ?thesis using True by (subst write_unsigned.simps) (simp add: unsigned_digits_def)
  next
    case False
    have le: "(2::nat) ^ 7 \<le> 2 ^ (7 * k)" using False by (intro power_increasing) auto
    have pw: "(2::nat) ^ (7 * Suc k) = 2 ^ (7 * k) * 128" "(2::nat) ^ (7 * k) = 2 ^ (7 * (k - 1)) * 128"
      using False by (cases k; simp add: power_add)+
    have "drop_bit 7 v \<noteq> 0" using Suc.prems(3) False le by (simp add: drop_7_eq_0 word_less_nat_alt)
    moreover have "unsigned_digits k (drop_bit 7 v) = write_unsigned (drop_bit 7 v)"
    proof (rule Suc.IH)
      show "unat (drop_bit 7 v) < 2 ^ (7 * k)" using Suc.prems(2) unfolding pw(1) by (simp add: unat_drop_7 div_less_iff_less_mult)
      show "k = 1 \<or> 2 ^ (7 * (k - 1)) \<le> unat (drop_bit 7 v)"
        using Suc.prems(3) False pw(2) by (simp add: unat_drop_7 less_eq_div_iff_mult_less_eq)
    qed (use False in simp)
    moreover have "unsigned_digits (Suc k) v = ucast (v OR 0x80) # unsigned_digits k (drop_bit 7 v)"
    proof -
      from False obtain m where m: "k = Suc m" by (cases k) auto
      have "[0 ..< Suc m] = 0 # map Suc [0 ..< m]" by (simp add: upt_conv_Cons map_Suc_upt del: upt_Suc)
      then show ?thesis by (simp add: unsigned_digits_def m comp_def add.commute del: upt_Suc)
    qed
    moreover have "(ucast (v OR 0x80) :: u8) = 0x80 OR ucast (v AND 0x7F)"
    proof (rule bit_word_eqI)
      fix j
      have "bit (0x80 :: u8) j \<longleftrightarrow> j = 7" using bit_exp_iff [of 7 j, where 'a = u8] by auto
      then show "bit (ucast (v OR 0x80) :: u8) j = bit (0x80 OR ucast (v AND 0x7F) :: u8) j" if "j < LENGTH(8)"
        using that unfolding bit_or_80 and_7F bit_or_iff bit_ucast_iff bit_take_bit_iff by auto
    qed
    ultimately show ?thesis by (subst write_unsigned.simps) simp
  qed
qed simp


lemma mar_write_unsigned_eq: "mar_write_unsigned mem v w = mar_write_bytes mem (write_unsigned v) w"
proof -
  have digits: "unsigned_digits k v = write_unsigned v"
    if "0 < k" "64 - u64_leading_zeros v \<le> 7 * k" "k = 1 \<or> \<not> 64 - u64_leading_zeros v \<le> 7 * (k - 1)" for k
    using that by (intro unsigned_digits_write) (auto simp: leading_zeros_bits not_less)
  have max: "64 - u64_leading_zeros v \<le> 64" by simp
  show ?thesis using max by (simp add: mar_write_unsigned_def Let_def digits)
qed

lemma mar_write_signed_ok:
  "\<exists>k. mar_write_signed mem v w = mar_write_bytes mem (signed_digits k v) w \<and> 0 < k \<and> k \<le> 10 \<and>
     (\<forall>n. 7 * k \<le> Suc n \<longrightarrow> n < 64 \<longrightarrow> bit v n = bit v 63)"
proof -
  let ?bits = "64 - (if sint v < 0 then u64_leading_ones v else u64_leading_zeros v)"
  have ok: "0 < k \<Longrightarrow> ?bits < 7 * k \<Longrightarrow> \<forall>n. 7 * k \<le> Suc n \<longrightarrow> n < 64 \<longrightarrow> bit v n = bit v 63" for k
    using sign_bits by blast
  define k :: nat where "k = (if ?bits < 7 then 1 else if ?bits < 14 then 2 else if ?bits < 21 then 3 else if ?bits < 28 then 4
    else if ?bits < 35 then 5 else if ?bits < 42 then 6 else if ?bits < 49 then 7 else if ?bits < 56 then 8 else if ?bits < 63 then 9 else 10)"
  have "mar_write_signed mem v w = mar_write_bytes mem (signed_digits k v) w"
    unfolding mar_write_signed_def Let_def k_def by (simp only: if_distrib [of "\<lambda>k. mar_write_bytes mem (signed_digits k v) w"])
  moreover have "?bits < 70" by simp
  then have "0 < k" "k \<le> 10" "?bits < 7 * k" unfolding k_def by (simp_all split: if_split)
  ultimately show ?thesis using ok by blast
qed

lemma write_unsigned_leb:
  "leb_digits v 0 (write_unsigned v)" "take_bit (7 * length (write_unsigned v)) v = v" "length (write_unsigned v) \<le> 10"
proof -
  define n where "n = bit_length (unat v)"
  define k where "k = (if n = 0 then 1 else (n + 6) div 7)"
  have n: "n \<le> m \<longleftrightarrow> unat v < 2 ^ m" for m by (simp add: n_def bit_length_le)
  have k: "0 < k" "k \<le> 10" "n \<le> 7 * k" "k = 1 \<or> \<not> n \<le> 7 * (k - 1)"
    using bit_length_u64 [of v] unfolding n_def [symmetric] k_def by auto
  then have "unsigned_digits k v = write_unsigned v" by (intro unsigned_digits_write) (auto simp: n not_less)
  moreover have "unat v < 2 ^ (7 * k)" using k(3) by (simp add: n)
  ultimately show
    "leb_digits v 0 (write_unsigned v)" "take_bit (7 * length (write_unsigned v)) v = v" "length (write_unsigned v) \<le> 10"
    using unsigned_digits_leb [OF k(1,2), of v] k(2) by simp_all
qed

section \<open>Reading back\<close>

text \<open>The reader stands before \<open>bs\<close>; the library never has a slice of \<open>2 ^ 63\<close> bytes.\<close>

definition rd_at :: "mar_reader \<Rightarrow> u8 list \<Rightarrow> bool" where
  "rd_at r bs \<longleftrightarrow> drop (mar_position r) (mar_slice r) = bs \<and> mar_position r \<le> length (mar_slice r) \<and> length (mar_slice r) < 2 ^ 63"

definition rd_adv :: "nat \<Rightarrow> mar_reader \<Rightarrow> mar_reader" where
  "rd_adv n r = r\<lparr>mar_position := mar_position r + n\<rparr>"

lemma rd_at_length: "rd_at r bs \<Longrightarrow> length (mar_slice r) = mar_position r + length bs"
  unfolding rd_at_def by (metis le_add_diff_inverse length_drop)

lemma rd_at_adv:
  assumes "rd_at r (as @ bs)"
  shows "rd_at (rd_adv (length as) r) bs"
proof -
  have "drop (mar_position r + length as) (mar_slice r) = drop (length as) (drop (mar_position r) (mar_slice r))"
    by (simp add: add.commute)
  also have "\<dots> = bs" using assms by (simp only: rd_at_def) simp
  finally show ?thesis using rd_at_length [OF assms] assms by (simp add: rd_at_def rd_adv_def)
qed

lemma rd_adv_add [simp]: "rd_adv n (rd_adv m r) = rd_adv (m + n) r"
  by (simp add: rd_adv_def)

lemma read_unsigned_at: "rd_at r (write_unsigned v @ bs) \<Longrightarrow> mar_read_unsigned r = (Ok v, rd_adv (length (write_unsigned v)) r)"
  using unsigned_loop_digits [OF write_unsigned_leb(1), of v bs "mar_position r"]
  by (simp add: mar_read_unsigned_def rd_at_def write_unsigned_leb(2) rd_adv_def)

lemma read_bytes_at: "rd_at r (as @ bs) \<Longrightarrow> mar_read_bytes (length as) r = (Ok as, rd_adv (length as) r)"
proof -
  assume at: "rd_at r (as @ bs)"
  note len = rd_at_length [OF at]
  with at have "usize_add (mar_position r) (length as) = mar_position r + length as"
    by (intro usize_add_exact) (simp add: rd_at_def)
  moreover have "take (length as) (drop (mar_position r) (mar_slice r)) = as" using at by (simp only: rd_at_def) simp
  ultimately show ?thesis using len by (simp add: mar_read_bytes_def rd_adv_def)
qed

lemma read_blob_at:
  assumes "rd_at r (write_unsigned (of_nat (length as)) @ as @ bs)"
  shows "mar_read_blob r = (Ok as, rd_adv (length (write_unsigned (of_nat (length as))) + length as) r)"
proof -
  have "unat (of_nat (length as) :: u64) = length as"
    using rd_at_length [OF assms] assms by (simp add: rd_at_def unsigned_of_nat take_bit_nat_eq_self)
  then show ?thesis
    using read_unsigned_at [OF assms] read_bytes_at [OF rd_at_adv [OF assms]] by (simp add: mar_read_blob_def rd_bind_def)
qed


text \<open>What the writers append, when memory is there.\<close>

definition enc_blob :: "u8 list \<Rightarrow> u8 list" where
  "enc_blob bs = write_unsigned (of_nat (length bs)) @ bs"

fun enc_entry :: "mar_entry \<Rightarrow> u8 list" where
  "enc_entry MarEnd = TAG_END # enc_blob []"
| "enc_entry (MarNamespace name xattr) = TAG_NAMESPACE # enc_blob (enc_blob name @ enc_blob xattr)"
| "enc_entry (MarFile name xattr content) = TAG_FILE # enc_blob (enc_blob name @ enc_blob xattr @ enc_blob content)"

lemma write_bytes_Ok: "mar_write_bytes mem bs w = Ok w' \<longleftrightarrow> mem (length w + length bs) \<and> w' = w @ bs"
  by (auto simp: mar_write_bytes_def)

lemmas writer_Ok = and_then_Ok_iff write_bytes_Ok mar_write_unsigned_eq mar_write_byte_def mar_write_usize_def mar_write_blob_def
  mar_write_str_def mar_write_tagged_payload_def

lemma entry_write_enc:
  assumes "entry_write_to mem e w = Ok w'" "length w' < 2 ^ 63"
  shows "w' = w @ enc_entry e"
proof (cases e)
  case (MarFile name xattr content)
  let ?l = "enc_blob name @ enc_blob xattr @ write_unsigned (of_nat (length content))"
  from assms(1) have "w' = w @ [TAG_FILE] @ write_unsigned (of_nat (usize_add (length ?l) (length content))) @ ?l @ content"
    by (auto simp: MarFile writer_Ok enc_blob_def Let_def)
  moreover from this assms(2) have "usize_add (length ?l) (length content) = length ?l + length content"
    by (intro usize_add_exact) simp
  ultimately show ?thesis by (simp add: MarFile enc_blob_def add.assoc)
qed (use assms(1) in \<open>auto simp: writer_Ok enc_blob_def\<close>)

lemma write_entries_enc:
  assumes "write_entries mem es w = Ok w'" "length w' < 2 ^ 63"
  shows "w' = w @ concat (map enc_entry es)"
  using assms
proof (induction es arbitrary: w)
  case (Cons e es)
  from Cons.prems(1) obtain w1 where w1: "entry_write_to mem e w = Ok w1" "write_entries mem es w1 = Ok w'"
    by (auto simp: and_then_Ok_iff)
  from Cons.IH [OF w1(2) Cons.prems(2)] have w': "w' = w1 @ concat (map enc_entry es)" .
  with entry_write_enc [OF w1(1)] Cons.prems(2) show ?case by simp
qed simp

lemma read_enc_blob: "rd_at r (enc_blob as @ bs) \<Longrightarrow> mar_read_blob r = (Ok as, rd_adv (length (enc_blob as)) r)"
  using read_blob_at [of r as bs] by (simp add: enc_blob_def)

lemma read_enc_str: "rd_at r (enc_blob as @ bs) \<Longrightarrow> valid_utf8 as \<Longrightarrow> mar_read_str r = (Ok as, rd_adv (length (enc_blob as)) r)"
  by (simp add: mar_read_str_def rd_bind_def read_enc_blob)

fun entry_ok :: "mar_entry \<Rightarrow> bool" where
  "entry_ok MarEnd = True"
| "entry_ok (MarNamespace name xattr) = valid_utf8 name"
| "entry_ok (MarFile name xattr content) = valid_utf8 name"

lemma rd_at_start: "length bs < 2 ^ 63 \<Longrightarrow> rd_at (mar_reader_from_slice bs) bs"
  by (simp add: rd_at_def mar_reader_from_slice_def)

fun enc_payload :: "mar_entry \<Rightarrow> u8 list" where
  "enc_payload MarEnd = []"
| "enc_payload (MarNamespace name xattr) = enc_blob name @ enc_blob xattr"
| "enc_payload (MarFile name xattr content) = enc_blob name @ enc_blob xattr @ enc_blob content"

text \<open>The fields inside the payload of a namespace and of a file.\<close>

lemma read_fields:
  assumes "rd_at r (enc_blob name @ enc_blob xattr @ bs)" "valid_utf8 name"
  obtains r1 r2 where "mar_read_str r = (Ok name, r1)" "mar_read_blob r1 = (Ok xattr, r2)" "rd_at r2 bs"
  using read_enc_str [OF assms] read_enc_blob [OF rd_at_adv [OF assms(1)]] rd_at_adv [OF rd_at_adv [OF assms(1)]] by blast

lemma read_enc_entry:
  assumes at: "rd_at r (enc_entry e @ bs)" and ok: "entry_ok e"
  shows "archive_next r = (Ok (Some e), rd_adv (length (enc_entry e)) r)"
proof -
  obtain tag payload where e: "enc_entry e = tag # enc_blob payload" and p: "payload = enc_payload e" by (cases e) auto
  have byte: "mar_read_byte r = (Ok tag, rd_adv (Suc 0) r)"
    using at rd_at_length [OF at] by (auto simp: mar_read_byte_def rd_adv_def e rd_at_def nth_via_drop)
  have at1: "rd_at (rd_adv (Suc 0) r) (enc_blob payload @ bs)" using rd_at_adv [of r "[tag]"] at by (simp add: e)
  note blob = read_enc_blob [OF at1]
  have "length payload < 2 ^ 63" using rd_at_length [OF at] at by (simp add: rd_at_def e enc_blob_def)
  then have inner: "rd_at (mar_reader_from_slice payload) payload" by (rule rd_at_start)
  note defs = archive_next_def byte blob ok_opt_def TAG_END_def TAG_NAMESPACE_def TAG_FILE_def
  show ?thesis
  proof (cases e)
    case MarEnd
    with e show ?thesis by (auto simp: defs)
  next
    case (MarNamespace name xattr)
    with e p have "payload = enc_blob name @ enc_blob xattr" "tag = 2" by (auto simp: TAG_NAMESPACE_def)
    with inner have i: "rd_at (mar_reader_from_slice payload) (enc_blob name @ enc_blob xattr @ [])" "tag = 2" by simp_all
    from MarNamespace ok have "valid_utf8 name" by simp
    from read_fields [OF i(1) this] obtain r1 r2 where "mar_read_str (mar_reader_from_slice payload) = (Ok name, r1)"
      "mar_read_blob r1 = (Ok xattr, r2)" .
    with i(2) show ?thesis using MarNamespace e by (auto simp: defs)
  next
    case (MarFile name xattr content)
    with e p have "payload = enc_blob name @ enc_blob xattr @ enc_blob content" "tag = 3" by (auto simp: TAG_FILE_def)
    with inner have i: "rd_at (mar_reader_from_slice payload) (enc_blob name @ enc_blob xattr @ enc_blob content @ [])" "tag = 3" by simp_all
    from MarFile ok have "valid_utf8 name" by simp
    from read_fields [OF i(1) this] obtain r1 r2 where f: "mar_read_str (mar_reader_from_slice payload) = (Ok name, r1)"
      "mar_read_blob r1 = (Ok xattr, r2)" "rd_at r2 (enc_blob content @ [])" .
    from f(1,2) read_enc_blob [OF f(3)] i(2) show ?thesis using MarFile e by (auto simp: defs)
  qed
qed

lemma archive_items_enc:
  assumes "rd_at r (concat (map enc_entry es))" "list_all entry_ok es"
  shows "archive_items (length es) r = Ok es \<and> archive_items (Suc (length es)) r = Panic"
  using assms
proof (induction es arbitrary: r)
  case Nil
  then show ?case using rd_at_length [of r "[]"] by (simp add: archive_next_def mar_read_byte_def)
next
  case (Cons e es)
  then have at: "rd_at r (enc_entry e @ concat (map enc_entry es))" and ok: "entry_ok e" "list_all entry_ok es" by auto
  from Cons.IH [OF rd_at_adv [OF at] ok(2)] read_enc_entry [OF at ok(1)] show ?case by simp
qed

section \<open>The header\<close>

lemma u32_bytes_inverse: "u32_from_bytes (u32_bytes v) = v"
proof (rule bit_word_eqI)
  fix n
  assume "n < LENGTH(32)"
  moreover have "[0 ..< 4] = [0, 1, 2, 3 :: nat]" by (simp add: upt_rec)
  moreover have "n < 8 \<or> 8 \<le> n \<and> n < 16 \<or> 16 \<le> n \<and> n < 24 \<or> 24 \<le> n" by linarith
  ultimately show "bit (u32_from_bytes (u32_bytes v)) n = bit v n"
    by (auto simp: u32_from_bytes_def u32_bytes_def bit_simps)
qed

lemma header_inverse:
  "addr mod 4 = 0 \<Longrightarrow> hd_magic h = mar_magic \<Longrightarrow> header_from_slice addr (header_into_bytes h) = Ok h"
proof -
  have "length (u32_bytes v) = 4" for v by (simp add: u32_bytes_def)
  then show "addr mod 4 = 0 \<Longrightarrow> hd_magic h = mar_magic \<Longrightarrow> header_from_slice addr (header_into_bytes h) = Ok h"
    by (simp add: header_from_slice_def header_into_bytes_def u32_bytes_inverse Let_def)
qed

lemma unat_u32: "n < 2 ^ 32 \<Longrightarrow> unat (of_nat n :: u32) = n"
  by (simp add: unsigned_of_nat take_bit_nat_eq_self)

lemma finalize_archive:
  assumes "finalize mem additional w = Ok xs" "addr mod 4 = 0" "length additional < 2 ^ 63"
  shows "archive_from_slice addr xs = Ok (mar_reader_from_slice (w @ enc_entry MarEnd)) \<and> length (w @ enc_entry MarEnd) < 2 ^ 32"
proof -
  let ?w = "w @ enc_entry MarEnd" and ?off = "16 + length additional"
  have "entry_write_to mem MarEnd w = Ok w' \<Longrightarrow> w' = ?w" for w' by (auto simp: writer_Ok enc_blob_def)
  with assms(1) have sizes: "usize_add 16 (length additional) < 2 ^ 32" "length ?w < 2 ^ 32" and
    xs: "xs = header_into_bytes (header_new\<lparr>hd_offset := of_nat (usize_add 16 (length additional)), hd_size := of_nat (length ?w)\<rparr>) @ additional @ ?w"
    by (auto simp: finalize_def Let_def and_then_Ok_iff split: if_splits)
  have off: "usize_add 16 (length additional) = ?off" using assms(3) by (simp add: usize_add_def)
  let ?h = "header_new\<lparr>hd_offset := of_nat ?off, hd_size := of_nat (length ?w)\<rparr>"
  have h: "length (header_into_bytes ?h) = 16" by (simp add: header_into_bytes_def u32_bytes_def)
  have parse: "header_from_slice addr (header_into_bytes ?h) = Ok ?h"
    by (rule header_inverse) (simp_all add: assms(2) header_new_def)
  have read: "fst (mar_read_bytes 16 (mar_reader_from_slice xs)) = Ok (header_into_bytes ?h)"
    using h unfolding xs off mar_read_bytes_def mar_reader_from_slice_def by (simp add: usize_add_exact [of 0 16])
  have u: "unat (hd_offset ?h) = ?off" "unat (hd_size ?h) = length ?w"
    using unat_u32 [of ?off] unat_u32 [of "length ?w"] sizes off by (simp_all only: header_new_def mar_header.simps)
  have len: "length xs = ?off + length ?w" "drop ?off xs = ?w" unfolding xs off using h by simp_all
  show ?thesis unfolding archive_from_slice_def read and_then.simps parse Let_def u using sizes len off by simp
qed

text \<open>Readers that return a value or an error.\<close>

definition rd_total :: "'a mar_rd \<Rightarrow> bool" where
  "rd_total m \<longleftrightarrow> (\<forall>r. (\<exists>x. fst (m r) = Ok x) \<or> (\<exists>e. fst (m r) = Err e))"

lemma unsigned_loop_total: "(\<exists>x. mar_unsigned_loop bs c k v = Ok x) \<or> (\<exists>e. mar_unsigned_loop bs c k v = Err e)"
  by (induction bs arbitrary: c k v) (auto simp: Let_def)

lemma rd_bind_total: "rd_total m \<Longrightarrow> (\<And>x. rd_total (f x)) \<Longrightarrow> rd_total (rd_bind m f)"
  unfolding rd_total_def rd_bind_def by (auto split: prod.splits outcome.splits) (metis fst_conv outcome.distinct)+

lemma mar_readers_total: "rd_total mar_read_blob" "rd_total mar_read_str"
proof -
  have "rd_total mar_read_unsigned" unfolding rd_total_def mar_read_unsigned_def
    using unsigned_loop_total by (auto split: outcome.splits) (metis outcome.distinct)+
  moreover have "rd_total (mar_read_bytes n)" for n by (simp add: rd_total_def mar_read_bytes_def Let_def)
  ultimately show blob: "rd_total mar_read_blob" unfolding mar_read_blob_def by (intro rd_bind_total)
  show "rd_total mar_read_str" unfolding mar_read_str_def by (intro rd_bind_total blob) (simp add: rd_total_def)
qed

lemma ok_opt_total:
  "rd_total m \<Longrightarrow> (\<And>x r. \<exists>e. fst (f x r) = Ok e) \<Longrightarrow> \<exists>e. fst (ok_opt m f r) = Ok e"
  unfolding rd_total_def ok_opt_def by (auto split: prod.splits outcome.splits) (metis fst_conv outcome.distinct)+


section \<open>The properties\<close>

text \<open>
  C8: an archive is read back.  When \<open>finalize\<close> succeeds, whatever entries were written before and whatever
  bytes come between the header and the entries, the reader accepts the archive at every aligned
  address, and the iterator gives the entries in order and then the end mark.
\<close>

theorem archive_roundtrip:
  assumes "write_entries mem es [] = Ok w" "finalize mem additional w = Ok xs" "list_all entry_ok es"
    and "length additional < 2 ^ 63" "addr mod 4 = 0"
  shows "\<exists>r. archive_from_slice addr xs = Ok r \<and> archive_items (length es + 1) r = Ok (es @ [MarEnd])"
proof -
  from finalize_archive [OF assms(2,5,4)] have arch: "archive_from_slice addr xs = Ok (mar_reader_from_slice (w @ enc_entry MarEnd))"
    and len: "length (w @ enc_entry MarEnd) < 2 ^ 63" by auto
  have "w = concat (map enc_entry es)" using write_entries_enc [OF assms(1)] len by simp
  with rd_at_start [OF len] have "rd_at (mar_reader_from_slice (w @ enc_entry MarEnd)) (concat (map enc_entry (es @ [MarEnd])))" by simp
  from archive_items_enc [OF this] arch assms(3) show ?thesis by simp
qed


theorem archive_roundtrip_witness:
  "\<exists>w xs r. write_entries (\<lambda>_. True) [MarNamespace [0x61] [], MarFile [0x62] [] [1, 2, 3]] [] = Ok w \<and>
     finalize (\<lambda>_. True) [] w = Ok xs \<and> archive_from_slice 4096 xs = Ok r \<and>
     archive_items 3 r = Ok [MarNamespace [0x61] [], MarFile [0x62] [] [1, 2, 3], MarEnd]"
proof -
  let ?es = "[MarNamespace [0x61] [], MarFile [0x62] [] [1, 2, 3]]"
  have small: "write_unsigned v = [ucast v]" if "v < 128" for v
  proof -
    have "v AND 0x7F = v" using that by (simp add: and_7F word_unat_eq_iff unsigned_take_bit_eq take_bit_nat_eq_self word_less_nat_alt)
    moreover have "drop_bit 7 v = 0" using that by (simp add: drop_7_eq_0)
    ultimately show ?thesis by (subst write_unsigned.simps) simp
  qed
  note defs = mar_write_unsigned_eq mar_write_byte_def mar_write_usize_def mar_write_blob_def
        mar_write_str_def mar_write_tagged_payload_def mar_write_bytes_def Let_def usize_add_def small
  obtain w where w: "write_entries (\<lambda>_. True) ?es [] = Ok w" "length w < 100" by (simp add: defs)
  from w(2) obtain xs where xs: "finalize (\<lambda>_. True) [] w = Ok xs" by (simp add: finalize_def defs)
  from archive_roundtrip [OF w(1) xs, of 4096] w(1) xs show ?thesis by (simp add: numeral_3_eq_3 del: write_entries.simps archive_items.simps)
qed

text \<open>
  The LEB128 integers of the archive library.  The tables of digits of \<open>write_unsigned\<close> are the
  bytes of the loop of the WebAssembly library, for every 64-bit value; and both \<open>read_unsigned\<close>
  and \<open>read_signed\<close> give back what was written, wherever it stands in a slice.
\<close>

theorem mar_leb128_roundtrip:
  fixes v :: u64
  assumes "mar_write_unsigned mem v w = Ok wu" "mar_write_signed mem v w = Ok ws" "length wu + length rest < 2 ^ 63" "length ws + length rest < 2 ^ 63"
  shows "wu = w @ write_unsigned v \<and>
    mar_read_unsigned \<lparr>mar_slice = wu @ rest, mar_position = length w\<rparr> = (Ok v, \<lparr>mar_slice = wu @ rest, mar_position = length wu\<rparr>) \<and>
    mar_read_signed \<lparr>mar_slice = ws @ rest, mar_position = length w\<rparr> = (Ok v, \<lparr>mar_slice = ws @ rest, mar_position = length ws\<rparr>)"
proof -
  from assms(1) have wu: "wu = w @ write_unsigned v" by (simp add: mar_write_unsigned_eq write_bytes_Ok)
  from mar_write_signed_ok [of mem v w] obtain k where k: "mar_write_signed mem v w = mar_write_bytes mem (signed_digits k v) w"
    "0 < k" "k \<le> 10" "\<And>n. 7 * k \<le> Suc n \<Longrightarrow> n < 64 \<Longrightarrow> bit v n = bit v 63" by blast
  with assms(2) have ws: "ws = w @ signed_digits k v" by (simp add: write_bytes_Ok)
  note d = signed_digits_leb [OF k(2,3,4)]
  have "mar_read_unsigned \<lparr>mar_slice = wu @ rest, mar_position = length w\<rparr> = (Ok v, \<lparr>mar_slice = wu @ rest, mar_position = length wu\<rparr>)"
    using read_unsigned_at [of "\<lparr>mar_slice = wu @ rest, mar_position = length w\<rparr>" v rest] assms(3) wu
    by (simp add: rd_at_def rd_adv_def)
  moreover have "mar_read_signed \<lparr>mar_slice = ws @ rest, mar_position = length w\<rparr> = (Ok v, \<lparr>mar_slice = ws @ rest, mar_position = length ws\<rparr>)"
  proof -
    have "mar_signed_loop (signed_digits k v @ rest) (length w) 0 0 = Ok (v, length w + k)"
      using signed_loop_digits [OF d(1), of rest "length w"] by (simp only: d(2,3) mult_0_right add_0 take_bit_0)
    then show ?thesis by (simp add: mar_read_signed_def ws d(2))
  qed
  ultimately show ?thesis using wu by blast
qed

theorem mar_leb128_roundtrip_witness:
  "\<exists>wu ws. mar_write_unsigned (\<lambda>_. True) (- 2) [] = Ok wu \<and> mar_write_signed (\<lambda>_. True) (- 2) [] = Ok ws \<and>
    mar_read_unsigned (mar_reader_from_slice wu) = (Ok (- 2), \<lparr>mar_slice = wu, mar_position = length wu\<rparr>) \<and>
    mar_read_signed (mar_reader_from_slice ws) = (Ok (- 2), \<lparr>mar_slice = ws, mar_position = length ws\<rparr>)"
proof -
  let ?v = "- 2 :: u64"
  obtain wu where wu: "mar_write_unsigned (\<lambda>_. True) ?v [] = Ok wu" "length wu \<le> 10"
    using write_unsigned_leb(3) [of ?v] by (simp add: mar_write_unsigned_eq mar_write_bytes_def)
  obtain k where k: "mar_write_signed (\<lambda>_. True) ?v [] = mar_write_bytes (\<lambda>_. True) (signed_digits k ?v) []" "0 < k" "k \<le> 10"
    using mar_write_signed_ok [of "\<lambda>_. True" ?v "[]"] by blast
  then obtain ws where ws: "mar_write_signed (\<lambda>_. True) ?v [] = Ok ws" "length ws \<le> 10"
    by (simp add: mar_write_bytes_def signed_digits_def)
  from mar_leb128_roundtrip [OF wu(1) ws(1), of "[]"] wu ws show ?thesis by (auto simp: mar_reader_from_slice_def)
qed

text \<open>
  The iterator over an archive panics at the end of the bytes and nowhere else: \<open>next\<close> panics exactly
  when no byte is left, so a truncated archive, or one more call after the end mark, stops the
  kernel; on all other input it returns an entry or \<open>None\<close>, without undefined behaviour.
\<close>

theorem archive_next_panics_at_end:
  "(fst (archive_next r) = Panic \<longleftrightarrow> mar_is_eof r) \<and> (mar_is_eof r \<or> (\<exists>e. fst (archive_next r) = Ok e))"
proof (cases "mar_is_eof r")
  case True
  then show ?thesis by (simp add: archive_next_def mar_read_byte_def mar_is_eof_def)
next
  case False
  then obtain tag r' where "mar_read_byte r = (Ok tag, r')" by (auto simp: mar_read_byte_def mar_is_eof_def)
  then have "\<exists>e. fst (archive_next r) = Ok e"
    by (auto simp: archive_next_def intro!: ok_opt_total mar_readers_total)
  with False show ?thesis by auto
qed

end
