(* ===== verification/RamFs.thy ===== *)
theory RamFs
  imports Prelude "HOL-Library.AList"
begin

text \<open>
  The file system in memory of src/system/src/fs/ramfs.rs, which is the root file system of the kernel.

  An inode number is given out once, so it names its entity.  \<open>rf_nodes\<close> holds the entities that
  live: an entity lives as long as it is the root, an entry of a living directory or an open token
  refers to it (\<open>Arc\<close>); \<open>reap\<close> drops the others, as the last \<open>Arc\<close> does.  The map \<open>inodes\<close> of the
  driver has weak references only: its keys are \<open>rf_inodes\<close>, and a key may outlive its entity.
  References that an operation takes and gives back before it returns are not counted.

  An operation runs as a whole.  The mutex of a directory is not reentrant, so locking a
  directory that the same operation has locked never returns: \<open>Err Blocks\<close>.  \<open>Err (Fails e)\<close> is the
  error \<open>e\<close>.  \<open>mem\<close> says whether a vector of so many bytes can be reserved; where the code does not
  check, as \<open>Vec::resize\<close>, a failure aborts (\<open>Panic\<close>).
\<close>

datatype error_kind = NotFound | PermissionDenied | ConnectionRefused | ConnectionReset | HostUnreachable
  | NetworkUnreachable | ConnectionAborted | NotConnected | AddrInUse | AddrNotAvailable | NetworkDown
  | BrokenPipe | AlreadyExists | WouldBlock | NotADirectory | IsADirectory | DirectoryNotEmpty
  | ReadOnlyFilesystem | FilesystemLoop | StaleNetworkFileHandle | InvalidInput | InvalidData | TimedOut
  | WriteZero | StorageFull | NotSeekable | FilesystemQuotaExceeded | FileTooLarge | ResourceBusy
  | ExecutableFileBusy | Deadlock | CrossesDevices | TooManyLinks | FilenameTooLong | ArgumentListTooLong
  | Interrupted | Unsupported | UnexpectedEof | OutOfMemory | Other | Uncategorized

datatype fs_stop = Fails error_kind | Blocks

type_synonym 'a fs_result = "(fs_stop, 'a) outcome"


section \<open>Files\<close>

text \<open>
  The vector of a file: its allocation, whose length is the capacity and whose elements are \<open>None\<close> where
  nothing has been written, and its length.
\<close>

record rf_file =
  f_estimated_size :: nat
  f_buf :: "u8 option list"
  f_len :: nat

definition FILE_SIZE_MAX :: nat where "FILE_SIZE_MAX = 2 ^ 31 - 1"

definition INODE_MAX :: nat where "INODE_MAX = 2 ^ 15 - 1"

definition rf_file_new :: rf_file where
  "rf_file_new = \<lparr>f_estimated_size = 0, f_buf = [], f_len = 0\<rparr>"

text \<open>Growing an allocation keeps the elements of the vector and nothing else (\<open>RawVec::grow_amortized\<close>).\<close>

definition content_grow :: "nat \<Rightarrow> rf_file \<Rightarrow> rf_file" where
  "content_grow n f = f\<lparr>f_buf := take (f_len f) (f_buf f) @ replicate (max n (max 8 (2 * length (f_buf f))) - f_len f) None\<rparr>"

definition content_resize :: "(nat \<Rightarrow> bool) \<Rightarrow> nat \<Rightarrow> rf_file \<Rightarrow> rf_file fs_result" where
  "content_resize mem n f =
     (if n \<le> f_len f then Ok (f\<lparr>f_len := n\<rparr>)
      else if length (f_buf f) < n \<and> \<not> mem n then Panic
      else
        let f = (if length (f_buf f) < n then content_grow n f else f) in
        Ok (f\<lparr>f_buf := take (f_len f) (f_buf f) @ replicate (n - f_len f) (Some 0) @ drop n (f_buf f), f_len := n\<rparr>))"

text \<open>The bytes that \<open>read\<close> stores in the buffer of \<open>n\<close> bytes; their number is its result.\<close>

definition rf_file_read :: "nat \<Rightarrow> nat \<Rightarrow> rf_file \<Rightarrow> u8 list fs_result" where
  "rf_file_read offset n f =
     (if f_len f \<le> offset then Ok []
      else
        let bs = take (min n (f_len f - offset)) (drop offset (f_buf f)) in
        if None \<in> set bs then UB UninitRead else Ok (map the bs))"

definition rf_file_write :: "(nat \<Rightarrow> bool) \<Rightarrow> nat \<Rightarrow> u8 list \<Rightarrow> rf_file \<Rightarrow> nat fs_result \<times> rf_file" where
  "rf_file_write mem offset buf f =
     (let new_size = offset + length buf in
      if 2 ^ 64 \<le> new_size then (Err (Fails FilesystemQuotaExceeded), f)
      else if FILE_SIZE_MAX < new_size then (Err (Fails FilesystemQuotaExceeded), f)
      else if length (f_buf f) < new_size \<and> \<not> mem new_size then (Err (Fails StorageFull), f)
      else
        let f = (if length (f_buf f) < new_size then content_grow new_size f else f);
            f = (if offset < f_len f then f\<lparr>f_len := offset\<rparr> else f) in
        if 0 < length buf then
          let f = f\<lparr>f_buf := take offset (f_buf f) @ map Some buf @ drop new_size (f_buf f)\<rparr> in
          (Ok (length buf), if f_len f < new_size then f\<lparr>f_len := new_size, f_estimated_size := new_size\<rparr> else f)
        else (Ok 0, f))"

definition rf_file_truncate :: "(nat \<Rightarrow> bool) \<Rightarrow> int \<Rightarrow> rf_file \<Rightarrow> unit fs_result \<times> rf_file" where
  "rf_file_truncate mem n f =
     (if n < 0 then (Err (Fails InvalidInput), f)
      else if f_len f \<le> nat n then
        (case content_resize mem (nat n) f of Ok f' \<Rightarrow> (Ok (), f') | _ \<Rightarrow> (Panic, f))
      else (Err (Fails InvalidInput), f))"


section \<open>Directories\<close>

type_synonym rf_dir = "(string \<times> nat) list"

definition dir_find :: "rf_dir \<Rightarrow> string \<Rightarrow> nat option" where
  "dir_find d name = map_option snd (find (\<lambda>(n, _). n = name) d)"

fun dir_find_index :: "rf_dir \<Rightarrow> string \<Rightarrow> nat option" where
  "dir_find_index [] name = None"
| "dir_find_index ((n, i) # d) name = (if n = name then Some 0 else map_option Suc (dir_find_index d name))"

definition vec_remove :: "nat \<Rightarrow> 'a list \<Rightarrow> 'a list" where
  "vec_remove i xs = take i xs @ drop (Suc i) xs"

definition dir_remove :: "rf_dir \<Rightarrow> string \<Rightarrow> (nat \<times> rf_dir) fs_result" where
  "dir_remove d name =
     (case dir_find_index d name of
        None \<Rightarrow> Err (Fails NotFound)
      | Some i \<Rightarrow> Ok (snd (d ! i), vec_remove i d))"

definition force_rename :: "rf_dir \<Rightarrow> string \<Rightarrow> string \<Rightarrow> rf_dir fs_result" where
  "force_rename d old_name new_name =
     (case dir_find_index d old_name of
        None \<Rightarrow> Err (Fails NotFound)
      | Some old_index \<Rightarrow>
          let d' = d[old_index := (new_name, snd (d ! old_index))] in
          Ok (case dir_find_index d new_name of None \<Rightarrow> d' | Some new_index \<Rightarrow> vec_remove new_index d'))"

definition append_or_replace :: "rf_dir \<Rightarrow> string \<Rightarrow> nat \<Rightarrow> rf_dir" where
  "append_or_replace d name i =
     (case dir_find_index d name of
        Some k \<Rightarrow> d[k := (fst (d ! k), i)]
      | None \<Rightarrow> d @ [(name, i)])"


section \<open>The driver\<close>

datatype rf_content = RfFile rf_file | RfDir rf_dir

record ramfs =
  rf_nodes :: "(nat \<times> rf_content) list"
  rf_inodes :: "nat list"
  rf_next :: u64
  rf_tokens :: "nat list"

definition rf_root :: nat where "rf_root = 2"

definition rf_new :: ramfs where
  "rf_new = \<lparr>rf_nodes = [(rf_root, RfDir [])], rf_inodes = [rf_root], rf_next = of_nat rf_root, rf_tokens = []\<rparr>"

abbreviation node :: "ramfs \<Rightarrow> nat \<Rightarrow> rf_content option" where
  "node s i \<equiv> map_of (rf_nodes s) i"

definition set_node :: "nat \<Rightarrow> rf_content \<Rightarrow> ramfs \<Rightarrow> ramfs" where
  "set_node i c s = s\<lparr>rf_nodes := AList.update i c (rf_nodes s)\<rparr>"

definition content_entries :: "rf_content \<Rightarrow> nat list" where
  "content_entries c = (case c of RfFile _ \<Rightarrow> [] | RfDir d \<Rightarrow> map snd d)"

text \<open>The strong references, and the drop of all that has none.\<close>

definition refs :: "ramfs \<Rightarrow> nat list" where
  "refs s = rf_root # rf_tokens s @ concat (map (\<lambda>(_, c). content_entries c) (rf_nodes s))"

function reap :: "ramfs \<Rightarrow> ramfs" where
  "reap s =
     (case find (\<lambda>(i, _). i \<notin> set (refs s)) (rf_nodes s) of
        None \<Rightarrow> s
      | Some (i, _) \<Rightarrow> reap (s\<lparr>rf_nodes := AList.delete i (rf_nodes s)\<rparr>))"
  by pat_completeness auto
termination
proof (relation "measure (\<lambda>s. length (rf_nodes s))")
  fix s :: ramfs and p i c
  assume "find (\<lambda>(i, _). i \<notin> set (refs s)) (rf_nodes s) = Some p" "(i, c) = p"
  then have "(i, c) \<in> set (rf_nodes s)" by (metis find_Some_iff nth_mem)
  then show "(s\<lparr>rf_nodes := AList.delete i (rf_nodes s)\<rparr>, s) \<in> measure (\<lambda>s. length (rf_nodes s))"
    by (auto simp: AList.delete_eq intro!: length_filter_less)
qed simp

declare reap.simps [simp del]

definition remove_key :: "nat \<Rightarrow> nat list \<Rightarrow> nat list" where
  "remove_key i xs = filter (\<lambda>k. k \<noteq> i) xs"

text \<open>\<open>get_entity\<close>: a key whose entity is gone is removed from the map.\<close>

definition get_entity :: "nat \<Rightarrow> ramfs \<Rightarrow> rf_content option \<times> ramfs" where
  "get_entity i s =
     (if i \<in> set (rf_inodes s) then
        (case node s i of
           Some c \<Rightarrow> (Some c, s)
         | None \<Rightarrow> (None, s\<lparr>rf_inodes := remove_key i (rf_inodes s)\<rparr>))
      else (None, s))"

text \<open>
  The counter is a machine word.  \<open>INodeType::new(1 + v).unwrap_unchecked()\<close> is undefined when
  the sum wraps around to zero.
\<close>

definition next_inode :: "ramfs \<Rightarrow> nat fs_result \<times> ramfs" where
  "next_inode s =
     (if length (rf_inodes s) < INODE_MAX then
        let inode = 1 + rf_next s in
        (if inode = 0 then UB InvalidValue else Ok (unat inode), s\<lparr>rf_next := rf_next s + 1\<rparr>)
      else (Err (Fails FilesystemQuotaExceeded), s))"

text \<open>The directory of an operation: \<open>NotFound\<close>, \<open>NotADirectory\<close>, or its entries.\<close>

definition as_directory :: "rf_content option \<Rightarrow> rf_dir fs_result" where
  "as_directory c = (case c of
      None \<Rightarrow> Err (Fails NotFound)
    | Some (RfFile _) \<Rightarrow> Err (Fails NotADirectory)
    | Some (RfDir d) \<Rightarrow> Ok d)"

definition make_node :: "nat \<Rightarrow> string \<Rightarrow> bool \<Rightarrow> ramfs \<Rightarrow> nat fs_result \<times> ramfs" where
  "make_node dir name is_dir s =
     (case get_entity dir s of (c, s) \<Rightarrow>
      case as_directory c of
        Ok d \<Rightarrow>
          (if dir_find d name \<noteq> None then (Err (Fails AlreadyExists), s)
           else case next_inode s of (r, s) \<Rightarrow>
             (case r of
                Ok inode \<Rightarrow>
                  let content = (if is_dir then RfDir [] else RfFile rf_file_new);
                      s = set_node inode content (s\<lparr>rf_inodes := inode # rf_inodes s\<rparr>) in
                  (Ok inode, set_node dir (RfDir (d @ [(name, inode)])) s)
              | Err e \<Rightarrow> (Err e, s) | Panic \<Rightarrow> (Panic, s) | UB u \<Rightarrow> (UB u, s)))
      | Err e \<Rightarrow> (Err e, s) | Panic \<Rightarrow> (Panic, s) | UB u \<Rightarrow> (UB u, s))"

definition rf_mkdir :: "nat \<Rightarrow> string \<Rightarrow> ramfs \<Rightarrow> unit fs_result \<times> ramfs" where
  "rf_mkdir dir name s = (case make_node dir name True s of (r, s) \<Rightarrow> (and_then r (\<lambda>_. Ok ()), s))"

text \<open>A token is named by the inode it holds.\<close>

definition rf_open :: "nat \<Rightarrow> ramfs \<Rightarrow> nat fs_result \<times> ramfs" where
  "rf_open i s =
     (case get_entity i s of
        (None, s) \<Rightarrow> (Err (Fails NotFound), s)
      | (Some _, s) \<Rightarrow> (Ok i, s\<lparr>rf_tokens := i # rf_tokens s\<rparr>))"

definition rf_close :: "nat \<Rightarrow> ramfs \<Rightarrow> ramfs" where
  "rf_close i s = reap (s\<lparr>rf_tokens := remove1 i (rf_tokens s)\<rparr>)"

definition rf_creat :: "nat \<Rightarrow> string \<Rightarrow> ramfs \<Rightarrow> nat fs_result \<times> ramfs" where
  "rf_creat dir name s =
     (case make_node dir name False s of
        (Ok inode, s) \<Rightarrow> rf_open inode s
      | (Err e, s) \<Rightarrow> (Err e, s) | (Panic, s) \<Rightarrow> (Panic, s) | (UB u, s) \<Rightarrow> (UB u, s))"

definition rf_lookup :: "nat \<Rightarrow> string \<Rightarrow> ramfs \<Rightarrow> nat fs_result \<times> ramfs" where
  "rf_lookup dir name s =
     (case get_entity dir s of (c, s) \<Rightarrow>
      (and_then (as_directory c) (\<lambda>d. ok_or (Fails NotFound) (dir_find d name)), s))"

text \<open>\<open>FsRawMetaData\<close>: inode, whether it is a directory, size; a size locks the directory.\<close>

definition content_size :: "rf_content \<Rightarrow> nat" where
  "content_size c = (case c of RfFile f \<Rightarrow> f_estimated_size f | RfDir d \<Rightarrow> length d)"

definition is_dir :: "rf_content \<Rightarrow> bool" where
  "is_dir c = (case c of RfFile _ \<Rightarrow> False | RfDir _ \<Rightarrow> True)"

definition rf_stat :: "nat \<Rightarrow> ramfs \<Rightarrow> (nat \<times> bool \<times> nat) option \<times> ramfs" where
  "rf_stat i s = (case get_entity i s of (c, s) \<Rightarrow> (map_option (\<lambda>c. (i, is_dir c, content_size c)) c, s))"

definition nth_child :: "nat \<Rightarrow> rf_dir \<Rightarrow> nat \<Rightarrow> ramfs \<Rightarrow> (nat \<times> string \<times> bool \<times> nat) option fs_result" where
  "nth_child locked d index s =
     (if length d \<le> index then Ok None
      else
        let (name, i) = d ! index in
        case node s i of
          None \<Rightarrow> Ok None
        | Some c \<Rightarrow> if is_dir c \<and> i = locked then Err Blocks else Ok (Some (i, name, is_dir c, content_size c)))"

definition rf_read_dir :: "nat \<Rightarrow> nat \<Rightarrow> ramfs \<Rightarrow> (nat \<times> string \<times> bool \<times> nat) option fs_result \<times> ramfs" where
  "rf_read_dir dir index s =
     (case get_entity dir s of
        (Some (RfDir d), s) \<Rightarrow> (nth_child dir d index s, s)
      | (_, s) \<Rightarrow> (Ok None, s))"

text \<open>\<open>confirm_to_remove\<close> locks the entry when it is a directory; \<open>locked\<close> are the directories already locked.\<close>

definition confirm_to_remove :: "nat list \<Rightarrow> rf_dir \<Rightarrow> string \<Rightarrow> ramfs \<Rightarrow> unit fs_result" where
  "confirm_to_remove locked d name s =
     (case dir_find d name of
        None \<Rightarrow> Err (Fails NotFound)
      | Some i \<Rightarrow>
          (case node s i of
             Some (RfDir children) \<Rightarrow>
               if i \<in> set locked then Err Blocks
               else if 0 < length children then Err (Fails DirectoryNotEmpty) else Ok ()
           | _ \<Rightarrow> Ok ()))"

definition rf_unlink :: "nat \<Rightarrow> string \<Rightarrow> ramfs \<Rightarrow> unit fs_result \<times> ramfs" where
  "rf_unlink dir name s =
     (case get_entity dir s of (c, s) \<Rightarrow>
      case and_then (as_directory c) (\<lambda>d.
           and_then (ok_or (Fails NotFound) (dir_find d name)) (\<lambda>inode.
           and_then (confirm_to_remove [dir] d name s) (\<lambda>_.
           and_then (dir_remove d name) (\<lambda>(_, d'). Ok (inode, d'))))) of
        Ok (inode, d') \<Rightarrow> (Ok (), snd (get_entity inode (reap (set_node dir (RfDir d') s))))
      | Err e \<Rightarrow> (Err e, s) | Panic \<Rightarrow> (Panic, s) | UB u \<Rightarrow> (UB u, s))"

text \<open>
  The entry that a rename replaces, if there is one: the branch on \<open>replace\<close> that both halves of
  \<open>rename\<close> have.
\<close>

definition rename_target :: "nat list \<Rightarrow> rf_dir \<Rightarrow> string \<Rightarrow> bool \<Rightarrow> ramfs \<Rightarrow> nat option fs_result" where
  "rename_target locked d new_name replace s =
     (if replace then
        (case confirm_to_remove locked d new_name s of
           Ok _ \<Rightarrow> Ok (dir_find d new_name)
         | Err e \<Rightarrow> if e = Fails NotFound then Ok None else Err e
         | Panic \<Rightarrow> Panic
         | UB u \<Rightarrow> UB u)
      else if dir_find d new_name \<noteq> None then Err (Fails AlreadyExists)
      else Ok None)"

text \<open>
  \<open>rename\<close> returns the directories it leaves, in the order old, new; the two halves are the branches
  for one and for two directories.  Both \<open>unwrap\<close>s are of what has just been found.
\<close>

definition rename_same :: "nat \<Rightarrow> string \<Rightarrow> string \<Rightarrow> bool \<Rightarrow> rf_dir \<Rightarrow> ramfs \<Rightarrow> (nat \<times> rf_dir) list fs_result" where
  "rename_same dir old_name new_name replace d s =
     and_then (ok_or (Fails NotFound) (dir_find d old_name)) (\<lambda>old_inode.
     and_then (rename_target [dir] d new_name replace s) (\<lambda>new_inode.
     if new_inode = Some old_inode then Ok []
     else case force_rename d old_name new_name of Ok d' \<Rightarrow> Ok [(dir, d')] | _ \<Rightarrow> Panic))"

definition rename_other :: "nat \<Rightarrow> string \<Rightarrow> nat \<Rightarrow> string \<Rightarrow> bool \<Rightarrow> rf_dir \<Rightarrow> rf_dir fs_result \<Rightarrow> ramfs \<Rightarrow> (nat \<times> rf_dir) list fs_result" where
  "rename_other old_dir old_name new_dir new_name replace d1 d2 s =
     and_then (ok_or (Fails NotFound) (dir_find d1 old_name)) (\<lambda>old_inode.
     and_then d2 (\<lambda>d2.
     and_then (rename_target [old_dir, new_dir] d2 new_name replace s) (\<lambda>new_inode.
     if new_inode = Some old_inode then Ok []
     else case dir_remove d1 old_name of
         Ok (i, d1') \<Rightarrow> Ok [(old_dir, d1'), (new_dir, append_or_replace d2 new_name i)]
       | _ \<Rightarrow> Panic)))"

definition rf_rename :: "nat \<Rightarrow> string \<Rightarrow> nat \<Rightarrow> string \<Rightarrow> bool \<Rightarrow> ramfs \<Rightarrow> unit fs_result \<times> ramfs" where
  "rf_rename old_dir old_name new_dir new_name replace s =
     (case get_entity old_dir s of (c1, s) \<Rightarrow>
      case as_directory c1 of
        Ok d1 \<Rightarrow>
          (case (if new_dir = old_dir then (rename_same old_dir old_name new_name replace d1 s, s)
                 else if dir_find d1 old_name = None then (Err (Fails NotFound), s)
                 else case get_entity new_dir s of (c2, s) \<Rightarrow>
                   (rename_other old_dir old_name new_dir new_name replace d1 (as_directory c2) s, s)) of
             (Ok ds, s) \<Rightarrow> (Ok (), reap (fold (\<lambda>(i, d). set_node i (RfDir d)) ds s))
           | (Err e, s) \<Rightarrow> (Err e, s) | (Panic, s) \<Rightarrow> (Panic, s) | (UB u, s) \<Rightarrow> (UB u, s))
      | Err e \<Rightarrow> (Err e, s) | Panic \<Rightarrow> (Panic, s) | UB u \<Rightarrow> (UB u, s))"

section \<open>Tokens\<close>

text \<open>A token keeps its entity alive, so the entity is there.  The offset is an \<open>i64\<close> taken as a \<open>usize\<close>.\<close>

definition offset_usize :: "int \<Rightarrow> nat" where
  "offset_usize i = nat (i mod 2 ^ 64)"

definition rf_read_data :: "nat \<Rightarrow> int \<Rightarrow> nat \<Rightarrow> ramfs \<Rightarrow> u8 list fs_result" where
  "rf_read_data i offset n s =
     (case node s i of
        Some (RfFile f) \<Rightarrow> rf_file_read (offset_usize offset) n f
      | _ \<Rightarrow> Err (Fails IsADirectory))"

definition rf_write_data :: "(nat \<Rightarrow> bool) \<Rightarrow> nat \<Rightarrow> int \<Rightarrow> u8 list \<Rightarrow> ramfs \<Rightarrow> nat fs_result \<times> ramfs" where
  "rf_write_data mem i offset buf s =
     (case node s i of
        Some (RfFile f) \<Rightarrow> (case rf_file_write mem (offset_usize offset) buf f of (r, f') \<Rightarrow> (r, set_node i (RfFile f') s))
      | _ \<Rightarrow> (Err (Fails IsADirectory), s))"

definition rf_truncate :: "(nat \<Rightarrow> bool) \<Rightarrow> nat \<Rightarrow> int \<Rightarrow> ramfs \<Rightarrow> unit fs_result \<times> ramfs" where
  "rf_truncate mem i n s =
     (case node s i of
        Some (RfFile f) \<Rightarrow> (case rf_file_truncate mem n f of (r, f') \<Rightarrow> (r, set_node i (RfFile f') s))
      | _ \<Rightarrow> (Err (Fails IsADirectory), s))"

definition rf_token_stat :: "nat \<Rightarrow> ramfs \<Rightarrow> (nat \<times> bool \<times> nat) option" where
  "rf_token_stat i s = map_option (\<lambda>c. (i, is_dir c, content_size c)) (node s i)"

end
