(* ===== verification/RamFsDir.thy ===== *)
theory RamFsDir
  imports RamFs
begin

text \<open>
  The directories and files of the file system in memory, taken alone: a directory is a map from names to
  inodes (the interface \<open>name_map\<close>), and what a file holds after a write.
\<close>

section \<open>Directories as maps\<close>

locale name_map =
  fixes get :: "'d \<Rightarrow> string \<Rightarrow> nat option"
    and del :: "'d \<Rightarrow> string \<Rightarrow> 'd"
    and put :: "'d \<Rightarrow> string \<Rightarrow> nat \<Rightarrow> 'd"
    and valid :: "'d \<Rightarrow> bool"
  assumes del_valid: "valid d \<Longrightarrow> valid (del d n)"
    and put_valid: "valid d \<Longrightarrow> valid (put d n i)"
    and get_del: "valid d \<Longrightarrow> get (del d n) m = (if m = n then None else get d m)"
    and get_put: "valid d \<Longrightarrow> get (put d n i) m = (if m = n then Some i else get d m)"
begin

text \<open>Taking an entry out of one directory and putting it in another.\<close>

lemma move:
  assumes "valid d1" "valid d2" "get d1 n = Some i"
  shows "valid (del d1 n) \<and> valid (put d2 m i) \<and> get (del d1 n) n = None \<and> get (put d2 m i) m = Some i \<and>
    (\<forall>k. k \<noteq> n \<longrightarrow> get (del d1 n) k = get d1 k) \<and> (\<forall>k. k \<noteq> m \<longrightarrow> get (put d2 m i) k = get d2 k)"
  using assms by (simp add: del_valid put_valid get_del get_put)

text \<open>The same inside one directory.\<close>

lemma rename:
  assumes "valid d" "get d n = Some i" "n \<noteq> m"
  shows "valid (put (del d n) m i) \<and> get (put (del d n) m i) k = (if k = m then Some i else if k = n then None else get d k)"
  using assms by (simp add: del_valid put_valid get_del get_put)

end

definition names_distinct :: "rf_dir \<Rightarrow> bool" where
  "names_distinct d \<longleftrightarrow> distinct (map fst d)"

lemma dir_find_map_of: "dir_find d n = map_of d n"
  unfolding dir_find_def by (induction d) auto

lemma find_index_None: "dir_find_index d n = None \<longleftrightarrow> map_of d n = None"
  by (induction d n rule: dir_find_index.induct) auto

lemma find_index_Some:
  "dir_find_index d n = Some k \<Longrightarrow> k < length d \<and> fst (d ! k) = n \<and> map_of d n = Some (snd (d ! k))"
  by (induction d n arbitrary: k rule: dir_find_index.induct) (auto split: if_splits)

lemma vec_remove_simps [simp]:
  "vec_remove i [] = []" "vec_remove 0 (x # xs) = xs" "vec_remove (Suc i) (x # xs) = x # vec_remove i xs"
  by (simp_all add: vec_remove_def)

lemma vec_remove_set: "set (vec_remove i xs) \<subseteq> set xs"
  by (induction xs arbitrary: i) (case_tac i; force)+

lemma vec_remove_map: "map f (vec_remove i xs) = vec_remove i (map f xs)"
  by (simp add: vec_remove_def take_map drop_map)

lemma vec_remove_names: "names_distinct d \<Longrightarrow> names_distinct (vec_remove i d)"
  unfolding names_distinct_def vec_remove_map
proof (induction d arbitrary: i)
  case (Cons x d)
  then show ?case using vec_remove_set [of _ "map fst d"] by (cases i) auto
qed simp

lemma map_of_vec_remove:
  assumes "names_distinct d" "k < length d"
  shows "map_of (vec_remove k d) = (map_of d)(fst (d ! k) := None)"
  using assms
proof (induction d arbitrary: k)
  case (Cons x d)
  then show ?case
  proof (cases k)
    case 0
    have "map_of d (fst x) = None" using Cons.prems(1) by (simp add: names_distinct_def map_of_eq_None_iff)
    then show ?thesis using 0 by (auto simp: fun_eq_iff)
  next
    case (Suc j)
    then have "fst x \<noteq> fst (d ! j)" using Cons.prems by (auto simp: names_distinct_def)
    then show ?thesis using Suc Cons by (auto simp: fun_eq_iff names_distinct_def)
  qed
qed simp

definition dir_del :: "rf_dir \<Rightarrow> string \<Rightarrow> rf_dir" where
  "dir_del d n = (case dir_remove d n of Ok (_, d') \<Rightarrow> d' | _ \<Rightarrow> d)"

lemma dir_remove_iff:
  "dir_remove d n = (case map_of d n of None \<Rightarrow> Err (Fails NotFound) | Some i \<Rightarrow> Ok (i, dir_del d n))"
  using find_index_None [of d n] find_index_Some [of d n]
  by (auto simp: dir_del_def dir_remove_def split: option.splits)

lemma dir_del_map: "names_distinct d \<Longrightarrow> map_of (dir_del d n) = (map_of d)(n := None)"
  using find_index_None [of d n] find_index_Some [of d n] map_of_vec_remove [of d]
  by (auto simp: dir_del_def dir_remove_def fun_eq_iff split: option.splits)

lemma dir_del_names: "names_distinct d \<Longrightarrow> names_distinct (dir_del d n)"
  by (simp add: dir_del_def dir_remove_def vec_remove_names split: option.splits)

lemma dir_del_subset: "set (dir_del d n) \<subseteq> set d"
  using vec_remove_set [of _ d] by (auto simp: dir_del_def dir_remove_def split: option.splits)

lemma append_or_replace_subset: "snd ` set (append_or_replace d n i) \<subseteq> insert i (snd ` set d)"
  unfolding append_or_replace_def using set_update_subset_insert by (fastforce split: option.splits)

lemma list_update_names: "k < length d \<Longrightarrow> map fst (d[k := (fst (d ! k), i)]) = map fst d"
  by (simp add: map_update list_update_same_conv)

lemma map_of_list_update:
  "names_distinct d \<Longrightarrow> k < length d \<Longrightarrow> map_of (d[k := (fst (d ! k), i)]) = (map_of d)(fst (d ! k) := Some i)"
proof (induction d arbitrary: k)
  case (Cons x d)
  then show ?case
  proof (cases k)
    case (Suc j)
    then have "fst x \<noteq> fst (d ! j)" using Cons.prems by (auto simp: names_distinct_def)
    then show ?thesis using Suc Cons by (auto simp: fun_eq_iff names_distinct_def)
  qed (auto simp: fun_eq_iff)
qed simp

lemma append_or_replace_map: "names_distinct d \<Longrightarrow> map_of (append_or_replace d n i) = (map_of d)(n := Some i)"
  using find_index_None [of d n] find_index_Some [of d n] map_of_list_update [of d _ i]
  by (auto simp: append_or_replace_def fun_eq_iff map_add_def split: option.splits)

lemma append_or_replace_names: "names_distinct d \<Longrightarrow> names_distinct (append_or_replace d n i)"
  using find_index_None [of d n] find_index_Some [of d n] list_update_names [of _ d i]
  by (auto simp: append_or_replace_def names_distinct_def map_of_eq_None_iff split: option.splits)

interpretation dir: name_map map_of dir_del append_or_replace names_distinct
  by unfold_locales (simp_all add: dir_del_map dir_del_names append_or_replace_map append_or_replace_names)

text \<open>\<open>force_rename\<close> is the removal of the old name followed by the insertion of the new one.\<close>

lemma map_of_rename:
  assumes "names_distinct d" "k < length d" "map_of d m = None"
  shows "names_distinct (d[k := (m, i)])" "map_of (d[k := (m, i)]) = (map_of d)(fst (d ! k) := None, m := Some i)"
proof -
  have "m \<notin> set (map fst d)" using assms(3) by (simp add: map_of_eq_None_iff)
  then show "names_distinct (d[k := (m, i)])"
    using assms(1) by (auto simp: names_distinct_def map_update intro!: distinct_list_update)
  show "map_of (d[k := (m, i)]) = (map_of d)(fst (d ! k) := None, m := Some i)"
    using assms
  proof (induction d arbitrary: k)
    case (Cons x d)
    then show ?case
    proof (cases k)
      case 0
      have "map_of d (fst x) = None" using Cons.prems(1) by (simp add: names_distinct_def map_of_eq_None_iff)
      then show ?thesis using 0 by (auto simp: fun_eq_iff)
    next
      case (Suc j)
      then have "fst x \<noteq> fst (d ! j)" "fst x \<noteq> m" using Cons.prems by (auto simp: names_distinct_def split: if_splits)
      then show ?thesis using Suc Cons by (auto simp: fun_eq_iff names_distinct_def)
    qed
  qed simp
qed

lemma vec_remove_update:
  "k \<noteq> j \<Longrightarrow> j < length xs \<Longrightarrow> k < length xs \<Longrightarrow>
   vec_remove k (xs[j := x]) = (vec_remove k xs)[(if k < j then j - 1 else j) := x] \<and>
   vec_remove k xs ! (if k < j then j - 1 else j) = xs ! j \<and> (if k < j then j - 1 else j) < length (vec_remove k xs)"
proof (induction xs arbitrary: k j)
  case (Cons y ys)
  then show ?case
  proof (cases k)
    case (Suc k')
    show ?thesis
    proof (cases j)
      case 0
      with Suc Cons.prems show ?thesis by (cases ys) (auto simp: vec_remove_def)
    next
      case (Suc j')
      with \<open>k = Suc k'\<close> Cons.IH [of k' j'] Cons.prems show ?thesis by (cases "k' < j'"; cases j') auto
    qed
  qed (auto simp: nth_Cons' split: nat.splits)
qed simp

lemma force_rename_map:
  assumes d: "names_distinct d" and old: "map_of d old = Some i" and ne: "old \<noteq> new"
  shows "\<exists>d'. force_rename d old new = Ok d' \<and> names_distinct d' \<and> map_of d' = (map_of d)(old := None, new := Some i)"
proof -
  from old find_index_None [of d old] obtain k where "dir_find_index d old = Some k" by fastforce
  with find_index_Some [OF this] old have k: "dir_find_index d old = Some k" "k < length d" "fst (d ! k) = old" "snd (d ! k) = i" by auto
  show ?thesis
  proof (cases "dir_find_index d new")
    case None
    then have "map_of d new = None" by (simp add: find_index_None)
    with None map_of_rename [OF d k(2), of new i] k show ?thesis by (auto simp: force_rename_def Let_def)
  next
    case (Some j)
    note j = find_index_Some [OF Some]
    have "j \<noteq> k" using j k(3) ne by auto
    note vr = vec_remove_update [OF this k(2), of "(new, i)"]
    let ?k = "if j < k then k - 1 else k"
    have vd: "names_distinct (vec_remove j d)" "map_of (vec_remove j d) = (map_of d)(new := None)"
      using vec_remove_names [OF d] map_of_vec_remove [OF d, of j] j by auto
    have "names_distinct ((vec_remove j d)[?k := (new, i)])"
      "map_of ((vec_remove j d)[?k := (new, i)]) = (map_of (vec_remove j d))(fst (vec_remove j d ! ?k) := None, new := Some i)"
      using map_of_rename [OF vd(1), of ?k new i] vr j vd(2) by auto
    with vr j k Some vd(2) ne show ?thesis by (auto simp: force_rename_def fun_eq_iff)
  qed
qed



section \<open>Files\<close>

definition file_ok :: "rf_file \<Rightarrow> bool" where
  "file_ok f \<longleftrightarrow> f_len f \<le> length (f_buf f)"

definition file_bytes :: "rf_file \<Rightarrow> u8 option list" where
  "file_bytes f = take (f_len f) (f_buf f)"

lemma file_new_ok: "file_ok rf_file_new"
  by (simp add: file_ok_def rf_file_new_def)

lemma content_grow_ok:
  assumes "file_ok f"
  shows "f_len (content_grow n f) = f_len f" "n \<le> length (f_buf (content_grow n f))" "file_ok (content_grow n f)" "file_bytes (content_grow n f) = file_bytes f"
  using assms by (auto simp: content_grow_def file_ok_def file_bytes_def)

text \<open>What a write leaves: the bytes before the offset, the new bytes, and nothing behind them.\<close>

lemma file_write_spec:
  assumes ok: "file_ok f" and w: "rf_file_write mem offset buf f = (Ok n, f')"
  shows "n = length buf \<and> file_ok f' \<and>
    (if buf = [] then file_bytes f' = take offset (file_bytes f)
     else f_len f' = offset + length buf \<and> drop offset (file_bytes f') = map Some buf \<and> f_estimated_size f' = f_len f' \<and>
       (offset \<le> f_len f \<longrightarrow> file_bytes f' = take offset (file_bytes f) @ map Some buf))"
proof -
  define g where "g = (if length (f_buf f) < offset + length buf then content_grow (offset + length buf) f else f)"
  have g: "f_len g = f_len f" "offset + length buf \<le> length (f_buf g)" "file_ok g" "file_bytes g = file_bytes f"
    using content_grow_ok [OF ok, of "offset + length buf"] ok by (auto simp: g_def)
  define h where "h = (if offset < f_len g then g\<lparr>f_len := offset\<rparr> else g)"
  have h: "f_len h = min offset (f_len f)" "f_buf h = f_buf g" "f_estimated_size h = f_estimated_size g"
    using g(1) by (auto simp: h_def)
  have res: "(Ok n, f') = (if 0 < length buf then
      let f = h\<lparr>f_buf := take offset (f_buf h) @ map Some buf @ drop (offset + length buf) (f_buf h)\<rparr> in
      (Ok (length buf), if f_len f < offset + length buf then f\<lparr>f_len := offset + length buf, f_estimated_size := offset + length buf\<rparr> else f)
      else (Ok 0, h))"
    using w unfolding rf_file_write_def Let_def g_def h_def by (auto split: if_splits)
  show ?thesis
  proof (cases "buf = []")
    case True
    with res have "f' = h" "n = 0" by auto
    moreover have "file_bytes h = take offset (file_bytes f)"
      using g(1,4) by (simp only: file_bytes_def h(1,2) take_take [symmetric])
    ultimately show ?thesis using True h g(3,1) by (simp add: file_ok_def)
  next
    case False
    then have "min offset (f_len f) < offset + length buf" by (cases buf) auto
    with False res h have f': "n = length buf" "f_len f' = offset + length buf" "f_estimated_size f' = f_len f'"
      "f_buf f' = take offset (f_buf g) @ map Some buf @ drop (offset + length buf) (f_buf g)" by (auto simp: Let_def)
    then have bytes: "file_bytes f' = take offset (f_buf g) @ map Some buf" using g(2) by (simp add: file_bytes_def)
    moreover have "offset \<le> f_len f \<Longrightarrow> take offset (f_buf g) = take offset (file_bytes f)"
      using g(1,4) by (metis file_bytes_def min.absorb1 take_take)
    ultimately show ?thesis using False f' g(2) by (simp add: file_ok_def)
  qed
qed

lemma file_write_ok: "file_ok f \<Longrightarrow> file_ok (snd (rf_file_write mem offset buf f))"
proof -
  assume ok: "file_ok f"
  obtain r f' where w: "rf_file_write mem offset buf f = (r, f')" by fastforce
  show ?thesis
  proof (cases r)
    case (Ok n)
    with file_write_spec [OF ok] w show ?thesis by simp
  next
    case (Err e)
    with w ok show ?thesis by (auto simp: rf_file_write_def Let_def split: if_splits)
  qed (use w in \<open>auto simp: rf_file_write_def Let_def split: if_splits\<close>)
qed

lemma file_truncate_ok: "file_ok f \<Longrightarrow> file_ok (snd (rf_file_truncate mem n f))"
proof -
  assume ok: "file_ok f"
  have "file_ok f'" if "content_resize mem m f = Ok f'" for m f'
    using that content_grow_ok [OF ok, of m] ok by (auto simp: content_resize_def Let_def file_ok_def split: if_splits)
  then show ?thesis using ok by (auto simp: rf_file_truncate_def split: outcome.splits)
qed

lemma file_read_written:
  assumes "file_ok f" "rf_file_write mem offset buf f = (Ok n, f')" "buf \<noteq> []"
  shows "rf_file_read offset (length buf) f' = Ok buf"
proof -
  note w = file_write_spec [OF assms(1,2)]
  with assms(3) have f': "f_len f' = offset + length buf" "drop offset (file_bytes f') = map Some buf" by auto
  have "take (length buf) (drop offset (f_buf f')) = drop offset (file_bytes f')"
    using f'(1) by (simp add: file_bytes_def drop_take)
  then show ?thesis using f' assms(3) by (auto simp: rf_file_read_def Let_def)
qed

end
