(* ===== verification/RamFsSafety.thy ===== *)
theory RamFsSafety
  imports RamFsDir
begin

text \<open>
  The file system in memory as a whole: the invariant of its states and that every operation keeps it, what
  \<open>rename\<close> and \<open>unlink\<close> do to the names, and what goes wrong: a rename that waits for itself, and inode
  numbers that are never given back.
\<close>

section \<open>The invariant\<close>

definition content_ok :: "rf_content \<Rightarrow> bool" where
  "content_ok c = (case c of RfFile f \<Rightarrow> file_ok f | RfDir d \<Rightarrow> names_distinct d)"

text \<open>
  Entities have one content each; the root is a directory; every reference is to a living entity; the
  map of the driver has a key for every living entity; no number is above the counter.
\<close>

definition rf_pre :: "ramfs \<Rightarrow> bool" where
  "rf_pre s \<longleftrightarrow> distinct (map fst (rf_nodes s)) \<and> distinct (rf_inodes s) \<and>
     (\<exists>d. node s rf_root = Some (RfDir d)) \<and> set (refs s) \<subseteq> dom (node s) \<and> dom (node s) \<subseteq> set (rf_inodes s) \<and>
     (\<forall>i\<in>set (rf_inodes s). rf_root \<le> i \<and> i \<le> unat (rf_next s)) \<and> (\<forall>i c. node s i = Some c \<longrightarrow> content_ok c)"

definition rf_ok :: "ramfs \<Rightarrow> bool" where
  "rf_ok s \<longleftrightarrow> rf_pre s \<and> set (refs s) = dom (node s)"

lemma rf_preD:
  assumes "rf_pre s"
  shows "distinct (map fst (rf_nodes s))" "distinct (rf_inodes s)" "\<exists>d. node s rf_root = Some (RfDir d)"
    "i \<in> set (refs s) \<Longrightarrow> \<exists>c. node s i = Some c" "node s i = Some c \<Longrightarrow> i \<in> set (rf_inodes s)"
    "i \<in> set (rf_inodes s) \<Longrightarrow> rf_root \<le> i \<and> i \<le> unat (rf_next s)" "node s i = Some c \<Longrightarrow> content_ok c"
  using assms by (auto simp: rf_pre_def dom_def)

lemma rf_preI:
  assumes "distinct (map fst (rf_nodes s))" "distinct (rf_inodes s)" "\<exists>d. node s rf_root = Some (RfDir d)"
    "\<And>i. i \<in> set (refs s) \<Longrightarrow> \<exists>c. node s i = Some c" "\<And>i c. node s i = Some c \<Longrightarrow> i \<in> set (rf_inodes s)"
    "\<And>i. i \<in> set (rf_inodes s) \<Longrightarrow> rf_root \<le> i \<and> i \<le> unat (rf_next s)" "\<And>i c. node s i = Some c \<Longrightarrow> content_ok c"
  shows "rf_pre s"
  using assms by (auto simp: rf_pre_def dom_def)

lemma rf_ok_iff: "rf_ok s \<longleftrightarrow> rf_pre s \<and> (\<forall>i c. node s i = Some c \<longrightarrow> i \<in> set (refs s))"
  by (auto simp: rf_ok_def rf_pre_def dom_def)

lemma refs_iff:
  assumes "distinct (map fst (rf_nodes s))"
  shows "i \<in> set (refs s) \<longleftrightarrow> i = rf_root \<or> i \<in> set (rf_tokens s) \<or> (\<exists>j c. node s j = Some c \<and> i \<in> set (content_entries c))"
  using assms by (auto simp: refs_def map_of_eq_Some_iff)

lemma find_unreferenced:
  "find (\<lambda>(i, _). i \<notin> set (refs s)) (rf_nodes s) = None \<Longrightarrow> node s i = Some c \<Longrightarrow> i \<in> set (refs s)"
  by (auto simp: find_None_iff dest: map_of_SomeD)

lemma delete_pre:
  assumes pre: "rf_pre s" and i: "i \<notin> set (refs s)"
  defines "s' \<equiv> s\<lparr>rf_nodes := AList.delete i (rf_nodes s)\<rparr>"
  shows "rf_pre s'" "node s' = (node s)(i := None)" "j \<in> set (refs s') \<Longrightarrow> j \<in> set (refs s)"
proof -
  show n: "node s' = (node s)(i := None)" by (simp add: s'_def delete_conv' fun_eq_iff)
  note d = rf_preD(1) [OF pre]
  then have d': "distinct (map fst (rf_nodes s'))" by (simp add: s'_def distinct_delete)
  show sub: "j \<in> set (refs s') \<Longrightarrow> j \<in> set (refs s)" for j
    unfolding refs_iff [OF d] refs_iff [OF d'] n by (auto simp: s'_def split: if_splits)
  have "rf_root \<noteq> i" using i by (auto simp: refs_def)
  moreover have "rf_inodes s' = rf_inodes s" "rf_next s' = rf_next s" by (simp_all add: s'_def)
  moreover have "\<exists>c. node s' k = Some c" if "k \<in> set (refs s')" for k
    using rf_preD(4) [OF pre sub [OF that]] sub [OF that] i by (auto simp: n)
  ultimately show "rf_pre s'"
    using d' rf_preD(2,3,5,6,7) [OF pre] by (intro rf_preI) (auto simp: n split: if_splits)
qed

lemma reap_frame: "rf_inodes (reap s) = rf_inodes s" "rf_next (reap s) = rf_next s" "rf_tokens (reap s) = rf_tokens s"
  by (induction s rule: reap.induct; subst reap.simps; simp split: option.splits prod.splits)+

lemma reap_ok: "rf_pre s \<Longrightarrow> rf_ok (reap s) \<and> node (reap s) \<subseteq>\<^sub>m node s"
proof (induction s rule: reap.induct)
  case (1 s)
  show ?case
  proof (cases "find (\<lambda>(i, _). i \<notin> set (refs s)) (rf_nodes s)")
    case None
    then have "reap s = s" by (subst reap.simps) simp
    with 1 find_unreferenced [OF None] show ?thesis by (auto simp: rf_ok_iff)
  next
    case (Some p)
    obtain i c where p: "p = (i, c)" by fastforce
    from Some p have i: "i \<notin> set (refs s)" by (auto simp: find_Some_iff)
    have "reap s = reap (s\<lparr>rf_nodes := AList.delete i (rf_nodes s)\<rparr>)" using Some p by (subst reap.simps) simp
    moreover note IH = 1(1) [OF Some p [symmetric] delete_pre(1) [OF 1(2) i]]
    moreover have "node (s\<lparr>rf_nodes := AList.delete i (rf_nodes s)\<rparr>) \<subseteq>\<^sub>m node s"
      unfolding delete_pre(2) [OF 1(2) i] by (auto simp: map_le_def)
    ultimately show ?thesis using map_le_trans by (metis (no_types, lifting))
  qed
qed

text \<open>When all that is dropped has no entries, only that goes.\<close>

lemma reap_flat:
  assumes "rf_pre s" "\<And>i c. node s i = Some c \<Longrightarrow> i \<notin> set (refs s) \<Longrightarrow> content_entries c = []"
  shows "node (reap s) j = (if j \<in> set (refs s) then node s j else None)"
  using assms
proof (induction s rule: reap.induct)
  case (1 s)
  show ?case
  proof (cases "find (\<lambda>(i, _). i \<notin> set (refs s)) (rf_nodes s)")
    case None
    then have "reap s = s" by (subst reap.simps) simp
    with find_unreferenced [OF None] show ?thesis by (cases "node s j") auto
  next
    case (Some p)
    obtain i c where p: "p = (i, c)" by fastforce
    from Some p have i: "i \<notin> set (refs s)" by (auto simp: find_Some_iff)
    let ?s = "s\<lparr>rf_nodes := AList.delete i (rf_nodes s)\<rparr>"
    note del = delete_pre [OF 1(2) i]
    have refs: "k \<in> set (refs ?s) \<longleftrightarrow> k \<in> set (refs s)" for k
      unfolding refs_iff [OF rf_preD(1) [OF 1(2)]] refs_iff [OF rf_preD(1) [OF del(1)]] del(2)
      using 1(3) [of i] i by (auto split: if_splits) fastforce+
    have "node (reap ?s) j = (if j \<in> set (refs ?s) then node ?s j else None)"
    proof (rule 1(1) [OF Some p [symmetric] del(1)])
      show "content_entries c = []" if "node ?s i' = Some c" "i' \<notin> set (refs ?s)" for i' c
        using that 1(3) [of i' c] unfolding refs del(2) by (auto split: if_splits)
    qed
    moreover have "reap s = reap ?s" using Some p by (subst reap.simps) simp
    ultimately show ?thesis using i unfolding refs del(2) by auto
  qed
qed


section \<open>The operations keep the invariant\<close>

lemma set_node_simps [simp]:
  "node (set_node i c s) = (node s)(i \<mapsto> c)" "rf_inodes (set_node i c s) = rf_inodes s"
  "rf_next (set_node i c s) = rf_next s" "rf_tokens (set_node i c s) = rf_tokens s"
  "distinct (map fst (rf_nodes s)) \<Longrightarrow> distinct (map fst (rf_nodes (set_node i c s)))"
  by (simp_all add: set_node_def update_conv' distinct_update fun_eq_iff)

lemma refs_set_node:
  assumes "distinct (map fst (rf_nodes s))"
  shows "j \<in> set (refs (set_node i c s)) \<longleftrightarrow> j = rf_root \<or> j \<in> set (rf_tokens s) \<or> j \<in> set (content_entries c) \<or>
    (\<exists>k c'. k \<noteq> i \<and> node s k = Some c' \<and> j \<in> set (content_entries c'))"
  unfolding refs_iff [OF set_node_simps(5) [OF assms]] set_node_simps
  by (auto simp: fun_upd_def split: if_splits)

lemma refs_split:
  assumes "distinct (map fst (rf_nodes s))" "node s i = Some c"
  shows "j \<in> set (refs s) \<longleftrightarrow> j = rf_root \<or> j \<in> set (rf_tokens s) \<or> j \<in> set (content_entries c) \<or>
    (\<exists>k c'. k \<noteq> i \<and> node s k = Some c' \<and> j \<in> set (content_entries c'))"
  unfolding refs_iff [OF assms(1)] using assms(2) by (metis option.inject)

lemma refs_set_node_sub:
  "rf_pre s \<Longrightarrow> j \<in> set (refs (set_node i c s)) \<Longrightarrow> j \<in> set (refs s) \<or> j \<in> set (content_entries c)"
  using refs_set_node [OF rf_preD(1)] refs_iff [OF rf_preD(1)] by blast

text \<open>Giving a directory other entries, all of which live.\<close>

lemma set_dir_pre:
  assumes pre: "rf_pre s" and "node s i = Some (RfDir d)" "names_distinct d'"
    and live: "\<And>j. j \<in> snd ` set d' \<Longrightarrow> \<exists>c. node s j = Some c"
  shows "rf_pre (set_node i (RfDir d') s)"
proof -
  let ?s = "set_node i (RfDir d') s"
  have "\<exists>c. node ?s j = Some c" if "j \<in> set (refs ?s)" for j
    using refs_set_node_sub [OF pre that] rf_preD(4) [OF pre] live by (fastforce simp: content_entries_def)
  then show ?thesis
    using rf_preD(1,2,3,5,6,7) [OF pre] assms(2,3)
    by (intro rf_preI) (auto simp: content_ok_def split: if_splits)
qed

lemma get_entity_spec:
  assumes "rf_pre s" "get_entity i s = (c, s')"
  shows "c = node s i" "node s' = node s" "rf_tokens s' = rf_tokens s" "refs s' = refs s" "rf_next s' = rf_next s"
    "set (rf_inodes s') \<subseteq> set (rf_inodes s)" "rf_pre s'" "rf_ok s \<Longrightarrow> rf_ok s'"
proof -
  show "c = node s i" using assms rf_preD(5) [OF assms(1), of i] by (cases "node s i") (auto simp: get_entity_def split: if_splits)
  have nodes: "rf_nodes s' = rf_nodes s" and toks: "rf_tokens s' = rf_tokens s" and "rf_next s' = rf_next s"
    using assms(2) by (auto simp: get_entity_def split: if_splits option.splits)
  then show "node s' = node s" "rf_tokens s' = rf_tokens s" "refs s' = refs s" "rf_next s' = rf_next s" by (simp_all add: refs_def)
  show "set (rf_inodes s') \<subseteq> set (rf_inodes s)"
    using assms(2) by (auto simp: get_entity_def remove_key_def split: if_splits option.splits)
  have "node s j = Some c' \<Longrightarrow> j \<in> set (rf_inodes s')" for j c'
    using assms(2) rf_preD(5) [OF assms(1)] by (auto simp: get_entity_def remove_key_def split: if_splits option.splits)
  moreover have "distinct (rf_inodes s')"
    using assms(2) rf_preD(2) [OF assms(1)] by (auto simp: get_entity_def remove_key_def split: if_splits option.splits)
  ultimately show pre: "rf_pre s'"
    using rf_preD [OF assms(1)] \<open>refs s' = refs s\<close> \<open>rf_next s' = rf_next s\<close> \<open>set (rf_inodes s') \<subseteq> set (rf_inodes s)\<close> nodes
    by (intro rf_preI) auto
  show "rf_ok s \<Longrightarrow> rf_ok s'" using pre nodes \<open>refs s' = refs s\<close> by (simp add: rf_ok_iff)
qed

lemma unat_root: "unat (word_of_nat rf_root :: u64) = rf_root"
  by (simp add: rf_root_def)

lemma new_ok: "rf_ok rf_new"
  by (auto simp: unat_root rf_ok_iff rf_new_def refs_def content_entries_def content_ok_def names_distinct_def intro!: rf_preI split: if_splits)

lemma refs_tokens:
  assumes "rf_pre s"
  shows "j \<in> set (refs (s\<lparr>rf_tokens := ts\<rparr>)) \<longleftrightarrow>
    j = rf_root \<or> j \<in> set ts \<or> (\<exists>k c. node s k = Some c \<and> j \<in> set (content_entries c))"
  using refs_iff [of "s\<lparr>rf_tokens := ts\<rparr>" j] rf_preD(1) [OF assms] by simp

lemma tokens_pre:
  assumes pre: "rf_pre s" and live: "\<And>j. j \<in> set ts \<Longrightarrow> \<exists>c. node s j = Some c"
  shows "rf_pre (s\<lparr>rf_tokens := ts\<rparr>)"
proof -
  have "\<exists>c. node s j = Some c" if "j \<in> set (refs (s\<lparr>rf_tokens := ts\<rparr>))" for j
    using that live rf_preD(4) [OF pre] unfolding refs_tokens [OF pre] refs_iff [OF rf_preD(1) [OF pre]] by blast
  then show ?thesis using rf_preD(1,2,3,5,6,7) [OF pre] by (intro rf_preI) auto
qed

lemma open_ok: "rf_ok s \<Longrightarrow> rf_open i s = (r, s') \<Longrightarrow> rf_ok s'"
proof -
  assume ok: "rf_ok s" and o: "rf_open i s = (r, s')"
  obtain c s1 where e: "get_entity i s = (c, s1)" by fastforce
  have pre: "rf_pre s" using ok by (simp add: rf_ok_iff)
  note g = get_entity_spec [OF pre e]
  show ?thesis
  proof (cases c)
    case None
    with o e g(8) [OF ok] show ?thesis by (simp add: rf_open_def)
  next
    case (Some x)
    with o e have s': "s' = s1\<lparr>rf_tokens := i # rf_tokens s1\<rparr>" by (simp add: rf_open_def)
    have ok1: "rf_ok s1" using g(8) [OF ok] .
    have i: "node s1 i = Some x" using g(1,2) Some by simp
    have "rf_pre s'" unfolding s' by (rule tokens_pre [OF g(7)])
        (use i rf_preD(4) [OF g(7)] refs_iff [OF rf_preD(1) [OF g(7)]] in auto)
    moreover have "j \<in> set (refs s')" if "node s' j = Some y" for j y
      using that ok1 unfolding s' refs_tokens [OF g(7)] by (auto simp: rf_ok_iff refs_iff [OF rf_preD(1) [OF g(7)]])
    ultimately show ?thesis by (simp add: rf_ok_iff)
  qed
qed

lemma close_ok: "rf_ok s \<Longrightarrow> rf_ok (rf_close i s)"
proof -
  assume "rf_ok s"
  then have pre: "rf_pre s" by (simp add: rf_ok_iff)
  have "rf_pre (s\<lparr>rf_tokens := remove1 i (rf_tokens s)\<rparr>)"
    by (rule tokens_pre [OF pre]) (use rf_preD(4) [OF pre] refs_iff [OF rf_preD(1) [OF pre]] set_remove1_subset [of i "rf_tokens s"] in blast)
  from reap_ok [OF this] show ?thesis by (simp add: rf_close_def)
qed

lemma set_file_ok:
  assumes "rf_ok s" "node s i = Some (RfFile f)" "file_ok f'"
  shows "rf_ok (set_node i (RfFile f') s)"
proof -
  have pre: "rf_pre s" using assms(1) by (simp add: rf_ok_iff)
  have refs: "j \<in> set (refs (set_node i (RfFile f') s)) \<longleftrightarrow> j \<in> set (refs s)" for j
    unfolding refs_set_node [OF rf_preD(1) [OF pre]] refs_iff [OF rf_preD(1) [OF pre]]
  proof -
    have "content_entries (RfFile f') = []" "node s i = Some c' \<Longrightarrow> content_entries c' = []" for c'
      using assms(2) by (auto simp: content_entries_def)
    then show "(j = rf_root \<or> j \<in> set (rf_tokens s) \<or> j \<in> set (content_entries (RfFile f')) \<or>
        (\<exists>k c'. k \<noteq> i \<and> node s k = Some c' \<and> j \<in> set (content_entries c'))) \<longleftrightarrow>
      (j = rf_root \<or> j \<in> set (rf_tokens s) \<or> (\<exists>k c. node s k = Some c \<and> j \<in> set (content_entries c)))"
      by (metis empty_iff empty_set)
  qed
  have "i \<noteq> rf_root" using rf_preD(3) [OF pre] assms(2) by auto
  then have "rf_pre (set_node i (RfFile f') s)"
    using rf_preD [OF pre] assms(2,3) refs by (intro rf_preI) (auto simp: content_ok_def split: if_splits)
  moreover have "j \<in> set (refs s)" if "node (set_node i (RfFile f') s) j = Some c" for j c
    using that assms(1,2) by (auto simp: rf_ok_iff split: if_splits)
  ultimately show ?thesis using refs by (simp add: rf_ok_iff)
qed


text \<open>The new node has a number that was never used, and its directory refers to it.\<close>

lemma make_node_Ok:
  assumes ok: "rf_ok s" and m: "make_node dir name b s = (Ok i, s')"
  obtains d where "node s dir = Some (RfDir d)" "map_of d name = None" "node s i = None" "i = Suc (unat (rf_next s))"
    "node s' = (node s)(i \<mapsto> (if b then RfDir [] else RfFile rf_file_new), dir \<mapsto> RfDir (d @ [(name, i)]))"
    "rf_inodes s' = i # rf_inodes s" "unat (rf_next s') = i" "rf_tokens s' = rf_tokens s" "rf_ok s'"
proof -
  have pre: "rf_pre s" using ok by (simp add: rf_ok_iff)
  obtain c s1 where e: "get_entity dir s = (c, s1)" by fastforce
  note g = get_entity_spec [OF pre e]
  from m e obtain d where c: "c = Some (RfDir d)" by (auto simp: make_node_def as_directory_def split: option.splits rf_content.splits)
  with e have s1: "s1 = s" "node s dir = Some (RfDir d)" using g(1) by (auto simp: get_entity_def split: if_splits option.splits)
  let ?c = "if b then RfDir [] else RfFile rf_file_new"
  let ?s = "s\<lparr>rf_next := rf_next s + 1, rf_inodes := i # rf_inodes s\<rparr>"
  from m e c s1 have w: "i = unat (1 + rf_next s)" "1 + rf_next s \<noteq> 0" "map_of d name = None"
    and s': "s' = set_node dir (RfDir (d @ [(name, i)])) (set_node i ?c ?s)"
    by (auto simp: make_node_def as_directory_def next_inode_def dir_find_map_of Let_def split: if_splits option.splits)
  then have i: "i = Suc (unat (rf_next s))" "map_of d name = None" by (simp_all add: unatSuc)
  have nxt: "unat (rf_next s + 1) = i" using w(1) by (simp add: add.commute)
  have fresh: "i \<notin> set (rf_inodes s)" "node s i = None" "dir \<noteq> i"
    using rf_preD(5,6) [OF pre] i s1(2) by (fastforce, (cases "node s i", auto, fastforce), fastforce)
  have n: "node s' = (node s)(i \<mapsto> ?c, dir \<mapsto> RfDir (d @ [(name, i)]))" by (simp add: s' fun_eq_iff)
  have dist: "distinct (map fst (rf_nodes (set_node i ?c ?s)))" using rf_preD(1) [OF pre] by (intro set_node_simps(5)) simp
  have "content_entries ?c = []" by (simp add: content_entries_def)
  then have refs: "j \<in> set (refs s') \<longleftrightarrow> j \<in> set (refs s) \<or> j = i" for j
  proof -
    have "(\<exists>k c'. k \<noteq> dir \<and> node (set_node i ?c ?s) k = Some c' \<and> j \<in> set (content_entries c')) \<longleftrightarrow>
        (\<exists>k c'. k \<noteq> dir \<and> node s k = Some c' \<and> j \<in> set (content_entries c'))"
      using fresh(2) \<open>content_entries ?c = []\<close> by (auto simp del: map_of_eq_Some_iff split: if_splits) (metis option.distinct(1))+
    then show ?thesis unfolding s' refs_set_node [OF dist] refs_split [OF rf_preD(1) [OF pre] s1(2)]
      by (auto simp: content_entries_def)
  qed
  have "rf_pre s'"
  proof (rule rf_preI)
    show "distinct (map fst (rf_nodes s'))" unfolding s' by (rule set_node_simps(5) [OF dist])
    show "content_ok c" if "node s' j = Some c" for j c
      using that rf_preD(7) [OF pre, of j] rf_preD(7) [OF pre s1(2)] i(2) unfolding n
      by (auto simp: content_ok_def file_new_ok names_distinct_def map_of_eq_None_iff split: if_splits)
    show "rf_root \<le> j \<and> j \<le> unat (rf_next s')" if "j \<in> set (rf_inodes s')" for j
    proof -
      from rf_preD(3) [OF pre] obtain d0 where "node s rf_root = Some (RfDir d0)" by blast
      from rf_preD(6) [OF pre rf_preD(5) [OF pre this]] rf_preD(6) [OF pre, of j] that i(1) nxt show ?thesis by (auto simp: s')
    qed
  qed (use rf_preD(2-5) [OF pre] fresh i(1) s1(2) refs in \<open>auto simp: n s' split: if_splits\<close>)
  moreover have "j \<in> set (refs s')" if "node s' j = Some c" for j c
    using that ok s1(2) unfolding refs n by (auto simp: rf_ok_iff split: if_splits)
  ultimately have "rf_ok s'" by (simp add: rf_ok_iff)
  with that [OF s1(2) i(2) fresh(2) i(1) n] show ?thesis using nxt by (simp add: s')
qed

lemma make_node_ok: "rf_ok s \<Longrightarrow> make_node dir name b s = (r, s') \<Longrightarrow> no_ub r \<Longrightarrow> rf_ok s'"
proof (cases r)
  case (Ok i)
  then show "rf_ok s \<Longrightarrow> make_node dir name b s = (r, s') \<Longrightarrow> no_ub r \<Longrightarrow> rf_ok s'" by (auto elim: make_node_Ok)
qed (use get_entity_spec(8) [of s dir] in
  \<open>auto simp: make_node_def next_inode_def rf_ok_iff Let_def split: prod.splits outcome.splits option.splits if_splits\<close>)


text \<open>An entity that may be removed has no entries, and is none of the locked directories.\<close>

lemma confirm_Ok:
  assumes "confirm_to_remove locked d name s = Ok ()"
  obtains i where "map_of d name = Some i" "\<forall>c. node s i = Some c \<longrightarrow> content_entries c = []"
    "\<forall>d'. node s i = Some (RfDir d') \<longrightarrow> i \<notin> set locked"
proof -
  from assms obtain i where "map_of d name = Some i" by (auto simp: confirm_to_remove_def dir_find_map_of split: option.splits)
  with that [of i] assms show ?thesis
    by (auto simp: confirm_to_remove_def dir_find_map_of content_entries_def split: option.splits rf_content.splits if_splits)
qed

lemma entry_live:
  "rf_pre s \<Longrightarrow> node s dir = Some (RfDir d) \<Longrightarrow> j \<in> snd ` set d \<Longrightarrow> \<exists>c. node s j = Some c"
proof -
  assume pre: "rf_pre s" and d: "node s dir = Some (RfDir d)" and j: "j \<in> snd ` set d"
  from j have "j \<in> set (content_entries (RfDir d))" by (simp add: content_entries_def)
  with d have "j \<in> set (refs s)" unfolding refs_iff [OF rf_preD(1) [OF pre]] by blast
  then show ?thesis by (rule rf_preD(4) [OF pre])
qed

lemma dir_names: "rf_pre s \<Longrightarrow> node s dir = Some (RfDir d) \<Longrightarrow> names_distinct d"
  using rf_preD(7) [of s dir "RfDir d"] by (simp add: content_ok_def)

lemma unlink_Ok:
  assumes ok: "rf_ok s" and u: "rf_unlink dir name s = (Ok (), s')"
  obtains d inode where "node s dir = Some (RfDir d)" "map_of d name = Some inode" "confirm_to_remove [dir] d name s = Ok ()"
    "s' = snd (get_entity inode (reap (set_node dir (RfDir (dir_del d name)) s)))" "rf_pre (set_node dir (RfDir (dir_del d name)) s)"
proof -
  have pre: "rf_pre s" using ok by (simp add: rf_ok_iff)
  obtain c s1 where e: "get_entity dir s = (c, s1)" by fastforce
  note g = get_entity_spec [OF pre e]
  from u e obtain d where c: "c = Some (RfDir d)"
    by (auto simp: rf_unlink_def as_directory_def split: option.splits rf_content.splits)
  with e have s1: "s1 = s" "node s dir = Some (RfDir d)" using g(1) by (auto simp: get_entity_def split: if_splits option.splits)
  from u e c s1 obtain inode where i: "map_of d name = Some inode" "confirm_to_remove [dir] d name s = Ok ()"
    "s' = snd (get_entity inode (reap (set_node dir (RfDir (dir_del d name)) s)))"
    by (auto simp: rf_unlink_def as_directory_def dir_find_map_of dir_remove_iff ok_or_def outcome_iff split: option.splits outcome.splits)
  have dd: "names_distinct d" using rf_preD(7) [OF pre s1(2)] by (simp add: content_ok_def)
  have "rf_pre (set_node dir (RfDir (dir_del d name)) s)"
  proof (rule set_dir_pre [OF pre s1(2) dir_del_names [OF dd]])
    fix j
    assume "j \<in> snd ` set (dir_del d name)"
    then have "j \<in> snd ` set d" using dir_del_subset by fastforce
    then show "\<exists>c. node s j = Some c" by (rule entry_live [OF pre s1(2)])
  qed
  from that [OF s1(2) i this] show ?thesis .
qed

lemma unlink_ok: "rf_ok s \<Longrightarrow> rf_unlink dir name s = (r, s') \<Longrightarrow> rf_ok s'"
proof (cases r)
  case (Ok u)
  assume "rf_ok s" "rf_unlink dir name s = (r, s')"
  with Ok obtain d inode where u: "s' = snd (get_entity inode (reap (set_node dir (RfDir (dir_del d name)) s)))"
    "rf_pre (set_node dir (RfDir (dir_del d name)) s)" by (auto elim: unlink_Ok)
  from reap_ok [OF u(2)] have "rf_ok (reap (set_node dir (RfDir (dir_del d name)) s))" by blast
  then show "rf_ok s'" unfolding u(1) by (intro get_entity_spec(8) [OF _ prod.collapse [symmetric]]) (simp_all add: rf_ok_iff)
qed (use get_entity_spec(8) [of s dir] in \<open>auto simp: rf_unlink_def rf_ok_iff split: prod.splits outcome.splits\<close>)


text \<open>
  A successful rename: either the two names are the same entity and nothing happens, or the directories are
  changed as the maps say.
\<close>

lemma rename_Ok:
  assumes ok: "rf_ok s" and r: "rf_rename old_dir old_name new_dir new_name replace s = (Ok (), s')"
  obtains d1 d2 i where "node s old_dir = Some (RfDir d1)" "node s new_dir = Some (RfDir d2)" "map_of d1 old_name = Some i"
    "rename_target (if new_dir = old_dir then [old_dir] else [old_dir, new_dir]) d2 new_name replace s = Ok (Some i)" "s' = reap s"
  | d1 i j d' where "node s old_dir = Some (RfDir d1)" "new_dir = old_dir" "map_of d1 old_name = Some i"
    "rename_target [old_dir] d1 new_name replace s = Ok j" "j \<noteq> Some i"
    "force_rename d1 old_name new_name = Ok d'" "s' = reap (set_node old_dir (RfDir d') s)"
  | d1 d2 i j where "node s old_dir = Some (RfDir d1)" "node s new_dir = Some (RfDir d2)" "new_dir \<noteq> old_dir" "map_of d1 old_name = Some i"
    "rename_target [old_dir, new_dir] d2 new_name replace s = Ok j" "j \<noteq> Some i"
    "s' = reap (set_node new_dir (RfDir (append_or_replace d2 new_name i)) (set_node old_dir (RfDir (dir_del d1 old_name)) s))"
proof -
  have pre: "rf_pre s" using ok by (simp add: rf_ok_iff)
  have get: "get_entity k s = (Some c, s1) \<Longrightarrow> s1 = s \<and> node s k = Some c" for k c s1
    by (auto simp: get_entity_def split: if_splits option.splits)
  obtain c1 s1 where e1: "get_entity old_dir s = (c1, s1)" by fastforce
  with r obtain d1 where c1: "c1 = Some (RfDir d1)"
    by (auto simp: rf_rename_def as_directory_def split: option.splits rf_content.splits)
  with e1 get have s1: "s1 = s" "node s old_dir = Some (RfDir d1)" by auto
  show ?thesis
  proof (cases "new_dir = old_dir")
    case True
    with r e1 c1 s1 obtain ds where ds: "rename_same old_dir old_name new_name replace d1 s = Ok ds"
      "s' = reap (fold (\<lambda>(i, d). set_node i (RfDir d)) ds s)"
      by (auto simp: rf_rename_def as_directory_def split: outcome.splits)
    then obtain i j where ij: "map_of d1 old_name = Some i" "rename_target [old_dir] d1 new_name replace s = Ok j"
      "(if j = Some i then Ok [] else case force_rename d1 old_name new_name of Ok d' \<Rightarrow> Ok [(old_dir, d')] | _ \<Rightarrow> Panic) = (Ok ds :: (nat \<times> rf_dir) list fs_result)"
      by (auto simp: rename_same_def outcome_iff dir_find_map_of)
    show ?thesis
    proof (cases "j = Some i")
      case True
      with ij ds that(1) [OF s1(2)] s1(2) \<open>new_dir = old_dir\<close> show ?thesis by auto
    next
      case False
      with ij ds that(2) [OF s1(2) True] show ?thesis by (auto split: outcome.splits)
    qed
  next
    case False
    obtain c2 s2 where e2: "get_entity new_dir s = (c2, s2)" by fastforce
    with False r e1 c1 s1 obtain ds where ds: "rename_other old_dir old_name new_dir new_name replace d1 (as_directory c2) s2 = Ok ds"
      "s' = reap (fold (\<lambda>(i, d). set_node i (RfDir d)) ds s2)"
      by (auto simp: rf_rename_def as_directory_def split: outcome.splits if_splits)
    then obtain d2 where c2: "c2 = Some (RfDir d2)"
      by (auto simp: rename_other_def outcome_iff as_directory_def split: option.splits rf_content.splits)
    with e2 get have s2: "s2 = s" "node s new_dir = Some (RfDir d2)" by auto
    with ds c2 obtain i j where ij: "map_of d1 old_name = Some i" "rename_target [old_dir, new_dir] d2 new_name replace s = Ok j"
      "(if j = Some i then Ok [] else Ok [(old_dir, dir_del d1 old_name), (new_dir, append_or_replace d2 new_name i)]) = (Ok ds :: (nat \<times> rf_dir) list fs_result)"
      by (auto simp: rename_other_def outcome_iff dir_find_map_of as_directory_def dir_remove_iff split: if_splits)
    show ?thesis
    proof (cases "j = Some i")
      case True
      with ij ds that(1) [OF s1(2) s2(2)] s2(1) False show ?thesis by auto
    next
      case j: False
      with ij ds that(3) [OF s1(2) s2(2) False] s2(1) show ?thesis by auto
    qed
  qed
qed


lemma rename_target_Ok:
  assumes "rename_target locked d n replace s = Ok j"
  shows "j = map_of d n \<and> (j \<noteq> None \<longrightarrow> confirm_to_remove locked d n s = Ok ())"
  using assms by (auto simp: rename_target_def dir_find_map_of split: if_splits outcome.splits)
    (auto simp: confirm_to_remove_def dir_find_map_of split: option.splits rf_content.splits if_splits)

lemma entries_ran: "names_distinct d \<Longrightarrow> snd ` set d = ran (map_of d)"
  by (auto simp: ran_def names_distinct_def map_of_eq_Some_iff image_iff) force

lemma refs_dir:
  assumes "rf_pre s" "node s dir = Some (RfDir d)"
  shows "k \<in> set (refs s) \<longleftrightarrow> k = rf_root \<or> k \<in> set (rf_tokens s) \<or> k \<in> ran (map_of d) \<or>
    (\<exists>i c. i \<noteq> dir \<and> node s i = Some c \<and> k \<in> set (content_entries c))"
  using refs_split [OF rf_preD(1) [OF assms(1)] assms(2)] entries_ran [OF dir_names [OF assms]]
  by (auto simp: content_entries_def)

text \<open>Replacing the entries of a directory: the references that go are those of the entries that go.\<close>

lemma refs_set_dir:
  assumes "rf_pre s" "node s dir = Some (RfDir d)" "names_distinct d'" "k \<in> set (refs s)" "k \<in> ran (map_of d) \<Longrightarrow> k \<in> ran (map_of d')"
  shows "k \<in> set (refs (set_node dir (RfDir d') s))"
  using assms(4,5) unfolding refs_dir [OF assms(1,2)] refs_set_node [OF rf_preD(1) [OF assms(1)]]
  by (auto simp: content_entries_def entries_ran [OF assms(3), symmetric])

lemma set_dir_map_pre:
  assumes "rf_pre s" "node s dir = Some (RfDir d)" "names_distinct d'" "\<And>k. k \<in> ran (map_of d') \<Longrightarrow> k \<in> ran (map_of d) \<or> (\<exists>c. node s k = Some c)"
  shows "rf_pre (set_node dir (RfDir d') s)"
proof (rule set_dir_pre [OF assms(1-3)])
  show "\<exists>c. node s k = Some c" if "k \<in> snd ` set d'" for k
    using that assms(4) [of k] entry_live [OF assms(1,2), of k] unfolding entries_ran [OF assms(3)] entries_ran [OF dir_names [OF assms(1,2)]] by blast
qed

text \<open>The end of an operation at which at most \<open>t\<close> has lost its last reference.\<close>

lemma reap_but:
  assumes "rf_pre s" "\<And>k c. node s k = Some c \<Longrightarrow> k \<notin> set (refs s) \<Longrightarrow> content_entries c = [] \<and> t = Some k"
  shows "rf_ok (reap s)" "Some k \<noteq> t \<Longrightarrow> node (reap s) k = node s k"
proof -
  show "rf_ok (reap s)" using reap_ok [OF assms(1)] by blast
  have "node (reap s) k = (if k \<in> set (refs s) then node s k else None)"
    using assms(2) by (intro reap_flat [OF assms(1)]) blast
  then show "Some k \<noteq> t \<Longrightarrow> node (reap s) k = node s k" using assms(2) [of k] by (cases "node s k") auto
qed

lemma ran_move:
  assumes "m old = Some i" "m new = j" "old \<noteq> new"
  shows "k \<in> ran m \<Longrightarrow> Some k \<noteq> j \<Longrightarrow> k \<in> ran (m(old := None, new := Some i))"
    and "k \<in> ran (m(old := None, new := Some i)) \<Longrightarrow> k \<in> ran m"
proof -
  assume "k \<in> ran m" "Some k \<noteq> j"
  then obtain n where n: "m n = Some k" by (auto simp: ran_def)
  with \<open>Some k \<noteq> j\<close> assms(2) have "n \<noteq> new" by auto
  with n have "m n = Some k" "n \<noteq> new" by auto
  then have "(m(old := None, new := Some i)) (if n = old then new else n) = Some k" using assms by auto
  then show "k \<in> ran (m(old := None, new := Some i))" by (rule ranI)
next
  assume "k \<in> ran (m(old := None, new := Some i))"
  then obtain n where n: "(m(old := None, new := Some i)) n = Some k" by (auto simp: ran_def)
  then have "m (if n = new then old else n) = Some k" using assms by (auto split: if_splits)
  then show "k \<in> ran m" by (rule ranI)
qed

text \<open>What a directory says of a name.\<close>

definition look :: "ramfs \<Rightarrow> nat \<Rightarrow> string \<Rightarrow> nat option" where
  "look s dir n = (case node s dir of Some (RfDir d) \<Rightarrow> map_of d n | _ \<Rightarrow> None)"

lemma rename_same_spec:
  assumes ok: "rf_ok s" and d1: "node s dir = Some (RfDir d1)" "map_of d1 old_name = Some i"
    and t: "rename_target [dir] d1 new_name replace s = Ok j" "j \<noteq> Some i"
    and f: "force_rename d1 old_name new_name = Ok d'"
  defines "s' \<equiv> reap (set_node dir (RfDir d') s)"
  shows "rf_ok s' \<and> map_of d' = (map_of d1)(old_name := None, new_name := Some i) \<and> node s' dir = Some (RfDir d') \<and>
    (\<forall>k. k \<noteq> dir \<longrightarrow> Some k \<noteq> j \<longrightarrow> node s' k = node s k)"
proof -
  have pre: "rf_pre s" using ok by (simp add: rf_ok_iff)
  note tt = rename_target_Ok [OF t(1)]
  have "old_name \<noteq> new_name" using tt t(2) d1(2) by auto
  from force_rename_map [OF dir_names [OF pre d1(1)] d1(2) this] f
  have d': "names_distinct d'" "map_of d' = (map_of d1)(old_name := None, new_name := Some i)" by auto
  have ran: "k \<in> ran (map_of d1) \<Longrightarrow> Some k \<noteq> j \<Longrightarrow> k \<in> ran (map_of d')" "k \<in> ran (map_of d') \<Longrightarrow> k \<in> ran (map_of d1)" for k
    unfolding d'(2) using ran_move [of "map_of d1", OF d1(2) _ \<open>old_name \<noteq> new_name\<close>, of j k] tt by auto
  have pre': "rf_pre (set_node dir (RfDir d') s)" using set_dir_map_pre [OF pre d1(1) d'(1)] ran(2) by blast
  have "content_entries c = [] \<and> j = Some k"
    if k: "node (set_node dir (RfDir d') s) k = Some c" "k \<notin> set (refs (set_node dir (RfDir d') s))" for k c
  proof -
    have "\<exists>c. node s k = Some c" using k(1) d1(1) by (auto split: if_splits)
    then have "k \<in> set (refs s)" using ok by (auto simp: rf_ok_iff)
    then have j: "j = Some k" using refs_set_dir [OF pre d1(1) d'(1)] ran(1) k(2) by blast
    with tt obtain "\<forall>c. node s k = Some c \<longrightarrow> content_entries c = []" "\<forall>d. node s k = Some (RfDir d) \<longrightarrow> k \<noteq> dir"
      by (auto elim!: confirm_Ok)
    with k(1) j d1(1) show ?thesis by (auto split: if_splits)
  qed
  note r = reap_but [OF pre' this]
  have "Some dir \<noteq> j" using tt d1(1) by (auto elim!: confirm_Ok)
  with r d'(2) show ?thesis unfolding s'_def by simp
qed


lemma rename_other_spec:
  assumes ok: "rf_ok s" and d1: "node s old_dir = Some (RfDir d1)" "map_of d1 old_name = Some i"
    and d2: "node s new_dir = Some (RfDir d2)" "new_dir \<noteq> old_dir"
    and t: "rename_target [old_dir, new_dir] d2 new_name replace s = Ok j" "j \<noteq> Some i"
  defines "e1 \<equiv> dir_del d1 old_name" and "e2 \<equiv> append_or_replace d2 new_name i"
  defines "s' \<equiv> reap (set_node new_dir (RfDir e2) (set_node old_dir (RfDir e1) s))"
  shows "rf_ok s' \<and> node s' old_dir = Some (RfDir e1) \<and> node s' new_dir = Some (RfDir e2) \<and>
    (\<forall>k. k \<noteq> old_dir \<longrightarrow> k \<noteq> new_dir \<longrightarrow> Some k \<noteq> j \<longrightarrow> node s' k = node s k)"
proof -
  let ?s1 = "set_node old_dir (RfDir e1) s" and ?s2 = "set_node new_dir (RfDir e2) (set_node old_dir (RfDir e1) s)"
  have pre: "rf_pre s" using ok by (simp add: rf_ok_iff)
  note tt = rename_target_Ok [OF t(1)] and n1 = dir_names [OF pre d1(1)] and n2 = dir_names [OF pre d2(1)]
  have e: "names_distinct e1" "map_of e1 = (map_of d1)(old_name := None)" "names_distinct e2" "map_of e2 = (map_of d2)(new_name := Some i)"
    using dir_del_names [OF n1] dir_del_map [OF n1] append_or_replace_names [OF n2] append_or_replace_map [OF n2] by (simp_all add: e1_def e2_def)
  have pre1: "rf_pre ?s1" by (rule set_dir_map_pre [OF pre d1(1) e(1)]) (auto simp: e(2) ran_def split: if_splits)
  have d2': "node ?s1 new_dir = Some (RfDir d2)" using d2 by simp
  obtain ci where ci: "node s i = Some ci" using entry_live [OF pre d1(1)] d1(2) by (metis entries_ran n1 ranI)
  have pre2: "rf_pre ?s2"
  proof (rule set_dir_map_pre [OF pre1 d2' e(3)])
    show "k \<in> ran (map_of d2) \<or> (\<exists>c. node ?s1 k = Some c)" if "k \<in> ran (map_of e2)" for k
      using that ci by (auto simp: e(4) ran_def split: if_splits)
  qed
  have refs: "k \<in> set (refs ?s2)" if "k \<in> set (refs s)" "Some k \<noteq> j" for k
  proof (cases "k = i")
    case True
    have "i \<in> ran (map_of e2)" unfolding e(4) by (auto simp: ran_def)
    then show ?thesis using True refs_set_node [OF rf_preD(1) [OF pre1], of k new_dir "RfDir e2"] entries_ran [OF e(3)]
      by (simp add: content_entries_def)
  next
    case False
    have "k \<in> ran (map_of d1) \<Longrightarrow> k \<in> ran (map_of e1)" unfolding e(2) using False d1(2)
      by (auto simp: ran_def split: if_splits) (metis option.inject)
    then have "k \<in> set (refs ?s1)" by (rule refs_set_dir [OF pre d1(1) e(1) that(1)])
    moreover have "k \<in> ran (map_of d2) \<Longrightarrow> k \<in> ran (map_of e2)" unfolding e(4) using tt that(2)
      by (auto simp: ran_def split: if_splits) metis
    ultimately show ?thesis by (rule refs_set_dir [OF pre1 d2' e(3)])
  qed
  have locked: "Some old_dir \<noteq> j" "Some new_dir \<noteq> j" using tt d1(1) d2(1) by (auto elim!: confirm_Ok)
  have "content_entries c = [] \<and> j = Some k" if k: "node ?s2 k = Some c" "k \<notin> set (refs ?s2)" for k c
  proof -
    have "\<exists>c. node s k = Some c" using k(1) d1(1) d2(1) by (auto split: if_splits)
    then have "k \<in> set (refs s)" using ok by (auto simp: rf_ok_iff)
    then have j: "j = Some k" using refs k(2) by blast
    with tt have "\<forall>c. node s k = Some c \<longrightarrow> content_entries c = []" by (auto elim!: confirm_Ok)
    with k(1) j locked show ?thesis by (auto split: if_splits)
  qed
  note r = reap_but [OF pre2 this]
  show ?thesis using r locked d2(2) unfolding s'_def by auto
qed

lemma rename_fails:
  assumes "get_entity old_dir s = (c1, s1)" "get_entity new_dir s1 = (c2, s2)"
    "rf_rename old_dir old_name new_dir new_name replace s = (r, s')" "r \<noteq> Ok ()"
  shows "s' = s1 \<or> s' = s2"
  using assms by (auto simp: rf_rename_def split: outcome.splits if_splits)

lemma rename_ok:
  assumes ok: "rf_ok s" and r: "rf_rename old_dir old_name new_dir new_name replace s = (r, s')"
  shows "rf_ok s'"
proof (cases "r = Ok ()")
  case True
  with r have "rf_rename old_dir old_name new_dir new_name replace s = (Ok (), s')" by simp
  from ok this show ?thesis
  proof (cases rule: rename_Ok)
    case (1 d1 d2 i)
    with ok reap_ok [of s] show ?thesis by (simp add: rf_ok_iff)
  next
    case (2 d1 i j d')
    from rename_same_spec [OF ok 2(1,3,4,5,6)] 2(7) show ?thesis by simp
  next
    case (3 d1 d2 i j)
    from rename_other_spec [OF ok 3(1,4,2,3,5,6)] 3(7) show ?thesis by simp
  qed
next
  case False
  obtain c1 s1 where e1: "get_entity old_dir s = (c1, s1)" by fastforce
  obtain c2 s2 where e2: "get_entity new_dir s1 = (c2, s2)" by fastforce
  have ok1: "rf_ok s1" using get_entity_spec(8) [OF _ e1] ok by (simp add: rf_ok_iff)
  then have "rf_ok s2" using get_entity_spec(8) [OF _ e2] by (simp add: rf_ok_iff)
  with ok1 rename_fails [OF e1 e2 r False] show ?thesis by auto
qed


lemma node_file_ok: "rf_ok s \<Longrightarrow> node s i = Some (RfFile f) \<Longrightarrow> file_ok f"
  using rf_preD(7) [of s i "RfFile f"] by (simp add: rf_ok_iff content_ok_def)

lemma write_ok: "rf_ok s \<Longrightarrow> rf_ok (snd (rf_write_data mem i offset buf s))"
  using file_write_ok [OF node_file_ok [of s i], of _ mem "offset_usize offset" buf]
  by (auto simp: rf_write_data_def split: option.splits rf_content.splits prod.splits intro!: set_file_ok)

lemma truncate_ok: "rf_ok s \<Longrightarrow> rf_ok (snd (rf_truncate mem i n s))"
  using file_truncate_ok [OF node_file_ok [of s i], of _ mem n]
  by (auto simp: rf_truncate_def split: option.splits rf_content.splits prod.splits intro!: set_file_ok)


section \<open>Runs\<close>

text \<open>
  One call of the driver or of a token that is open, or the drop of a token.  There is no state
  after undefined behaviour: a run ends when the numbers of the entities are used up.
\<close>

inductive rf_step :: "(nat \<Rightarrow> bool) \<Rightarrow> ramfs \<Rightarrow> ramfs \<Rightarrow> bool" for mem where
  step_mkdir: "rf_mkdir dir name s = (r, s') \<Longrightarrow> no_ub r \<Longrightarrow> rf_step mem s s'"
| step_creat: "rf_creat dir name s = (r, s') \<Longrightarrow> no_ub r \<Longrightarrow> rf_step mem s s'"
| step_lookup: "rf_lookup dir name s = (r, s') \<Longrightarrow> rf_step mem s s'"
| step_open: "rf_open i s = (r, s') \<Longrightarrow> rf_step mem s s'"
| step_stat: "rf_stat i s = (r, s') \<Longrightarrow> rf_step mem s s'"
| step_read_dir: "rf_read_dir dir k s = (r, s') \<Longrightarrow> rf_step mem s s'"
| step_unlink: "rf_unlink dir name s = (r, s') \<Longrightarrow> rf_step mem s s'"
| step_rename: "rf_rename d1 n1 d2 n2 b s = (r, s') \<Longrightarrow> rf_step mem s s'"
| step_write: "i \<in> set (rf_tokens s) \<Longrightarrow> rf_write_data mem i offset buf s = (r, s') \<Longrightarrow> rf_step mem s s'"
| step_truncate: "i \<in> set (rf_tokens s) \<Longrightarrow> rf_truncate mem i n s = (r, s') \<Longrightarrow> rf_step mem s s'"
| step_close: "i \<in> set (rf_tokens s) \<Longrightarrow> rf_step mem s (rf_close i s)"

inductive rf_reach :: "(nat \<Rightarrow> bool) \<Rightarrow> ramfs \<Rightarrow> bool" for mem where
  reach_new: "rf_reach mem rf_new"
| reach_step: "rf_reach mem s \<Longrightarrow> rf_step mem s s' \<Longrightarrow> rf_reach mem s'"

lemma get_entity_ok: "rf_ok s \<Longrightarrow> rf_ok (snd (get_entity i s))"
  using get_entity_spec(8) [of s i] by (metis prod.collapse rf_ok_iff)

lemma step_ok: "rf_step mem s s' \<Longrightarrow> rf_ok s \<Longrightarrow> rf_ok s'"
proof (induction rule: rf_step.induct)
  case (step_mkdir dir name s r s')
  then show ?case by (auto simp: rf_mkdir_def intro: make_node_ok split: prod.splits)
next
  case (step_creat dir name s r s')
  then show ?case by (auto simp: rf_creat_def split: prod.splits outcome.splits intro: make_node_ok dest: make_node_ok open_ok)
next
  case (step_lookup dir name s r s')
  then show ?case using get_entity_ok [of s dir] by (auto simp: rf_lookup_def split: prod.splits)
next
  case (step_stat i s r s')
  then show ?case using get_entity_ok [of s i] by (auto simp: rf_stat_def split: prod.splits)
next
  case (step_read_dir dir k s r s')
  then show ?case using get_entity_ok [of s dir]
    by (auto simp: rf_read_dir_def split: prod.splits option.splits rf_content.splits)
next
  case (step_write i s offset buf r s')
  then show ?case using write_ok [of s mem i offset buf] by simp
next
  case (step_truncate i s n r s')
  then show ?case using truncate_ok [of s mem i n] by simp
qed (auto intro: open_ok unlink_ok rename_ok close_ok)

lemma reach_ok: "rf_reach mem s \<Longrightarrow> rf_ok s"
  by (induction rule: rf_reach.induct) (auto intro: new_ok step_ok)



section \<open>The life of a file that is unlinked while it is open\<close>

lemma dir_del_append: "map_of d n = None \<Longrightarrow> dir_del (d @ [(n, i)]) n = d"
proof -
  assume n: "map_of d n = None"
  then have "dir_find_index (d @ [(n, i)]) n = Some (length d)" by (induction d) (auto split: if_splits)
  then show ?thesis by (simp add: dir_del_def dir_remove_def vec_remove_def)
qed

lemma unlink_added:
  assumes ok: "rf_ok s" and d: "node s dir = Some (RfDir (d @ [(name, i)]))" "map_of d name = None"
    and i: "node s i = Some (RfFile f)" "i \<in> set (rf_tokens s)"
  obtains s' where "rf_unlink dir name s = (Ok (), s')" "node s' = (node s)(dir \<mapsto> RfDir d)" "rf_inodes s' = rf_inodes s"
    "rf_tokens s' = rf_tokens s" "rf_ok s'"
proof -
  have pre: "rf_pre s" using ok by (simp add: rf_ok_iff)
  have get: "get_entity dir s = (Some (RfDir (d @ [(name, i)])), s)" using d(1) rf_preD(5) [OF pre] by (simp add: get_entity_def)
  have name: "map_of (d @ [(name, i)]) name = Some i" using d(2) by (simp add: map_add_def)
  let ?u = "set_node dir (RfDir d) s"
  have nd: "names_distinct d" using dir_names [OF pre d(1)] by (simp add: names_distinct_def)
  have preu: "rf_pre ?u" by (rule set_dir_pre [OF pre d(1) nd]) (use entry_live [OF pre d(1)] in auto)
  have "k \<in> set (refs ?u)" if "node ?u k = Some c" for k c
  proof (cases "k = i")
    case True
    then show ?thesis using i(2) by (simp add: refs_def)
  next
    case False
    from that d(1) have "\<exists>c. node s k = Some c" by (auto split: if_splits)
    then have "k \<in> set (refs s)" using ok by (auto simp: rf_ok_iff)
    then show ?thesis using False
      unfolding refs_split [OF rf_preD(1) [OF pre] d(1)] refs_set_node [OF rf_preD(1) [OF pre]] by (auto simp: content_entries_def)
  qed
  then have r: "rf_ok (reap ?u)" "node (reap ?u) k = node ?u k" for k using reap_but(1) [OF preu, of None] reap_but(2) [OF preu, of None k] by blast+
  have "i \<noteq> dir" using d(1) i(1) by auto
  then have "get_entity i (reap ?u) = (Some (RfFile f), reap ?u)"
    using r(2) [of i] i(1) rf_preD(5) [OF pre i(1)] by (simp add: get_entity_def reap_frame)
  moreover have "confirm_to_remove [dir] (d @ [(name, i)]) name s = Ok ()" using name i(1) by (simp add: confirm_to_remove_def dir_find_map_of)
  ultimately have "rf_unlink dir name s = (Ok (), reap ?u)" using get name
    by (simp add: rf_unlink_def as_directory_def dir_find_map_of dir_remove_iff dir_del_append [OF d(2)])
  moreover have "node (reap ?u) = (node s)(dir \<mapsto> RfDir d)" using r(2) by (auto simp: fun_eq_iff)
  ultimately show ?thesis using that r(1) by (simp add: reap_frame)
qed

lemma close_fresh:
  assumes ok: "rf_ok s" and fresh: "node s i = None" and ok2: "rf_ok s2" and n2: "node s2 = (node s)(i \<mapsto> RfFile f)" "rf_tokens s2 = i # rf_tokens s"
  shows "node (rf_close i s2) = node s"
proof -
  let ?v = "s2\<lparr>rf_tokens := rf_tokens s\<rparr>"
  have pre: "rf_pre s" "rf_pre s2" using ok ok2 by (simp_all add: rf_ok_iff)
  have refs: "k \<in> set (refs ?v) \<longleftrightarrow> k \<in> set (refs s)" for k
  proof -
    have "content_entries (RfFile f) = []" by (simp add: content_entries_def)
    then have "(\<exists>j c. node s2 j = Some c \<and> k \<in> set (content_entries c)) \<longleftrightarrow> (\<exists>j c. node s j = Some c \<and> k \<in> set (content_entries c))"
      unfolding n2(1) using fresh by (auto simp del: map_of_eq_Some_iff split: if_splits) (metis option.distinct(1))
    then show ?thesis unfolding refs_tokens [OF pre(2)] refs_iff [OF rf_preD(1) [OF pre(1)]] by simp
  qed
  have prev: "rf_pre ?v" by (rule tokens_pre [OF pre(2)])
      (use rf_preD(4) [OF pre(2)] refs_iff [OF rf_preD(1) [OF pre(2)]] n2(2) in auto)
  have "node (reap ?v) k = (if k \<in> set (refs ?v) then node ?v k else None)" for k
  proof (rule reap_flat [OF prev])
    show "content_entries c = []" if "node ?v j = Some c" "j \<notin> set (refs ?v)" for j c
      using that ok unfolding refs by (auto simp: n2(1) rf_ok_iff content_entries_def split: if_splits)
  qed
  moreover have "i \<notin> set (refs s)" using rf_preD(4) [OF pre(1), of i] fresh by auto
  moreover have "node s k = Some c \<Longrightarrow> k \<in> set (refs s)" for k c using ok by (simp add: rf_ok_iff)
  ultimately have "node (reap ?v) k = node s k" for k
    unfolding refs using fresh by (cases "node s k") (auto simp: n2(1) simp del: map_of_eq_Some_iff)
  then show ?thesis by (simp add: rf_close_def n2(2) fun_eq_iff)
qed


section \<open>The properties\<close>

lemmas rf_eval = rf_mkdir_def rf_creat_def rf_open_def make_node_def get_entity_def rf_root_def as_directory_def dir_find_def
  next_inode_def INODE_MAX_def set_node_def Let_def

text \<open>Calls that have a number left for a new entity.\<close>

lemma counter_no_ub: "1 + rf_next s \<noteq> 0 \<Longrightarrow> no_ub (fst (make_node dir name b s))"
  by (auto simp: make_node_def get_entity_def next_inode_def as_directory_def Let_def split: prod.splits option.splits outcome.splits rf_content.splits)

lemma reach_mkdir: "rf_reach mem s \<Longrightarrow> 1 + rf_next s \<noteq> 0 \<Longrightarrow> rf_reach mem (snd (rf_mkdir dir name s))"
  using counter_no_ub [of s dir name True]
  by (auto simp: rf_mkdir_def split: prod.splits intro!: reach_step [OF _ step_mkdir, of mem s dir name])

lemma reach_creat: "rf_reach mem s \<Longrightarrow> 1 + rf_next s \<noteq> 0 \<Longrightarrow> rf_reach mem (snd (rf_creat dir name s))"
proof -
  assume "rf_reach mem s" "1 + rf_next s \<noteq> 0"
  moreover from this(2) have "no_ub (fst (rf_creat dir name s))"
    using counter_no_ub [of s dir name False]
    by (auto simp: rf_creat_def rf_open_def split: prod.splits outcome.splits option.splits)
  ultimately show ?thesis by (metis reach_step step_creat prod.collapse)
qed

text \<open>
  C7: the invariant of the file system.  Whatever calls are made, in whatever order and with whatever
  results, up to the wrap-around of the counter of entities: the root is a directory, every entry of a directory and every open token refers to an
  entity that lives, every entity that lives is referred to, no directory has a name twice, no vector is
  longer than its allocation, the driver finds every living entity by its number, and no living
  entity has a number that the counter has not reached.
\<close>

theorem ramfs_invariant:
  assumes "rf_reach mem s"
  shows "rf_ok s"
  using assms by (rule reach_ok)

theorem ramfs_invariant_witness:
  "rf_ok (snd (rf_rename 2 ''a'' 3 ''b'' True (snd (rf_mkdir 2 ''a'' (snd (rf_creat 2 ''c'' rf_new))))))"
proof -
  have "rf_reach (\<lambda>_. True) (snd (rf_creat 2 ''c'' rf_new))"
    by (rule reach_creat [OF reach_new]) (simp add: rf_new_def rf_root_def)
  moreover have "snd (rf_creat 2 ''c'' rf_new) = \<lparr>rf_nodes = [(2, RfDir [(''c'', 3)]), (3, RfFile rf_file_new)], rf_inodes = [3, 2], rf_next = 3, rf_tokens = [3]\<rparr>"
    by (simp add: rf_eval rf_new_def)
  ultimately have "rf_reach (\<lambda>_. True) (snd (rf_mkdir 2 ''a'' (snd (rf_creat 2 ''c'' rf_new))))"
    by (intro reach_mkdir) simp_all
  then have "rf_reach (\<lambda>_. True) (snd (rf_rename 2 ''a'' 3 ''b'' True (snd (rf_mkdir 2 ''a'' (snd (rf_creat 2 ''c'' rf_new))))))"
    by (rule reach_step [OF _ step_rename [OF prod.collapse [symmetric]]])
  then show ?thesis by (rule ramfs_invariant)
qed

text \<open>
  C32: renaming.  After a rename that succeeds the new name in the new directory is the entity that the
  old name was; the old name is gone, unless both names already were the same entity; and every other
  name in every directory is what it was, except inside a directory that the new name was before and
  that is replaced.
\<close>

theorem ramfs_rename_spec:
  assumes "rf_ok s" "rf_rename old_dir old_name new_dir new_name replace s = (Ok (), s')"
  shows "\<exists>i. look s old_dir old_name = Some i \<and> look s' new_dir new_name = Some i \<and>
    (look s new_dir new_name = Some i \<or> look s' old_dir old_name = None) \<and>
    (\<forall>dir n. Some dir \<noteq> look s new_dir new_name \<longrightarrow> (dir, n) \<noteq> (old_dir, old_name) \<longrightarrow> (dir, n) \<noteq> (new_dir, new_name) \<longrightarrow>
       look s' dir n = look s dir n)"
  using assms
proof (cases rule: rename_Ok)
  case (1 d1 d2 i)
  have "node (reap s) k = node s k" for k
    using reap_but(2) [of s None k] assms(1) by (auto simp: rf_ok_iff)
  then show ?thesis using 1 rename_target_Ok [OF 1(4)] by (intro exI [of _ i]) (auto simp: look_def)
next
  case (2 d1 i j d')
  note r = rename_same_spec [OF assms(1) 2(1,3,4,5,6)] and t = rename_target_Ok [OF 2(4)]
  from t 2(3,5) have "old_name \<noteq> new_name" by auto
  moreover have "look s' dir n = (if dir = old_dir then map_of d' n else look s dir n)" if "Some dir \<noteq> j" for dir n
    using r that by (simp add: look_def 2(7))
  moreover have "Some old_dir \<noteq> j" using t 2(1) by (auto elim!: confirm_Ok)
  ultimately show ?thesis using r t 2(1,2,3) by (auto simp: look_def [of s])
next
  case (3 d1 d2 i j)
  have pre: "rf_pre s" using assms(1) by (simp add: rf_ok_iff)
  note r = rename_other_spec [OF assms(1) 3(1,4,2,3,5,6)] and t = rename_target_Ok [OF 3(5)]
  note m = dir.move [OF dir_names [OF pre 3(1)] dir_names [OF pre 3(2)] 3(4), of new_name]
  have "look s' dir n = (if dir = old_dir then map_of (dir_del d1 old_name) n
      else if dir = new_dir then map_of (append_or_replace d2 new_name i) n else look s dir n)" if "Some dir \<noteq> j" for dir n
    using r that by (simp add: look_def 3(7))
  moreover have "Some old_dir \<noteq> j" "Some new_dir \<noteq> j" using t 3(1,2) by (auto elim!: confirm_Ok)
  ultimately show ?thesis using m t 3(1-4) by (auto simp: look_def [of s])
qed

text \<open>Two directories \<open>d\<close> (3) and \<open>d/d\<close> (4), and a file \<open>f\<close> (5) in the root.\<close>

definition rf_example :: ramfs where
  "rf_example = snd (rf_creat 2 ''f'' (snd (rf_mkdir 3 ''d'' (snd (rf_mkdir 2 ''d'' rf_new)))))"

lemma rf_example_steps:
  "snd (rf_mkdir 2 ''d'' rf_new) = \<lparr>rf_nodes = [(2, RfDir [(''d'', 3)]), (3, RfDir [])], rf_inodes = [3, 2], rf_next = 3, rf_tokens = []\<rparr>"
  "snd (rf_mkdir 3 ''d'' (snd (rf_mkdir 2 ''d'' rf_new))) = \<lparr>rf_nodes = [(2, RfDir [(''d'', 3)]), (3, RfDir [(''d'', 4)]), (4, RfDir [])],
      rf_inodes = [4, 3, 2], rf_next = 4, rf_tokens = []\<rparr>"
proof -
  show 1: "snd (rf_mkdir 2 ''d'' rf_new) = \<lparr>rf_nodes = [(2, RfDir [(''d'', 3)]), (3, RfDir [])], rf_inodes = [3, 2], rf_next = 3, rf_tokens = []\<rparr>"
    by (simp add: rf_eval rf_new_def)
  show "snd (rf_mkdir 3 ''d'' (snd (rf_mkdir 2 ''d'' rf_new))) = \<lparr>rf_nodes = [(2, RfDir [(''d'', 3)]), (3, RfDir [(''d'', 4)]), (4, RfDir [])],
      rf_inodes = [4, 3, 2], rf_next = 4, rf_tokens = []\<rparr>" unfolding 1 by (simp add: rf_eval)
qed

lemma rf_example_eq:
  "rf_example = \<lparr>rf_nodes = [(2, RfDir [(''d'', 3), (''f'', 5)]), (3, RfDir [(''d'', 4)]), (4, RfDir []), (5, RfFile rf_file_new)],
     rf_inodes = [5, 4, 3, 2], rf_next = 5, rf_tokens = [5]\<rparr>"
  unfolding rf_example_def rf_example_steps(2) by (simp add: rf_eval)

lemma rf_example_ok: "rf_ok rf_example"
proof -
  have "rf_reach (\<lambda>_. True) (snd (rf_mkdir 2 ''d'' rf_new))"
    by (rule reach_mkdir [OF reach_new]) (simp add: rf_new_def rf_root_def)
  then have "rf_reach (\<lambda>_. True) (snd (rf_mkdir 3 ''d'' (snd (rf_mkdir 2 ''d'' rf_new))))"
    by (rule reach_mkdir) (simp add: rf_example_steps(1))
  then have "rf_reach (\<lambda>_. True) rf_example"
    unfolding rf_example_def by (rule reach_creat) (simp add: rf_example_steps(2))
  then show ?thesis by (rule reach_ok)
qed

theorem ramfs_rename_spec_witness:
  "fst (rf_rename 2 ''f'' 4 ''g'' True rf_example) = Ok () \<and> look (snd (rf_rename 2 ''f'' 4 ''g'' True rf_example)) 4 ''g'' = Some 5"
proof -
  have r: "fst (rf_rename 2 ''f'' 4 ''g'' True rf_example) = Ok ()" "look rf_example 2 ''f'' = Some 5"
    by (simp_all add: rf_example_eq rf_rename_def rename_other_def rename_target_def confirm_to_remove_def rf_eval dir_remove_def look_def)
  then have "rf_rename 2 ''f'' 4 ''g'' True rf_example = (Ok (), snd (rf_rename 2 ''f'' 4 ''g'' True rf_example))" by (metis prod.collapse)
  from ramfs_rename_spec [OF rf_example_ok this] r show ?thesis by auto
qed

text \<open>
  A rename that waits for itself.  Moving an entry of a directory over the name that this directory has in
  another one (as \<open>mv /d/d /\<close> asks for, because the file manager appends the old name when the
  target is a directory) locks the directory a second time and never returns.
\<close>

theorem ramfs_rename_blocks:
  assumes "rf_ok s" "node s top_dir = Some (RfDir dt)" "map_of dt m = Some d" "node s d = Some (RfDir dd)" "map_of dd n = Some x" "d \<noteq> top_dir"
  shows "fst (rf_rename d n top_dir m True s) = Err Blocks"
proof -
  have pre: "rf_pre s" using assms(1) by (simp add: rf_ok_iff)
  have "get_entity d s = (Some (RfDir dd), s)" "get_entity top_dir s = (Some (RfDir dt), s)"
    using assms(2,4) rf_preD(5) [OF pre] by (simp_all add: get_entity_def)
  then show ?thesis using assms
    by (simp add: rf_rename_def as_directory_def rename_other_def dir_find_map_of rename_target_def confirm_to_remove_def)
qed

theorem ramfs_rename_blocks_witness:
  "fst (rf_rename 3 ''d'' 2 ''d'' True rf_example) = Err Blocks"
proof (rule ramfs_rename_blocks [OF rf_example_ok])
  show "node rf_example 2 = Some (RfDir [(''d'', 3), (''f'', 5)])" "node rf_example 3 = Some (RfDir [(''d'', 4)])"
    by (simp_all add: rf_example_eq)
qed simp_all

text \<open>
  C39: reading after writing, and what a write cuts off.  A write that succeeds is read back; but the file
  ends where the written bytes end, also when they were written into its middle; the size that
  \<open>stat\<close> reports is then the length, and no other file or directory changes.
\<close>

theorem ramfs_write_spec:
  assumes "rf_ok s" "node s i = Some (RfFile f)" "rf_write_data mem i offset buf s = (Ok n, s')" "buf \<noteq> []" "0 \<le> offset" "offset < 2 ^ 63"
  shows "n = length buf \<and> rf_read_data i offset (length buf) s' = Ok buf \<and>
    rf_read_data i (offset + int (length buf)) 1 s' = Ok [] \<and>
    rf_token_stat i s' = Some (i, False, nat offset + length buf) \<and> (\<forall>k. k \<noteq> i \<longrightarrow> node s' k = node s k)"
proof -
  have fok: "file_ok f" by (rule node_file_ok [OF assms(1,2)])
  obtain f' where w: "rf_file_write mem (offset_usize offset) buf f = (Ok n, f')" and s': "s' = set_node i (RfFile f') s"
    using assms(2,3) by (auto simp: rf_write_data_def split: prod.splits)
  have off: "offset_usize offset = nat offset" using assms(5,6) by (simp add: offset_usize_def)
  have "nat offset + length buf \<le> FILE_SIZE_MAX" using w unfolding off by (auto simp: rf_file_write_def Let_def split: if_splits)
  then have off2: "offset_usize (offset + int (length buf)) = nat offset + length buf"
    using assms(5) by (simp add: offset_usize_def FILE_SIZE_MAX_def nat_add_distrib)
  note spec = file_write_spec [OF fok w] and rd = file_read_written [OF fok w assms(4)]
  from spec assms(4) have f': "n = length buf" "f_len f' = nat offset + length buf" "f_estimated_size f' = f_len f'" unfolding off by auto
  from rd f' off off2 show ?thesis
    by (simp add: s' rf_read_data_def rf_token_stat_def rf_file_read_def is_dir_def content_size_def)
qed

theorem ramfs_write_spec_witness:
  "\<exists>s'. rf_write_data (\<lambda>_. True) 5 0 [1, 2, 3] rf_example = (Ok 3, s') \<and> rf_read_data 5 0 3 s' = Ok [1, 2, 3]"
proof -
  have f: "node rf_example 5 = Some (RfFile rf_file_new)" "fst (rf_write_data (\<lambda>_. True) 5 0 [1, 2, 3] rf_example) = Ok 3"
    by (simp_all add: rf_example_eq rf_write_data_def rf_file_write_def offset_usize_def rf_file_new_def FILE_SIZE_MAX_def Let_def)
  then have "rf_write_data (\<lambda>_. True) 5 0 [1, 2, 3] rf_example = (Ok 3, snd (rf_write_data (\<lambda>_. True) 5 0 [1, 2, 3] rf_example))"
    by (metis prod.collapse)
  from ramfs_write_spec [OF rf_example_ok f(1) this] this show ?thesis by (intro exI) (auto simp: numeral_3_eq_3)
qed

text \<open>
  Inode numbers that are never given back.  Creating a file, unlinking it while it is open and closing
  it leaves the same files and directories as before, but one key more in the map of the driver; and
  once the map has \<open>INODE_MAX\<close> keys nothing can be created any more.
\<close>

theorem ramfs_leaks_inode:
  assumes "rf_ok s" "node s dir = Some (RfDir d)" "map_of d name = None" "length (rf_inodes s) < INODE_MAX" "1 + rf_next s \<noteq> 0"
  shows "\<exists>i s1 s2. rf_creat dir name s = (Ok i, s1) \<and> rf_unlink dir name s1 = (Ok (), s2) \<and>
    node (rf_close i s2) = node s \<and> length (rf_inodes (rf_close i s2)) = Suc (length (rf_inodes s))"
proof -
  have pre: "rf_pre s" using assms(1) by (simp add: rf_ok_iff)
  have "get_entity dir s = (Some (RfDir d), s)" using assms(2) rf_preD(5) [OF pre] by (simp add: get_entity_def)
  with assms(3-5) obtain i s0 where m: "make_node dir name False s = (Ok i, s0)"
    by (simp add: make_node_def as_directory_def dir_find_map_of next_inode_def Let_def)
  from assms(1) m obtain d0 where d0: "node s dir = Some (RfDir d0)" "map_of d0 name = None" "node s i = None" "i = Suc (unat (rf_next s))"
    "node s0 = (node s)(i \<mapsto> (if False then RfDir [] else RfFile rf_file_new), dir \<mapsto> RfDir (d0 @ [(name, i)]))"
    "rf_inodes s0 = i # rf_inodes s" "unat (rf_next s0) = i" "rf_tokens s0 = rf_tokens s" "rf_ok s0" by (rule make_node_Ok)
  then have fresh: "node s i = None" "dir \<noteq> i"
    and n0: "node s0 = (node s)(i \<mapsto> RfFile rf_file_new, dir \<mapsto> RfDir (d @ [(name, i)]))"
    and i0: "rf_inodes s0 = i # rf_inodes s" "rf_tokens s0 = rf_tokens s" "rf_ok s0" using assms(2) by auto
  define s1 where "s1 = s0\<lparr>rf_tokens := i # rf_tokens s0\<rparr>"
  have creat: "rf_creat dir name s = (Ok i, s1)"
    using m n0 i0 fresh by (simp add: rf_creat_def rf_open_def get_entity_def s1_def)
  have n1: "node s1 = node s0" "rf_inodes s1 = i # rf_inodes s" "rf_tokens s1 = i # rf_tokens s" by (simp_all add: s1_def i0)
  have ok1: "rf_ok s1" using open_ok [OF i0(3), of i "Ok i" s1] n0 i0 fresh by (simp add: rf_open_def get_entity_def s1_def)
  have "node s1 dir = Some (RfDir (d @ [(name, i)]))" "node s1 i = Some (RfFile rf_file_new)" "i \<in> set (rf_tokens s1)"
    using n0 n1 fresh(2) by simp_all
  from unlink_added [OF ok1 this(1) assms(3) this(2,3)] obtain s2 where u: "rf_unlink dir name s1 = (Ok (), s2)"
    "node s2 = (node s1)(dir \<mapsto> RfDir d)" "rf_inodes s2 = rf_inodes s1" "rf_tokens s2 = rf_tokens s1" "rf_ok s2" .
  have "node s2 = (node s)(i \<mapsto> RfFile rf_file_new)" unfolding u(2) n1(1) n0 using assms(2) fresh(2) by (auto simp: fun_eq_iff)
  with u(3-5) n1(2,3) have n2: "node s2 = (node s)(i \<mapsto> RfFile rf_file_new)" "rf_inodes s2 = i # rf_inodes s" "rf_tokens s2 = i # rf_tokens s"
    "rf_ok s2" by (simp_all only:)
  have "node (rf_close i s2) = node s" by (rule close_fresh [OF assms(1) fresh(1) n2(4,1,3)])
  moreover have "length (rf_inodes (rf_close i s2)) = Suc (length (rf_inodes s))" by (simp add: rf_close_def reap_frame n2(2))
  ultimately show ?thesis using creat u(1) by blast
qed

theorem ramfs_leaks_inode_witness:
  "\<exists>i s1 s2. rf_creat 3 ''x'' rf_example = (Ok i, s1) \<and> rf_unlink 3 ''x'' s1 = (Ok (), s2) \<and>
    node (rf_close i s2) = node rf_example \<and> length (rf_inodes (rf_close i s2)) = 5"
proof -
  have "node rf_example 3 = Some (RfDir [(''d'', 4)])" "map_of [(''d'', 4)] ''x'' = None" "length (rf_inodes rf_example) < INODE_MAX"
    "1 + rf_next rf_example \<noteq> 0"
    by (simp_all add: rf_example_eq INODE_MAX_def)
  from ramfs_leaks_inode [OF rf_example_ok this] have "\<exists>i s1 s2. rf_creat 3 ''x'' rf_example = (Ok i, s1) \<and>
    rf_unlink 3 ''x'' s1 = (Ok (), s2) \<and> node (rf_close i s2) = node rf_example \<and>
    length (rf_inodes (rf_close i s2)) = Suc (length (rf_inodes rf_example))" .
  moreover have "Suc (length (rf_inodes rf_example)) = 5" by (simp add: rf_example_eq)
  ultimately show ?thesis by (simp only:)
qed

end
