(* ===== verification/FileMgr.thy ===== *)
theory FileMgr
  imports RamFsSafety "HOL-Library.Sublist" "HOL-Library.List_Lexorder" "HOL-Library.Char_ord"
begin

text \<open>
  The file manager of src/system/src/fs/filesys.rs: canonical paths, mount points, the path operations and
  the file control blocks.  The drivers that are mounted are file systems in memory (\<open>RamFs\<close>); the
  device file system is not modelled.  The working directory of the calling process is part of the
  state.  A control block is open on a token of a driver, which the key of its mount point names.
\<close>

section \<open>Paths\<close>

text \<open>\<open>str::split\<close> with one character.\<close>

fun split_on :: "char \<Rightarrow> string \<Rightarrow> string list" where
  "split_on c [] = [[]]"
| "split_on c (x # xs) = (if x = c then [] # split_on c xs else (x # hd (split_on c xs)) # tl (split_on c xs))"

fun join_with :: "string \<Rightarrow> string list \<Rightarrow> string" where
  "join_with sep [] = []"
| "join_with sep [p] = p"
| "join_with sep (p # q # ps) = p @ sep @ join_with sep (q # ps)"

definition path_separator :: string where "path_separator = ''/''"

definition join_path :: "string list \<Rightarrow> string" where
  "join_path cs = path_separator @ join_with path_separator cs"

definition canonical_step :: "string \<Rightarrow> string list \<Rightarrow> string list" where
  "canonical_step c acc =
     (if c = [] \<or> c = ''.'' then acc else if c = ''..'' then butlast acc else acc @ [c])"

definition canonical_components :: "string \<Rightarrow> string \<Rightarrow> string list" where
  "canonical_components base path =
     (let path = (if prefix ''/'' path then path else base @ path_separator @ path) in
      fold canonical_step (split_on (CHR ''/'') path) [])"

definition canonical_path :: "string \<Rightarrow> string \<Rightarrow> string" where
  "canonical_path cwd path = join_path (canonical_components cwd path)"

definition parent_path :: "string \<Rightarrow> string option" where
  "parent_path path =
     (let cs = canonical_components '''' path in if cs = [] then None else Some (join_path (butlast cs)))"


text \<open>What canonical components are, and that a path made of them is read back.\<close>

definition plain_component :: "string \<Rightarrow> bool" where
  "plain_component c \<longleftrightarrow> c \<noteq> [] \<and> c \<noteq> ''.'' \<and> c \<noteq> ''..'' \<and> CHR ''/'' \<notin> set c"

lemma split_on_nonempty [simp]: "split_on c s \<noteq> []"
  by (cases s) auto

lemma split_on_no_sep: "p \<in> set (split_on c s) \<Longrightarrow> c \<notin> set p"
proof (induction s arbitrary: p)
  case (Cons x xs)
  have "hd (split_on c xs) \<in> set (split_on c xs)" "set (tl (split_on c xs)) \<subseteq> set (split_on c xs)"
    by (auto dest: list.set_sel(2) [rotated])
  with Cons show ?case by (auto split: if_splits)
qed simp

lemma split_on_append: "c \<notin> set p \<Longrightarrow> split_on c (p @ c # s) = p # split_on c s"
  by (induction p) auto

lemma split_on_single: "c \<notin> set p \<Longrightarrow> split_on c p = [p]"
  by (induction p) auto

lemma join_with_Cons: "ps \<noteq> [] \<Longrightarrow> join_with sep (p # ps) = p @ sep @ join_with sep ps"
  by (cases ps) auto

lemma split_join: "cs \<noteq> [] \<Longrightarrow> \<forall>c\<in>set cs. CHR ''/'' \<notin> set c \<Longrightarrow> split_on (CHR ''/'') (join_with ''/'' cs) = cs"
proof (induction cs)
  case (Cons p ps)
  then show ?case by (cases "ps = []") (auto simp: split_on_single split_on_append join_with_Cons)
qed simp

lemma split_on_last: "split_on c (s @ [c]) = split_on c s @ [[]]"
  by (induction s) auto

lemma canonical_step_plain:
  "list_all plain_component acc \<Longrightarrow> CHR ''/'' \<notin> set c \<Longrightarrow> list_all plain_component (canonical_step c acc)"
proof -
  assume acc: "list_all plain_component acc" and c: "CHR ''/'' \<notin> set c"
  have "canonical_step c acc = acc \<or> canonical_step c acc = butlast acc \<or> plain_component c \<and> canonical_step c acc = acc @ [c]"
    using c unfolding canonical_step_def plain_component_def by metis
  moreover have "list_all plain_component (butlast acc)" using acc unfolding list_all_iff by (blast dest: in_set_butlastD)
  ultimately show ?thesis using acc by (elim disjE conjE) simp_all
qed

lemma canonical_fold_plain:
  "list_all plain_component acc \<Longrightarrow> \<forall>c\<in>set cs. CHR ''/'' \<notin> set c \<Longrightarrow> list_all plain_component (fold canonical_step cs acc)"
  by (induction cs arbitrary: acc) (simp_all add: canonical_step_plain)

lemma canonical_plain: "list_all plain_component (canonical_components base path)"
  unfolding canonical_components_def Let_def by (intro canonical_fold_plain) (auto dest: split_on_no_sep)

lemma canonical_fold_id: "list_all plain_component cs \<Longrightarrow> fold canonical_step cs acc = acc @ cs"
  by (induction cs arbitrary: acc) (auto simp: canonical_step_def plain_component_def)

text \<open>With or without a separator at the end.\<close>

lemma canonical_join:
  assumes "list_all plain_component cs"
  shows "canonical_components base (join_path cs) = cs" "canonical_components base (join_path cs @ ''/'') = cs"
proof -
  have "fold canonical_step (split_on (CHR ''/'') (join_with ''/'' cs)) [] = cs"
  proof (cases "cs = []")
    case False
    then have "split_on (CHR ''/'') (join_with ''/'' cs) = cs"
      using assms by (intro split_join) (simp_all add: list_all_iff plain_component_def)
    then show ?thesis using canonical_fold_id [OF assms, of "[]"] by simp
  qed (simp add: canonical_step_def)
  then show "canonical_components base (join_path cs) = cs" "canonical_components base (join_path cs @ ''/'') = cs"
    by (simp_all add: canonical_components_def join_path_def path_separator_def split_on_last canonical_step_def)
qed

lemma parent_path_shorter:
  assumes "parent_path path = Some p"
  shows "length (canonical_components '''' p) < length (canonical_components '''' path)"
proof -
  let ?cs = "canonical_components '''' path"
  from assms have "?cs \<noteq> []" "p = join_path (butlast ?cs)" by (auto simp: parent_path_def Let_def split: if_splits)
  moreover have "list_all plain_component (butlast ?cs)"
    using canonical_plain [of "''''" path] by (auto simp: list_all_iff dest: in_set_butlastD)
  ultimately show ?thesis by (simp add: canonical_join)
qed


section \<open>Mount points\<close>

record fm =
  fm_mounts :: "(string \<times> ramfs) list"
  fm_cwd :: string

text \<open>The last of the sorted keys that the path starts with.\<close>

definition mount_prefix :: "string list \<Rightarrow> string \<Rightarrow> string option" where
  "mount_prefix ps path = find (\<lambda>v. prefix v path) (rev (sort ps))"

fun lookup_all :: "nat \<Rightarrow> string list \<Rightarrow> ramfs \<Rightarrow> nat fs_result \<times> ramfs" where
  "lookup_all dir [] fs = (Ok dir, fs)"
| "lookup_all dir (c # cs) fs =
     (case rf_lookup dir c fs of
        (Ok i, fs) \<Rightarrow> lookup_all i cs fs
      | (Err e, fs) \<Rightarrow> (Err e, fs) | (Panic, fs) \<Rightarrow> (Panic, fs) | (UB u, fs) \<Rightarrow> (UB u, fs))"

definition set_fs :: "string \<Rightarrow> ramfs \<Rightarrow> fm \<Rightarrow> fm" where
  "set_fs key fs m = m\<lparr>fm_mounts := AList.update key fs (fm_mounts m)\<rparr>"

text \<open>
  The common part of \<open>resolve_all\<close> and \<open>resolve_parent\<close>: the driver and the inode of a path that ends
  in a separator.  The slice \<open>fq_path[prefix.len() - 1..]\<close> starts at the last separator of the prefix.
\<close>

definition resolve_fq :: "string \<Rightarrow> fm \<Rightarrow> (string \<times> nat) fs_result \<times> fm" where
  "resolve_fq fq_path m =
     (case mount_prefix (map fst (fm_mounts m)) fq_path of
        None \<Rightarrow> (Err (Fails NotFound), m)
      | Some key \<Rightarrow>
          (case map_of (fm_mounts m) key of
             None \<Rightarrow> (Err (Fails NotFound), m)
           | Some fs \<Rightarrow>
               (case lookup_all rf_root (canonical_components path_separator (drop (length key - 1) fq_path)) fs of
                  (r, fs) \<Rightarrow> (and_then r (\<lambda>i. Ok (key, i)), set_fs key fs m))))"

definition resolve_all :: "string \<Rightarrow> fm \<Rightarrow> (string \<times> nat) fs_result \<times> fm" where
  "resolve_all path m = resolve_fq (canonical_path (fm_cwd m) path @ path_separator) m"

definition resolve_parent :: "string \<Rightarrow> fm \<Rightarrow> (string \<times> nat \<times> string option) fs_result \<times> fm" where
  "resolve_parent path m =
     (let cs = canonical_components (fm_cwd m) path;
          lpc = (if cs = [] then None else Some (last cs)) in
      case resolve_fq (join_path (butlast cs) @ path_separator) m of
        (r, m) \<Rightarrow> (and_then r (\<lambda>(key, i). Ok (key, i, lpc)), m))"


section \<open>Operations on paths\<close>

text \<open>A call of the driver at \<open>key\<close>.\<close>

definition on_fs :: "string \<Rightarrow> (ramfs \<Rightarrow> 'a fs_result \<times> ramfs) \<Rightarrow> fm \<Rightarrow> 'a fs_result \<times> fm" where
  "on_fs key f m =
     (case map_of (fm_mounts m) key of
        None \<Rightarrow> (Err (Fails NotFound), m)
      | Some fs \<Rightarrow> (case f fs of (r, fs) \<Rightarrow> (r, set_fs key fs m)))"

definition fm_bind :: "('a fs_result \<times> fm) \<Rightarrow> ('a \<Rightarrow> fm \<Rightarrow> 'b fs_result \<times> fm) \<Rightarrow> 'b fs_result \<times> fm" where
  "fm_bind p f = (case p of
      (Ok x, m) \<Rightarrow> f x m
    | (Err e, m) \<Rightarrow> (Err e, m) | (Panic, m) \<Rightarrow> (Panic, m) | (UB u, m) \<Rightarrow> (UB u, m))"

definition stat_result :: "nat \<Rightarrow> ramfs \<Rightarrow> (nat \<times> bool \<times> nat) fs_result \<times> ramfs" where
  "stat_result i fs = (case rf_stat i fs of (r, fs) \<Rightarrow> (ok_or (Fails NotFound) r, fs))"

definition fm_chdir :: "string \<Rightarrow> fm \<Rightarrow> unit fs_result \<times> fm" where
  "fm_chdir path m =
     (let cs = canonical_components (fm_cwd m) path in
      fm_bind (resolve_all path m) (\<lambda>(key, i) m.
      fm_bind (on_fs key (stat_result i) m) (\<lambda>(_, dir, _) m.
      if dir then (Ok (), m\<lparr>fm_cwd := join_path cs\<rparr>) else (Err (Fails NotADirectory), m))))"

record fcb =
  fcb_mount :: string
  fcb_token :: nat
  fcb_read :: bool
  fcb_write :: bool
  fcb_pos :: int

definition fcb_new :: "string \<Rightarrow> nat \<Rightarrow> bool \<Rightarrow> bool \<Rightarrow> fcb" where
  "fcb_new key token rd wr = \<lparr>fcb_mount = key, fcb_token = token, fcb_read = rd, fcb_write = wr, fcb_pos = 0\<rparr>"

definition fm_open :: "string \<Rightarrow> bool \<Rightarrow> bool \<Rightarrow> fm \<Rightarrow> fcb fs_result \<times> fm" where
  "fm_open path rd wr m =
     fm_bind (resolve_all path m) (\<lambda>(key, i) m.
     fm_bind (on_fs key (stat_result i) m) (\<lambda>(_, dir, _) m.
     if dir then (Err (Fails IsADirectory), m)
     else fm_bind (on_fs key (rf_open i) m) (\<lambda>t m. (Ok (fcb_new key t rd wr), m))))"

definition fm_creat :: "string \<Rightarrow> fm \<Rightarrow> fcb fs_result \<times> fm" where
  "fm_creat path m =
     fm_bind (resolve_parent path m) (\<lambda>(key, dir, lpc) m.
     case lpc of
       None \<Rightarrow> (Err (Fails NotFound), m)
     | Some name \<Rightarrow> fm_bind (on_fs key (rf_creat dir name) m) (\<lambda>t m. (Ok (fcb_new key t True True), m)))"

definition fm_mkdir :: "string \<Rightarrow> fm \<Rightarrow> unit fs_result \<times> fm" where
  "fm_mkdir path m =
     fm_bind (resolve_parent path m) (\<lambda>(key, dir, lpc) m.
     case lpc of
       None \<Rightarrow> (Err (Fails NotFound), m)
     | Some name \<Rightarrow> on_fs key (rf_mkdir dir name) m)"

text \<open>\<open>mkdir2\<close> creates the parents; a path has one component less than its child.\<close>

function fm_mkdir2 :: "string \<Rightarrow> fm \<Rightarrow> unit fs_result \<times> fm" where
  "fm_mkdir2 path m =
     (case fm_mkdir path m of
        (Err e, m) \<Rightarrow>
          if e = Fails NotFound then
            (case parent_path path of
               Some parent \<Rightarrow> fm_bind (fm_mkdir2 parent m) (\<lambda>_. fm_mkdir path)
             | None \<Rightarrow> (Err e, m))
          else (Err e, m)
      | r \<Rightarrow> r)"
  by pat_completeness auto
termination
  by (relation "measure (\<lambda>(path, m). length (canonical_components '''' path))") (auto simp: parent_path_shorter)

declare fm_mkdir2.simps [simp del]

definition fm_unlink :: "string \<Rightarrow> fm \<Rightarrow> unit fs_result \<times> fm" where
  "fm_unlink path m =
     fm_bind (resolve_parent path m) (\<lambda>(key, dir, lpc) m.
     case lpc of
       None \<Rightarrow> (Err (Fails NotFound), m)
     | Some name \<Rightarrow> on_fs key (rf_unlink dir name) m)"

definition fm_stat :: "string \<Rightarrow> fm \<Rightarrow> (nat \<times> bool \<times> nat) fs_result \<times> fm" where
  "fm_stat path m =
     fm_bind (resolve_parent path m) (\<lambda>(key, inode, lpc) m.
     fm_bind (case lpc of None \<Rightarrow> (Ok inode, m) | Some name \<Rightarrow> on_fs key (rf_lookup inode name) m) (\<lambda>inode m.
     on_fs key (stat_result inode) m))"

text \<open>The target of \<open>rename\<close>: into the directory when the new path is one.\<close>

definition rename_dest :: "string \<Rightarrow> nat \<Rightarrow> string option \<Rightarrow> string \<Rightarrow> fm \<Rightarrow> (nat \<times> string) fs_result \<times> fm" where
  "rename_dest key new_dir new_name old_name m =
     (case new_name of
        None \<Rightarrow> (Ok (new_dir, old_name), m)
      | Some name \<Rightarrow>
          (case on_fs key (rf_lookup new_dir name) m of
             (Ok inode, m) \<Rightarrow>
               (case on_fs key (stat_result inode) m of
                  (Ok (_, dir, _), m) \<Rightarrow> (Ok (if dir then (inode, old_name) else (new_dir, name)), m)
                | (_, m) \<Rightarrow> (Ok (new_dir, name), m))
           | (_, m) \<Rightarrow> (Ok (new_dir, name), m)))"

definition fm_rename :: "string \<Rightarrow> string \<Rightarrow> fm \<Rightarrow> unit fs_result \<times> fm" where
  "fm_rename old_path new_path m =
     (let old_path = canonical_path (fm_cwd m) old_path @ path_separator;
          new_path = canonical_path (fm_cwd m) new_path @ path_separator in
      if old_path = new_path then (Ok (), m)
      else if prefix old_path new_path then (Err (Fails InvalidInput), m)
      else
        fm_bind (resolve_parent old_path m) (\<lambda>(key1, old_dir, old_name) m.
        case old_name of
          None \<Rightarrow> (Err (Fails NotFound), m)
        | Some old_name \<Rightarrow>
            fm_bind (resolve_parent new_path m) (\<lambda>(key2, new_dir, new_name) m.
            fm_bind (rename_dest key2 new_dir new_name old_name m) (\<lambda>(new_dir, new_name) m.
            if key1 = key2 then on_fs key1 (rf_rename old_dir old_name new_dir new_name True) m
            else (Err (Fails CrossesDevices), m)))))"


section \<open>File control blocks\<close>

datatype whence = SeekSet | SeekCur | SeekEnd

definition whence_try_from :: "nat \<Rightarrow> whence option" where
  "whence_try_from n = (if n = 0 then Some SeekSet else if n = 1 then Some SeekCur else if n = 2 then Some SeekEnd else None)"

definition i64_checked_add :: "int \<Rightarrow> int \<Rightarrow> int option" where
  "i64_checked_add a b = (if - (2 ^ 63) \<le> a + b \<and> a + b < 2 ^ 63 then Some (a + b) else None)"

definition i64_add :: "int \<Rightarrow> int \<Rightarrow> int" where
  "i64_add a b = (a + b + 2 ^ 63) mod 2 ^ 64 - 2 ^ 63"

text \<open>The driver of a control block; its token keeps the entity alive.\<close>

definition fcb_fs :: "fcb \<Rightarrow> fm \<Rightarrow> ramfs option" where
  "fcb_fs b m = map_of (fm_mounts m) (fcb_mount b)"

definition fcb_lseek :: "int \<Rightarrow> whence \<Rightarrow> fcb \<Rightarrow> fm \<Rightarrow> int fs_result \<times> fcb" where
  "fcb_lseek offset w b m =
     (let new_pos = (case w of
          SeekSet \<Rightarrow> Some offset
        | SeekCur \<Rightarrow> i64_checked_add (fcb_pos b) offset
        | SeekEnd \<Rightarrow> (case Option.bind (fcb_fs b m) (rf_token_stat (fcb_token b)) of
                       Some (_, _, len) \<Rightarrow> i64_checked_add (int len) offset
                     | None \<Rightarrow> Some 0)) in
      case new_pos of
        Some p \<Rightarrow> (Ok p, b\<lparr>fcb_pos := p\<rparr>)
      | None \<Rightarrow> (Err (Fails InvalidInput), b))"

text \<open>The bytes that are read; their number is added to the position.\<close>

definition fcb_do_read :: "nat \<Rightarrow> fcb \<Rightarrow> fm \<Rightarrow> u8 list fs_result \<times> fcb" where
  "fcb_do_read n b m =
     (if \<not> fcb_read b then (Err (Fails InvalidInput), b)
      else case fcb_fs b m of
          None \<Rightarrow> (Err (Fails NotFound), b)
        | Some fs \<Rightarrow>
            (case rf_read_data (fcb_token b) (fcb_pos b) n fs of
               Ok bs \<Rightarrow> (Ok bs, b\<lparr>fcb_pos := i64_add (fcb_pos b) (int (length bs))\<rparr>)
             | Err e \<Rightarrow> (Err e, b) | Panic \<Rightarrow> (Panic, b) | UB u \<Rightarrow> (UB u, b)))"

definition fcb_do_write :: "(nat \<Rightarrow> bool) \<Rightarrow> u8 list \<Rightarrow> fcb \<Rightarrow> fm \<Rightarrow> nat fs_result \<times> fcb \<times> fm" where
  "fcb_do_write mem buf b m =
     (if \<not> fcb_write b then (Err (Fails InvalidInput), b, m)
      else case fcb_fs b m of
          None \<Rightarrow> (Err (Fails NotFound), b, m)
        | Some fs \<Rightarrow>
            (case rf_write_data mem (fcb_token b) (fcb_pos b) buf fs of
               (Ok n, fs) \<Rightarrow> (Ok n, b\<lparr>fcb_pos := i64_add (fcb_pos b) (int n)\<rparr>, set_fs (fcb_mount b) fs m)
             | (r, fs) \<Rightarrow> (r, b, set_fs (fcb_mount b) fs m)))"

definition fcb_truncate :: "(nat \<Rightarrow> bool) \<Rightarrow> int \<Rightarrow> fcb \<Rightarrow> fm \<Rightarrow> unit fs_result \<times> fm" where
  "fcb_truncate mem n b m = on_fs (fcb_mount b) (rf_truncate mem (fcb_token b) n) m"

definition fcb_fstat :: "fcb \<Rightarrow> fm \<Rightarrow> (nat \<times> bool \<times> nat) option" where
  "fcb_fstat b m = Option.bind (fcb_fs b m) (rf_token_stat (fcb_token b))"

definition BUFFER_SIZE :: nat where "BUFFER_SIZE = 0x10000"

text \<open>\<open>read_to_end\<close>: \<open>None\<close> when the loop does not end.\<close>

partial_function (option) read_to_end_loop :: "(nat \<Rightarrow> bool) \<Rightarrow> u8 list \<Rightarrow> fcb \<Rightarrow> fm \<Rightarrow> (u8 list fs_result \<times> fcb) option" where
  "read_to_end_loop mem acc b m =
     (case fcb_do_read BUFFER_SIZE b m of
        (Ok bs, b) \<Rightarrow>
          if bs = [] then Some (Ok acc, b)
          else if \<not> mem (length acc + length bs) then Some (Err (Fails OutOfMemory), b)
          else read_to_end_loop mem (acc @ bs) b m
      | (Err e, b) \<Rightarrow> if e = Fails Interrupted then read_to_end_loop mem acc b m else Some (Err e, b)
      | r \<Rightarrow> Some r)"

definition read_to_end :: "(nat \<Rightarrow> bool) \<Rightarrow> fcb \<Rightarrow> fm \<Rightarrow> (u8 list fs_result \<times> fcb) option" where
  "read_to_end mem b m =
     (if mem BUFFER_SIZE then read_to_end_loop mem [] b m else Some (Err (Fails OutOfMemory), b))"

end
