(* ===== verification/FileMgrSafety.thy ===== *)
theory FileMgrSafety
  imports FileMgr
begin

text \<open>
  The file manager: canonical paths are read back, the mount point that is chosen is the longest that fits,
  the guard of \<open>rename\<close> compares whole components, \<open>read_to_end\<close> ends with the rest of the file, and the
  rename that waits for itself is reached by a path that a user can type.
\<close>

section \<open>Mount points\<close>

lemma prefix_less: "strict_prefix p q \<Longrightarrow> p < (q :: string)"
proof -
  assume "strict_prefix p q"
  then obtain r where "q = p @ r" "r \<noteq> []" by (auto simp: strict_prefix_def prefix_def)
  then show ?thesis by (induction p arbitrary: q) (auto simp: neq_Nil_conv)
qed

lemma mount_prefix_longest:
  assumes "mount_prefix ps path = Some p"
  shows "p \<in> set ps \<and> prefix p path \<and> (\<forall>q\<in>set ps. prefix q path \<longrightarrow> prefix q p)"
proof -
  let ?l = "rev (sort ps)"
  from assms obtain i where i: "i < length ?l" "?l ! i = p" "prefix p path" "\<forall>j<i. \<not> prefix (?l ! j) path"
    by (auto simp: mount_prefix_def find_Some_iff)
  have "prefix q p" if q: "q \<in> set ps" "prefix q path" for q
  proof (rule ccontr)
    assume "\<not> prefix q p"
    with q(2) i(3) have "strict_prefix p q" by (metis prefix_same_cases prefix_order.le_less prefix_order.order_refl)
    then have less: "p < q" by (rule prefix_less)
    from q(1) obtain j where j: "j < length ?l" "?l ! j = q" by (metis in_set_conv_nth set_rev set_sort)
    then have "\<not> j < i" using i(4) q(2) by auto
    moreover have "sorted_wrt (\<ge>) ?l" by (simp add: sorted_wrt_rev)
    ultimately have "q \<le> p" using i(1,2) j by (metis linorder_neqE_nat order_refl sorted_wrt_nth_less)
    with less show False by simp
  qed
  moreover have "p \<in> set ps" using i(1,2) by (metis nth_mem set_rev set_sort)
  ultimately show ?thesis using i(3) by blast
qed

section \<open>The guard of rename\<close>

text \<open>The string of a path with a separator after every component.\<close>

fun path_string :: "string list \<Rightarrow> string" where
  "path_string [] = ''/''"
| "path_string (c # cs) = CHR ''/'' # c @ path_string cs"

lemma path_string_join: "cs \<noteq> [] \<Longrightarrow> join_path cs @ ''/'' = path_string cs"
proof (induction cs)
  case (Cons c cs)
  then show ?case by (cases "cs = []") (auto simp: join_path_def path_separator_def join_with_Cons)
qed simp

lemma path_string_prefix:
  assumes "list_all plain_component as" "list_all plain_component bs"
  shows "prefix (path_string as) (path_string bs) \<longleftrightarrow> prefix as bs"
  using assms
proof (induction as arbitrary: bs)
  case Nil
  then show ?case by (cases bs) auto
next
  case (Cons a as)
  show ?case
  proof (cases bs)
    case Nil
    with Cons.prems show ?thesis by (cases a) (auto simp: plain_component_def)
  next
    case b: (Cons b bs')
    have slash: "CHR ''/'' \<notin> set a" "CHR ''/'' \<notin> set b" using Cons.prems b by (auto simp: plain_component_def)
    obtain x y where xy: "path_string as = CHR ''/'' # x" "path_string bs' = CHR ''/'' # y" by (metis path_string.elims)
    have "prefix (a @ CHR ''/'' # x) (b @ CHR ''/'' # y) \<longleftrightarrow> a = b \<and> prefix (CHR ''/'' # x) (CHR ''/'' # y)"
      using slash
    proof (induction a arbitrary: b)
      case Nil
      then show ?case by (cases b) auto
    next
      case (Cons z a)
      then show ?case by (cases b) auto
    qed
    with Cons.IH [of bs'] Cons.prems b xy show ?thesis by auto
  qed
qed


section \<open>Reading to the end\<close>

lemma file_read_bytes:
  assumes "file_ok f" "file_bytes f = map Some bs"
  shows "rf_file_read offset n f = Ok (take n (drop offset bs))"
proof -
  have len: "f_len f = length bs" using assms by (metis file_bytes_def file_ok_def length_map length_take min.absorb2)
  have "take (min n (f_len f - offset)) (drop offset (f_buf f)) = take n (drop offset (file_bytes f))"
    by (simp add: file_bytes_def drop_take take_take)
  also have "\<dots> = map Some (take n (drop offset bs))" by (simp add: assms(2) take_map drop_map)
  finally show ?thesis using len by (auto simp: rf_file_read_def)
qed

lemma take_append_drop_length: "take n xs @ drop (length (take n xs)) xs = xs"
  by (cases "n \<le> length xs") auto

lemma read_to_end_loop_rest:
  assumes b: "fcb_read b" "fcb_fs b m = Some fs" "node fs (fcb_token b) = Some (RfFile f)"
    and f: "file_ok f" "file_bytes f = map Some bs" "length bs < 2 ^ 62" and pos: "0 \<le> fcb_pos b" "fcb_pos b < 2 ^ 63" and mem: "\<And>n. mem n"
  shows "read_to_end_loop mem acc b m =
    Some (Ok (acc @ drop (nat (fcb_pos b)) bs), b\<lparr>fcb_pos := max (fcb_pos b) (int (length bs))\<rparr>)"
  using b pos
proof (induction "length bs - nat (fcb_pos b)" arbitrary: b acc rule: less_induct)
  case less
  let ?rd = "take BUFFER_SIZE (drop (nat (fcb_pos b)) bs)"
  have "offset_usize (fcb_pos b) = nat (fcb_pos b)" using less.prems(4,5) by (simp add: offset_usize_def)
  then have data: "rf_read_data (fcb_token b) (fcb_pos b) BUFFER_SIZE fs = Ok ?rd"
    using less.prems(3) file_read_bytes [OF f(1,2)] by (simp add: rf_read_data_def)
  then have rd: "fcb_do_read BUFFER_SIZE b m = (Ok ?rd, b\<lparr>fcb_pos := i64_add (fcb_pos b) (int (length ?rd))\<rparr>)"
    using less.prems(1,2) by (simp add: fcb_do_read_def)
  show ?case
  proof (cases "length bs \<le> nat (fcb_pos b)")
    case True
    then have "i64_add (fcb_pos b) 0 = fcb_pos b" "max (fcb_pos b) (int (length bs)) = fcb_pos b"
      using less.prems(4,5) by (auto simp: i64_add_def)
    with rd True show ?thesis by (simp add: read_to_end_loop.simps)
  next
    case False
    have len: "length ?rd = min BUFFER_SIZE (length bs - nat (fcb_pos b))" by simp
    define L where "L = length ?rd"
    have L: "0 < L" "nat (fcb_pos b) + L \<le> length bs" using False by (auto simp: L_def len BUFFER_SIZE_def)
    have lt: "fcb_pos b + int L < 2 ^ 62" using L(2) f(3) less.prems(4) by simp
    then have pos': "i64_add (fcb_pos b) (int L) = fcb_pos b + int L" "nat (fcb_pos b + int L) = nat (fcb_pos b) + L"
      using less.prems(4) by (simp_all add: i64_add_def nat_add_distrib)
    note pos' = pos'(1) L(1) pos'(2) L(2)
    note pos' = pos' [unfolded L_def] and lt = lt [unfolded L_def]
    let ?b = "b\<lparr>fcb_pos := fcb_pos b + int (length ?rd)\<rparr>"
    have "read_to_end_loop mem (acc @ ?rd) ?b m =
        Some (Ok ((acc @ ?rd) @ drop (nat (fcb_pos ?b)) bs), ?b\<lparr>fcb_pos := max (fcb_pos ?b) (int (length bs))\<rparr>)"
    proof (rule less.hyps)
      have "fcb_pos (b\<lparr>fcb_pos := p\<rparr>) = p" for p by simp
      then have "nat (fcb_pos ?b) = nat (fcb_pos b) + length ?rd" by (simp only: pos'(3))
      with pos'(2,4) show "length bs - nat (fcb_pos ?b) < length bs - nat (fcb_pos b)" by linarith
      show "fcb_pos ?b < 2 ^ 63" using lt by (simp del: length_take)
    qed (use less.prems in \<open>simp_all add: fcb_fs_def\<close>)
    moreover have "?rd @ drop (nat (fcb_pos ?b)) bs = drop (nat (fcb_pos b)) bs"
    proof -
      have "fcb_pos (b\<lparr>fcb_pos := p\<rparr>) = p" for p by simp
      then have "drop (nat (fcb_pos ?b)) bs = drop (length ?rd) (drop (nat (fcb_pos b)) bs)" by (simp only: pos'(3) drop_drop add.commute)
      then show ?thesis using take_append_drop_length by (simp only:)
    qed
    moreover have "max (fcb_pos ?b) (int (length bs)) = max (fcb_pos b) (int (length bs))" using pos'(4) less.prems(4) by (simp del: length_take)
    moreover have "?rd \<noteq> []" using pos'(2) by force
    ultimately show ?thesis using rd mem unfolding pos'(1) by (subst read_to_end_loop.simps) (simp del: take_eq_Nil)
  qed
qed



section \<open>Looking up a path of living directories\<close>

lemma get_entity_live: "rf_ok s \<Longrightarrow> node s i = Some c \<Longrightarrow> get_entity i s = (Some c, s)"
  using rf_preD(5) [of s i c] by (simp add: rf_ok_iff get_entity_def)

lemma lookup_live: "rf_ok s \<Longrightarrow> node s dir = Some (RfDir d) \<Longrightarrow> map_of d n = Some i \<Longrightarrow> rf_lookup dir n s = (Ok i, s)"
  by (simp add: rf_lookup_def get_entity_live as_directory_def dir_find_map_of)

text \<open>With one file system, mounted at the root.\<close>

lemma resolve_root:
  assumes "fm_mounts m = [(''/'', fs)]" "list_all plain_component cs" "lookup_all rf_root cs fs = (Ok i, fs)"
  shows "resolve_fq (join_path cs @ ''/'') m = (Ok (''/'', i), m)"
proof -
  have "mount_prefix [''/''] (join_path cs @ ''/'') = Some ''/''"
    by (simp add: mount_prefix_def join_path_def path_separator_def)
  moreover have "set_fs ''/'' fs m = m" using assms(1) by (simp add: set_fs_def)
  ultimately show ?thesis using assms canonical_join(2) [OF assms(2)] by (simp add: resolve_fq_def)
qed

lemma resolve_parent_root:
  assumes "fm_mounts m = [(''/'', fs)]" "list_all plain_component cs" "lookup_all rf_root (butlast cs) fs = (Ok i, fs)"
  shows "resolve_parent (join_path cs @ ''/'') m = (Ok (''/'', i, if cs = [] then None else Some (last cs)), m)"
proof -
  have "list_all plain_component (butlast cs)" using assms(2) by (auto simp: list_all_iff dest: in_set_butlastD)
  from resolve_root [OF assms(1) this assms(3)] show ?thesis
    by (simp add: resolve_parent_def canonical_join(2) [OF assms(2)] path_separator_def Let_def)
qed


text \<open>The guard of \<open>rename\<close> on the strings of paths.\<close>

lemma join_path_guard:
  assumes "list_all plain_component as" "list_all plain_component bs"
  shows "prefix (join_path as @ ''/'') (join_path bs @ ''/'') \<longleftrightarrow> (if as = [] then bs = [] else prefix as bs)"
proof (cases "as = [] \<or> bs = []")
  case True
  have nil: "join_path [] @ ''/'' = ''//''" by (simp add: join_path_def path_separator_def)
  have "\<not> prefix (join_path cs @ ''/'') ''//'' \<and> \<not> prefix ''//'' (join_path cs @ ''/'')"
    if "list_all plain_component cs" "cs \<noteq> []" for cs
    using that path_string_join [OF that(2)]
    by (cases cs; cases "hd cs") (auto simp: plain_component_def)
  with True assms show ?thesis using nil by (cases "as = []"; cases "bs = []") auto
next
  case False
  with path_string_prefix [OF assms] path_string_join show ?thesis by simp
qed


section \<open>The properties\<close>

text \<open>
  Canonical paths.  Whatever the working directory and the path, the components are plain names (not
  empty, neither \<open>.\<close> nor \<open>..\<close>, without a separator), so no path leads above the root; and the path
  that is built from them, with or without a separator at its end, has the same components again.
\<close>

theorem canonical_path_roundtrip:
  "list_all plain_component (canonical_components cwd path) \<and>
   canonical_components base (canonical_path cwd path) = canonical_components cwd path \<and>
   canonical_components base (canonical_path cwd path @ ''/'') = canonical_components cwd path"
  using canonical_plain [of cwd path] canonical_join [OF canonical_plain, of base cwd path] by (simp add: canonical_path_def)

text \<open>
  C38: the mount point of a path is the longest that is a prefix of it, although the keys are only sorted as
  strings; and the guard of \<open>rename\<close>, which compares strings, holds exactly for the targets that lie at
  or below the old path, component by component, when the old path is not the root.  The root is the
  exception: its string is \<open>//\<close>, so the guard holds only for the root itself as the target, and
  \<open>rename\<close> finds out later that the root has no name.
\<close>

theorem mount_and_guard:
  assumes "mount_prefix ps path = Some p"
  shows "p \<in> set ps \<and> prefix p path \<and> (\<forall>q\<in>set ps. prefix q path \<longrightarrow> prefix q p) \<and>
    (prefix (canonical_path cwd old @ path_separator) (canonical_path cwd new @ path_separator) \<longleftrightarrow>
     (if canonical_components cwd old = [] then canonical_components cwd new = []
      else prefix (canonical_components cwd old) (canonical_components cwd new)))"
  using mount_prefix_longest [OF assms(1)] join_path_guard [OF canonical_plain canonical_plain, of cwd old cwd new]
  by (simp add: canonical_path_def path_separator_def)

theorem mount_and_guard_witness:
  "\<exists>p. mount_prefix [''/'', ''/dev/''] ''/dev/null/'' = Some p \<and> (\<forall>q\<in>{''/'', ''/dev/''}. prefix q ''/dev/null/'' \<longrightarrow> prefix q p)"
proof -
  have "mount_prefix [''/'', ''/dev/''] ''/dev/null/'' = Some ''/dev/''" by (simp add: mount_prefix_def)
  then show ?thesis using mount_and_guard [of "[''/'', ''/dev/'']" "''/dev/null/''" "''/dev/''" "''/''" "''a''" "''a''"] by auto
qed



text \<open>
  C40: a path that hangs.  When a directory that lies in the root has an entry of its own name, and the
  file system of the root is the only one mounted, moving that entry to the root never returns:
  \<open>rename\<close> of the file manager lets \<open>mv /d/d /\<close> through, resolves it, and the
  driver waits for the lock that it holds.
\<close>

theorem fm_rename_blocks:
  assumes "rf_ok fs" "node fs rf_root = Some (RfDir dt)" "map_of dt n = Some d" "node fs d = Some (RfDir dd)" "map_of dd n = Some x"
    and "d \<noteq> rf_root" "plain_component n" "fm_mounts m = [(''/'', fs)]"
  shows "fst (fm_rename (''/'' @ n @ ''/'' @ n) ''/'' m) = Err Blocks"
proof -
  have plain: "list_all plain_component [n, n]" using assms(7) by simp
  have old: "canonical_path (fm_cwd m) (''/'' @ n @ ''/'' @ n) = join_path [n, n]" and new: "canonical_path (fm_cwd m) ''/'' = join_path []"
    using canonical_join(1) [OF plain, of "fm_cwd m"] canonical_join(1) [of "[]" "fm_cwd m"]
    by (simp_all add: canonical_path_def join_path_def path_separator_def)
  have guard: "\<not> prefix (join_path [n, n] @ ''/'') (join_path [] @ ''/'')"
    using assms(7) by (cases n) (auto simp: join_path_def path_separator_def plain_component_def)
  have p1: "resolve_parent (join_path [n, n] @ ''/'') m = (Ok (''/'', d, Some n), m)"
    using resolve_parent_root [OF assms(8) plain, of d] lookup_live [OF assms(1-3)] by simp
  have p2: "resolve_parent (join_path [] @ ''/'') m = (Ok (''/'', rf_root, None), m)"
    using resolve_parent_root [OF assms(8), of "[]" rf_root] by simp
  have "fst (rf_rename d n rf_root n True fs) = Err Blocks"
    using get_entity_live [OF assms(1,4)] get_entity_live [OF assms(1,2)] assms(2-6)
    by (simp add: rf_rename_def as_directory_def rename_other_def dir_find_map_of rename_target_def confirm_to_remove_def)
  then have "fst (on_fs ''/'' (rf_rename d n rf_root n True) m) = Err Blocks"
    using assms(8) by (cases "rf_rename d n rf_root n True fs") (simp add: on_fs_def)
  then show ?thesis using guard p1 p2
    unfolding fm_rename_def old new Let_def path_separator_def by (auto simp: fm_bind_def rename_dest_def)
qed


theorem fm_rename_blocks_witness:
  "fst (fm_rename ''/d/d'' ''/'' \<lparr>fm_mounts = [(''/'', rf_example)], fm_cwd = ''/''\<rparr>) = Err Blocks"
proof -
  have n: "node rf_example rf_root = Some (RfDir [(''d'', 3), (''f'', 5)])" "node rf_example 3 = Some (RfDir [(''d'', 4)])"
    by (simp_all add: rf_example_eq rf_root_def)
  have "plain_component ''d''" "(3 :: nat) \<noteq> rf_root" by (simp_all add: plain_component_def rf_root_def)
  from fm_rename_blocks [OF rf_example_ok n(1) _ n(2) _ this(2,1), of 4 "\<lparr>fm_mounts = [(''/'', rf_example)], fm_cwd = ''/''\<rparr>"]
  show ?thesis by simp
qed

end
