(* ===== verification/Spec2Isabelle.thy ===== *)
theory Spec2Isabelle
  imports Calls Instantiate FifoQueue Locks PageSafety SlabSafety HidDriverSafety OpBitmapSafety ArchiveSafety FileMgrSafety
begin

text \<open>
  MEG-OS (this repository) is a hobby operating system written in Rust.  Its applications are
  WebAssembly modules: the kernel loads a module from a file, checks it, translates it to an
  intermediate code and interprets that code inside the kernel.  The safety of the system rests on
  this runtime (src/lib/wasm), because the interpreter uses unchecked accesses wherever its comments
  say that a check is guaranteed by the code verifier.  Below the runtime the kernel has its own
  synchronisation objects (src/system/src/sync), its page and slab allocators (src/system/src/mem), its
  input devices (src/system/src/io), a file system in memory with a file manager (src/system/src/fs) that is filled from an archive (src/lib/mar), and a
  graphics library (src/lib/meggl).  The development models the runtime from the bytes of a file to the
  result of a function, and these parts of the kernel and its libraries.

  \<^bold>\<open>How the source is read.\<close>  The kernel is built in release mode, so integer arithmetic wraps and
  shifts mask their count; \<open>usize\<close> has 64 bits.  A Rust function is a HOL function on explicit
  state whose result is an \<open>outcome\<close> (Prelude): \<open>Ok\<close>, \<open>Err\<close> with the error of the source,
  \<open>Panic\<close> for \<open>unwrap\<close>, an index out of range or \<open>todo!\<close>, and \<open>UB\<close> where an
  unchecked access leaves its object, a dangling slice is used or an unwritten value is read.
  The raw accesses of the modelled code have that outcome: the accesses to the linear memory, its slices
  and copies, the moves and the \<open>set_len\<close> of the compaction, the unchecked accesses of stacks, slices and
  pixels, and the word-wise writes of \<open>_memset_colors8\<close> with their alignment.  That a function stays
  inside its objects is therefore a theorem.  Not seen as undefined behaviour are the aliasing of references, the
  overlap of \<open>copy_from_nonoverlapping\<close> and the alignment of other references.  Code outside the repository is a parameter: the resolver of imports, the imported functions
  (\<open>host\<close>), and the answer of the allocator (\<open>try_reserve\<close>).

  \<^bold>\<open>The WebAssembly runtime.\<close>
  \<^item> Opcode (opcode.rs, opcode/single.rs, opcode/opcode\_fc.rs): opcodes and \<open>WasmOpcode::decode\<close>.
  \<^item> WasmTypes (wasm.rs): value types, values, errors, globals.
  \<^item> Leb128 (wasm.rs, \<open>Leb128Stream\<close>, \<open>WasmSection\<close>): readers and writers.  The locales
    \<open>reader\<close> and \<open>safe_reader\<close> state what a reader promises; every reader interprets them.
    Round trips of numbers and sections.
  \<^item> WasmMemory (wasm.rs, \<open>WasmMemory\<close>, \<open>WasmLimit\<close>): the linear memory.  The locale
    \<open>linear_access\<close> is the contract of a typed access, interpreted for four widths.
  \<^item> IntCode (intcode.rs; \<open>WasmModule\<close> and its parts in wasm.rs): intermediate code and modules.
  \<^item> CodeGen, Verifier, Generate (wasm.rs, \<open>WasmCodeBlock::generate\<close>): the loop over the byte
    code with its checks, what it promises of the emitted codes, and the fusing, compaction and
    branch fix-up that follow.  The compaction moves codes inside their vector; \<open>compact\<close> is its
    reference on lists, and \<open>compact_in_place\<close> that both agree.  The loop consumes a byte in each round, which is its termination.
  \<^item> StackHeap (stack.rs): the bump allocator and \<open>FixedStack\<close>; the locale
    \<open>bounded_stack\<close> is the abstract stack.
  \<^item> Interp (intr.rs): the interpreter with its value stacks in the stack heap.  A run takes fuel, one
    unit for each code; \<open>None\<close> is a run that did not end yet, and more fuel never changes a
    result.  Statements of safety hold for every fuel.
  \<^item> InterpSafety, Fusion, Calls: a verified code stays in its frame; a fused code does what its pair
    did; arguments of calls.
  \<^item> NameTable (wasm.rs, \<open>WasmName\<close>): name tables and their binary search.
  \<^item> Loader, LoaderSafety, Instantiate (wasm.rs, \<open>WasmLoader\<close>): all section parsers.  The locale
    \<open>module_invariant\<close> carries a predicate through the section loop; its interpretation
    \<open>wf\<close> gives that every module returned is well formed.  Together with the interpreter: a
    leaf function of any module that loads stays in bounds.

  \<^bold>\<open>The kernel.\<close>
  \<^item> Fifo, FifoSafety, FifoQueue (src/system/src/sync/fifo.rs, \<open>ConcurrentFifo\<close>): a call is a
    machine whose steps are the atomic accesses; any number of threads interleave.  An inductive
    invariant of counters, stamps and threads gives the refinement of a bounded queue, that each value
    is delivered once, and that a call which runs alone returns.  Counters and stamps wrap around at
    \<open>2 ^ 64\<close>; the theorems are about runs that have not enqueued so many values (\<open>no_wrap\<close>).
  \<^item> Locks (rwlock.rs, semaphore.rs, signal.rs; the sleep counter of task/scheduler.rs): the waiting
    protocol over a lock word.  The locale \<open>lock_word\<close> relates the word to its holders and is
    interpreted for the reader-writer lock, the binary and the counting semaphore.  \<open>lock_step\<close> has
    locks that their holders release; \<open>sem_run\<close> has semaphores that every thread may signal.
  \<^item> PageAlloc, PageSafety (src/system/src/mem/mm.rs, fixedvec.rs): the free list of packed regions.
    The locale \<open>page_pool\<close> is the contract of an allocator and gives that live allocations
    never overlap.
  \<^item> Slab, SlabSafety (src/system/src/mem/slab.rs): the caches of small blocks, whose free lists are used without a
    lock.  A call is a machine whose steps are the atomic accesses.  When calls of \<open>alloc\<close> do not overlap, every
    block has one owner, whatever calls of \<open>free\<close> run meanwhile.

  \<^bold>\<open>Input devices.\<close>
  \<^item> HidReport, HidReportSafety (src/system/src/io/hid\_mgr.rs, \<open>HidParsedReport\<close>; src/lib/megstd/src/io/hid.rs): the items of
    report descriptors and their parser, whose loop consumes a byte in each round.  The locale \<open>descriptor_invariant\<close>
    carries a predicate through the items; it is interpreted for the report ids and for constant items.
  \<^item> HidBits (hid\_mgr.rs, \<open>HidBitStreamReader\<close>, \<open>HidBitStreamWriter\<close>): fields that are not aligned to octets, against the
    sequence of bits.
  \<^item> HidKeys (hid\_mgr.rs, \<open>KeyEvent\<close>, \<open>KeyboardState\<close>, \<open>HidManager\<close>): key events, modifiers and characters.
  \<^item> HidDriver, HidDriverSafety (src/system/src/drivers/usb/drivers/usb\_hid.rs): what a report does, from the bytes of a
    descriptor and of a report to events; the keyboard of the boot protocol and mice.

  \<^bold>\<open>Archives and files.\<close>
  \<^item> Archive, ArchiveSafety (src/lib/mar/src/leb128.rs, lib.rs): the digit tables of the LEB128 writer, the
    readers, the header, \<open>ArchiveWriter\<close> and \<open>ArchiveReader\<close>.  The tables are the encoding that
    Leb128 specifies; what was written is read back.  A writer that failed is not used again.
  \<^item> RamFs (src/system/src/fs/ramfs.rs): the file system in memory.  An entity lives as long as an \<open>Arc\<close>
    refers to it; waiting for a lock that the operation itself holds is the result \<open>Blocks\<close>.  The counter
    of entities is a machine word, and a number that wraps around to 0 is undefined behaviour.
  \<^item> RamFsDir: a directory is a finite map from names; the locale \<open>name_map\<close> is that contract and
    \<open>dir\<close> its interpretation.  Contents of files.
  \<^item> RamFsSafety: the invariant of the driver, kept by every operation in any order; what a rename, a write
    and the reuse of inodes do.
  \<^item> FileMgr, FileMgrSafety (src/system/src/fs/filesys.rs): paths, mount points, the operations of
    \<open>FileManager\<close> over drivers of the kind of RamFs only (the devices at \<open>/dev/\<close>, whose reads need not
    end, are not such drivers), and file control blocks.  Paths are canonical
    after one step; \<open>read_to_end\<close> is a loop whose termination is proved.

  \<^bold>\<open>Graphics.\<close>
  \<^item> Isize, Coords (src/lib/meggl/src/coords.rs): wrapping arithmetic of \<open>isize\<close>; points, sizes,
    rectangles, coordinates and insets with all their operators; the predicates agree with sets of points.
    \<open>small\<close> bounds a coordinate by 2^32, so that sums do not wrap.
  \<^item> Line: the loop of \<open>line_to\<close> (Bresenham) terminates and walks from the first to the last point.
  \<^item> Bitmap (drawable.rs, bitmap.rs): pixels, filling, lines, block transfers, copies and views over a slice
    with a stride; the type of the pixels is a parameter.
  \<^item> BitmapRows, BitmapPaint: the locale \<open>row_loop\<close> says what a loop over rows does to a slice and is
    interpreted for filling, copying, converting and vertical lines.  With \<open>paints\<close> each
    operation is specified by the pixels it changes.
  \<^item> Color, ColorSafety (color.rs): true colours, indexed, packed and generic colours, 15 and 16 bits, pairs and
    octets; conversions that lose nothing, the palette, the range of blending.
  \<^item> Blend, BlendSafety (bitmap.rs): blended and keyed transfers, the turned transfer, the filling of indexed bitmaps by words of
    16 bytes, which is the filling of the other kinds where the words are aligned.
  \<^item> Glyph, GlyphSafety, RoundSafety (bitmap.rs, \<open>DrawGlyph\<close>, \<open>DrawRect\<close>): glyphs, rounded rectangles and
    circles.  The locale \<open>round_loop\<close> gives termination and the region for both loops.
  \<^item> AnyBitmap (bitmap.rs, \<open>BitmapRef\<close>, \<open>BitmapRefMut\<close>, \<open>OwnedBitmap\<close>): the dispatch on the kind of a bitmap.
  \<^item> OpBitmap, OpBitmapSafety (bitmap.rs, \<open>OperationalBitmap\<close>): blur, shadows and tinted drawings.  The locale
    \<open>point_loop\<close> is a loop that never reads what it wrote.  The shadow of a window has a padding of 16
    on each side and a radius of 12, so it is large enough for the theorem about \<open>blur\<close>.

  \<^bold>\<open>What does not hold.\<close>  Several theorems state behaviour that the source does not intend: a call
  without arguments passes the verifier, an argument can be lost, a dropped constant can be added, a
  slice of the stack heap can dangle, an empty memory is not bounds-checked, a data segment can panic
  the loader, a queue that is empty can report that it is full, a thread can sleep for a free lock, the
  iterator over the pixels reads behind the bitmap, a vertical line misses the last row, a rename can wait
  for itself, a write cuts off the rest of a file, inode numbers are lost, a turned glyph is off by one column,
  the blur of a small picture leaves its vector, two overlapping allocations can get the same block or read a
  dropped node, a device can panic the kernel by its descriptor, a modifier key is never reported.
  The safety theorems exclude exactly these situations by their hypotheses.

  \<^bold>\<open>Not modelled.\<close>  The opcodes of the \<open>float\<close> features and SIMD, which the kernel is not
  built with; weak memory (the atomic accesses are taken as sequentially consistent); guard types and
  poisoning of the locks, event queues and asynchronous semaphores; the mapping of pages;
  anti-aliased lines, floating-point opacity and named colours; the device file system,
  the initialisation of the file manager and concurrent operations of a file system; the transfers
  of USB and game inputs; scheduler, other drivers, architecture, user interface, firmware tables and the boot loader, most of which work on device
  registers and raw memory of the firmware.
\<close>

end
